(* ===== verification/Prelude.thy ===== *)
theory Prelude
  imports Main "HOL-Library.Word" "HOL-Library.Monad_Syntax"
begin

text \<open>
  Shared vocabulary of the development.

  \<^item> Machine integer types and the 32-bit two's-complement wrap-around that the C code's
    \<open>int\<close> counters obey.
  \<^item> Kernel panics and failed \<open>assert\<close>s: an operation that can panic returns an \<open>option\<close>,
    and \<open>None\<close> means that the kernel stopped. \<open>cassert\<close> is C's \<open>assert\<close>, used with the
    \<open>do\<close> notation of the option monad.
  \<^item> Null-terminated linked lists threaded through a structure's \<open>next\<close> field: the
    predicate \<open>chain\<close> relates a head pointer to the list of nodes it reaches. The free
    page list, the homelists, the ready queue and the migration lists are all of this
    kind, and the update lemmas below carry their proofs.
\<close>

unbundle bit_operations_syntax

type_synonym u8 = "8 word"
type_synonym u16 = "16 word"
type_synonym u32 = "32 word"
type_synonym u64 = "64 word"

named_theorems frame_simps "fields an operation leaves alone"
named_theorems step_defs "definitions of the elementary kernel operations"

lemma ucast_u32_inj: "(ucast (a :: u32) :: u64) = ucast b \<longleftrightarrow> a = b"
proof
  assume "(ucast a :: u64) = ucast b"
  then have "bit (ucast a :: u64) n \<longleftrightarrow> bit (ucast b :: u64) n" for n
    by simp
  then show "a = b"
    by (intro bit_word_eqI) (fastforce simp: bit_ucast_iff)
qed simp

subsection \<open>Assertions in the option monad\<close>

definition cassert :: "bool \<Rightarrow> unit option" where
  "cassert b = (if b then Some () else None)"

lemma cassert_True [simp]: "cassert True = Some ()"
  by (simp add: cassert_def)

lemma cassert_False [simp]: "cassert False = None"
  by (simp add: cassert_def)

lemma cassert_eq_Some [simp]: "cassert b = Some u \<longleftrightarrow> b"
  by (simp add: cassert_def)

lemma cassert_bind_Some [simp]: "(cassert b \<bind> f = Some x) \<longleftrightarrow> b \<and> f () = Some x"
  by (cases b) simp_all

lemma cassert_bind_None: "(cassert b \<bind> f = None) \<longleftrightarrow> \<not> b \<or> f () = None"
  by (cases b) simp_all

lemma bind_SomeE:
  assumes "m \<bind> f = Some y"
  obtains x where "m = Some x" and "f x = Some y"
  using assms by (cases m) auto

lemma bind_pair_SomeE:
  assumes "(m \<bind> (\<lambda>(a, s). f a s)) = Some y"
  obtains a s where "m = Some (a, s)" and "f a s = Some y"
  using assms by (cases m) auto

subsection \<open>Signed 32-bit counters\<close>

definition wrap32 :: "int \<Rightarrow> int" where
  "wrap32 x = (x + 2 ^ 31) mod 2 ^ 32 - 2 ^ 31"

lemma wrap32_id [simp]: "- (2 ^ 31) \<le> x \<Longrightarrow> x < 2 ^ 31 \<Longrightarrow> wrap32 x = x"
  by (simp add: wrap32_def)

lemma wrap32_range: "- (2 ^ 31) \<le> wrap32 x \<and> wrap32 x < 2 ^ 31"
proof -
  have "0 \<le> (x + 2 ^ 31) mod 2 ^ 32" and "(x + 2 ^ 31) mod 2 ^ 32 < (2 ^ 32 :: int)"
    by simp_all
  then show ?thesis by (simp add: wrap32_def)
qed

subsection \<open>Rounding (ROUNDDOWN and ROUNDUP)\<close>

definition ROUNDDOWN :: "nat \<Rightarrow> nat \<Rightarrow> nat" where
  "ROUNDDOWN a n = a - a mod n"

definition ROUNDUP :: "nat \<Rightarrow> nat \<Rightarrow> nat" where
  "ROUNDUP a n = ROUNDDOWN (a + n - 1) n"

lemma ROUNDDOWN_le: "ROUNDDOWN a n \<le> a"
  by (simp add: ROUNDDOWN_def)

lemma ROUNDDOWN_dvd: "n dvd ROUNDDOWN a n"
  by (simp add: ROUNDDOWN_def dvd_minus_mod)

lemma ROUNDDOWN_gt: "0 < n \<Longrightarrow> a < ROUNDDOWN a n + n"
  using mod_less_divisor [of n a] mod_less_eq_dividend [of a n]
  unfolding ROUNDDOWN_def by linarith

lemma ROUNDUP_ge: "0 < n \<Longrightarrow> a \<le> ROUNDUP a n"
  using ROUNDDOWN_gt [of n "a + n - 1"] by (simp add: ROUNDUP_def)

lemma ROUNDUP_dvd: "n dvd ROUNDUP a n"
  by (simp add: ROUNDUP_def ROUNDDOWN_dvd)

lemma ROUNDUP_less: "0 < n \<Longrightarrow> ROUNDUP a n < a + n"
  using ROUNDDOWN_le [of "a + n - 1" n] by (simp add: ROUNDUP_def)

subsection \<open>Null-terminated linked lists\<close>

primrec chain :: "('a \<Rightarrow> 'a option) \<Rightarrow> 'a option \<Rightarrow> 'a list \<Rightarrow> bool" where
  "chain nx p [] \<longleftrightarrow> p = None"
| "chain nx p (a # as) \<longleftrightarrow> p = Some a \<and> chain nx (nx a) as"

lemma chain_None [simp]: "chain nx None as \<longleftrightarrow> as = []"
  by (cases as) simp_all

lemma chain_Some [simp]: "chain nx (Some a) as \<longleftrightarrow> (\<exists>bs. as = a # bs \<and> chain nx (nx a) bs)"
  by (cases as) auto

lemma chain_unique: "chain nx p as \<Longrightarrow> chain nx p bs \<Longrightarrow> as = bs"
  by (induction as arbitrary: p bs) auto

lemma chain_cong: "(\<And>a. a \<in> set as \<Longrightarrow> nx a = nx' a) \<Longrightarrow> chain nx p as = chain nx' p as"
  by (induction as arbitrary: p) auto

lemma chain_upd [simp]: "a \<notin> set as \<Longrightarrow> chain (nx(a := q)) p as = chain nx p as"
  by (rule chain_cong) auto

lemma chain_suffix: "chain nx p (as @ b # cs) \<Longrightarrow> chain nx (nx b) cs"
  by (induction as arbitrary: p) auto

lemma chain_distinct: "chain nx p as \<Longrightarrow> distinct as"
proof (induction as arbitrary: p)
  case Nil
  then show ?case by simp
next
  case (Cons a as)
  have "a \<notin> set as"
  proof
    assume "a \<in> set as"
    then obtain bs cs where as: "as = bs @ a # cs"
      by (meson split_list)
    from Cons.prems as have "chain nx (nx a) (bs @ a # cs)" and "chain nx (nx a) cs"
      using chain_suffix [of nx p "a # bs" a cs] by auto
    then have "bs @ a # cs = cs" by (rule chain_unique)
    then show False
      by (metis append_assoc append_self_conv2 append_Cons append_Nil list.distinct(1) self_append_conv2)
  qed
  with Cons show ?case by auto
qed

lemma chain_snoc:
  "chain nx p as \<Longrightarrow> a \<notin> set as \<Longrightarrow> as \<noteq> [] \<Longrightarrow>
   chain (nx(last as := Some a, a := None)) p (as @ [a])"
proof (induction as arbitrary: p)
  case Nil
  then show ?case by simp
next
  case (Cons b as)
  show ?case
  proof (cases "as = []")
    case True
    with Cons.prems show ?thesis by auto
  next
    case False
    from Cons.prems(1) have b: "b \<notin> set as"
      using chain_distinct [of nx p "b # as"] by simp
    with Cons.prems False have "last as \<noteq> b" and "a \<noteq> b"
      by auto
    with Cons False show ?thesis by auto
  qed
qed

lemma chain_last_None: "chain nx p as \<Longrightarrow> as \<noteq> [] \<Longrightarrow> nx (last as) = None"
  by (induction as arbitrary: p) (auto split: if_splits)

lemma chain_next_Some: "chain nx p as \<Longrightarrow> a \<in> set as \<Longrightarrow> a \<noteq> last as \<Longrightarrow> nx a \<noteq> None"
proof (induction as arbitrary: p)
  case (Cons b as)
  then show ?case by (cases as) (auto split: if_splits)
qed simp

text \<open>Unlinking one node: its predecessor's link, or the head, is redirected past it.\<close>

lemma chain_remove:
  assumes "chain nx p (as @ b # cs)" and "as \<noteq> []"
  shows "chain (nx(last as := nx b)) p (as @ cs)"
  using assms
proof (induction as arbitrary: p)
  case Nil
  then show ?case by simp
next
  case (Cons a as)
  show ?case
  proof (cases "as = []")
    case True
    from Cons.prems(1) have "distinct (a # as @ b # cs)"
      using chain_distinct by fastforce
    with True Cons.prems have "p = Some a" and "chain (nx(a := nx b)) (nx b) cs"
      by simp_all
    with True show ?thesis by (simp add: fun_upd_same del: fun_upd_apply)
  next
    case False
    from Cons.prems(1) have "distinct (a # as @ b # cs)"
      using chain_distinct by fastforce
    with False have "last as \<noteq> a" by auto
    with Cons False show ?thesis by auto
  qed
qed

end
