(* ===== verification/RemoteRef.thy ===== *)
theory RemoteRef
  imports Prelude
begin

text \<open>
  Remote references (\<open>kern/net.h\<close>): a page on a cluster node named by one word that can
  sit in a page table in place of a local entry. Bits 1-8 hold the home node, bits 9-10
  the nominal permissions, bit 11 marks the word as remote, bits 12-31 hold the page's
  physical address. Bit 0 (\<open>PTE_P\<close>) is always clear, so the hardware never follows one.
\<close>

definition RR_ADDR :: u64 where "RR_ADDR = 0xfffff000"
definition RR_REMOTE :: u64 where "RR_REMOTE = 0x800"
definition RR_RW :: u64 where "RR_RW = 0x600"
definition NET_MAXNODES :: nat where "NET_MAXNODES = 32"

definition RRCONS :: "u8 \<Rightarrow> u64 \<Rightarrow> u64 \<Rightarrow> u64" where
  "RRCONS node addr perm =
     RR_REMOTE OR (addr AND RR_ADDR) OR push_bit 1 (ucast node) OR (perm AND RR_RW)"

definition RRNODE :: "u64 \<Rightarrow> u8" where
  "RRNODE rr = ucast (drop_bit 1 rr)"

definition RRADDR :: "u64 \<Rightarrow> u64" where
  "RRADDR rr = rr AND RR_ADDR"

lemma bit_RR_ADDR: "bit RR_ADDR n \<longleftrightarrow> 12 \<le> n \<and> n < 32"
proof -
  have *: "RR_ADDR = push_bit 12 (mask 20)"
    by (simp add: RR_ADDR_def mask_eq_exp_minus_1)
  show ?thesis unfolding * bit_push_bit_iff bit_mask_iff by auto
qed

lemma bit_RR_REMOTE: "bit RR_REMOTE n \<longleftrightarrow> n = 11"
proof -
  have *: "RR_REMOTE = 2 ^ 11"
    by (simp add: RR_REMOTE_def)
  show ?thesis unfolding * bit_exp_iff by auto
qed

lemma bit_RR_RW: "bit RR_RW n \<longleftrightarrow> 9 \<le> n \<and> n < 11"
proof -
  have *: "RR_RW = push_bit 9 (mask 2)"
    by (simp add: RR_RW_def mask_eq_exp_minus_1)
  show ?thesis unfolding * bit_push_bit_iff bit_mask_iff by auto
qed

lemmas bit_RR_masks = bit_RR_ADDR bit_RR_REMOTE bit_RR_RW

lemma bit_RRCONS:
  "bit (RRCONS node addr perm) n \<longleftrightarrow>
     n = 11 \<or> 12 \<le> n \<and> n < 32 \<and> bit addr n \<or> 1 \<le> n \<and> n < 9 \<and> bit node (n - 1) \<or>
     9 \<le> n \<and> n < 11 \<and> bit perm n"
  unfolding RRCONS_def bit_or_iff bit_and_iff bit_RR_masks bit_push_bit_iff bit_ucast_iff
  by (auto dest: bit_imp_le_length)

lemma RRNODE_RRCONS [simp]: "RRNODE (RRCONS node addr perm) = node"
  by (rule bit_word_eqI) (auto simp: RRNODE_def bit_RRCONS bit_ucast_iff bit_drop_bit_eq)

lemma RRADDR_RRCONS [simp]: "RRADDR (RRCONS node addr perm) = addr AND RR_ADDR"
  by (rule bit_word_eqI) (auto simp: RRADDR_def bit_RRCONS bit_RR_masks bit_and_iff)

lemma RRADDR_idem [simp]: "RRADDR (RRADDR rr) = RRADDR rr"
  by (simp add: RRADDR_def)

lemma RRCONS_not_present: "\<not> bit (RRCONS node addr perm) 0"
  by (simp add: bit_RRCONS)

lemma RRCONS_remote: "RRCONS node addr perm AND RR_REMOTE \<noteq> 0"
proof -
  have "bit (RRCONS node addr perm AND RR_REMOTE) 11"
    by (simp add: bit_RRCONS bit_and_iff bit_RR_masks)
  then show ?thesis by force
qed

lemma RRCONS_RW: "RRCONS node addr perm AND RR_RW = perm AND RR_RW"
  by (rule bit_word_eqI) (auto simp: bit_RRCONS bit_and_iff bit_RR_masks)

lemma RRADDR_low32: "unat (RRADDR rr) < 2 ^ 32"
proof -
  have "RRADDR rr \<le> 0xfffff000"
    by (simp add: RRADDR_def RR_ADDR_def word_and_le1)
  then have "unat (RRADDR rr) \<le> unat (0xfffff000 :: u64)"
    by (simp only: word_le_nat_alt)
  then show ?thesis by simp
qed

end
