(* ===== verification/Mem.thy ===== *)
theory Mem
  imports RemoteRef
begin

text \<open>
  Physical memory management (\<open>kern/mem.c\<close>, \<open>kern/mem.h\<close>).

  A pageinfo pointer is the page's index in the \<open>mem_pageinfo\<close> array, so \<open>mem_pi2phys\<close> is
  multiplication by \<open>PAGESIZE\<close> and \<open>NULL\<close> is \<open>None\<close>. The globals of \<open>mem.c\<close> are the record
  \<open>mem\<close>; the pages that hold the zero page and the kernel image, which the linker places,
  are fields that no operation writes. The record is extensible: the page-map and process
  components add their own fields, and every operation here works on the extended state.

  Each operation between \<open>spinlock_acquire(&mem_freelock)\<close> and the matching release is one
  atomic step of the model.
\<close>

subsection \<open>State\<close>

definition PAGESIZE :: nat where "PAGESIZE = 4096"

record pageinfo =
  pi_free_next :: "nat option"
  pi_refcount :: int
  pi_home :: u64
  pi_shared :: u64
  pi_homelist :: "nat option"
  pi_homenext :: "nat option"

record mem =
  mem_npage :: nat
  mem_pageinfo :: "nat \<Rightarrow> pageinfo"
  mem_freelist :: "nat option"
  pmap_zero :: nat
  kern_start :: nat
  kern_last :: nat

abbreviation refcount :: "'a mem_scheme \<Rightarrow> nat \<Rightarrow> int" where
  "refcount s p \<equiv> pi_refcount (mem_pageinfo s p)"

abbreviation free_next :: "'a mem_scheme \<Rightarrow> nat \<Rightarrow> nat option" where
  "free_next s p \<equiv> pi_free_next (mem_pageinfo s p)"

definition upd_pi :: "nat \<Rightarrow> (pageinfo \<Rightarrow> pageinfo) \<Rightarrow> 'a mem_scheme \<Rightarrow> 'a mem_scheme" where
  "upd_pi p f s = s\<lparr>mem_pageinfo := (mem_pageinfo s)(p := f (mem_pageinfo s p))\<rparr>"


text \<open>\<open>mem_ptr2pi\<close> expects an address in the kernel's high mapping of physical memory. The kernel
  image is linked at its physical address, so applied to a linker symbol such as \<open>pmap_zero\<close>,
  \<open>start\<close> or \<open>end\<close> it yields an index that is \<open>- VM_KERNLO / PAGESIZE = 2 ^ 27\<close> too high. The
  checks that the reference-count functions make are modelled as they are.\<close>

definition sym2pi :: "nat \<Rightarrow> nat" where
  "sym2pi page = page + 2 ^ 27"

definition pi_valid :: "'a mem_scheme \<Rightarrow> nat \<Rightarrow> bool" where
  "pi_valid s p \<longleftrightarrow> 1 < p \<and> p < mem_npage s \<and> p \<noteq> sym2pi (pmap_zero s) \<and>
     (p < sym2pi (kern_start s) \<or> sym2pi (kern_last s) < p)"

text \<open>What the checks are meant to say: a page above the two reserved ones that is neither the
  zero page nor part of the kernel image.\<close>

definition pi_allocatable :: "'a mem_scheme \<Rightarrow> nat \<Rightarrow> bool" where
  "pi_allocatable s p \<longleftrightarrow> 1 < p \<and> p < mem_npage s \<and> p \<noteq> pmap_zero s \<and>
     (p < kern_start s \<or> kern_last s < p)"

lemma pi_valid_iff: "mem_npage s \<le> 2 ^ 27 \<Longrightarrow> pi_valid s p \<longleftrightarrow> 1 < p \<and> p < mem_npage s"
  by (auto simp: pi_valid_def sym2pi_def)

lemma pi_allocatable_valid: "mem_npage s \<le> 2 ^ 27 \<Longrightarrow> pi_allocatable s p \<Longrightarrow> pi_valid s p"
  by (simp add: pi_valid_iff pi_allocatable_def)

subsection \<open>Allocation and reference counts\<close>

definition mem_alloc :: "'a mem_scheme \<Rightarrow> nat option \<times> 'a mem_scheme" where
  "mem_alloc s =
     (case mem_freelist s of
        None \<Rightarrow> (None, s)
      | Some p \<Rightarrow>
          (Some p, upd_pi p (\<lambda>i. i\<lparr>pi_free_next := None, pi_home := 0, pi_shared := 0\<rparr>)
                     (s\<lparr>mem_freelist := free_next s p\<rparr>)))"

definition mem_free :: "nat \<Rightarrow> 'a mem_scheme \<Rightarrow> 'a mem_scheme option" where
  "mem_free p s =
     (if refcount s p \<noteq> 0 then None
      else if free_next s p \<noteq> None then None
      else Some ((upd_pi p (\<lambda>i. i\<lparr>pi_free_next := mem_freelist s\<rparr>) s)\<lparr>mem_freelist := Some p\<rparr>))"

definition mem_incref :: "nat \<Rightarrow> 'a mem_scheme \<Rightarrow> 'a mem_scheme option" where
  "mem_incref p s = do {
     cassert (pi_valid s p);
     Some (upd_pi p (\<lambda>i. i\<lparr>pi_refcount := wrap32 (pi_refcount i + 1)\<rparr>) s)
   }"

definition mem_decref ::
    "nat \<Rightarrow> (nat \<Rightarrow> 'a mem_scheme \<Rightarrow> 'a mem_scheme option) \<Rightarrow> 'a mem_scheme \<Rightarrow> 'a mem_scheme option" where
  "mem_decref p freefun s = do {
     cassert (pi_valid s p);
     let s1 = upd_pi p (\<lambda>i. i\<lparr>pi_refcount := wrap32 (pi_refcount i - 1)\<rparr>) s;
     s2 \<leftarrow> (if refcount s1 p = 0 \<and> pi_shared (mem_pageinfo s1 p) = 0 then freefun p s1 else Some s1);
     cassert (0 \<le> refcount s2 p);
     Some s2
   }"

subsection \<open>Remote-reference tracking\<close>

text \<open>The node and address checks both functions make before they look at a homelist; the
  result is the page whose homelist is searched.\<close>

definition rr_homepage :: "u32 \<Rightarrow> 'a mem_scheme \<Rightarrow> nat option" where
  "rr_homepage rr s = do {
     cassert (0 < unat (RRNODE (ucast rr)) \<and> unat (RRNODE (ucast rr)) \<le> NET_MAXNODES);
     let hpi = unat (RRADDR (ucast rr)) div PAGESIZE;
     cassert (1 < hpi \<and> hpi < mem_npage s);
     Some hpi
   }"

partial_function (option) rrtrack_scan :: "u32 \<Rightarrow> nat option \<Rightarrow> 'a mem_scheme \<Rightarrow> unit option" where
  "rrtrack_scan rr spi s =
     (case spi of
        None \<Rightarrow> Some ()
      | Some p \<Rightarrow>
          if RRADDR (pi_home (mem_pageinfo s p)) = RRADDR (ucast rr)
             \<and> pi_home (mem_pageinfo s p) \<noteq> ucast rr
          then rrtrack_scan rr (pi_homenext (mem_pageinfo s p)) s
          else None)"

definition mem_rrtrack :: "u32 \<Rightarrow> nat \<Rightarrow> 'a mem_scheme \<Rightarrow> 'a mem_scheme option" where
  "mem_rrtrack rr p s = do {
     cassert (pi_valid s p);
     hpi \<leftarrow> rr_homepage rr s;
     _ \<leftarrow> rrtrack_scan rr (pi_homelist (mem_pageinfo s hpi)) s;
     let s1 = upd_pi p (\<lambda>i. i\<lparr>pi_home := ucast rr\<rparr>) s;
     let s2 = upd_pi p (\<lambda>i. i\<lparr>pi_homenext := pi_homelist (mem_pageinfo s1 hpi)\<rparr>) s1;
     Some (upd_pi hpi (\<lambda>i. i\<lparr>pi_homelist := Some p\<rparr>) s2)
   }"

partial_function (option) rrlookup_scan :: "u32 \<Rightarrow> nat option \<Rightarrow> 'a mem_scheme \<Rightarrow> nat option option" where
  "rrlookup_scan rr spi s =
     (case spi of
        None \<Rightarrow> Some None
      | Some p \<Rightarrow>
          if RRADDR (pi_home (mem_pageinfo s p)) = RRADDR (ucast rr)
          then if pi_home (mem_pageinfo s p) = ucast rr then Some (Some p)
               else rrlookup_scan rr (pi_homenext (mem_pageinfo s p)) s
          else None)"

definition mem_rrlookup :: "u32 \<Rightarrow> 'a mem_scheme \<Rightarrow> (nat option \<times> 'a mem_scheme) option" where
  "mem_rrlookup rr s = do {
     hpi \<leftarrow> rr_homepage rr s;
     r \<leftarrow> rrlookup_scan rr (pi_homelist (mem_pageinfo s hpi)) s;
     (case r of
        None \<Rightarrow> Some (None, s)
      | Some p \<Rightarrow> do { s1 \<leftarrow> mem_incref p s; Some (Some p, s1) })
   }"

subsection \<open>Boot-time initialisation\<close>

definition MEM_EXT :: u64 where "MEM_EXT = 0x100000"
definition MEM_RESERVED :: u32 where "MEM_RESERVED = 2"
definition sizeof_pageinfo :: nat where "sizeof_pageinfo = 48"

record mem_addr_range =
  ar_base :: u64
  ar_size :: u64
  ar_type :: u32

text \<open>The scan of the firmware's memory map: \<open>basemem\<close>, \<open>extmem\<close> and \<open>mem_max\<close>, as 64-bit
  \<open>size_t\<close> sums.\<close>

fun mem_ranges :: "mem_addr_range list \<Rightarrow> u64 \<Rightarrow> u64 \<Rightarrow> u64 \<Rightarrow> (u64 \<times> u64 \<times> u64) option" where
  "mem_ranges [] basemem extmem mmax = Some (basemem, extmem, mmax)"
| "mem_ranges (r # rs) basemem extmem mmax =
     (let end = ar_base r + ar_size r;
          mmax' = (if mmax < end then end else mmax)
      in if ar_size r > 0
         then if ar_type r = MEM_RESERVED then mem_ranges rs basemem extmem mmax'
              else if ar_base r < MEM_EXT then mem_ranges rs (basemem + ar_size r) extmem mmax'
              else mem_ranges rs basemem (extmem + ar_size r) mmax'
         else None)"

text \<open>\<open>freetail\<close> points at \<open>mem_freelist\<close> itself (\<open>None\<close>) or at a page's \<open>free_next\<close>.\<close>

definition set_tail :: "nat option \<Rightarrow> nat option \<Rightarrow> 'a mem_scheme \<Rightarrow> 'a mem_scheme" where
  "set_tail freetail v s =
     (case freetail of
        None \<Rightarrow> s\<lparr>mem_freelist := v\<rparr>
      | Some j \<Rightarrow> upd_pi j (\<lambda>i. i\<lparr>pi_free_next := v\<rparr>) s)"

definition page_inuse :: "nat \<Rightarrow> nat \<Rightarrow> nat \<Rightarrow> bool" where
  "page_inuse basemem freemem i =
     (\<not> (1 < i \<and> i < basemem div PAGESIZE) \<and> \<not> freemem div PAGESIZE \<le> i)"

function chain_free ::
    "nat \<Rightarrow> nat \<Rightarrow> nat \<Rightarrow> nat option \<Rightarrow> 'a mem_scheme \<Rightarrow> nat option \<times> 'a mem_scheme" where
  "chain_free basemem freemem i freetail s =
     (if i < mem_npage s then
        let inuse = page_inuse basemem freemem i;
            s1 = upd_pi i (\<lambda>p. p\<lparr>pi_refcount := (if inuse then 1 else 0)\<rparr>) s
        in if inuse then chain_free basemem freemem (Suc i) freetail s1
           else chain_free basemem freemem (Suc i) (Some i) (set_tail freetail (Some i) s1)
      else (freetail, s))"
  by pat_completeness auto
termination
  by (relation "measure (\<lambda>(b, f, i, t, s). mem_npage s - i)")
    (auto simp: set_tail_def upd_pi_def split: option.splits)

declare chain_free.simps [simp del]

partial_function (option) count_free :: "nat option \<Rightarrow> nat \<Rightarrow> 'a mem_scheme \<Rightarrow> nat option" where
  "count_free pp freepages s =
     (case pp of None \<Rightarrow> Some freepages | Some p \<Rightarrow> count_free (free_next s p) (Suc freepages) s)"

text \<open>The boot-time self test. The free list is taken away for a while (\<open>mem_freelist = 0\<close>)
  and given back at the end.\<close>

definition mem_check :: "'a mem_scheme \<Rightarrow> 'a mem_scheme option" where
  "mem_check s = do {
     freepages \<leftarrow> count_free (mem_freelist s) 0 s;
     cassert (freepages < mem_npage s);
     cassert (freepages > 16000);
     let (a0, s) = mem_alloc s;
     pp0 \<leftarrow> a0;
     let (a1, s) = mem_alloc s;
     pp1 \<leftarrow> a1;
     let (a2, s) = mem_alloc s;
     pp2 \<leftarrow> a2;
     cassert (pp1 \<noteq> pp0);
     cassert (pp2 \<noteq> pp1 \<and> pp2 \<noteq> pp0);
     cassert (pp0 * PAGESIZE < mem_npage s * PAGESIZE);
     cassert (pp1 * PAGESIZE < mem_npage s * PAGESIZE);
     cassert (pp2 * PAGESIZE < mem_npage s * PAGESIZE);
     let fl = mem_freelist s;
     let s = s\<lparr>mem_freelist := None\<rparr>;
     let (a, s) = mem_alloc s;
     cassert (a = None);
     s \<leftarrow> mem_free pp0 s;
     s \<leftarrow> mem_free pp1 s;
     s \<leftarrow> mem_free pp2 s;
     let (a0, s) = mem_alloc s;
     pp0 \<leftarrow> a0;
     let (a1, s) = mem_alloc s;
     pp1 \<leftarrow> a1;
     let (a2, s) = mem_alloc s;
     pp2 \<leftarrow> a2;
     cassert (pp1 \<noteq> pp0);
     cassert (pp2 \<noteq> pp1 \<and> pp2 \<noteq> pp0);
     let (a, s) = mem_alloc s;
     cassert (a = None);
     let s = s\<lparr>mem_freelist := fl\<rparr>;
     s \<leftarrow> mem_free pp0 s;
     s \<leftarrow> mem_free pp1 s;
     mem_free pp2 s
   }"

definition zero_pageinfo :: pageinfo where
  "zero_pageinfo = \<lparr>pi_free_next = None, pi_refcount = 0, pi_home = 0, pi_shared = 0,
     pi_homelist = None, pi_homenext = None\<rparr>"

text \<open>\<open>kend\<close> is the linker's \<open>end\<close> symbol. The pageinfo array is placed just past it and free
  extended memory starts at the next page boundary after the array.\<close>

definition freemem_of :: "nat \<Rightarrow> nat \<Rightarrow> nat" where
  "freemem_of kend npage =
     ROUNDUP (ROUNDUP kend sizeof_pageinfo + sizeof_pageinfo * npage) PAGESIZE"

definition mem_init :: "bool \<Rightarrow> mem_addr_range list \<Rightarrow> nat \<Rightarrow> 'a mem_scheme \<Rightarrow> 'a mem_scheme option" where
  "mem_init onboot ranges kend s =
     (if \<not> onboot then Some s
      else do {
        (basemem, extmem, mmax) \<leftarrow> mem_ranges ranges 0 MEM_EXT 0;
        let npage = unat mmax div PAGESIZE;
        let freemem = freemem_of kend npage;
        let s1 = s\<lparr>mem_npage := npage,
                   mem_pageinfo := (\<lambda>i. if i < npage then zero_pageinfo else mem_pageinfo s i)\<rparr>;
        let (freetail, s2) = chain_free (unat basemem) freemem 0 None s1;
        mem_check (set_tail freetail None s2)
      })"

subsection \<open>Frame and update lemmas\<close>

lemma upd_pi_simps [simp]:
  "mem_pageinfo (upd_pi p f s) = (mem_pageinfo s)(p := f (mem_pageinfo s p))"
  "mem_npage (upd_pi p f s) = mem_npage s" "mem_freelist (upd_pi p f s) = mem_freelist s"
  "pmap_zero (upd_pi p f s) = pmap_zero s" "kern_start (upd_pi p f s) = kern_start s"
  "kern_last (upd_pi p f s) = kern_last s"
  by (simp_all add: upd_pi_def)

lemma pi_valid_upd_pi [simp]: "pi_valid (upd_pi p f s) q = pi_valid s q"
  by (simp add: pi_valid_def)

lemma pi_valid_freelist [simp]: "pi_valid (s\<lparr>mem_freelist := v\<rparr>) q = pi_valid s q"
  by (simp add: pi_valid_def)

lemma pi_allocatable_upd_pi [simp]: "pi_allocatable (upd_pi p f s) q = pi_allocatable s q"
  by (simp add: pi_allocatable_def)

lemma pi_allocatable_freelist [simp]: "pi_allocatable (s\<lparr>mem_freelist := v\<rparr>) q = pi_allocatable s q"
  by (simp add: pi_allocatable_def)

lemma set_tail_simps [simp]:
  "mem_npage (set_tail t v s) = mem_npage s" "pmap_zero (set_tail t v s) = pmap_zero s"
  "kern_start (set_tail t v s) = kern_start s" "kern_last (set_tail t v s) = kern_last s"
  "refcount (set_tail t v s) p = refcount s p"
  by (auto simp: set_tail_def split: option.splits)

subsection \<open>The free list as a list\<close>

text \<open>\<open>mem_wf s fl\<close>: memory is at most 512 GB, the span of the kernel's high mapping; the free
  list is exactly \<open>fl\<close>; the pages on it are unreferenced pages of
  allocatable memory; no other page has a free-list link.\<close>

definition mem_wf :: "'a mem_scheme \<Rightarrow> nat list \<Rightarrow> bool" where
  "mem_wf s fl \<longleftrightarrow>
     mem_npage s \<le> 2 ^ 27 \<and>
     chain (free_next s) (mem_freelist s) fl \<and>
     (\<forall>p < mem_npage s. p \<notin> set fl \<longrightarrow> free_next s p = None) \<and>
     (\<forall>p \<in> set fl. refcount s p = 0 \<and> pi_allocatable s p)"

text \<open>What a page must satisfy to go back on the free list.\<close>

definition mem_freeable :: "'a mem_scheme \<Rightarrow> nat \<Rightarrow> bool" where
  "mem_freeable s p \<longleftrightarrow> pi_allocatable s p \<and> refcount s p = 0"

lemma mem_wf_distinct: "mem_wf s fl \<Longrightarrow> distinct fl"
  unfolding mem_wf_def using chain_distinct by blast

lemma mem_wf_freeable: "mem_wf s fl \<Longrightarrow> p \<in> set fl \<Longrightarrow> mem_freeable s p"
  by (auto simp: mem_wf_def mem_freeable_def)

lemma mem_wf_unique: "mem_wf s fl \<Longrightarrow> mem_wf s fl' \<Longrightarrow> fl = fl'"
  by (meson mem_wf_def chain_unique)

lemma free_next_upd: "(\<lambda>q. pi_free_next (((mem_pageinfo s)(p := v)) q)) = (free_next s)(p := pi_free_next v)"
  by auto

lemma mem_alloc_Nil: "mem_wf s [] \<Longrightarrow> mem_alloc s = (None, s)"
  by (simp add: mem_wf_def mem_alloc_def)

lemma mem_alloc_Cons:
  assumes "mem_wf s (p # fl)"
  shows "\<exists>s'. mem_alloc s = (Some p, s') \<and> mem_wf s' fl \<and> mem_freeable s' = mem_freeable s"
proof -
  let ?s = "snd (mem_alloc s)"
  from assms have p: "mem_freelist s = Some p" and ch: "chain (free_next s) (free_next s p) fl"
    and nin: "p \<notin> set fl"
    using mem_wf_distinct [OF assms] by (auto simp: mem_wf_def)
  have "mem_alloc s = (Some p, ?s)"
    using p by (simp add: mem_alloc_def)
  moreover have "mem_wf ?s fl"
    using assms p ch nin
    by (auto simp: mem_wf_def mem_alloc_def free_next_upd simp del: fun_upd_apply) (auto simp: mem_wf_def)
  moreover have "mem_freeable ?s = mem_freeable s"
    using p by (auto simp: mem_freeable_def mem_alloc_def fun_eq_iff)
  ultimately show ?thesis by blast
qed

lemma mem_free_ok:
  assumes "mem_wf s fl" and "p \<notin> set fl" and "mem_freeable s p"
  shows "\<exists>s'. mem_free p s = Some s' \<and> mem_wf s' (p # fl) \<and> mem_freeable s' = mem_freeable s"
proof -
  let ?s = "(upd_pi p (\<lambda>i. i\<lparr>pi_free_next := mem_freelist s\<rparr>) s)\<lparr>mem_freelist := Some p\<rparr>"
  from assms have "free_next s p = None" and "refcount s p = 0" and v: "pi_allocatable s p"
    by (auto simp: mem_wf_def mem_freeable_def pi_allocatable_def)
  then have "mem_free p s = Some ?s"
    by (simp add: mem_free_def)
  moreover have "mem_wf ?s (p # fl)"
    using assms(1,2) v \<open>refcount s p = 0\<close>
    by (auto simp: mem_wf_def free_next_upd simp del: fun_upd_apply) (auto simp: mem_wf_def)
  moreover have "mem_freeable ?s = mem_freeable s"
    by (auto simp: mem_freeable_def fun_eq_iff)
  ultimately show ?thesis by blast
qed

subsection \<open>The allocator's contract\<close>

text \<open>What the rest of the kernel relies on: a pool of pages that \<open>alloc\<close> pops and \<open>free\<close>
  pushes. \<open>wf s fl\<close> says that the pool of state \<open>s\<close> is the list \<open>fl\<close>, and \<open>freeable\<close> which
  pages may be returned.\<close>

locale page_pool =
  fixes alloc :: "'s \<Rightarrow> nat option \<times> 's"
    and free :: "nat \<Rightarrow> 's \<Rightarrow> 's option"
    and wf :: "'s \<Rightarrow> nat list \<Rightarrow> bool"
    and freeable :: "'s \<Rightarrow> nat \<Rightarrow> bool"
  assumes alloc_Nil: "wf s [] \<Longrightarrow> alloc s = (None, s)"
    and alloc_Cons: "wf s (p # fl) \<Longrightarrow>
          \<exists>s'. alloc s = (Some p, s') \<and> wf s' fl \<and> freeable s' = freeable s"
    and free_ok: "wf s fl \<Longrightarrow> p \<notin> set fl \<Longrightarrow> freeable s p \<Longrightarrow>
          \<exists>s'. free p s = Some s' \<and> wf s' (p # fl) \<and> freeable s' = freeable s"
    and pool_distinct: "wf s fl \<Longrightarrow> distinct fl"
    and pool_freeable: "wf s fl \<Longrightarrow> p \<in> set fl \<Longrightarrow> freeable s p"
begin

fun alloc_n :: "nat \<Rightarrow> 's \<Rightarrow> nat list \<times> 's" where
  "alloc_n 0 s = ([], s)"
| "alloc_n (Suc n) s =
     (case alloc s of (None, s') \<Rightarrow> ([], s')
      | (Some p, s') \<Rightarrow> (let (ps, s'') = alloc_n n s' in (p # ps, s'')))"

fun free_all :: "nat list \<Rightarrow> 's \<Rightarrow> 's option" where
  "free_all [] s = Some s"
| "free_all (p # ps) s = (case free p s of None \<Rightarrow> None | Some s' \<Rightarrow> free_all ps s')"

lemma alloc_n_take:
  "wf s fl \<Longrightarrow> \<exists>s'. alloc_n n s = (take n fl, s') \<and> wf s' (drop n fl) \<and> freeable s' = freeable s"
proof (induction n arbitrary: s fl)
  case 0
  then show ?case by simp
next
  case (Suc n)
  show ?case
  proof (cases fl)
    case Nil
    with Suc.prems show ?thesis by (simp add: alloc_Nil)
  next
    case (Cons p fl')
    with Suc.prems obtain s' where s': "alloc s = (Some p, s')" "wf s' fl'" "freeable s' = freeable s"
      using alloc_Cons by blast
    with Suc.IH [OF s'(2)] Cons show ?thesis by auto
  qed
qed

lemma alloc_n_distinct: "wf s fl \<Longrightarrow> alloc_n n s = (ps, s') \<Longrightarrow> distinct ps"
  using alloc_n_take [of s fl n] pool_distinct [of s fl] by auto

lemma free_all_rev:
  "wf s fl \<Longrightarrow> distinct ps \<Longrightarrow> set ps \<inter> set fl = {} \<Longrightarrow> \<forall>p \<in> set ps. freeable s p \<Longrightarrow>
   \<exists>s'. free_all ps s = Some s' \<and> wf s' (rev ps @ fl) \<and> freeable s' = freeable s"
proof (induction ps arbitrary: s fl)
  case Nil
  then show ?case by simp
next
  case (Cons p ps)
  then obtain s' where s': "free p s = Some s'" "wf s' (p # fl)" "freeable s' = freeable s"
    using free_ok [of s fl p] by auto
  from Cons.prems s' have "\<exists>s''. free_all ps s' = Some s'' \<and> wf s'' (rev ps @ p # fl)
      \<and> freeable s'' = freeable s'"
    by (intro Cons.IH) auto
  with s' show ?case by auto
qed

lemma alloc_free_roundtrip:
  assumes "wf s fl" and "alloc s = (Some p, s')"
  shows "\<exists>s''. free p s' = Some s'' \<and> wf s'' fl"
proof -
  from assms obtain fl' where fl: "fl = p # fl'"
    by (cases fl) (use alloc_Nil alloc_Cons in fastforce)+
  with assms have "wf s' fl'" and "freeable s' = freeable s"
    using alloc_Cons [of s p fl'] by auto
  moreover have "p \<notin> set fl'" and "freeable s p"
    using fl pool_distinct [OF assms(1)] pool_freeable [OF assms(1)] by auto
  ultimately show ?thesis
    using free_ok [of s' fl' p] fl by auto
qed

end

interpretation pool: page_pool mem_alloc mem_free mem_wf mem_freeable
  by unfold_locales
    (use mem_alloc_Nil mem_alloc_Cons mem_free_ok mem_wf_distinct mem_wf_freeable in blast)+

subsection \<open>The self test\<close>

lemma count_free_chain: "chain (free_next s) p fl \<Longrightarrow> count_free p n s = Some (n + length fl)"
  by (induction fl arbitrary: p n) (simp_all add: count_free.simps)

definition clear_rr :: "nat \<Rightarrow> 'a mem_scheme \<Rightarrow> 'a mem_scheme" where
  "clear_rr p s = upd_pi p (\<lambda>i. i\<lparr>pi_home := 0, pi_shared := 0\<rparr>) s"

lemma clear_rr_wf: "mem_wf s fl \<Longrightarrow> mem_wf (clear_rr p s) fl"
proof -
  assume wf: "mem_wf s fl"
  have "free_next (clear_rr p s) = free_next s" and "refcount (clear_rr p s) = refcount s"
    by (auto simp: clear_rr_def)
  with wf show ?thesis
    by (simp add: mem_wf_def) (simp add: clear_rr_def)
qed

lemma mem_check_eq:
  assumes "mem_wf s (p0 # p1 # p2 # rest)" and "length rest + 3 < mem_npage s"
    and "16000 < length rest + 3"
  shows "mem_check s = Some (clear_rr p0 (clear_rr p1 (clear_rr p2 s)))"
proof -
  from assms(1) have ch: "mem_freelist s = Some p0" "free_next s p0 = Some p1" "free_next s p1 = Some p2"
    by (auto simp: mem_wf_def)
  have cnt: "count_free (Some p0) 0 s = Some (length rest + 3)"
    using assms(1) count_free_chain [of s "Some p0" "p0 # p1 # p2 # rest" 0] by (simp add: mem_wf_def)
  have d: "p0 \<noteq> p1" "p0 \<noteq> p2" "p1 \<noteq> p2" "p1 \<noteq> p0" "p2 \<noteq> p0" "p2 \<noteq> p1"
    using mem_wf_distinct [OF assms(1)] by auto
  have b: "p0 < mem_npage s" "p1 < mem_npage s" "p2 < mem_npage s"
    and r: "refcount s p0 = 0" "refcount s p1 = 0" "refcount s p2 = 0"
    using assms(1) by (auto simp: mem_wf_def pi_allocatable_def)
  show ?thesis
    using assms(2,3)
    by (simp add: mem_check_def mem_alloc_def mem_free_def ch cnt d b r PAGESIZE_def clear_rr_def)
      (intro mem.equality ext; simp add: upd_pi_def d ch)
qed

subsection \<open>The free list that boot builds\<close>

definition free_pages :: "nat \<Rightarrow> nat \<Rightarrow> nat \<Rightarrow> nat \<Rightarrow> nat list" where
  "free_pages basemem freemem i n = filter (\<lambda>j. \<not> page_inuse basemem freemem j) [i..<n]"

lemma free_pages_step:
  "i < n \<Longrightarrow> free_pages b f i n = (if page_inuse b f i then [] else [i]) @ free_pages b f (Suc i) n"
  by (simp add: free_pages_def upt_conv_Cons)

lemma set_tail_snoc:
  assumes "chain (free_next (set_tail t None s)) (mem_freelist (set_tail t None s)) acc"
    and "t = (if acc = [] then None else Some (last acc))" and "i \<notin> set acc"
  shows "chain (free_next (set_tail (Some i) None (set_tail t (Some i) s)))
           (mem_freelist (set_tail (Some i) None (set_tail t (Some i) s))) (acc @ [i])"
proof (cases "acc = []")
  case True
  with assms show ?thesis by (simp add: set_tail_def)
next
  case False
  with assms have "i \<noteq> last acc" by auto
  let ?nx = "(free_next s)(last acc := None)"
  from False assms have "chain ?nx (mem_freelist s) acc"
    by (simp add: set_tail_def free_next_upd del: fun_upd_apply)
  then have "chain (?nx(last acc := Some i, i := None)) (mem_freelist s) (acc @ [i])"
    using assms(3) False by (rule chain_snoc)
  moreover have "?nx(last acc := Some i, i := None) =
      free_next (set_tail (Some i) None (set_tail (Some (last acc)) (Some i) s))"
    using \<open>i \<noteq> last acc\<close> by (auto simp: set_tail_def)
  ultimately show ?thesis
    using False assms(2) by (simp add: set_tail_def)
qed

lemma set_tail_upd_refcount:
  "chain (free_next (set_tail t v (upd_pi i (\<lambda>p. p\<lparr>pi_refcount := r\<rparr>) s)))
     (mem_freelist (set_tail t v (upd_pi i (\<lambda>p. p\<lparr>pi_refcount := r\<rparr>) s))) acc \<longleftrightarrow>
   chain (free_next (set_tail t v s)) (mem_freelist (set_tail t v s)) acc"
proof -
  have "free_next (set_tail t v (upd_pi i (\<lambda>p. p\<lparr>pi_refcount := r\<rparr>) s)) = free_next (set_tail t v s)"
    by (auto simp: set_tail_def split: option.splits)
  moreover have "mem_freelist (set_tail t v (upd_pi i (\<lambda>p. p\<lparr>pi_refcount := r\<rparr>) s)) =
      mem_freelist (set_tail t v s)"
    by (auto simp: set_tail_def split: option.splits)
  ultimately show ?thesis by simp
qed

lemma chain_free_chain:
  "chain (free_next (set_tail t None s)) (mem_freelist (set_tail t None s)) acc \<Longrightarrow>
   t = (if acc = [] then None else Some (last acc)) \<Longrightarrow> \<forall>a \<in> set acc. a < i \<Longrightarrow>
   chain_free b f i t s = (t', s') \<Longrightarrow>
   chain (free_next (set_tail t' None s')) (mem_freelist (set_tail t' None s'))
     (acc @ free_pages b f i (mem_npage s))"
proof (induction b f i t s arbitrary: acc rule: chain_free.induct)
  case (1 b f i t s)
  let ?s1 = "upd_pi i (\<lambda>p. p\<lparr>pi_refcount := (if page_inuse b f i then 1 else 0)\<rparr>) s"
  show ?case
  proof (cases "i < mem_npage s")
    case False
    with "1.prems"(4) have "t' = t" and "s' = s"
      by (simp_all add: chain_free.simps [of b f i t s])
    with "1.prems"(1) False show ?thesis by (simp add: free_pages_def)
  next
    case i: True
    show ?thesis
    proof (cases "page_inuse b f i")
      case True
      with i "1.prems"(4) have "chain_free b f (Suc i) t ?s1 = (t', s')"
        by (simp add: chain_free.simps [of b f i t s] Let_def)
      moreover have "chain (free_next (set_tail t None ?s1)) (mem_freelist (set_tail t None ?s1)) acc"
        using "1.prems"(1) by (simp only: set_tail_upd_refcount)
      ultimately show ?thesis
        using "1.IH"(1) [OF i refl refl True] "1.prems"(2,3) True i
        by (simp add: free_pages_step less_Suc_eq)
    next
      case False
      with i "1.prems"(4) have "chain_free b f (Suc i) (Some i) (set_tail t (Some i) ?s1) = (t', s')"
        by (simp add: chain_free.simps [of b f i t s] Let_def)
      note run = this
      have "chain (free_next (set_tail t None ?s1)) (mem_freelist (set_tail t None ?s1)) acc"
        using "1.prems"(1) by (simp only: set_tail_upd_refcount)
      then have ch: "chain (free_next (set_tail (Some i) None (set_tail t (Some i) ?s1)))
           (mem_freelist (set_tail (Some i) None (set_tail t (Some i) ?s1))) (acc @ [i])"
        using "1.prems"(2,3) by (intro set_tail_snoc) auto
      have lt: "\<forall>a \<in> set (acc @ [i]). a < Suc i"
        using "1.prems"(3) by auto
      from "1.IH"(2) [OF i refl refl False ch _ lt run] False i show ?thesis
        by (simp add: free_pages_step)
    qed
  qed
qed

lemma chain_free_frame:
  "chain_free b f i t s = (t', s') \<Longrightarrow>
   mem_npage s' = mem_npage s \<and> pmap_zero s' = pmap_zero s \<and> kern_start s' = kern_start s \<and>
   kern_last s' = kern_last s \<and>
   (\<forall>j. refcount s' j = (if i \<le> j \<and> j < mem_npage s then if page_inuse b f j then 1 else 0 else refcount s j))"
proof (induction b f i t s rule: chain_free.induct)
  case (1 b f i t s)
  show ?case
  proof (cases "i < mem_npage s")
    case False
    with "1.prems" show ?thesis by (auto simp: chain_free.simps [of b f i t s])
  next
    case i: True
    let ?s1 = "upd_pi i (\<lambda>p. p\<lparr>pi_refcount := (if page_inuse b f i then 1 else 0)\<rparr>) s"
    show ?thesis
      using "1.IH" [OF i refl refl] "1.prems" i
      by (auto simp: chain_free.simps [of b f i t s] Let_def le_eq_less_or_eq split: if_splits)
  qed
qed

text \<open>Pages off the free list keep no link: the loop writes the link of a page only once it
  is the tail, and its last link is cleared at the end.\<close>

lemma chain_free_unlinked:
  "chain_free b f i t s = (t', s') \<Longrightarrow> t \<noteq> Some j \<Longrightarrow> page_inuse b f j \<Longrightarrow>
   free_next s j = None \<Longrightarrow> free_next (set_tail t' None s') j = None"
proof (induction b f i t s rule: chain_free.induct)
  case (1 b f i t s)
  show ?case
  proof (cases "i < mem_npage s")
    case False
    with "1.prems" show ?thesis
      by (auto simp: chain_free.simps [of b f i t s] set_tail_def split: option.splits)
  next
    case i: True
    show ?thesis
    proof (cases "page_inuse b f i")
      case True
      with "1.IH"(1) [OF i refl refl True] "1.prems" i show ?thesis
        by (cases "j = i") (simp_all add: chain_free.simps [of b f i t s] Let_def)
    next
      case False
      let ?s1 = "upd_pi i (\<lambda>p. p\<lparr>pi_refcount := (if page_inuse b f i then 1 else 0)\<rparr>) s"
      from False "1.prems" have "i \<noteq> j" by auto
      then have "free_next (set_tail t (Some i) ?s1) j = None"
        using "1.prems"(2,4) by (auto simp: set_tail_def split: option.splits)
      moreover have "chain_free b f (Suc i) (Some i) (set_tail t (Some i) ?s1) = (t', s')"
        using "1.prems"(1) i False by (simp add: chain_free.simps [of b f i t s] Let_def)
      ultimately show ?thesis
        using "1.IH"(2) [OF i refl refl False] "1.prems"(3) \<open>i \<noteq> j\<close> by simp
    qed
  qed
qed

lemma chain_free_wf:
  assumes "chain_free b f 0 None s = (t, s')"
    and "\<And>i. i < mem_npage s \<Longrightarrow> mem_pageinfo s i = zero_pageinfo"
    and "\<And>i. i < mem_npage s \<Longrightarrow> \<not> page_inuse b f i \<Longrightarrow> pi_allocatable s i"
    and "mem_npage s \<le> 2 ^ 27"
  shows "mem_wf (set_tail t None s') (free_pages b f 0 (mem_npage s))"
proof -
  let ?s = "set_tail t None s'" and ?fl = "free_pages b f 0 (mem_npage s)"
  have ch: "chain (free_next ?s) (mem_freelist ?s) ?fl"
    using chain_free_chain [of None s "[]" 0 b f t s'] assms(1) by (simp add: set_tail_def)
  note fr = chain_free_frame [OF assms(1)]
  have "free_next ?s p = None" if "p < mem_npage ?s" "p \<notin> set ?fl" for p
    using that chain_free_unlinked [OF assms(1), of p] assms(2) [of p] fr
    by (auto simp: free_pages_def zero_pageinfo_def)
  moreover have "refcount ?s p = 0 \<and> pi_allocatable ?s p" if "p \<in> set ?fl" for p
    using that fr assms(3) [of p] by (auto simp: free_pages_def pi_allocatable_def)
  ultimately show ?thesis
    using ch fr assms(4) by (auto simp: mem_wf_def)
qed

lemma free_pages_split: "16000 < length fl \<Longrightarrow> \<exists>p0 p1 p2 rest. fl = p0 # p1 # p2 # rest"
  by (cases fl; cases "tl fl"; cases "tl (tl fl)") auto

lemma mem_check_wf:
  assumes "mem_wf s fl" and "16000 < length fl" and "length fl < mem_npage s"
  shows "\<exists>s'. mem_check s = Some s' \<and> mem_wf s' fl"
proof -
  from assms(2) obtain p0 p1 p2 rest where fl: "fl = p0 # p1 # p2 # rest"
    using free_pages_split by blast
  with assms have "mem_check s = Some (clear_rr p0 (clear_rr p1 (clear_rr p2 s)))"
    by (intro mem_check_eq) auto
  with assms(1) clear_rr_wf show ?thesis by blast
qed

lemma length_free_pages_less: "0 < n \<Longrightarrow> 4096 \<le> f \<Longrightarrow> length (free_pages b f 0 n) < n"
proof -
  assume "0 < n" "4096 \<le> f"
  then have "free_pages b f 0 n = free_pages b f 1 n"
    by (simp add: free_pages_step page_inuse_def PAGESIZE_def)
  moreover have "length (free_pages b f 1 n) \<le> length [1..<n]"
    unfolding free_pages_def by (rule length_filter_le)
  ultimately show ?thesis using \<open>0 < n\<close> by simp
qed

subsection \<open>Properties of the page allocator\<close>

lemma free_pages_eq:
  assumes "2 \<le> b div PAGESIZE" "b div PAGESIZE \<le> f div PAGESIZE" "f div PAGESIZE \<le> n"
  shows "free_pages b f 0 n = [2..<b div PAGESIZE] @ [f div PAGESIZE..<n]"
proof -
  let ?b = "b div PAGESIZE" and ?f = "f div PAGESIZE"
  have "[0..<n] = [0..<2] @ [2..<?b] @ [?b..<?f] @ [?f..<n]"
    using assms by (metis le_trans upt_add_eq_append le0 le_Suc_ex)
  moreover have "filter (\<lambda>j. \<not> page_inuse b f j) [0..<2] = []"
    using assms by (auto simp: page_inuse_def filter_empty_conv)
  moreover have "filter (\<lambda>j. \<not> page_inuse b f j) [2..<?b] = [2..<?b]"
    by (auto simp: page_inuse_def filter_id_conv)
  moreover have "filter (\<lambda>j. \<not> page_inuse b f j) [?b..<?f] = []"
    by (auto simp: page_inuse_def filter_empty_conv)
  moreover have "filter (\<lambda>j. \<not> page_inuse b f j) [?f..<n] = [?f..<n]"
    by (auto simp: page_inuse_def filter_id_conv)
  ultimately show ?thesis
    unfolding free_pages_def by (metis append_Nil filter_append)
qed


definition demo_map :: "mem_addr_range list" where
  "demo_map = [\<lparr>ar_base = 0, ar_size = 0x9f000, ar_type = 1\<rparr>, \<lparr>ar_base = 0xf0000, ar_size = 0x10000, ar_type = 2\<rparr>,
     \<lparr>ar_base = 0x100000, ar_size = 0x7f00000, ar_type = 1\<rparr>]"

definition demo_mem :: mem where
  "demo_mem = \<lparr>mem_npage = 0, mem_pageinfo = (\<lambda>_. zero_pageinfo), mem_freelist = None,
     pmap_zero = 300, kern_start = 256, kern_last = 511\<rparr>"


lemma mem_decref_ok:
  assumes "mem_wf s fl" and "pi_allocatable s p" and "0 < refcount s p" and "refcount s p < 2 ^ 31"
  shows "\<exists>s'. mem_decref p mem_free s = Some s' \<and> refcount s' p = refcount s p - 1 \<and>
           (\<forall>q. q \<noteq> p \<longrightarrow> refcount s' q = refcount s q) \<and>
           mem_wf s' (if refcount s p = 1 \<and> pi_shared (mem_pageinfo s p) = 0 then p # fl else fl)"
proof -
  let ?s1 = "upd_pi p (\<lambda>i. i\<lparr>pi_refcount := wrap32 (pi_refcount i - 1)\<rparr>) s"
  have v: "pi_valid s p"
    using assms(1,2) pi_allocatable_valid by (auto simp: mem_wf_def)
  have nin: "p \<notin> set fl"
    using assms(1,3) by (auto simp: mem_wf_def)
  have w: "wrap32 (refcount s p - 1) = refcount s p - 1"
    using assms(3,4) by simp
  have fn: "free_next ?s1 = free_next s"
    by auto
  have wf: "mem_wf ?s1 fl"
    using assms(1) nin unfolding mem_wf_def fn by auto
  show ?thesis
  proof (cases "refcount s p = 1 \<and> pi_shared (mem_pageinfo s p) = 0")
    case True
    have "mem_freeable ?s1 p"
      using True assms(2) w by (simp add: mem_freeable_def)
    with wf nin obtain s' where s': "mem_free p ?s1 = Some s'" "mem_wf s' (p # fl)"
      using pool.free_ok by blast
    moreover have "refcount s' q = refcount ?s1 q" for q
      using s'(1) by (auto simp: mem_free_def split: if_splits)
    ultimately show ?thesis
      using True v w by (auto simp: mem_decref_def)
  next
    case False
    with wf w v assms(3) show ?thesis
      by (intro exI [of _ ?s1]) (auto simp: mem_decref_def)
  qed
qed

text \<open>dropping a reference. Above one the count just goes down; the last reference to a page
  that was never sent to another node returns it to the head of the free list; a page that
  another node may still name stays allocated with a count of zero.\<close>

theorem mem_decref_cases:
  assumes "mem_wf s fl" and "pi_allocatable s p" and "0 < refcount s p" and "refcount s p < 2 ^ 31"
  shows "\<exists>s'. mem_decref p mem_free s = Some s' \<and> refcount s' p = refcount s p - 1 \<and>
           (\<forall>q. q \<noteq> p \<longrightarrow> refcount s' q = refcount s q) \<and>
           mem_wf s' (if refcount s p = 1 \<and> pi_shared (mem_pageinfo s p) = 0 then p # fl else fl)"
  using assms by (rule mem_decref_ok)

definition demo_pool :: mem where
  "demo_pool = \<lparr>mem_npage = 10, mem_pageinfo = (\<lambda>p. zero_pageinfo\<lparr>pi_refcount := (if p = 4 then 1 else 0)\<rparr>),
     mem_freelist = None, pmap_zero = 8, kern_start = 8, kern_last = 8\<rparr>"

theorem mem_decref_cases_witness:
  "\<exists>s'. mem_decref 4 mem_free demo_pool = Some s' \<and> refcount s' 4 = 0 \<and> mem_wf s' [4]"
proof -
  have "mem_wf demo_pool []" and "pi_allocatable demo_pool 4"
    by (simp_all add: mem_wf_def pi_allocatable_def demo_pool_def zero_pageinfo_def)
  from mem_decref_cases [OF this] show ?thesis
    by (simp add: demo_pool_def zero_pageinfo_def) metis
qed

subsection \<open>Homelists\<close>

abbreviation home_of :: "'a mem_scheme \<Rightarrow> nat \<Rightarrow> u64" where
  "home_of s q \<equiv> pi_home (mem_pageinfo s q)"

text \<open>\<open>homes s h l\<close>: the homelist of page frame \<open>h\<close> is \<open>l\<close>.\<close>

definition homes :: "'a mem_scheme \<Rightarrow> nat \<Rightarrow> nat list \<Rightarrow> bool" where
  "homes s h l \<longleftrightarrow> chain (\<lambda>q. pi_homenext (mem_pageinfo s q)) (pi_homelist (mem_pageinfo s h)) l"

definition rr_wf :: "'a mem_scheme \<Rightarrow> bool" where
  "rr_wf s \<longleftrightarrow> (\<forall>h < mem_npage s. \<exists>l. homes s h l \<and>
     (\<forall>q \<in> set l. pi_valid s q \<and> unat (RRADDR (home_of s q)) = h * PAGESIZE))"

definition rr_untracked :: "'a mem_scheme \<Rightarrow> nat \<Rightarrow> bool" where
  "rr_untracked s p \<longleftrightarrow> (\<forall>h < mem_npage s. \<forall>l. homes s h l \<longrightarrow> p \<notin> set l)"

lemma homes_unique: "homes s h l \<Longrightarrow> homes s h l' \<Longrightarrow> l = l'"
  unfolding homes_def by (rule chain_unique)

lemma RRADDR_aligned: "unat (RRADDR rr) = unat (RRADDR rr) div PAGESIZE * PAGESIZE"
proof -
  have "take_bit 12 (RRADDR rr) = 0"
    by (rule bit_word_eqI) (auto simp: RRADDR_def bit_RR_masks bit_and_iff bit_take_bit_iff)
  then have "unat (take_bit 12 (RRADDR rr)) = 0" by simp
  then have "take_bit 12 (unat (RRADDR rr)) = 0"
    by (simp only: unsigned_take_bit_eq)
  then have "unat (RRADDR rr) mod PAGESIZE = 0"
    by (simp add: PAGESIZE_def take_bit_eq_mod)
  then show ?thesis
    using div_mult_mod_eq [of "unat (RRADDR rr)" PAGESIZE] by simp
qed

lemma rrlookup_scan_find:
  "chain (\<lambda>q. pi_homenext (mem_pageinfo s q)) p l \<Longrightarrow>
   \<forall>q \<in> set l. RRADDR (home_of s q) = RRADDR (ucast rr) \<Longrightarrow>
   rrlookup_scan rr p s = Some (find (\<lambda>q. home_of s q = ucast rr) l)"
  by (induction l arbitrary: p) (simp_all add: rrlookup_scan.simps)

lemma rrtrack_scan_ok:
  "chain (\<lambda>q. pi_homenext (mem_pageinfo s q)) p l \<Longrightarrow>
   \<forall>q \<in> set l. RRADDR (home_of s q) = RRADDR (ucast rr) \<Longrightarrow>
   rrtrack_scan rr p s = (if \<exists>q \<in> set l. home_of s q = ucast rr then None else Some ())"
  by (induction l arbitrary: p) (simp_all add: rrtrack_scan.simps)

lemma rr_homepage_SomeD:
  assumes "rr_homepage rr s = Some h"
  shows "h < mem_npage s" and "unat (RRADDR (ucast rr)) = h * PAGESIZE"
  using assms RRADDR_aligned [of "ucast rr"] by (auto simp: rr_homepage_def Let_def)

lemma rr_wf_homes:
  assumes "rr_wf s" and "rr_homepage rr s = Some h"
  shows "\<exists>l. homes s h l \<and> (\<forall>q \<in> set l. pi_valid s q \<and> RRADDR (home_of s q) = RRADDR (ucast rr))"
  using assms(1) rr_homepage_SomeD [OF assms(2)] unfolding rr_wf_def by (simp add: word_unat_eq_iff)

text \<open>Looking a reference up is a search of its homelist: it always returns, and takes a
  reference on what it finds.\<close>

lemma mem_rrlookup_find:
  assumes "rr_wf s" and "rr_homepage rr s = Some h" and "homes s h l"
  shows "mem_rrlookup rr s =
    (case find (\<lambda>q. home_of s q = ucast rr) l of None \<Rightarrow> Some (None, s)
     | Some q \<Rightarrow> map_option (\<lambda>s'. (Some q, s')) (mem_incref q s))"
proof -
  from assms have "\<forall>q \<in> set l. RRADDR (home_of s q) = RRADDR (ucast rr)"
    using rr_wf_homes [OF assms(1,2)] homes_unique [OF assms(3)] by metis
  with assms(3) have "rrlookup_scan rr (pi_homelist (mem_pageinfo s h)) s =
      Some (find (\<lambda>q. home_of s q = ucast rr) l)"
    unfolding homes_def by (rule rrlookup_scan_find)
  with assms(2) show ?thesis
    by (auto simp: mem_rrlookup_def map_option_case bind_eq_Some_conv split: option.splits)
qed

lemma mem_rrlookup_fst:
  assumes "rr_wf s" and "rr_homepage rr s = Some h" and "homes s h l"
  shows "map_option fst (mem_rrlookup rr s) = Some (find (\<lambda>q. home_of s q = ucast rr) l)"
proof (cases "find (\<lambda>q. home_of s q = ucast rr) l")
  case None
  with assms show ?thesis by (simp add: mem_rrlookup_find)
next
  case (Some q)
  then have "q \<in> set l" by (auto simp: find_Some_iff)
  then have "pi_valid s q"
    using rr_wf_homes [OF assms(1,2)] homes_unique [OF assms(3)] by metis
  with assms Some show ?thesis by (simp add: mem_rrlookup_find mem_incref_def)
qed

definition link_home :: "nat \<Rightarrow> nat \<Rightarrow> u32 \<Rightarrow> 'a mem_scheme \<Rightarrow> 'a mem_scheme" where
  "link_home h p rr s = upd_pi h (\<lambda>i. i\<lparr>pi_homelist := Some p\<rparr>) (upd_pi p (\<lambda>i. i\<lparr>pi_homenext :=
     pi_homelist (mem_pageinfo s h)\<rparr>) (upd_pi p (\<lambda>i. i\<lparr>pi_home := ucast rr\<rparr>) s))"

lemma mem_rrtrack_state:
  assumes "rr_wf s" and "rr_homepage rr s = Some h" and "homes s h l" and "pi_valid s p"
    and "\<forall>q \<in> set l. home_of s q \<noteq> ucast rr"
  shows "mem_rrtrack rr p s = Some (link_home h p rr s)"
proof -
  from assms(1-3) have "\<forall>q \<in> set l. RRADDR (home_of s q) = RRADDR (ucast rr)"
    using rr_wf_homes [OF assms(1,2)] homes_unique [OF assms(3)] by metis
  with assms(3,5) have "rrtrack_scan rr (pi_homelist (mem_pageinfo s h)) s = Some ()"
    unfolding homes_def by (subst rrtrack_scan_ok) auto
  moreover have "pi_homelist (mem_pageinfo (upd_pi p (\<lambda>i. i\<lparr>pi_home := ucast rr\<rparr>) s) h)
      = pi_homelist (mem_pageinfo s h)"
    by simp
  ultimately show ?thesis
    using assms(2,4) by (simp add: mem_rrtrack_def link_home_def)
qed

lemma link_home_simps [simp]:
  "mem_npage (link_home h p rr s) = mem_npage s" "pi_valid (link_home h p rr s) q = pi_valid s q"
  "home_of (link_home h p rr s) q = (if q = p then ucast rr else home_of s q)"
  "refcount (link_home h p rr s) q = refcount s q" "rr_homepage r (link_home h p rr s) = rr_homepage r s"
  by (auto simp: link_home_def rr_homepage_def)

lemma homes_track:
  assumes "homes s g l" and "p \<notin> set l"
  shows "homes (link_home h p rr s) g (if g = h then p # l else l)"
proof -
  let ?nx = "\<lambda>q. pi_homenext (mem_pageinfo s q)" and ?s = "link_home h p rr s"
  have nx: "(\<lambda>q. pi_homenext (mem_pageinfo ?s q)) = ?nx(p := pi_homelist (mem_pageinfo s h))"
    by (auto simp: link_home_def)
  have hl: "pi_homelist (mem_pageinfo ?s g) = (if g = h then Some p else pi_homelist (mem_pageinfo s g))"
    by (auto simp: link_home_def)
  show ?thesis
    unfolding homes_def nx hl using assms
    by (auto simp: homes_def fun_upd_same simp del: fun_upd_apply)
qed

text \<open>tracking a remote reference and finding it again. If the homelists are well formed, \<open>p\<close>
  is an allocatable page on none of them, \<open>rr\<close> names a page of another node of the cluster
  and is not tracked yet, then \<open>mem_rrtrack\<close> does not panic; afterwards the homelists are
  well formed, \<open>mem_rrlookup rr\<close> returns \<open>p\<close> with one more reference, and a lookup of any
  other reference finds the page it found before.\<close>

theorem mem_rrtrack_lookup:
  assumes "rr_wf s" and "rr_untracked s p" and "pi_valid s p" and "rr_homepage rr s = Some h"
    and "homes s h l" and "\<forall>q \<in> set l. home_of s q \<noteq> ucast rr"
  shows "\<exists>s'. mem_rrtrack rr p s = Some s' \<and> rr_wf s' \<and>
     map_option fst (mem_rrlookup rr s') = Some (Some p) \<and>
     (\<forall>s''. mem_rrlookup rr s' = Some (Some p, s'') \<longrightarrow> refcount s'' p = wrap32 (refcount s p + 1)) \<and>
     (\<forall>rr'. rr' \<noteq> rr \<and> rr_homepage rr' s \<noteq> None \<longrightarrow>
        map_option fst (mem_rrlookup rr' s') = map_option fst (mem_rrlookup rr' s))"
proof -
  let ?s = "link_home h p rr s"
  have run: "mem_rrtrack rr p s = Some ?s"
    using assms(1,4,5,3,6) by (rule mem_rrtrack_state)
  have nin: "p \<notin> set m" if "homes s g m" "g < mem_npage s" for g m
    using assms(2) that by (auto simp: rr_untracked_def)
  have wf: "rr_wf ?s"
    unfolding rr_wf_def
  proof (intro allI impI)
    fix g
    assume "g < mem_npage ?s"
    then have g: "g < mem_npage s" by simp
    with assms(1) obtain m where m: "homes s g m"
      "\<forall>q \<in> set m. pi_valid s q \<and> unat (RRADDR (home_of s q)) = g * PAGESIZE"
      unfolding rr_wf_def by blast
    then show "\<exists>m. homes ?s g m \<and> (\<forall>q \<in> set m. pi_valid ?s q \<and> unat (RRADDR (home_of ?s q)) = g * PAGESIZE)"
      using homes_track [OF m(1) nin [OF m(1) g]] rr_homepage_SomeD(2) [OF assms(4)] assms(3) nin [OF m(1) g]
      by (intro exI [of _ "if g = h then p # m else m"]) auto
  qed
  have "homes ?s h (p # l)"
    using homes_track [OF assms(5) nin [OF assms(5) rr_homepage_SomeD(1) [OF assms(4)]], of h rr]
    by simp
  with wf assms(3,4) have look: "mem_rrlookup rr ?s = map_option (\<lambda>s'. (Some p, s')) (mem_incref p ?s)"
    by (subst mem_rrlookup_find [of ?s rr h "p # l"]) auto
  have other: "map_option fst (mem_rrlookup rr' ?s) = map_option fst (mem_rrlookup rr' s)"
    if "rr' \<noteq> rr" "rr_homepage rr' s = Some g" for rr' g
  proof -
    note rr' = that
    have g: "g < mem_npage s" using rr_homepage_SomeD(1) [OF rr'(2)] .
    obtain m where m: "homes s g m" and v: "\<forall>q \<in> set m. pi_valid s q"
      using rr_wf_homes [OF assms(1) rr'(2)] by blast
    let ?P = "\<lambda>q. home_of s q = ucast rr'"
    have ne: "ucast rr \<noteq> (ucast rr' :: u64)"
      using rr'(1) by (simp add: ucast_u32_inj)
    have "find (\<lambda>q. home_of ?s q = ucast rr') (if g = h then p # m else m) = find ?P m"
      using ne nin [OF m g] by (auto simp: find_None_iff intro!: find_cong)
    moreover have "rr_homepage rr' ?s = Some g"
      using rr'(2) by simp
    ultimately show ?thesis
      using mem_rrlookup_fst [OF wf _ homes_track [OF m nin [OF m g], of h rr], of rr']
        mem_rrlookup_fst [OF assms(1) rr'(2) m] by (simp only:)
  qed
  show ?thesis
    using run wf look other assms(3) by (intro exI [of _ ?s]) (auto simp: mem_incref_def)
qed

definition demo_track :: mem where
  "demo_track = \<lparr>mem_npage = 16, mem_pageinfo = (\<lambda>p. zero_pageinfo\<lparr>pi_refcount := 1\<rparr>),
     mem_freelist = None, pmap_zero = 8, kern_start = 8, kern_last = 8\<rparr>"

theorem mem_rrtrack_lookup_witness:
  "\<exists>s'. mem_rrtrack 0x5806 7 demo_track = Some s' \<and> rr_wf s' \<and>
     map_option fst (mem_rrlookup 0x5806 s') = Some (Some 7)"
proof -
  have hs: "homes demo_track h l \<longleftrightarrow> l = []" for h l
    by (simp add: homes_def demo_track_def zero_pageinfo_def)
  have "rr_wf demo_track" and "rr_untracked demo_track 7" and "pi_valid demo_track 7"
    by (simp_all add: rr_wf_def rr_untracked_def hs) (simp add: pi_valid_iff demo_track_def)
  moreover have "rr_homepage 0x5806 demo_track = Some 5"
    by (simp add: rr_homepage_def RRNODE_def RRADDR_def RR_ADDR_def demo_track_def PAGESIZE_def NET_MAXNODES_def)
  ultimately show ?thesis
    using mem_rrtrack_lookup [of demo_track 7 "0x5806" 5 "[]"] by (auto simp: hs)
qed

end
