(* ===== verification/Mmu.thy ===== *)
theory Mmu
  imports Mem
begin

text \<open>
  Addresses and page-table entries (\<open>inc/mmu.h\<close>, \<open>inc/vm.h\<close>) and the memory that holds them.

  Linear addresses are natural numbers. The kernel only ever computes with user addresses and
  sizes below \<open>VM_USERHI + PDSIZE 3\<close>, far from \<open>2 ^ 64\<close>, so the shifts and masks of the C macros
  are division and remainder; \<open>PDX_word\<close>, \<open>PDOFF_word\<close> and \<open>PDADDR_word\<close> show that this is what
  the masks compute on 64-bit words. Page-table entries are 64-bit words, handled with the same
  masks as in the code.

  Physical memory is an array of 64-bit words: word \<open>512 * p + i\<close> is the \<open>i\<close>-th entry of page
  \<open>p\<close> when that page is a table. A \<open>pte_t *\<close> is the index of a word, so pointer increments are
  modelled as such. Bytes of a page are bytes of these words, in little-endian order. The kernel
  reads and writes physical memory through its high mapping, so \<open>mem_ptr\<close> is the identity here.
\<close>

subsection \<open>Linear addresses\<close>

definition NPTENTRIES :: nat where "NPTENTRIES = 512"
definition NPTLVLS :: nat where "NPTLVLS = 3"
definition VM_USERLO :: nat where "VM_USERLO = 0x40000000"
definition VM_USERHI :: nat where "VM_USERHI = 0x800000000000"
definition VM_KERNLO :: u64 where "VM_KERNLO = 0xffffff8000000000"

definition PDSHIFT :: "nat \<Rightarrow> nat" where "PDSHIFT n = 12 + 9 * n"
definition PDSIZE :: "nat \<Rightarrow> nat" where "PDSIZE n = 2 ^ PDSHIFT n"
definition PDX :: "nat \<Rightarrow> nat \<Rightarrow> nat" where "PDX n la = la div PDSIZE n mod NPTENTRIES"
definition PDOFF :: "nat \<Rightarrow> nat \<Rightarrow> nat" where "PDOFF n la = la mod PDSIZE n"
definition PDADDR :: "nat \<Rightarrow> nat \<Rightarrow> nat" where "PDADDR n la = la - la mod PDSIZE n"
definition PGOFF :: "nat \<Rightarrow> nat" where "PGOFF la = la mod PAGESIZE"

lemma PDSIZE_pos [simp]: "0 < PDSIZE n"
  by (simp add: PDSIZE_def)

lemma PDSIZE_Suc: "PDSIZE (Suc n) = NPTENTRIES * PDSIZE n"
  by (simp add: PDSIZE_def PDSHIFT_def NPTENTRIES_def power_add)

lemma PDSIZE_0: "PDSIZE 0 = PAGESIZE"
  by (simp add: PDSIZE_def PDSHIFT_def PAGESIZE_def)

lemma PDX_less [simp]: "PDX n la < NPTENTRIES"
  by (simp add: PDX_def NPTENTRIES_def)

lemma PDOFF_less [simp]: "PDOFF n la < PDSIZE n"
  by (simp add: PDOFF_def)

lemma PDADDR_plus_PDOFF: "PDADDR n la + PDOFF n la = la"
  by (simp add: PDADDR_def PDOFF_def)

lemma PDADDR_next_gt: "la < PDADDR n (la + PDSIZE n)"
  using mod_less_divisor [OF PDSIZE_pos, of "la + PDSIZE n" n]
    mod_less_eq_dividend [of "la + PDSIZE n" "PDSIZE n"]
  unfolding PDADDR_def by linarith

lemma PDADDR_end_gt: "la < PDADDR n la + PDSIZE n"
  using mod_less_divisor [OF PDSIZE_pos, of la n] mod_less_eq_dividend [of la "PDSIZE n"]
  unfolding PDADDR_def by linarith

lemma unat_and_mask: "unat (w AND mask n :: u64) = unat w mod 2 ^ n"
  by (simp only: take_bit_eq_mask [symmetric] unsigned_take_bit_eq) (simp add: take_bit_eq_mod)

lemma PDX_word: "unat (drop_bit (PDSHIFT n) la AND mask 9 :: u64) = PDX n (unat la)"
  by (simp only: unat_and_mask unat_drop_bit_eq)
    (simp add: PDX_def PDSIZE_def NPTENTRIES_def drop_bit_eq_div)

lemma PDOFF_word: "unat (la AND mask (PDSHIFT n) :: u64) = PDOFF n (unat la)"
  by (simp add: unat_and_mask PDOFF_def PDSIZE_def)

lemma PDADDR_word: "unat (la AND NOT (mask (PDSHIFT n)) :: u64) = PDADDR n (unat la)"
proof -
  have "la = (la AND NOT (mask (PDSHIFT n))) OR (la AND mask (PDSHIFT n))"
    by (rule bit_word_eqI) (auto simp: bit_or_iff bit_and_iff bit_not_iff)
  also have "\<dots> = (la AND NOT (mask (PDSHIFT n))) + (la AND mask (PDSHIFT n))"
    by (rule disjunctive_add [symmetric]) (auto simp: bit_and_iff bit_not_iff)
  finally have "la AND NOT (mask (PDSHIFT n)) = la - (la AND mask (PDSHIFT n))"
    by (simp add: eq_diff_eq)
  moreover have "la AND mask (PDSHIFT n) \<le> la"
    by (rule word_and_le2)
  ultimately show ?thesis
    by (simp add: unat_sub PDOFF_word PDADDR_def PDOFF_def)
qed

subsection \<open>Page-table entries\<close>

definition PTE_ADDR :: "u64 \<Rightarrow> u64" where "PTE_ADDR pte = pte AND 0x000FFFFFFFFFF000"
definition PGADDR :: "u64 \<Rightarrow> u64" where "PGADDR la = la AND NOT 0xFFF"

definition PTE_P :: u64 where "PTE_P = 0x001"
definition PTE_W :: u64 where "PTE_W = 0x002"
definition PTE_U :: u64 where "PTE_U = 0x004"
definition PTE_A :: u64 where "PTE_A = 0x020"
definition PTE_D :: u64 where "PTE_D = 0x040"
definition PTE_G :: u64 where "PTE_G = 0x100"
definition SYS_READ :: u64 where "SYS_READ = 0x200"
definition SYS_WRITE :: u64 where "SYS_WRITE = 0x400"
definition SYS_RW :: u64 where "SYS_RW = 0x600"

lemmas pte_flag_defs =
  PTE_P_def PTE_W_def PTE_U_def PTE_A_def PTE_D_def PTE_G_def SYS_READ_def SYS_WRITE_def SYS_RW_def

text \<open>The page an entry points at (\<open>mem_phys2pi(PTE_ADDR(pte))\<close>, and the variant with \<open>PGADDR\<close>), and
  the entry word of a page's physical address (\<open>mem_pi2phys\<close>).\<close>

definition pte_page :: "u64 \<Rightarrow> nat" where "pte_page pte = unat (PTE_ADDR pte) div PAGESIZE"
definition pgaddr_page :: "u64 \<Rightarrow> nat" where "pgaddr_page pte = unat (PGADDR pte) div PAGESIZE"
definition mem_pi2phys :: "nat \<Rightarrow> u64" where "mem_pi2phys p = of_nat (p * PAGESIZE)"

definition has :: "u64 \<Rightarrow> u64 \<Rightarrow> bool" where "has pte flag \<longleftrightarrow> pte AND flag \<noteq> 0"

lemma bit_addr_mask: "bit (0x000FFFFFFFFFF000 :: u64) n \<longleftrightarrow> 12 \<le> n \<and> n < 52"
proof -
  have *: "(0x000FFFFFFFFFF000 :: u64) = push_bit 12 (mask 40)"
    by (simp add: mask_eq_exp_minus_1)
  show ?thesis unfolding * bit_push_bit_iff bit_mask_iff by auto
qed

lemma bit_low12: "bit (0xFFF :: u64) n \<longleftrightarrow> n < 12"
proof -
  have *: "(0xFFF :: u64) = mask 12"
    by (simp add: mask_eq_exp_minus_1)
  show ?thesis unfolding * bit_mask_iff by auto
qed

lemma bit_PTE_ADDR: "bit (PTE_ADDR pte) n \<longleftrightarrow> 12 \<le> n \<and> n < 52 \<and> bit pte n"
  unfolding PTE_ADDR_def bit_and_iff bit_addr_mask by auto

lemma PTE_ADDR_idem [simp]: "PTE_ADDR (PTE_ADDR pte) = PTE_ADDR pte"
  by (simp add: PTE_ADDR_def)

lemma PTE_ADDR_or: "PTE_ADDR (a OR b) = PTE_ADDR a OR PTE_ADDR b"
  by (simp add: PTE_ADDR_def bit.conj_disj_distrib2)

lemma PTE_ADDR_and: "PTE_ADDR (a AND b) = PTE_ADDR a AND b"
  by (simp add: PTE_ADDR_def ac_simps)

lemma PTE_ADDR_flags [simp]:
  "PTE_ADDR PTE_P = 0" "PTE_ADDR PTE_W = 0" "PTE_ADDR PTE_U = 0" "PTE_ADDR PTE_A = 0"
  "PTE_ADDR PTE_D = 0" "PTE_ADDR SYS_READ = 0" "PTE_ADDR SYS_WRITE = 0" "PTE_ADDR SYS_RW = 0"
  by (simp_all add: PTE_ADDR_def pte_flag_defs)

lemma PTE_ADDR_clear_W [simp]: "PTE_ADDR (pte AND NOT PTE_W) = PTE_ADDR pte"
proof -
  have "(0x000FFFFFFFFFF000 :: u64) AND NOT PTE_W = 0x000FFFFFFFFFF000"
    by (simp add: PTE_W_def)
  then show ?thesis
    unfolding PTE_ADDR_def by (metis (no_types, lifting) and.assoc and.commute)
qed

lemma PTE_ADDR_set_P [simp]: "PTE_ADDR (pte OR PTE_P) = PTE_ADDR pte"
  by (simp add: PTE_ADDR_or)

lemma pte_page_simps [simp]:
  "pte_page (pte OR PTE_P) = pte_page pte" "pte_page (pte AND NOT PTE_W) = pte_page pte"
  by (simp_all add: pte_page_def)

text \<open>A page number that fits the 40-bit address field survives the trip through an entry.\<close>

lemma PTE_ADDR_pi2phys:
  assumes "p < 2 ^ 40"
  shows "PTE_ADDR (mem_pi2phys p) = mem_pi2phys p"
proof -
  have eq: "mem_pi2phys p = push_bit 12 (of_nat p)"
    by (simp add: mem_pi2phys_def PAGESIZE_def push_bit_eq_mult)
  have small: "n < 40" if "bit p n" for n
    using assms that by (metis bit_take_bit_iff take_bit_nat_eq_self)
  show ?thesis
    unfolding eq
    by (rule bit_word_eqI) (auto simp: bit_PTE_ADDR bit_push_bit_iff bit_of_nat_iff dest: small)
qed

lemma unat_pi2phys: "p < 2 ^ 40 \<Longrightarrow> unat (mem_pi2phys p) = p * PAGESIZE"
  unfolding mem_pi2phys_def unsigned_of_nat of_nat_id
  by (rule take_bit_nat_eq_self) (simp add: PAGESIZE_def)

lemma pte_page_pi2phys: "p < 2 ^ 40 \<Longrightarrow> pte_page (mem_pi2phys p) = p"
  by (simp add: pte_page_def PTE_ADDR_pi2phys unat_pi2phys) (simp add: PAGESIZE_def)

lemma pi2phys_inject: "p < 2 ^ 40 \<Longrightarrow> q < 2 ^ 40 \<Longrightarrow> mem_pi2phys p = mem_pi2phys q \<longleftrightarrow> p = q"
  by (metis pte_page_pi2phys)

lemma pte_page_or_flags:
  "PTE_ADDR f = 0 \<Longrightarrow> p < 2 ^ 40 \<Longrightarrow> pte_page (mem_pi2phys p OR f) = p"
  using pte_page_pi2phys [of p] by (simp add: pte_page_def PTE_ADDR_or)

end
