(* ===== verification/Pmap.thy ===== *)
theory Pmap
  imports Mmu
begin

text \<open>
  Page maps (\<open>kern/pmap.c\<close>): four-level page tables with copy-on-write sharing of whole
  sub-trees, and the byte-wise three-way merge that makes private workspaces consistent.

  The state adds physical memory (\<open>phys\<close>) and the bootstrap page map's page to the allocator's
  state. A table argument (\<open>pte_t *pmtab\<close>) is the index of the table's first word. An operation
  returns \<open>None\<close> where the kernel panics or fails an assertion. The TLB is not modelled:
  \<open>pmap_inval\<close> has no effect on the state here, and translation always reads the tables.
\<close>

subsection \<open>State\<close>

record vmem = mem +
  phys :: "nat \<Rightarrow> u64"
  pmap_bootpmap :: nat

definition PTE_ZERO :: "'a mem_scheme \<Rightarrow> u64" where
  "PTE_ZERO s = mem_pi2phys (pmap_zero s)"

definition wr :: "nat \<Rightarrow> u64 \<Rightarrow> 'a vmem_scheme \<Rightarrow> 'a vmem_scheme" where
  "wr p v s = s\<lparr>phys := (phys s)(p := v)\<rparr>"

text \<open>Entry \<open>i\<close> of the table in page \<open>p\<close>.\<close>

definition tabptr :: "nat \<Rightarrow> nat" where "tabptr p = p * NPTENTRIES"

text \<open>\<open>memmove\<close> of a whole page, and a write of all entries of a table.\<close>

definition copy_page :: "nat \<Rightarrow> nat \<Rightarrow> 'a vmem_scheme \<Rightarrow> 'a vmem_scheme" where
  "copy_page dst src s =
     s\<lparr>phys := (\<lambda>i. if i div NPTENTRIES = dst then phys s (tabptr src + i mod NPTENTRIES) else phys s i)\<rparr>"

definition map_table :: "nat \<Rightarrow> (u64 \<Rightarrow> u64) \<Rightarrow> 'a vmem_scheme \<Rightarrow> 'a vmem_scheme" where
  "map_table p f s = s\<lparr>phys := (\<lambda>i. if i div NPTENTRIES = p then f (phys s i) else phys s i)\<rparr>"

definition tab_perm :: u64 where "tab_perm = PTE_A OR PTE_P OR PTE_W OR PTE_U"

subsection \<open>Freeing tables\<close>

fun free_entries ::
    "(nat \<Rightarrow> 'a vmem_scheme \<Rightarrow> 'a vmem_scheme option) \<Rightarrow> nat \<Rightarrow> nat \<Rightarrow> 'a vmem_scheme \<Rightarrow> 'a vmem_scheme option"
where
  "free_entries freefun pte 0 s = Some s"
| "free_entries freefun pte (Suc n) s = do {
     s1 \<leftarrow> (if PTE_ADDR (phys s pte) \<noteq> PTE_ZERO s then mem_decref (pte_page (phys s pte)) freefun s else Some s);
     free_entries freefun (Suc pte) n s1
   }"

definition pmap_freept :: "nat \<Rightarrow> 'a vmem_scheme \<Rightarrow> 'a vmem_scheme option" where
  "pmap_freept ptpi s = do {
     s1 \<leftarrow> free_entries mem_free (tabptr ptpi) NPTENTRIES s;
     mem_free ptpi s1
   }"

definition pmap_freepd :: "nat \<Rightarrow> 'a vmem_scheme \<Rightarrow> 'a vmem_scheme option" where
  "pmap_freepd pdpi s = do {
     s1 \<leftarrow> free_entries pmap_freept (tabptr pdpi) NPTENTRIES s;
     mem_free pdpi s1
   }"

definition pmap_freepdp :: "nat \<Rightarrow> 'a vmem_scheme \<Rightarrow> 'a vmem_scheme option" where
  "pmap_freepdp pdppi s = do {
     s1 \<leftarrow> free_entries pmap_freepd (tabptr pdppi) NPTENTRIES s;
     mem_free pdppi s1
   }"

definition pmap_freefun :: "nat \<Rightarrow> nat \<Rightarrow> 'a vmem_scheme \<Rightarrow> 'a vmem_scheme option" where
  "pmap_freefun n = (if n = 0 then pmap_freept else if n = 1 then pmap_freepd
     else if n = 2 then pmap_freepdp else (\<lambda>_ _. None))"

subsection \<open>Walking and unsharing\<close>

text \<open>The copy of a shared lower table: every entry loses write permission, and every page it
  names gains a reference.\<close>

fun copy_entries :: "nat \<Rightarrow> nat \<Rightarrow> nat \<Rightarrow> 'a vmem_scheme \<Rightarrow> 'a vmem_scheme option" where
  "copy_entries plowtab nplowtab 0 s = Some s"
| "copy_entries plowtab nplowtab (Suc n) s = do {
     let pte = phys s plowtab;
     let s1 = wr nplowtab (pte AND NOT PTE_W) s;
     cassert (PTE_ADDR pte \<noteq> 0);
     s2 \<leftarrow> (if PTE_ADDR pte \<noteq> PTE_ZERO s then mem_incref (pte_page pte) s1 else Some s1);
     copy_entries (Suc plowtab) (Suc nplowtab) n s2
   }"

text \<open>First part of \<open>pmap_walk_level\<close>: find the lower table that entry \<open>pmte\<close> names, creating it if
  it is missing and we are writing. The result is its page, \<open>None\<close> for a \<open>NULL\<close> return.\<close>

definition walk_find :: "nat \<Rightarrow> bool \<Rightarrow> 'a vmem_scheme \<Rightarrow> (nat option \<times> 'a vmem_scheme) option" where
  "walk_find pmte writing s =
     (if PTE_ADDR (phys s pmte) \<noteq> PTE_ZERO s
      then Some (Some (pte_page (phys s pmte)), wr pmte (phys s pmte OR PTE_P) s)
      else if \<not> writing then Some (None, s)
      else case mem_alloc s of
        (None, s1) \<Rightarrow> Some (None, s1)
      | (Some pi, s1) \<Rightarrow> do {
          s2 \<leftarrow> mem_incref pi s1;
          let s3 = map_table pi (\<lambda>_. PTE_ZERO s) s2;
          Some (Some pi, wr pmte (mem_pi2phys pi OR tab_perm) s3)
        })"

text \<open>Second part: when writing below a read-only entry, make the lower table exclusively ours -
  in place when nobody else refers to it, by copying it otherwise.\<close>

definition walk_unshare ::
    "nat \<Rightarrow> nat \<Rightarrow> bool \<Rightarrow> nat \<Rightarrow> 'a vmem_scheme \<Rightarrow> (nat option \<times> 'a vmem_scheme) option" where
  "walk_unshare pmlevel pmte writing low s =
     (if writing \<and> \<not> has (phys s pmte) PTE_W
      then if refcount s low = 1
        then (let s1 = map_table low (\<lambda>pte. pte AND NOT PTE_W) s
              in Some (Some low, wr pmte (mem_pi2phys low OR tab_perm) s1))
        else case mem_alloc s of
          (None, s1) \<Rightarrow> Some (None, s1)
        | (Some pi, s1) \<Rightarrow> do {
            s2 \<leftarrow> mem_incref pi s1;
            s3 \<leftarrow> copy_entries (tabptr low) (tabptr pi) NPTENTRIES s2;
            s4 \<leftarrow> mem_decref low (pmap_freefun (pmlevel - 1)) s3;
            Some (Some pi, wr pmte (mem_pi2phys pi OR tab_perm) s4)
          }
      else Some (Some low, s))"

fun pmap_walk_level ::
    "nat \<Rightarrow> nat \<Rightarrow> nat \<Rightarrow> bool \<Rightarrow> 'a vmem_scheme \<Rightarrow> (nat option \<times> 'a vmem_scheme) option" where
  "pmap_walk_level 0 pmtab la writing s = None"
| "pmap_walk_level (Suc l) pmtab la writing s = do {
     let pmte = pmtab + PDX (Suc l) la;
     (r1, s1) \<leftarrow> walk_find pmte writing s;
     (case r1 of None \<Rightarrow> Some (None, s1)
      | Some low1 \<Rightarrow> do {
          (r2, s2) \<leftarrow> walk_unshare (Suc l) pmte writing low1 s1;
          (case r2 of None \<Rightarrow> Some (None, s2)
           | Some low \<Rightarrow>
               if l = 0 then Some (Some (tabptr low + PDX 0 la), s2)
               else pmap_walk_level l (tabptr (pte_page (phys s2 pmte))) la writing s2)
        })
   }"

definition pmap_walk :: "nat \<Rightarrow> nat \<Rightarrow> bool \<Rightarrow> 'a vmem_scheme \<Rightarrow> (nat option \<times> 'a vmem_scheme) option" where
  "pmap_walk pml4 va writing s = do {
     cassert (VM_USERLO \<le> va \<and> va < VM_USERHI);
     pmap_walk_level NPTLVLS pml4 va writing s
   }"

definition pmap_insert ::
    "nat \<Rightarrow> nat \<Rightarrow> nat \<Rightarrow> u64 \<Rightarrow> 'a vmem_scheme \<Rightarrow> (nat option \<times> 'a vmem_scheme) option" where
  "pmap_insert pml4 pi va perm s = do {
     (r, s1) \<leftarrow> pmap_walk pml4 va True s;
     (case r of None \<Rightarrow> Some (None, s1)
      | Some pte \<Rightarrow> do {
          s2 \<leftarrow> mem_incref pi s1;
          s3 \<leftarrow> (if PTE_ADDR (phys s2 pte) \<noteq> PTE_ZERO s2
                then mem_decref (pgaddr_page (phys s2 pte)) mem_free s2 else Some s2);
          Some (Some pte, wr pte (mem_pi2phys pi OR perm OR PTE_P) s3)
        })
   }"

subsection \<open>Removing a range\<close>

text \<open>The loop of \<open>pmap_remove_level\<close>, with its running entry pointer \<open>pmte\<close>. The result is the
  address it stopped at.\<close>

function (sequential) pmap_remove_loop ::
    "nat \<Rightarrow> nat \<Rightarrow> nat \<Rightarrow> nat \<Rightarrow> nat \<Rightarrow> 'a vmem_scheme \<Rightarrow> (nat \<times> 'a vmem_scheme) option" where
  "pmap_remove_loop l pmtab pmte va vahi s =
     (if va < vahi then
        if PTE_ADDR (phys s pmte) = PTE_ZERO s
        then pmap_remove_loop l pmtab (Suc pmte) (PDADDR l (va + PDSIZE l)) vahi s
        else if PDOFF l va = 0 \<and> PDSIZE l \<le> vahi - va then do {
          s1 \<leftarrow> mem_decref (pgaddr_page (phys s pmte)) (if l = 0 then mem_free else pmap_freefun (l - 1)) s;
          pmap_remove_loop l pmtab (Suc pmte) (va + PDSIZE l) vahi (wr pmte (PTE_ZERO s1) s1)
        }
        else if l = 0 then None
        else do {
          (_, s1) \<leftarrow> pmap_walk_level l pmtab va True s;
          let lvahi = (if PDADDR l va + PDSIZE l > vahi then vahi else PDADDR l va + PDSIZE l);
          let low = tabptr (pte_page (phys s1 pmte));
          (_, s2) \<leftarrow> pmap_remove_loop (l - 1) low (low + PDX (l - 1) va) va lvahi s1;
          pmap_remove_loop l pmtab (Suc pmte) lvahi vahi s2
        }
      else Some (va, s))"
  by pat_completeness auto
termination
  by (relation "measures [\<lambda>(l, t, p, va, vahi, s). l, \<lambda>(l, t, p, va, vahi, s). vahi - va]")
    (auto intro: diff_less_mono2 PDADDR_next_gt PDADDR_end_gt)

declare pmap_remove_loop.simps [simp del]

definition pmap_remove_level ::
    "nat \<Rightarrow> nat \<Rightarrow> nat \<Rightarrow> nat \<Rightarrow> 'a vmem_scheme \<Rightarrow> (nat \<times> 'a vmem_scheme) option" where
  "pmap_remove_level l pmtab va vahi s = pmap_remove_loop l pmtab (pmtab + PDX l va) va vahi s"

partial_function (option) pmap_remove_while ::
    "nat \<Rightarrow> nat \<Rightarrow> nat \<Rightarrow> 'a vmem_scheme \<Rightarrow> 'a vmem_scheme option" where
  "pmap_remove_while pml4 va vahi s =
     (if va < vahi
      then (case pmap_remove_level NPTLVLS pml4 va vahi s of None \<Rightarrow> None
            | Some r \<Rightarrow> pmap_remove_while pml4 (fst r) vahi (snd r))
      else Some s)"

definition pmap_remove :: "nat \<Rightarrow> nat \<Rightarrow> nat \<Rightarrow> 'a vmem_scheme \<Rightarrow> 'a vmem_scheme option" where
  "pmap_remove pml4 va sz s = do {
     cassert (PGOFF sz = 0);
     cassert (VM_USERLO \<le> va \<and> va < VM_USERHI);
     cassert (sz \<le> VM_USERHI - va);
     pmap_remove_while pml4 va (va + sz) s
   }"

subsection \<open>Virtual copy of a range\<close>

text \<open>The loop of \<open>pmap_copy_level\<close>. \<open>lsize\<close> is the step to the next table boundary of source or
  destination, cut off at the end of the range.\<close>

definition copy_lsize :: "nat \<Rightarrow> nat \<Rightarrow> nat \<Rightarrow> nat \<Rightarrow> nat" where
  "copy_lsize l sva dva svahi =
     (let sz = (if PDOFF l sva > PDOFF l dva then PDSIZE l - PDOFF l sva else PDSIZE l - PDOFF l dva)
      in if sva + sz > svahi then svahi - sva else sz)"

lemma copy_lsize_pos: "sva < svahi \<Longrightarrow> 0 < copy_lsize l sva dva svahi"
  using PDOFF_less [of l sva] PDOFF_less [of l dva] by (auto simp: copy_lsize_def Let_def)

lemma copy_lsize_decr: "sva < svahi \<Longrightarrow> svahi - (sva + copy_lsize l sva dva svahi) < svahi - sva"
  using copy_lsize_pos [of sva svahi l dva] by linarith

function (sequential) pmap_copy_loop ::
    "nat \<Rightarrow> nat \<Rightarrow> nat \<Rightarrow> nat \<Rightarrow> nat \<Rightarrow> nat \<Rightarrow> nat \<Rightarrow> nat \<Rightarrow> 'a vmem_scheme \<Rightarrow> 'a vmem_scheme option" where
  "pmap_copy_loop l spmtab spmte sva dpmtab dpmte dva svahi s =
     (if sva < svahi then
        if PDOFF l sva = 0 \<and> PDOFF l dva = 0 \<and> PDSIZE l \<le> svahi - sva then do {
          s1 \<leftarrow> (if PTE_ADDR (phys s dpmte) \<noteq> PTE_ZERO s
                then map_option snd (pmap_remove_level l dpmtab dva (dva + PDSIZE l) s) else Some s);
          cassert (PTE_ADDR (phys s1 dpmte) = PTE_ZERO s1);
          let s2 = wr spmte (phys s1 spmte AND NOT PTE_W) s1;
          let s3 = wr dpmte (phys s2 spmte) s2;
          s4 \<leftarrow> (if PTE_ADDR (phys s3 spmte) \<noteq> PTE_ZERO s3
                then mem_incref (pte_page (phys s3 spmte)) s3 else Some s3);
          pmap_copy_loop l spmtab (Suc spmte) (sva + PDSIZE l) dpmtab (Suc dpmte) (dva + PDSIZE l) svahi s4
        }
        else do {
          let sz = copy_lsize l sva dva svahi;
          s3 \<leftarrow> (if PTE_ADDR (phys s spmte) = PTE_ZERO s
                then map_option snd (pmap_remove_level l dpmtab dva (dva + sz) s)
                else do {
                  s1 \<leftarrow> (if PTE_ADDR (phys s dpmte) = PTE_ZERO s
                        then map_option snd (pmap_walk_level l dpmtab dva True s) else Some s);
                  cassert (PTE_ADDR (phys s1 dpmte) \<noteq> PTE_ZERO s1);
                  (if l = 0 then None
                   else let st = tabptr (pte_page (phys s1 spmte)); dt = tabptr (pte_page (phys s1 dpmte))
                        in pmap_copy_loop (l - 1) st (st + PDX (l - 1) sva) sva
                             dt (dt + PDX (l - 1) dva) dva (sva + sz) s1)
                });
          pmap_copy_loop l spmtab (if PDOFF l (sva + sz) = 0 then Suc spmte else spmte) (sva + sz)
            dpmtab (if PDOFF l (dva + sz) = 0 then Suc dpmte else dpmte) (dva + sz) svahi s3
        }
      else Some s)"
  by pat_completeness auto
termination
  by (relation "measures [\<lambda>(l, st, sp, sva, dt, dp, dva, svahi, s). l,
      \<lambda>(l, st, sp, sva, dt, dp, dva, svahi, s). svahi - sva]")
    (auto simp: copy_lsize_decr diff_less_mono2)

declare pmap_copy_loop.simps [simp del]

definition pmap_copy_level ::
    "nat \<Rightarrow> nat \<Rightarrow> nat \<Rightarrow> nat \<Rightarrow> nat \<Rightarrow> nat \<Rightarrow> 'a vmem_scheme \<Rightarrow> 'a vmem_scheme option" where
  "pmap_copy_level l spmtab sva dpmtab dva svahi s =
     (if svahi \<le> sva then Some s
      else pmap_copy_loop l spmtab (spmtab + PDX l sva) sva dpmtab (dpmtab + PDX l dva) dva svahi s)"

definition pmap_range_ok :: "nat \<Rightarrow> nat \<Rightarrow> nat \<Rightarrow> bool" where
  "pmap_range_ok sva dva sz \<longleftrightarrow>
     PDOFF 0 sva = 0 \<and> PDOFF 0 dva = 0 \<and> PDOFF 0 sz = 0 \<and>
     VM_USERLO \<le> sva \<and> sva < VM_USERHI \<and> VM_USERLO \<le> dva \<and> dva < VM_USERHI \<and>
     sz \<le> VM_USERHI - sva \<and> sz \<le> VM_USERHI - dva"

definition pmap_copy ::
    "nat \<Rightarrow> nat \<Rightarrow> nat \<Rightarrow> nat \<Rightarrow> nat \<Rightarrow> 'a vmem_scheme \<Rightarrow> 'a vmem_scheme option" where
  "pmap_copy spml4 sva dpml4 dva sz s = do {
     cassert (pmap_range_ok sva dva sz);
     pmap_copy_level NPTLVLS spml4 sva dpml4 dva (sva + sz) s
   }"

subsection \<open>Page faults\<close>

text \<open>The check, table by table, that the faulting address has a present path.\<close>

fun fault_path :: "nat \<Rightarrow> nat \<Rightarrow> nat \<Rightarrow> 'a vmem_scheme \<Rightarrow> bool" where
  "fault_path 0 pmtab fva s = True"
| "fault_path (Suc l) pmtab fva s =
     (let pmte = phys s (pmtab + PDX (Suc l) fva)
      in has pmte PTE_P \<and> fault_path l (tabptr (pte_page pmte)) fva s)"

definition PFE_WR :: u64 where "PFE_WR = 2"

definition user_pte_perm :: u64 where
  "user_pte_perm = SYS_RW OR PTE_A OR PTE_D OR PTE_W OR PTE_U OR PTE_P"

text \<open>The fault handler's private copy of the page at \<open>pg\<close>, unless this entry is the only owner. The
  page copy uses physical addresses as pointers, through the low identity mapping, which reaches
  up to \<open>VM_USERLO\<close>.\<close>

definition fault_own :: "u64 \<Rightarrow> 'a vmem_scheme \<Rightarrow> (u64 \<times> 'a vmem_scheme) option" where
  "fault_own pg s =
     (if pg = PTE_ZERO s \<or> refcount s (pte_page pg) > 1
      then (case mem_alloc s of
          (None, _) \<Rightarrow> None
        | (Some npi, s2) \<Rightarrow> do {
            s3 \<leftarrow> mem_incref npi s2;
            cassert (npi * PAGESIZE < VM_USERLO \<and> pte_page pg * PAGESIZE < VM_USERLO);
            let s4 = copy_page npi (pte_page pg) s3;
            s5 \<leftarrow> (if pg \<noteq> PTE_ZERO s4 then mem_decref (pte_page pg) mem_free s4 else Some s4);
            Some (mem_pi2phys npi, s5)
          })
      else Some (pg, s))"

text \<open>\<open>pmap_pagefault\<close> for the current process's page map \<open>pml4\<close>, the faulting address and the error
  code: \<open>True\<close> when the fault was handled and the trap returns to user mode, \<open>False\<close> when it is
  left to be blamed on the process.\<close>

definition pmap_pagefault ::
    "nat \<Rightarrow> nat \<Rightarrow> u64 \<Rightarrow> 'a vmem_scheme \<Rightarrow> (bool \<times> 'a vmem_scheme) option" where
  "pmap_pagefault pml4 fva err s =
     (if fva < VM_USERLO \<or> VM_USERHI \<le> fva \<or> \<not> has err PFE_WR then Some (False, s)
      else if \<not> fault_path NPTLVLS pml4 fva s then Some (False, s)
      else do {
        (r, s1) \<leftarrow> pmap_walk pml4 fva True s;
        pte \<leftarrow> r;
        (if phys s1 pte AND (SYS_READ OR SYS_WRITE OR PTE_P) \<noteq> SYS_READ OR SYS_WRITE OR PTE_P
         then Some (False, s1)
         else do {
           cassert (\<not> has (phys s1 pte) PTE_W);
           (pg, s2) \<leftarrow> fault_own (PTE_ADDR (phys s1 pte)) s1;
           Some (True, wr pte (pg OR user_pte_perm) s2)
         })
      })"

end
