(* ===== verification/Merge.thy ===== *)
theory Merge
  imports Pmap
begin

text \<open>
  The rest of \<open>kern/pmap.c\<close>: the three-way merge of a child's changes into its parent
  (\<open>pmap_merge\<close>), nominal permissions (\<open>pmap_setperm\<close>), address translation (\<open>va2pa\<close>), and the
  creation and destruction of page maps.

  The merge works on bytes. A byte of physical memory is a byte of a word of \<open>phys\<close>, in
  little-endian order.
\<close>

subsection \<open>Bytes of memory\<close>

definition rd_byte :: "nat \<Rightarrow> 'a vmem_scheme \<Rightarrow> u8" where
  "rd_byte a s = ucast (drop_bit (8 * (a mod 8)) (phys s (a div 8)))"

definition put_byte :: "nat \<Rightarrow> u8 \<Rightarrow> u64 \<Rightarrow> u64" where
  "put_byte j v w = (w AND NOT (push_bit (8 * j) 0xFF)) OR push_bit (8 * j) (ucast v)"

definition wr_byte :: "nat \<Rightarrow> u8 \<Rightarrow> 'a vmem_scheme \<Rightarrow> 'a vmem_scheme" where
  "wr_byte a v s = wr (a div 8) (put_byte (a mod 8) v (phys s (a div 8))) s"

text \<open>Byte \<open>i\<close> of page \<open>p\<close>.\<close>

abbreviation pg_byte :: "nat \<Rightarrow> nat \<Rightarrow> 'a vmem_scheme \<Rightarrow> u8" where
  "pg_byte p i s \<equiv> rd_byte (p * PAGESIZE + i) s"

subsection \<open>Merging a page\<close>

text \<open>The loop over the bytes of the page, from \<open>i\<close> on with \<open>n\<close> to go: \<open>True\<close> means that it met a
  conflict.\<close>

fun merge_bytes :: "nat \<Rightarrow> nat \<Rightarrow> nat \<Rightarrow> nat \<Rightarrow> nat \<Rightarrow> 'a vmem_scheme \<Rightarrow> bool \<times> 'a vmem_scheme" where
  "merge_bytes rpg spg dpg i 0 s = (False, s)"
| "merge_bytes rpg spg dpg i (Suc n) s =
     (if pg_byte spg i s = pg_byte rpg i s then merge_bytes rpg spg dpg (Suc i) n s
      else if pg_byte dpg i s = pg_byte rpg i s
      then merge_bytes rpg spg dpg (Suc i) n (wr_byte (dpg * PAGESIZE + i) (pg_byte spg i s) s)
      else (True, s))"

text \<open>The kernel's pointer to a physical address (\<open>mem_ptr\<close>) and the word a table pointer names.\<close>

definition mem_ptr :: "u64 \<Rightarrow> u64" where "mem_ptr physaddr = physaddr + VM_KERNLO"
definition ptr_word :: "u64 \<Rightarrow> nat" where "ptr_word ptr = unat (ptr - VM_KERNLO) div 8"
definition word_ptr :: "nat \<Rightarrow> u64" where "word_ptr i = of_nat (8 * i) + VM_KERNLO"

text \<open>Make the destination page exclusively ours. The source's test that keeps the zero page's
  reference count alone compares a kernel pointer with a physical address.\<close>

definition merge_own :: "nat \<Rightarrow> 'a vmem_scheme \<Rightarrow> 'a vmem_scheme option" where
  "merge_own dpte s =
     (let da = PTE_ADDR (phys s dpte); dp = pte_page (phys s dpte)
      in if da = PTE_ZERO s \<or> refcount s dp > 1
         then (case mem_alloc s of
             (None, _) \<Rightarrow> None
           | (Some npi, s1) \<Rightarrow> do {
               s2 \<leftarrow> mem_incref npi s1;
               let s3 = copy_page npi dp s2;
               s4 \<leftarrow> (if mem_ptr da \<noteq> PTE_ZERO s3 then mem_decref dp mem_free s3 else Some s3);
               Some (wr dpte (mem_pi2phys npi OR user_pte_perm) s4)
             })
         else Some s)"

definition pmap_mergepage :: "nat \<Rightarrow> nat \<Rightarrow> nat \<Rightarrow> 'a vmem_scheme \<Rightarrow> 'a vmem_scheme option" where
  "pmap_mergepage rpte spte dpte s = do {
     let rpg = pte_page (phys s rpte);
     let spg = pte_page (phys s spte);
     s1 \<leftarrow> merge_own dpte s;
     let dpg = pte_page (phys s1 dpte);
     let (conflict, s2) = merge_bytes rpg spg dpg 0 PAGESIZE s1;
     (if conflict
      then do {
        s3 \<leftarrow> mem_decref (pte_page (phys s2 dpte)) mem_free s2;
        Some (wr dpte (PTE_ZERO s3) s3)
      }
      else Some s2)
   }"

subsection \<open>Merging a range\<close>

text \<open>The lower tables of the three trees, as pointers.\<close>

definition merge_low :: "u64 \<Rightarrow> 'a vmem_scheme \<Rightarrow> u64" where
  "merge_low pmte s =
     (let p = mem_ptr (PTE_ADDR pmte) in if p = 0 then mem_ptr (PTE_ZERO s) else p)"

definition merge_dlow :: "nat \<Rightarrow> nat \<Rightarrow> nat \<Rightarrow> nat \<Rightarrow> 'a vmem_scheme \<Rightarrow> (u64 \<times> 'a vmem_scheme) option" where
  "merge_dlow l dpmtab dpmte dva s = do {
     let p = mem_ptr (PTE_ADDR (phys s dpmte));
     (p', s1) \<leftarrow>
       (if PTE_ADDR p = PTE_ZERO s
        then do {
          (r, s1) \<leftarrow> pmap_walk_level l dpmtab dva True s;
          Some (case r of None \<Rightarrow> 0 | Some i \<Rightarrow> word_ptr i, s1)
        }
        else Some (p, s));
     cassert (PTE_ADDR p' \<noteq> PTE_ZERO s1);
     Some (p', s1)
   }"

function (sequential) pmap_merge_loop ::
    "nat \<Rightarrow> nat \<Rightarrow> nat \<Rightarrow> nat \<Rightarrow> nat \<Rightarrow> nat \<Rightarrow> nat \<Rightarrow> nat \<Rightarrow> nat \<Rightarrow> 'a vmem_scheme \<Rightarrow> 'a vmem_scheme option"
where
  "pmap_merge_loop l rpmte spmtab spmte sva dpmtab dpmte dva svahi s =
     (if sva < svahi then do {
        s1 \<leftarrow>
          (if phys s spmte = phys s rpmte then Some s
           else if phys s dpmte = phys s rpmte
           then pmap_copy_level l spmtab sva dpmtab dva (sva + PDSIZE l) s
           else if l > 0 then do {
             let rlow = ptr_word (merge_low (phys s rpmte) s);
             let slow = ptr_word (merge_low (phys s spmte) s);
             (dp, s') \<leftarrow> merge_dlow l dpmtab dpmte dva s;
             let dlow = ptr_word dp;
             let lsvahi = (if PDADDR l sva + PDSIZE l > svahi then svahi else PDADDR l sva + PDSIZE l);
             pmap_merge_loop (l - 1) (rlow + PDX (l - 1) sva) slow (slow + PDX (l - 1) sva) sva
               dlow (dlow + PDX (l - 1) dva) dva lsvahi s'
           }
           else pmap_mergepage rpmte spmte dpmte s);
        pmap_merge_loop l (Suc rpmte) spmtab (Suc spmte) (sva + PDSIZE l)
          dpmtab (Suc dpmte) (dva + PDSIZE l) svahi s1
      }
      else Some s)"
  by pat_completeness auto
termination
  by (relation "measures [\<lambda>(l, r, st, sp, sva, dt, dp, dva, svahi, s). l,
      \<lambda>(l, r, st, sp, sva, dt, dp, dva, svahi, s). svahi - sva]")
    (auto simp: diff_less_mono2)

declare pmap_merge_loop.simps [simp del]

definition pmap_merge_level ::
    "nat \<Rightarrow> nat \<Rightarrow> nat \<Rightarrow> nat \<Rightarrow> nat \<Rightarrow> nat \<Rightarrow> nat \<Rightarrow> 'a vmem_scheme \<Rightarrow> 'a vmem_scheme option" where
  "pmap_merge_level l rpmtab spmtab sva dpmtab dva svahi s =
     (if svahi \<le> sva then Some s
      else pmap_merge_loop l (rpmtab + PDX l sva) spmtab (spmtab + PDX l sva) sva
             dpmtab (dpmtab + PDX l dva) dva svahi s)"

definition pmap_merge ::
    "nat \<Rightarrow> nat \<Rightarrow> nat \<Rightarrow> nat \<Rightarrow> nat \<Rightarrow> nat \<Rightarrow> 'a vmem_scheme \<Rightarrow> 'a vmem_scheme option" where
  "pmap_merge rpml4 spml4 sva dpml4 dva sz s = do {
     cassert (pmap_range_ok sva dva sz);
     pmap_merge_level NPTLVLS rpml4 spml4 sva dpml4 dva (sva + sz) s
   }"

subsection \<open>Nominal permissions\<close>

function (sequential) pmap_setperm_level ::
    "nat \<Rightarrow> nat \<Rightarrow> nat \<Rightarrow> nat \<Rightarrow> u64 \<Rightarrow> u64 \<Rightarrow> 'a vmem_scheme \<Rightarrow> 'a vmem_scheme option" where
  "pmap_setperm_level l pmtab va vahi pteand pteor s =
     (if va < vahi then
        let pmte = pmtab + PDX l va
        in if PTE_ADDR (phys s pmte) = PTE_ZERO s \<and> pteor = 0
           then pmap_setperm_level l pmtab (PDADDR l va + PDSIZE l) vahi pteand pteor s
           else do {
             s1 \<leftarrow> (if l > 0 then map_option snd (pmap_walk_level l pmtab va True s) else Some s);
             (if PDOFF l va = 0 \<and> PDSIZE l \<le> vahi - va then do {
                s2 \<leftarrow> (if l = 0 then Some (wr pmte ((phys s1 pmte AND pteand) OR pteor) s1)
                      else pmap_setperm_level (l - 1) (tabptr (pte_page (phys s1 pmte))) va (va + PDSIZE l)
                             pteand pteor s1);
                pmap_setperm_level l pmtab (va + PDSIZE l) vahi pteand pteor s2
              }
              else if l = 0 then None
              else do {
                let lvahi = (if PDADDR l va + PDSIZE l > vahi then vahi else PDADDR l va + PDSIZE l);
                s2 \<leftarrow> pmap_setperm_level (l - 1) (tabptr (pte_page (phys s1 pmte))) va lvahi pteand pteor s1;
                pmap_setperm_level l pmtab lvahi vahi pteand pteor s2
              })
           }
      else Some s)"
  by pat_completeness auto
termination
  by (relation "measures [\<lambda>(l, t, va, vahi, a, b, s). l, \<lambda>(l, t, va, vahi, a, b, s). vahi - va]")
    (auto intro: diff_less_mono2 PDADDR_end_gt)

declare pmap_setperm_level.simps [simp del]

text \<open>The masks that realise a nominal permission. Write permission is only nominal: \<open>PTE_W\<close> is
  left to the page-fault handler.\<close>

definition setperm_masks :: "u64 \<Rightarrow> u64 \<times> u64" where
  "setperm_masks perm =
     (if \<not> has perm SYS_READ then (NOT (SYS_RW OR PTE_W OR PTE_P), 0)
      else if \<not> has perm SYS_WRITE
      then (NOT (SYS_WRITE OR PTE_W), SYS_READ OR PTE_U OR PTE_P OR PTE_A)
      else (NOT 0, SYS_RW OR PTE_U OR PTE_P OR PTE_A OR PTE_D))"

definition pmap_setperm :: "nat \<Rightarrow> nat \<Rightarrow> nat \<Rightarrow> u64 \<Rightarrow> 'a vmem_scheme \<Rightarrow> 'a vmem_scheme option" where
  "pmap_setperm pml4 va sz perm s = do {
     cassert (PGOFF va = 0);
     cassert (PGOFF sz = 0);
     cassert (VM_USERLO \<le> va \<and> va < VM_USERHI);
     cassert (sz \<le> VM_USERHI - va);
     cassert (perm AND NOT SYS_RW = 0);
     let (pteand, pteor) = setperm_masks perm;
     pmap_setperm_level NPTLVLS pml4 va (va + sz) pteand pteor s
   }"

subsection \<open>Translation\<close>

text \<open>The page-table entry that maps \<open>va\<close>, if every table on the way is present, and the
  translation of \<open>va\<close> (\<open>None\<close> for the result \<open>~0\<close>).\<close>

fun va_pte :: "nat \<Rightarrow> nat \<Rightarrow> nat \<Rightarrow> 'a vmem_scheme \<Rightarrow> nat option" where
  "va_pte 0 pmtab va s = Some (pmtab + PDX 0 va)"
| "va_pte (Suc l) pmtab va s =
     (let pmte = phys s (pmtab + PDX (Suc l) va)
      in if has pmte PTE_P then va_pte l (tabptr (pte_page pmte)) va s else None)"

definition va2pa :: "nat \<Rightarrow> nat \<Rightarrow> 'a vmem_scheme \<Rightarrow> u64 option" where
  "va2pa pml4 va s = do {
     pte \<leftarrow> va_pte NPTLVLS pml4 va s;
     (if has (phys s pte) PTE_P then Some (PTE_ADDR (phys s pte)) else None)
   }"

subsection \<open>Creating and freeing page maps\<close>

definition PML4SELFOFFSET :: nat where "PML4SELFOFFSET = 0x1BF"

definition pmap_newpmap :: "'a vmem_scheme \<Rightarrow> (nat \<times> 'a vmem_scheme) option" where
  "pmap_newpmap s =
     (case mem_alloc s of
        (None, _) \<Rightarrow> None
      | (Some pml4, s1) \<Rightarrow> do {
          s2 \<leftarrow> mem_incref pml4 s1;
          (case mem_alloc s2 of
             (None, _) \<Rightarrow> None
           | (Some pdp, s3) \<Rightarrow> do {
               s4 \<leftarrow> mem_incref pdp s3;
               let s5 = copy_page pml4 (pmap_bootpmap s4) s4;
               let s6 = wr (tabptr pml4) (mem_pi2phys pdp OR PTE_A OR PTE_P OR PTE_W OR PTE_U) s5;
               let s7 = wr (tabptr pml4 + PML4SELFOFFSET) (mem_pi2phys pml4 OR PTE_P OR PTE_W) s6;
               let boot_pdp = pte_page (phys s7 (tabptr (pmap_bootpmap s7)));
               Some (tabptr pml4, copy_page pdp boot_pdp s7)
             })
        })"

definition pmap_freepmap :: "nat \<Rightarrow> 'a vmem_scheme \<Rightarrow> 'a vmem_scheme option" where
  "pmap_freepmap pml4pi s = do {
     s1 \<leftarrow> pmap_remove (tabptr pml4pi) VM_USERLO (VM_USERHI - VM_USERLO) s;
     mem_free pml4pi s1
   }"

end
