(* ===== verification/Cow.thy ===== *)
theory Cow
  imports Merge
begin

text \<open>
  Copy on write and the three-way merge of one page.

  \<open>cow_copy\<close> is the common core of \<open>pmap_pagefault\<close> and \<open>pmap_mergepage\<close>: a shared page is
  replaced by a private copy and one reference to it is dropped. On top of it stand the merge
  theorem (the destination page becomes the byte-wise three-way merge, or is unmapped on a
  conflict, and no other page changes) and the page-fault theorem.
\<close>

subsection \<open>Frames\<close>

lemma phys_upd_pi [simp]: "phys (upd_pi p f s) = phys s" "pmap_bootpmap (upd_pi p f s) = pmap_bootpmap s"
  by (simp_all add: upd_pi_def)

lemma wr_simps [simp]:
  "phys (wr a v s) = (phys s)(a := v)" "mem_pageinfo (wr a v s) = mem_pageinfo s"
  "mem_npage (wr a v s) = mem_npage s" "mem_freelist (wr a v s) = mem_freelist s"
  "pmap_zero (wr a v s) = pmap_zero s" "kern_start (wr a v s) = kern_start s"
  "kern_last (wr a v s) = kern_last s" "pmap_bootpmap (wr a v s) = pmap_bootpmap s"
  by (simp_all add: wr_def)

lemma copy_page_simps [simp]:
  "mem_pageinfo (copy_page d p s) = mem_pageinfo s"
  "mem_npage (copy_page d p s) = mem_npage s" "mem_freelist (copy_page d p s) = mem_freelist s"
  "pmap_zero (copy_page d p s) = pmap_zero s" "kern_start (copy_page d p s) = kern_start s"
  "kern_last (copy_page d p s) = kern_last s" "pmap_bootpmap (copy_page d p s) = pmap_bootpmap s"
  by (simp_all add: copy_page_def)

lemma pi_valid_cong:
  "mem_npage s' = mem_npage s \<Longrightarrow> pmap_zero s' = pmap_zero s \<Longrightarrow> kern_start s' = kern_start s \<Longrightarrow>
   kern_last s' = kern_last s \<Longrightarrow> pi_valid s' p = pi_valid s p"
  by (simp add: pi_valid_def)

lemma pi_allocatable_cong:
  "mem_npage s' = mem_npage s \<Longrightarrow> pmap_zero s' = pmap_zero s \<Longrightarrow> kern_start s' = kern_start s \<Longrightarrow>
   kern_last s' = kern_last s \<Longrightarrow> pi_allocatable s' p = pi_allocatable s p"
  by (simp add: pi_allocatable_def)

lemma pi_valid_frames [simp]:
  "pi_valid (wr a v s) p = pi_valid s p" "pi_valid (copy_page d q s) p = pi_valid s p"
  by (rule pi_valid_cong; simp)+

lemma mem_wf_frames [simp]:
  "mem_wf (wr a v s) fl = mem_wf s fl" "mem_wf (copy_page d q s) fl = mem_wf s fl"
  by (simp_all add: mem_wf_def pi_allocatable_def)

lemma PTE_ZERO_frames [simp]:
  "PTE_ZERO (wr a v s) = PTE_ZERO s" "PTE_ZERO (copy_page d q s) = PTE_ZERO s"
  "PTE_ZERO (upd_pi p f s) = PTE_ZERO s"
  by (simp_all add: PTE_ZERO_def)

subsection \<open>Bytes\<close>

lemma put_byte_mask: "put_byte j v w = (w AND NOT (push_bit (8 * j) (mask 8))) OR push_bit (8 * j) (ucast v)"
proof -
  have "(0xFF :: u64) = mask 8"
    by (simp add: mask_eq_exp_minus_1)
  then show ?thesis by (simp only: put_byte_def)
qed

lemma byte_put_byte:
  assumes "i < 8" and "j < 8"
  shows "ucast (drop_bit (8 * i) (put_byte j v w)) = (if i = j then v else (ucast (drop_bit (8 * i) w) :: u8))"
proof (rule bit_word_eqI)
  fix n
  assume n: "n < LENGTH(8)"
  then have n8: "n < 8" by simp
  have "bit (put_byte j v w) (8 * i + n) \<longleftrightarrow> (if i = j then bit v n else bit w (8 * i + n))"
    unfolding put_byte_mask
    using assms n8
    by (auto simp: bit_or_iff bit_and_iff bit_not_iff bit_push_bit_iff bit_mask_iff bit_ucast_iff
        dest: bit_imp_le_length)
  with n8 show "bit (ucast (drop_bit (8 * i) (put_byte j v w)) :: u8) n \<longleftrightarrow>
      bit (if i = j then v else (ucast (drop_bit (8 * i) w) :: u8)) n"
    by (auto simp: bit_ucast_iff bit_drop_bit_eq)
qed

lemma rd_byte_wr_byte: "rd_byte b (wr_byte a v s) = (if a = b then v else rd_byte b s)"
proof (cases "b div 8 = a div 8")
  case True
  then have "a mod 8 = b mod 8 \<longleftrightarrow> a = b"
    by (metis div_mult_mod_eq)
  with True show ?thesis
    by (auto simp: rd_byte_def wr_byte_def byte_put_byte)
next
  case False
  then show ?thesis by (auto simp: rd_byte_def wr_byte_def)
qed

lemma rd_byte_phys: "phys s (a div 8) = phys s' (a div 8) \<Longrightarrow> rd_byte a s = rd_byte a s'"
  by (simp add: rd_byte_def)

text \<open>The words that hold page \<open>p\<close>, and the byte view of a page.\<close>

lemma page_byte_word: "i < PAGESIZE \<Longrightarrow> (p * PAGESIZE + i) div 8 div NPTENTRIES = p"
  by (simp add: PAGESIZE_def NPTENTRIES_def div_mult2_eq [symmetric])

lemma page_byte_inj:
  "i < PAGESIZE \<Longrightarrow> j < PAGESIZE \<Longrightarrow> p * PAGESIZE + i = q * PAGESIZE + j \<longleftrightarrow> p = q \<and> i = j"
  by (metis add_right_cancel div_mult_self3 mod_mult_self3 div_less mod_less add_cancel_left_right
      add.commute less_zeroE neq0_conv plus_nat.add_0 mult.commute not_less_zero)

lemma PAGESIZE_pos [simp]: "0 < PAGESIZE"
  by (simp add: PAGESIZE_def)

lemma page_byte_neq:
  "p \<noteq> q \<Longrightarrow> i < PAGESIZE \<Longrightarrow> j < PAGESIZE \<Longrightarrow> p * PAGESIZE + i \<noteq> q * PAGESIZE + j"
  by (simp add: page_byte_inj)

lemma pg_byte_wr_byte:
  "i < PAGESIZE \<Longrightarrow> k < PAGESIZE \<Longrightarrow>
   pg_byte q k (wr_byte (d * PAGESIZE + i) v s) = (if q = d \<and> k = i then v else pg_byte q k s)"
  using page_byte_inj [of i k d q] by (auto simp: rd_byte_wr_byte)

lemma page_byte_div: "(p * PAGESIZE + i) div 8 = tabptr p + i div 8"
proof -
  have "p * PAGESIZE + i = i + (p * 512) * 8" by (simp add: PAGESIZE_def)
  then show ?thesis by (simp only: div_mult_self1) (simp add: tabptr_def NPTENTRIES_def)
qed

lemma page_byte_mod: "(p * PAGESIZE + i) mod 8 = i mod 8"
proof -
  have "p * PAGESIZE + i = i + (p * 512) * 8" by (simp add: PAGESIZE_def)
  then show ?thesis by (simp only: mod_mult_self1)
qed

lemma pg_byte_copy_page:
  assumes "i < PAGESIZE"
  shows "pg_byte q i (copy_page d p s) = (if q = d then pg_byte p i s else pg_byte q i s)"
proof -
  have "(tabptr q + i div 8) div NPTENTRIES = q" "(tabptr q + i div 8) mod NPTENTRIES = i div 8"
    using assms by (simp_all add: tabptr_def PAGESIZE_def NPTENTRIES_def)
  then show ?thesis
    by (cases "q = d") (simp_all add: rd_byte_def copy_page_def page_byte_div page_byte_mod)
qed

subsection \<open>The byte loop of the merge\<close>

text \<open>The specification: a byte changed in the source only, or in the destination only, keeps that
  change; a byte changed in both is a conflict.\<close>

definition merge3 :: "u8 \<Rightarrow> u8 \<Rightarrow> u8 \<Rightarrow> u8" where
  "merge3 r s d = (if s = r then d else s)"

definition conflict3 :: "u8 \<Rightarrow> u8 \<Rightarrow> u8 \<Rightarrow> bool" where
  "conflict3 r s d \<longleftrightarrow> s \<noteq> r \<and> d \<noteq> r"

text \<open>The byte loop writes the destination page only.\<close>

definition same_but_page :: "nat \<Rightarrow> 'a vmem_scheme \<Rightarrow> 'a vmem_scheme \<Rightarrow> bool" where
  "same_but_page d s s' \<longleftrightarrow> (\<exists>m. s' = s\<lparr>phys := m\<rparr> \<and> (\<forall>w. w div NPTENTRIES \<noteq> d \<longrightarrow> m w = phys s w))"

lemma same_but_page_refl: "same_but_page d s s"
  unfolding same_but_page_def by (rule exI [of _ "phys s"]) simp

lemma same_but_page_trans: "same_but_page d s s' \<Longrightarrow> same_but_page d s' s'' \<Longrightarrow> same_but_page d s s''"
  unfolding same_but_page_def by force

lemma same_but_page_wr_byte: "i < PAGESIZE \<Longrightarrow> same_but_page d s (wr_byte (d * PAGESIZE + i) v s)"
  unfolding same_but_page_def wr_byte_def wr_def
  using page_byte_word [of i d] by (intro exI conjI) (rule refl, auto)

lemma same_but_page_phys: "same_but_page d s s' \<Longrightarrow> w div NPTENTRIES \<noteq> d \<Longrightarrow> phys s' w = phys s w"
  unfolding same_but_page_def by auto

lemma same_but_page_byte: "same_but_page d s s' \<Longrightarrow> i < PAGESIZE \<Longrightarrow> q \<noteq> d \<Longrightarrow> pg_byte q i s' = pg_byte q i s"
  by (rule rd_byte_phys, rule same_but_page_phys) (simp_all add: page_byte_word)

lemma same_but_page_mem:
  assumes "same_but_page d s s'"
  shows "mem_pageinfo s' = mem_pageinfo s" "mem_wf s' fl = mem_wf s fl" "PTE_ZERO s' = PTE_ZERO s"
    "pi_valid s' p = pi_valid s p" "pi_allocatable s' p = pi_allocatable s p" "pmap_zero s' = pmap_zero s"
    "mem_freelist s' = mem_freelist s"
  using assms
  by (auto simp: same_but_page_def mem_wf_def PTE_ZERO_def pi_allocatable_def pi_valid_def)

lemma merge_bytes_frame:
  "i + n \<le> PAGESIZE \<Longrightarrow> merge_bytes r sp d i n s = (c, s') \<Longrightarrow> same_but_page d s s'"
proof (induction r sp d i n s arbitrary: c s' rule: merge_bytes.induct)
  case (1 rpg spg dpg i s)
  then show ?case by (simp add: same_but_page_refl)
next
  case (2 rpg spg dpg i n s)
  then have "i < PAGESIZE" by simp
  from 2 same_but_page_trans [OF same_but_page_wr_byte [OF this]] show ?case
    by (auto split: if_splits simp: same_but_page_refl)
qed

lemma merge_bytes_ok:
  assumes "i + n \<le> PAGESIZE" and "d \<noteq> r" and "d \<noteq> sp"
    and "\<forall>k. i \<le> k \<and> k < i + n \<longrightarrow> \<not> conflict3 (pg_byte r k s) (pg_byte sp k s) (pg_byte d k s)"
  shows "\<exists>s'. merge_bytes r sp d i n s = (False, s') \<and>
    (\<forall>k < PAGESIZE. pg_byte d k s' =
       (if i \<le> k \<and> k < i + n then merge3 (pg_byte r k s) (pg_byte sp k s) (pg_byte d k s) else pg_byte d k s))"
  using assms
proof (induction r sp d i n s rule: merge_bytes.induct)
  case (1 rpg spg dpg i s)
  then show ?case by auto
next
  case (2 r sp d i n s)
  let ?s1 = "wr_byte (d * PAGESIZE + i) (pg_byte sp i s) s"
  from 2 have i: "i < PAGESIZE" by simp
  have b: "pg_byte q k ?s1 = (if q = d \<and> k = i then pg_byte sp i s else pg_byte q k s)"
    if "k < PAGESIZE" for q k
    using that i by (simp add: pg_byte_wr_byte)
  have here: "\<not> conflict3 (pg_byte r i s) (pg_byte sp i s) (pg_byte d i s)"
    using 2(6) by simp
  have later: "\<forall>k. Suc i \<le> k \<and> k < Suc i + n \<longrightarrow>
      \<not> conflict3 (pg_byte r k s) (pg_byte sp k s) (pg_byte d k s)"
    using 2(6) by simp
  show ?case
  proof (cases "pg_byte sp i s = pg_byte r i s")
    case True
    with 2(1) [OF True _ 2(4,5) later] 2(3) show ?thesis
      by (auto simp: merge3_def) (metis le_antisym not_less_eq_eq)
  next
    case False
    with here have d: "pg_byte d i s = pg_byte r i s" by (simp add: conflict3_def)
    have later': "\<forall>k. Suc i \<le> k \<and> k < Suc i + n \<longrightarrow>
        \<not> conflict3 (pg_byte r k ?s1) (pg_byte sp k ?s1) (pg_byte d k ?s1)"
      using later 2(3-5) b by auto
    with 2(2) [OF False d _ 2(4,5) later'] 2(3) obtain s' where
      s': "merge_bytes r sp d (Suc i) n ?s1 = (False, s')"
      "\<forall>k < PAGESIZE. pg_byte d k s' = (if Suc i \<le> k \<and> k < Suc i + n
         then merge3 (pg_byte r k ?s1) (pg_byte sp k ?s1) (pg_byte d k ?s1) else pg_byte d k ?s1)"
      by auto
    have "\<forall>k < PAGESIZE. pg_byte d k s' = (if i \<le> k \<and> k < i + Suc n
         then merge3 (pg_byte r k s) (pg_byte sp k s) (pg_byte d k s) else pg_byte d k s)"
      using s'(2) False 2(4,5) by (auto simp: b merge3_def)
    with s'(1) False d show ?thesis by auto
  qed
qed

lemma merge_bytes_conflict:
  assumes "i + n \<le> PAGESIZE" and "d \<noteq> r" and "d \<noteq> sp"
    and "i \<le> k" and "k < i + n" and "conflict3 (pg_byte r k s) (pg_byte sp k s) (pg_byte d k s)"
  shows "fst (merge_bytes r sp d i n s)"
  using assms
proof (induction r sp d i n s rule: merge_bytes.induct)
  case (1 rpg spg dpg i s)
  then show ?case by simp
next
  case (2 r sp d i n s)
  let ?s1 = "wr_byte (d * PAGESIZE + i) (pg_byte sp i s) s"
  from 2 have k: "k < PAGESIZE" and i: "i < PAGESIZE" by simp_all
  have b: "pg_byte q k ?s1 = (if q = d \<and> k = i then pg_byte sp i s else pg_byte q k s)" for q
    using k i by (simp add: pg_byte_wr_byte)
  show ?case
  proof (cases "k = i")
    case True
    with 2(8) show ?thesis by (auto simp: conflict3_def)
  next
    case False
    with 2 have "Suc i \<le> k" "k < Suc i + n" "Suc i + n \<le> PAGESIZE" by simp_all
    with 2 False b show ?thesis by auto
  qed
qed

subsection \<open>Private copies\<close>

text \<open>The state after a private copy \<open>np\<close> of page \<open>p\<close> was taken and one reference to \<open>p\<close> dropped.\<close>

definition cow_state :: "nat \<Rightarrow> nat \<Rightarrow> 'a vmem_scheme \<Rightarrow> 'a vmem_scheme" where
  "cow_state np p s =
     upd_pi p (\<lambda>i. i\<lparr>pi_refcount := pi_refcount i - 1\<rparr>)
       (copy_page np p
         (upd_pi np (\<lambda>i. i\<lparr>pi_refcount := 1\<rparr>) (snd (mem_alloc s))))"

lemma mem_wf_set_refcount:
  "p \<notin> set fl \<Longrightarrow> mem_wf (upd_pi p (\<lambda>i. i\<lparr>pi_refcount := f i\<rparr>) s) fl = mem_wf s fl"
  unfolding mem_wf_def
  by (auto simp: free_next_upd fun_upd_idem simp del: fun_upd_apply) (auto split: if_splits)

lemma mem_alloc_simps:
  "phys (snd (mem_alloc s)) = phys s" "pmap_zero (snd (mem_alloc s)) = pmap_zero s"
  "mem_npage (snd (mem_alloc s)) = mem_npage s" "kern_start (snd (mem_alloc s)) = kern_start s"
  "kern_last (snd (mem_alloc s)) = kern_last s" "refcount (snd (mem_alloc s)) p = refcount s p"
  "pmap_bootpmap (snd (mem_alloc s)) = pmap_bootpmap s"
  by (auto simp: mem_alloc_def split: option.splits)

lemma cow_copy:
  assumes wf: "mem_wf s (np # fl)" and p: "pi_valid s p" "1 < refcount s p" "refcount s p < 2 ^ 31"
  shows "mem_alloc s = (Some np, snd (mem_alloc s))"
    and "mem_incref np (snd (mem_alloc s)) = Some (upd_pi np (\<lambda>i. i\<lparr>pi_refcount := 1\<rparr>) (snd (mem_alloc s)))"
    and "mem_decref p freefun (copy_page np p (upd_pi np (\<lambda>i. i\<lparr>pi_refcount := 1\<rparr>) (snd (mem_alloc s)))) =
      Some (cow_state np p s)"
proof -
  let ?s1 = "snd (mem_alloc s)"
  let ?s2 = "upd_pi np (\<lambda>i. i\<lparr>pi_refcount := 1\<rparr>) ?s1"
  from mem_alloc_Cons [OF wf] show a: "mem_alloc s = (Some np, ?s1)" by auto
  from wf have np: "refcount s np = 0" "pi_allocatable s np" "mem_npage s \<le> 2 ^ 27"
    by (simp_all add: mem_wf_def)
  have v: "pi_valid ?s1 q = pi_valid s q" for q
    by (rule pi_valid_cong) (simp_all add: mem_alloc_simps)
  have r: "refcount ?s1 q = refcount s q" for q by (simp add: mem_alloc_simps)
  have "pi_valid ?s1 np" using pi_allocatable_valid [of s np] np v by simp
  moreover have "upd_pi np (\<lambda>i. i\<lparr>pi_refcount := wrap32 (pi_refcount i + 1)\<rparr>) ?s1 = ?s2"
    using r [of np] np by (simp add: upd_pi_def)
  ultimately show "mem_incref np ?s1 = Some ?s2"
    by (simp add: mem_incref_def)
  from p np have ne: "p \<noteq> np" by auto
  have "upd_pi p (\<lambda>i. i\<lparr>pi_refcount := wrap32 (pi_refcount i - 1)\<rparr>) (copy_page np p ?s2) = cow_state np p s"
    using r [of p] p ne by (simp add: upd_pi_def cow_state_def)
  moreover have "refcount (cow_state np p s) p = refcount s p - 1"
    using r [of p] ne by (simp add: cow_state_def)
  ultimately show "mem_decref p freefun (copy_page np p ?s2) = Some (cow_state np p s)"
    using p v by (simp add: mem_decref_def Let_def)
qed

lemma cow_state_props:
  assumes wf: "mem_wf s (np # fl)" and p: "1 < refcount s p"
  shows "mem_wf (cow_state np p s) fl" and "phys (cow_state np p s) = phys (copy_page np p s)"
    and "refcount (cow_state np p s) np = 1" and "refcount (cow_state np p s) p = refcount s p - 1"
    and "q \<noteq> np \<Longrightarrow> q \<noteq> p \<Longrightarrow> refcount (cow_state np p s) q = refcount s q"
    and "PTE_ZERO (cow_state np p s) = PTE_ZERO s"
    and "pi_valid (cow_state np p s) q = pi_valid s q"
    and "pi_allocatable (cow_state np p s) q = pi_allocatable s q"
proof -
  from wf mem_wf_distinct [OF wf] p have "np \<notin> set fl" "p \<notin> set fl" "p \<noteq> np"
    by (auto simp: mem_wf_def)
  moreover from mem_alloc_Cons [OF wf] have "mem_wf (snd (mem_alloc s)) fl" by auto
  ultimately show "mem_wf (cow_state np p s) fl" "refcount (cow_state np p s) np = 1"
    "refcount (cow_state np p s) p = refcount s p - 1"
    "q \<noteq> np \<Longrightarrow> q \<noteq> p \<Longrightarrow> refcount (cow_state np p s) q = refcount s q"
    by (simp_all add: cow_state_def mem_wf_set_refcount mem_alloc_simps)
  show "phys (cow_state np p s) = phys (copy_page np p s)"
    by (simp add: cow_state_def copy_page_def mem_alloc_simps cong: if_cong)
  show "PTE_ZERO (cow_state np p s) = PTE_ZERO s"
    by (simp add: cow_state_def PTE_ZERO_def mem_alloc_simps)
  show "pi_valid (cow_state np p s) q = pi_valid s q" "pi_allocatable (cow_state np p s) q = pi_allocatable s q"
    by (simp_all add: cow_state_def pi_valid_def pi_allocatable_def mem_alloc_simps)
qed

subsection \<open>Merging one page\<close>

text \<open>What \<open>pmap_mergepage\<close> needs of its three entries: they name the pages \<open>rp\<close>, \<open>sp\<close> and \<open>dp\<close>, of
  which none is free; \<open>dp\<close> is a counted page of allocatable memory and no table entry lies in it;
  if the destination is the only owner of \<open>dp\<close>, the others name other pages; and there is a free
  page if \<open>dp\<close> is shared.\<close>

definition mergeable :: "nat \<Rightarrow> nat \<Rightarrow> nat \<Rightarrow> nat list \<Rightarrow> 'a vmem_scheme \<Rightarrow> bool" where
  "mergeable rpte spte dpte fl s \<longleftrightarrow>
     (let rp = pte_page (phys s rpte); sp = pte_page (phys s spte); dp = pte_page (phys s dpte) in
      mem_wf s fl \<and> pmap_zero s < mem_npage s \<and> pi_allocatable s dp \<and> PTE_ADDR (phys s dpte) \<noteq> PTE_ZERO s \<and>
      0 < refcount s dp \<and> refcount s dp < 2 ^ 31 \<and>
      rp \<notin> set fl \<and> sp \<notin> set fl \<and> dpte div NPTENTRIES \<notin> set fl \<and> dpte div NPTENTRIES \<notin> {rp, sp, dp} \<and>
      (refcount s dp = 1 \<longrightarrow> rp \<noteq> dp \<and> sp \<noteq> dp) \<and> (1 < refcount s dp \<longrightarrow> fl \<noteq> []))"

text \<open>The page the merge writes to: \<open>dp\<close> itself, or the fresh copy.\<close>

definition merge_target :: "nat \<Rightarrow> nat list \<Rightarrow> 'a vmem_scheme \<Rightarrow> nat" where
  "merge_target dpte fl s =
     (let dp = pte_page (phys s dpte) in if 1 < refcount s dp then hd fl else dp)"

lemma mem_ptr_not_low:
  assumes "p < 2 ^ 27" and "z < 2 ^ 27"
  shows "mem_ptr (mem_pi2phys p) \<noteq> mem_pi2phys z"
proof
  assume "mem_ptr (mem_pi2phys p) = mem_pi2phys z"
  then have "mem_pi2phys z = VM_KERNLO + mem_pi2phys p"
    by (simp add: mem_ptr_def add.commute)
  moreover have "unat (VM_KERNLO + mem_pi2phys p) = unat VM_KERNLO + p * PAGESIZE"
    using assms unat_pi2phys [of p]
    by (subst unat_plus_if') (simp add: VM_KERNLO_def PAGESIZE_def)
  ultimately show False
    using assms unat_pi2phys [of z] by (simp add: VM_KERNLO_def PAGESIZE_def)
qed

lemma PTE_ADDR_user_pte_perm [simp]: "PTE_ADDR user_pte_perm = 0"
  by (simp add: user_pte_perm_def PTE_ADDR_or)

lemma merge_own_exclusive:
  assumes "PTE_ADDR (phys s dpte) \<noteq> PTE_ZERO s" and "\<not> 1 < refcount s (pte_page (phys s dpte))"
  shows "merge_own dpte s = Some s"
  using assms by (simp add: merge_own_def)

lemma PTE_ADDR_pte_page: "PTE_ADDR pte = mem_pi2phys (pte_page pte)"
proof -
  have "unat (PTE_ADDR pte) mod PAGESIZE = unat (PTE_ADDR pte AND mask 12)"
    by (simp add: unat_and_mask PAGESIZE_def)
  also have "PTE_ADDR pte AND mask 12 = 0"
    by (rule bit_word_eqI) (auto simp: bit_and_iff bit_PTE_ADDR bit_mask_iff)
  finally have "pte_page pte * PAGESIZE = unat (PTE_ADDR pte)"
    using div_mult_mod_eq [of "unat (PTE_ADDR pte)" PAGESIZE] by (simp add: pte_page_def)
  then show ?thesis by (simp add: mem_pi2phys_def)
qed

lemma merge_own_shared:
  assumes wf: "mem_wf s (np # fl)" and z: "pmap_zero s < mem_npage s" and nz: "PTE_ADDR (phys s dpte) \<noteq> PTE_ZERO s"
    and dp: "dp = pte_page (phys s dpte)" "pi_allocatable s dp" "1 < refcount s dp" "refcount s dp < 2 ^ 31"
  shows "merge_own dpte s = Some (wr dpte (mem_pi2phys np OR user_pte_perm) (cow_state np dp s))"
proof -
  have lim: "mem_npage s \<le> 2 ^ 27" using wf by (simp add: mem_wf_def)
  with dp have v: "pi_valid s dp" by (simp add: pi_allocatable_valid)
  note c = cow_copy [OF wf v dp(3,4)]
  have "dp < 2 ^ 27" "pmap_zero s < 2 ^ 27"
    using dp(2) z lim by (simp_all add: pi_allocatable_def)
  then have "mem_ptr (PTE_ADDR (phys s dpte)) \<noteq> PTE_ZERO s"
    unfolding PTE_ADDR_pte_page dp(1) [symmetric] PTE_ZERO_def by (rule mem_ptr_not_low)
  moreover have "PTE_ZERO (copy_page np dp (upd_pi np (\<lambda>i. i\<lparr>pi_refcount := 1\<rparr>) (snd (mem_alloc s)))) = PTE_ZERO s"
    by (simp add: PTE_ZERO_def mem_alloc_simps)
  ultimately show ?thesis
    using c(2,3) dp(3) unfolding merge_own_def dp(1) [symmetric]
    by (subst c(1)) (simp add: Let_def)
qed

lemma mem_free_vframe:
  "mem_free p s = Some s' \<Longrightarrow> phys s' = phys s \<and> PTE_ZERO s' = PTE_ZERO s"
  by (auto simp: mem_free_def PTE_ZERO_def split: if_splits)

lemma mem_decref_vframe:
  "mem_decref p mem_free s = Some s' \<Longrightarrow> phys s' = phys s \<and> PTE_ZERO s' = PTE_ZERO s"
  by (auto simp: mem_decref_def Let_def elim!: bind_SomeE split: if_splits dest!: mem_free_vframe)

lemma mergeable_own:
  assumes m: "mergeable rpte spte dpte fl s"
    and t: "t = merge_target dpte fl s"
  shows "\<exists>s1 fl'. merge_own dpte s = Some s1 \<and> pte_page (phys s1 dpte) = t \<and> mem_wf s1 fl' \<and>
    refcount s1 t = 1 \<and> pi_allocatable s1 t \<and> PTE_ZERO s1 = PTE_ZERO s \<and>
    (\<forall>i < PAGESIZE. pg_byte t i s1 = pg_byte (pte_page (phys s dpte)) i s) \<and>
    (\<forall>w. w div NPTENTRIES \<noteq> t \<and> w \<noteq> dpte \<longrightarrow> phys s1 w = phys s w)"
proof (cases "1 < refcount s (pte_page (phys s dpte))")
  case False
  with m have "refcount s (pte_page (phys s dpte)) = 1"
    by (simp add: mergeable_def Let_def)
  with m t False show ?thesis
    by (intro exI [of _ s] exI [of _ fl])
      (simp add: mergeable_def Let_def merge_target_def merge_own_exclusive)
next
  case True
  let ?dp = "pte_page (phys s dpte)"
  from True m t obtain fl' where fl: "fl = t # fl'"
    by (cases fl) (auto simp: mergeable_def Let_def merge_target_def)
  let ?c = "cow_state t ?dp s"
  let ?s1 = "wr dpte (mem_pi2phys t OR user_pte_perm) ?c"
  from m fl have wf: "mem_wf s (t # fl')" and d: "dpte div NPTENTRIES \<noteq> t"
    by (auto simp: mergeable_def Let_def)
  have own: "merge_own dpte s = Some ?s1"
    using m True wf by (intro merge_own_shared) (auto simp: mergeable_def Let_def)
  note c = cow_state_props [OF wf True]
  have alloc: "pi_allocatable s t" and "mem_npage s \<le> 2 ^ 27" using wf by (simp_all add: mem_wf_def)
  then have t40: "t < 2 ^ 40" by (simp add: pi_allocatable_def)
  have byte: "pg_byte t i ?s1 = pg_byte ?dp i s" if "i < PAGESIZE" for i
  proof -
    have "pg_byte t i ?s1 = pg_byte t i (copy_page t ?dp s)"
      using d page_byte_word [OF that, of t] by (intro rd_byte_phys) (auto simp: c(2))
    then show ?thesis using that by (simp add: pg_byte_copy_page)
  qed
  have "phys ?s1 w = phys s w" if "w div NPTENTRIES \<noteq> t" "w \<noteq> dpte" for w
    using that by (simp add: c(2) copy_page_def)
  moreover have "pi_allocatable ?s1 t"
    using alloc c(8) [of t] by (simp add: pi_allocatable_def)
  moreover have "pte_page (phys ?s1 dpte) = t"
    using pte_page_or_flags [OF PTE_ADDR_user_pte_perm t40] by simp
  ultimately show ?thesis
    using own byte c(1,3,6)
    by (intro exI [of _ ?s1] exI [of _ fl']) simp
qed

text \<open>C1: \<open>pmap_mergepage\<close> is a byte-wise three-way merge. When no byte was changed to different
  values on both sides, the destination entry ends up at a page, private to it, whose every byte
  is the merge of reference, source and destination; on a conflict the destination entry is
  unmapped. No other page of memory changes apart from the destination's own table.\<close>

theorem pmap_mergepage_merges:
  assumes "mergeable rpte spte dpte fl s"
    and "rp = pte_page (phys s rpte)" and "sp = pte_page (phys s spte)" and "dp = pte_page (phys s dpte)"
    and "t = merge_target dpte fl s"
  shows "\<exists>s'. pmap_mergepage rpte spte dpte s = Some s' \<and>
    (if \<exists>i < PAGESIZE. conflict3 (pg_byte rp i s) (pg_byte sp i s) (pg_byte dp i s)
     then phys s' dpte = PTE_ZERO s' \<and> refcount s' t = 0
     else pte_page (phys s' dpte) = t \<and> refcount s' t = 1 \<and>
       (\<forall>i < PAGESIZE. pg_byte t i s' = merge3 (pg_byte rp i s) (pg_byte sp i s) (pg_byte dp i s))) \<and>
    (\<forall>q i. q \<noteq> t \<and> q \<noteq> dpte div NPTENTRIES \<and> i < PAGESIZE \<longrightarrow> pg_byte q i s' = pg_byte q i s)"
proof -
  from mergeable_own [OF assms(1,5)] assms(4) obtain s1 fl' where
    own: "merge_own dpte s = Some s1" "pte_page (phys s1 dpte) = t" "mem_wf s1 fl'" "refcount s1 t = 1"
      "pi_allocatable s1 t" "PTE_ZERO s1 = PTE_ZERO s"
    and bt: "\<And>i. i < PAGESIZE \<Longrightarrow> pg_byte t i s1 = pg_byte dp i s"
    and fr: "\<And>w. w div NPTENTRIES \<noteq> t \<Longrightarrow> w \<noteq> dpte \<Longrightarrow> phys s1 w = phys s w"
    by auto
  have ne: "t \<noteq> rp" "t \<noteq> sp" "dpte div NPTENTRIES \<notin> {rp, sp, t}"
    using assms by (auto simp: mergeable_def Let_def merge_target_def dest: hd_in_set split: if_splits)
  have b1: "pg_byte q i s1 = pg_byte q i s" if "q \<noteq> t" "q \<noteq> dpte div NPTENTRIES" "i < PAGESIZE" for q i
    using that page_byte_word [of i q] by (intro rd_byte_phys fr) auto
  obtain c s2 where mb: "merge_bytes rp sp t 0 PAGESIZE s1 = (c, s2)" by fastforce
  then have sb: "same_but_page t s1 s2" by (intro merge_bytes_frame) auto
  note sm = same_but_page_mem [OF sb]
  have d2: "phys s2 dpte = phys s1 dpte"
    using ne by (intro same_but_page_phys [OF sb]) auto
  have b2: "pg_byte q i s2 = pg_byte q i s" if "q \<noteq> t" "q \<noteq> dpte div NPTENTRIES" "i < PAGESIZE" for q i
    using that b1 same_but_page_byte [OF sb] by simp
  show ?thesis
  proof (cases "\<exists>i < PAGESIZE. conflict3 (pg_byte rp i s) (pg_byte sp i s) (pg_byte dp i s)")
    case True
    then obtain k where "k < PAGESIZE" "conflict3 (pg_byte rp k s1) (pg_byte sp k s1) (pg_byte t k s1)"
      using bt b1 ne by auto
    then have c: "c" using merge_bytes_conflict [of 0 PAGESIZE t rp sp k s1] ne mb by simp
    have "mem_wf s2 fl'" "pi_allocatable s2 t" "refcount s2 t = 1" using own sm by simp_all
    then obtain s3 where s3: "mem_decref t mem_free s2 = Some s3" "refcount s3 t = 0"
      using mem_decref_ok [of s2 fl' t] by auto
    let ?s' = "wr dpte (PTE_ZERO s3) s3"
    have "pmap_mergepage rpte spte dpte s = Some ?s'"
      using own mb c s3 d2 assms(2,3) by (simp add: pmap_mergepage_def Let_def)
    moreover have "pg_byte q i ?s' = pg_byte q i s"
      if "q \<noteq> t" "q \<noteq> dpte div NPTENTRIES" "i < PAGESIZE" for q i
      using b2 [OF that] that page_byte_word [of i q] mem_decref_vframe [OF s3(1)]
      by (subst rd_byte_phys [of _ _ s2]) auto
    ultimately show ?thesis using True s3 by auto
  next
    case False
    then have "\<forall>k. 0 \<le> k \<and> k < 0 + PAGESIZE \<longrightarrow>
        \<not> conflict3 (pg_byte rp k s1) (pg_byte sp k s1) (pg_byte t k s1)"
      using bt b1 ne by auto
    with merge_bytes_ok [of 0 PAGESIZE t rp sp s1] ne mb have c: "\<not> c"
      and m: "\<forall>k < PAGESIZE. pg_byte t k s2 = merge3 (pg_byte rp k s1) (pg_byte sp k s1) (pg_byte t k s1)"
      by auto
    have "pmap_mergepage rpte spte dpte s = Some s2"
      using own mb c assms(2,3) by (simp add: pmap_mergepage_def Let_def)
    moreover have "\<forall>k < PAGESIZE. pg_byte t k s2 = merge3 (pg_byte rp k s) (pg_byte sp k s) (pg_byte dp k s)"
      using m bt b1 ne by auto
    ultimately show ?thesis using False own(2,4) d2 sm(1) b2 by auto
  qed
qed

text \<open>A table in page 2 whose first three entries name pages 3 (reference), 4 (source, byte 0
  changed to 7) and 5 (destination, byte 8 changed to 9).\<close>

definition demo_merge :: vmem where
  "demo_merge = \<lparr>mem_npage = 16,
     mem_pageinfo = (\<lambda>p. zero_pageinfo\<lparr>pi_refcount := (if 2 \<le> p \<and> p \<le> 5 then 1 else 0)\<rparr>),
     mem_freelist = None, pmap_zero = 8, kern_start = 8, kern_last = 8,
     phys = (\<lambda>w. if w = 1024 then 0x3067 else if w = 1025 then 0x4067 else if w = 1026 then 0x5067
                else if w = 2048 then 7 else if w = 2561 then 9 else 0),
     pmap_bootpmap = 9\<rparr>"

lemma demo_merge_mergeable: "mergeable 1024 1025 1026 [] demo_merge"
  by (simp add: mergeable_def Let_def demo_merge_def zero_pageinfo_def mem_wf_def pi_allocatable_def
      pte_page_def PTE_ADDR_def PAGESIZE_def NPTENTRIES_def PTE_ZERO_def mem_pi2phys_def)

lemma demo_merge_pages:
  "pte_page (phys demo_merge 1024) = 3" "pte_page (phys demo_merge 1025) = 4"
  "pte_page (phys demo_merge 1026) = 5" "merge_target 1026 [] demo_merge = 5"
  by (simp_all add: demo_merge_def pte_page_def PTE_ADDR_def PAGESIZE_def merge_target_def zero_pageinfo_def)

lemma demo_merge_no_conflict:
  "i < PAGESIZE \<Longrightarrow> \<not> conflict3 (pg_byte 3 i demo_merge) (pg_byte 4 i demo_merge) (pg_byte 5 i demo_merge)"
proof -
  assume "i < PAGESIZE"
  then have j: "i div 8 < 512" by (simp add: PAGESIZE_def)
  have b: "pg_byte p i demo_merge = ucast (drop_bit (8 * (i mod 8)) (phys demo_merge (p * 512 + i div 8)))" for p
    unfolding rd_byte_def page_byte_div page_byte_mod tabptr_def NPTENTRIES_def ..
  show ?thesis
  proof (cases "i div 8 = 0")
    case True
    then show ?thesis unfolding conflict3_def b True by (simp add: demo_merge_def)
  next
    case False
    with j have "phys demo_merge (4 * 512 + i div 8) = phys demo_merge (3 * 512 + i div 8)"
      by (simp add: demo_merge_def)
    then show ?thesis unfolding conflict3_def b by simp
  qed
qed

lemma demo_merge_bytes:
  "pg_byte 3 0 demo_merge = 0" "pg_byte 4 0 demo_merge = 7" "pg_byte 5 8 demo_merge = 9"
  "pg_byte 3 8 demo_merge = 0" "pg_byte 4 8 demo_merge = 0"
  by (simp_all add: rd_byte_def demo_merge_def PAGESIZE_def)

theorem pmap_mergepage_merges_witness:
  "\<exists>s'. pmap_mergepage 1024 1025 1026 demo_merge = Some s' \<and>
     pte_page (phys s' 1026) = 5 \<and> pg_byte 5 0 s' = 7 \<and> pg_byte 5 8 s' = 9"
proof -
  note m = pmap_mergepage_merges [OF demo_merge_mergeable refl refl refl refl, unfolded demo_merge_pages]
  from demo_merge_no_conflict have "\<not> (\<exists>i < PAGESIZE. conflict3 (pg_byte 3 i demo_merge)
      (pg_byte 4 i demo_merge) (pg_byte 5 i demo_merge))" by blast
  with m obtain s' where s': "pmap_mergepage 1024 1025 1026 demo_merge = Some s'"
    "pte_page (phys s' 1026) = 5"
    "\<forall>i < PAGESIZE. pg_byte 5 i s' = merge3 (pg_byte 3 i demo_merge) (pg_byte 4 i demo_merge) (pg_byte 5 i demo_merge)"
    by auto
  moreover have "0 < PAGESIZE" "8 < PAGESIZE" by (simp_all add: PAGESIZE_def)
  ultimately have "pg_byte 5 0 s' = 7 \<and> pg_byte 5 8 s' = 9"
    using s'(3) [rule_format, of 0] s'(3) [rule_format, of 8] demo_merge_bytes by (simp add: merge3_def)
  with s'(1,2) show ?thesis by blast
qed

end
