(* ===== verification/Walk.thy ===== *)
theory Walk
  imports Cow
begin

text \<open>
  Correctness of \<open>pmap_walk\<close> and of what is built on it: \<open>pmap_insert\<close> and the copy-on-write
  fault handler.

  A walk for writing makes every table on the path of its address exist, present and exclusive
  to this page map. \<open>path_ok\<close> describes the path before the walk as the list of its tables; the
  translation of the address (\<open>va_ent\<close>) is what the walk must not change.
\<close>

subsection \<open>What stays fixed\<close>

definition same_consts :: "'a vmem_scheme \<Rightarrow> 'a vmem_scheme \<Rightarrow> bool" where
  "same_consts s s' \<longleftrightarrow> mem_npage s' = mem_npage s \<and> pmap_zero s' = pmap_zero s \<and>
     kern_start s' = kern_start s \<and> kern_last s' = kern_last s \<and> pmap_bootpmap s' = pmap_bootpmap s"

lemma same_consts_refl [simp]: "same_consts s s"
  by (simp add: same_consts_def)

lemma same_consts_trans: "same_consts s s' \<Longrightarrow> same_consts s' s'' \<Longrightarrow> same_consts s s''"
  by (simp add: same_consts_def)

lemma same_consts_steps [simp]:
  "same_consts s (wr a v s') = same_consts s s'" "same_consts s (copy_page d p s') = same_consts s s'"
  "same_consts s (upd_pi p f s') = same_consts s s'" "same_consts s (map_table p g s') = same_consts s s'"
  "same_consts s (snd (mem_alloc s')) = same_consts s s'"
  by (simp_all add: same_consts_def map_table_def mem_alloc_simps)

lemma same_constsD:
  assumes "same_consts s s'"
  shows "PTE_ZERO s' = PTE_ZERO s" "pi_valid s' p = pi_valid s p" "pi_allocatable s' p = pi_allocatable s p"
    "mem_npage s' = mem_npage s"
  using assms by (auto simp: same_consts_def PTE_ZERO_def pi_valid_def pi_allocatable_def)

lemma map_table_simps [simp]:
  "mem_pageinfo (map_table p g s) = mem_pageinfo s"
  "phys (map_table p g s) = (\<lambda>i. if i div NPTENTRIES = p then g (phys s i) else phys s i)"
  "mem_wf (map_table p g s) fl = mem_wf s fl"
  by (simp_all add: map_table_def mem_wf_def pi_allocatable_def)

lemma tabptr_div [simp]: "k < NPTENTRIES \<Longrightarrow> (tabptr p + k) div NPTENTRIES = p"
  by (simp add: tabptr_def NPTENTRIES_def)

lemma tabptr_div0 [simp]: "tabptr p div NPTENTRIES = p"
  by (simp add: tabptr_def NPTENTRIES_def)

lemma tabptr_range: "tabptr p \<le> w \<and> w < tabptr p + NPTENTRIES \<longleftrightarrow> w div NPTENTRIES = p"
  unfolding tabptr_def NPTENTRIES_def by linarith

subsection \<open>Copying a table\<close>

text \<open>The number of entries among \<open>n\<close> from \<open>w\<close> on that name page \<open>p\<close>; zero mappings do not count.\<close>

fun name_count :: "nat \<Rightarrow> nat \<Rightarrow> nat \<Rightarrow> 'a vmem_scheme \<Rightarrow> nat" where
  "name_count w 0 p s = 0"
| "name_count w (Suc n) p s =
     (if PTE_ADDR (phys s w) \<noteq> PTE_ZERO s \<and> pte_page (phys s w) = p then 1 else 0) + name_count (Suc w) n p s"

lemma name_count_le: "name_count w n p s \<le> n"
  by (induction w n p s rule: name_count.induct) auto

lemma name_count_cong:
  "\<forall>k < n. PTE_ADDR (phys s' (w' + k)) = PTE_ADDR (phys s (w + k)) \<Longrightarrow> PTE_ZERO s' = PTE_ZERO s \<Longrightarrow>
   name_count w' n p s' = name_count w n p s"
proof (induction n arbitrary: w w')
  case (Suc n)
  from Suc.prems(1) have "PTE_ADDR (phys s' w') = PTE_ADDR (phys s w)"
    and "\<forall>k < n. PTE_ADDR (phys s' (Suc w' + k)) = PTE_ADDR (phys s (Suc w + k))"
    by (force, auto simp del: add_Suc simp: add_Suc_shift)
  with Suc show ?case by (simp add: pte_page_def)
qed simp

text \<open>A well-formed entry is a zero mapping or names a counted, valid page.\<close>

definition pte_ok :: "u64 \<Rightarrow> 'a vmem_scheme \<Rightarrow> bool" where
  "pte_ok pte s \<longleftrightarrow> PTE_ADDR pte \<noteq> 0 \<and> PGADDR pte = PTE_ADDR pte \<and>
     (PTE_ADDR pte \<noteq> PTE_ZERO s \<longrightarrow> pi_valid s (pte_page pte) \<and> 0 < refcount s (pte_page pte))"

lemma mem_incref_state:
  assumes "pi_valid s p" and "- (2 ^ 31) \<le> refcount s p" and "refcount s p < 2 ^ 31 - 1"
  shows "mem_incref p s = Some (upd_pi p (\<lambda>i. i\<lparr>pi_refcount := refcount s p + 1\<rparr>) s)"
  using assms by (simp add: mem_incref_def upd_pi_def)

lemma copy_entries_ok:
  assumes "\<forall>k < n. pte_ok (phys s (src + k)) s"
    and "\<forall>k < n. \<forall>j < n. src + k \<noteq> dst + j"
    and "\<forall>p. 0 \<le> refcount s p \<and> refcount s p < 2 ^ 31 - int n"
    and "mem_wf s fl"
  shows "\<exists>s'. copy_entries src dst n s = Some s' \<and> same_consts s s' \<and> mem_wf s' fl \<and>
    phys s' = (\<lambda>w. if dst \<le> w \<and> w < dst + n then phys s (src + (w - dst)) AND NOT PTE_W else phys s w) \<and>
    (\<forall>p. refcount s' p = refcount s p + int (name_count src n p s))"
  using assms
proof (induction n arbitrary: src dst s)
  case 0
  then show ?case by (intro exI [of _ s]) (auto simp: fun_eq_iff)
next
  case (Suc n)
  let ?pte = "phys s src"
  let ?s1 = "wr dst (?pte AND NOT PTE_W) s"
  let ?named = "PTE_ADDR ?pte \<noteq> PTE_ZERO s"
  let ?s2 = "if ?named then upd_pi (pte_page ?pte)
      (\<lambda>i. i\<lparr>pi_refcount := refcount s (pte_page ?pte) + 1\<rparr>) ?s1 else ?s1"
  have ok: "pte_ok ?pte s" using Suc.prems(1) by force
  have step: "(if ?named then mem_incref (pte_page ?pte) ?s1 else Some ?s1) = Some ?s2"
    using ok Suc.prems(3) [rule_format, of "pte_page ?pte"]
    by (auto simp: pte_ok_def intro!: mem_incref_state [THEN trans])
  have rc: "refcount ?s2 p = refcount s p + (if ?named \<and> pte_page ?pte = p then 1 else 0)" for p
    by simp
  have ph: "phys ?s2 = (phys s)(dst := ?pte AND NOT PTE_W)" by simp
  have cs: "same_consts s ?s2" by simp
  have nin: "?named \<Longrightarrow> pte_page ?pte \<notin> set fl"
    using ok Suc.prems(4) by (auto simp: pte_ok_def mem_wf_def)
  have wf: "mem_wf ?s2 fl" using Suc.prems(4) nin by (auto simp: mem_wf_set_refcount)
  have src: "phys ?s2 (Suc src + k) = phys s (Suc src + k)" if "k < n" for k
    using Suc.prems(2) [rule_format, of "Suc k" 0] that unfolding ph by simp
  have "\<exists>s'. copy_entries (Suc src) (Suc dst) n ?s2 = Some s' \<and> same_consts ?s2 s' \<and> mem_wf s' fl \<and>
    phys s' = (\<lambda>w. if Suc dst \<le> w \<and> w < Suc dst + n then phys ?s2 (Suc src + (w - Suc dst)) AND NOT PTE_W
       else phys ?s2 w) \<and> (\<forall>p. refcount s' p = refcount ?s2 p + int (name_count (Suc src) n p ?s2))"
  proof (rule Suc.IH)
    show "\<forall>k < n. pte_ok (phys ?s2 (Suc src + k)) ?s2"
    proof (intro allI impI)
      fix k assume "k < n"
      then have "pte_ok (phys s (Suc src + k)) s" using Suc.prems(1) [rule_format, of "Suc k"] by simp
      with rc \<open>k < n\<close> show "pte_ok (phys ?s2 (Suc src + k)) ?s2"
        unfolding src [OF \<open>k < n\<close>] pte_ok_def same_constsD [OF cs] rc by auto
    qed
    show "\<forall>k < n. \<forall>j < n. Suc src + k \<noteq> Suc dst + j"
      using Suc.prems(2) by auto
    show "\<forall>p. 0 \<le> refcount ?s2 p \<and> refcount ?s2 p < 2 ^ 31 - int n"
    proof
      fix p
      show "0 \<le> refcount ?s2 p \<and> refcount ?s2 p < 2 ^ 31 - int n"
        using Suc.prems(3) [rule_format, of p] unfolding rc by auto
    qed
  qed (fact wf)
  then obtain s' where s': "copy_entries (Suc src) (Suc dst) n ?s2 = Some s'" "same_consts ?s2 s'" "mem_wf s' fl"
    "phys s' = (\<lambda>w. if Suc dst \<le> w \<and> w < Suc dst + n then phys ?s2 (Suc src + (w - Suc dst)) AND NOT PTE_W
       else phys ?s2 w)" "\<And>p. refcount s' p = refcount ?s2 p + int (name_count (Suc src) n p ?s2)"
    by blast
  have "name_count (Suc src) n p ?s2 = name_count (Suc src) n p s" for p
    by (rule name_count_cong) (use src same_constsD(1) [OF cs] in simp_all)
  then have "refcount s' p = refcount s p + int (name_count src (Suc n) p s)" for p
    using s'(5) [of p] unfolding rc by auto
  moreover have "phys s' w = (if dst \<le> w \<and> w < dst + Suc n then phys s (src + (w - dst)) AND NOT PTE_W else phys s w)" for w
  proof (cases "w = dst")
    case True
    then show ?thesis unfolding s'(4) ph by simp
  next
    case False
    show ?thesis
    proof (cases "Suc dst \<le> w \<and> w < Suc dst + n")
      case True
      then have "Suc src + (w - Suc dst) = src + (w - dst)" and "w - Suc dst < n" by auto
      with src [of "w - Suc dst"] True show ?thesis unfolding s'(4) by simp
    next
      case out: False
      with \<open>w \<noteq> dst\<close> have "\<not> (dst \<le> w \<and> w < dst + Suc n)" by auto
      with out \<open>w \<noteq> dst\<close> show ?thesis by (simp only: s'(4) ph if_False fun_upd_apply)
    qed
  qed
  moreover have "copy_entries src dst (Suc n) s = Some s'"
    using step s'(1) ok by (cases ?named) (simp_all add: Let_def pte_ok_def)
  moreover have "same_consts s s'" using cs s'(2) by (rule same_consts_trans)
  ultimately show ?case using s'(3) by auto
qed

subsection \<open>One level of a walk for writing\<close>

definition rc_bound :: "nat \<Rightarrow> 'a vmem_scheme \<Rightarrow> bool" where
  "rc_bound b s \<longleftrightarrow> (\<forall>p. 0 \<le> refcount s p \<and> refcount s p < 2 ^ 31 - int b)"

definition table_ok :: "nat \<Rightarrow> 'a vmem_scheme \<Rightarrow> bool" where
  "table_ok p s \<longleftrightarrow> (\<forall>k < NPTENTRIES. pte_ok (phys s (tabptr p + k)) s)"

text \<open>The result of a step: entry \<open>pmte\<close> now names the table \<open>low\<close>, writable; that table is the
  old one or a copy of it up to write permissions, or empty if there was none; nothing else in
  memory changed, and counted pages remain counted.\<close>

abbreviation clear_W :: "u64 \<Rightarrow> u64" where "clear_W pte \<equiv> pte AND NOT PTE_W"

text \<open>Entry \<open>a\<close> is entry \<open>b\<close>, possibly without write permission.\<close>

definition wsub :: "u64 \<Rightarrow> u64 \<Rightarrow> bool" where
  "wsub a b \<longleftrightarrow> a = b \<or> a = clear_W b"

lemma wsub_refl [simp]: "wsub a a"
  by (simp add: wsub_def)

lemma wsub_clear [simp]: "wsub (clear_W a) a"
  by (simp add: wsub_def)

lemma wsub_trans: "wsub a b \<Longrightarrow> wsub b c \<Longrightarrow> wsub a c"
  by (auto simp: wsub_def and.assoc)

lemma wsub_ADDR: "wsub a b \<Longrightarrow> PTE_ADDR a = PTE_ADDR b"
  by (auto simp: wsub_def)

lemma wsub_noW: "wsub a b \<Longrightarrow> \<not> has b PTE_W \<Longrightarrow> a = b"
proof -
  assume "wsub a b" "\<not> has b PTE_W"
  moreover from this(2) have "clear_W b = b"
    unfolding has_def
    by (metis (no_types, lifting) and_eq_not_not_or bit.compl_zero bit.conj_disj_distrib bit.disj_cancel_right
        bit.double_compl or.right_neutral and.right_neutral bit.disj_conj_distrib2)
  ultimately show "a = b" by (auto simp: wsub_def)
qed

definition walk_stepped :: "nat \<Rightarrow> nat list \<Rightarrow> nat list \<Rightarrow> 'a vmem_scheme \<Rightarrow> nat \<Rightarrow> 'a vmem_scheme \<Rightarrow> bool" where
  "walk_stepped pmte fl fl' s low s' \<longleftrightarrow>
     same_consts s s' \<and> mem_wf s' fl' \<and> (fl' = fl \<or> fl \<noteq> [] \<and> fl' = tl fl) \<and>
     pte_page (phys s' pmte) = low \<and> has (phys s' pmte) PTE_P \<and> has (phys s' pmte) PTE_W \<and>
     PTE_ADDR (phys s' pmte) \<noteq> PTE_ZERO s \<and>
     0 < refcount s' low \<and> low \<noteq> pmte div NPTENTRIES \<and>
     (low \<in> set fl \<or> PTE_ADDR (phys s pmte) \<noteq> PTE_ZERO s \<and> low = pte_page (phys s pmte)) \<and>
     (\<forall>k < NPTENTRIES. wsub (phys s' (tabptr low + k))
        (if PTE_ADDR (phys s pmte) = PTE_ZERO s then PTE_ZERO s
         else phys s (tabptr (pte_page (phys s pmte)) + k))) \<and>
     (\<forall>w. w \<noteq> pmte \<and> w div NPTENTRIES \<noteq> low \<longrightarrow> phys s' w = phys s w) \<and>
     (\<forall>p. 0 < refcount s p \<longrightarrow> 0 < refcount s' p)"

lemma has_or_right: "v AND f = f \<Longrightarrow> f \<noteq> 0 \<Longrightarrow> has (w OR v) f"
  unfolding has_def by (simp add: bit.conj_disj_distrib2 or_eq_0_iff)

lemma has_tab_perm [simp]: "has (w OR tab_perm) PTE_P" "has (w OR tab_perm) PTE_W"
  by (rule has_or_right; simp add: tab_perm_def pte_flag_defs)+

lemma has_or_P [simp]: "has (w OR PTE_P) PTE_P"
  by (rule has_or_right) (simp_all add: pte_flag_defs)

lemma has_left: "has w f \<Longrightarrow> has (w OR v) f"
  unfolding has_def by (simp add: bit.conj_disj_distrib2 or_eq_0_iff)

lemma PTE_ADDR_tab_perm [simp]: "PTE_ADDR tab_perm = 0"
  by (simp add: tab_perm_def PTE_ADDR_or)

lemma wf_page_small: "mem_wf s fl \<Longrightarrow> pi_allocatable s p \<Longrightarrow> p < 2 ^ 27"
  by (auto simp: mem_wf_def pi_allocatable_def)

lemma PTE_ADDR_ZERO: "mem_wf s fl \<Longrightarrow> pmap_zero s < mem_npage s \<Longrightarrow> PTE_ADDR (PTE_ZERO s) = PTE_ZERO s"
  unfolding PTE_ZERO_def by (rule PTE_ADDR_pi2phys) (simp add: mem_wf_def)

lemma tab_entry:
  assumes "p < 2 ^ 27" and "z = pmap_zero s" and "z < 2 ^ 27" and "p \<noteq> z" and "PTE_ADDR f = 0"
  shows "PTE_ADDR (mem_pi2phys p OR f) \<noteq> PTE_ZERO s" and "pte_page (mem_pi2phys p OR f) = p"
    and "PTE_ADDR (mem_pi2phys p OR f) = mem_pi2phys p"
proof -
  show a: "PTE_ADDR (mem_pi2phys p OR f) = mem_pi2phys p"
    using assms by (simp add: PTE_ADDR_or PTE_ADDR_pi2phys)
  show "pte_page (mem_pi2phys p OR f) = p" using assms by (intro pte_page_or_flags) simp_all
  show "PTE_ADDR (mem_pi2phys p OR f) \<noteq> PTE_ZERO s"
    unfolding a PTE_ZERO_def using assms pi2phys_inject [of p z] by simp
qed

lemma walk_step_create:
  assumes wf: "mem_wf s (np # fl)" and z: "pmap_zero s < mem_npage s"
    and e: "PTE_ADDR (phys s pmte) = PTE_ZERO s" and pm: "pmte div NPTENTRIES \<notin> set (np # fl)"
  shows "\<exists>s'. walk_find pmte True s = Some (Some np, s') \<and> walk_unshare l pmte True np s' = Some (Some np, s') \<and>
    walk_stepped pmte (np # fl) fl s np s' \<and> (\<forall>p. refcount s' p = (if p = np then 1 else refcount s p))"
proof -
  let ?s2 = "upd_pi np (\<lambda>i. i\<lparr>pi_refcount := 1\<rparr>) (snd (mem_alloc s))"
  let ?s' = "wr pmte (mem_pi2phys np OR tab_perm) (map_table np (\<lambda>_. PTE_ZERO s) ?s2)"
  have lim: "mem_npage s \<le> 2 ^ 27" "pi_allocatable s np" "refcount s np = 0" "np \<notin> set fl"
    using wf mem_wf_distinct [OF wf] by (simp_all add: mem_wf_def)
  have a: "mem_alloc s = (Some np, snd (mem_alloc s))" "mem_wf (snd (mem_alloc s)) fl"
    using mem_alloc_Cons [OF wf] by auto
  have "mem_incref np (snd (mem_alloc s)) = Some ?s2"
    using mem_incref_state [of "snd (mem_alloc s)" np] lim pi_allocatable_valid [of s np]
    by (simp add: mem_alloc_simps pi_valid_cong [of "snd (mem_alloc s)" s])
  then have f: "walk_find pmte True s = Some (Some np, ?s')"
    unfolding walk_find_def using e by (subst a(1)) (simp add: Let_def)
  have u: "walk_unshare l pmte True np ?s' = Some (Some np, ?s')"
    by (simp add: walk_unshare_def)
  have t: "PTE_ADDR (mem_pi2phys np OR tab_perm) \<noteq> PTE_ZERO s" "pte_page (mem_pi2phys np OR tab_perm) = np"
    using tab_entry [of np "pmap_zero s" s tab_perm] lim z by (auto simp: pi_allocatable_def)
  have "mem_wf ?s' fl"
    using a(2) lim(4) by (simp add: mem_wf_set_refcount)
  moreover have "phys ?s' (tabptr np + k) = PTE_ZERO s" if "k < NPTENTRIES" for k
    using that pm by auto
  ultimately have "walk_stepped pmte (np # fl) fl s np ?s'"
    unfolding walk_stepped_def using t e pm lim(3) by (auto simp: mem_alloc_simps)
  moreover have "\<forall>p. refcount ?s' p = (if p = np then 1 else refcount s p)"
    by (simp add: mem_alloc_simps)
  ultimately show ?thesis using f u by blast
qed

lemma walk_step_exclusive:
  assumes wf: "mem_wf s fl" and lo: "low = pte_page (phys s pmte)"
    and e: "PTE_ADDR (phys s pmte) \<noteq> PTE_ZERO s" and pm: "pmte div NPTENTRIES \<noteq> low"
    and r: "0 < refcount s low" and x: "has (phys s pmte) PTE_W \<or> refcount s low = 1"
    and z: "low < 2 ^ 27" "pmap_zero s < 2 ^ 27"
  shows "\<exists>s1 s'. walk_find pmte True s = Some (Some low, s1) \<and> walk_unshare l pmte True low s1 = Some (Some low, s') \<and>
    walk_stepped pmte fl fl s low s' \<and> (\<forall>p. refcount s' p = refcount s p)"
proof -
  let ?s1 = "wr pmte (phys s pmte OR PTE_P) s"
  have f: "walk_find pmte True s = Some (Some low, ?s1)"
    using e lo by (simp add: walk_find_def)
  have nz: "low \<noteq> pmap_zero s"
    using e unfolding lo PTE_ADDR_pte_page PTE_ZERO_def by auto
  have hw: "has (phys s pmte OR PTE_P) PTE_W = has (phys s pmte) PTE_W"
    by (simp add: has_def bit.conj_disj_distrib2 PTE_P_def PTE_W_def)
  have ne: "tabptr low + k \<noteq> pmte" if "k < NPTENTRIES" for k
    using that pm tabptr_div by blast
  show ?thesis
  proof (cases "has (phys s pmte) PTE_W")
    case True
    then have "walk_unshare l pmte True low ?s1 = Some (Some low, ?s1)"
      by (simp add: walk_unshare_def hw)
    moreover have "walk_stepped pmte fl fl s low ?s1"
      unfolding walk_stepped_def using True hw wf e pm r lo ne by auto
    ultimately show ?thesis using f by auto
  next
    case False
    let ?s' = "wr pmte (mem_pi2phys low OR tab_perm) (map_table low (\<lambda>pte. pte AND NOT PTE_W) ?s1)"
    have "walk_unshare l pmte True low ?s1 = Some (Some low, ?s')"
      using False x by (simp add: walk_unshare_def hw Let_def)
    moreover have "walk_stepped pmte fl fl s low ?s'"
      unfolding walk_stepped_def
      using wf e pm r lo tab_entry [of low "pmap_zero s" s tab_perm] z nz ne by auto
    ultimately show ?thesis using f by auto
  qed
qed

lemma walk_step_copy:
  assumes wf: "mem_wf s (np # fl)" and lo: "lo = pte_page (phys s pmte)"
    and e: "PTE_ADDR (phys s pmte) \<noteq> PTE_ZERO s" and w: "\<not> has (phys s pmte) PTE_W"
    and pm: "pmte div NPTENTRIES \<notin> set (lo # np # fl)" and v: "pi_valid s lo"
    and r: "1 < refcount s lo" and t: "table_ok lo s" and b: "rc_bound (Suc NPTENTRIES) s"
    and z: "pmap_zero s < mem_npage s"
  shows "\<exists>s1 s'. walk_find pmte True s = Some (Some lo, s1) \<and> walk_unshare l pmte True lo s1 = Some (Some np, s') \<and>
    walk_stepped pmte (np # fl) fl s np s' \<and>
    (\<forall>p. refcount s' p = (if p = np then 1 else refcount s p) + int (name_count (tabptr lo) NPTENTRIES p s)
           - (if p = lo then 1 else 0))"
proof -
  let ?s1 = "wr pmte (phys s pmte OR PTE_P) s"
  let ?s2 = "upd_pi np (\<lambda>i. i\<lparr>pi_refcount := 1\<rparr>) (snd (mem_alloc ?s1))"
  have f: "walk_find pmte True s = Some (Some lo, ?s1)"
    using e lo by (simp add: walk_find_def)
  have wf1: "mem_wf ?s1 (np # fl)" using wf by simp
  have lim: "mem_npage s \<le> 2 ^ 27" "pi_allocatable s np" "refcount s np = 0" "np \<notin> set fl"
    using wf mem_wf_distinct [OF wf] by (simp_all add: mem_wf_def)
  have ne: "lo \<noteq> np" "lo \<notin> set fl" using r lim(3) wf by (auto simp: mem_wf_def)
  have a: "mem_alloc ?s1 = (Some np, snd (mem_alloc ?s1))" "mem_wf (snd (mem_alloc ?s1)) fl"
    using mem_alloc_Cons [OF wf1] by auto
  have inc: "mem_incref np (snd (mem_alloc ?s1)) = Some ?s2"
    using mem_incref_state [of "snd (mem_alloc ?s1)" np] lim pi_allocatable_valid [of s np]
    by (simp add: mem_alloc_simps pi_valid_cong [of "snd (mem_alloc ?s1)" ?s1])
  have cs: "same_consts s ?s2" by simp
  have ph: "phys ?s2 = (phys s)(pmte := phys s pmte OR PTE_P)" by (simp add: mem_alloc_simps)
  have rc: "refcount ?s2 p = (if p = np then 1 else refcount s p)" for p by (simp add: mem_alloc_simps)
  have wf2: "mem_wf ?s2 fl" using a(2) lim(4) by (simp add: mem_wf_set_refcount)
  have off: "tabptr q + k \<noteq> pmte" if "k < NPTENTRIES" "q = lo \<or> q = np" for q k
    using that pm tabptr_div by fastforce
  have tab: "phys ?s2 (tabptr lo + k) = phys s (tabptr lo + k)" if "k < NPTENTRIES" for k
    using off [OF that] unfolding ph by simp
  have "\<exists>s3. copy_entries (tabptr lo) (tabptr np) NPTENTRIES ?s2 = Some s3 \<and> same_consts ?s2 s3 \<and> mem_wf s3 fl \<and>
    phys s3 = (\<lambda>w. if tabptr np \<le> w \<and> w < tabptr np + NPTENTRIES
       then phys ?s2 (tabptr lo + (w - tabptr np)) AND NOT PTE_W else phys ?s2 w) \<and>
    (\<forall>p. refcount s3 p = refcount ?s2 p + int (name_count (tabptr lo) NPTENTRIES p ?s2))"
  proof (rule copy_entries_ok)
    show "\<forall>k < NPTENTRIES. pte_ok (phys ?s2 (tabptr lo + k)) ?s2"
      using t tab lim(3) unfolding table_ok_def pte_ok_def same_constsD [OF cs] rc by auto
    show "\<forall>k < NPTENTRIES. \<forall>j < NPTENTRIES. tabptr lo + k \<noteq> tabptr np + j"
      using ne by (metis tabptr_div)
    show "\<forall>p. 0 \<le> refcount ?s2 p \<and> refcount ?s2 p < 2 ^ 31 - int NPTENTRIES"
    proof
      fix p
      from b have "0 \<le> refcount s p \<and> refcount s p < 2 ^ 31 - int (Suc NPTENTRIES)"
        unfolding rc_bound_def by blast
      then show "0 \<le> refcount ?s2 p \<and> refcount ?s2 p < 2 ^ 31 - int NPTENTRIES"
        unfolding rc by (auto simp: NPTENTRIES_def)
    qed
  qed (fact wf2)
  then obtain s3 where s3: "copy_entries (tabptr lo) (tabptr np) NPTENTRIES ?s2 = Some s3" "same_consts ?s2 s3"
    "mem_wf s3 fl" "phys s3 = (\<lambda>w. if tabptr np \<le> w \<and> w < tabptr np + NPTENTRIES
       then phys ?s2 (tabptr lo + (w - tabptr np)) AND NOT PTE_W else phys ?s2 w)"
    "\<And>p. refcount s3 p = refcount ?s2 p + int (name_count (tabptr lo) NPTENTRIES p ?s2)" by blast
  have nc: "name_count (tabptr lo) NPTENTRIES p ?s2 = name_count (tabptr lo) NPTENTRIES p s" for p
    by (rule name_count_cong) (use tab same_constsD(1) [OF cs] in simp_all)
  have cs3: "same_consts s s3" using cs s3(2) by (rule same_consts_trans)
  let ?s4 = "upd_pi lo (\<lambda>i. i\<lparr>pi_refcount := refcount s3 lo - 1\<rparr>) s3"
  have rlo: "1 < refcount s3 lo" "refcount s3 lo < 2 ^ 31"
  proof -
    have "0 \<le> refcount s lo \<and> refcount s lo < 2 ^ 31 - int (Suc NPTENTRIES)"
      using b unfolding rc_bound_def by blast
    with r ne name_count_le [of "tabptr lo" NPTENTRIES lo s] show "1 < refcount s3 lo" "refcount s3 lo < 2 ^ 31"
      unfolding s3(5) rc nc by auto
  qed
  have dec: "mem_decref lo ff s3 = Some ?s4" for ff
    using rlo v same_constsD(2) [OF cs3, of lo] by (simp add: mem_decref_def upd_pi_def)
  let ?s' = "wr pmte (mem_pi2phys np OR tab_perm) ?s4"
  have "walk_unshare l pmte True lo ?s1 = Some (Some np, ?s')"
    unfolding walk_unshare_def using w r dec s3(1) inc
    by (subst a(1)) (simp add: has_def bit.conj_disj_distrib2 PTE_P_def PTE_W_def)
  moreover have "walk_stepped pmte (np # fl) fl s np ?s'"
  proof -
    have te: "PTE_ADDR (mem_pi2phys np OR tab_perm) \<noteq> PTE_ZERO s" "pte_page (mem_pi2phys np OR tab_perm) = np"
      using tab_entry [of np "pmap_zero s" s tab_perm] lim z by (auto simp: pi_allocatable_def)
    have "wsub (phys ?s' (tabptr np + k)) (phys s (tabptr lo + k))" if "k < NPTENTRIES" for k
      using that off tab by (simp add: s3(4))
    moreover have "phys ?s' w = phys s w" if "w \<noteq> pmte" "w div NPTENTRIES \<noteq> np" for w
      using that tabptr_range [of np w] by (auto simp: s3(4) mem_alloc_simps)
    moreover have "0 < refcount ?s' p" if "0 < refcount s p \<or> p = np" for p
    proof -
      have "0 < refcount s3 p" unfolding s3(5) rc using that by auto
      with rlo(1) show ?thesis by simp
    qed
    moreover have "mem_wf ?s' fl" using s3(3) ne(2) by (simp add: mem_wf_set_refcount)
    ultimately show ?thesis
      unfolding walk_stepped_def using te e pm lo cs3 by auto
  qed
  moreover have "\<forall>p. refcount ?s' p = (if p = np then 1 else refcount s p) +
      int (name_count (tabptr lo) NPTENTRIES p s) - (if p = lo then 1 else 0)"
    using ne(1) by (simp add: s3(5) nc mem_alloc_simps)
  ultimately show ?thesis using f by blast
qed

subsection \<open>The whole walk\<close>

text \<open>\<open>path_tabs\<close> is the list of the existing tables below \<open>pmtab\<close> on the path of \<open>va\<close>, and \<open>va_ent\<close>
  the entry that the tree assigns to \<open>va\<close>, \<open>PTE_ZERO\<close> below a missing table.\<close>

fun path_tabs :: "nat \<Rightarrow> nat \<Rightarrow> nat \<Rightarrow> 'a vmem_scheme \<Rightarrow> nat list" where
  "path_tabs 0 pmtab va s = []"
| "path_tabs (Suc l) pmtab va s =
     (let e = phys s (pmtab + PDX (Suc l) va)
      in if PTE_ADDR e = PTE_ZERO s then []
         else pte_page e # path_tabs l (tabptr (pte_page e)) va s)"

fun va_ent :: "nat \<Rightarrow> nat \<Rightarrow> nat \<Rightarrow> 'a vmem_scheme \<Rightarrow> u64" where
  "va_ent 0 pmtab va s = phys s (pmtab + PDX 0 va)"
| "va_ent (Suc l) pmtab va s =
     (let e = phys s (pmtab + PDX (Suc l) va)
      in if PTE_ADDR e = PTE_ZERO s then PTE_ZERO s
         else va_ent l (tabptr (pte_page e)) va s)"

lemma pte_page_cong: "PTE_ADDR a = PTE_ADDR b \<Longrightarrow> pte_page a = pte_page b"
  by (simp add: pte_page_def)

lemma path_frame:
  assumes "wsub (phys s' (tab' + PDX l va)) (phys s (tab + PDX l va))"
    and "PTE_ZERO s' = PTE_ZERO s"
    and "\<forall>p \<in> set (path_tabs l tab va s). \<forall>w. w div NPTENTRIES = p \<longrightarrow> phys s' w = phys s w"
  shows "path_tabs l tab' va s' = path_tabs l tab va s \<and> wsub (va_ent l tab' va s') (va_ent l tab va s)"
  using assms
proof (induction l arbitrary: tab tab')
  case 0
  then show ?case by simp
next
  case (Suc l)
  let ?e = "phys s (tab + PDX (Suc l) va)" and ?e' = "phys s' (tab' + PDX (Suc l) va)"
  have pa: "PTE_ADDR ?e' = PTE_ADDR ?e" using Suc.prems(1) by (rule wsub_ADDR)
  then have pp: "pte_page ?e' = pte_page ?e" by (rule pte_page_cong)
  show ?case
  proof (cases "PTE_ADDR ?e = PTE_ZERO s")
    case True
    with Suc.prems pa show ?thesis by (simp add: Let_def)
  next
    case False
    with Suc.prems have "wsub (phys s' (tabptr (pte_page ?e) + PDX l va)) (phys s (tabptr (pte_page ?e) + PDX l va))"
      by (simp add: Let_def)
    with Suc.IH [of "tabptr (pte_page ?e)" "tabptr (pte_page ?e)"] False Suc.prems(2,3) pp pa show ?thesis
      by (simp add: Let_def)
  qed
qed

text \<open>What a walk for writing from a table at level \<open>l\<close> needs: memory is well formed with a free
  page per level, reference counts are far from overflow, and the tables on the path are
  distinct, valid, counted and made of well-formed entries.\<close>

definition walk_ok :: "nat \<Rightarrow> nat \<Rightarrow> nat \<Rightarrow> nat list \<Rightarrow> 'a vmem_scheme \<Rightarrow> bool" where
  "walk_ok l p va fl s \<longleftrightarrow>
     mem_wf s fl \<and> l \<le> NPTLVLS \<and> l \<le> length fl \<and> pmap_zero s < mem_npage s \<and> rc_bound (Suc (l * Suc NPTENTRIES)) s \<and>
     distinct (p # path_tabs l (tabptr p) va s) \<and> p \<notin> set fl \<and>
     (\<forall>q \<in> set (path_tabs l (tabptr p) va s). pi_valid s q \<and> 0 < refcount s q \<and> table_ok q s)"

lemma rc_boundI:
  assumes "rc_bound (Suc (Suc m * Suc NPTENTRIES)) s" and "m \<le> NPTLVLS"
    and "\<And>p. 0 \<le> refcount s' p \<and> (refcount s' p \<le> refcount s p + int (Suc NPTENTRIES) \<or> refcount s' p \<le> int (Suc NPTENTRIES))"
  shows "rc_bound (Suc (m * Suc NPTENTRIES)) s'"
  unfolding rc_bound_def
proof
  fix p
  from assms(1) have "0 \<le> refcount s p" "refcount s p < 2 ^ 31 - int (Suc (Suc m * Suc NPTENTRIES))"
    unfolding rc_bound_def by blast+
  moreover have "int (m * Suc NPTENTRIES) \<le> 3 * 513"
    using assms(2) by (simp add: NPTLVLS_def NPTENTRIES_def)
  ultimately show "0 \<le> refcount s' p \<and> refcount s' p < 2 ^ 31 - int (Suc (m * Suc NPTENTRIES))"
    using assms(3) [of p] by (auto simp: NPTENTRIES_def)
qed

lemma walk_step:
  assumes ok: "walk_ok (Suc m) p va fl s" and pmte: "pmte = tabptr p + PDX (Suc m) va"
  shows "\<exists>lo s0 low s1 fl1. walk_find pmte True s = Some (Some lo, s0) \<and>
    walk_unshare (Suc m) pmte True lo s0 = Some (Some low, s1) \<and>
    walk_stepped pmte fl fl1 s low s1 \<and> rc_bound (Suc (m * Suc NPTENTRIES)) s1"
proof -
  obtain np fl' where fl: "fl = np # fl'"
    using ok by (cases fl) (auto simp: walk_ok_def)
  let ?e = "phys s pmte" and ?lo = "pte_page (phys s pmte)"
  have b: "rc_bound (Suc (Suc m * Suc NPTENTRIES)) s" and m: "m \<le> NPTLVLS" and wf: "mem_wf s (np # fl')"
    and z: "pmap_zero s < mem_npage s" and pf: "p \<notin> set (np # fl')" and lim: "mem_npage s \<le> 2 ^ 27"
    using ok fl by (auto simp: walk_ok_def mem_wf_def)
  have pm: "pmte div NPTENTRIES = p" unfolding pmte by simp
  have r0: "0 \<le> refcount s q" for q using b by (auto simp: rc_bound_def)
  show ?thesis
  proof (cases "PTE_ADDR ?e = PTE_ZERO s")
    case True
    from walk_step_create [OF wf z True, of "Suc m"] pm pf obtain s' where
      s': "walk_find pmte True s = Some (Some np, s')" "walk_unshare (Suc m) pmte True np s' = Some (Some np, s')"
      "walk_stepped pmte (np # fl') fl' s np s'" "\<And>q. refcount s' q = (if q = np then 1 else refcount s q)"
      by auto
    have "rc_bound (Suc (m * Suc NPTENTRIES)) s'"
      by (rule rc_boundI [OF b m]) (use s'(4) r0 in auto)
    with s' fl show ?thesis by blast
  next
    case False
    then have lo: "pi_valid s ?lo" "0 < refcount s ?lo" "table_ok ?lo s" "p \<noteq> ?lo"
      using ok by (auto simp: walk_ok_def Let_def pmte)
    show ?thesis
    proof (cases "has ?e PTE_W \<or> refcount s ?lo = 1")
      case True
      have sm: "?lo < 2 ^ 27" "pmap_zero s < 2 ^ 27"
        using lo(1) z lim by (simp_all add: pi_valid_def)
      have "pmte div NPTENTRIES \<noteq> ?lo" using pm lo(4) by simp
      from walk_step_exclusive [OF wf refl False this lo(2) True sm, of "Suc m"] obtain s1 s' where
        s': "walk_find pmte True s = Some (Some ?lo, s1)" "walk_unshare (Suc m) pmte True ?lo s1 = Some (Some ?lo, s')"
        "walk_stepped pmte (np # fl') (np # fl') s ?lo s'" "\<And>q. refcount s' q = refcount s q" by auto
      have "rc_bound (Suc (m * Suc NPTENTRIES)) s'"
        by (rule rc_boundI [OF b m]) (use s'(4) r0 in auto)
      with s' fl show ?thesis by blast
    next
      case no: False
      then have e: "\<not> has ?e PTE_W" and r: "1 < refcount s ?lo" using lo(2) by auto
      have b': "rc_bound (Suc NPTENTRIES) s"
        using b by (auto simp: rc_bound_def) (smt (verit, best) mult_nonneg_nonneg of_nat_0_le_iff)
      have "pmte div NPTENTRIES \<notin> set (?lo # np # fl')" using pm pf lo(4) by auto
      from walk_step_copy [OF wf refl False e this lo(1) r lo(3) b' z, of "Suc m"] obtain s1 s' where
        s': "walk_find pmte True s = Some (Some ?lo, s1)" "walk_unshare (Suc m) pmte True ?lo s1 = Some (Some np, s')"
        "walk_stepped pmte (np # fl') fl' s np s'"
        "\<And>q. refcount s' q = (if q = np then 1 else refcount s q) +
           int (name_count (tabptr ?lo) NPTENTRIES q s) - (if q = ?lo then 1 else 0)" by auto
      have nc: "int (name_count (tabptr ?lo) NPTENTRIES q s) \<le> int NPTENTRIES" for q
        using name_count_le by simp
      have "rc_bound (Suc (m * Suc NPTENTRIES)) s'"
      proof (rule rc_boundI [OF b m])
        fix q
        show "0 \<le> refcount s' q \<and> (refcount s' q \<le> refcount s q + int (Suc NPTENTRIES) \<or>
            refcount s' q \<le> int (Suc NPTENTRIES))"
          unfolding s'(4) using nc [of q] r0 [of q] r by (cases "q = np"; cases "q = ?lo") auto
      qed
      with s' fl show ?thesis by blast
    qed
  qed
qed

lemma walk_ok_next:
  assumes ok: "walk_ok (Suc m) p va fl s" and pmte: "pmte = tabptr p + PDX (Suc m) va"
    and st: "walk_stepped pmte fl fl1 s low s1" and b: "rc_bound (Suc (m * Suc NPTENTRIES)) s1"
  shows "walk_ok m low va fl1 s1" and "wsub (va_ent m (tabptr low) va s1) (va_ent (Suc m) (tabptr p) va s)"
    and "set (path_tabs m (tabptr low) va s1) \<subseteq> set (path_tabs (Suc m) (tabptr p) va s) - {low}"
proof -
  let ?e = "phys s pmte" and ?lo = "pte_page (phys s pmte)"
  have Z: "PTE_ZERO s1 = PTE_ZERO s" using st by (simp add: walk_stepped_def same_constsD(1))
  have wf1: "mem_wf s1 fl1" and low: "0 < refcount s1 low" using st by (simp_all add: walk_stepped_def)
  have pm: "pmte div NPTENTRIES = p" unfolding pmte by simp
  have ent: "wsub (phys s1 (tabptr low + PDX m va))
      (if PTE_ADDR ?e = PTE_ZERO s then PTE_ZERO s else phys s (tabptr ?lo + PDX m va))"
    using st PDX_less [of m va] unfolding walk_stepped_def by blast
  have old: "path_tabs (Suc m) (tabptr p) va s = ?lo # path_tabs m (tabptr ?lo) va s"
    if "PTE_ADDR ?e \<noteq> PTE_ZERO s" using that by (simp add: Let_def pmte)
  have fr: "refcount s q = 0" if "q \<in> set fl" for q
    using ok that unfolding walk_ok_def mem_wf_def by blast
  have lowc: "low \<in> set fl \<or> low = ?lo" and flc: "fl1 = fl \<or> fl \<noteq> [] \<and> fl1 = tl fl"
    using st unfolding walk_stepped_def by blast+
  have other: "q \<noteq> p \<and> q \<noteq> low \<and> q \<noteq> ?lo \<and> 0 < refcount s q \<and> pi_valid s q \<and> table_ok q s"
    if nz: "PTE_ADDR ?e \<noteq> PTE_ZERO s" and q: "q \<in> set (path_tabs m (tabptr ?lo) va s)" for q
  proof -
    have "distinct (p # ?lo # path_tabs m (tabptr ?lo) va s)"
      and c: "\<forall>q \<in> set (?lo # path_tabs m (tabptr ?lo) va s). pi_valid s q \<and> 0 < refcount s q \<and> table_ok q s"
      using ok old [OF nz] unfolding walk_ok_def by simp_all
    then have "q \<noteq> p" "q \<noteq> ?lo" "0 < refcount s q" "pi_valid s q" "table_ok q s" using q by auto
    moreover from this have "q \<noteq> low" using lowc fr [of q] by auto
    ultimately show ?thesis by blast
  qed
  have path: "path_tabs m (tabptr low) va s1 = (if PTE_ADDR ?e = PTE_ZERO s then [] else path_tabs m (tabptr ?lo) va s)
      \<and> wsub (va_ent m (tabptr low) va s1) (va_ent (Suc m) (tabptr p) va s)"
  proof (cases "PTE_ADDR ?e = PTE_ZERO s")
    case True
    with ent have "PTE_ADDR (phys s1 (tabptr low + PDX m va)) = PTE_ZERO s"
      using ok PTE_ADDR_ZERO [of s fl] True wsub_ADDR [OF ent] by (simp add: walk_ok_def)
    with True ent Z show ?thesis by (cases m) (simp_all add: Let_def pmte)
  next
    case False
    have "\<forall>q \<in> set (path_tabs m (tabptr ?lo) va s). \<forall>w. w div NPTENTRIES = q \<longrightarrow> phys s1 w = phys s w"
    proof (intro ballI allI impI)
      fix q w
      assume q: "q \<in> set (path_tabs m (tabptr ?lo) va s)" "w div NPTENTRIES = q"
      then have "q \<noteq> p" "q \<noteq> low" using other [OF False q(1)] by simp_all
      then have "w \<noteq> pmte" "w div NPTENTRIES \<noteq> low" using q(2) pm by blast+
      with st show "phys s1 w = phys s w" unfolding walk_stepped_def by blast
    qed
    from path_frame [OF _ Z this, of "tabptr low"] ent False show ?thesis
      by (simp add: Let_def pmte)
  qed
  then show "wsub (va_ent m (tabptr low) va s1) (va_ent (Suc m) (tabptr p) va s)" ..
  have sub: "q \<noteq> low \<and> q \<in> set (path_tabs (Suc m) (tabptr p) va s) \<and> 0 < refcount s q \<and> pi_valid s q \<and>
      table_ok q s \<and> q \<noteq> p"
    if "q \<in> set (path_tabs m (tabptr low) va s1)" for q
  proof -
    from that path have "PTE_ADDR ?e \<noteq> PTE_ZERO s" "q \<in> set (path_tabs m (tabptr ?lo) va s)"
      by (auto split: if_splits)
    then show ?thesis using other [of q] old by simp
  qed
  then show "set (path_tabs m (tabptr low) va s1) \<subseteq> set (path_tabs (Suc m) (tabptr p) va s) - {low}" by blast
  have tab: "table_ok q s1" if "q \<in> set (path_tabs m (tabptr low) va s1)" for q
    unfolding table_ok_def
  proof (intro allI impI)
    fix k assume k: "k < NPTENTRIES"
    from sub [OF that] have q: "q \<noteq> low" "q \<noteq> p" "table_ok q s" by auto
    have "tabptr q + k \<noteq> pmte" using q(2) pm k by auto
    then have "phys s1 (tabptr q + k) = phys s (tabptr q + k)"
      using st q(1) k unfolding walk_stepped_def by auto
    moreover have "pi_valid s1 r = pi_valid s r" for r
      using st by (intro same_constsD(2)) (simp add: walk_stepped_def)
    ultimately show "pte_ok (phys s1 (tabptr q + k)) s1"
      using q(3) k st unfolding table_ok_def pte_ok_def Z by (simp add: walk_stepped_def)
  qed
  show "walk_ok m low va fl1 s1"
    unfolding walk_ok_def
  proof (intro conjI ballI)
    show "low \<notin> set fl1" using wf1 low by (auto simp: mem_wf_def)
    have "distinct (path_tabs m (tabptr low) va s1)"
      using path ok by (auto simp: walk_ok_def Let_def pmte)
    with sub show "distinct (low # path_tabs m (tabptr low) va s1)" by auto
    have "Suc m \<le> NPTLVLS" "Suc m \<le> length fl" "pmap_zero s < mem_npage s" using ok unfolding walk_ok_def by blast+
    with flc show "m \<le> NPTLVLS" "m \<le> length fl1" by auto
    have "same_consts s s1" using st unfolding walk_stepped_def by blast
    with \<open>pmap_zero s < mem_npage s\<close> show "pmap_zero s1 < mem_npage s1"
      by (simp add: same_consts_def)
    fix q assume q: "q \<in> set (path_tabs m (tabptr low) va s1)"
    show "table_ok q s1" using tab [OF q] .
    have "pi_valid s1 q = pi_valid s q"
      using st by (intro same_constsD(2)) (simp add: walk_stepped_def)
    then show "pi_valid s1 q" using sub [OF q] by simp
    show "0 < refcount s1 q" using sub [OF q] st by (simp add: walk_stepped_def)
  qed (use wf1 b in auto)
qed

text \<open>After the walk: \<open>path_rw\<close> says that every table entry on the path is present and writable.\<close>

fun path_rw :: "nat \<Rightarrow> nat \<Rightarrow> nat \<Rightarrow> 'a vmem_scheme \<Rightarrow> bool" where
  "path_rw 0 pmtab va s = True"
| "path_rw (Suc l) pmtab va s =
     (let e = phys s (pmtab + PDX (Suc l) va)
      in has e PTE_P \<and> has e PTE_W \<and> PTE_ADDR e \<noteq> PTE_ZERO s \<and> path_rw l (tabptr (pte_page e)) va s)"

definition walked :: "nat \<Rightarrow> nat \<Rightarrow> nat \<Rightarrow> nat list \<Rightarrow> 'a vmem_scheme \<Rightarrow> nat \<Rightarrow> nat list \<Rightarrow> 'a vmem_scheme \<Rightarrow> bool" where
  "walked l p va fl s pte fl' s' \<longleftrightarrow>
     va_pte l (tabptr p) va s' = Some pte \<and> path_rw l (tabptr p) va s' \<and>
     wsub (phys s' pte) (va_ent l (tabptr p) va s) \<and>
     same_consts s s' \<and> mem_wf s' fl' \<and> rc_bound 1 s' \<and> set fl' \<subseteq> set fl \<and>
     length fl \<le> length fl' + l \<and> distinct (p # path_tabs l (tabptr p) va s') \<and>
     (\<forall>q. 0 < refcount s q \<longrightarrow> 0 < refcount s' q) \<and>
     set (path_tabs l (tabptr p) va s') \<subseteq> set (path_tabs l (tabptr p) va s) \<union> set fl \<and>
     (\<forall>q \<in> set (path_tabs l (tabptr p) va s'). 0 < refcount s' q) \<and>
     (\<forall>w. w div NPTENTRIES \<noteq> p \<and> w div NPTENTRIES \<notin> set (path_tabs l (tabptr p) va s) \<union> set fl \<longrightarrow>
        phys s' w = phys s w)"

lemma walked_0:
  assumes "walk_ok 0 p va fl s"
  shows "walked 0 p va fl s (tabptr p + PDX 0 va) fl s"
  using assms by (simp add: walked_def walk_ok_def)

lemma walked_Suc:
  assumes ok: "walk_ok (Suc m) p va fl s" and pmte: "pmte = tabptr p + PDX (Suc m) va"
    and st: "walk_stepped pmte fl fl1 s low s1" and b: "rc_bound (Suc (m * Suc NPTENTRIES)) s1"
    and wd: "walked m low va fl1 s1 pte fl' s'"
  shows "walked (Suc m) p va fl s pte fl' s'"
proof -
  note nx = walk_ok_next [OF ok pmte st b]
  have pm: "pmte div NPTENTRIES = p" unfolding pmte by simp
  have fl1: "set fl1 \<subseteq> set fl" using st by (auto simp: walk_stepped_def dest: list.set_sel(2))
  have low: "low \<in> set (path_tabs (Suc m) (tabptr p) va s) \<union> set fl"
    using st by (auto simp: walk_stepped_def pmte Let_def)
  have pn: "p \<noteq> low" "p \<notin> set (path_tabs (Suc m) (tabptr p) va s) \<union> set fl"
    using ok st pm by (auto simp: walk_ok_def walk_stepped_def)
  have "p \<notin> set (path_tabs m (tabptr low) va s1) \<union> set fl1" using pn nx(3) fl1 by blast
  then have keep: "phys s' w = phys s1 w" if "w div NPTENTRIES = p" for w
    using wd that pn(1) unfolding walked_def by blast
  then have e: "phys s' pmte = phys s1 pmte" using pm by blast
  have cs: "same_consts s s'" using st wd by (auto simp: walk_stepped_def walked_def intro: same_consts_trans)
  have "same_consts s s1" using st by (simp add: walk_stepped_def)
  then have Z: "PTE_ZERO s1 = PTE_ZERO s" "PTE_ZERO s' = PTE_ZERO s" using cs by (simp_all add: same_constsD)
  have e1: "pte_page (phys s1 pmte) = low" "has (phys s1 pmte) PTE_P" "has (phys s1 pmte) PTE_W"
    "PTE_ADDR (phys s1 pmte) \<noteq> PTE_ZERO s"
    using st by (simp_all add: walk_stepped_def)
  have tabs: "path_tabs (Suc m) (tabptr p) va s' = low # path_tabs m (tabptr low) va s'"
    using e e1 Z by (simp add: Let_def pmte)
  have sub: "set (path_tabs m (tabptr low) va s') \<subseteq> set (path_tabs (Suc m) (tabptr p) va s) \<union> set fl"
    using wd nx(3) fl1 unfolding walked_def by blast
  have "0 < refcount s' low" using st wd by (simp add: walk_stepped_def walked_def)
  moreover have frame: "phys s' w = phys s w"
    if "w div NPTENTRIES \<noteq> p" "w div NPTENTRIES \<notin> set (path_tabs (Suc m) (tabptr p) va s) \<union> set fl" for w
  proof -
    from that low have wl: "w div NPTENTRIES \<noteq> low" by blast
    have "w div NPTENTRIES \<notin> set (path_tabs m (tabptr low) va s1) \<union> set fl1"
      using that(2) nx(3) fl1 by auto
    then have "phys s' w = phys s1 w" using wd wl by (simp add: walked_def)
    moreover have "w \<noteq> pmte" using that(1) pm by blast
    then have "phys s1 w = phys s w" using st wl unfolding walk_stepped_def by blast
    ultimately show ?thesis by simp
  qed
  moreover have "distinct (p # path_tabs (Suc m) (tabptr p) va s')"
    using wd pn sub unfolding tabs walked_def by auto
  moreover have "va_pte (Suc m) (tabptr p) va s' = Some pte" "path_rw (Suc m) (tabptr p) va s'"
    using wd e e1 Z by (simp_all add: walked_def Let_def pmte)
  moreover have "0 < refcount s' q" if "0 < refcount s q" for q
    using that st wd by (simp add: walk_stepped_def walked_def)
  moreover have "set (path_tabs (Suc m) (tabptr p) va s') \<subseteq> set (path_tabs (Suc m) (tabptr p) va s) \<union> set fl"
    using low sub unfolding tabs by auto
  moreover have "\<forall>q \<in> set (path_tabs (Suc m) (tabptr p) va s'). 0 < refcount s' q"
    using wd \<open>0 < refcount s' low\<close> unfolding tabs walked_def by auto
  moreover have "length fl \<le> length fl' + Suc m"
  proof -
    have "fl1 = fl \<or> fl \<noteq> [] \<and> fl1 = tl fl" "length fl1 \<le> length fl' + m"
      using st wd unfolding walk_stepped_def walked_def by blast+
    then show ?thesis by auto
  qed
  moreover have "wsub (phys s' pte) (va_ent (Suc m) (tabptr p) va s)" "mem_wf s' fl'" "rc_bound 1 s'" "set fl' \<subseteq> set fl"
    using wd wsub_trans [OF _ nx(2)] fl1 unfolding walked_def by auto
  ultimately show ?thesis
    unfolding walked_def using cs by blast
qed

lemma walk_level_write:
  assumes "walk_ok l p va fl s" and "0 < l"
  shows "\<exists>pte fl' s'. pmap_walk_level l (tabptr p) va True s = Some (Some pte, s') \<and> walked l p va fl s pte fl' s'"
  using assms
proof (induction l arbitrary: p fl s)
  case 0
  then show ?case by simp
next
  case (Suc m)
  let ?pmte = "tabptr p + PDX (Suc m) va"
  from walk_step [OF Suc.prems(1) refl] obtain lo s0 low s1 fl1 where
    st: "walk_find ?pmte True s = Some (Some lo, s0)" "walk_unshare (Suc m) ?pmte True lo s0 = Some (Some low, s1)"
    "walk_stepped ?pmte fl fl1 s low s1" "rc_bound (Suc (m * Suc NPTENTRIES)) s1" by blast
  note nx = walk_ok_next [OF Suc.prems(1) refl st(3,4)]
  have pp: "pte_page (phys s1 ?pmte) = low" using st(3) by (simp add: walk_stepped_def)
  show ?case
  proof (cases "m = 0")
    case True
    have "walked 0 low va fl1 s1 (tabptr low + PDX 0 va) fl1 s1"
      using walked_0 nx(1) True by blast
    with walked_Suc [OF Suc.prems(1) refl st(3,4)] True st(1,2) show ?thesis by auto
  next
    case False
    with Suc.IH [OF nx(1)] obtain pte fl' s' where
      "pmap_walk_level m (tabptr low) va True s1 = Some (Some pte, s')" "walked m low va fl1 s1 pte fl' s'"
      by blast
    with walked_Suc [OF Suc.prems(1) refl st(3,4)] False st(1,2) pp show ?thesis by auto
  qed
qed

subsection \<open>Using the walk\<close>

lemma va_pte_cong: "phys s' = phys s \<Longrightarrow> va_pte l tab va s' = va_pte l tab va s"
  by (induction l arbitrary: tab) (simp_all add: Let_def)

lemma va_pte_wr:
  assumes "path_rw l (tabptr p) va s" and "va_pte l (tabptr p) va s = Some pte"
    and "distinct (p # path_tabs l (tabptr p) va s)"
  shows "va_pte l (tabptr p) va (wr pte v s) = Some pte \<and> pte div NPTENTRIES = last (p # path_tabs l (tabptr p) va s)"
  using assms
proof (induction l arbitrary: p)
  case 0
  then show ?case by auto
next
  case (Suc l)
  let ?w = "tabptr p + PDX (Suc l) va"
  let ?low = "pte_page (phys s ?w)"
  have tabs: "path_tabs (Suc l) (tabptr p) va s = ?low # path_tabs l (tabptr ?low) va s"
    using Suc.prems(1) by (simp add: Let_def)
  have IH: "va_pte l (tabptr ?low) va (wr pte v s) = Some pte"
    "pte div NPTENTRIES = last (?low # path_tabs l (tabptr ?low) va s)"
    using Suc.IH [of ?low] Suc.prems unfolding tabs by (auto simp: Let_def split: if_splits)
  have "last (?low # path_tabs l (tabptr ?low) va s) \<in> set (?low # path_tabs l (tabptr ?low) va s)"
    by (rule last_in_set) simp
  with IH(2) have "pte div NPTENTRIES \<noteq> p" using Suc.prems(3) unfolding tabs by auto
  moreover have "?w div NPTENTRIES = p" by simp
  ultimately have ne: "?w \<noteq> pte" by metis
  have "has (phys s ?w) PTE_P" using Suc.prems(1) by (simp add: Let_def)
  with IH(1) ne have "va_pte (Suc l) (tabptr p) va (wr pte v s) = Some pte"
    by (simp add: Let_def)
  with IH(2) show ?case unfolding tabs by simp
qed

lemma va_ent_ok:
  assumes "\<forall>q \<in> set (path_tabs l tab va s). table_ok q s" and "0 < l"
  shows "va_ent l tab va s = PTE_ZERO s \<or> pte_ok (va_ent l tab va s) s"
  using assms
proof (induction l arbitrary: tab)
  case (Suc l)
  let ?e = "phys s (tab + PDX (Suc l) va)"
  show ?case
  proof (cases "PTE_ADDR ?e = PTE_ZERO s")
    case False
    then have t: "table_ok (pte_page ?e) s" "\<forall>q \<in> set (path_tabs l (tabptr (pte_page ?e)) va s). table_ok q s"
      using Suc.prems(1) by (simp_all add: Let_def)
    show ?thesis
    proof (cases l)
      case 0
      have "pte_ok (phys s (tabptr (pte_page ?e) + PDX 0 va)) s"
        using t(1) by (simp add: table_ok_def)
      with False 0 show ?thesis by (auto simp: Let_def)
    next
      case (Suc k)
      with Suc.IH [OF t(2)] False show ?thesis by (simp add: Let_def del: va_ent.simps(2)) (simp add: Let_def)
    qed
  qed (simp add: Let_def)
qed simp

lemma mem_decref_some:
  assumes "mem_wf s fl" and "pi_valid s q" and "0 < refcount s q" and "refcount s q < 2 ^ 31"
  shows "\<exists>s'. mem_decref q mem_free s = Some s'"
proof -
  let ?s1 = "upd_pi q (\<lambda>i. i\<lparr>pi_refcount := wrap32 (pi_refcount i - 1)\<rparr>) s"
  have "q \<notin> set fl" using assms(1,3) by (auto simp: mem_wf_def)
  then have "free_next ?s1 q = None" using assms(1,2) by (auto simp: mem_wf_def pi_valid_def)
  then show ?thesis
    using assms by (auto simp: mem_decref_def mem_free_def Let_def)
qed

lemma walk_write:
  assumes "walk_ok NPTLVLS p va fl s" and "VM_USERLO \<le> va" and "va < VM_USERHI"
  shows "\<exists>pte fl' s'. pmap_walk (tabptr p) va True s = Some (Some pte, s') \<and> walked NPTLVLS p va fl s pte fl' s'"
  using walk_level_write [OF assms(1)] assms(2,3) by (simp add: pmap_walk_def NPTLVLS_def)


lemma wsub_PGADDR: "wsub a b \<Longrightarrow> PGADDR a = PGADDR b"
proof -
  have "(NOT 0xFFF :: u64) AND NOT PTE_W = NOT 0xFFF" by (simp add: PTE_W_def)
  then have "PGADDR (clear_W x) = PGADDR x" for x
    unfolding PGADDR_def by (metis (no_types, lifting) and.assoc and.commute)
  then show "wsub a b \<Longrightarrow> PGADDR a = PGADDR b" by (auto simp: wsub_def)
qed

text \<open>The entry that a walk returns is empty or names a valid, counted page.\<close>

lemma walked_entry:
  assumes ok: "walk_ok l p va fl s" "0 < l" and w: "walked l p va fl s pte fl' s'"
    and nz: "PTE_ADDR (phys s' pte) \<noteq> PTE_ZERO s'"
  shows "pi_valid s' (pte_page (phys s' pte))" "0 < refcount s' (pte_page (phys s' pte))"
    "pgaddr_page (phys s' pte) = pte_page (phys s' pte)"
proof -
  let ?e = "va_ent l (tabptr p) va s"
  have cs: "same_consts s s'" and ent: "wsub (phys s' pte) ?e"
    using w by (simp_all add: walked_def)
  have a: "PTE_ADDR (phys s' pte) = PTE_ADDR ?e" and pg: "PGADDR (phys s' pte) = PGADDR ?e"
    using ent by (rule wsub_ADDR, rule wsub_PGADDR)
  have "?e \<noteq> PTE_ZERO s"
  proof
    assume "?e = PTE_ZERO s"
    with a have "PTE_ADDR (phys s' pte) = PTE_ADDR (PTE_ZERO s)" by simp
    also have "\<dots> = PTE_ZERO s" using ok(1) by (intro PTE_ADDR_ZERO) (auto simp: walk_ok_def)
    finally show False using nz same_constsD(1) [OF cs] by simp
  qed
  then have e: "pte_ok ?e s"
    using va_ent_ok [of l "tabptr p" va s] ok by (auto simp: walk_ok_def)
  have pp: "pte_page (phys s' pte) = pte_page ?e" using a by (simp add: pte_page_def)
  have "pi_valid s (pte_page ?e)" "0 < refcount s (pte_page ?e)" "PGADDR ?e = PTE_ADDR ?e"
    using e nz a same_constsD(1) [OF cs] by (auto simp: pte_ok_def)
  then show "pi_valid s' (pte_page (phys s' pte))" "0 < refcount s' (pte_page (phys s' pte))"
    "pgaddr_page (phys s' pte) = pte_page (phys s' pte)"
    using w pg a unfolding pp same_constsD(2) [OF cs] walked_def
    by (auto simp: pgaddr_page_def pte_page_def)
qed

text \<open>C20: \<open>pmap_insert\<close> maps a page. From a well-formed path, and with room for the tables it may
  need, it succeeds, and the address then translates to the inserted page with the requested
  permission, whatever was mapped there before.\<close>

theorem pmap_insert_maps:
  assumes "walk_ok NPTLVLS p va fl s" and "VM_USERLO \<le> va" and "va < VM_USERHI"
    and "pi_valid s pi" and "pi \<notin> set fl" and "PTE_ADDR perm = 0"
  shows "\<exists>pte s'. pmap_insert (tabptr p) pi va perm s = Some (Some pte, s') \<and>
    phys s' pte = mem_pi2phys pi OR perm OR PTE_P \<and> va2pa (tabptr p) va s' = Some (mem_pi2phys pi)"
proof -
  from walk_write [OF assms(1-3)] obtain pte fl' s1 where
    wk: "pmap_walk (tabptr p) va True s = Some (Some pte, s1)" and w: "walked NPTLVLS p va fl s pte fl' s1" by blast
  have cs: "same_consts s s1" and wf1: "mem_wf s1 fl'" and b: "rc_bound 1 s1" and sub: "set fl' \<subseteq> set fl"
    using w by (simp_all add: walked_def)
  have b': "0 \<le> refcount s1 q" "refcount s1 q < 2 ^ 31 - 1" for q
    using b unfolding rc_bound_def by (metis of_nat_1)+
  have pv: "pi_valid s1 pi" using assms(4) by (simp only: same_constsD(2) [OF cs])
  let ?s2 = "upd_pi pi (\<lambda>i. i\<lparr>pi_refcount := refcount s1 pi + 1\<rparr>) s1"
  have inc: "mem_incref pi s1 = Some ?s2"
    using pv b'(1) [of pi] b'(2) [of pi] by (intro mem_incref_state) simp_all
  have wf2: "mem_wf ?s2 fl'" using wf1 assms(5) sub by (subst mem_wf_set_refcount) auto
  have "\<exists>s3. (if PTE_ADDR (phys s1 pte) \<noteq> PTE_ZERO s1
      then mem_decref (pgaddr_page (phys s1 pte)) mem_free ?s2 else Some ?s2) = Some s3 \<and> phys s3 = phys s1"
  proof (cases "PTE_ADDR (phys s1 pte) = PTE_ZERO s1")
    case False
    let ?q = "pte_page (phys s1 pte)"
    note e = walked_entry [OF assms(1) _ w False]
    have "pi_valid ?s2 ?q" "0 < refcount ?s2 ?q" "refcount ?s2 ?q < 2 ^ 31"
      using e(1,2) b'(1) [of pi] b'(2) [of pi] b'(2) [of ?q] by (simp_all add: NPTLVLS_def)
    from mem_decref_some [OF wf2 this] obtain s3 where "mem_decref ?q mem_free ?s2 = Some s3" by blast
    with mem_decref_vframe [OF this] e(3) False show ?thesis by (simp add: NPTLVLS_def)
  qed simp
  then obtain s3 where s3: "(if PTE_ADDR (phys s1 pte) \<noteq> PTE_ZERO s1
      then mem_decref (pgaddr_page (phys s1 pte)) mem_free ?s2 else Some ?s2) = Some s3" "phys s3 = phys s1" by blast
  let ?s' = "wr pte (mem_pi2phys pi OR perm OR PTE_P) s3"
  have ins: "pmap_insert (tabptr p) pi va perm s = Some (Some pte, ?s')"
    using wk inc by (simp add: pmap_insert_def) (use s3(1) in \<open>auto split: if_splits\<close>)
  have "va_pte NPTLVLS (tabptr p) va (wr pte v s1) = Some pte" for v
    using va_pte_wr [of NPTLVLS p va s1 pte v] w by (simp add: walked_def)
  then have vp: "va_pte NPTLVLS (tabptr p) va ?s' = Some pte"
    by (subst va_pte_cong [of _ "wr pte (mem_pi2phys pi OR perm OR PTE_P) s1"]) (simp_all add: s3(2))
  have "pi < 2 ^ 40" using assms(4) wf1 same_constsD(4) [OF cs] by (auto simp: pi_valid_def mem_wf_def)
  then have "PTE_ADDR (mem_pi2phys pi OR perm OR PTE_P) = mem_pi2phys pi"
    using assms(6) by (simp add: PTE_ADDR_or PTE_ADDR_pi2phys)
  with vp have "va2pa (tabptr p) va ?s' = Some (mem_pi2phys pi)"
    by (simp add: va2pa_def or.assoc [symmetric])
  with ins show ?thesis by auto
qed

text \<open>A page map with an empty root table in page 2 and three free pages.\<close>

definition demo_walk :: vmem where
  "demo_walk = \<lparr>mem_npage = 16,
     mem_pageinfo = (\<lambda>p. zero_pageinfo\<lparr>pi_refcount := (if p = 2 \<or> p = 3 then 1 else 0),
        pi_free_next := (if p = 4 then Some 5 else if p = 5 then Some 6 else None)\<rparr>),
     mem_freelist = Some 4, pmap_zero = 8, kern_start = 8, kern_last = 8,
     phys = (\<lambda>w. 0x8000), pmap_bootpmap = 9\<rparr>"

lemma demo_walk_ok: "walk_ok NPTLVLS 2 VM_USERLO [4, 5, 6] demo_walk"
proof -
  have "path_tabs NPTLVLS (tabptr 2) VM_USERLO demo_walk = []"
    by (simp add: NPTLVLS_def numeral_3_eq_3 demo_walk_def PTE_ADDR_def PTE_ZERO_def mem_pi2phys_def PAGESIZE_def)
  moreover have "mem_wf demo_walk [4, 5, 6]"
    by (simp add: mem_wf_def demo_walk_def zero_pageinfo_def pi_allocatable_def)
  moreover have "rc_bound (Suc (NPTLVLS * Suc NPTENTRIES)) demo_walk"
    by (simp add: rc_bound_def demo_walk_def zero_pageinfo_def NPTLVLS_def NPTENTRIES_def)
  ultimately show ?thesis
    by (simp add: walk_ok_def NPTLVLS_def) (simp add: demo_walk_def)
qed

lemma demo_walk_user: "VM_USERLO \<le> VM_USERLO" "VM_USERLO < VM_USERHI"
  by (simp_all add: VM_USERLO_def VM_USERHI_def)


theorem pmap_insert_maps_witness:
  "\<exists>pte s'. pmap_insert (tabptr 2) 3 VM_USERLO (PTE_W OR PTE_U) demo_walk = Some (Some pte, s') \<and>
     va2pa (tabptr 2) VM_USERLO s' = Some 0x3000"
proof -
  have "pi_valid demo_walk 3" by (simp add: demo_walk_def pi_valid_def sym2pi_def)
  moreover have "PTE_ADDR (PTE_W OR PTE_U) = 0" by (simp add: PTE_ADDR_or)
  moreover have "mem_pi2phys 3 = 0x3000" by (simp add: mem_pi2phys_def PAGESIZE_def)
  ultimately show ?thesis
    using pmap_insert_maps [OF demo_walk_ok demo_walk_user, of 3 "PTE_W OR PTE_U"] by auto
qed

end
