(* ===== verification/Fault.thy ===== *)
theory Fault
  imports Walk
begin

text \<open>
  The copy-on-write fault handler: a write fault on a nominally writable page gives the process a
  private page with the same contents, and leaves the page the other address spaces see alone.
\<close>

lemma fault_own_zero:
  assumes wf: "mem_wf s (np # fl)" and z: "pmap_zero s < mem_npage s" and lo: "mem_npage s * PAGESIZE \<le> VM_USERLO"
  shows "fault_own (PTE_ZERO s) s =
    Some (mem_pi2phys np, copy_page np (pmap_zero s) (upd_pi np (\<lambda>i. i\<lparr>pi_refcount := 1\<rparr>) (snd (mem_alloc s))))"
proof -
  have lim: "mem_npage s \<le> 2 ^ 27" "pi_allocatable s np" "refcount s np = 0"
    using wf by (simp_all add: mem_wf_def)
  have a: "mem_alloc s = (Some np, snd (mem_alloc s))"
    using mem_alloc_Cons [OF wf] by auto
  have inc: "mem_incref np (snd (mem_alloc s)) = Some (upd_pi np (\<lambda>i. i\<lparr>pi_refcount := 1\<rparr>) (snd (mem_alloc s)))"
    using mem_incref_state [of "snd (mem_alloc s)" np] lim pi_allocatable_valid [of s np]
    by (simp add: mem_alloc_simps pi_valid_cong [of "snd (mem_alloc s)" s])
  have pz: "pte_page (PTE_ZERO s) = pmap_zero s"
    unfolding PTE_ZERO_def using z lim by (intro pte_page_pi2phys) simp
  have "x * PAGESIZE < VM_USERLO" if "x < mem_npage s" for x
    using lo that by (meson less_le_trans mult_less_mono1 PAGESIZE_pos)
  then have "np * PAGESIZE < VM_USERLO" "pmap_zero s * PAGESIZE < VM_USERLO"
    using z lim by (simp_all add: pi_allocatable_def)
  moreover have "PTE_ZERO (snd (mem_alloc s)) = PTE_ZERO s" by (simp add: PTE_ZERO_def mem_alloc_simps)
  ultimately show ?thesis
    unfolding fault_own_def pz by (subst a) (simp add: inc Let_def)
qed

lemma fault_own_shared:
  assumes wf: "mem_wf s (np # fl)" and lo: "mem_npage s * PAGESIZE \<le> VM_USERLO"
    and nz: "PTE_ADDR e \<noteq> PTE_ZERO s"
    and q: "q = pte_page e" "pi_valid s q" "1 < refcount s q" "refcount s q < 2 ^ 31"
  shows "fault_own (PTE_ADDR e) s = Some (mem_pi2phys np, cow_state np q s)"
proof -
  note c = cow_copy [OF wf q(2,3,4)]
  have pq: "pte_page (PTE_ADDR e) = q" using q(1) by (simp add: pte_page_def)
  have "pi_allocatable s np" using wf by (simp add: mem_wf_def)
  moreover have "x * PAGESIZE < VM_USERLO" if "x < mem_npage s" for x
    using lo that by (meson less_le_trans mult_less_mono1 PAGESIZE_pos)
  ultimately have "np * PAGESIZE < VM_USERLO" "q * PAGESIZE < VM_USERLO"
    using q(2) by (simp_all add: pi_allocatable_def pi_valid_def)
  moreover have "PTE_ZERO (snd (mem_alloc s)) = PTE_ZERO s" by (simp add: PTE_ZERO_def mem_alloc_simps)
  ultimately show ?thesis
    unfolding fault_own_def pq using nz q(3) c(2,3) by (subst c(1)) (simp add: Let_def)
qed

lemma fault_own_ok:
  assumes wf: "mem_wf s fl" "fl \<noteq> []" and z: "pmap_zero s < mem_npage s" and lo: "mem_npage s * PAGESIZE \<le> VM_USERLO"
    and q: "q = pte_page e" "PTE_ADDR e \<noteq> PTE_ZERO s \<Longrightarrow> pi_valid s q \<and> 0 < refcount s q \<and> refcount s q < 2 ^ 31"
  shows "\<exists>t s'. fault_own (PTE_ADDR e) s = Some (mem_pi2phys t, s') \<and> refcount s' t = 1 \<and> t < mem_npage s \<and>
    (t = q \<or> t \<in> set fl) \<and> PTE_ZERO s' = PTE_ZERO s \<and>
    (\<forall>i < PAGESIZE. pg_byte t i s' = pg_byte q i s) \<and> (\<forall>w. w div NPTENTRIES \<noteq> t \<or> t = q \<longrightarrow> phys s' w = phys s w)"
proof -
  obtain np fl' where fl: "fl = np # fl'" using wf(2) by (cases fl) auto
  have np: "np < mem_npage s" using wf(1) fl by (simp add: mem_wf_def pi_allocatable_def)
  show ?thesis
  proof (cases "PTE_ADDR e = PTE_ZERO s")
    case True
    let ?s' = "copy_page np (pmap_zero s) (upd_pi np (\<lambda>i. i\<lparr>pi_refcount := 1\<rparr>) (snd (mem_alloc s)))"
    have "pte_page e = pte_page (PTE_ZERO s)"
      using True PTE_ADDR_ZERO [OF wf(1) z] by (intro pte_page_cong) simp
    also have "\<dots> = pmap_zero s"
      unfolding PTE_ZERO_def using z wf(1) by (intro pte_page_pi2phys) (simp add: mem_wf_def)
    finally have qz: "q = pmap_zero s" by (simp add: q(1))
    have "pg_byte np i ?s' = pg_byte q i s" if "i < PAGESIZE" for i
      using that unfolding qz by (simp add: pg_byte_copy_page) (simp add: rd_byte_def mem_alloc_simps)
    moreover have "phys ?s' w = phys s w" if "w div NPTENTRIES \<noteq> np \<or> np = q" for w
      using that wf(1) fl qz by (auto simp: copy_page_def mem_alloc_simps mem_wf_def pi_allocatable_def)
    moreover have "PTE_ZERO ?s' = PTE_ZERO s" by (simp add: PTE_ZERO_def mem_alloc_simps)
    ultimately show ?thesis
      using fault_own_zero [OF wf(1) [unfolded fl] z lo] True np fl
      by (intro exI [of _ np] exI [of _ ?s']) simp
  next
    case False
    note q2 = q(2) [OF False]
    show ?thesis
    proof (cases "1 < refcount s q")
      case True
      note c = cow_state_props [OF wf(1) [unfolded fl] True]
      have "pg_byte np i (cow_state np q s) = pg_byte q i s" if "i < PAGESIZE" for i
        using that c(2) pg_byte_copy_page [OF that, of np np q s] by (simp add: rd_byte_def)
      moreover have "phys (cow_state np q s) w = phys s w" if "w div NPTENTRIES \<noteq> np \<or> np = q" for w
        using that True wf(1) fl unfolding c(2) by (auto simp: copy_page_def mem_wf_def)
      ultimately show ?thesis
        using fault_own_shared [OF wf(1) [unfolded fl] lo False q(1)] q2 True c(3,6) np fl by auto
    next
      case ex: False
      have "pte_page (PTE_ADDR e) = q" "PTE_ADDR e = mem_pi2phys q"
        unfolding q(1) by (simp add: pte_page_def, rule PTE_ADDR_pte_page)
      then have "fault_own (PTE_ADDR e) s = Some (mem_pi2phys q, s)"
        using False ex by (simp add: fault_own_def)
      moreover have "q < mem_npage s" "refcount s q = 1" using q2 ex by (auto simp: pi_valid_def)
      ultimately show ?thesis by (intro exI [of _ q] exI [of _ s]) auto
    qed
  qed
qed

lemma path_keep:
  assumes "path_rw l (tabptr p) va s" and "PTE_ZERO s' = PTE_ZERO s"
    and "\<forall>w. w div NPTENTRIES \<in> set (p # path_tabs l (tabptr p) va s) \<longrightarrow> phys s' w = phys s w"
  shows "path_rw l (tabptr p) va s' \<and> va_pte l (tabptr p) va s' = va_pte l (tabptr p) va s \<and>
    path_tabs l (tabptr p) va s' = path_tabs l (tabptr p) va s"
  using assms
proof (induction l arbitrary: p)
  case 0
  then show ?case by simp
next
  case (Suc l)
  let ?w = "tabptr p + PDX (Suc l) va"
  have e: "phys s' ?w = phys s ?w" using Suc.prems(3) by simp
  let ?low = "pte_page (phys s ?w)"
  have tabs: "path_tabs (Suc l) (tabptr p) va s = ?low # path_tabs l (tabptr ?low) va s"
    using Suc.prems(1) by (simp add: Let_def)
  have "path_rw l (tabptr ?low) va s" using Suc.prems(1) by (simp add: Let_def)
  moreover have "\<forall>w. w div NPTENTRIES \<in> set (?low # path_tabs l (tabptr ?low) va s) \<longrightarrow> phys s' w = phys s w"
    using Suc.prems(3) unfolding tabs by simp
  ultimately show ?case using Suc.IH [of ?low] Suc.prems(1,2) e by (simp add: Let_def)
qed

lemma user_perm_W: "has (x OR user_pte_perm) PTE_W"
  by (rule has_or_right) (simp_all add: user_pte_perm_def pte_flag_defs)


text \<open>Tables in pages 2 to 5 lead to a page 6 that two address spaces share.\<close>

definition demo_fault :: vmem where
  "demo_fault = \<lparr>mem_npage = 16,
     mem_pageinfo = (\<lambda>p. zero_pageinfo\<lparr>pi_refcount := (if 2 \<le> p \<and> p \<le> 5 then 1 else if p = 6 then 2 else 0),
        pi_free_next := (if 7 \<le> p \<and> p \<le> 9 then Some (p + 1) else None)\<rparr>),
     mem_freelist = Some 7, pmap_zero = 12, kern_start = 12, kern_last = 12,
     phys = (\<lambda>w. if w = 1024 then 0x3027 else if w = 1537 then 0x4027 else if w = 2048 then 0x5027
                else if w = 2560 then 0x6605 else 0xC000),
     pmap_bootpmap = 13\<rparr>"

lemma demo_fault_PDX:
  "PDX (Suc (Suc (Suc 0))) VM_USERLO = 0" "PDX (Suc (Suc 0)) VM_USERLO = 1" "PDX (Suc 0) VM_USERLO = 0"
  "PDX 0 VM_USERLO = 0" "NPTLVLS = Suc (Suc (Suc 0))"
  by (simp_all add: PDX_def PDSIZE_def PDSHIFT_def VM_USERLO_def NPTENTRIES_def NPTLVLS_def)

lemmas demo_fault_eval = demo_fault_PDX demo_fault_def tabptr_def NPTENTRIES_def PTE_ADDR_def PTE_ZERO_def mem_pi2phys_def PAGESIZE_def pte_page_def Let_def

lemma demo_fault_table_ok: "table_ok q demo_fault"
  unfolding table_ok_def
  by (simp add: demo_fault_def pte_ok_def PTE_ADDR_def PGADDR_def PTE_ZERO_def mem_pi2phys_def PAGESIZE_def
      pte_page_def pi_valid_def sym2pi_def zero_pageinfo_def)

lemma demo_fault_path:
  "path_tabs NPTLVLS (tabptr 2) VM_USERLO demo_fault = [3, 4, 5]"
  "va_ent NPTLVLS (tabptr 2) VM_USERLO demo_fault = 0x6605"
  "fault_path NPTLVLS (tabptr 2) VM_USERLO demo_fault"
  by (simp_all add: demo_fault_eval has_def PTE_P_def)

lemma demo_fault_ok: "walk_ok NPTLVLS 2 VM_USERLO [7, 8, 9, 10] demo_fault"
proof -
  have "mem_wf demo_fault [7, 8, 9, 10]"
    by (simp add: mem_wf_def demo_fault_def zero_pageinfo_def pi_allocatable_def) auto
  moreover have "rc_bound (Suc (NPTLVLS * Suc NPTENTRIES)) demo_fault"
    by (simp add: rc_bound_def demo_fault_def zero_pageinfo_def NPTLVLS_def NPTENTRIES_def)
  moreover have "pi_valid demo_fault q \<and> 0 < refcount demo_fault q" if "q \<in> set [3, 4, 5]" for q
    using that by (auto simp: demo_fault_def zero_pageinfo_def pi_valid_def sym2pi_def)
  ultimately show ?thesis
    using demo_fault_table_ok unfolding walk_ok_def demo_fault_path by (simp add: NPTLVLS_def) (simp add: demo_fault_def)
qed


text \<open>the merge can give the zero page away. When the destination entry of a merge is a zero
  mapping and the zero page's reference count is the one that boot gives it, the copy that
  \<open>pmap_mergepage\<close> takes drops that count to zero and the zero page becomes the next free page:
  the test that should prevent it compares a kernel pointer with a physical address.\<close>

theorem merge_own_frees_zero_page:
  assumes "mem_wf s (np # fl)" and "1 < pmap_zero s" and "pmap_zero s < mem_npage s"
    and "PTE_ADDR (phys s dpte) = PTE_ZERO s"
    and "refcount s (pmap_zero s) = 1" and "pi_shared (mem_pageinfo s (pmap_zero s)) = 0"
  shows "\<exists>s'. merge_own dpte s = Some s' \<and> mem_freelist s' = Some (pmap_zero s)"
proof -
  let ?z = "pmap_zero s"
  let ?s2 = "upd_pi np (\<lambda>i. i\<lparr>pi_refcount := 1\<rparr>) (snd (mem_alloc s))"
  have lim: "mem_npage s \<le> 2 ^ 27" "pi_allocatable s np" "refcount s np = 0" and zn: "?z \<notin> set (np # fl)"
    using assms(1) by (auto simp: mem_wf_def pi_allocatable_def)
  have a: "mem_alloc s = (Some np, snd (mem_alloc s))"
    using mem_alloc_Cons [OF assms(1)] by auto
  have inc: "mem_incref np (snd (mem_alloc s)) = Some ?s2"
    using mem_incref_state [of "snd (mem_alloc s)" np] lim pi_allocatable_valid [of s np]
    by (simp add: mem_alloc_simps pi_valid_cong [of "snd (mem_alloc s)" s])
  have pz: "pte_page (phys s dpte) = ?z"
    using assms(3) lim(1) pte_page_pi2phys [of ?z] assms(4) PTE_ADDR_ZERO [OF assms(1,3)]
    by (simp add: pte_page_def PTE_ZERO_def)
  have fn: "free_next s ?z = None" using assms(1,3) zn by (auto simp: mem_wf_def)
  have v: "pi_valid (copy_page np ?z ?s2) ?z"
    using assms(2,3) lim(1) by (simp add: pi_valid_iff mem_alloc_simps)
  have sh: "pi_shared (mem_pageinfo (snd (mem_alloc s)) ?z) = 0" "free_next (snd (mem_alloc s)) ?z = None"
    "refcount (snd (mem_alloc s)) ?z = 1"
    using assms(5,6) fn zn by (auto simp: mem_alloc_def split: option.splits)
  have np: "?z \<noteq> np" using zn by simp
  have "mem_ptr (PTE_ADDR (phys s dpte)) \<noteq> PTE_ZERO s"
    unfolding assms(4) PTE_ZERO_def using assms(3) lim(1) by (intro mem_ptr_not_low) auto
  moreover have "PTE_ZERO (snd (mem_alloc s)) = PTE_ZERO s" by (simp add: PTE_ZERO_def mem_alloc_simps)
  moreover have "\<exists>s4. mem_decref ?z mem_free (copy_page np ?z ?s2) = Some s4 \<and> mem_freelist s4 = Some ?z"
    using v sh np by (simp add: mem_decref_def mem_free_def Let_def)
  ultimately show ?thesis
    unfolding merge_own_def pz using assms(4) inc by (subst a) (auto simp: Let_def)
qed

definition demo_zero :: vmem where
  "demo_zero = demo_walk\<lparr>mem_pageinfo := (mem_pageinfo demo_walk)(8 := zero_pageinfo\<lparr>pi_refcount := 1\<rparr>)\<rparr>"

theorem merge_own_frees_zero_page_witness:
  "\<exists>s'. merge_own 1024 demo_zero = Some s' \<and> mem_freelist s' = Some 8"
proof -
  have "mem_wf demo_zero (4 # [5, 6])"
    by (simp add: mem_wf_def demo_zero_def demo_walk_def zero_pageinfo_def pi_allocatable_def)
  from merge_own_frees_zero_page [OF this, of 1024] show ?thesis
    by (simp add: demo_zero_def demo_walk_def zero_pageinfo_def PTE_ADDR_def PTE_ZERO_def mem_pi2phys_def PAGESIZE_def)
qed

end
