(* ===== verification/Bootmap.thy ===== *)
theory Bootmap
  imports Walk
begin

text \<open>
  The page map that the kernel builds at boot (\<open>pmap_init\<close> in \<open>kern/pmap.c\<close>): low memory mapped to itself, all physical memory mapped from
  \<open>VM_KERNLO\<close> on, with large pages where the processor has them. Kernel addresses near \<open>2 ^ 64\<close> are natural numbers; no end of a range
  is above \<open>2 ^ 64\<close>. A subtable that is made for a part of an entry's range gets no mappings in the rest of it.

  What the processor makes of the tables is \<open>translate\<close>, which knows large pages.
\<close>

definition PTE_PS :: u64 where "PTE_PS = 0x080"

definition ERASE :: u16 where "ERASE = 0xFFFF"

text \<open>\<open>PTE_P | PTE_W\<close>.\<close>

definition KERN_RW :: u16 where "KERN_RW = 0x003"

definition page_perm :: "u16 \<Rightarrow> nat \<Rightarrow> u64" where
  "page_perm perm level = (ucast perm OR PTE_G OR PTE_P) OR (if 0 < level then PTE_PS else 0)"

definition dir_perm :: "u16 \<Rightarrow> u64" where
  "dir_perm perm = (if perm \<noteq> ERASE then ucast perm else 0) OR PTE_P OR PTE_U"

definition boot_entry :: "u16 \<Rightarrow> nat \<Rightarrow> nat \<Rightarrow> 'a vmem_scheme \<Rightarrow> u64" where
  "boot_entry perm level paddr s = (if perm \<noteq> ERASE then of_nat paddr OR page_perm perm level else PTE_ZERO s)"

definition page_down :: "nat \<Rightarrow> nat" where "page_down a = a - a mod PAGESIZE"

lemma step_decr:
  "vaddr < vhi \<Longrightarrow> vhi - (vaddr + min (PDSIZE l - PDOFF l vaddr) (vhi - vaddr)) < vhi - vaddr"
  "vaddr < vhi \<Longrightarrow> vhi - (vaddr + PDSIZE l) < vhi - vaddr"
  using PDOFF_less [of l vaddr] PDSIZE_pos [of l] by linarith+

text \<open>\<open>pmap_init_bootpmap\<close>, and its loop. Addresses and sizes are multiples of a page, so at level 0 every entry is mapped in whole and the
  branch that panics there is not reached.\<close>

function (sequential) pmap_init_bootpmap ::
    "nat \<Rightarrow> nat \<Rightarrow> nat \<Rightarrow> nat \<Rightarrow> nat \<Rightarrow> u16 \<Rightarrow> nat \<Rightarrow> 'a vmem_scheme \<Rightarrow> 'a vmem_scheme option"
  and boot_loop :: "nat \<Rightarrow> nat \<Rightarrow> nat \<Rightarrow> nat \<Rightarrow> nat \<Rightarrow> u16 \<Rightarrow> nat \<Rightarrow> 'a vmem_scheme \<Rightarrow> 'a vmem_scheme option"
where
  "pmap_init_bootpmap maxl table vaddr paddr sz perm level s =
     boot_loop maxl table (page_down vaddr) (page_down paddr) (page_down vaddr + page_down sz) perm level s"
| "boot_loop maxl table vaddr paddr vhi perm level s =
     (if vhi \<le> vaddr then Some s
      else if PDOFF level vaddr = 0 \<and> PDOFF level paddr = 0 \<and> PDSIZE level \<le> vhi - vaddr \<and> (level \<le> maxl \<or> perm = ERASE)
      then boot_loop maxl table (vaddr + PDSIZE level) (paddr + PDSIZE level) vhi perm level
        (wr (table + PDX level vaddr) (boot_entry perm level paddr s) s)
      else if level = 0 then None
      else let sz = min (PDSIZE level - PDOFF level vaddr) (vhi - vaddr) in
        (case mem_alloc s of
           (None, _) \<Rightarrow> None
         | (Some pi, s1) \<Rightarrow> do {
             s2 \<leftarrow> pmap_init_bootpmap maxl (tabptr pi) (PDADDR level vaddr) 0 (vaddr - PDADDR level vaddr) ERASE (level - 1) s1;
             s3 \<leftarrow> pmap_init_bootpmap maxl (tabptr pi) vaddr paddr sz perm (level - 1) s2;
             s4 \<leftarrow> pmap_init_bootpmap maxl (tabptr pi) (vaddr + sz) 0 (PDSIZE level - PDOFF level vaddr - sz) ERASE (level - 1) s3;
             boot_loop maxl table (vaddr + sz) (paddr + sz) vhi perm level
               (wr (table + PDX level vaddr) (mem_pi2phys pi OR dir_perm perm) s4)
           }))"
  by pat_completeness auto
termination
  by (relation "measures [\<lambda>x. case x of Inl (_, _, _, _, _, _, l, _) \<Rightarrow> 2 * l + 1 | Inr (_, _, _, _, _, _, l, _) \<Rightarrow> 2 * l,
    \<lambda>x. case x of Inl _ \<Rightarrow> 0 | Inr (_, _, v, _, hi, _) \<Rightarrow> hi - v]") (auto intro!: step_decr)

declare boot_loop.simps [simp del] pmap_init_bootpmap.simps [simp del]

text \<open>The page map that \<open>pmap_init\<close> builds on the boot processor; loading it into the control registers follows. \<open>gbpages\<close> says whether the
  processor has pages of 1 GB. The rounded \<open>mem_max\<close> is not read again.\<close>

definition pmap_init :: "bool \<Rightarrow> nat \<Rightarrow> 'a vmem_scheme \<Rightarrow> 'a vmem_scheme option" where
  "pmap_init gbpages mem_max s = do {
     let maxl = (if gbpages then 2 else 1);
     let top = ROUNDUP mem_max (PDSIZE maxl);
     let boot = tabptr (pmap_bootpmap s);
     s1 \<leftarrow> pmap_init_bootpmap maxl boot 0 0 (2 ^ 48) ERASE NPTLVLS s;
     s2 \<leftarrow> pmap_init_bootpmap maxl boot 0 0 VM_USERLO KERN_RW NPTLVLS s1;
     s3 \<leftarrow> pmap_init_bootpmap maxl boot (unat VM_KERNLO) 0 top KERN_RW NPTLVLS s2;
     Some (wr (boot + PML4SELFOFFSET) (mem_pi2phys (pmap_bootpmap s) OR PTE_P OR PTE_W) s3)
   }"

subsection \<open>Translation\<close>

text \<open>The physical address, whether user mode may access it, and whether it may be written.\<close>

fun translate :: "nat \<Rightarrow> nat \<Rightarrow> nat \<Rightarrow> 'a vmem_scheme \<Rightarrow> (nat \<times> bool \<times> bool) option" where
  "translate 0 t va s =
     (let e = phys s (t + PDX 0 va)
      in if has e PTE_P then Some (unat (PTE_ADDR e) + PDOFF 0 va, has e PTE_U, has e PTE_W) else None)"
| "translate (Suc l) t va s =
     (let e = phys s (t + PDX (Suc l) va)
      in if \<not> has e PTE_P then None
         else if has e PTE_PS then Some (unat (PTE_ADDR e) + PDOFF (Suc l) va, has e PTE_U, has e PTE_W)
         else map_option (\<lambda>(a, u, w). (a, u \<and> has e PTE_U, w \<and> has e PTE_W)) (translate l (tabptr (pte_page e)) va s))"

text \<open>The tables below the first that a translation goes through are among \<open>U\<close>.\<close>

fun walks :: "nat set \<Rightarrow> nat \<Rightarrow> nat \<Rightarrow> nat \<Rightarrow> 'a vmem_scheme \<Rightarrow> bool" where
  "walks U 0 t va s \<longleftrightarrow> True"
| "walks U (Suc l) t va s \<longleftrightarrow>
     (let e = phys s (t + PDX (Suc l) va)
      in has e PTE_P \<and> \<not> has e PTE_PS \<longrightarrow> pte_page e \<in> U \<and> walks U l (tabptr (pte_page e)) va s)"

lemma translate_cong:
  assumes "walks U l t va s" and "phys s' (t + PDX l va) = phys s (t + PDX l va)"
    and U: "\<And>p i. p \<in> U \<Longrightarrow> i < NPTENTRIES \<Longrightarrow> phys s' (tabptr p + i) = phys s (tabptr p + i)"
  shows "translate l t va s' = translate l t va s \<and> walks U l t va s'"
  using assms(1,2)
proof (induction l arbitrary: t)
  case (Suc l)
  let ?e = "phys s (t + PDX (Suc l) va)"
  show ?case
  proof (cases "has ?e PTE_P \<and> \<not> has ?e PTE_PS")
    case True
    then have w: "pte_page ?e \<in> U" "walks U l (tabptr (pte_page ?e)) va s" using Suc.prems(1) by (auto simp: Let_def)
    from Suc.IH [OF w(2) U [OF w(1) PDX_less]] show ?thesis using Suc.prems w True by (simp add: Let_def)
  next
    case False
    then show ?thesis using Suc.prems by (auto simp: Let_def)
  qed
qed simp

subsection \<open>Runs of whole entries\<close>

definition set_run :: "nat \<Rightarrow> nat \<Rightarrow> (nat \<Rightarrow> u64) \<Rightarrow> 'a vmem_scheme \<Rightarrow> 'a vmem_scheme" where
  "set_run a k f s = s\<lparr>phys := (\<lambda>x. if a \<le> x \<and> x < a + k then f (x - a) else phys s x)\<rparr>"

lemma set_run_simps [simp]:
  "mem_wf (set_run a k f s) fl = mem_wf s fl" "PTE_ZERO (set_run a k f s) = PTE_ZERO s"
  "pmap_bootpmap (set_run a k f s) = pmap_bootpmap s"
  "phys (set_run a k f s) x = (if a \<le> x \<and> x < a + k then f (x - a) else phys s x)"
  by (simp_all add: set_run_def mem_wf_def pi_allocatable_def PTE_ZERO_def)

lemma set_run_0: "set_run a 0 f s = s"
proof -
  have "(\<lambda>x. if a \<le> x \<and> x < a + 0 then f (x - a) else phys s x) = phys s" by (auto simp: fun_eq_iff)
  then show ?thesis unfolding set_run_def by (simp only: ) simp
qed

lemma set_run_Suc: "set_run (a + 1) k (\<lambda>j. f (j + 1)) (wr a (f 0) s) = set_run a (Suc k) f s"
proof -
  have "(\<lambda>x. if a + 1 \<le> x \<and> x < a + 1 + k then f (x - (a + 1) + 1) else phys (wr a (f 0) s) x) =
      (\<lambda>x. if a \<le> x \<and> x < a + Suc k then f (x - a) else phys s x)"
    by (rule ext) (auto simp: wr_def Suc_diff_Suc Suc_le_eq le_less)
  then show ?thesis unfolding set_run_def by (simp only: ) (simp add: wr_def)
qed

lemma PDX_next: "PDX l v + 1 < NPTENTRIES \<Longrightarrow> PDX l (v + PDSIZE l) = PDX l v + 1"
  unfolding PDX_def by (subst div_add_self2) (use PDSIZE_pos [of l] in \<open>auto simp: mod_Suc\<close>)

lemma PDOFF_next [simp]: "PDOFF l (v + PDSIZE l) = PDOFF l v"
  by (simp add: PDOFF_def)

lemma boot_run:
  "level \<le> maxl \<or> perm = ERASE \<Longrightarrow> PDOFF level v = 0 \<Longrightarrow> PDOFF level p = 0 \<Longrightarrow> PDX level v + k \<le> NPTENTRIES \<Longrightarrow>
    boot_loop maxl t v p (v + k * PDSIZE level) perm level s =
      Some (set_run (t + PDX level v) k (\<lambda>j. boot_entry perm level (p + j * PDSIZE level) s) s)"
proof (induction k arbitrary: v p s)
  case 0
  then show ?case by (simp add: boot_loop.simps set_run_0)
next
  case (Suc k)
  let ?s = "wr (t + PDX level v) (boot_entry perm level p s) s"
  have e: "boot_entry perm level x ?s = boot_entry perm level x s" for x by (simp add: boot_entry_def)
  have st: "boot_loop maxl t v p (v + Suc k * PDSIZE level) perm level s =
      boot_loop maxl t (v + PDSIZE level) (p + PDSIZE level) (v + PDSIZE level + k * PDSIZE level) perm level ?s"
    using Suc.prems PDSIZE_pos [of level] by (subst boot_loop.simps) (simp add: add.assoc del: PDSIZE_pos)
  show ?case
  proof (cases k)
    case 0
    then show ?thesis unfolding st using set_run_Suc [of "t + PDX level v" 0 "\<lambda>j. boot_entry perm level (p + j * PDSIZE level) s" s]
      by (simp add: boot_loop.simps set_run_0)
  next
    case (Suc k')
    then have x: "PDX level (v + PDSIZE level) = PDX level v + 1" using Suc.prems PDX_next by simp
    have "boot_loop maxl t (v + PDSIZE level) (p + PDSIZE level) (v + PDSIZE level + k * PDSIZE level) perm level ?s =
        Some (set_run (t + PDX level v + 1) k (\<lambda>j. boot_entry perm level (p + PDSIZE level + j * PDSIZE level) ?s) ?s)"
      using Suc.IH [of "v + PDSIZE level" "p + PDSIZE level" ?s] Suc.prems x by (simp add: add.assoc)
    then show ?thesis unfolding st e
      using set_run_Suc [of "t + PDX level v" k "\<lambda>j. boot_entry perm level (p + j * PDSIZE level) s" s] by (simp add: add.assoc)
  qed
qed

subsection \<open>What entries mean\<close>

lemma has_pi2phys: 
  assumes "p < 2 ^ 40" and "PTE_ADDR g = 0"
  shows "has (mem_pi2phys p OR f) g \<longleftrightarrow> has f g"
proof -
  have "mem_pi2phys p AND g = PTE_ADDR (mem_pi2phys p) AND g" using PTE_ADDR_pi2phys [OF assms(1)] by simp
  also have "\<dots> = mem_pi2phys p AND PTE_ADDR g" by (simp add: PTE_ADDR_def ac_simps)
  finally have "mem_pi2phys p AND g = 0" using assms(2) by simp
  then show ?thesis by (simp add: has_def bit.conj_disj_distrib2)
qed

lemma boot_perms:
  "page_perm KERN_RW (Suc l) = 0x183" "dir_perm KERN_RW = 7" "KERN_RW \<noteq> ERASE" "ucast KERN_RW = (3 :: u64)"
  by (simp_all add: page_perm_def dir_perm_def KERN_RW_def ERASE_def PTE_PS_def pte_flag_defs unsigned_ucast_eq)

lemma flags_low [simp]: "PTE_ADDR 0x183 = 0" "PTE_ADDR 7 = 0" "PTE_ADDR PTE_PS = 0"
  by (simp_all add: PTE_ADDR_def PTE_PS_def)

lemma has_flags [simp]:
  "has 0x183 PTE_P" "has 0x183 PTE_W" "\<not> has 0x183 PTE_U" "has 0x183 PTE_PS"
  "has 7 PTE_P" "has 7 PTE_W" "has 7 PTE_U" "\<not> has 7 PTE_PS"
  by (simp_all add: has_def pte_flag_defs PTE_PS_def)

lemma unat_PTE_ADDR_pi2phys: "p < 2 ^ 40 \<Longrightarrow> PTE_ADDR g = 0 \<Longrightarrow> unat (PTE_ADDR (mem_pi2phys p OR g)) = p * PAGESIZE"
  by (simp add: PTE_ADDR_or PTE_ADDR_pi2phys unat_pi2phys)

lemma translate_large:
  assumes "phys s (t + PDX (Suc l) va) = mem_pi2phys p OR 0x183" and "p < 2 ^ 40"
  shows "translate (Suc l) t va s = Some (p * PAGESIZE + PDOFF (Suc l) va, False, True)" and "walks U (Suc l) t va s"
  using assms by (simp_all add: Let_def has_pi2phys unat_PTE_ADDR_pi2phys)

lemma translate_table:
  assumes "phys s (t + PDX (Suc l) va) = mem_pi2phys p OR 7" and "p < 2 ^ 40"
  shows "translate (Suc l) t va s = translate l (tabptr p) va s"
    and "walks U (Suc l) t va s \<longleftrightarrow> p \<in> U \<and> walks U l (tabptr p) va s"
  using assms by (simp_all add: Let_def has_pi2phys pte_page_or_flags option.map_ident case_prod_unfold)

lemma has_PTE_ZERO: "pmap_zero s < 2 ^ 40 \<Longrightarrow> \<not> has (PTE_ZERO s) PTE_P"
  using has_pi2phys [of "pmap_zero s" PTE_P 0] by (simp add: PTE_ZERO_def has_def)

lemma translate_none:
  assumes "\<not> has (phys s (t + PDX (Suc l) va)) PTE_P"
  shows "translate (Suc l) t va s = None" and "walks U (Suc l) t va s"
  using assms by (simp_all add: Let_def)

subsection \<open>What the loops build\<close>

lemma PDX_run:
  assumes "PDOFF l v = 0" and "PDX l v + j < NPTENTRIES" and "r < PDSIZE l"
  shows "PDX l (v + (j * PDSIZE l + r)) = PDX l v + j" and "PDOFF l (v + (j * PDSIZE l + r)) = r"
proof -
  obtain q where v: "v = q * PDSIZE l" using assms(1) by (auto simp: PDOFF_def mod_eq_0_iff_dvd dvd_def mult.commute)
  have "(v + (j * PDSIZE l + r)) div PDSIZE l = q + j" and q: "v div PDSIZE l = q" and m: "(v + (j * PDSIZE l + r)) mod PDSIZE l = r"
    using assms(3) PDSIZE_pos [of l] unfolding v by (simp_all add: add.assoc [symmetric] distrib_right [symmetric])
  moreover have "(q + j) mod NPTENTRIES = (q mod NPTENTRIES + j) mod NPTENTRIES" by (simp add: mod_add_left_eq)
  ultimately show "PDX l (v + (j * PDSIZE l + r)) = PDX l v + j" using assms(2) by (simp add: PDX_def)
  show "PDOFF l (v + (j * PDSIZE l + r)) = r" using m by (simp add: PDOFF_def)
qed

lemma split_run:
  assumes "x < k * PDSIZE l"
  obtains j r where "x = j * PDSIZE l + r" "j < k" "r < PDSIZE l"
proof
  show "x = x div PDSIZE l * PDSIZE l + x mod PDSIZE l" by simp
  show "x div PDSIZE l < k" using assms by (simp add: less_mult_imp_div_less)
qed simp

lemma PDOFF_pages: "PDOFF l p = 0 \<Longrightarrow> p div PAGESIZE * PAGESIZE = p"
proof -
  have "PAGESIZE dvd PDSIZE l" by (simp add: PDSIZE_def PDSHIFT_def PAGESIZE_def power_add)
  then show "PDOFF l p = 0 \<Longrightarrow> p div PAGESIZE * PAGESIZE = p"
    by (metis PDOFF_def dvd_div_mult_self dvd_eq_mod_eq_0 dvd_trans)
qed

lemma boot_entry_large:
  assumes "PDOFF (Suc l) p = 0"
  shows "boot_entry KERN_RW (Suc l) p s = mem_pi2phys (p div PAGESIZE) OR 0x183"
  using PDOFF_pages [OF assms] by (simp add: boot_entry_def boot_perms mem_pi2phys_def)

text \<open>\<open>trans_to U level t v f n s\<close>: from \<open>v\<close> on, \<open>n\<close> addresses translate as \<open>f\<close> says, through tables among \<open>U\<close>.\<close>

definition trans_to :: "nat set \<Rightarrow> nat \<Rightarrow> nat \<Rightarrow> nat \<Rightarrow> (nat \<Rightarrow> (nat \<times> bool \<times> bool) option) \<Rightarrow> nat \<Rightarrow> 'a vmem_scheme \<Rightarrow> bool" where
  "trans_to U level t v f n s \<longleftrightarrow> (\<forall>x < n. translate level t (v + x) s = f x \<and> walks U level t (v + x) s)"

definition kern_map :: "nat \<Rightarrow> nat \<Rightarrow> (nat \<times> bool \<times> bool) option" where
  "kern_map p x = Some (p + x, False, True)"

lemma run_maps:
  assumes "PDOFF (Suc l) v = 0" "PDOFF (Suc l) p = 0" "PDX (Suc l) v + k \<le> NPTENTRIES" "p + k * PDSIZE (Suc l) \<le> 2 ^ 52"
    and ph: "\<And>j. j < k \<Longrightarrow> phys s' (t + PDX (Suc l) v + j) = boot_entry KERN_RW (Suc l) (p + j * PDSIZE (Suc l)) s"
  shows "trans_to U (Suc l) t v (kern_map p) (k * PDSIZE (Suc l)) s'"
  unfolding trans_to_def
proof (intro allI impI)
  fix x assume "x < k * PDSIZE (Suc l)"
  then obtain j r where x: "x = j * PDSIZE (Suc l) + r" "j < k" "r < PDSIZE (Suc l)" by (rule split_run)
  let ?p = "p + j * PDSIZE (Suc l)"
  have j: "PDX (Suc l) v + j < NPTENTRIES" using assms(3) x(2) by linarith
  note i = PDX_run [OF assms(1) j x(3)]
  have off: "PDOFF (Suc l) ?p = 0" using assms(2) by (simp add: PDOFF_def)
  have "(j + 1) * PDSIZE (Suc l) \<le> k * PDSIZE (Suc l)" using x(2) by (intro mult_le_mono1) simp
  then have "?p < 2 ^ 52" using assms(4) PDSIZE_pos [of "Suc l"] unfolding distrib_right by linarith
  then have "?p div PAGESIZE < 2 ^ 40" by (simp add: less_mult_imp_div_less PAGESIZE_def)
  moreover have "phys s' (t + PDX (Suc l) (v + x)) = mem_pi2phys (?p div PAGESIZE) OR 0x183"
    using ph [OF x(2)] boot_entry_large [OF off] unfolding x(1) i(1) by (simp add: add.assoc)
  ultimately show "translate (Suc l) t (v + x) s' = kern_map p x \<and> walks U (Suc l) t (v + x) s'"
    using translate_large [of s' t l "v + x"] i(2) PDOFF_pages [OF off] unfolding x(1) by (simp add: kern_map_def add.assoc)
qed

lemma run_unmaps:
  assumes "PDOFF (Suc l) v = 0" "PDX (Suc l) v + k \<le> NPTENTRIES"
    and "\<And>j. j < k \<Longrightarrow> \<not> has (phys s' (t + PDX (Suc l) v + j)) PTE_P"
  shows "trans_to U (Suc l) t v (\<lambda>_. None) (k * PDSIZE (Suc l)) s'"
  unfolding trans_to_def
proof (intro allI impI)
  fix x assume "x < k * PDSIZE (Suc l)"
  then obtain j r where x: "x = j * PDSIZE (Suc l) + r" "j < k" "r < PDSIZE (Suc l)" by (rule split_run)
  have j: "PDX (Suc l) v + j < NPTENTRIES" using assms(2) x(2) by linarith
  then show "translate (Suc l) t (v + x) s' = None \<and> walks U (Suc l) t (v + x) s'"
    using translate_none [of s' t l "v + x"] assms(3) [OF x(2)] PDX_run(1) [OF assms(1) j x(3)] unfolding x(1) by (simp add: add.assoc)
qed

definition aligned :: "nat \<Rightarrow> bool" where "aligned a \<longleftrightarrow> a mod PAGESIZE = 0"

lemma page_down_aligned [simp]: "aligned a \<Longrightarrow> page_down a = a"
  by (simp add: aligned_def page_down_def)

lemma aligned_intros [simp]:
  "aligned 0" "aligned a \<Longrightarrow> aligned b \<Longrightarrow> aligned (a + b)" "aligned (PDSIZE l)" "aligned (k * PDSIZE l)"
  "aligned a \<Longrightarrow> aligned b \<Longrightarrow> aligned (min a b)" "aligned a \<Longrightarrow> aligned b \<Longrightarrow> aligned (a - b)"
proof -
  have "PAGESIZE dvd PDSIZE l" for l by (simp add: PDSIZE_def PDSHIFT_def PAGESIZE_def power_add)
  then show "aligned 0" "aligned a \<Longrightarrow> aligned b \<Longrightarrow> aligned (a + b)" "aligned (PDSIZE l)" "aligned (k * PDSIZE l)"
    "aligned a \<Longrightarrow> aligned b \<Longrightarrow> aligned (min a b)" "aligned a \<Longrightarrow> aligned b \<Longrightarrow> aligned (a - b)"
    by (auto simp: aligned_def dvd_eq_mod_eq_0 [symmetric] min_def dvd_diff_nat)
qed

lemma PDOFF_aligned: "PDOFF l v = 0 \<Longrightarrow> aligned v"
  using PDOFF_pages [of l v] by (metis aligned_def mod_mult_self2_is_0)

text \<open>An entry that is not mapped in whole gets a table: here one that starts where the range does.\<close>

lemma boot_sub:
  fixes s :: "'a vmem_scheme"
  assumes wf: "mem_wf s (pi # fl)" and v: "PDOFF (Suc l) v = 0" "v < vhi" "aligned vhi" "aligned p"
    and no: "vhi - v < PDSIZE (Suc l) \<or> maxl < Suc l \<and> perm \<noteq> ERASE" and sz: "sz = min (PDSIZE (Suc l)) (vhi - v)"
  shows "boot_loop maxl t v p vhi perm (Suc l) s = do {
      s3 \<leftarrow> boot_loop maxl (tabptr pi) v p (v + sz) perm l (snd (mem_alloc s));
      s4 \<leftarrow> boot_loop maxl (tabptr pi) (v + sz) 0 (v + PDSIZE (Suc l)) ERASE l s3;
      boot_loop maxl t (v + sz) (p + sz) vhi perm (Suc l) (wr (t + PDX (Suc l) v) (mem_pi2phys pi OR dir_perm perm) s4)
    }"
proof -
  have al: "aligned v" "aligned sz" using PDOFF_aligned [OF v(1)] v(3) unfolding sz by simp_all
  have d: "PDADDR (Suc l) v = v" using v(1) by (simp add: PDADDR_def PDOFF_def)
  have "v + sz + (PDSIZE (Suc l) - sz) = v + PDSIZE (Suc l)" unfolding sz by simp
  moreover have "boot_loop maxl (tabptr pi) v 0 v ERASE l s1 = Some s1" for s1 :: "'a vmem_scheme" by (simp add: boot_loop.simps)
  moreover obtain s1 where "mem_alloc s = (Some pi, s1)" using mem_alloc_Cons [OF wf] by blast
  ultimately show ?thesis
    using v no al sz by (subst boot_loop.simps) (auto simp: pmap_init_bootpmap.simps d Let_def bind_eq_Some_conv)
qed

lemma walks_mono: "walks U l t va s \<Longrightarrow> U \<subseteq> V \<Longrightarrow> walks V l t va s"
  by (induction l arbitrary: t) (auto simp: Let_def)

lemma trans_to_append:
  assumes "trans_to U l t v f n s" and "trans_to U l t (v + n) (\<lambda>x. f (n + x)) m s"
  shows "trans_to U l t v f (n + m) s"
  unfolding trans_to_def
proof (intro allI impI)
  fix x assume "x < n + m"
  show "translate l t (v + x) s = f x \<and> walks U l t (v + x) s"
  proof (cases "x < n")
    case False
    then obtain y where "x = n + y" using le_Suc_ex by (meson not_le)
    then show ?thesis using assms(2) \<open>x < n + m\<close> by (simp add: trans_to_def add.assoc)
  qed (use assms(1) in \<open>simp add: trans_to_def\<close>)
qed

text \<open>\<open>built P W s s'\<close>: from \<open>s\<close> to \<open>s'\<close> only words in \<open>W\<close> and in the pages \<open>P\<close> were written.\<close>

definition built :: "nat set \<Rightarrow> nat set \<Rightarrow> 'a vmem_scheme \<Rightarrow> 'a vmem_scheme \<Rightarrow> bool" where
  "built P W s s' \<longleftrightarrow> pmap_zero s' = pmap_zero s \<and> pmap_bootpmap s' = pmap_bootpmap s \<and> mem_npage s' = mem_npage s \<and>
     (\<forall>x. x \<notin> W \<longrightarrow> x div NPTENTRIES \<notin> P \<longrightarrow> phys s' x = phys s x)"

lemma built_trans:
  "built P W s s1 \<Longrightarrow> built Q V s1 s2 \<Longrightarrow> P \<subseteq> R \<Longrightarrow> Q \<subseteq> R \<Longrightarrow> W \<union> V \<subseteq> X \<union> {x. x div NPTENTRIES \<in> R} \<Longrightarrow> built R X s s2"
  unfolding built_def by (metis (no_types, lifting) UnCI UnE mem_Collect_eq subsetD)

lemma built_steps:
  "built {} {} s (snd (mem_alloc s))" "built {} {a ..< a + k} s (set_run a k f s)" "built {} {a} s (wr a w s)"
  by (simp_all add: built_def mem_alloc_simps) (simp_all add: set_run_def wr_def)

lemma tabptr_ne: "p \<noteq> q \<Longrightarrow> i < NPTENTRIES \<Longrightarrow> j < NPTENTRIES \<Longrightarrow> tabptr p + i \<noteq> tabptr q + j"
  by (metis tabptr_div)

text \<open>Building elsewhere keeps what addresses translate to.\<close>

lemma trans_to_built:
  assumes "trans_to U l (tabptr b) v f n s" and "built P W s s'" and "b \<notin> P" and "P \<inter> U = {}" and "U \<subseteq> V"
    and "\<And>x. x < n \<Longrightarrow> tabptr b + PDX l (v + x) \<notin> W" and "\<And>w. w \<in> W \<Longrightarrow> w div NPTENTRIES \<notin> U"
  shows "trans_to V l (tabptr b) v f n s'"
  unfolding trans_to_def
proof (intro allI impI)
  fix x assume x: "x < n"
  have w: "walks U l (tabptr b) (v + x) s" "translate l (tabptr b) (v + x) s = f x" using assms(1) x by (auto simp: trans_to_def)
  have "phys s' (tabptr b + PDX l (v + x)) = phys s (tabptr b + PDX l (v + x))"
    using assms(2,3) assms(6) [OF x] by (simp add: built_def)
  moreover have "phys s' (tabptr p + i) = phys s (tabptr p + i)" if "p \<in> U" "i < NPTENTRIES" for p i
  proof -
    have "tabptr p + i \<notin> W" "p \<notin> P" using assms(4) assms(7) [of "tabptr p + i"] that by auto
    then show ?thesis using assms(2) that(2) by (simp add: built_def)
  qed
  ultimately show "translate l (tabptr b) (v + x) s' = f x \<and> walks V l (tabptr b) (v + x) s'"
    using translate_cong [OF w(1)] w(2) walks_mono [OF _ assms(5)] by metis
qed

lemma trans_to_table:
  assumes "trans_to U (Suc l) (tabptr p) v f n s" and "p < 2 ^ 40" and "PDOFF (Suc (Suc l)) v = 0" and "n \<le> PDSIZE (Suc (Suc l))"
    and "phys s (t + PDX (Suc (Suc l)) v) = mem_pi2phys p OR 7"
  shows "trans_to (insert p U) (Suc (Suc l)) t v f n s"
  unfolding trans_to_def
proof (intro allI impI)
  fix x assume "x < n"
  then have "PDX (Suc (Suc l)) (v + x) = PDX (Suc (Suc l)) v" using PDX_run(1) [OF assms(3), of 0 x] assms(4) by simp
  then show "translate (Suc (Suc l)) t (v + x) s = f x \<and> walks (insert p U) (Suc (Suc l)) t (v + x) s"
    using translate_table [of s t "Suc l" "v + x" p] assms(1,2,5) \<open>x < n\<close>
      walks_mono [of U "Suc l" "tabptr p" "v + x" s "insert p U"]
    by (auto simp: trans_to_def simp del: translate.simps walks.simps)
qed

lemma PDX_of_aligned: "PDOFF (Suc l) v = 0 \<Longrightarrow> PDX l v = 0 \<and> PDOFF l v = 0"
  by (auto simp: PDX_def PDOFF_def PDSIZE_Suc mod_mult2_eq mult.commute [of NPTENTRIES])

lemma wf_page: "mem_wf s fl \<Longrightarrow> p \<in> set fl \<Longrightarrow> p < 2 ^ 40"
  by (auto simp: mem_wf_def pi_allocatable_def)

lemma mem_wf_wr [simp]: "mem_wf (wr a w s) fl = mem_wf s fl"
  by (simp add: wr_def mem_wf_def pi_allocatable_def)

lemma built_PTE_ZERO: "built P W s s' \<Longrightarrow> PTE_ZERO s' = PTE_ZERO s"
  by (simp add: built_def PTE_ZERO_def)

lemma boot_whole:
  fixes s :: "'a vmem_scheme" and l :: nat
  defines "L \<equiv> Suc (Suc l)"
  assumes wf: "mem_wf s (pi # fl)" and v: "PDOFF L v = 0" "PDOFF L p = 0" "v + PDSIZE L \<le> vhi" "aligned vhi" "p + PDSIZE L \<le> 2 ^ 52"
    and b: "b \<notin> set (pi # fl)"
  shows "\<exists>s5. boot_loop (Suc l) (tabptr b) v p vhi KERN_RW L s = boot_loop (Suc l) (tabptr b) (v + PDSIZE L) (p + PDSIZE L) vhi KERN_RW L s5 \<and>
    mem_wf s5 fl \<and> trans_to {pi} L (tabptr b) v (kern_map p) (PDSIZE L) s5 \<and> built {pi} {tabptr b + PDX L v} s s5"
proof -
  let ?s1 = "snd (mem_alloc s)"
  define s4 where "s4 = set_run (tabptr pi) NPTENTRIES (\<lambda>j. boot_entry KERN_RW (Suc l) (p + j * PDSIZE (Suc l)) ?s1) ?s1"
  define s5 where "s5 = wr (tabptr b + PDX L v) (mem_pi2phys pi OR 7) s4"
  have wf1: "mem_wf ?s1 fl" using mem_alloc_Cons [OF wf] by auto
  note low = PDX_of_aligned [OF v(1) [unfolded L_def]] PDX_of_aligned [OF v(2) [unfolded L_def]]
  have sz: "PDSIZE L = NPTENTRIES * PDSIZE (Suc l)" "PDSIZE L = min (PDSIZE L) (vhi - v)" using v(3) by (simp_all add: L_def PDSIZE_Suc)
  have run: "boot_loop (Suc l) (tabptr pi) v p (v + PDSIZE L) KERN_RW (Suc l) ?s1 = Some s4"
    using boot_run [of "Suc l" "Suc l" KERN_RW v p NPTENTRIES "tabptr pi" ?s1] low by (simp add: s4_def sz(1))
  have "boot_loop (Suc l) (tabptr b) v p vhi KERN_RW L s =
      boot_loop (Suc l) (tabptr b) (v + PDSIZE L) (p + PDSIZE L) vhi KERN_RW L s5"
    using boot_sub [OF wf, of "Suc l" v vhi p "Suc l" KERN_RW "PDSIZE L" "tabptr b"] run sz(2) v PDSIZE_pos [of L] PDOFF_aligned [OF v(2)]
    unfolding L_def by (simp add: boot_perms boot_loop.simps [of _ _ "_ + _" 0 "_ + _" ERASE] s5_def L_def del: PDSIZE_pos)
  moreover have "mem_wf s5 fl" using wf1 by (simp add: s5_def s4_def)
  moreover have "built {pi} {tabptr b + PDX L v} s s5"
  proof -
    have "built {pi} {} s s4"
      unfolding s4_def by (rule built_trans [OF built_steps(1) built_steps(2)]) (auto simp: tabptr_def NPTENTRIES_def)
    then show ?thesis unfolding s5_def by (rule built_trans [OF _ built_steps(3)]) auto
  qed
  moreover have "trans_to {pi} L (tabptr b) v (kern_map p) (PDSIZE L) s5"
  proof -
    have ne: "tabptr pi + j \<noteq> tabptr b + PDX L v" if "j < NPTENTRIES" for j
      using b that by (intro tabptr_ne) auto
    have "trans_to {} (Suc l) (tabptr pi) v (kern_map p) (PDSIZE L) s5"
      unfolding sz(1) by (rule run_maps [where s = ?s1]) (use low v(5) sz(1) ne in \<open>auto simp: s5_def s4_def wr_def\<close>)
    then show ?thesis
      unfolding L_def by (rule trans_to_table) (use wf_page [OF wf] v(1) in \<open>auto simp: L_def s5_def wr_def\<close>)
  qed
  ultimately show ?thesis by blast
qed

text \<open>The loop over \<open>k\<close> whole entries that each need a table.\<close>

lemma boot_tables:
  fixes s :: "'a vmem_scheme" and l :: nat
  defines "L \<equiv> Suc (Suc l)"
  shows "mem_wf s (ps @ fl) \<Longrightarrow> PDOFF L v = 0 \<Longrightarrow> PDOFF L p = 0 \<Longrightarrow> PDX L v + length ps \<le> NPTENTRIES \<Longrightarrow>
    p + length ps * PDSIZE L \<le> 2 ^ 52 \<Longrightarrow> b \<notin> set (ps @ fl) \<Longrightarrow>
    \<exists>s'. boot_loop (Suc l) (tabptr b) v p (v + length ps * PDSIZE L) KERN_RW L s = Some s' \<and> mem_wf s' fl \<and>
      trans_to (set ps) L (tabptr b) v (kern_map p) (length ps * PDSIZE L) s' \<and>
      built (set ps) {tabptr b + PDX L v ..< tabptr b + PDX L v + length ps} s s'"
proof (induction ps arbitrary: v p s)
  case Nil
  then show ?case by (auto simp: boot_loop.simps trans_to_def built_def)
next
  case (Cons pi ps)
  let ?v = "v + PDSIZE L" and ?p = "p + PDSIZE L" and ?n = "length ps * PDSIZE L"
  let ?W = "{tabptr b + PDX L ?v ..< tabptr b + PDX L ?v + length ps}"
  have hi: "v + (PDSIZE L + ?n) = ?v + ?n" and tot: "length (pi # ps) * PDSIZE L = PDSIZE L + ?n" by simp_all
  have al: "aligned (?v + ?n)" using PDOFF_aligned [OF Cons.prems(2)] by simp
  have "\<exists>s5. boot_loop (Suc l) (tabptr b) v p (?v + ?n) KERN_RW L s = boot_loop (Suc l) (tabptr b) ?v ?p (?v + ?n) KERN_RW L s5 \<and>
    mem_wf s5 (ps @ fl) \<and> trans_to {pi} L (tabptr b) v (kern_map p) (PDSIZE L) s5 \<and> built {pi} {tabptr b + PDX L v} s s5"
    unfolding L_def by (rule boot_whole) (use Cons.prems al in \<open>simp_all add: L_def\<close>)
  then obtain s5 where s5: "boot_loop (Suc l) (tabptr b) v p (?v + ?n) KERN_RW L s = boot_loop (Suc l) (tabptr b) ?v ?p (?v + ?n) KERN_RW L s5"
    "mem_wf s5 (ps @ fl)" "trans_to {pi} L (tabptr b) v (kern_map p) (PDSIZE L) s5" "built {pi} {tabptr b + PDX L v} s s5" by blast
  have nx: "PDX L ?v = PDX L v + 1" if "ps \<noteq> []"
  proof -
    have "0 < length ps" using that by simp
    then have "PDX L v + 1 < NPTENTRIES" using Cons.prems(4) unfolding length_Cons by linarith
    then show ?thesis by (rule PDX_next)
  qed
  then have x: "PDX L ?v + length ps \<le> NPTENTRIES" using Cons.prems(4) PDX_less [of L ?v] by (cases "ps = []") (auto simp del: PDX_less)
  have "\<exists>s'. boot_loop (Suc l) (tabptr b) ?v ?p (?v + ?n) KERN_RW L s5 = Some s' \<and> mem_wf s' fl \<and>
      trans_to (set ps) L (tabptr b) ?v (kern_map ?p) ?n s' \<and> built (set ps) ?W s5 s'"
    by (rule Cons.IH) (use Cons.prems s5(2) x in simp_all)
  then obtain s' where s': "boot_loop (Suc l) (tabptr b) ?v ?p (?v + ?n) KERN_RW L s5 = Some s'" "mem_wf s' fl"
    "trans_to (set ps) L (tabptr b) ?v (kern_map ?p) ?n s'" "built (set ps) ?W s5 s'" by blast
  have dist: "pi \<notin> set ps" using mem_wf_distinct [OF Cons.prems(1)] by simp
  have W: "?W \<subseteq> {tabptr b + PDX L v + 1 ..< tabptr b + PDX L v + length (pi # ps)}" using nx by (cases "ps = []") auto
  have Wb: "w div NPTENTRIES = b" if "w \<in> ?W" for w
  proof -
    have "w - tabptr b < NPTENTRIES" "tabptr b \<le> w" using that x by auto
    then show ?thesis by (metis le_add_diff_inverse tabptr_div)
  qed
  have "trans_to (set (pi # ps)) L (tabptr b) v (kern_map p) (PDSIZE L) s'"
  proof (rule trans_to_built [OF s5(3) s'(4)])
    show "b \<notin> set ps" "set ps \<inter> {pi} = {}" "{pi} \<subseteq> set (pi # ps)" using Cons.prems(6) dist by auto
    show "w div NPTENTRIES \<notin> {pi}" if "w \<in> ?W" for w using Wb [OF that] Cons.prems(6) by auto
    show "tabptr b + PDX L (v + x) \<notin> ?W" if "x < PDSIZE L" for x
      using PDX_run(1) [OF Cons.prems(2), of 0 x] that W by auto
  qed
  moreover have "trans_to (set (pi # ps)) L (tabptr b) ?v (\<lambda>x. kern_map p (PDSIZE L + x)) ?n s'"
    using s'(3) walks_mono [of "set ps" _ _ _ s' "set (pi # ps)"] by (auto simp: trans_to_def kern_map_def add.assoc)
  ultimately have "trans_to (set (pi # ps)) L (tabptr b) v (kern_map p) (PDSIZE L + ?n) s'" by (rule trans_to_append)
  moreover have "built (set (pi # ps)) {tabptr b + PDX L v ..< tabptr b + PDX L v + length (pi # ps)} s s'"
    by (rule built_trans [OF s5(4) s'(4)]) (use W in auto)
  ultimately show ?case unfolding tot hi s5(1) s'(1) using s'(2) by blast
qed

text \<open>\<open>k\<close> gigabytes at level 2: pages of 1 GB, or tables of pages of 2 MB (\<open>ps\<close> are the tables).\<close>

definition gb_tables :: "nat \<Rightarrow> nat \<Rightarrow> nat list \<Rightarrow> bool" where
  "gb_tables maxl k ps \<longleftrightarrow> (maxl = 2 \<and> ps = [] \<or> maxl = 1 \<and> length ps = k)"

lemma boot_gigabytes:
  assumes gb: "gb_tables maxl k ps" and wf: "mem_wf s (ps @ fl)" and v: "PDOFF 2 v = 0" "PDOFF 2 p = 0" "PDX 2 v + k \<le> NPTENTRIES"
    "p + k * PDSIZE 2 \<le> 2 ^ 52" and b: "b \<notin> set (ps @ fl)"
  shows "\<exists>s'. boot_loop maxl (tabptr b) v p (v + k * PDSIZE 2) KERN_RW 2 s = Some s' \<and> mem_wf s' fl \<and>
      trans_to (set ps) 2 (tabptr b) v (kern_map p) (k * PDSIZE 2) s' \<and>
      built (set ps) {tabptr b + PDX 2 v ..< tabptr b + PDX 2 v + k} s s'"
proof (cases "maxl = 2")
  case True
  let ?s = "set_run (tabptr b + PDX 2 v) k (\<lambda>j. boot_entry KERN_RW 2 (p + j * PDSIZE 2) s) s"
  have "boot_loop maxl (tabptr b) v p (v + k * PDSIZE 2) KERN_RW 2 s = Some ?s" by (rule boot_run) (use v True in simp_all)
  moreover have "trans_to (set ps) (Suc 1) (tabptr b) v (kern_map p) (k * PDSIZE (Suc 1)) ?s"
    by (rule run_maps [where s = s]) (use v in \<open>simp_all add: numeral_2_eq_2\<close>)
  moreover have "built {} {tabptr b + PDX 2 v ..< tabptr b + PDX 2 v + k} s ?s" by (rule built_steps)
  moreover have "ps = []" using gb True by (simp add: gb_tables_def)
  ultimately show ?thesis using wf by (auto simp: numeral_2_eq_2)
next
  case False
  then have "maxl = 1" "length ps = k" using gb by (auto simp: gb_tables_def)
  then show ?thesis using boot_tables [of s ps fl 0 v p b] assms by (simp add: numeral_2_eq_2)
qed

lemma region_trans:
  fixes k :: nat
  defines "n \<equiv> k * PDSIZE 2"
  assumes tr: "trans_to (set ps) 2 (tabptr pi) v (kern_map 0) n s3" and pi: "pi < 2 ^ 40" and v: "PDOFF 3 v = 0" and k: "k \<le> NPTENTRIES"
    and b: "b \<notin> set (pi # ps)" and dist: "pi \<notin> set ps" and z: "\<not> has (PTE_ZERO s3) PTE_P"
  shows "trans_to (set (pi # ps)) 3 (tabptr b) v (\<lambda>x. if x < n then kern_map 0 x else None) (PDSIZE 3)
    (wr (tabptr b + PDX 3 v) (mem_pi2phys pi OR 7) (set_run (tabptr pi + k) (NPTENTRIES - k) (\<lambda>_. PTE_ZERO s3) s3))"
    (is "trans_to _ _ _ _ _ _ ?s5")
proof -
  let ?m = "(NPTENTRIES - k) * PDSIZE 2" and ?W = "{tabptr pi + k ..< tabptr pi + k + (NPTENTRIES - k)} \<union> {tabptr b + PDX 3 v}"
  have nm: "n + ?m = PDSIZE 3" using PDSIZE_Suc [of 2] k by (simp add: n_def add_mult_distrib [symmetric])
  have v2: "PDX 2 v = 0" "PDOFF 2 v = 0" using PDX_of_aligned [of 2 v] v by simp_all
  have ne: "tabptr pi + i \<noteq> tabptr b + PDX 3 v" if "i < NPTENTRIES" for i
    using b that by (intro tabptr_ne) auto
  have "built {} ?W s3 ?s5" by (rule built_trans [OF built_steps(2) built_steps(3)]) auto
  with tr have "trans_to (set ps) 2 (tabptr pi) v (kern_map 0) n ?s5"
  proof (rule trans_to_built)
    show "w div NPTENTRIES \<notin> set ps" if "w \<in> ?W" for w
    proof (cases "w = tabptr b + PDX 3 v")
      case False
      then have "w - tabptr pi < NPTENTRIES" "tabptr pi \<le> w" using that k by auto
      then show ?thesis using dist by (metis le_add_diff_inverse tabptr_div)
    qed (use b in simp)
    show "tabptr pi + PDX 2 (v + x) \<notin> ?W" if x: "x < n" for x
    proof -
      obtain j r where x: "x = j * PDSIZE 2 + r" "j < k" "r < PDSIZE 2" using x unfolding n_def by (rule split_run)
      then have "PDX 2 (v + x) = j" using PDX_run(1) [OF v2(2), of j r] k v2(1) by simp
      then show ?thesis using x(2) k ne [of j] by auto
    qed
  qed simp_all
  moreover have "trans_to (set ps) 2 (tabptr pi) (v + n) (\<lambda>_. None) ?m ?s5"
  proof (cases "k = NPTENTRIES")
    case False
    have i: "PDX 2 (v + n) = k" "PDOFF 2 (v + n) = 0" using PDX_run [OF v2(2), of k 0] k v2(1) False by (simp_all add: n_def)
    have ne': "tabptr pi + k + j \<noteq> tabptr b + PDX 3 v" if "j < NPTENTRIES - k" for j
      using ne [of "k + j"] that by (simp add: add.assoc)
    have "trans_to (set ps) (Suc 1) (tabptr pi) (v + n) (\<lambda>_. None) ((NPTENTRIES - k) * PDSIZE (Suc 1)) ?s5"
      by (rule run_unmaps) (use i k z ne' in \<open>auto simp: numeral_2_eq_2 wr_def\<close>)
    then show ?thesis by (simp add: numeral_2_eq_2)
  qed (simp add: trans_to_def)
  ultimately have "trans_to (set ps) 2 (tabptr pi) v (\<lambda>x. if x < n then kern_map 0 x else None) (n + ?m) ?s5"
    by (intro trans_to_append) (simp_all add: trans_to_def)
  then have "trans_to (insert pi (set ps)) (Suc (Suc 1)) (tabptr b) v (\<lambda>x. if x < n then kern_map 0 x else None) (PDSIZE 3) ?s5"
    unfolding nm by (intro trans_to_table) (use pi v in \<open>auto simp: wr_def numeral_2_eq_2 numeral_3_eq_3\<close>)
  then show ?thesis by (simp add: numeral_3_eq_3)
qed

lemma boot_region:
  fixes s :: "'a vmem_scheme"
  assumes gb: "gb_tables maxl k ps" and wf: "mem_wf s (pi # ps @ fl)" and v: "PDOFF 3 v = 0" and k: "0 < k" "k \<le> NPTENTRIES"
    and z: "pmap_zero s < 2 ^ 40" and b: "b \<notin> set (pi # ps @ fl)"
  shows "\<exists>s'. pmap_init_bootpmap maxl (tabptr b) v 0 (k * PDSIZE 2) KERN_RW 3 s = Some s' \<and> mem_wf s' fl \<and>
      trans_to (set (pi # ps)) 3 (tabptr b) v (\<lambda>x. if x < k * PDSIZE 2 then kern_map 0 x else None) (PDSIZE 3) s' \<and>
      built (set (pi # ps)) {tabptr b + PDX 3 v} s s'"
proof -
  let ?s1 = "snd (mem_alloc s)" and ?n = "k * PDSIZE 2" and ?m = "(NPTENTRIES - k) * PDSIZE 2"
  have P3: "PDSIZE 3 = NPTENTRIES * PDSIZE 2" using PDSIZE_Suc [of 2] by simp
  have nm: "?n + ?m = PDSIZE 3" unfolding P3 using k(2) by (simp add: add_mult_distrib [symmetric])
  have v2: "PDX 2 v = 0" "PDOFF 2 v = 0" using PDX_of_aligned [of 2 v] v by simp_all
  have wf1: "mem_wf ?s1 (ps @ fl)" using mem_alloc_Cons [OF wf] by auto
  have dist: "pi \<notin> set (ps @ fl)" using mem_wf_distinct [OF wf] by simp
  have "?n \<le> 2 ^ 52" using nm by (simp add: PDSIZE_def PDSHIFT_def)
  then obtain s3 where s3: "boot_loop maxl (tabptr pi) v 0 (v + ?n) KERN_RW 2 ?s1 = Some s3" "mem_wf s3 fl"
    "trans_to (set ps) 2 (tabptr pi) v (kern_map 0) ?n s3" "built (set ps) {tabptr pi ..< tabptr pi + k} ?s1 s3"
    using boot_gigabytes [OF gb wf1, of v 0 pi] v2 k(2) dist by (auto simp: PDOFF_def)
  define s4 where "s4 = set_run (tabptr pi + k) (NPTENTRIES - k) (\<lambda>_. PTE_ZERO s3) s3"
  define s5 where "s5 = wr (tabptr b + PDX 3 v) (mem_pi2phys pi OR 7) s4"
  have s4: "boot_loop maxl (tabptr pi) (v + ?n) 0 (v + PDSIZE 3) ERASE 2 s3 = Some s4"
  proof (cases "k = NPTENTRIES")
    case True
    then show ?thesis using P3 by (simp add: boot_loop.simps s4_def set_run_0)
  next
    case False
    have "PDX 2 (v + (k * PDSIZE 2 + 0)) = PDX 2 v + k" "PDOFF 2 (v + (k * PDSIZE 2 + 0)) = 0"
      by (rule PDX_run; use v2 k False in simp)+
    then show ?thesis using boot_run [of 2 maxl ERASE "v + ?n" 0 "NPTENTRIES - k" "tabptr pi" s3] k(2) v2 nm
      by (simp add: s4_def boot_entry_def PDOFF_def add.assoc)
  qed
  have "pmap_init_bootpmap maxl (tabptr b) v 0 ?n KERN_RW 3 s = Some s5"
  proof -
    have sz: "?n = min (PDSIZE 3) (v + ?n - v)" and lt: "v < v + ?n" using nm k(1) by simp_all
    have no: "v + ?n - v < PDSIZE 3 \<or> maxl < 3 \<and> KERN_RW \<noteq> ERASE" using gb by (auto simp: gb_tables_def boot_perms)
    show ?thesis
      using boot_sub [OF wf, of 2 v "v + ?n" 0 maxl KERN_RW ?n "tabptr b"] v lt no sz PDOFF_aligned [OF v] s3(1) s4
      by (simp add: pmap_init_bootpmap.simps boot_perms s5_def boot_loop.simps [of _ _ "_ + _" _ "_ + _" _ 3])
  qed
  moreover have "mem_wf s5 fl" using s3(2) by (simp add: s5_def s4_def)
  moreover have "built (set (pi # ps)) {tabptr b + PDX 3 v} s s5"
  proof -
    have "built (set ps) {tabptr pi ..< tabptr pi + k} s s3" by (rule built_trans [OF built_steps(1) s3(4)]) auto
    then have "built (set (pi # ps)) {} s s4"
      unfolding s4_def by (rule built_trans [OF _ built_steps(2)]) (use k(2) in \<open>auto simp: tabptr_def NPTENTRIES_def\<close>)
    then show ?thesis unfolding s5_def by (rule built_trans [OF _ built_steps(3)]) auto
  qed
  moreover have "trans_to (set (pi # ps)) 3 (tabptr b) v (\<lambda>x. if x < ?n then kern_map 0 x else None) (PDSIZE 3) s5"
    unfolding s5_def s4_def
  proof (rule region_trans [OF s3(3) _ v k(2)])
    show "pi < 2 ^ 40" "b \<notin> set (pi # ps)" "pi \<notin> set ps" using wf_page [OF wf] b dist by auto
    have "pmap_zero s3 < 2 ^ 40" using s3(4) z by (simp add: built_def mem_alloc_simps)
    then show "\<not> has (PTE_ZERO s3) PTE_P" by (rule has_PTE_ZERO)
  qed
  ultimately show ?thesis by blast
qed

subsection \<open>The whole boot map\<close>

text \<open>How many of the free pages become tables of 2 MB pages.\<close>

definition tables_for :: "bool \<Rightarrow> nat \<Rightarrow> nat" where "tables_for gbpages k = (if gbpages then 0 else k)"

lemma erase_all:
  "pmap_init_bootpmap maxl (tabptr b) 0 0 (2 ^ 48) ERASE NPTLVLS s = Some (set_run (tabptr b) NPTENTRIES (\<lambda>_. PTE_ZERO s) s)"
proof -
  have "page_down 0 = 0" "page_down 0 + page_down (2 ^ 48) = 0 + NPTENTRIES * PDSIZE NPTLVLS"
    by (simp_all add: page_down_def PAGESIZE_def NPTENTRIES_def PDSIZE_def PDSHIFT_def NPTLVLS_def)
  then show ?thesis
    using boot_run [of NPTLVLS maxl ERASE 0 0 NPTENTRIES "tabptr b" s]
    by (simp add: pmap_init_bootpmap.simps PDOFF_def PDX_def boot_entry_def)
qed

lemma boot_constants:
  "NPTLVLS = 3" "VM_USERLO = 1 * PDSIZE 2" "PDX 3 0 = 0" "PDOFF 3 0 = 0" "PDX 3 (unat VM_KERNLO) = 511" "PDOFF 3 (unat VM_KERNLO) = 0"
  by (simp_all add: NPTLVLS_def VM_USERLO_def PDSIZE_def PDSHIFT_def PDX_def PDOFF_def VM_KERNLO_def NPTENTRIES_def)

lemma PDX_3_user: "PDSIZE 3 \<le> va \<Longrightarrow> va < VM_USERHI \<Longrightarrow> 0 < PDX 3 va \<and> PDX 3 va < 256"
  by (simp add: PDSIZE_def PDSHIFT_def PDX_def VM_USERHI_def NPTENTRIES_def div_greater_zero_iff)

lemma split_pages:
  assumes "n \<le> length fl"
  obtains ps fl' where "fl = ps @ fl'" "length ps = n"
  using assms by (metis append_take_drop_id length_take min.absorb2)

lemma gb_pages:
  assumes "2 + tables_for gbpages (k + 1) \<le> length fl"
  obtains p1 ps1 p2 ps2 fl' where "fl = p1 # ps1 @ p2 # ps2 @ fl'"
    "gb_tables (if gbpages then 2 else 1) 1 ps1" "gb_tables (if gbpages then 2 else 1) k ps2"
proof -
  obtain p1 r where r: "fl = p1 # r" using assms by (cases fl) auto
  then have "tables_for gbpages 1 \<le> length r" using assms by (simp add: tables_for_def split: if_splits)
  then obtain ps1 r1 where r1: "r = ps1 @ r1" "length ps1 = tables_for gbpages 1" by (rule split_pages)
  then obtain p2 r2 where r2: "r1 = p2 # r2" using assms r by (cases r1) (auto simp: tables_for_def split: if_splits)
  then have "tables_for gbpages k \<le> length r2" using assms r r1 by (simp add: tables_for_def split: if_splits)
  then obtain ps2 fl' where "r2 = ps2 @ fl'" "length ps2 = tables_for gbpages k" by (rule split_pages)
  with r r1 r2 show thesis by (intro that) (auto simp: gb_tables_def tables_for_def split: if_splits)
qed

text \<open>The states that \<open>pmap_init\<close> goes through: all erased (\<open>s1\<close>), low memory mapped (\<open>s2\<close>), all memory mapped (\<open>s3\<close>), and the entry
  for the map itself.\<close>

lemma boot_map_states:
  fixes s :: "'a vmem_scheme" and b :: nat
  defines "b \<equiv> pmap_bootpmap s" and "s1 \<equiv> set_run (tabptr (pmap_bootpmap s)) NPTENTRIES (\<lambda>_. PTE_ZERO s) s"
  assumes wf: "mem_wf s (p1 # ps1 @ p2 # ps2 @ fl)" and gb: "gb_tables maxl 1 ps1" "gb_tables maxl k ps2" and m: "maxl = (if gbpages then 2 else 1)"
    and b: "b \<notin> set (p1 # ps1 @ p2 # ps2 @ fl)" and k: "0 < k" "k \<le> NPTENTRIES" "ROUNDUP mem_max (PDSIZE maxl) = k * PDSIZE 2"
    and z: "pmap_zero s < 2 ^ 40"
  obtains s2 s3 where "pmap_init gbpages mem_max s = Some (wr (tabptr b + 447) (mem_pi2phys b OR PTE_P OR PTE_W) s3)"
    "trans_to (set (p1 # ps1)) 3 (tabptr b) 0 (\<lambda>x. if x < VM_USERLO then kern_map 0 x else None) (PDSIZE 3) s2"
    "built (set (p1 # ps1)) {tabptr b} s1 s2"
    "trans_to (set (p2 # ps2)) 3 (tabptr b) (unat VM_KERNLO) (\<lambda>x. if x < k * PDSIZE 2 then kern_map 0 x else None) (PDSIZE 3) s3"
    "built (set (p2 # ps2)) {tabptr b + 511} s2 s3"
proof -
  note c = boot_constants
  have wf1: "mem_wf s1 (p1 # ps1 @ (p2 # ps2 @ fl))" using wf by (simp add: s1_def)
  have z1: "pmap_zero s1 < 2 ^ 40" using z by (simp add: s1_def set_run_def)
  have b1: "b \<notin> set (p1 # ps1 @ (p2 # ps2 @ fl))" using b by simp
  have n1: "0 < (1 :: nat)" "(1 :: nat) \<le> NPTENTRIES" by (simp_all add: NPTENTRIES_def)
  obtain s2 where s2: "pmap_init_bootpmap maxl (tabptr b) 0 0 VM_USERLO KERN_RW 3 s1 = Some s2" "mem_wf s2 (p2 # ps2 @ fl)"
    "trans_to (set (p1 # ps1)) 3 (tabptr b) 0 (\<lambda>x. if x < VM_USERLO then kern_map 0 x else None) (PDSIZE 3) s2"
    "built (set (p1 # ps1)) {tabptr b + PDX 3 0} s1 s2"
    using boot_region [OF gb(1) wf1 c(4) n1 z1 b1] unfolding c(2) [symmetric] by blast
  have z2: "pmap_zero s2 < 2 ^ 40" and b2: "b \<notin> set (p2 # ps2 @ fl)" using s2(4) z1 b by (simp_all add: built_def)
  obtain s3 where s3: "pmap_init_bootpmap maxl (tabptr b) (unat VM_KERNLO) 0 (k * PDSIZE 2) KERN_RW 3 s2 = Some s3"
    "trans_to (set (p2 # ps2)) 3 (tabptr b) (unat VM_KERNLO) (\<lambda>x. if x < k * PDSIZE 2 then kern_map 0 x else None) (PDSIZE 3) s3"
    "built (set (p2 # ps2)) {tabptr b + PDX 3 (unat VM_KERNLO)} s2 s3"
    using boot_region [OF gb(2) s2(2) c(6) k(1,2) z2 b2] by blast
  have "pmap_init gbpages mem_max s = Some (wr (tabptr b + 447) (mem_pi2phys b OR PTE_P OR PTE_W) s3)"
    using erase_all [of maxl b s] s2(1) s3(1) k(3) unfolding pmap_init_def m [symmetric]
    by (simp add: Let_def b_def [symmetric] s1_def c(1) PML4SELFOFFSET_def)
  with s2(3,4) s3(2,3) show thesis unfolding c(3,5) by (intro that) simp_all
qed

lemma boot_map_entries:
  fixes s :: "'a vmem_scheme" and b :: nat
  defines "b \<equiv> pmap_bootpmap s"
  assumes wf: "mem_wf s (p1 # ps1 @ p2 # ps2 @ fl)" and gb: "gb_tables maxl 1 ps1" "gb_tables maxl k ps2" and m: "maxl = (if gbpages then 2 else 1)"
    and b: "b \<notin> set (p1 # ps1 @ p2 # ps2 @ fl)" and k: "0 < k" "k \<le> NPTENTRIES" "ROUNDUP mem_max (PDSIZE maxl) = k * PDSIZE 2"
    and z: "pmap_zero s < 2 ^ 40"
  shows "\<exists>s'. pmap_init gbpages mem_max s = Some s' \<and> pmap_bootpmap s' = b \<and>
    trans_to (set (p1 # ps1)) 3 (tabptr b) 0 (\<lambda>x. if x < VM_USERLO then kern_map 0 x else None) (PDSIZE 3) s' \<and>
    trans_to (set (p2 # ps2)) 3 (tabptr b) (unat VM_KERNLO) (\<lambda>x. if x < k * PDSIZE 2 then kern_map 0 x else None) (PDSIZE 3) s' \<and>
    (\<forall>i. 0 < i \<and> i < 256 \<longrightarrow> phys s' (tabptr b + i) = PTE_ZERO s)"
proof -
  define s1 where "s1 = set_run (tabptr b) NPTENTRIES (\<lambda>_. PTE_ZERO s) s"
  obtain s2 s3 where init: "pmap_init gbpages mem_max s = Some (wr (tabptr b + 447) (mem_pi2phys b OR PTE_P OR PTE_W) s3)"
    and tr: "trans_to (set (p1 # ps1)) 3 (tabptr b) 0 (\<lambda>x. if x < VM_USERLO then kern_map 0 x else None) (PDSIZE 3) s2"
      "trans_to (set (p2 # ps2)) 3 (tabptr b) (unat VM_KERNLO) (\<lambda>x. if x < k * PDSIZE 2 then kern_map 0 x else None) (PDSIZE 3) s3"
    and bu: "built (set (p1 # ps1)) {tabptr b} s1 s2" "built (set (p2 # ps2)) {tabptr b + 511} s2 s3"
    using boot_map_states [OF wf gb m b [unfolded b_def] k z] unfolding b_def s1_def by blast
  define s4 where "s4 = wr (tabptr b + 447) (mem_pi2phys b OR PTE_P OR PTE_W) s3"
  have b34: "built {} {tabptr b + 447} s3 s4" unfolding s4_def by (rule built_steps)
  have b24: "built (set (p2 # ps2)) {tabptr b + 511, tabptr b + 447} s2 s4" by (rule built_trans [OF bu(2) b34]) auto
  have top: "w div NPTENTRIES = b" if "w \<in> {tabptr b + 511, tabptr b + 447}" for w
    using that tabptr_div [of 511 b] tabptr_div [of 447 b] by (auto simp: NPTENTRIES_def)
  have "pmap_bootpmap s4 = b" using b24 bu(1) by (simp add: built_def s1_def b_def)
  moreover have "trans_to (set (p1 # ps1)) 3 (tabptr b) 0 (\<lambda>x. if x < VM_USERLO then kern_map 0 x else None) (PDSIZE 3) s4"
    using tr(1) b24
  proof (rule trans_to_built)
    show "b \<notin> set (p2 # ps2)" "set (p2 # ps2) \<inter> set (p1 # ps1) = {}" using b mem_wf_distinct [OF wf] by auto
    show "tabptr b + PDX 3 (0 + x) \<notin> {tabptr b + 511, tabptr b + 447}" if "x < PDSIZE 3" for x using that by (simp add: PDX_def)
  qed (use top b in auto)
  moreover have "trans_to (set (p2 # ps2)) 3 (tabptr b) (unat VM_KERNLO) (\<lambda>x. if x < k * PDSIZE 2 then kern_map 0 x else None) (PDSIZE 3) s4"
    using tr(2) b34
  proof (rule trans_to_built)
    show "tabptr b + PDX 3 (unat VM_KERNLO + x) \<notin> {tabptr b + 447}" if "x < PDSIZE 3" for x
      using PDX_run(1) [OF boot_constants(6), of 0 x] that boot_constants(5) by (simp add: NPTENTRIES_def)
  qed (use top b in auto)
  moreover have "phys s4 (tabptr b + i) = PTE_ZERO s" if "0 < i \<and> i < 256" for i
  proof -
    have "i < NPTENTRIES" using that by (simp add: NPTENTRIES_def)
    moreover have "built (set (p1 # ps1 @ p2 # ps2)) {tabptr b, tabptr b + 511, tabptr b + 447} s1 s4"
      by (rule built_trans [OF bu(1) b24]) auto
    ultimately show ?thesis using that b by (simp add: built_def s1_def)
  qed
  ultimately show ?thesis using init unfolding s4_def by blast
qed

text \<open>C21: The page map built at boot is the kernel's. If there are enough free pages and the end of memory, rounded up to the largest
  page size, is a multiple \<open>k\<close> of 1 GB (up to 512), then \<open>pmap_init\<close> succeeds; addresses below \<open>VM_USERLO\<close> translate
  to themselves, \<open>VM_KERNLO\<close> plus a physical address to that address, both writable and closed to user mode; and no user address
  translates to anything.\<close>

theorem pmap_init_maps_kernel:
  assumes wf: "mem_wf s fl" and room: "2 + tables_for gbpages (k + 1) \<le> length fl" and b: "pmap_bootpmap s \<notin> set fl"
    and k: "0 < k" "k \<le> NPTENTRIES" "ROUNDUP mem_max (PDSIZE (if gbpages then 2 else 1)) = k * PDSIZE 2" and z: "pmap_zero s < 2 ^ 40"
  shows "\<exists>s'. pmap_init gbpages mem_max s = Some s' \<and>
    (\<forall>va < VM_USERLO. translate NPTLVLS (tabptr (pmap_bootpmap s')) va s' = Some (va, False, True)) \<and>
    (\<forall>va. VM_USERLO \<le> va \<and> va < VM_USERHI \<longrightarrow> translate NPTLVLS (tabptr (pmap_bootpmap s')) va s' = None) \<and>
    (\<forall>pa < k * PDSIZE 2. translate NPTLVLS (tabptr (pmap_bootpmap s')) (unat VM_KERNLO + pa) s' = Some (pa, False, True))"
proof -
  let ?b = "pmap_bootpmap s"
  obtain p1 ps1 p2 ps2 fl' where fl: "fl = p1 # ps1 @ p2 # ps2 @ fl'"
    "gb_tables (if gbpages then 2 else 1) 1 ps1" "gb_tables (if gbpages then 2 else 1) k ps2" using room by (rule gb_pages)
  obtain s' where s': "pmap_init gbpages mem_max s = Some s'" "pmap_bootpmap s' = ?b"
    "trans_to (set (p1 # ps1)) 3 (tabptr ?b) 0 (\<lambda>x. if x < VM_USERLO then kern_map 0 x else None) (PDSIZE 3) s'"
    "trans_to (set (p2 # ps2)) 3 (tabptr ?b) (unat VM_KERNLO) (\<lambda>x. if x < k * PDSIZE 2 then kern_map 0 x else None) (PDSIZE 3) s'"
    "\<And>i. 0 < i \<Longrightarrow> i < 256 \<Longrightarrow> phys s' (tabptr ?b + i) = PTE_ZERO s"
    using boot_map_entries [OF wf [unfolded fl(1)] fl(2,3) refl b [unfolded fl(1)] k z] by blast
  have le: "VM_USERLO \<le> PDSIZE 3" "k * PDSIZE 2 \<le> PDSIZE 3"
    using k(2) PDSIZE_Suc [of 2] by (simp_all add: VM_USERLO_def PDSIZE_def PDSHIFT_def)
  have "translate 3 (tabptr ?b) va s' = None" if "VM_USERLO \<le> va" "va < VM_USERHI" for va
  proof (cases "va < PDSIZE 3")
    case True
    then show ?thesis using s'(3) that by (simp add: trans_to_def)
  next
    case False
    then have "\<not> has (phys s' (tabptr ?b + PDX (Suc 2) va)) PTE_P" using s'(5) PDX_3_user [of va] that has_PTE_ZERO [OF z] by simp
    from translate_none(1) [OF this] show ?thesis by simp
  qed
  then show ?thesis using s'(1-4) le by (auto simp: trans_to_def kern_map_def boot_constants(1) simp del: mem_Collect_eq)
qed

lemma pmap_init_maps_kernel_witness:
  "\<exists>s'. pmap_init True 0x10000 demo_walk = Some s' \<and> translate NPTLVLS (tabptr (pmap_bootpmap s')) 0x1000 s' = Some (0x1000, False, True) \<and>
    translate NPTLVLS (tabptr (pmap_bootpmap s')) (unat VM_KERNLO + 0x5000) s' = Some (0x5000, False, True)"
proof -
  have wf: "mem_wf demo_walk [4, 5, 6]" using demo_walk_ok by (simp add: walk_ok_def)
  have "ROUNDUP 0x10000 (PDSIZE (if True then 2 else 1)) = 1 * PDSIZE 2"
    by (simp add: ROUNDUP_def ROUNDDOWN_def PDSIZE_def PDSHIFT_def)
  moreover have "pmap_bootpmap demo_walk \<notin> set [4, 5, 6]" "pmap_zero demo_walk < 2 ^ 40" by (simp_all add: demo_walk_def)
  ultimately obtain s' where "pmap_init True 0x10000 demo_walk = Some s'"
    "\<forall>va < VM_USERLO. translate NPTLVLS (tabptr (pmap_bootpmap s')) va s' = Some (va, False, True)"
    "\<forall>pa < 1 * PDSIZE 2. translate NPTLVLS (tabptr (pmap_bootpmap s')) (unat VM_KERNLO + pa) s' = Some (pa, False, True)"
    using pmap_init_maps_kernel [OF wf, of True 1 "0x10000"] by (auto simp: tables_for_def NPTENTRIES_def)
  moreover have "(0x1000 :: nat) < VM_USERLO" "(0x5000 :: nat) < 1 * PDSIZE 2" by (simp_all add: VM_USERLO_def PDSIZE_def PDSHIFT_def)
  ultimately show ?thesis by blast
qed

subsection \<open>An end of memory inside a gigabyte\<close>

text \<open>What any call writes: the entries of its range, and pages it takes from the free list.\<close>

definition grows :: "nat list \<Rightarrow> nat set \<Rightarrow> 'a vmem_scheme \<Rightarrow> nat list \<Rightarrow> 'a vmem_scheme \<Rightarrow> bool" where
  "grows fl W s fl' s' \<longleftrightarrow> mem_wf s' fl' \<and> (\<exists>ps. fl = ps @ fl' \<and> built (set ps) W s s')"

lemma grows_trans:
  assumes "grows fl W s fl1 s1" and "grows fl1 V s1 fl2 s2" and "W \<subseteq> X" and "V \<subseteq> X"
  shows "grows fl X s fl2 s2"
proof -
  obtain ps qs where ps: "fl = ps @ fl1" "built (set ps) W s s1" and qs: "fl1 = qs @ fl2" "built (set qs) V s1 s2" "mem_wf s2 fl2"
    using assms(1,2) by (auto simp: grows_def)
  have "built (set (ps @ qs)) X s s2" by (rule built_trans [OF ps(2) qs(2)]) (use assms(3,4) in auto)
  then show ?thesis unfolding grows_def using ps(1) qs(1,3) by (metis append.assoc)
qed

lemma grows_wr: "mem_wf s fl \<Longrightarrow> a \<in> W \<Longrightarrow> grows fl W s fl (wr a w s)"
  by (simp add: grows_def) (auto simp: built_def wr_def)

lemma grows_sub:
  assumes "mem_wf s (pi # fl)" and "grows fl (W \<union> {x. x div NPTENTRIES = pi}) (snd (mem_alloc s)) fl' s'"
  shows "grows (pi # fl) W s fl' s'"
proof -
  obtain ps where "fl = ps @ fl'" "built (set ps) (W \<union> {x. x div NPTENTRIES = pi}) (snd (mem_alloc s)) s'" "mem_wf s' fl'"
    using assms(2) by (auto simp: grows_def)
  moreover from this(2) have "built (set (pi # ps)) W s s'" by (rule built_trans [OF built_steps(1)]) auto
  ultimately show ?thesis unfolding grows_def by (metis append_Cons)
qed

lemma grows_mono: "grows fl W s fl' s' \<Longrightarrow> W \<subseteq> X \<Longrightarrow> grows fl X s fl' s'"
  by (auto simp: grows_def built_def)

lemma boot_loop_sub:
  assumes "boot_loop maxl table vaddr paddr vhi perm level s = Some s'" and "mem_wf s fl" and "\<not> vhi \<le> vaddr"
    and "\<not> (PDOFF level vaddr = 0 \<and> PDOFF level paddr = 0 \<and> PDSIZE level \<le> vhi - vaddr \<and> (level \<le> maxl \<or> perm = ERASE))"
  obtains pi fl1 s1 s2 s3 s4 where "fl = pi # fl1" "level \<noteq> 0" "(Some pi, s1) = mem_alloc s" "mem_wf s1 fl1"
    "pmap_init_bootpmap maxl (tabptr pi) (PDADDR level vaddr) 0 (vaddr - PDADDR level vaddr) ERASE (level - 1) s1 = Some s2"
    "pmap_init_bootpmap maxl (tabptr pi) vaddr paddr (min (PDSIZE level - PDOFF level vaddr) (vhi - vaddr)) perm (level - 1) s2 = Some s3"
    "pmap_init_bootpmap maxl (tabptr pi) (vaddr + min (PDSIZE level - PDOFF level vaddr) (vhi - vaddr)) 0
       (PDSIZE level - PDOFF level vaddr - min (PDSIZE level - PDOFF level vaddr) (vhi - vaddr)) ERASE (level - 1) s3 = Some s4"
    "boot_loop maxl table (vaddr + min (PDSIZE level - PDOFF level vaddr) (vhi - vaddr)) (paddr + min (PDSIZE level - PDOFF level vaddr) (vhi - vaddr))
       vhi perm level (wr (table + PDX level vaddr) (mem_pi2phys pi OR dir_perm perm) s4) = Some s'"
proof (cases fl)
  case Nil
  then show ?thesis using assms mem_alloc_Nil [of s] by (subst (asm) boot_loop.simps) (simp add: Let_def split: if_splits)
next
  case (Cons pi fl1)
  obtain s1 where "mem_alloc s = (Some pi, s1)" "mem_wf s1 fl1" using mem_alloc_Cons assms(2) Cons by blast
  then show ?thesis using assms Cons
    by (subst (asm) boot_loop.simps) (simp only: if_False Let_def, auto simp: bind_eq_Some_conv split: if_splits intro: that)
qed

lemma boot_frame:
  "pmap_init_bootpmap maxl t v p sz perm level s = Some s' \<Longrightarrow> mem_wf s fl \<Longrightarrow>
    \<exists>fl'. grows fl {t + PDX level a | a. page_down v \<le> a \<and> a < page_down v + page_down sz} s fl' s'"
  "boot_loop maxl t v p vhi perm level s = Some s' \<Longrightarrow> mem_wf s fl \<Longrightarrow> \<exists>fl'. grows fl {t + PDX level a | a. v \<le> a \<and> a < vhi} s fl' s'"
proof (induction maxl t v p sz perm level s and maxl t v p vhi perm level s arbitrary: s' fl and s' fl
    rule: pmap_init_bootpmap_boot_loop.induct)
  case (1 maxl table vaddr paddr sz perm level s)
  then show ?case by (simp add: pmap_init_bootpmap.simps)
next
  case (2 maxl table vaddr paddr vhi perm level s)
  let ?W = "\<lambda>v. {table + PDX level a | a. v \<le> a \<and> a < vhi}" and ?sz = "min (PDSIZE level - PDOFF level vaddr) (vhi - vaddr)"
  consider (over) "vhi \<le> vaddr"
    | (whole) "\<not> vhi \<le> vaddr" "PDOFF level vaddr = 0 \<and> PDOFF level paddr = 0 \<and> PDSIZE level \<le> vhi - vaddr \<and> (level \<le> maxl \<or> perm = ERASE)"
    | (sub) "\<not> vhi \<le> vaddr" "\<not> (PDOFF level vaddr = 0 \<and> PDOFF level paddr = 0 \<and> PDSIZE level \<le> vhi - vaddr \<and> (level \<le> maxl \<or> perm = ERASE))"
    by blast
  then show ?case
  proof cases
    case over
    then show ?thesis using 2(6,7) by (auto simp: boot_loop.simps grows_def built_def intro: exI [of _ fl])
  next
    case whole
    let ?s = "wr (table + PDX level vaddr) (boot_entry perm level paddr s) s"
    have "boot_loop maxl table (vaddr + PDSIZE level) (paddr + PDSIZE level) vhi perm level ?s = Some s'"
      using 2(6) whole by (subst (asm) boot_loop.simps) simp
    then obtain fl' where g1: "grows fl (?W (vaddr + PDSIZE level)) ?s fl' s'" using 2(1) [OF whole] 2(7) by auto
    have g0: "grows fl (?W vaddr) s fl ?s" by (rule grows_wr [OF 2(7)]) (use whole(1) in auto)
    have "?W (vaddr + PDSIZE level) \<subseteq> ?W vaddr" by auto
    then show ?thesis using grows_trans [OF g0 g1 subset_refl] by blast
  next
    case sub
    from boot_loop_sub [OF 2(6,7) sub] obtain pi fl1 s1 s2 s3 s4 where fl: "fl = pi # fl1" "level \<noteq> 0" "(Some pi, s1) = mem_alloc s" "mem_wf s1 fl1"
      and call: "pmap_init_bootpmap maxl (tabptr pi) (PDADDR level vaddr) 0 (vaddr - PDADDR level vaddr) ERASE (level - 1) s1 = Some s2"
        "pmap_init_bootpmap maxl (tabptr pi) vaddr paddr ?sz perm (level - 1) s2 = Some s3"
        "pmap_init_bootpmap maxl (tabptr pi) (vaddr + ?sz) 0 (PDSIZE level - PDOFF level vaddr - ?sz) ERASE (level - 1) s3 = Some s4"
        "boot_loop maxl table (vaddr + ?sz) (paddr + ?sz) vhi perm level (wr (table + PDX level vaddr) (mem_pi2phys pi OR dir_perm perm) s4) = Some s'" .
    let ?s5 = "wr (table + PDX level vaddr) (mem_pi2phys pi OR dir_perm perm) s4" and ?X = "?W vaddr \<union> {x. x div NPTENTRIES = pi}"
    have G: "grows f ?X t f' t' \<and> mem_wf t' f'" if "grows f {tabptr pi + PDX (level - 1) a | a. P a} t f' t'" for P f t f' t'
    proof
      show "grows f ?X t f' t'" by (rule grows_mono [OF that]) auto
    qed (use that in \<open>simp add: grows_def\<close>)
    obtain fl2 where g1: "grows fl1 ?X s1 fl2 s2" "mem_wf s2 fl2"
      using 2(2) [OF sub fl(2) refl fl(3) refl call(1) fl(4)] by (elim exE) (drule G, blast)
    obtain fl3 where g2: "grows fl2 ?X s2 fl3 s3" "mem_wf s3 fl3"
      using 2(3) [OF sub fl(2) refl fl(3) refl call(1,2) g1(2)] by (elim exE) (drule G, blast)
    obtain fl4 where g3: "grows fl3 ?X s3 fl4 s4" "mem_wf s4 fl4"
      using 2(4) [OF sub fl(2) refl fl(3) refl call(1-3) g2(2)] by (elim exE) (drule G, blast)
    have g4: "grows fl4 ?X s4 fl4 ?s5" by (rule grows_wr [OF g3(2)]) (use sub(1) in auto)
    obtain fl5 where g5: "grows fl4 (?W (vaddr + ?sz)) ?s5 fl5 s'"
      using 2(5) [OF sub fl(2) refl fl(3) refl call] g3(2) by auto
    have g6: "grows fl4 ?X ?s5 fl5 s'" using g5 by (rule grows_mono) auto
    note t = grows_trans [OF _ _ subset_refl subset_refl]
    have "grows fl1 ?X s1 fl5 s'" by (rule t [OF t [OF t [OF t [OF g1(1) g2(1)] g3(1)] g4] g6])
    moreover have "snd (mem_alloc s) = s1" using fl(3) by (metis snd_conv)
    ultimately have "grows (pi # fl1) (?W vaddr) s fl5 s'" using 2(7) unfolding fl(1) by (intro grows_sub) simp_all
    then show ?thesis using fl(1) by blast
  qed
qed

lemma PDX_2_above:
  assumes "PDOFF 3 v = 0" and "v + PDSIZE 2 \<le> a" and "a < v + PDSIZE 3"
  shows "PDX 2 a \<noteq> 0"
proof -
  have "a - v < NPTENTRIES * PDSIZE 2" using assms(2,3) PDSIZE_Suc [of 2] by (simp add: numeral_3_eq_3)
  then obtain j r where j: "a - v = j * PDSIZE 2 + r" "j < NPTENTRIES" "r < PDSIZE 2" by (rule split_run)
  have v2: "PDX 2 v = 0" "PDOFF 2 v = 0" using PDX_of_aligned [of 2 v] assms(1) by simp_all
  have "a = v + (j * PDSIZE 2 + r)" using j(1) assms(2) by simp
  then have "PDX 2 a = j" using PDX_run(1) [OF v2(2), of j r] j v2(1) by simp
  moreover have "j \<noteq> 0" using j assms(2) by (intro notI) simp
  ultimately show ?thesis by simp
qed

text \<open>An erasure that begins inside the range of an entry of level 2 puts a table of unmapped pages there.\<close>

lemma erase_table:
  fixes s :: "'a vmem_scheme" and r :: nat
  defines "n \<equiv> r * PDSIZE 1"
  assumes v: "PDOFF 2 v = 0" and r: "0 < r" "r < NPTENTRIES"
    and call: "pmap_init_bootpmap 1 (tabptr q) v 0 n ERASE 1 s1 = Some s2"
      "pmap_init_bootpmap 1 (tabptr q) (v + n) 0 (PDSIZE 2 - n) ERASE 1 s2 = Some s3"
  shows "mem_wf s3 fl = mem_wf s1 fl \<and> (\<forall>i < NPTENTRIES. phys s3 (tabptr q + i) = PTE_ZERO s1)"
proof -
  have P: "PDSIZE 2 = NPTENTRIES * PDSIZE 1" using PDSIZE_Suc [of 1] by (simp add: numeral_2_eq_2)
  have n: "PDSIZE 2 - n = (NPTENTRIES - r) * PDSIZE 1" by (simp add: n_def P diff_mult_distrib)
  have v1: "PDX 1 v = 0" "PDOFF 1 v = 0" using PDX_of_aligned [of 1 v] v by (simp_all add: numeral_2_eq_2)
  have vn: "PDX 1 (v + n) = r" "PDOFF 1 (v + n) = 0" using PDX_run [OF v1(2), of r 0] r v1 by (simp_all add: n_def)
  have al: "aligned v" "aligned n" "aligned (PDSIZE 2 - n)" using PDOFF_aligned [OF v] by (simp_all add: n_def)
  have s2: "s2 = set_run (tabptr q) r (\<lambda>_. PTE_ZERO s1) s1"
    using boot_run [of 1 1 ERASE v 0 r "tabptr q" s1] call(1) al v1 r by (simp add: pmap_init_bootpmap.simps boot_entry_def PDOFF_def n_def)
  have s3: "s3 = set_run (tabptr q + r) (NPTENTRIES - r) (\<lambda>_. PTE_ZERO s1) s2"
    using boot_run [of 1 1 ERASE "v + n" 0 "NPTENTRIES - r" "tabptr q" s2] call(2) al vn r n s2
    by (simp add: pmap_init_bootpmap.simps boot_entry_def PDOFF_def)
  show ?thesis using r by (auto simp: s3 s2)
qed

lemma erase_inside_entry:
  fixes s :: "'a vmem_scheme" and r :: nat
  defines "n \<equiv> r * PDSIZE 1"
  assumes ret: "boot_loop 1 (tabptr c) (v + n) 0 (v + PDSIZE 3) ERASE 2 s = Some s'" and wf: "mem_wf s fl" and c: "c \<notin> set fl"
    and v: "PDOFF 3 v = 0" and r: "0 < r" "r < NPTENTRIES"
  shows "\<exists>q \<in> set fl. phys s' (tabptr c) = mem_pi2phys q OR 5 \<and> (\<forall>i < NPTENTRIES. phys s' (tabptr q + i) = PTE_ZERO s)"
proof -
  have P: "PDSIZE 2 = NPTENTRIES * PDSIZE 1" "PDSIZE 2 \<le> PDSIZE 3" by (simp_all add: PDSIZE_def PDSHIFT_def NPTENTRIES_def)
  have n: "0 < n" "n < PDSIZE 2" using r by (simp_all add: n_def P(1))
  have v2: "PDX 2 v = 0" "PDOFF 2 v = 0" using PDX_of_aligned [of 2 v] v by simp_all
  have vn: "PDX 2 (v + n) = 0" "PDOFF 2 (v + n) = n" using PDX_run [OF v2(2), of 0 n] n v2(1) by (simp_all add: NPTENTRIES_def)
  have d: "PDADDR 2 (v + n) = v" using vn(2) by (simp add: PDADDR_def PDOFF_def)
  have m: "min (PDSIZE 2 - n) (v + PDSIZE 3 - (v + n)) = PDSIZE 2 - n" using P(2) by simp
  have no: "\<not> v + PDSIZE 3 \<le> v + n" "\<not> (PDOFF 2 (v + n) = 0 \<and> PDOFF 2 0 = 0 \<and> PDSIZE 2 \<le> v + PDSIZE 3 - (v + n) \<and> (2 \<le> (1 :: nat) \<or> ERASE = ERASE))"
    using n P(2) vn(2) by simp_all
  from boot_loop_sub [OF ret wf no, unfolded vn(2) d m] obtain q fl1 s1 s2 s3 s4 where fl: "fl = q # fl1" "2 \<noteq> (0 :: nat)" "(Some q, s1) = mem_alloc s" "mem_wf s1 fl1"
    and call: "pmap_init_bootpmap 1 (tabptr q) v 0 (v + n - v) ERASE (2 - 1) s1 = Some s2"
      "pmap_init_bootpmap 1 (tabptr q) (v + n) 0 (PDSIZE 2 - n) ERASE (2 - 1) s2 = Some s3"
      "pmap_init_bootpmap 1 (tabptr q) (v + n + (PDSIZE 2 - n)) 0 (PDSIZE 2 - n - (PDSIZE 2 - n)) ERASE (2 - 1) s3 = Some s4"
      "boot_loop 1 (tabptr c) (v + n + (PDSIZE 2 - n)) (0 + (PDSIZE 2 - n)) (v + PDSIZE 3) ERASE 2
         (wr (tabptr c + PDX 2 (v + n)) (mem_pi2phys q OR dir_perm ERASE) s4) = Some s'" .
  let ?s5 = "wr (tabptr c) (mem_pi2phys q OR 5) s3" and ?W = "{tabptr c + PDX 2 a | a. v + PDSIZE 2 \<le> a \<and> a < v + PDSIZE 3}"
  have "snd (mem_alloc s) = s1" using fl(3) by (metis snd_conv)
  then have z: "PTE_ZERO s1 = PTE_ZERO s" using mem_alloc_simps(2) [of s] by (simp add: PTE_ZERO_def)
  have t: "mem_wf s3 fl1 = mem_wf s1 fl1 \<and> (\<forall>i < NPTENTRIES. phys s3 (tabptr q + i) = PTE_ZERO s1)"
    by (rule erase_table [OF v2(2) r]) (use call(1,2) in \<open>simp_all add: n_def\<close>)
  have "s4 = s3" using call(3) by (simp add: pmap_init_bootpmap.simps page_down_def boot_loop.simps)
  moreover have "dir_perm ERASE = 5" by (simp add: dir_perm_def pte_flag_defs)
  moreover have "v + n + (PDSIZE 2 - n) = v + PDSIZE 2" using n(2) by simp
  ultimately have "boot_loop 1 (tabptr c) (v + PDSIZE 2) (0 + (PDSIZE 2 - n)) (v + PDSIZE 3) ERASE 2 ?s5 = Some s'" using call(4) vn(1) by simp
  moreover have "mem_wf ?s5 fl1" using t fl(4) by simp
  ultimately obtain fl' where "grows fl1 ?W ?s5 fl' s'" using boot_frame(2) by blast
  then obtain ps where ps: "fl1 = ps @ fl'" "\<And>x. x \<notin> ?W \<Longrightarrow> x div NPTENTRIES \<notin> set ps \<Longrightarrow> phys s' x = phys ?s5 x"
    unfolding grows_def built_def by blast
  have out: "c \<notin> set ps" "q \<notin> set ps" "c \<noteq> q" using c mem_wf_distinct [OF wf] fl(1) ps(1) by auto
  have "tabptr c \<notin> ?W" by (auto dest: PDX_2_above [OF v])
  then have "phys s' (tabptr c) = mem_pi2phys q OR 5" using ps(2) [of "tabptr c"] out(1) tabptr_div [of 0 c] by (simp add: wr_def NPTENTRIES_def)
  moreover have "phys s' (tabptr q + i) = PTE_ZERO s" if "i < NPTENTRIES" for i
  proof -
    have "tabptr q + i \<noteq> tabptr c + j" if "j < NPTENTRIES" for j
      using out(3) that \<open>i < NPTENTRIES\<close> by (intro tabptr_ne) auto
    then have "tabptr q + i \<notin> ?W" "tabptr q + i \<noteq> tabptr c" using PDX_less by (blast, fastforce simp: NPTENTRIES_def)
    then show ?thesis using ps(2) [of "tabptr q + i"] out(2) that t z by (simp add: wr_def)
  qed
  ultimately show ?thesis using fl(1) by auto
qed

text \<open>Without pages of 1 GB, a range that ends inside a gigabyte loses all of that gigabyte: the erasure of what follows the range
  replaces the table that maps its last part. Here the range is the first part of one gigabyte.\<close>

lemma partial_gigabyte_unmapped:
  fixes s :: "'a vmem_scheme" and r :: nat
  defines "n \<equiv> r * PDSIZE 1"
  assumes ret: "pmap_init_bootpmap 1 (tabptr b) v 0 n KERN_RW 3 s = Some s'" and wf: "mem_wf s fl" and b: "b \<notin> set fl"
    and v: "PDOFF 3 v = 0" and r: "0 < r" "r < NPTENTRIES" and z: "pmap_zero s < 2 ^ 40" and x: "x < PDSIZE 2"
  shows "translate 3 (tabptr b) (v + x) s' = None"
proof -
  have n: "0 < n" "n < PDSIZE 3" "min (PDSIZE 3) (v + n - v) = n" using r by (simp_all add: n_def PDSIZE_def PDSHIFT_def NPTENTRIES_def)
  have al: "aligned v" "aligned n" using PDOFF_aligned [OF v] by (simp_all add: n_def)
  have ret': "boot_loop 1 (tabptr b) v 0 (v + n) KERN_RW 3 s = Some s'" using ret al by (simp add: pmap_init_bootpmap.simps)
  obtain c fl1 where fl: "fl = c # fl1"
    using boot_loop_sub [OF ret' wf] n(1,2) by (metis add_diff_cancel_left' leD less_add_same_cancel1)
  let ?s1 = "snd (mem_alloc s)"
  have "boot_loop 1 (tabptr b) v 0 (v + n) KERN_RW 3 s = do {
      s3 \<leftarrow> boot_loop 1 (tabptr c) v 0 (v + n) KERN_RW 2 ?s1;
      s4 \<leftarrow> boot_loop 1 (tabptr c) (v + n) 0 (v + PDSIZE 3) ERASE 2 s3;
      boot_loop 1 (tabptr b) (v + n) (0 + n) (v + n) KERN_RW 3 (wr (tabptr b + PDX 3 v) (mem_pi2phys c OR dir_perm KERN_RW) s4)
    }"
    using boot_sub [OF wf [unfolded fl], of 2 v "v + n" 0 1 KERN_RW n "tabptr b"] v n al by simp
  then obtain s3 s4 where s3: "boot_loop 1 (tabptr c) v 0 (v + n) KERN_RW 2 ?s1 = Some s3"
    and s4: "boot_loop 1 (tabptr c) (v + n) 0 (v + PDSIZE 3) ERASE 2 s3 = Some s4"
    and s': "s' = wr (tabptr b + PDX 3 v) (mem_pi2phys c OR 7) s4"
    using ret' by (auto simp: bind_eq_Some_conv boot_perms boot_loop.simps [of _ _ "_ + _" _ "_ + _"])
  have wf1: "mem_wf ?s1 fl1" using mem_alloc_Cons wf fl by (metis snd_conv)
  obtain fl3 ps where g: "mem_wf s3 fl3" "fl1 = ps @ fl3" "pmap_zero s3 = pmap_zero s"
    using boot_frame(2) [OF s3 wf1] by (auto simp: grows_def built_def mem_alloc_simps)
  have c: "c \<notin> set fl3" "b \<noteq> c" "b \<notin> set fl3" using mem_wf_distinct [OF wf] fl g(2) b by auto
  obtain q where q: "q \<in> set fl3" "phys s4 (tabptr c) = mem_pi2phys q OR 5" "\<And>i. i < NPTENTRIES \<Longrightarrow> phys s4 (tabptr q + i) = PTE_ZERO s3"
    using erase_inside_entry [OF s4 [unfolded n_def] g(1) c(1) v r] by blast
  have away: "phys s' (tabptr p + i) = phys s4 (tabptr p + i)" if "p \<noteq> b" "i < NPTENTRIES" for p i
    using tabptr_ne [OF that PDX_less] by (simp add: s' wr_def)
  have v2: "PDX 2 v = 0" "PDOFF 2 v = 0" using PDX_of_aligned [of 2 v] v by simp_all
  have "x < PDSIZE 3" using x by (simp add: PDSIZE_def PDSHIFT_def)
  then have i: "PDX 3 (v + x) = PDX 3 v" "PDX 2 (v + x) = 0"
    using PDX_run(1) [OF v, of 0 x] PDX_run(1) [OF v2(2), of 0 x] x v2(1) PDX_less [of 2 v] by simp_all
  have "translate 3 (tabptr b) (v + x) s' = translate 2 (tabptr c) (v + x) s'"
    using translate_table(1) [of s' "tabptr b" 2 "v + x" c] i(1) wf_page [OF wf] fl by (simp add: s' wr_def del: translate.simps)
  also have "\<dots> = None"
  proof -
    have "q < 2 ^ 40" "q \<noteq> b" using wf_page [OF g(1) q(1)] c(3) q(1) by auto
    moreover from this(1) have "\<not> has (mem_pi2phys q OR 5) PTE_PS" by (simp add: has_pi2phys) (simp add: has_def PTE_PS_def)
    moreover have "translate (Suc 0) (tabptr q) (v + x) s' = None"
      by (rule translate_none(1)) (use away [OF \<open>q \<noteq> b\<close> PDX_less] q(3) has_PTE_ZERO [of s3] g(3) z in simp)
    ultimately show ?thesis
      using away [OF c(2) [symmetric], of 0] i(2) q(2) by (simp add: numeral_2_eq_2 Let_def pte_page_or_flags PTE_ADDR_def NPTENTRIES_def del: translate.simps(1))
  qed
  finally show ?thesis .
qed

end
