(* ===== verification/Spinlock.thy ===== *)
theory Spinlock
  imports Prelude
begin

text \<open>
  Spinlocks (\<open>kern/spinlock.c\<close>), at the granularity of single memory accesses: a lock word that
  processors exchange atomically, and the owner field that the debugging checks read. A
  processor's position inside \<open>spinlock_acquire\<close> and \<open>spinlock_release\<close> is its program counter;
  the step relation interleaves any number of processors.

  The recorded call stack (\<open>eips\<close>) is not modelled: only its first word is ever cleared, and it
  is only read by the self test.
\<close>

record spinlock =
  lk_file :: string
  lk_line :: int
  lk_locked :: u32
  lk_cpu :: "nat option"

definition spinlock_init :: "string \<Rightarrow> int \<Rightarrow> spinlock \<Rightarrow> spinlock" where
  "spinlock_init file line lk = lk\<lparr>lk_file := file, lk_line := line, lk_locked := 0, lk_cpu := None\<rparr>"

definition spinlock_holding :: "nat \<Rightarrow> spinlock \<Rightarrow> bool" where
  "spinlock_holding c lk \<longleftrightarrow> lk_locked lk \<noteq> 0 \<and> lk_cpu lk = Some c"

text \<open>The atomic exchange: the old value and the lock with the new one.\<close>

definition xchg :: "u32 \<Rightarrow> spinlock \<Rightarrow> u32 \<times> spinlock" where
  "xchg v lk = (lk_locked lk, lk\<lparr>lk_locked := v\<rparr>)"

text \<open>Program counters: outside; after reading a non-zero \<open>locked\<close> in the check for recursion; in
  the spin loop; after the successful exchange; in the critical section; after reading
  \<open>locked\<close> in the check of release; after clearing the owner; stopped in a panic.\<close>

datatype lockpc = Outside | AcqCheck | Spinning | Acquired | Critical | RelCheck | Releasing | Panicked

record lockst =
  ls_lock :: spinlock
  ls_pc :: "nat \<Rightarrow> lockpc"

definition goto_pc :: "nat \<Rightarrow> lockpc \<Rightarrow> lockst \<Rightarrow> lockst" where
  "goto_pc c l s = s\<lparr>ls_pc := (ls_pc s)(c := l)\<rparr>"

text \<open>One memory access of \<open>spinlock_acquire\<close> by processor \<open>c\<close>, by its program counter.\<close>

definition spinlock_acquire_step :: "nat \<Rightarrow> lockst \<Rightarrow> lockst" where
  "spinlock_acquire_step c s =
     (case ls_pc s c of
        Outside \<Rightarrow> goto_pc c (if lk_locked (ls_lock s) \<noteq> 0 then AcqCheck else Spinning) s
      | AcqCheck \<Rightarrow> goto_pc c (if lk_cpu (ls_lock s) = Some c then Panicked else Spinning) s
      | Spinning \<Rightarrow>
          (let (old, lk) = xchg 1 (ls_lock s)
           in goto_pc c (if old \<noteq> 0 then Spinning else Acquired) (s\<lparr>ls_lock := lk\<rparr>))
      | Acquired \<Rightarrow> goto_pc c Critical (s\<lparr>ls_lock := (ls_lock s)\<lparr>lk_cpu := Some c\<rparr>\<rparr>)
      | _ \<Rightarrow> s)"

definition spinlock_release_step :: "nat \<Rightarrow> lockst \<Rightarrow> lockst" where
  "spinlock_release_step c s =
     (case ls_pc s c of
        Critical \<Rightarrow> goto_pc c (if lk_locked (ls_lock s) \<noteq> 0 then RelCheck else Panicked) s
      | RelCheck \<Rightarrow>
          (if lk_cpu (ls_lock s) = Some c
           then goto_pc c Releasing (s\<lparr>ls_lock := (ls_lock s)\<lparr>lk_cpu := None\<rparr>\<rparr>)
           else goto_pc c Panicked s)
      | Releasing \<Rightarrow> goto_pc c Outside (s\<lparr>ls_lock := snd (xchg 0 (ls_lock s))\<rparr>)
      | _ \<Rightarrow> s)"

inductive lock_step :: "lockst \<Rightarrow> lockst \<Rightarrow> bool" where
  acquire: "lock_step s (spinlock_acquire_step c s)"
| release: "lock_step s (spinlock_release_step c s)"

inductive lock_reachable :: "lockst \<Rightarrow> bool" where
  init: "lock_reachable \<lparr>ls_lock = spinlock_init file line lk, ls_pc = (\<lambda>_. Outside)\<rparr>"
| step: "lock_reachable s \<Longrightarrow> lock_step s s' \<Longrightarrow> lock_reachable s'"

inductive_cases lock_stepE: "lock_step s s'"

subsection \<open>Ownership\<close>

definition owning :: "lockpc \<Rightarrow> bool" where
  "owning l \<longleftrightarrow> l \<in> {Acquired, Critical, RelCheck, Releasing}"

text \<open>The invariant: the lock word is set exactly when some processor owns the lock, owners are
  unique, the owner field names the owner while it is inside the critical section and is empty
  otherwise, and nobody has panicked.\<close>

definition lock_inv :: "lockst \<Rightarrow> bool" where
  "lock_inv s \<longleftrightarrow>
     (lk_locked (ls_lock s) = 0 \<longleftrightarrow> (\<forall>c. \<not> owning (ls_pc s c))) \<and>
     (\<forall>c d. owning (ls_pc s c) \<and> owning (ls_pc s d) \<longrightarrow> c = d) \<and>
     (\<forall>c. lk_cpu (ls_lock s) = Some c \<longleftrightarrow> ls_pc s c \<in> {Critical, RelCheck}) \<and>
     (\<forall>c. ls_pc s c \<noteq> Panicked)"

lemma owning_simps [simp]:
  "\<not> owning Outside" "\<not> owning AcqCheck" "\<not> owning Spinning" "owning Acquired" "owning Critical"
  "owning RelCheck" "owning Releasing" "\<not> owning Panicked"
  by (simp_all add: owning_def)

lemma lock_inv_init: "lock_inv \<lparr>ls_lock = spinlock_init file line lk, ls_pc = (\<lambda>_. Outside)\<rparr>"
  by (simp add: lock_inv_def spinlock_init_def)

text \<open>A move of processor \<open>c\<close> that leaves the lock and \<open>c\<close>'s ownership alone.\<close>

lemma lock_inv_move:
  assumes "lock_inv s" and "\<not> owning (ls_pc s c)" and "l \<in> {Spinning, AcqCheck}"
  shows "lock_inv (goto_pc c l s)"
  using assms unfolding lock_inv_def goto_pc_def
  by (auto split: if_splits; metis owning_simps(1-5))

lemma lock_inv_acquire:
  assumes "lock_inv s"
  shows "lock_inv (spinlock_acquire_step c s)"
proof (cases "ls_pc s c")
  case AcqCheck
  then have "lk_cpu (ls_lock s) \<noteq> Some c" using assms by (auto simp: lock_inv_def)
  with AcqCheck assms show ?thesis by (simp add: spinlock_acquire_step_def lock_inv_move)
next
  case Spinning
  show ?thesis
  proof (cases "lk_locked (ls_lock s) = 0")
    case True
    with assms have no: "\<not> owning (ls_pc s d)" for d by (simp add: lock_inv_def)
    have nocpu: "lk_cpu (ls_lock s) \<noteq> Some d" for d
      using assms no [of d] by (auto simp: lock_inv_def owning_def)
    show ?thesis
      using assms Spinning True no nocpu
      by (auto simp: spinlock_acquire_step_def xchg_def goto_pc_def lock_inv_def)
  next
    case False
    with assms obtain d where d: "owning (ls_pc s d)" by (auto simp: lock_inv_def)
    with Spinning have "d \<noteq> c" by auto
    with assms Spinning False d show ?thesis
      by (fastforce simp: spinlock_acquire_step_def xchg_def goto_pc_def lock_inv_def)
  qed
next
  case Acquired
  with assms have uniq: "owning (ls_pc s d) \<longleftrightarrow> d = c" for d
    unfolding lock_inv_def by (metis owning_simps(4))
  have "ls_pc s d \<notin> {Critical, RelCheck}" for d
    using uniq [of d] Acquired by (cases "d = c") auto
  with assms Acquired uniq show ?thesis
    by (auto simp: spinlock_acquire_step_def goto_pc_def lock_inv_def)
qed (use assms in \<open>auto simp: spinlock_acquire_step_def lock_inv_move\<close>)

lemma lock_inv_release:
  assumes "lock_inv s"
  shows "lock_inv (spinlock_release_step c s)"
proof (cases "owning (ls_pc s c)")
  case True
  with assms have uniq: "owning (ls_pc s d) \<longleftrightarrow> d = c" for d
    unfolding lock_inv_def by metis
  have locked: "lk_locked (ls_lock s) \<noteq> 0" using assms True by (auto simp: lock_inv_def)
  have others: "ls_pc s d \<notin> {Critical, RelCheck}" if "d \<noteq> c" for d
    using uniq [of d] that by (auto simp: owning_def)
  have "lk_cpu (ls_lock s) = Some c \<longleftrightarrow> ls_pc s c \<in> {Critical, RelCheck}"
    using assms unfolding lock_inv_def by blast
  with assms True uniq others locked show ?thesis
    by (cases "ls_pc s c")
      (auto simp: spinlock_release_step_def goto_pc_def lock_inv_def xchg_def)
next
  case False
  then have "spinlock_release_step c s = s"
    by (cases "ls_pc s c") (simp_all add: spinlock_release_step_def)
  with assms show ?thesis by simp
qed

lemma lock_reachable_inv: "lock_reachable s \<Longrightarrow> lock_inv s"
  by (induction rule: lock_reachable.induct)
    (auto simp: lock_inv_init lock_inv_acquire lock_inv_release elim!: lock_stepE)

text \<open>C9: mutual exclusion, for any number of processors and every interleaving of their memory
  accesses: at most one processor is in the critical section, \<open>spinlock_holding\<close> is true for it
  and for no other, and the checks for recursive acquisition and for releasing a lock that is
  not held never fire in code that pairs acquire and release.\<close>

theorem spinlock_mutual_exclusion:
  assumes "lock_reachable s"
  shows "(ls_pc s c = Critical \<longrightarrow>
           (ls_pc s d = Critical \<longrightarrow> c = d) \<and> (spinlock_holding d (ls_lock s) \<longleftrightarrow> d = c)) \<and>
         ls_pc s c \<noteq> Panicked"
proof -
  have inv: "lock_inv s" using assms by (rule lock_reachable_inv)
  have "lk_locked (ls_lock s) \<noteq> 0 \<and> lk_cpu (ls_lock s) = Some c" if "ls_pc s c = Critical"
    using inv that owning_simps(5) unfolding lock_inv_def by (metis insertI1)
  with inv show ?thesis
    by (auto simp: spinlock_holding_def lock_inv_def)
qed

definition demo_lock :: lockst where
  "demo_lock = \<lparr>ls_lock = spinlock_init ''proc.c'' 54 \<lparr>lk_file = [], lk_line = 0, lk_locked = 7, lk_cpu = None\<rparr>,
     ls_pc = (\<lambda>_. Outside)\<rparr>"

text \<open>Processor 0 takes the lock while processor 1 spins.\<close>

definition demo_locked :: lockst where
  "demo_locked = spinlock_acquire_step 1 (spinlock_acquire_step 0 (spinlock_acquire_step 0
     (spinlock_acquire_step 1 (spinlock_acquire_step 0 demo_lock))))"

theorem spinlock_mutual_exclusion_witness:
  "ls_pc demo_locked 0 = Critical \<and> ls_pc demo_locked 1 = Spinning \<and>
   spinlock_holding 0 (ls_lock demo_locked) \<and> \<not> spinlock_holding 1 (ls_lock demo_locked)"
proof -
  have "lock_reachable demo_locked"
    unfolding demo_locked_def
    by (intro lock_reachable.step [OF _ lock_step.acquire]) (simp add: demo_lock_def lock_reachable.init)
  note m = spinlock_mutual_exclusion [OF this]
  have c: "ls_pc demo_locked 0 = Critical" "ls_pc demo_locked 1 = Spinning"
    by (simp_all add: demo_locked_def demo_lock_def spinlock_acquire_step_def goto_pc_def xchg_def spinlock_init_def)
  with m [of 0 0] m [of 0 1] show ?thesis by simp
qed

end
