(* ===== verification/Kernel.thy ===== *)
theory Kernel
  imports Merge
begin

text \<open>
  The state of the kernel (\<open>kern/proc.h\<close>, \<open>kern/cpu.h\<close>, \<open>inc/trap.h\<close>, \<open>inc/syscall.h\<close>, the globals
  of \<open>kern/proc.c\<close> and \<open>kern/net.c\<close>).

  A \<open>proc *\<close> is the number of the page that holds the proc structure; \<open>proc_null\<close>, which is not
  in a page of its own, is 0, a page that is never allocated. A \<open>cpu *\<close> is the processor's number.
  Proc structures are kept in \<open>procs\<close>, apart from the words of \<open>phys\<close>. \<open>cpu_idle\<close> is the one
  field with no counterpart in the code: it is set while a processor is inside \<open>proc_sched\<close>'s
  wait loop, where it executes on behalf of no process although its \<open>proc\<close> field is stale.
\<close>

subsection \<open>Processes\<close>

datatype proc_state = PROC_STOP | PROC_READY | PROC_RUN | PROC_WAIT | PROC_MIGR | PROC_AWAY | PROC_PULL

record trapframe =
  tf_gs :: u16  tf_fs :: u16  tf_es :: u16  tf_ds :: u16
  tf_r15 :: u64  tf_r14 :: u64  tf_r13 :: u64  tf_r12 :: u64
  tf_r11 :: u64  tf_r10 :: u64  tf_r9 :: u64  tf_r8 :: u64
  tf_rbp :: u64  tf_rdi :: u64  tf_rsi :: u64  tf_rdx :: u64
  tf_rcx :: u64  tf_rbx :: u64  tf_rax :: u64  tf_trapno :: u64
  tf_err :: u32  tf_rip :: u64  tf_cs :: u16  tf_rflags :: u64
  tf_rsp :: u64  tf_ss :: u16

text \<open>The FPU save area: the two words the kernel sets, and the rest as the processor wrote it.\<close>

record fxsave =
  fx_fcw :: u16
  fx_mxcsr :: u32
  fx_rest :: "u8 list"

record procstate =
  sv_tf :: trapframe
  sv_pff :: u32
  sv_icnt :: u32
  sv_imax :: u32
  sv_fx :: fxsave

record proc =
  p_parent :: "nat option"
  p_child :: "nat \<Rightarrow> nat option"
  p_state :: proc_state
  p_readynext :: "nat option"
  p_runcpu :: "nat option"
  p_waitchild :: "nat option"
  p_sv :: procstate
  p_pml4 :: nat
  p_rpml4 :: nat
  p_home :: u64
  p_rrpml4 :: u64
  p_migrdest :: u8
  p_migrnext :: "nat option"
  p_pullnext :: "nat option"
  p_pullva :: nat
  p_pullrr :: u64
  p_pullpg :: nat
  p_pglev :: u8
  p_arrived :: u8
  p_pmcmax :: int

definition zero_tf :: trapframe where
  "zero_tf = \<lparr>tf_gs = 0, tf_fs = 0, tf_es = 0, tf_ds = 0, tf_r15 = 0, tf_r14 = 0, tf_r13 = 0, tf_r12 = 0,
     tf_r11 = 0, tf_r10 = 0, tf_r9 = 0, tf_r8 = 0, tf_rbp = 0, tf_rdi = 0, tf_rsi = 0, tf_rdx = 0,
     tf_rcx = 0, tf_rbx = 0, tf_rax = 0, tf_trapno = 0, tf_err = 0, tf_rip = 0, tf_cs = 0, tf_rflags = 0,
     tf_rsp = 0, tf_ss = 0\<rparr>"

definition zero_fx :: fxsave where
  "zero_fx = \<lparr>fx_fcw = 0, fx_mxcsr = 0, fx_rest = replicate 506 0\<rparr>"

definition zero_sv :: procstate where
  "zero_sv = \<lparr>sv_tf = zero_tf, sv_pff = 0, sv_icnt = 0, sv_imax = 0, sv_fx = zero_fx\<rparr>"

text \<open>A proc structure of zero bytes, as \<open>memset\<close> leaves it and as \<open>proc_null\<close> is.\<close>

definition zero_proc :: proc where
  "zero_proc = \<lparr>p_parent = None, p_child = (\<lambda>_. None), p_state = PROC_STOP, p_readynext = None, p_runcpu = None,
     p_waitchild = None, p_sv = zero_sv, p_pml4 = 0, p_rpml4 = 0, p_home = 0, p_rrpml4 = 0, p_migrdest = 0,
     p_migrnext = None, p_pullnext = None, p_pullva = 0, p_pullrr = 0, p_pullpg = 0, p_pglev = 0,
     p_arrived = 0, p_pmcmax = 0\<rparr>"

definition proc_null :: nat where "proc_null = 0"

definition PFF_USEFPU :: u32 where "PFF_USEFPU = 0x0001"
definition PFF_NONDET :: u32 where "PFF_NONDET = 0x0100"
definition PFF_ICNT :: u32 where "PFF_ICNT = 0x0200"

definition FL_TF :: u64 where "FL_TF = 0x100"
definition FL_IF :: u64 where "FL_IF = 0x200"

text \<open>\<open>FL_CF|FL_PF|FL_AF|FL_ZF|FL_SF|FL_DF|FL_OF\<close>\<close>

definition FL_USER :: u64 where "FL_USER = 0x1 OR 0x4 OR 0x10 OR 0x40 OR 0x80 OR 0x400 OR 0x800"

definition SEG_USER_CS_64 :: u16 where "SEG_USER_CS_64 = 0x50"
definition SEG_USER_DS_64 :: u16 where "SEG_USER_DS_64 = 0x60"
definition SEG_USER_GS_64 :: u16 where "SEG_USER_GS_64 = 0x70"

definition T_GPFLT :: u64 where "T_GPFLT = 13"
definition T_PGFLT :: u64 where "T_PGFLT = 14"
definition T_SYSCALL :: u64 where "T_SYSCALL = 48"
definition T_ICNT :: u64 where "T_ICNT = 501"

subsection \<open>Network messages\<close>

text \<open>The messages of \<open>kern/net.h\<close>. A pull reply carries the padding that follows \<open>part\<close> in the
  64-bit layout of \<open>net_pullrphdr\<close>, then the payload.\<close>

datatype netmsg =
    NET_MIGRQ u32 u64 procstate
  | NET_MIGRP u32
  | NET_PULLRQ u64 u8 u8
  | NET_PULLRP u64 int "u8 list" "u8 list"

record frame =
  fr_dst :: "u8 list"
  fr_src :: "u8 list"
  fr_type :: u16
  fr_msg :: netmsg

subsection \<open>The kernel\<close>

record kst = vmem +
  procs :: "nat \<Rightarrow> proc"
  readyhead :: "nat option"
  readytail :: "nat option"
  cpu_proc :: "nat \<Rightarrow> nat option"
  cpu_idle :: "nat \<Rightarrow> bool"
  cpu_recover :: "nat \<Rightarrow> bool"
  cpu_recoverdata :: "nat \<Rightarrow> nat option"
  cpu_fx :: "nat \<Rightarrow> fxsave"
  cpu_ts :: "nat \<Rightarrow> bool"
  cpu_pmc :: "nat \<Rightarrow> int"
  cpu_limit :: int
  pmc_on :: bool
  pmc_safety :: int
  pmc_overshoot :: int
  net_node :: u8
  net_mac :: "u8 list"
  net_migrlist :: "nat option"
  net_pulllist :: "nat option"
  net_ticks :: int
  net_out :: "frame list"
  cons_out :: "string list"

abbreviation pstate :: "kst \<Rightarrow> nat \<Rightarrow> proc_state" where "pstate s p \<equiv> p_state (procs s p)"

definition upd_proc :: "nat \<Rightarrow> (proc \<Rightarrow> proc) \<Rightarrow> kst \<Rightarrow> kst" where
  "upd_proc p f s = s\<lparr>procs := (procs s)(p := f (procs s p))\<rparr>"

lemma upd_proc_simps [simp]:
  "procs (upd_proc p f s) = (procs s)(p := f (procs s p))"
  "readyhead (upd_proc p f s) = readyhead s" "readytail (upd_proc p f s) = readytail s"
  "cpu_proc (upd_proc p f s) = cpu_proc s" "cpu_idle (upd_proc p f s) = cpu_idle s"
  "net_node (upd_proc p f s) = net_node s" "cpu_limit (upd_proc p f s) = cpu_limit s"
  "net_migrlist (upd_proc p f s) = net_migrlist s" "net_pulllist (upd_proc p f s) = net_pulllist s"
  "net_out (upd_proc p f s) = net_out s" "net_mac (upd_proc p f s) = net_mac s"
  "phys (upd_proc p f s) = phys s" "mem_pageinfo (upd_proc p f s) = mem_pageinfo s"
  "mem_npage (upd_proc p f s) = mem_npage s" "pmap_zero (upd_proc p f s) = pmap_zero s"
  "mem_freelist (upd_proc p f s) = mem_freelist s"
  "cpu_recover (upd_proc p f s) = cpu_recover s" "cpu_recoverdata (upd_proc p f s) = cpu_recoverdata s"
  by (simp_all add: upd_proc_def)

text \<open>\<open>cpu_disabled(c)\<close>\<close>

definition cpu_disabled :: "nat \<Rightarrow> kst \<Rightarrow> bool" where
  "cpu_disabled c s \<longleftrightarrow> cpu_limit s \<le> int c"

end
