(* ===== verification/Frames.thy ===== *)
theory Frames
  imports Kernel
begin

text \<open>
  Memory operations leave the rest of the kernel alone. Everything that the kernel state adds to
  \<open>vmem\<close> (processes, processors, queues, network) is the record extension \<open>vmem.more\<close>, and no
  operation of the allocator or of the page-map code changes it.
\<close>

lemma more_steps [frame_simps]:
  "vmem.more (upd_pi p f s) = vmem.more s" "vmem.more (wr a v s) = vmem.more s"
  "vmem.more (copy_page d p s) = vmem.more s" "vmem.more (map_table p g s) = vmem.more s"
  "vmem.more (s\<lparr>mem_freelist := fl\<rparr>) = vmem.more s"
  by (simp_all add: upd_pi_def wr_def copy_page_def map_table_def)

lemma mem_alloc_more: "mem_alloc s = (r, s') \<Longrightarrow> vmem.more s' = vmem.more s"
  by (auto simp: mem_alloc_def frame_simps split: option.splits)

lemma mem_free_more: "mem_free p s = Some s' \<Longrightarrow> vmem.more s' = vmem.more s"
  by (auto simp: mem_free_def frame_simps split: if_splits)

lemma mem_incref_more: "mem_incref p s = Some s' \<Longrightarrow> vmem.more s' = vmem.more s"
  by (auto simp: mem_incref_def frame_simps)

definition keeps_more :: "(nat \<Rightarrow> 'a vmem_scheme \<Rightarrow> 'a vmem_scheme option) \<Rightarrow> bool" where
  "keeps_more f \<longleftrightarrow> (\<forall>p s s'. f p s = Some s' \<longrightarrow> vmem.more s' = vmem.more s)"

lemma keeps_moreD: "keeps_more f \<Longrightarrow> f p s = Some s' \<Longrightarrow> vmem.more s' = vmem.more s"
  by (simp add: keeps_more_def)

lemma mem_decref_more:
  "keeps_more f \<Longrightarrow> mem_decref p f s = Some s' \<Longrightarrow> vmem.more s' = vmem.more s"
  by (auto simp: mem_decref_def Let_def frame_simps elim!: bind_SomeE split: if_splits dest: keeps_moreD)

lemma keeps_mem_free: "keeps_more mem_free"
  by (simp add: keeps_more_def mem_free_more)

lemma free_entries_more:
  "keeps_more f \<Longrightarrow> free_entries f pte n s = Some s' \<Longrightarrow> vmem.more s' = vmem.more s"
  by (induction f pte n s rule: free_entries.induct)
    (auto elim!: bind_SomeE split: if_splits dest: mem_decref_more)

lemma keeps_freept: "keeps_more pmap_freept"
  unfolding keeps_more_def pmap_freept_def
  by (auto elim!: bind_SomeE dest!: mem_free_more free_entries_more [OF keeps_mem_free])

lemma keeps_freepd: "keeps_more pmap_freepd"
  unfolding keeps_more_def pmap_freepd_def
  by (auto elim!: bind_SomeE dest!: mem_free_more free_entries_more [OF keeps_freept])

lemma keeps_freepdp: "keeps_more pmap_freepdp"
  unfolding keeps_more_def pmap_freepdp_def
  by (auto elim!: bind_SomeE dest!: mem_free_more free_entries_more [OF keeps_freepd])

lemma keeps_freefun: "keeps_more (pmap_freefun n)"
  by (simp add: pmap_freefun_def keeps_freept keeps_freepd keeps_freepdp) (simp add: keeps_more_def)

lemma copy_entries_more: "copy_entries a b n s = Some s' \<Longrightarrow> vmem.more s' = vmem.more s"
proof (induction n arbitrary: a b s)
  case (Suc n)
  let ?s1 = "wr b (phys s a AND NOT PTE_W) s"
  from Suc.prems obtain s2 where "s2 = ?s1 \<or> mem_incref (pte_page (phys s a)) ?s1 = Some s2"
    and "copy_entries (Suc a) (Suc b) n s2 = Some s'"
    by (auto simp: Let_def elim!: bind_SomeE split: if_splits)
  with Suc.IH show ?case by (auto simp: frame_simps dest: mem_incref_more)
qed simp

lemma walk_find_more: "walk_find e w s = Some (r, s') \<Longrightarrow> vmem.more s' = vmem.more s"
  by (auto simp: walk_find_def Let_def frame_simps elim!: bind_SomeE split: if_splits prod.splits option.splits
      dest!: mem_alloc_more mem_incref_more)

lemma walk_unshare_more: "walk_unshare l e w low s = Some (r, s') \<Longrightarrow> vmem.more s' = vmem.more s"
  by (auto simp: walk_unshare_def Let_def frame_simps elim!: bind_SomeE split: if_splits prod.splits option.splits
      dest!: mem_alloc_more mem_incref_more copy_entries_more mem_decref_more [OF keeps_freefun])

lemma pmap_walk_level_more: "pmap_walk_level l t va w s = Some (r, s') \<Longrightarrow> vmem.more s' = vmem.more s"
proof (induction l arbitrary: t s)
  case (Suc l)
  have IH: "pmap_walk_level l t va w s = Some (r, s') \<Longrightarrow> vmem.more s' = vmem.more s" for t s
    by (rule Suc.IH)
  from Suc.prems show ?case
    by (auto simp: Let_def elim!: bind_SomeE split: option.splits if_splits
        dest!: walk_find_more walk_unshare_more IH)
qed simp

lemma pmap_walk_more: "pmap_walk t va w s = Some (r, s') \<Longrightarrow> vmem.more s' = vmem.more s"
  by (auto simp: pmap_walk_def dest: pmap_walk_level_more)

lemma pmap_insert_more: "pmap_insert t pi va perm s = Some (r, s') \<Longrightarrow> vmem.more s' = vmem.more s"
  by (auto simp: pmap_insert_def frame_simps elim!: bind_SomeE split: option.splits if_splits
      dest!: pmap_walk_more mem_incref_more mem_decref_more [OF keeps_mem_free])

text \<open>The range loops descend a level or advance their address; their frame lemmas go by this
  induction, whose hypotheses do not mention the intermediate results.\<close>

lemma range_induct [case_names step]:
  fixes P :: "nat \<Rightarrow> nat \<Rightarrow> nat \<Rightarrow> bool"
  assumes "\<And>l va vahi. (\<And>va' vahi'. 0 < l \<Longrightarrow> P (l - 1) va' vahi') \<Longrightarrow>
    (\<And>va'. va < va' \<Longrightarrow> va < vahi \<Longrightarrow> P l va' vahi) \<Longrightarrow> P l va vahi"
  shows "P l va vahi"
proof (induction l arbitrary: va vahi rule: less_induct)
  case (less l va vahi)
  note outer = less
  show ?case
  proof (induction "vahi - va" arbitrary: va rule: less_induct)
    case (less va)
    show ?case by (rule assms) (auto intro!: outer less diff_less_mono2)
  qed
qed

lemma pmap_remove_loop_more:
  fixes s s' :: "'a vmem_scheme"
  shows "pmap_remove_loop l t p va vahi s = Some (r, s') \<Longrightarrow> vmem.more s' = vmem.more s"
proof (induction l va vahi arbitrary: t p s r s' rule: range_induct)
  case (step l va vahi)
  show ?case
  proof (cases "va < vahi")
    case True
    have IH: "pmap_remove_loop l' t p va' vahi s = Some (r, s') \<Longrightarrow> l' = l \<Longrightarrow> va < va' \<Longrightarrow> vmem.more s' = vmem.more s"
      "pmap_remove_loop (l - Suc 0) t p va' vahi' s = Some (r, s') \<Longrightarrow> 0 < l \<Longrightarrow> vmem.more s' = vmem.more s"
      for l' t p va' vahi' r and s s' :: "'a vmem_scheme" using step.IH True by auto
    from True step.prems show ?thesis
      by (subst (asm) pmap_remove_loop.simps)
        (auto simp: Let_def frame_simps PDADDR_next_gt PDADDR_end_gt elim!: bind_SomeE split: if_splits
          dest!: pmap_walk_level_more mem_decref_more [OF keeps_mem_free] mem_decref_more [OF keeps_freefun] IH)
  qed (use step.prems in \<open>simp add: pmap_remove_loop.simps\<close>)
qed

lemma pmap_remove_level_more:
  "pmap_remove_level l t va vahi s = Some (r, s') \<Longrightarrow> vmem.more s' = vmem.more s"
  by (simp add: pmap_remove_level_def pmap_remove_loop_more)

lemma pmap_remove_while_more:
  assumes "pmap_remove_while t va vahi s = Some s'"
  shows "vmem.more s' = vmem.more s"
proof (rule pmap_remove_while.raw_induct
    [where P = "\<lambda>t va vahi s s'. vmem.more s' = vmem.more s", OF _ assms])
  fix f t va vahi and s s' :: "'a vmem_scheme"
  assume IH: "\<And>t va vahi s s'. f t va vahi s = Some s' \<Longrightarrow> vmem.more s' = vmem.more s"
    and body: "(if va < vahi then case pmap_remove_level NPTLVLS t va vahi s of None \<Rightarrow> None
      | Some r \<Rightarrow> f t (fst r) vahi (snd r) else Some s) = Some s'"
  then show "vmem.more s' = vmem.more s"
    by (auto split: if_splits option.splits dest!: IH pmap_remove_level_more)
qed

lemma pmap_remove_more: "pmap_remove t va sz s = Some s' \<Longrightarrow> vmem.more s' = vmem.more s"
  by (auto simp: pmap_remove_def elim!: bind_SomeE dest: pmap_remove_while_more)

lemma pmap_copy_loop_more:
  fixes s s' :: "'a vmem_scheme"
  shows "pmap_copy_loop l st sp sva dt dp dva svahi s = Some s' \<Longrightarrow> vmem.more s' = vmem.more s"
proof (induction l sva svahi arbitrary: st sp dt dp dva s s' rule: range_induct)
  case (step l sva svahi)
  show ?case
  proof (cases "sva < svahi")
    case True
    have IH: "pmap_copy_loop l' st sp sva' dt dp dva svahi s = Some s' \<Longrightarrow> l' = l \<Longrightarrow> sva < sva' \<Longrightarrow> vmem.more s' = vmem.more s"
      "pmap_copy_loop (l - Suc 0) st sp sva' dt dp dva svahi' s = Some s' \<Longrightarrow> 0 < l \<Longrightarrow> vmem.more s' = vmem.more s"
      for l' st sp sva' dt dp dva svahi' and s s' :: "'a vmem_scheme" using step.IH True by auto
    from True step.prems show ?thesis
      by (subst (asm) pmap_copy_loop.simps)
        (auto simp: Let_def frame_simps copy_lsize_pos elim!: bind_SomeE split: if_splits
          dest!: pmap_walk_level_more mem_incref_more pmap_remove_level_more IH)
  qed (use step.prems in \<open>simp add: pmap_copy_loop.simps\<close>)
qed

lemma pmap_copy_more: "pmap_copy sp sva dp dva sz s = Some s' \<Longrightarrow> vmem.more s' = vmem.more s"
  by (auto simp: pmap_copy_def pmap_copy_level_def split: if_splits dest: pmap_copy_loop_more)

lemma fault_own_more: "fault_own pg s = Some (r, s') \<Longrightarrow> vmem.more s' = vmem.more s"
  by (auto simp: fault_own_def Let_def frame_simps elim!: bind_SomeE split: if_splits prod.splits option.splits
      dest!: mem_alloc_more mem_incref_more mem_decref_more [OF keeps_mem_free])
    (metis more_steps(3))+

lemma pmap_pagefault_more: "pmap_pagefault t va err s = Some (r, s') \<Longrightarrow> vmem.more s' = vmem.more s"
  by (auto simp: pmap_pagefault_def frame_simps elim!: bind_SomeE split: if_splits
      dest!: pmap_walk_more fault_own_more)

lemma wr_byte_more [frame_simps]: "vmem.more (wr_byte a b s) = vmem.more s"
  by (simp add: wr_byte_def frame_simps)

lemma merge_bytes_more: "merge_bytes r p d i n s = (c, s') \<Longrightarrow> vmem.more s' = vmem.more s"
  by (induction n arbitrary: i s) (auto simp: frame_simps split: if_splits)

lemma merge_own_more: "merge_own p s = Some s' \<Longrightarrow> vmem.more s' = vmem.more s"
  by (auto simp: merge_own_def Let_def frame_simps elim!: bind_SomeE split: if_splits prod.splits option.splits
      dest!: mem_alloc_more mem_incref_more mem_decref_more [OF keeps_mem_free])

lemma pmap_mergepage_more: "pmap_mergepage r p d s = Some s' \<Longrightarrow> vmem.more s' = vmem.more s"
  by (auto simp: pmap_mergepage_def Let_def frame_simps elim!: bind_SomeE split: if_splits prod.splits
      dest!: merge_own_more merge_bytes_more mem_decref_more [OF keeps_mem_free])

lemma merge_dlow_more: "merge_dlow l t p va s = Some (r, s') \<Longrightarrow> vmem.more s' = vmem.more s"
  by (auto simp: merge_dlow_def Let_def elim!: bind_SomeE split: if_splits dest!: pmap_walk_level_more)

lemma pmap_copy_level_more:
  "pmap_copy_level l st sva dt dva svahi s = Some s' \<Longrightarrow> vmem.more s' = vmem.more s"
  by (auto simp: pmap_copy_level_def split: if_splits dest: pmap_copy_loop_more)

lemma pmap_merge_loop_more:
  fixes s s' :: "'a vmem_scheme"
  shows "pmap_merge_loop l r st sp sva dt dp dva svahi s = Some s' \<Longrightarrow> vmem.more s' = vmem.more s"
proof (induction l sva svahi arbitrary: r st sp dt dp dva s s' rule: range_induct)
  case (step l sva svahi)
  show ?case
  proof (cases "sva < svahi")
    case True
    have IH: "pmap_merge_loop l' r st sp sva' dt dp dva svahi s = Some s' \<Longrightarrow> l' = l \<Longrightarrow> sva < sva' \<Longrightarrow> vmem.more s' = vmem.more s"
      "pmap_merge_loop (l - Suc 0) r st sp sva' dt dp dva svahi' s = Some s' \<Longrightarrow> 0 < l \<Longrightarrow> vmem.more s' = vmem.more s"
      for l' r st sp sva' dt dp dva svahi' and s s' :: "'a vmem_scheme" using step.IH True by auto
    from True step.prems show ?thesis
      by (subst (asm) pmap_merge_loop.simps)
        (auto simp: Let_def elim!: bind_SomeE split: if_splits
          dest!: pmap_copy_level_more pmap_mergepage_more merge_dlow_more IH)
  qed (use step.prems in \<open>simp add: pmap_merge_loop.simps\<close>)
qed

lemma pmap_merge_more: "pmap_merge r sp sva dp dva sz s = Some s' \<Longrightarrow> vmem.more s' = vmem.more s"
  by (auto simp: pmap_merge_def pmap_merge_level_def split: if_splits dest: pmap_merge_loop_more)

lemma pmap_setperm_level_more:
  fixes s s' :: "'a vmem_scheme"
  shows "pmap_setperm_level l t va vahi a b s = Some s' \<Longrightarrow> vmem.more s' = vmem.more s"
proof (induction l va vahi arbitrary: t s s' rule: range_induct)
  case (step l va vahi)
  show ?case
  proof (cases "va < vahi")
    case True
    have IH: "pmap_setperm_level l' t va' vahi a b' s = Some s' \<Longrightarrow> l' = l \<and> b' = b \<Longrightarrow> va < va' \<Longrightarrow> vmem.more s' = vmem.more s"
      "pmap_setperm_level (l - Suc 0) t va' vahi' a b s = Some s' \<Longrightarrow> 0 < l \<Longrightarrow> vmem.more s' = vmem.more s"
      for l' t va' vahi' b' and s s' :: "'a vmem_scheme" using step.IH True by auto
    from True step.prems show ?thesis
      by (subst (asm) pmap_setperm_level.simps)
        (auto simp: Let_def frame_simps PDADDR_end_gt elim!: bind_SomeE split: if_splits
          dest!: pmap_walk_level_more IH)
  qed (use step.prems in \<open>simp add: pmap_setperm_level.simps\<close>)
qed

lemma pmap_setperm_more: "pmap_setperm t va sz perm s = Some s' \<Longrightarrow> vmem.more s' = vmem.more s"
  by (auto simp: pmap_setperm_def split: prod.splits dest: pmap_setperm_level_more)

lemma pmap_newpmap_more: "pmap_newpmap s = Some (r, s') \<Longrightarrow> vmem.more s' = vmem.more s"
  by (auto simp: pmap_newpmap_def Let_def frame_simps elim!: bind_SomeE split: prod.splits option.splits
      dest!: mem_alloc_more mem_incref_more)

subsection \<open>What this means for the kernel state\<close>

lemma more_kst:
  fixes s s' :: kst
  assumes "vmem.more s' = vmem.more s"
  shows "procs s' = procs s" "readyhead s' = readyhead s" "readytail s' = readytail s"
    "cpu_proc s' = cpu_proc s" "cpu_idle s' = cpu_idle s" "cpu_recover s' = cpu_recover s"
    "cpu_recoverdata s' = cpu_recoverdata s" "net_node s' = net_node s" "cons_out s' = cons_out s"
    "net_migrlist s' = net_migrlist s" "net_pulllist s' = net_pulllist s" "net_out s' = net_out s"
  using assms by (cases s; cases s'; simp)+

lemmas pmap_more = pmap_remove_more pmap_copy_more pmap_merge_more pmap_setperm_more pmap_newpmap_more
  pmap_pagefault_more pmap_walk_more pmap_insert_more mem_alloc_more mem_incref_more

end
