(* ===== verification/Proc.thy ===== *)
theory Proc
  imports Kernel
begin

text \<open>
  Processes and scheduling (\<open>kern/proc.c\<close>), with the two functions of \<open>kern/net.c\<close> that put a
  running process to sleep for migration.

  The functions that do not return in C (\<open>proc_sched\<close>, \<open>proc_run\<close>, \<open>proc_wait\<close>, \<open>proc_yield\<close>,
  \<open>proc_ret\<close>) return here the state in which their processor ends up: back in user mode, running
  \<open>cpu_proc\<close>, or idle in the wait loop of \<open>proc_sched\<close>. The loop is left by \<open>proc_sched_pick\<close>, a
  separate step, possible when the ready queue is not empty. A trap frame is passed by value.
\<close>

subsection \<open>The ready queue\<close>

definition proc_init :: "bool \<Rightarrow> kst \<Rightarrow> kst" where
  "proc_init onboot s = (if \<not> onboot then s else s\<lparr>readytail := None\<rparr>)"

text \<open>\<open>readytail\<close> points at \<open>readyhead\<close> (\<open>None\<close>) or at the \<open>readynext\<close> field of a process.\<close>

definition proc_ready :: "nat \<Rightarrow> kst \<Rightarrow> kst" where
  "proc_ready p s =
     (let s1 = upd_proc p (\<lambda>q. q\<lparr>p_state := PROC_READY, p_readynext := None\<rparr>) s;
          s2 = (case readytail s1 of
                  None \<Rightarrow> s1\<lparr>readyhead := Some p\<rparr>
                | Some t \<Rightarrow> upd_proc t (\<lambda>q. q\<lparr>p_readynext := Some p\<rparr>) s1)
      in s2\<lparr>readytail := Some p\<rparr>)"

text \<open>The removal of the head \<open>p\<close> of the queue in \<open>proc_sched\<close>.\<close>

definition proc_dequeue :: "nat \<Rightarrow> kst \<Rightarrow> kst option" where
  "proc_dequeue p s = do {
     let s1 = s\<lparr>readyhead := p_readynext (procs s p)\<rparr>;
     s2 \<leftarrow> (if readytail s1 = Some p
           then do { cassert (readyhead s1 = None); Some (s1\<lparr>readytail := None\<rparr>) } else Some s1);
     Some (upd_proc p (\<lambda>q. q\<lparr>p_readynext := None\<rparr>) s2)
   }"

subsection \<open>Creating processes\<close>

definition user_segs :: "trapframe \<Rightarrow> trapframe" where
  "user_segs tf = tf\<lparr>tf_gs := SEG_USER_GS_64 OR 3, tf_fs := 0, tf_ds := SEG_USER_DS_64 OR 3,
     tf_es := SEG_USER_DS_64 OR 3, tf_cs := SEG_USER_CS_64 OR 3, tf_ss := SEG_USER_DS_64 OR 3\<rparr>"

text \<open>The fresh proc structure, before it has page maps.\<close>

definition new_proc :: "nat \<Rightarrow> nat option \<Rightarrow> kst \<Rightarrow> proc" where
  "new_proc cp p s = zero_proc\<lparr>p_parent := p, p_state := PROC_STOP,
     p_home := RRCONS (net_node s) (mem_pi2phys cp) 0,
     p_sv := zero_sv\<lparr>sv_tf := user_segs zero_tf, sv_fx := zero_fx\<lparr>fx_fcw := 0x037f, fx_mxcsr := 0x00001f80\<rparr>\<rparr>\<rparr>"

text \<open>\<open>pmap_newpmap\<close> panics when memory runs out and never returns \<open>NULL\<close>, so the branch that frees
  a half-made process cannot be reached.\<close>

definition proc_alloc :: "nat option \<Rightarrow> nat \<Rightarrow> kst \<Rightarrow> (nat option \<times> kst) option" where
  "proc_alloc p cn s =
     (case mem_alloc s of
        (None, s1) \<Rightarrow> Some (None, s1)
      | (Some cp, s1) \<Rightarrow> do {
          s2 \<leftarrow> mem_incref cp s1;
          let s3 = upd_proc cp (\<lambda>_. new_proc cp p s2) s2;
          (pml4, s4) \<leftarrow> pmap_newpmap s3;
          (rpml4, s5) \<leftarrow> pmap_newpmap s4;
          let s6 = upd_proc cp (\<lambda>q. q\<lparr>p_pml4 := pml4, p_rpml4 := rpml4\<rparr>) s5;
          Some (Some cp, (case p of None \<Rightarrow> s6
            | Some pp \<Rightarrow> upd_proc pp (\<lambda>q. q\<lparr>p_child := (p_child q)(cn := Some cp)\<rparr>) s6))
        })"

subsection \<open>Saving the state of the running process\<close>

definition flag32 :: "u32 \<Rightarrow> u32 \<Rightarrow> bool" where "flag32 w f \<longleftrightarrow> w AND f \<noteq> 0"

text \<open>Instruction counting on entry to the kernel, for a process that has it enabled: single steps
  were counted by the debug trap, performance counters are read now.\<close>

definition save_icnt :: "nat \<Rightarrow> int \<Rightarrow> kst \<Rightarrow> proc \<Rightarrow> proc option" where
  "save_icnt c entry s q =
     (let sv = p_sv q; tf = sv_tf sv in
      if has (tf_rflags tf) FL_TF
      then do {
        let icnt = (if entry > 0 then sv_icnt sv + 1 else sv_icnt sv);
        let fl = (tf_rflags tf AND NOT FL_TF) OR FL_IF;
        cassert (icnt \<le> sv_imax sv);
        Some (q\<lparr>p_sv := sv\<lparr>sv_icnt := icnt, sv_tf := tf\<lparr>tf_rflags := fl\<rparr>\<rparr>\<rparr>)
      }
      else if p_pmcmax q > 0
      then do {
        cassert (pmc_on s);
        let icnt1 = sv_icnt sv + of_int (cpu_pmc s c);
        let icnt = (if entry = 0 then icnt1 - 1 else icnt1);
        cassert (icnt \<le> sv_imax sv);
        Some (q\<lparr>p_sv := sv\<lparr>sv_icnt := icnt\<rparr>, p_pmcmax := 0\<rparr>)
      }
      else do { cassert (sv_icnt sv \<le> sv_imax sv); Some q })"

definition proc_save :: "nat \<Rightarrow> nat \<Rightarrow> trapframe \<Rightarrow> int \<Rightarrow> kst \<Rightarrow> kst option" where
  "proc_save c p tf entry s = do {
     cassert (cpu_proc s c = Some p);
     let tf1 = (if entry = 0 then tf\<lparr>tf_rip := tf_rip tf - 2\<rparr> else tf);
     let s1 = upd_proc p (\<lambda>q. q\<lparr>p_sv := (p_sv q)\<lparr>sv_tf := tf1\<rparr>\<rparr>) s;
     let s2 = (if flag32 (sv_pff (p_sv (procs s1 p))) PFF_USEFPU
               then (upd_proc p (\<lambda>q. q\<lparr>p_sv := (p_sv q)\<lparr>sv_fx := cpu_fx s1 c\<rparr>\<rparr>) s1)
                      \<lparr>cpu_ts := (cpu_ts s1)(c := True)\<rparr>
               else s1);
     q \<leftarrow> (if flag32 (sv_pff (p_sv (procs s2 p))) PFF_ICNT then save_icnt c entry s2 (procs s2 p)
          else Some (procs s2 p));
     cassert (\<not> has (tf_rflags (sv_tf (p_sv q))) FL_TF);
     cassert (p_pmcmax q = 0);
     Some (upd_proc p (\<lambda>_. q) s2)
   }"

subsection \<open>Migration\<close>

definition share_bit :: "u8 \<Rightarrow> u64" where
  "share_bit node = of_int (sint (push_bit (unat node - 1) (1 :: u32)))"

definition net_rrshare :: "nat \<Rightarrow> u8 \<Rightarrow> kst \<Rightarrow> kst option" where
  "net_rrshare page dstnode s = do {
     cassert (1 < page \<and> page < mem_npage s);
     cassert (page \<noteq> sym2pi (pmap_zero s));
     cassert (0 < unat dstnode \<and> unat dstnode \<le> NET_MAXNODES);
     Some (upd_pi page (\<lambda>i. i\<lparr>pi_shared := pi_shared i OR share_bit dstnode\<rparr>) s)
   }"

definition NET_ETHERTYPE :: u16 where "NET_ETHERTYPE = 0x9876"

text \<open>A frame of ours to another node. Node \<open>n\<close>'s address is ours with the last byte replaced.\<close>

definition net_ethsetup :: "u8 \<Rightarrow> netmsg \<Rightarrow> kst \<Rightarrow> frame option" where
  "net_ethsetup destnode msg s = do {
     cassert (0 < unat destnode \<and> unat destnode \<le> NET_MAXNODES);
     cassert (destnode \<noteq> net_node s);
     Some \<lparr>fr_dst = (net_mac s)[5 := destnode], fr_src = net_mac s, fr_type = NET_ETHERTYPE, fr_msg = msg\<rparr>
   }"

definition net_tx :: "frame \<Rightarrow> kst \<Rightarrow> kst" where
  "net_tx f s = s\<lparr>net_out := net_out s @ [f]\<rparr>"

definition net_txmigrq :: "nat \<Rightarrow> kst \<Rightarrow> kst option" where
  "net_txmigrq p s = do {
     cassert (pstate s p = PROC_MIGR);
     let q = procs s p;
     f \<leftarrow> net_ethsetup (p_migrdest q)
           (NET_MIGRQ (ucast (p_home q)) (RRCONS (net_node s) (of_nat (8 * p_pml4 q)) 0) (p_sv q)) s;
     Some (net_tx f s)
   }"

definition proc_sched :: "nat \<Rightarrow> kst \<Rightarrow> kst" where
  "proc_sched c s = s\<lparr>cpu_idle := (cpu_idle s)(c := True)\<rparr>"

definition net_migrate :: "nat \<Rightarrow> trapframe \<Rightarrow> u8 \<Rightarrow> int \<Rightarrow> kst \<Rightarrow> kst option" where
  "net_migrate c tf dstnode entry s = do {
     p \<leftarrow> cpu_proc s c;
     s1 \<leftarrow> proc_save c p tf entry s;
     cassert (0 < unat dstnode \<and> unat dstnode \<le> NET_MAXNODES \<and> dstnode \<noteq> net_node s1);
     s2 \<leftarrow> net_rrshare p dstnode s1;
     cassert (pstate s2 p = PROC_RUN);
     cassert (p_migrdest (procs s2 p) = 0);
     cassert (p_migrnext (procs s2 p) = None);
     let s3 = upd_proc p (\<lambda>q. q\<lparr>p_state := PROC_MIGR, p_migrdest := dstnode, p_migrnext := net_migrlist s2\<rparr>) s2;
     s4 \<leftarrow> net_txmigrq p (s3\<lparr>net_migrlist := Some p\<rparr>);
     Some (proc_sched c s4)
   }"

subsection \<open>Waiting, running, returning\<close>

definition proc_wait :: "nat \<Rightarrow> nat \<Rightarrow> nat \<Rightarrow> trapframe \<Rightarrow> kst \<Rightarrow> kst option" where
  "proc_wait c p cp tf s = do {
     cassert (cp \<noteq> proc_null);
     cassert (pstate s cp \<noteq> PROC_STOP);
     let s1 = upd_proc p (\<lambda>q. q\<lparr>p_state := PROC_WAIT, p_runcpu := None, p_waitchild := Some cp\<rparr>) s;
     s2 \<leftarrow> proc_save c p tf 0 s1;
     Some (proc_sched c s2)
   }"

text \<open>\<open>proc_run\<close> up to the point where it resumes the process, or finds that the process has used up
  its instructions (\<open>True\<close>) and must return to its parent at once.\<close>

definition run_enter :: "nat \<Rightarrow> nat \<Rightarrow> kst \<Rightarrow> (bool \<times> kst) option" where
  "run_enter c p s = do {
     let s1 = (upd_proc p (\<lambda>q. q\<lparr>p_state := PROC_RUN, p_runcpu := Some c\<rparr>) s)
                \<lparr>cpu_proc := (cpu_proc s)(c := Some p), cpu_idle := (cpu_idle s)(c := False)\<rparr>;
     let sv = p_sv (procs s1 p);
     let s2 = (if flag32 (sv_pff sv) PFF_USEFPU
               then s1\<lparr>cpu_ts := (cpu_ts s1)(c := False), cpu_fx := (cpu_fx s1)(c := sv_fx sv)\<rparr> else s1);
     cassert (\<not> has (tf_rflags (sv_tf sv)) FL_TF);
     cassert (p_pmcmax (procs s2 p) = 0);
     (if flag32 (sv_pff sv) PFF_ICNT
      then if sv_icnt sv \<ge> sv_imax sv
        then Some (True, upd_proc p (\<lambda>q. q\<lparr>p_sv := sv\<lparr>sv_tf := (sv_tf sv)\<lparr>tf_trapno := T_ICNT\<rparr>\<rparr>\<rparr>) s2)
        else let pmax = sint (sv_imax sv - sv_icnt sv - of_int (pmc_safety s2)) in
          if pmc_on s2 \<and> pmax > 0
          then do {
            cassert (has (tf_rflags (sv_tf sv)) FL_IF);
            Some (False, upd_proc p (\<lambda>q. q\<lparr>p_pmcmax := pmax\<rparr>) s2)
          }
          else Some (False, upd_proc p (\<lambda>q. q\<lparr>p_sv := sv\<lparr>sv_tf := (sv_tf sv)
                 \<lparr>tf_rflags := (tf_rflags (sv_tf sv) OR FL_TF) AND NOT FL_IF\<rparr>\<rparr>\<rparr>) s2)
      else Some (False, s2))
   }"

text \<open>How \<open>proc_ret\<close> continues: in the waiting parent, in the scheduler, by migrating home first, or
  with the root process's input and output.\<close>

datatype ret_next = RetRun nat | RetSched | RetMigrate u8 int | RetIO

definition proc_ret_enter :: "nat \<Rightarrow> trapframe \<Rightarrow> int \<Rightarrow> kst \<Rightarrow> (ret_next \<times> kst) option" where
  "proc_ret_enter c tf entry s = do {
     cp \<leftarrow> cpu_proc s c;
     cassert (pstate s cp = PROC_RUN \<and> p_runcpu (procs s cp) = Some c);
     (if net_node s \<noteq> RRNODE (p_home (procs s cp))
      then Some (RetMigrate (RRNODE (p_home (procs s cp))) (if entry > 0 then 0 else entry), s)
      else case p_parent (procs s cp) of
        None \<Rightarrow> do {
          cassert (tf_trapno tf = T_SYSCALL);
          cassert (entry = 1);
          Some (RetIO, s)
        }
      | Some p \<Rightarrow> do {
          let s1 = upd_proc cp (\<lambda>q. q\<lparr>p_state := PROC_STOP, p_runcpu := None\<rparr>) s;
          s2 \<leftarrow> proc_save c cp tf entry s1;
          (if pstate s2 p = PROC_WAIT \<and> p_waitchild (procs s2 p) = Some cp
           then Some (RetRun p, upd_proc p (\<lambda>q. q\<lparr>p_waitchild := None\<rparr>) s2)
           else Some (RetSched, s2))
        })
   }"

text \<open>\<open>proc_run\<close>: a process with no instructions left returns to its parent, which may run next and
  have none left either. The root process's \<open>file_io\<close> is outside this model: it only exchanges
  data with devices and then resumes or suspends the root process.\<close>

partial_function (option) proc_run :: "nat \<Rightarrow> nat \<Rightarrow> kst \<Rightarrow> kst option" where
  "proc_run c p s =
     (case run_enter c p s of
        None \<Rightarrow> None
      | Some (expired, s1) \<Rightarrow>
          if \<not> expired then Some s1
          else case proc_ret_enter c (sv_tf (p_sv (procs s1 p))) (- 1) s1 of
            None \<Rightarrow> None
          | Some (nxt, s2) \<Rightarrow>
              (case nxt of
                 RetRun pp \<Rightarrow> proc_run c pp s2
               | RetSched \<Rightarrow> Some (proc_sched c s2)
               | RetMigrate node e \<Rightarrow> net_migrate c (sv_tf (p_sv (procs s1 p))) node e s2
               | RetIO \<Rightarrow> Some s2))"

definition proc_ret :: "nat \<Rightarrow> trapframe \<Rightarrow> int \<Rightarrow> kst \<Rightarrow> kst option" where
  "proc_ret c tf entry s = do {
     (nxt, s1) \<leftarrow> proc_ret_enter c tf entry s;
     (case nxt of
        RetRun p \<Rightarrow> proc_run c p s1
      | RetSched \<Rightarrow> Some (proc_sched c s1)
      | RetMigrate node e \<Rightarrow> net_migrate c tf node e s1
      | RetIO \<Rightarrow> Some s1)
   }"

text \<open>The exit from \<open>proc_sched\<close>'s wait loop.\<close>

definition proc_sched_pick :: "nat \<Rightarrow> nat \<Rightarrow> kst \<Rightarrow> kst option" where
  "proc_sched_pick c p s = do {
     cassert (readyhead s = Some p \<and> \<not> cpu_disabled c s);
     s1 \<leftarrow> proc_dequeue p s;
     proc_run c p s1
   }"

definition proc_yield :: "nat \<Rightarrow> trapframe \<Rightarrow> kst \<Rightarrow> kst option" where
  "proc_yield c tf s = do {
     p \<leftarrow> cpu_proc s c;
     cassert (p_runcpu (procs s p) = Some c);
     let s1 = upd_proc p (\<lambda>q. q\<lparr>p_runcpu := None\<rparr>) s;
     s2 \<leftarrow> proc_save c p tf (- 1) s1;
     Some (proc_sched c (proc_ready p s2))
   }"

end
