(* ===== verification/Sched.thy ===== *)
theory Sched
  imports Proc
begin

text \<open>
  The scheduler's invariant and the contract of its ready queue.

  The ready queue, a linked list with a tail pointer into its last element, is a first-in
  first-out queue (\<open>fifo\<close>). On top of it, \<open>sched_inv\<close> ties together the states of the processes,
  the queue and what the processors run, and every entry into the scheduler preserves it.
\<close>

subsection \<open>The ready queue is a queue\<close>

abbreviation rnext :: "kst \<Rightarrow> nat \<Rightarrow> nat option" where "rnext s p \<equiv> p_readynext (procs s p)"

definition ready_q :: "kst \<Rightarrow> nat list \<Rightarrow> bool" where
  "ready_q s q \<longleftrightarrow> chain (rnext s) (readyhead s) q \<and> readytail s = (if q = [] then None else Some (last q))"

locale fifo =
  fixes enq :: "nat \<Rightarrow> 's \<Rightarrow> 's"
    and deq :: "nat \<Rightarrow> 's \<Rightarrow> 's option"
    and head :: "'s \<Rightarrow> nat option"
    and is_queue :: "'s \<Rightarrow> nat list \<Rightarrow> bool"
  assumes head_queue: "is_queue s q \<Longrightarrow> head s = (case q of [] \<Rightarrow> None | p # _ \<Rightarrow> Some p)"
    and enq_queue: "is_queue s q \<Longrightarrow> p \<notin> set q \<Longrightarrow> is_queue (enq p s) (q @ [p])"
    and deq_queue: "is_queue s (p # q) \<Longrightarrow> \<exists>s'. deq p s = Some s' \<and> is_queue s' q"
    and queue_distinct: "is_queue s q \<Longrightarrow> distinct q"
begin

fun drain :: "nat \<Rightarrow> 's \<Rightarrow> (nat list \<times> 's) option" where
  "drain 0 s = Some ([], s)"
| "drain (Suc n) s =
     (case head s of
        None \<Rightarrow> Some ([], s)
      | Some p \<Rightarrow>
          (case deq p s of
             None \<Rightarrow> None
           | Some s' \<Rightarrow> (case drain n s' of None \<Rightarrow> None | Some (ps, s'') \<Rightarrow> Some (p # ps, s''))))"

lemma enq_all_queue:
  "is_queue s q \<Longrightarrow> distinct (q @ ps) \<Longrightarrow> is_queue (fold enq ps s) (q @ ps)"
proof (induction ps arbitrary: s q)
  case (Cons p ps)
  then have "is_queue (enq p s) (q @ [p])" by (intro enq_queue) auto
  with Cons.IH [of "enq p s" "q @ [p]"] Cons.prems(2) show ?case by simp
qed simp

lemma drain_queue: "is_queue s q \<Longrightarrow> \<exists>s'. drain n s = Some (take n q, s') \<and> is_queue s' (drop n q)"
proof (induction n arbitrary: s q)
  case (Suc n)
  show ?case
  proof (cases q)
    case Nil
    with Suc.prems head_queue [OF Suc.prems] show ?thesis by simp
  next
    case (Cons p q')
    with Suc.prems obtain s' where "deq p s = Some s'" "is_queue s' q'"
      using deq_queue by blast
    with Suc.IH [of s' q'] head_queue [OF Suc.prems] Cons show ?thesis by auto
  qed
qed simp

text \<open>Processes leave in the order in which they came.\<close>

lemma fifo_order:
  assumes "is_queue s q" and "distinct (q @ ps)"
  shows "\<exists>s'. drain (length (q @ ps)) (fold enq ps s) = Some (q @ ps, s') \<and> is_queue s' []"
  using drain_queue [OF enq_all_queue [OF assms], of "length (q @ ps)"] by simp

end

lemma chain_rnext_cong: "(\<And>p. p \<in> set q \<Longrightarrow> rnext s' p = rnext s p) \<Longrightarrow>
  chain (rnext s') h q = chain (rnext s) h q"
  by (rule chain_cong) simp

lemma proc_ready_simps [simp]:
  "readyhead (proc_ready p s) = (if readytail s = None then Some p else readyhead s)"
  "readytail (proc_ready p s) = Some p"
  "cpu_proc (proc_ready p s) = cpu_proc s" "cpu_idle (proc_ready p s) = cpu_idle s"
  "net_node (proc_ready p s) = net_node s"
  "procs (proc_ready p s) x =
     (let q = (if x = p then (procs s p)\<lparr>p_state := PROC_READY, p_readynext := None\<rparr> else procs s x)
      in if readytail s = Some x then q\<lparr>p_readynext := Some p\<rparr> else q)"
  by (auto simp: proc_ready_def Let_def split: option.splits)

lemma ready_q_enq:
  assumes "ready_q s q" and "p \<notin> set q"
  shows "ready_q (proc_ready p s) (q @ [p])"
proof (cases "q = []")
  case True
  with assms show ?thesis by (simp add: ready_q_def Let_def)
next
  case False
  with assms have t: "readytail s = Some (last q)" and ch: "chain (rnext s) (readyhead s) q"
    by (simp_all add: ready_q_def)
  from False assms(2) have "p \<noteq> last q" by auto
  then have "rnext (proc_ready p s) = (rnext s)(last q := Some p, p := None)"
    using t by (auto simp: fun_eq_iff Let_def)
  with chain_snoc [OF ch assms(2) False] t show ?thesis by (simp add: ready_q_def)
qed

lemma proc_dequeue_state:
  assumes "ready_q s (p # q)"
  shows "proc_dequeue p s = Some (upd_proc p (\<lambda>x. x\<lparr>p_readynext := None\<rparr>)
    (s\<lparr>readyhead := rnext s p, readytail := (if q = [] then None else readytail s)\<rparr>))"
proof (cases "q = []")
  case True
  with assms show ?thesis by (simp add: ready_q_def proc_dequeue_def)
next
  case False
  have "p \<notin> set q" using assms chain_distinct [of "rnext s" "readyhead s" "p # q"] by (simp add: ready_q_def)
  with False have "last q \<noteq> p" by auto
  with assms False have "readytail s \<noteq> Some p" by (auto simp: ready_q_def)
  with False show ?thesis by (simp add: proc_dequeue_def)
qed

lemma ready_q_deq:
  assumes "ready_q s (p # q)"
  shows "\<exists>s'. proc_dequeue p s = Some s' \<and> ready_q s' q"
proof -
  have nin: "p \<notin> set q" using assms chain_distinct [of "rnext s" "readyhead s" "p # q"] by (simp add: ready_q_def)
  let ?s' = "upd_proc p (\<lambda>x. x\<lparr>p_readynext := None\<rparr>)
    (s\<lparr>readyhead := rnext s p, readytail := (if q = [] then None else readytail s)\<rparr>)"
  have "chain (rnext ?s') (rnext s p) q = chain (rnext s) (rnext s p) q"
    using nin by (intro chain_rnext_cong) auto
  with assms have "ready_q ?s' q" by (auto simp: ready_q_def)
  with proc_dequeue_state [OF assms] show ?thesis by blast
qed

interpretation rq: fifo proc_ready proc_dequeue readyhead ready_q
proof
  fix s q assume q: "ready_q s q"
  then show "readyhead s = (case q of [] \<Rightarrow> None | p # _ \<Rightarrow> Some p)"
    by (cases q) (simp_all add: ready_q_def)
  show "distinct q" using q chain_distinct by (auto simp: ready_q_def)
qed (use ready_q_enq ready_q_deq in blast)+

text \<open>Taking up to \<open>n\<close> processes off the queue, as successive processors would.\<close>

fun sched_take :: "nat \<Rightarrow> kst \<Rightarrow> (nat list \<times> kst) option" where
  "sched_take 0 s = Some ([], s)"
| "sched_take (Suc n) s =
     (case readyhead s of
        None \<Rightarrow> Some ([], s)
      | Some p \<Rightarrow>
          (case proc_dequeue p s of
             None \<Rightarrow> None
           | Some s' \<Rightarrow> (case sched_take n s' of None \<Rightarrow> None | Some (ps, s'') \<Rightarrow> Some (p # ps, s''))))"

lemma sched_take_drain: "sched_take n s = rq.drain n s"
  by (induction n s rule: sched_take.induct) (auto split: option.splits)

text \<open>C10: the ready queue is first in, first out. From an empty queue, processes made ready one
  after the other are taken off by the scheduler in the same order, and the queue is empty and
  well formed again.\<close>

theorem ready_queue_fifo:
  assumes "ready_q s []" and "distinct ps"
  shows "\<exists>s'. sched_take (length ps) (fold proc_ready ps s) = Some (ps, s') \<and> ready_q s' []"
  using rq.fifo_order [OF assms(1)] assms(2) by (simp add: sched_take_drain)

subsection \<open>The invariant\<close>

text \<open>\<open>cur\<close> is what each processor runs (\<open>None\<close> for an idle one). Ready processes are exactly those
  on the queue; running processes exactly those that a processor runs, and that processor is the
  one they record; a waiting process waits for a child of its own that has not stopped.\<close>

definition sinv :: "(nat \<Rightarrow> proc_state) \<Rightarrow> (nat \<Rightarrow> nat option) \<Rightarrow> (nat \<Rightarrow> nat option) \<Rightarrow> (nat \<Rightarrow> nat option) \<Rightarrow>
    (nat \<Rightarrow> nat option) \<Rightarrow> nat list \<Rightarrow> bool" where
  "sinv stt run wt par cur q \<longleftrightarrow>
     (\<forall>p. stt p = PROC_READY \<longleftrightarrow> p \<in> set q) \<and>
     (\<forall>p. stt p = PROC_RUN \<longleftrightarrow> (\<exists>c. cur c = Some p)) \<and>
     (\<forall>c p. cur c = Some p \<longrightarrow> run p = Some c) \<and>
     (\<forall>p. stt p = PROC_WAIT \<longrightarrow> (\<exists>cp. wt p = Some cp \<and> par cp = Some p \<and> stt cp \<noteq> PROC_STOP))"

abbreviation runcpu :: "kst \<Rightarrow> nat \<Rightarrow> nat option" where "runcpu s p \<equiv> p_runcpu (procs s p)"
abbreviation waitchild :: "kst \<Rightarrow> nat \<Rightarrow> nat option" where "waitchild s p \<equiv> p_waitchild (procs s p)"
abbreviation parent :: "kst \<Rightarrow> nat \<Rightarrow> nat option" where "parent s p \<equiv> p_parent (procs s p)"

definition cpu_runs :: "kst \<Rightarrow> nat \<Rightarrow> nat option" where
  "cpu_runs s c = (if cpu_idle s c then None else cpu_proc s c)"

definition sched_inv :: "kst \<Rightarrow> nat list \<Rightarrow> bool" where
  "sched_inv s q \<longleftrightarrow> ready_q s q \<and> sinv (pstate s) (runcpu s) (waitchild s) (parent s) (cpu_runs s) q"

lemma sinv_uniq: "sinv stt run wt par cur q \<Longrightarrow> cur c = Some p \<Longrightarrow> cur d = Some p \<Longrightarrow> c = d"
  unfolding sinv_def by (metis option.inject)

text \<open>A processor leaves its process in a state that is neither ready nor running.\<close>

lemma sinv_leave:
  assumes "sinv stt run wt par cur q" and "cur c = Some p" and "x \<notin> {PROC_READY, PROC_RUN}"
    and "x = PROC_WAIT \<Longrightarrow> \<exists>cp. w = Some cp \<and> par cp = Some p \<and> (stt(p := x)) cp \<noteq> PROC_STOP"
    and "x = PROC_STOP \<Longrightarrow> \<forall>v. stt v = PROC_WAIT \<longrightarrow> wt v \<noteq> Some p"
  shows "sinv (stt(p := x)) (run(p := r)) (wt(p := w)) par (cur(c := None)) q"
proof -
  have p: "stt p = PROC_RUN" using assms(1,2) unfolding sinv_def by blast
  have u: "cur d = Some p \<longleftrightarrow> d = c" for d using sinv_uniq [OF assms(1,2)] assms(2) by blast
  have ready: "(stt(p := x)) v = PROC_READY \<longleftrightarrow> v \<in> set q" for v
    using assms(1,3) p unfolding sinv_def by (metis fun_upd_apply insertI1 proc_state.distinct(13))
  have running: "(stt(p := x)) v = PROC_RUN \<longleftrightarrow> (\<exists>d. (cur(c := None)) d = Some v)" for v
    using assms(1,3) u unfolding sinv_def by (auto split: if_splits) (metis option.inject assms(2))
  have runs: "(run(p := r)) v = Some d" if "(cur(c := None)) d = Some v" for d v
    using that assms(1) u unfolding sinv_def by (auto split: if_splits)
  have waiting: "\<exists>cp. (wt(p := w)) v = Some cp \<and> par cp = Some v \<and> (stt(p := x)) cp \<noteq> PROC_STOP"
    if "(stt(p := x)) v = PROC_WAIT" for v
  proof (cases "v = p")
    case True
    with that assms(4) show ?thesis by auto
  next
    case False
    with that assms(1) obtain cp where "wt v = Some cp" "par cp = Some v" "stt cp \<noteq> PROC_STOP" "stt v = PROC_WAIT"
      unfolding sinv_def by auto
    with False assms(5) show ?thesis by auto
  qed
  show ?thesis unfolding sinv_def using ready running runs waiting by blast
qed

text \<open>A process in a state without obligations is run by a processor that was idle.\<close>

lemma sinv_run:
  assumes "sinv stt run wt par cur q" and "cur c = None" and "stt p \<notin> {PROC_READY, PROC_RUN}"
  shows "sinv (stt(p := PROC_RUN)) (run(p := Some c)) wt par (cur(c := Some p)) q"
proof -
  have "cur d \<noteq> Some p" for d using assms(1,3) unfolding sinv_def by blast
  with assms show ?thesis
    unfolding sinv_def by (auto split: if_splits; metis option.distinct(1))
qed

lemma sinv_enq:
  assumes "sinv stt run wt par cur q" and "stt p \<notin> {PROC_READY, PROC_RUN}"
  shows "sinv (stt(p := PROC_READY)) run wt par cur (q @ [p])"
proof -
  have "cur d \<noteq> Some p" for d using assms(1,2) unfolding sinv_def by blast
  with assms show ?thesis
    unfolding sinv_def by (auto split: if_splits) metis
qed

lemma sinv_deq:
  assumes "sinv stt run wt par cur (p # q)" and "p \<notin> set q"
  shows "sinv (stt(p := PROC_AWAY)) run wt par cur q"
proof -
  have p: "stt p = PROC_READY" using assms(1) unfolding sinv_def by simp
  then have "cur d \<noteq> Some p" for d using assms(1) unfolding sinv_def by (metis proc_state.distinct(13))
  with assms p show ?thesis
    unfolding sinv_def by (auto split: if_splits) metis
qed

subsection \<open>What the other operations leave alone\<close>

text \<open>The part of a process that scheduling looks at, and two states that agree on it.\<close>

definition sview :: "proc \<Rightarrow> nat option \<times> proc_state \<times> nat option \<times> nat option \<times> nat option" where
  "sview q = (p_parent q, p_state q, p_readynext q, p_runcpu q, p_waitchild q)"

definition sched_same :: "kst \<Rightarrow> kst \<Rightarrow> bool" where
  "sched_same s s' \<longleftrightarrow> (\<forall>p. sview (procs s' p) = sview (procs s p)) \<and>
     readyhead s' = readyhead s \<and> readytail s' = readytail s \<and>
     cpu_proc s' = cpu_proc s \<and> cpu_idle s' = cpu_idle s"

lemma sched_same_refl [simp]: "sched_same s s"
  by (simp add: sched_same_def)

lemma sched_same_trans: "sched_same s s' \<Longrightarrow> sched_same s' s'' \<Longrightarrow> sched_same s s''"
  by (simp add: sched_same_def)

lemma sched_sameD:
  assumes "sched_same s s'"
  shows "pstate s' = pstate s" "runcpu s' = runcpu s" "waitchild s' = waitchild s" "parent s' = parent s"
    "rnext s' = rnext s" "cpu_runs s' = cpu_runs s" "readyhead s' = readyhead s" "readytail s' = readytail s"
    "cpu_proc s' = cpu_proc s" "cpu_idle s' = cpu_idle s"
  using assms by (auto simp: sched_same_def sview_def cpu_runs_def fun_eq_iff)

lemma sched_inv_same: "sched_same s s' \<Longrightarrow> sched_inv s' q = sched_inv s q"
  unfolding sched_inv_def ready_q_def by (simp only: sched_sameD)

lemma sched_same_upd: "(\<And>q. sview (f q) = sview q) \<Longrightarrow> sched_same s (upd_proc p f s)"
  by (simp add: sched_same_def)

lemma save_icnt_view: "save_icnt c e s q = Some q' \<Longrightarrow> sview q' = sview q"
  by (auto simp: save_icnt_def Let_def sview_def split: if_splits)

lemma proc_save_same:
  assumes "proc_save c p tf e s = Some s'"
  shows "sched_same s s' \<and> cpu_proc s c = Some p"
proof -
  let ?tf = "if e = 0 then tf\<lparr>tf_rip := tf_rip tf - 2\<rparr> else tf"
  let ?s1 = "upd_proc p (\<lambda>q. q\<lparr>p_sv := (p_sv q)\<lparr>sv_tf := ?tf\<rparr>\<rparr>) s"
  let ?s2 = "if flag32 (sv_pff (p_sv (procs ?s1 p))) PFF_USEFPU
      then (upd_proc p (\<lambda>q. q\<lparr>p_sv := (p_sv q)\<lparr>sv_fx := cpu_fx ?s1 c\<rparr>\<rparr>) ?s1)\<lparr>cpu_ts := (cpu_ts ?s1)(c := True)\<rparr>
      else ?s1"
  have c: "cpu_proc s c = Some p" using assms by (simp add: proc_save_def)
  have same2: "sched_same s ?s2" by (simp add: sched_same_def sview_def)
  from assms obtain q where q: "(if flag32 (sv_pff (p_sv (procs ?s2 p))) PFF_ICNT then save_icnt c e ?s2 (procs ?s2 p)
      else Some (procs ?s2 p)) = Some q" "s' = upd_proc p (\<lambda>_. q) ?s2"
    unfolding proc_save_def Let_def by (auto elim!: bind_SomeE)
  have "sview q = sview (procs ?s2 p)"
    using q(1) by (auto split: if_splits dest: save_icnt_view)
  then have "sched_same ?s2 s'" unfolding q(2) by (simp add: sched_same_def)
  with same2 c show ?thesis using sched_same_trans by blast
qed

lemma net_rrshare_same: "net_rrshare pg n s = Some s' \<Longrightarrow> sched_same s s'"
  by (auto simp: net_rrshare_def sched_same_def upd_pi_def)

lemma net_txmigrq_same: "net_txmigrq p s = Some s' \<Longrightarrow> sched_same s s'"
  by (auto simp: net_txmigrq_def net_tx_def sched_same_def Let_def elim!: bind_SomeE)

lemma cpu_runs_sched [simp]: "cpu_runs (proc_sched c s) = (cpu_runs s)(c := None)"
  by (auto simp: cpu_runs_def proc_sched_def)

lemma proc_sched_simps [simp]:
  "procs (proc_sched c s) = procs s" "readyhead (proc_sched c s) = readyhead s"
  "readytail (proc_sched c s) = readytail s" "cpu_proc (proc_sched c s) = cpu_proc s"
  "ready_q (proc_sched c s) q = ready_q s q"
  by (simp_all add: proc_sched_def ready_q_def)

lemma sched_same_sched: "sched_same s s' \<Longrightarrow> sched_same (proc_sched c s) (proc_sched c s')"
  by (auto simp: sched_same_def proc_sched_def)

subsection \<open>Every entry into the scheduler preserves the invariant\<close>

text \<open>Process \<open>p\<close> leaves processor \<open>c\<close> by a change of its scheduling fields other than its link.\<close>

lemma sched_inv_leave:
  assumes inv: "sched_inv s q" and c: "cpu_runs s c = Some p" and x: "x \<notin> {PROC_READY, PROC_RUN}"
    and f: "p_state (f (procs s p)) = x" "p_readynext (f (procs s p)) = rnext s p"
      "p_parent (f (procs s p)) = parent s p" "p_waitchild (f (procs s p)) = w"
    and w: "x = PROC_WAIT \<Longrightarrow> \<exists>cp. w = Some cp \<and> parent s cp = Some p \<and> ((pstate s)(p := x)) cp \<noteq> PROC_STOP"
    and t: "x = PROC_STOP \<Longrightarrow> \<forall>v. pstate s v = PROC_WAIT \<longrightarrow> waitchild s v \<noteq> Some p"
  shows "sched_inv (proc_sched c (upd_proc p f s)) q"
proof -
  let ?s = "upd_proc p f s"
  have "rnext ?s = rnext s" "parent ?s = parent s" using f by auto
  moreover have "pstate ?s = (pstate s)(p := x)" "waitchild ?s = (waitchild s)(p := w)"
    "runcpu ?s = (runcpu s)(p := p_runcpu (f (procs s p)))" "cpu_runs ?s = cpu_runs s"
    using f by (auto simp: cpu_runs_def)
  moreover have i: "sinv (pstate s) (runcpu s) (waitchild s) (parent s) (cpu_runs s) q"
    using inv by (simp add: sched_inv_def)
  moreover have "sinv ((pstate s)(p := x)) ((runcpu s)(p := r)) ((waitchild s)(p := w)) (parent s)
      ((cpu_runs s)(c := None)) q" for r
    using sinv_leave [OF i c x w t] by blast
  moreover have "ready_q s q" using inv by (simp add: sched_inv_def)
  ultimately show ?thesis
    unfolding sched_inv_def ready_q_def by (simp only: proc_sched_simps cpu_runs_sched upd_proc_simps(2,3))
qed

text \<open>A process about to be run: invisible to the invariant, as if it were away.\<close>

definition away :: "nat \<Rightarrow> kst \<Rightarrow> kst" where
  "away p s = upd_proc p (\<lambda>q. q\<lparr>p_state := PROC_AWAY\<rparr>) s"

definition runnable :: "nat \<Rightarrow> nat \<Rightarrow> kst \<Rightarrow> nat list \<Rightarrow> bool" where
  "runnable c p s q \<longleftrightarrow> sched_inv (proc_sched c (away p s)) q"

lemma run_enter_inv:
  assumes "runnable c p s q" and "run_enter c p s = Some (b, s')"
  shows "sched_inv s' q \<and> cpu_runs s' c = Some p"
proof -
  let ?s1 = "(upd_proc p (\<lambda>q. q\<lparr>p_state := PROC_RUN, p_runcpu := Some c\<rparr>) s)
                \<lparr>cpu_proc := (cpu_proc s)(c := Some p), cpu_idle := (cpu_idle s)(c := False)\<rparr>"
  have same: "sched_same ?s1 s'"
    using assms(2) unfolding run_enter_def Let_def
    by (auto simp: sched_same_def sview_def split: if_splits)
  let ?a = "proc_sched c (away p s)"
  have i: "sinv (pstate ?a) (runcpu ?a) (waitchild ?a) (parent ?a) (cpu_runs ?a) q" and rq: "ready_q ?a q"
    using assms(1) by (simp_all add: runnable_def sched_inv_def)
  have "pstate ?s1 = (pstate ?a)(p := PROC_RUN)" "runcpu ?s1 = (runcpu ?a)(p := Some c)"
    "waitchild ?s1 = waitchild ?a" "parent ?s1 = parent ?a" "rnext ?s1 = rnext ?a"
    by (auto simp: away_def)
  moreover have "cpu_runs ?s1 = (cpu_runs ?a)(c := Some p)"
    by (auto simp: cpu_runs_def away_def proc_sched_def)
  moreover have "sinv ((pstate ?a)(p := PROC_RUN)) ((runcpu ?a)(p := Some c)) (waitchild ?a) (parent ?a)
      ((cpu_runs ?a)(c := Some p)) q"
    using i by (rule sinv_run) (auto simp: away_def)
  moreover have "chain (rnext ?a) (readyhead ?s1) q \<and> readytail ?s1 = (if q = [] then None else Some (last q))"
    using rq unfolding ready_q_def by (simp add: away_def)
  ultimately have "sched_inv ?s1 q \<and> cpu_runs ?s1 c = Some p"
    unfolding sched_inv_def ready_q_def by (simp only: fun_upd_same simp_thms)
  with same show ?thesis by (simp only: sched_inv_same sched_sameD)
qed

lemma sched_inv_run_state: "sched_inv s q \<Longrightarrow> cpu_runs s c = Some p \<Longrightarrow> pstate s p = PROC_RUN \<and> runcpu s p = Some c"
  unfolding sched_inv_def sinv_def by blast

lemma sched_inv_waiter:
  "sched_inv s q \<Longrightarrow> pstate s v = PROC_WAIT \<Longrightarrow> waitchild s v = Some p \<Longrightarrow> parent s p = Some v"
  unfolding sched_inv_def sinv_def by fastforce

lemma cpu_runs_proc: "cpu_runs s c = Some p \<Longrightarrow> cpu_proc s c = Some p"
  by (simp add: cpu_runs_def split: if_splits)

lemma proc_save_sched_inv:
  assumes "proc_save c p tf e s = Some s'" and "sched_inv (proc_sched c s) q"
  shows "sched_inv (proc_sched c s') q"
  using assms proc_save_same sched_same_sched sched_inv_same by blast

lemma proc_wait_inv:
  assumes inv: "sched_inv s q" and c: "cpu_runs s c = Some p" and par: "parent s cp = Some p"
    and run: "proc_wait c p cp tf s = Some s'"
  shows "sched_inv s' q"
proof -
  let ?f = "\<lambda>q. q\<lparr>p_state := PROC_WAIT, p_runcpu := None, p_waitchild := Some cp\<rparr>"
  from run obtain s2 where s2: "pstate s cp \<noteq> PROC_STOP" "proc_save c p tf 0 (upd_proc p ?f s) = Some s2"
    "s' = proc_sched c s2"
    by (auto simp: proc_wait_def elim!: bind_SomeE)
  have "sched_inv (proc_sched c (upd_proc p ?f s)) q"
    using inv c by (rule sched_inv_leave) (use par s2(1) in auto)
  with s2 show ?thesis using proc_save_sched_inv by blast
qed

lemma sched_inv_cong:
  assumes "readyhead s' = readyhead s" "readytail s' = readytail s" "rnext s' = rnext s" "pstate s' = pstate s"
    "runcpu s' = runcpu s" "parent s' = parent s" "cpu_runs s' = cpu_runs s"
    "\<And>v. pstate s v = PROC_WAIT \<Longrightarrow> waitchild s' v = waitchild s v"
  shows "sched_inv s' q = sched_inv s q"
proof -
  have "sinv (pstate s) (runcpu s) (waitchild s') (parent s) (cpu_runs s) q =
      sinv (pstate s) (runcpu s) (waitchild s) (parent s) (cpu_runs s) q"
    unfolding sinv_def using assms(8) by auto
  then show ?thesis unfolding sched_inv_def ready_q_def assms(1-7) by simp
qed

lemma sched_inv_away:
  assumes "sched_inv s q" and "pstate s p \<notin> {PROC_READY, PROC_RUN}"
  shows "sched_inv (away p s) q"
proof -
  have "rnext (away p s) = rnext s" "runcpu (away p s) = runcpu s" "waitchild (away p s) = waitchild s"
    "parent (away p s) = parent s" "cpu_runs (away p s) = cpu_runs s" "readyhead (away p s) = readyhead s"
    "readytail (away p s) = readytail s" "pstate (away p s) = (pstate s)(p := PROC_AWAY)"
    by (auto simp: away_def cpu_runs_def)
  moreover have "sinv ((pstate s)(p := PROC_AWAY)) (runcpu s) (waitchild s) (parent s) (cpu_runs s) q"
    using assms unfolding sched_inv_def sinv_def by (auto split: if_splits)
  ultimately show ?thesis using assms(1) unfolding sched_inv_def ready_q_def by (simp only:)
qed

lemma proc_ret_enter_inv:
  assumes inv: "sched_inv s q" and ret: "proc_ret_enter c tf e s = Some (nxt, s')" and c: "\<not> cpu_idle s c"
  shows "case nxt of RetRun p \<Rightarrow> runnable c p s' q | RetSched \<Rightarrow> sched_inv (proc_sched c s') q | _ \<Rightarrow> s' = s"
proof -
  from ret obtain cp where cp: "cpu_proc s c = Some cp" by (auto simp: proc_ret_enter_def elim!: bind_SomeE)
  with c have runs: "cpu_runs s c = Some cp" by (simp add: cpu_runs_def)
  show ?thesis
  proof (cases "net_node s \<noteq> RRNODE (p_home (procs s cp)) \<or> parent s cp = None")
    case True
    with ret cp show ?thesis
      by (auto simp: proc_ret_enter_def split: if_splits option.splits)
  next
    case False
    then obtain p where p: "parent s cp = Some p" by auto
    let ?f = "\<lambda>q. q\<lparr>p_state := PROC_STOP, p_runcpu := None\<rparr>"
    let ?s1 = "upd_proc cp ?f s"
    from ret cp False p obtain s2 where save: "proc_save c cp tf e ?s1 = Some s2"
      and nxt: "(if pstate s2 p = PROC_WAIT \<and> waitchild s2 p = Some cp
           then (RetRun p, upd_proc p (\<lambda>q. q\<lparr>p_waitchild := None\<rparr>) s2) else (RetSched, s2)) = (nxt, s')"
      by (auto simp: proc_ret_enter_def elim!: bind_SomeE split: if_splits)
    have same: "sched_same ?s1 s2" using proc_save_same [OF save] ..
    have st2: "pstate s2 v = (if v = cp then PROC_STOP else pstate s v)" "waitchild s2 v = waitchild s v"
      "rnext s2 v = rnext s v" "parent s2 v = parent s v"
      "runcpu s2 v = (if v = cp then None else runcpu s v)" for v
      using same [unfolded sched_same_def sview_def] by auto
    show ?thesis
    proof (cases "pstate s2 p = PROC_WAIT \<and> waitchild s2 p = Some cp")
      case False
      with nxt have n: "nxt = RetSched" "s' = s2" by auto
      have "\<forall>v. pstate s v = PROC_WAIT \<longrightarrow> waitchild s v \<noteq> Some cp"
      proof (intro allI impI notI)
        fix v assume v: "pstate s v = PROC_WAIT" "waitchild s v = Some cp"
        then have "v = p" using sched_inv_waiter [OF inv v] p by simp
        moreover have "pstate s cp = PROC_RUN" using sched_inv_run_state [OF inv runs] ..
        ultimately show False using v False st2 by (auto split: if_splits)
      qed
      then have "sched_inv (proc_sched c ?s1) q"
        using sched_inv_leave [OF inv runs, of PROC_STOP ?f "waitchild s cp"] by simp
      with n save show ?thesis using proc_save_sched_inv by simp
    next
      case True
      with nxt have n: "nxt = RetRun p" "s' = upd_proc p (\<lambda>q. q\<lparr>p_waitchild := None\<rparr>) s2" by auto
      have pne: "p \<noteq> cp" using True st2 by auto
      then have pw: "pstate s p = PROC_WAIT" "waitchild s p = Some cp" using True st2 by simp_all
      let ?a = "upd_proc cp ?f (away p s)"
      have inva: "sched_inv (away p s) q" using inv pw by (intro sched_inv_away) simp_all
      have runs': "cpu_runs (away p s) c = Some cp" using runs by (simp add: cpu_runs_def away_def split: if_splits)
      have "\<forall>v. pstate (away p s) v = PROC_WAIT \<longrightarrow> waitchild (away p s) v \<noteq> Some cp"
        using sched_inv_waiter [OF inv] p by (auto simp: away_def)
      then have "sched_inv (proc_sched c ?a) q"
        using sched_inv_leave [OF inva runs', of PROC_STOP ?f "waitchild s cp"] pne by (simp add: away_def)
      moreover have "sched_inv (proc_sched c (away p s')) q = sched_inv (proc_sched c ?a) q"
        unfolding n(2)
        by (rule sched_inv_cong)
          (use st2 same pne in \<open>auto simp: away_def fun_eq_iff sched_same_def cpu_runs_def proc_sched_def\<close>)
      ultimately show ?thesis using n(1) by (simp add: runnable_def)
    qed
  qed
qed

lemma net_migrate_inv:
  assumes inv: "sched_inv s q" and c: "\<not> cpu_idle s c" and run: "net_migrate c tf n e s = Some s'"
  shows "sched_inv s' q"
proof -
  from run obtain p s1 s2 s4 where p: "cpu_proc s c = Some p" and save: "proc_save c p tf e s = Some s1"
    and share: "net_rrshare p n s1 = Some s2"
    and tx: "net_txmigrq p ((upd_proc p (\<lambda>q. q\<lparr>p_state := PROC_MIGR, p_migrdest := n, p_migrnext := net_migrlist s2\<rparr>) s2)
       \<lparr>net_migrlist := Some p\<rparr>) = Some s4" and s': "s' = proc_sched c s4"
    by (auto simp: net_migrate_def Let_def elim!: bind_SomeE)
  let ?f = "\<lambda>q. q\<lparr>p_state := PROC_MIGR, p_migrdest := n, p_migrnext := net_migrlist s2\<rparr>"
  have same: "sched_same s s2"
    using proc_save_same [OF save] net_rrshare_same [OF share] sched_same_trans by blast
  then have inv2: "sched_inv s2 q" using inv sched_inv_same by blast
  have runs: "cpu_runs s2 c = Some p"
    using p c sched_sameD(6) [OF same] by (simp add: cpu_runs_def)
  have "sched_inv (proc_sched c (upd_proc p ?f s2)) q"
    using inv2 runs by (rule sched_inv_leave) auto
  moreover have "sched_same (upd_proc p ?f s2) s4"
    using net_txmigrq_same [OF tx] by (rule sched_same_trans [rotated]) (simp add: sched_same_def)
  ultimately show ?thesis
    unfolding s' using sched_same_sched sched_inv_same by blast
qed

lemma proc_run_inv:
  assumes ret: "proc_run c p s = Some s'" and "runnable c p s q"
  shows "sched_inv s' q"
proof -
  have "runnable c p s q \<longrightarrow> sched_inv s' q"
  proof (rule proc_run.raw_induct [where P = "\<lambda>c p s s'. runnable c p s q \<longrightarrow> sched_inv s' q", OF _ ret])
    fix f c p s r
    assume IH: "\<And>c p s r. f c p s = Some r \<Longrightarrow> runnable c p s q \<longrightarrow> sched_inv r q"
      and eq: "(case run_enter c p s of None \<Rightarrow> None | Some (expired, s1) \<Rightarrow>
          if \<not> expired then Some s1
          else case proc_ret_enter c (sv_tf (p_sv (procs s1 p))) (- 1) s1 of None \<Rightarrow> None
          | Some (nxt, s2) \<Rightarrow>
              (case nxt of RetRun pp \<Rightarrow> f c pp s2 | RetSched \<Rightarrow> Some (proc_sched c s2)
               | RetMigrate node e \<Rightarrow> net_migrate c (sv_tf (p_sv (procs s1 p))) node e s2 | RetIO \<Rightarrow> Some s2)) = Some r"
    show "runnable c p s q \<longrightarrow> sched_inv r q"
    proof
      assume run: "runnable c p s q"
      from eq obtain b s1 where en: "run_enter c p s = Some (b, s1)" by (auto split: option.splits)
      note inv1 = run_enter_inv [OF run en]
      then have c1: "\<not> cpu_idle s1 c" by (auto simp: cpu_runs_def split: if_splits)
      show "sched_inv r q"
      proof (cases b)
        case False
        with eq en inv1 show ?thesis by simp
      next
        case True
        with eq en obtain nxt s2 where re: "proc_ret_enter c (sv_tf (p_sv (procs s1 p))) (- 1) s1 = Some (nxt, s2)"
          and k: "(case nxt of RetRun pp \<Rightarrow> f c pp s2 | RetSched \<Rightarrow> Some (proc_sched c s2)
               | RetMigrate node e \<Rightarrow> net_migrate c (sv_tf (p_sv (procs s1 p))) node e s2 | RetIO \<Rightarrow> Some s2) = Some r"
          by (auto split: option.splits)
        from proc_ret_enter_inv [OF _ re c1] inv1
        have "case nxt of RetRun p \<Rightarrow> runnable c p s2 q | RetSched \<Rightarrow> sched_inv (proc_sched c s2) q | _ \<Rightarrow> s2 = s1"
          by blast
        with k IH inv1 c1 net_migrate_inv show ?thesis
          by (auto split: ret_next.splits)
      qed
    qed
  qed
  with assms(2) show ?thesis by blast
qed

lemma proc_ret_inv:
  assumes inv: "sched_inv s q" and c: "\<not> cpu_idle s c" and ret: "proc_ret c tf e s = Some s'"
  shows "sched_inv s' q"
proof -
  from ret obtain nxt s1 where re: "proc_ret_enter c tf e s = Some (nxt, s1)"
    and k: "(case nxt of RetRun p \<Rightarrow> proc_run c p s1 | RetSched \<Rightarrow> Some (proc_sched c s1)
      | RetMigrate node e \<Rightarrow> net_migrate c tf node e s1 | RetIO \<Rightarrow> Some s1) = Some s'"
    by (auto simp: proc_ret_def elim!: bind_SomeE)
  from proc_ret_enter_inv [OF inv re c] k inv c show ?thesis
    by (auto split: ret_next.splits intro: proc_run_inv net_migrate_inv)
qed

lemma proc_ready_inv:
  assumes inv: "sched_inv s q" and p: "pstate s p \<notin> {PROC_READY, PROC_RUN}"
  shows "sched_inv (proc_ready p s) (q @ [p])"
proof -
  have nin: "p \<notin> set q" using assms unfolding sched_inv_def sinv_def by auto
  have "ready_q (proc_ready p s) (q @ [p])"
    using inv nin by (intro rq.enq_queue) (auto simp: sched_inv_def)
  moreover have "pstate (proc_ready p s) = (pstate s)(p := PROC_READY)" "runcpu (proc_ready p s) = runcpu s"
    "waitchild (proc_ready p s) = waitchild s" "parent (proc_ready p s) = parent s"
    "cpu_runs (proc_ready p s) = cpu_runs s"
    by (auto simp: fun_eq_iff Let_def cpu_runs_def)
  moreover have "sinv ((pstate s)(p := PROC_READY)) (runcpu s) (waitchild s) (parent s) (cpu_runs s) (q @ [p])"
    using inv p by (intro sinv_enq) (auto simp: sched_inv_def)
  ultimately show ?thesis unfolding sched_inv_def by (simp only:)
qed

lemma proc_sched_pick_inv:
  assumes inv: "sched_inv s q" and idle: "cpu_idle s c" and pick: "proc_sched_pick c p s = Some s'"
  shows "sched_inv s' (tl q)"
proof -
  from pick obtain s1 where hd: "readyhead s = Some p" and dq: "proc_dequeue p s = Some s1"
    and run: "proc_run c p s1 = Some s'"
    by (auto simp: proc_sched_pick_def elim!: bind_SomeE)
  have rq: "ready_q s q" using inv by (simp add: sched_inv_def)
  with hd obtain q' where q: "q = p # q'" by (cases q) (auto simp: ready_q_def)
  have nin: "p \<notin> set q'" using rq.queue_distinct [OF rq] q by simp
  have s1: "s1 = upd_proc p (\<lambda>x. x\<lparr>p_readynext := None\<rparr>)
    (s\<lparr>readyhead := rnext s p, readytail := (if q' = [] then None else readytail s)\<rparr>)"
    using proc_dequeue_state rq dq q by simp
  have rq1: "ready_q s1 q'" using rq.deq_queue rq dq q by fastforce
  have "pstate (proc_sched c (away p s1)) = (pstate s)(p := PROC_AWAY)" "runcpu (proc_sched c (away p s1)) = runcpu s"
    "waitchild (proc_sched c (away p s1)) = waitchild s" "parent (proc_sched c (away p s1)) = parent s"
    "cpu_runs (proc_sched c (away p s1)) = cpu_runs s"
    using idle by (auto simp: s1 away_def fun_eq_iff cpu_runs_def proc_sched_def)
  moreover have "rnext (away p s1) = rnext s1" by (auto simp: away_def)
  then have "ready_q (proc_sched c (away p s1)) q'"
    using rq1 unfolding proc_sched_simps ready_q_def by (simp only:) (simp add: away_def)
  moreover have "sinv ((pstate s)(p := PROC_AWAY)) (runcpu s) (waitchild s) (parent s) (cpu_runs s) q'"
    using inv nin q by (intro sinv_deq) (auto simp: sched_inv_def)
  ultimately have "runnable c p s1 q'" unfolding runnable_def sched_inv_def by (simp only:)
  with run q show ?thesis using proc_run_inv by simp
qed

lemma proc_yield_inv:
  assumes inv: "sched_inv s q" and c: "\<not> cpu_idle s c" and y: "proc_yield c tf s = Some s'"
  shows "\<exists>p. sched_inv s' (q @ [p])"
proof -
  from y obtain p s2 where p: "cpu_proc s c = Some p"
    and save: "proc_save c p tf (- 1) (upd_proc p (\<lambda>q. q\<lparr>p_runcpu := None\<rparr>) s) = Some s2"
    and s': "s' = proc_sched c (proc_ready p s2)"
    by (auto simp: proc_yield_def Let_def elim!: bind_SomeE)
  have runs: "cpu_runs s c = Some p" using p c by (simp add: cpu_runs_def)
  let ?f = "\<lambda>q. q\<lparr>p_state := PROC_AWAY, p_runcpu := None\<rparr>"
  have same: "sched_same (upd_proc p (\<lambda>q. q\<lparr>p_runcpu := None\<rparr>) s) s2" using proc_save_same [OF save] ..
  have "sched_inv (proc_sched c (upd_proc p ?f s)) q"
    using inv runs by (rule sched_inv_leave) auto
  moreover have "sched_inv (proc_sched c (away p s2)) q = sched_inv (proc_sched c (upd_proc p ?f s)) q"
    by (rule sched_inv_cong)
      (use same in \<open>auto simp: away_def fun_eq_iff sched_same_def sview_def cpu_runs_def proc_sched_def\<close>)
  ultimately have "sched_inv (proc_sched c (away p s2)) q" by simp
  then have "sched_inv (proc_ready p (proc_sched c (away p s2))) (q @ [p])"
    by (rule proc_ready_inv) (simp add: away_def)
  moreover have "sched_inv s' (q @ [p]) = sched_inv (proc_ready p (proc_sched c (away p s2))) (q @ [p])"
    unfolding s' by (rule sched_inv_cong)
      (auto simp: away_def fun_eq_iff Let_def cpu_runs_def proc_sched_def)
  ultimately show ?thesis by blast
qed

subsection \<open>Reachable states\<close>

text \<open>One step of one processor: a running process returns, waits for a child of its own, yields,
  migrates or starts a stopped child; an idle processor picks a process; and the kernel starts
  the root process, which has no parent.\<close>

inductive sched_step :: "kst \<Rightarrow> kst \<Rightarrow> bool" where
  ret: "\<not> cpu_idle s c \<Longrightarrow> proc_ret c tf e s = Some s' \<Longrightarrow> sched_step s s'"
| wait: "cpu_runs s c = Some p \<Longrightarrow> parent s cp = Some p \<Longrightarrow> proc_wait c p cp tf s = Some s' \<Longrightarrow> sched_step s s'"
| yield: "\<not> cpu_idle s c \<Longrightarrow> proc_yield c tf s = Some s' \<Longrightarrow> sched_step s s'"
| migrate: "\<not> cpu_idle s c \<Longrightarrow> net_migrate c tf n e s = Some s' \<Longrightarrow> sched_step s s'"
| start: "parent s cp = None \<or> cpu_runs s c = parent s cp \<Longrightarrow> pstate s cp = PROC_STOP \<Longrightarrow>
    sched_step s (proc_ready cp s)"
| pick: "cpu_idle s c \<Longrightarrow> proc_sched_pick c p s = Some s' \<Longrightarrow> sched_step s s'"

text \<open>Before the root process exists: all processes stopped, all processors idle, the queue empty.\<close>

definition sched_init :: "kst \<Rightarrow> bool" where
  "sched_init s \<longleftrightarrow> (\<forall>p. pstate s p = PROC_STOP) \<and> (\<forall>c. cpu_idle s c) \<and> readyhead s = None \<and> readytail s = None"

inductive sched_reachable :: "kst \<Rightarrow> bool" where
  init: "sched_init s \<Longrightarrow> sched_reachable s"
| step: "sched_reachable s \<Longrightarrow> sched_step s s' \<Longrightarrow> sched_reachable s'"

lemma sched_init_inv: "sched_init s \<Longrightarrow> sched_inv s []"
  by (simp add: sched_init_def sched_inv_def ready_q_def sinv_def cpu_runs_def)

lemma sched_step_inv:
  assumes "sched_step s s'" and "sched_inv s q"
  shows "\<exists>q'. sched_inv s' q'"
  using assms(1)
proof cases
  case (ret c tf e)
  then show ?thesis using proc_ret_inv [OF assms(2)] by blast
next
  case (wait c p cp tf)
  then show ?thesis using proc_wait_inv [OF assms(2)] by blast
next
  case (yield c tf)
  then show ?thesis using proc_yield_inv [OF assms(2)] by blast
next
  case (migrate c tf n e)
  then show ?thesis using net_migrate_inv [OF assms(2)] by blast
next
  case (start cp c)
  then show ?thesis using proc_ready_inv [OF assms(2), of cp] by auto
next
  case (pick c p)
  then show ?thesis using proc_sched_pick_inv [OF assms(2)] by blast
qed

lemma sched_reachable_inv: "sched_reachable s \<Longrightarrow> \<exists>q. sched_inv s q"
proof (induction rule: sched_reachable.induct)
  case (init s)
  then show ?case using sched_init_inv by blast
next
  case (step s s')
  then show ?case using sched_step_inv by blast
qed


definition demo_kernel :: kst where
  "demo_kernel = \<lparr>mem_npage = 16, mem_pageinfo = (\<lambda>_. zero_pageinfo), mem_freelist = None, pmap_zero = 8,
     kern_start = 8, kern_last = 8, phys = (\<lambda>_. 0), pmap_bootpmap = 9, procs = (\<lambda>_. zero_proc),
     readyhead = None, readytail = None, cpu_proc = (\<lambda>_. None), cpu_idle = (\<lambda>_. True),
     cpu_recover = (\<lambda>_. False), cpu_recoverdata = (\<lambda>_. None), cpu_fx = (\<lambda>_. zero_fx), cpu_ts = (\<lambda>_. True),
     cpu_pmc = (\<lambda>_. 0), cpu_limit = 4, pmc_on = False, pmc_safety = 80, pmc_overshoot = 0, net_node = 1, net_mac = [2, 0, 0, 0, 0, 1],
     net_migrlist = None, net_pulllist = None, net_ticks = 0, net_out = [], cons_out = []\<rparr>"

lemma demo_kernel_init: "sched_init demo_kernel"
  by (simp add: sched_init_def demo_kernel_def zero_proc_def)

theorem ready_queue_fifo_witness:
  "\<exists>s'. sched_take 3 (fold proc_ready [5, 7, 6] demo_kernel) = Some ([5, 7, 6], s') \<and> ready_q s' []"
proof -
  have "ready_q demo_kernel []" by (simp add: ready_q_def demo_kernel_def)
  from ready_queue_fifo [OF this, of "[5, 7, 6]"] show ?thesis by (simp add: numeral_3_eq_3)
qed

text \<open>The root process, in page 5, is made ready and picked by processor 0.\<close>

definition demo_running :: kst where
  "demo_running = the (proc_sched_pick 0 5 (proc_ready 5 demo_kernel))"

lemma demo_running_eq: "proc_sched_pick 0 5 (proc_ready 5 demo_kernel) = Some demo_running"
  and demo_running_cpu: "cpu_runs demo_running 0 = Some 5"
proof -
  have *: "\<exists>s. proc_sched_pick 0 5 (proc_ready 5 demo_kernel) = Some s \<and> cpu_runs s 0 = Some 5"
    by (simp add: proc_sched_pick_def proc_dequeue_def cpu_disabled_def demo_kernel_def proc_ready_def Let_def upd_proc_def)
      (simp add: proc_run.simps run_enter_def upd_proc_def Let_def zero_proc_def zero_sv_def zero_tf_def flag32_def
        has_def cpu_runs_def)
  then show "proc_sched_pick 0 5 (proc_ready 5 demo_kernel) = Some demo_running" "cpu_runs demo_running 0 = Some 5"
    by (auto simp: demo_running_def)
qed


end
