(* ===== verification/Syscall.thy ===== *)
theory Syscall
  imports Proc
begin

text \<open>
  System calls (\<open>kern/syscall.c\<close>): argument checks, copying between user and kernel memory, and the
  handlers of \<open>PUT\<close>, \<open>GET\<close>, \<open>RET\<close>, \<open>CPUTS\<close>, \<open>TIME\<close> and \<open>NCPU\<close>.

  A handler either ends with \<open>trap_return\<close>, which resumes the caller with a trap frame, or its
  processor goes on with something else (the process waits, migrates or was stopped), or control
  returns to \<open>trap\<close>, which treats the call as an ordinary trap. Steps that can end the handler early
  are sequenced with \<open>andthen\<close>.

  Memory accesses of the kernel go through the running process's page map: below \<open>VM_USERLO\<close> and
  from \<open>VM_KERNLO\<close> on it maps physical memory, as \<open>pmap_init\<close> set it up, and in between the process's
  tables apply, write protection included (the boot code sets \<open>CR0_WP\<close>).
\<close>

subsection \<open>Steps that may end a handler\<close>

datatype sysout = Resume trapframe | Switched | OrdinaryTrap

type_synonym 'r sysres = "(kst + 'r \<times> kst) option"

definition andthen :: "'a sysres \<Rightarrow> ('a \<Rightarrow> kst \<Rightarrow> 'b sysres) \<Rightarrow> 'b sysres" where
  "andthen m f = (case m of None \<Rightarrow> None | Some (Inl s) \<Rightarrow> Some (Inl s) | Some (Inr (a, s)) \<Rightarrow> f a s)"

definition goon :: "'a \<Rightarrow> kst \<Rightarrow> 'a sysres" where "goon a s = Some (Inr (a, s))"

definition stop_with :: "kst option \<Rightarrow> 'a sysres" where "stop_with r = map_option Inl r"

definition always :: "kst option \<Rightarrow> unit sysres" where "always r = map_option (\<lambda>s. Inr ((), s)) r"

definition guard :: "bool \<Rightarrow> kst option \<Rightarrow> kst \<Rightarrow> unit sysres" where
  "guard b r s = (if b then stop_with r else goon () s)"

lemma andthen_simps [simp]:
  "andthen (goon a s) f = f a s" "andthen None f = None" "andthen (stop_with r) f = stop_with r"
  by (cases r; simp add: andthen_def goon_def stop_with_def)+

lemma always_guard_simps [simp]:
  "andthen (always (Some s)) f = f () s" "andthen (always None) f = None"
  "guard False r s = goon () s" "guard True r s = stop_with r"
  by (simp_all add: andthen_def goon_def stop_with_def always_def guard_def)

subsection \<open>Layout of the saved state\<close>

definition to_le :: "nat \<Rightarrow> 'a :: len word \<Rightarrow> u8 list" where
  "to_le n w = map (\<lambda>i. ucast (drop_bit (8 * i) w)) [0..<n]"

fun of_le :: "u8 list \<Rightarrow> 'a :: len word" where
  "of_le [] = 0"
| "of_le (b # bs) = ucast b OR push_bit 8 (of_le bs)"

text \<open>Field of \<open>n\<close> bytes at an offset; the padding after a 16- or 32-bit field reads as zero.\<close>

definition fld :: "nat \<Rightarrow> nat \<Rightarrow> u8 list \<Rightarrow> 'a :: len word" where
  "fld off n bs = of_le (take n (drop off bs))"

definition pad_to :: "nat \<Rightarrow> u8 list \<Rightarrow> u8 list" where
  "pad_to n bs = bs @ replicate (n - length bs) 0"

definition tf_bytes :: "trapframe \<Rightarrow> u8 list" where
  "tf_bytes tf =
     concat (map (\<lambda>w. pad_to 8 (to_le 2 w)) [tf_gs tf, tf_fs tf, tf_es tf, tf_ds tf]) @
     concat (map (to_le 8) [tf_r15 tf, tf_r14 tf, tf_r13 tf, tf_r12 tf, tf_r11 tf, tf_r10 tf, tf_r9 tf, tf_r8 tf,
        tf_rbp tf, tf_rdi tf, tf_rsi tf, tf_rdx tf, tf_rcx tf, tf_rbx tf, tf_rax tf, tf_trapno tf]) @
     pad_to 8 (to_le 4 (tf_err tf)) @ to_le 8 (tf_rip tf) @ pad_to 8 (to_le 2 (tf_cs tf)) @
     to_le 8 (tf_rflags tf) @ to_le 8 (tf_rsp tf) @ pad_to 8 (to_le 2 (tf_ss tf))"

definition tf_of :: "u8 list \<Rightarrow> trapframe" where
  "tf_of bs = \<lparr>tf_gs = fld 0 2 bs, tf_fs = fld 8 2 bs, tf_es = fld 16 2 bs, tf_ds = fld 24 2 bs,
     tf_r15 = fld 32 8 bs, tf_r14 = fld 40 8 bs, tf_r13 = fld 48 8 bs, tf_r12 = fld 56 8 bs,
     tf_r11 = fld 64 8 bs, tf_r10 = fld 72 8 bs, tf_r9 = fld 80 8 bs, tf_r8 = fld 88 8 bs,
     tf_rbp = fld 96 8 bs, tf_rdi = fld 104 8 bs, tf_rsi = fld 112 8 bs, tf_rdx = fld 120 8 bs,
     tf_rcx = fld 128 8 bs, tf_rbx = fld 136 8 bs, tf_rax = fld 144 8 bs, tf_trapno = fld 152 8 bs,
     tf_err = fld 160 4 bs, tf_rip = fld 168 8 bs, tf_cs = fld 176 2 bs, tf_rflags = fld 184 8 bs,
     tf_rsp = fld 192 8 bs, tf_ss = fld 200 2 bs\<rparr>"

definition fx_bytes :: "fxsave \<Rightarrow> u8 list" where
  "fx_bytes fx = to_le 2 (fx_fcw fx) @ take 22 (fx_rest fx) @ to_le 4 (fx_mxcsr fx) @ drop 22 (fx_rest fx)"

definition fx_of :: "u8 list \<Rightarrow> fxsave" where
  "fx_of bs = \<lparr>fx_fcw = fld 0 2 bs, fx_mxcsr = fld 24 4 bs, fx_rest = take 22 (drop 2 bs) @ drop 28 bs\<rparr>"

definition offsetof_fx :: nat where "offsetof_fx = 224"
definition sizeof_procstate :: nat where "sizeof_procstate = 736"

definition sv_bytes :: "procstate \<Rightarrow> u8 list" where
  "sv_bytes sv = tf_bytes (sv_tf sv) @ to_le 4 (sv_pff sv) @ to_le 4 (sv_icnt sv) @ to_le 4 (sv_imax sv) @
     replicate 4 0 @ fx_bytes (sv_fx sv)"

definition sv_of :: "u8 list \<Rightarrow> procstate" where
  "sv_of bs = \<lparr>sv_tf = tf_of bs, sv_pff = fld 208 4 bs, sv_icnt = fld 212 4 bs, sv_imax = fld 216 4 bs,
     sv_fx = fx_of (drop offsetof_fx bs)\<rparr>"

subsection \<open>Memory accesses\<close>

text \<open>The entry that maps \<open>va\<close>, present on every level, and writable on every level.\<close>

fun hw_writable :: "nat \<Rightarrow> nat \<Rightarrow> nat \<Rightarrow> kst \<Rightarrow> bool" where
  "hw_writable 0 pmtab va s = (has (phys s (pmtab + PDX 0 va)) PTE_P \<and> has (phys s (pmtab + PDX 0 va)) PTE_W)"
| "hw_writable (Suc l) pmtab va s =
     (let e = phys s (pmtab + PDX (Suc l) va)
      in has e PTE_P \<and> has e PTE_W \<and> hw_writable l (tabptr (pte_page e)) va s)"

definition kern_phys :: "nat \<Rightarrow> nat option" where
  "kern_phys va = (if va < VM_USERLO then Some va
     else if unat VM_KERNLO \<le> va then Some (va - unat VM_KERNLO) else None)"

definition user_phys :: "nat \<Rightarrow> nat \<Rightarrow> kst \<Rightarrow> nat option" where
  "user_phys pml4 va s = do {
     cassert (va < VM_USERHI);
     pa \<leftarrow> va2pa pml4 va s;
     Some (unat pa + PGOFF va)
   }"

definition load_byte :: "nat \<Rightarrow> nat \<Rightarrow> kst \<Rightarrow> u8 option" where
  "load_byte pml4 va s =
     (case kern_phys va of Some a \<Rightarrow> Some (rd_byte a s)
      | None \<Rightarrow> map_option (\<lambda>a. rd_byte a s) (user_phys pml4 va s))"

text \<open>The bytes that a copy of \<open>n\<close> bytes reads before it faults, if it does.\<close>

fun load_bytes :: "nat \<Rightarrow> nat \<Rightarrow> nat \<Rightarrow> kst \<Rightarrow> u8 list" where
  "load_bytes pml4 va 0 s = []"
| "load_bytes pml4 va (Suc n) s =
     (case load_byte pml4 va s of None \<Rightarrow> [] | Some b \<Rightarrow> b # load_bytes pml4 (Suc va mod 2 ^ 64) n s)"

definition store_try :: "nat \<Rightarrow> nat \<Rightarrow> u8 \<Rightarrow> kst \<Rightarrow> kst option" where
  "store_try pml4 va b s =
     (case kern_phys va of Some a \<Rightarrow> Some (wr_byte a b s)
      | None \<Rightarrow> if va < VM_USERHI \<and> hw_writable NPTLVLS pml4 va s
                then map_option (\<lambda>a. wr_byte a b s) (user_phys pml4 va s) else None)"

text \<open>A store of the kernel to user memory. A write fault first goes to the copy-on-write handler;
  when that succeeds the store is repeated, otherwise the fault is reported (\<open>False\<close>).\<close>

definition store_byte :: "nat \<Rightarrow> nat \<Rightarrow> u8 \<Rightarrow> kst \<Rightarrow> (bool \<times> kst) option" where
  "store_byte pml4 va b s =
     (case store_try pml4 va b s of
        Some s1 \<Rightarrow> Some (True, s1)
      | None \<Rightarrow> do {
          (handled, s1) \<leftarrow> pmap_pagefault pml4 va PFE_WR s;
          (if handled then do { s2 \<leftarrow> store_try pml4 va b s1; Some (True, s2) } else Some (False, s1))
        })"

fun store_bytes :: "nat \<Rightarrow> nat \<Rightarrow> u8 list \<Rightarrow> kst \<Rightarrow> (bool \<times> kst) option" where
  "store_bytes pml4 va [] s = Some (True, s)"
| "store_bytes pml4 va (b # bs) s = do {
     (ok, s1) \<leftarrow> store_byte pml4 va b s;
     (if ok then store_bytes pml4 (Suc va mod 2 ^ 64) bs s1 else Some (False, s1))
   }"

subsection \<open>Traps on behalf of the caller\<close>

definition systrap :: "nat \<Rightarrow> trapframe \<Rightarrow> u64 \<Rightarrow> u32 \<Rightarrow> kst \<Rightarrow> kst option" where
  "systrap c utf trapno err s = proc_ret c (utf\<lparr>tf_trapno := trapno, tf_err := err\<rparr>) 0 s"

text \<open>Recovery from a fault in a copy. The user's trap frame is found through the processor's
  \<open>recoverdata\<close>, which \<open>usercopy\<close> leaves as it is: it is a null pointer once booting is over, so
  the frame is whatever lies at that address.\<close>

fun put_bytes :: "nat \<Rightarrow> u8 list \<Rightarrow> kst \<Rightarrow> kst" where
  "put_bytes a [] s = s"
| "put_bytes a (b # bs) s = put_bytes (Suc a) bs (wr_byte a b s)"

definition sysrecover :: "nat \<Rightarrow> u64 \<Rightarrow> u32 \<Rightarrow> kst \<Rightarrow> kst option" where
  "sysrecover c trapno err s = do {
     let utf = (case cpu_recoverdata s c of None \<Rightarrow> 0 | Some a \<Rightarrow> a);
     let s1 = s\<lparr>cpu_recover := (cpu_recover s)(c := False)\<rparr>;
     let s2 = put_bytes (utf + 160) (to_le 4 err) (put_bytes (utf + 152) (to_le 8 trapno) s1);
     proc_ret c (tf_of (map (\<lambda>i. rd_byte (utf + i) s2) [0..<208])) 0 s2
   }"

subsection \<open>Copying\<close>

text \<open>The parameter \<open>uva\<close> of \<open>checkva\<close> has 32 bits.\<close>

definition checkva_ok :: "u64 \<Rightarrow> nat \<Rightarrow> bool" where
  "checkva_ok uva sz \<longleftrightarrow> (let a = unat (ucast uva :: u32)
     in VM_USERLO \<le> a \<and> a < VM_USERHI \<and> sz < VM_USERHI - a)"

definition checkva :: "nat \<Rightarrow> trapframe \<Rightarrow> u64 \<Rightarrow> nat \<Rightarrow> kst \<Rightarrow> unit sysres" where
  "checkva c utf uva sz s = guard (\<not> checkva_ok uva sz) (systrap c utf T_PGFLT 0 s) s"

definition cur_pml4 :: "nat \<Rightarrow> kst \<Rightarrow> nat" where
  "cur_pml4 c s = (case cpu_proc s c of None \<Rightarrow> 0 | Some p \<Rightarrow> p_pml4 (procs s p))"

text \<open>\<open>usercopy\<close> into the kernel and out of it. A copy in that faults has already delivered the bytes
  before the fault (\<open>dst\<close>).\<close>

definition usercopy_in :: "nat \<Rightarrow> trapframe \<Rightarrow> u64 \<Rightarrow> nat \<Rightarrow> (u8 list \<Rightarrow> kst \<Rightarrow> kst) \<Rightarrow> kst \<Rightarrow> u8 list sysres" where
  "usercopy_in c utf uva sz dst s =
     andthen (checkva c utf uva sz s) (\<lambda>_ s.
       if cpu_recover s c then None
       else let bs = load_bytes (cur_pml4 c s) (unat uva) sz s; s1 = dst bs s
            in if length bs = sz then goon bs s1
               else stop_with (sysrecover c T_PGFLT 0 s1))"

definition usercopy_out :: "nat \<Rightarrow> trapframe \<Rightarrow> u64 \<Rightarrow> u8 list \<Rightarrow> kst \<Rightarrow> unit sysres" where
  "usercopy_out c utf uva bs s =
     andthen (checkva c utf uva (length bs) s) (\<lambda>_ s.
       if cpu_recover s c then None
       else case store_bytes (cur_pml4 c s) (unat uva) bs s of
           None \<Rightarrow> None
         | Some (ok, s1) \<Rightarrow> if ok then goon () s1 else stop_with (sysrecover c T_PGFLT 2 s1))"

subsection \<open>Command words\<close>

definition SYS_TYPE :: u32 where "SYS_TYPE = 0x0000000f"
definition SYS_CPUTS :: u32 where "SYS_CPUTS = 0x00000000"
definition SYS_PUT :: u32 where "SYS_PUT = 0x00000001"
definition SYS_GET :: u32 where "SYS_GET = 0x00000002"
definition SYS_RET :: u32 where "SYS_RET = 0x00000003"
definition SYS_TIME :: u32 where "SYS_TIME = 0x00000004"
definition SYS_NCPU :: u32 where "SYS_NCPU = 0x00000005"
definition SYS_START :: u32 where "SYS_START = 0x00000010"
definition SYS_PERM :: u32 where "SYS_PERM = 0x00000100"
definition SYS_REGS :: u32 where "SYS_REGS = 0x00001000"
definition SYS_FPU :: u32 where "SYS_FPU = 0x00002000"
definition SYS_MEMOP :: u32 where "SYS_MEMOP = 0x00030000"
definition SYS_ZERO :: u32 where "SYS_ZERO = 0x00010000"
definition SYS_COPY :: u32 where "SYS_COPY = 0x00020000"
definition SYS_MERGE :: u32 where "SYS_MERGE = 0x00030000"
definition SYS_SNAP :: u32 where "SYS_SNAP = 0x00040000"
definition CPUTS_MAX :: nat where "CPUTS_MAX = 256"

lemmas sys_defs = SYS_TYPE_def SYS_CPUTS_def SYS_PUT_def SYS_GET_def SYS_RET_def SYS_TIME_def SYS_NCPU_def
  SYS_START_def SYS_PERM_def SYS_REGS_def SYS_FPU_def SYS_MEMOP_def SYS_ZERO_def SYS_COPY_def SYS_MERGE_def SYS_SNAP_def

subsection \<open>Handlers\<close>

definition do_cputs :: "nat \<Rightarrow> trapframe \<Rightarrow> kst \<Rightarrow> sysout sysres" where
  "do_cputs c tf s =
     andthen (usercopy_in c tf (tf_rbx tf) CPUTS_MAX (\<lambda>_ s. s) s) (\<lambda>buf s.
       goon (Resume tf) (s\<lparr>cons_out := cons_out s @ [map (char_of o unat) (takeWhile (\<lambda>b. b \<noteq> 0) buf)]\<rparr>))"

text \<open>A memory region that a system call accepts.\<close>

definition region_ok :: "u64 \<Rightarrow> u64 \<Rightarrow> bool" where
  "region_ok va sz \<longleftrightarrow> PGOFF (unat va) = 0 \<and> PGOFF (unat sz) = 0 \<and>
     VM_USERLO \<le> unat va \<and> unat va \<le> VM_USERHI \<and> unat sz \<le> VM_USERHI - unat va"

text \<open>Migrate to the node that the call names, the caller's home when it names none.\<close>

definition sys_migrate :: "nat \<Rightarrow> nat \<Rightarrow> trapframe \<Rightarrow> kst \<Rightarrow> unit sysres" where
  "sys_migrate c p tf s =
     (let node0 = ucast (drop_bit 8 (tf_rdx tf) AND 0xff) :: u8;
          node = (if node0 = 0 then RRNODE (p_home (procs s p)) else node0)
      in guard (node \<noteq> net_node s) (net_migrate c tf node 0 s) s)"

definition child_num :: "trapframe \<Rightarrow> nat" where "child_num tf = unat (tf_rdx tf AND 0xff)"

definition regs_len :: "u32 \<Rightarrow> nat" where
  "regs_len cmd = (if flag32 cmd SYS_FPU then sizeof_procstate else offsetof_fx)"

text \<open>User-mode segments, and only harmless flags, whatever the caller supplied; no
  non-determinism that the caller does not have.\<close>

definition sanitise :: "procstate \<Rightarrow> procstate \<Rightarrow> procstate" where
  "sanitise psv sv =
     (let tf = user_segs (sv_tf sv);
          tf' = tf\<lparr>tf_rflags := (tf_rflags tf AND FL_USER) OR FL_IF\<rparr>
      in sv\<lparr>sv_tf := tf',
            sv_pff := (if flag32 (sv_pff psv) PFF_NONDET then sv_pff sv else sv_pff sv AND NOT PFF_NONDET)\<rparr>)"

definition overlay_sv :: "nat \<Rightarrow> u8 list \<Rightarrow> kst \<Rightarrow> kst" where
  "overlay_sv cp bs s = upd_proc cp (\<lambda>q. q\<lparr>p_sv := sv_of (bs @ drop (length bs) (sv_bytes (p_sv q)))\<rparr>) s"

definition put_regs :: "nat \<Rightarrow> nat \<Rightarrow> nat \<Rightarrow> trapframe \<Rightarrow> u32 \<Rightarrow> kst \<Rightarrow> unit sysres" where
  "put_regs c p cp tf cmd s =
     (if flag32 cmd SYS_REGS
      then andthen (usercopy_in c tf (tf_rbx tf) (regs_len cmd) (overlay_sv cp) s) (\<lambda>_ s.
             goon () (upd_proc cp (\<lambda>q. q\<lparr>p_sv := sanitise (p_sv (procs s p)) (p_sv q)\<rparr>) s))
      else goon () s)"

definition put_memop :: "nat \<Rightarrow> nat \<Rightarrow> nat \<Rightarrow> trapframe \<Rightarrow> u32 \<Rightarrow> kst \<Rightarrow> unit sysres" where
  "put_memop c p cp tf cmd s =
     (let op = cmd AND SYS_MEMOP; sva = tf_rsi tf; dva = tf_rdi tf; sz = tf_rcx tf in
      if op = 0 then goon () s
      else if op = SYS_COPY \<or> op = SYS_ZERO
      then andthen (guard (op = SYS_COPY \<and> \<not> region_ok sva sz) (systrap c tf T_GPFLT 0 s) s) (\<lambda>_ s.
           andthen (guard (\<not> region_ok dva sz) (systrap c tf T_GPFLT 0 s) s) (\<lambda>_ s.
             always (if op = SYS_ZERO
               then pmap_remove (p_pml4 (procs s cp)) (unat dva) (unat sz) s
               else pmap_copy (p_pml4 (procs s p)) (unat sva) (p_pml4 (procs s cp)) (unat dva) (unat sz) s)))
      else stop_with (systrap c tf T_GPFLT 0 s))"

definition sys_perm :: "nat \<Rightarrow> nat \<Rightarrow> trapframe \<Rightarrow> u32 \<Rightarrow> kst \<Rightarrow> unit sysres" where
  "sys_perm c pml4 tf cmd s =
     (if flag32 cmd SYS_PERM
      then andthen (guard (\<not> region_ok (tf_rdi tf) (tf_rcx tf)) (systrap c tf T_GPFLT 0 s) s) (\<lambda>_ s.
             always (pmap_setperm pml4 (unat (tf_rdi tf)) (unat (tf_rcx tf)) (ucast cmd AND SYS_RW) s))
      else goon () s)"

definition put_snap :: "nat \<Rightarrow> u32 \<Rightarrow> kst \<Rightarrow> unit sysres" where
  "put_snap cp cmd s =
     (if flag32 cmd SYS_SNAP
      then always (pmap_copy (p_pml4 (procs s cp)) VM_USERLO (p_rpml4 (procs s cp)) VM_USERLO
                     (VM_USERHI - VM_USERLO) s)
      else goon () s)"

text \<open>The named child, created if it does not exist.\<close>

definition put_child :: "nat \<Rightarrow> trapframe \<Rightarrow> kst \<Rightarrow> nat sysres" where
  "put_child p tf s =
     (case p_child (procs s p) (child_num tf) of
        Some cp \<Rightarrow> goon cp s
      | None \<Rightarrow>
          (case proc_alloc (Some p) (child_num tf) s of
             Some (Some cp, s1) \<Rightarrow> goon cp s1
           | _ \<Rightarrow> None))"

definition do_put :: "nat \<Rightarrow> trapframe \<Rightarrow> u32 \<Rightarrow> kst \<Rightarrow> sysout sysres" where
  "do_put c tf cmd s =
     (case cpu_proc s c of None \<Rightarrow> None | Some p \<Rightarrow>
      if \<not> (pstate s p = PROC_RUN \<and> p_runcpu (procs s p) = Some c) then None
      else andthen (sys_migrate c p tf s) (\<lambda>_ s.
           andthen (put_child p tf s) (\<lambda>cp s.
           andthen (guard (pstate s cp \<noteq> PROC_STOP) (proc_wait c p cp tf s) s) (\<lambda>_ s.
           andthen (put_regs c p cp tf cmd s) (\<lambda>_ s.
           andthen (put_memop c p cp tf cmd s) (\<lambda>_ s.
           andthen (sys_perm c (p_pml4 (procs s cp)) tf cmd s) (\<lambda>_ s.
           andthen (put_snap cp cmd s) (\<lambda>_ s.
             goon (Resume tf) (if flag32 cmd SYS_START then proc_ready cp s else s)))))))))"

definition get_regs :: "nat \<Rightarrow> nat \<Rightarrow> trapframe \<Rightarrow> u32 \<Rightarrow> kst \<Rightarrow> unit sysres" where
  "get_regs c cp tf cmd s =
     (if flag32 cmd SYS_REGS
      then if has (tf_rflags (sv_tf (p_sv (procs s cp)))) FL_TF then None
           else usercopy_out c tf (tf_rbx tf) (take (regs_len cmd) (sv_bytes (p_sv (procs s cp)))) s
      else goon () s)"

definition get_memop :: "nat \<Rightarrow> nat \<Rightarrow> nat \<Rightarrow> trapframe \<Rightarrow> u32 \<Rightarrow> kst \<Rightarrow> unit sysres" where
  "get_memop c p cp tf cmd s =
     (let op = cmd AND SYS_MEMOP; sva = tf_rsi tf; dva = tf_rdi tf; sz = tf_rcx tf in
      if op = 0 then goon () s
      else if op = SYS_COPY \<or> op = SYS_MERGE \<or> op = SYS_ZERO
      then andthen (guard (op \<noteq> SYS_ZERO \<and> \<not> region_ok sva sz) (systrap c tf T_GPFLT 0 s) s) (\<lambda>_ s.
           andthen (guard (\<not> region_ok dva sz) (systrap c tf T_GPFLT 0 s) s) (\<lambda>_ s.
             always (if op = SYS_ZERO
               then pmap_remove (p_pml4 (procs s p)) (unat dva) (unat sz) s
               else if op = SYS_COPY
               then pmap_copy (p_pml4 (procs s cp)) (unat sva) (p_pml4 (procs s p)) (unat dva) (unat sz) s
               else pmap_merge (p_rpml4 (procs s cp)) (p_pml4 (procs s cp)) (unat sva)
                      (p_pml4 (procs s p)) (unat dva) (unat sz) s)))
      else stop_with (systrap c tf T_GPFLT 0 s))"

definition do_get :: "nat \<Rightarrow> trapframe \<Rightarrow> u32 \<Rightarrow> kst \<Rightarrow> sysout sysres" where
  "do_get c tf cmd s =
     (case cpu_proc s c of None \<Rightarrow> None | Some p \<Rightarrow>
      if \<not> (pstate s p = PROC_RUN \<and> p_runcpu (procs s p) = Some c) then None
      else andthen (sys_migrate c p tf s) (\<lambda>_ s.
           let cp = (case p_child (procs s p) (child_num tf) of None \<Rightarrow> proc_null | Some cp \<Rightarrow> cp) in
           andthen (guard (pstate s cp \<noteq> PROC_STOP) (proc_wait c p cp tf s) s) (\<lambda>_ s.
           andthen (get_regs c cp tf cmd s) (\<lambda>_ s.
           andthen (get_memop c p cp tf cmd s) (\<lambda>_ s.
           andthen (sys_perm c (p_pml4 (procs s p)) tf cmd s) (\<lambda>_ s.
           andthen (guard (flag32 cmd SYS_SNAP) (systrap c tf T_GPFLT 0 s) s) (\<lambda>_ s.
             goon (Resume tf) s)))))))"

definition do_ret :: "nat \<Rightarrow> trapframe \<Rightarrow> kst \<Rightarrow> sysout sysres" where
  "do_ret c tf s = stop_with (proc_ret c tf 1 s)"

definition TIMER_FREQ :: u64 where "TIMER_FREQ = 1193182"

text \<open>\<open>do_time\<close> with the value \<open>now\<close> that \<open>timer_read\<close> returns.\<close>

definition do_time :: "u64 \<Rightarrow> trapframe \<Rightarrow> kst \<Rightarrow> sysout sysres" where
  "do_time now tf s =
     (let t = now * 1000000000 div TIMER_FREQ
      in goon (Resume (tf\<lparr>tf_rdx := drop_bit 32 t, tf_rax := t\<rparr>)) s)"

definition do_ncpu :: "trapframe \<Rightarrow> kst \<Rightarrow> sysout sysres" where
  "do_ncpu tf s =
     (let newlim = sint (ucast (tf_rcx tf) :: u32)
      in goon (Resume tf) (if newlim > 0 then s\<lparr>cpu_limit := newlim\<rparr> else s))"

definition syscall :: "nat \<Rightarrow> u64 \<Rightarrow> trapframe \<Rightarrow> kst \<Rightarrow> sysout sysres" where
  "syscall c now tf s =
     (let cmd = ucast (tf_rax tf) :: u32; t = cmd AND SYS_TYPE in
      if t = SYS_CPUTS then do_cputs c tf s
      else if t = SYS_PUT then do_put c tf cmd s
      else if t = SYS_GET then do_get c tf cmd s
      else if t = SYS_RET then do_ret c tf s
      else if t = SYS_TIME then do_time now tf s
      else if t = SYS_NCPU then do_ncpu tf s
      else goon OrdinaryTrap s)"

end
