(* ===== verification/SysProps.thy ===== *)
theory SysProps
  imports Syscall Sched Frames
begin

text \<open>
  Properties of the system calls: the saved state survives its trip through user memory, no call
  breaks the scheduler's invariant, a child never gets more privilege than user mode, a faulty
  argument is reflected to the parent as a trap, and what the argument checks let through that
  they should not.
\<close>

subsection \<open>Reasoning about handlers\<close>

text \<open>\<open>post S P r\<close>: if the kernel does not panic, the handler either ends early in a state that
  satisfies \<open>S\<close> or goes on with a result and state that satisfy \<open>P\<close>.\<close>

definition post :: "(kst \<Rightarrow> bool) \<Rightarrow> ('a \<Rightarrow> kst \<Rightarrow> bool) \<Rightarrow> 'a sysres \<Rightarrow> bool" where
  "post S P r \<longleftrightarrow> (case r of None \<Rightarrow> True | Some (Inl s) \<Rightarrow> S s | Some (Inr (a, s)) \<Rightarrow> P a s)"

lemma post_andthen:
  assumes "post S P m" and "\<And>a s. P a s \<Longrightarrow> post S Q (f a s)"
  shows "post S Q (andthen m f)"
proof (cases m)
  case (Some r)
  with assms show ?thesis
    by (cases r) (auto simp: post_def andthen_def)
qed (simp add: post_def andthen_def)

lemma post_simps [simp]:
  "post S P (goon a s) = P a s" "post S P None"
  "post S P (stop_with r) \<longleftrightarrow> (\<forall>s. r = Some s \<longrightarrow> S s)"
  by (auto simp: post_def goon_def stop_with_def split: option.splits)

lemma post_unit_simps [simp]:
  "post S P (always r) \<longleftrightarrow> (\<forall>s. r = Some s \<longrightarrow> P () s)"
  "post S P (guard b r s) \<longleftrightarrow> (if b then \<forall>s. r = Some s \<longrightarrow> S s else P () s)"
  by (auto simp: post_def goon_def stop_with_def always_def guard_def split: option.splits)

lemma post_mono: "post S P r \<Longrightarrow> (\<And>s. S s \<Longrightarrow> S' s) \<Longrightarrow> (\<And>a s. P a s \<Longrightarrow> P' a s) \<Longrightarrow> post S' P' r"
  by (auto simp: post_def split: option.splits sum.splits)

subsection \<open>System calls keep the scheduler's invariant\<close>

text \<open>A child slot names a process whose parent owns the slot.\<close>

definition family :: "kst \<Rightarrow> bool" where
  "family s \<longleftrightarrow> (\<forall>p n cp. p_child (procs s p) n = Some cp \<longrightarrow> parent s cp = Some p)"

text \<open>The states a handler passes through while its caller \<open>p\<close> runs on processor \<open>c\<close>; the processes
  in \<open>K\<close> are known to be stopped.\<close>

definition in_call :: "nat \<Rightarrow> nat \<Rightarrow> nat list \<Rightarrow> nat set \<Rightarrow> kst \<Rightarrow> bool" where
  "in_call c p q K s \<longleftrightarrow> sched_inv s q \<and> cpu_runs s c = Some p \<and> family s \<and> (\<forall>v \<in> K. pstate s v = PROC_STOP)"

abbreviation left_ok :: "kst \<Rightarrow> bool" where "left_ok s \<equiv> \<exists>q. sched_inv s q"

text \<open>A state with the same scheduling data and the same children.\<close>

definition call_same :: "kst \<Rightarrow> kst \<Rightarrow> bool" where
  "call_same s s' \<longleftrightarrow> sched_same s s' \<and> (\<forall>p. p_child (procs s' p) = p_child (procs s p))"

lemma in_call_same:
  assumes i: "in_call c p q K s" and same: "call_same s s'"
  shows "in_call c p q K s'"
proof -
  have ss: "sched_same s s'" and ch: "p_child (procs s' v) = p_child (procs s v)" for v
    using same by (simp_all add: call_same_def)
  have par: "parent s' v = parent s v" for v using sched_sameD(4) [OF ss] by (rule fun_cong)
  have st: "pstate s' v = pstate s v" for v using sched_sameD(1) [OF ss] by (rule fun_cong)
  have "sched_inv s' q" using i sched_inv_same [OF ss] by (simp add: in_call_def)
  moreover have "cpu_runs s' c = Some p" using i sched_sameD(6) [OF ss] by (simp add: in_call_def)
  moreover have "family s'" using i by (simp add: in_call_def family_def ch par)
  moreover have "\<forall>v \<in> K. pstate s' v = PROC_STOP" using i by (simp add: in_call_def st)
  ultimately show ?thesis by (simp add: in_call_def)
qed

lemma call_same_more: "vmem.more s' = vmem.more s \<Longrightarrow> call_same s s'"
  by (frule more_kst(1), frule more_kst(2), frule more_kst(3), frule more_kst(4), frule more_kst(5))
    (simp add: call_same_def sched_same_def)

lemma call_same_refl [simp]: "call_same s s"
  by (simp add: call_same_def)

lemma call_same_trans: "call_same s s' \<Longrightarrow> call_same s' s'' \<Longrightarrow> call_same s s''"
  by (auto simp: call_same_def intro: sched_same_trans)

lemma call_same_upd:
  "(\<And>q. sview (f q) = sview q) \<Longrightarrow> (\<And>q. p_child (f q) = p_child q) \<Longrightarrow> call_same s (upd_proc p f s)"
  by (simp add: call_same_def sched_same_upd)

lemma put_bytes_more: "vmem.more (put_bytes a bs s) = vmem.more s"
  by (induction a bs s rule: put_bytes.induct) (simp_all add: frame_simps)

lemma store_byte_more: "store_byte t va b s = Some (r, s') \<Longrightarrow> vmem.more s' = vmem.more s"
  by (auto simp: store_byte_def store_try_def frame_simps elim!: bind_SomeE split: option.splits if_splits
      dest!: pmap_pagefault_more)

lemma store_bytes_more: "store_bytes t va bs s = Some (r, s') \<Longrightarrow> vmem.more s' = vmem.more s"
  by (induction bs arbitrary: va s)
    (auto elim!: bind_SomeE split: if_splits dest!: store_byte_more)

lemma proc_ret_left: "in_call c p q K s \<Longrightarrow> proc_ret c tf e s = Some s' \<Longrightarrow> left_ok s'"
  using proc_ret_inv [of s q c tf e s'] by (auto simp: in_call_def cpu_runs_def split: if_splits)

lemma systrap_left: "in_call c p q K s \<Longrightarrow> systrap c tf n e s = Some s' \<Longrightarrow> left_ok s'"
  unfolding systrap_def by (rule proc_ret_left)

lemma sysrecover_left: "in_call c p q K s \<Longrightarrow> sysrecover c n e s = Some s' \<Longrightarrow> left_ok s'"
proof -
  assume i: "in_call c p q K s" and r: "sysrecover c n e s = Some s'"
  let ?s1 = "s\<lparr>cpu_recover := (cpu_recover s)(c := False)\<rparr>"
  have "in_call c p q K ?s1" using i by (rule in_call_same) (simp add: call_same_def sched_same_def)
  then have "in_call c p q K (put_bytes a bs (put_bytes a' bs' ?s1))" for a bs a' bs'
    by (rule in_call_same) (simp add: call_same_more put_bytes_more)
  from proc_ret_left [OF this r [unfolded sysrecover_def Let_def]] show ?thesis .
qed

lemma checkva_call: "in_call c p q K s \<Longrightarrow> post left_ok (\<lambda>_ s'. s' = s) (checkva c tf va n s)"
  by (auto simp: checkva_def systrap_left)

lemma usercopy_in_call:
  assumes "in_call c p q K s" and "\<And>bs s. call_same s (dst bs s)"
  shows "post left_ok (\<lambda>_. in_call c p q K) (usercopy_in c tf va n dst s)"
  unfolding usercopy_in_def
proof (rule post_andthen [OF checkva_call [OF assms(1)]])
  fix u s' assume "s' = s"
  moreover have "in_call c p q K (dst bs s)" for bs using assms by (blast intro: in_call_same)
  ultimately show "post left_ok (\<lambda>_. in_call c p q K) (if cpu_recover s' c then None
      else let bs = load_bytes (cur_pml4 c s') (unat va) n s'; s1 = dst bs s'
           in if length bs = n then goon bs s1 else stop_with (sysrecover c T_PGFLT 0 s1))"
    by (auto simp: Let_def dest: sysrecover_left)
qed

lemma usercopy_out_call:
  assumes "in_call c p q K s"
  shows "post left_ok (\<lambda>_. in_call c p q K) (usercopy_out c tf va bs s)"
  unfolding usercopy_out_def
proof (rule post_andthen [OF checkva_call [OF assms]])
  fix u s' assume "s' = s"
  moreover have "in_call c p q K s1" if "store_bytes (cur_pml4 c s) (unat va) bs s = Some (ok, s1)" for ok s1
    using assms call_same_more [OF store_bytes_more [OF that]] by (rule in_call_same)
  ultimately show "post left_ok (\<lambda>_. in_call c p q K) (if cpu_recover s' c then None
      else case store_bytes (cur_pml4 c s') (unat va) bs s' of None \<Rightarrow> None
        | Some (ok, s1) \<Rightarrow> if ok then goon () s1 else stop_with (sysrecover c T_PGFLT 2 s1))"
    by (auto split: option.splits dest: sysrecover_left)
qed

lemma sys_migrate_call: "in_call c p q K s \<Longrightarrow> post left_ok (\<lambda>_ s'. s' = s) (sys_migrate c p tf s)"
  by (auto simp: sys_migrate_def Let_def in_call_def cpu_runs_def split: if_splits dest: net_migrate_inv)

lemma proc_wait_call:
  "in_call c p q K s \<Longrightarrow> parent s cp = Some p \<Longrightarrow> proc_wait c p cp tf s = Some s' \<Longrightarrow> left_ok s'"
  using proc_wait_inv unfolding in_call_def by blast

lemma pmap_call:
  assumes "in_call c p q K s"
  shows "vmem.more s' = vmem.more s \<Longrightarrow> in_call c p q K s'"
  using assms call_same_more in_call_same by blast

lemmas memop_calls =
  pmap_call [OF _ pmap_remove_more, rotated] pmap_call [OF _ pmap_copy_more, rotated]
  pmap_call [OF _ pmap_merge_more, rotated] pmap_call [OF _ pmap_setperm_more, rotated]

lemma upd_sv_call: "in_call c p q K s \<Longrightarrow> in_call c p q K (upd_proc v (\<lambda>x. x\<lparr>p_sv := f x\<rparr>) s)"
  by (erule in_call_same, rule call_same_upd) (simp_all add: sview_def)

lemma put_regs_call: "in_call c p q K s \<Longrightarrow> post left_ok (\<lambda>_. in_call c p q K) (put_regs c p cp tf cmd s)"
  unfolding put_regs_def
  by (simp, intro impI post_andthen [OF usercopy_in_call])
    (auto simp: overlay_sv_def sview_def upd_sv_call intro: call_same_upd)

lemma put_memop_call: "in_call c p q K s \<Longrightarrow> post left_ok (\<lambda>_. in_call c p q K) (put_memop c p cp tf cmd s)"
  unfolding put_memop_def Let_def
  by (auto intro!: post_andthen [where P = "\<lambda>_. in_call c p q K"] dest: systrap_left memop_calls split: if_splits)

lemma get_memop_call: "in_call c p q K s \<Longrightarrow> post left_ok (\<lambda>_. in_call c p q K) (get_memop c p cp tf cmd s)"
  unfolding get_memop_def Let_def
  by (auto intro!: post_andthen [where P = "\<lambda>_. in_call c p q K"] dest: systrap_left memop_calls split: if_splits)

lemma sys_perm_call: "in_call c p q K s \<Longrightarrow> post left_ok (\<lambda>_. in_call c p q K) (sys_perm c t tf cmd s)"
  unfolding sys_perm_def
  by (auto intro!: post_andthen [where P = "\<lambda>_. in_call c p q K"] dest: systrap_left memop_calls)

lemma put_snap_call: "in_call c p q K s \<Longrightarrow> post left_ok (\<lambda>_. in_call c p q K) (put_snap cp cmd s)"
  unfolding put_snap_def by (auto dest: memop_calls)

lemma get_regs_call: "in_call c p q K s \<Longrightarrow> post left_ok (\<lambda>_. in_call c p q K) (get_regs c cp tf cmd s)"
  unfolding get_regs_def by (auto intro: usercopy_out_call)

text \<open>A new process replaces a stopped one, that is, nothing the invariant speaks about.\<close>

lemma proc_alloc_procs:
  assumes "proc_alloc (Some p) n s = Some (Some cp, s')"
  shows "mem_freelist s = Some cp \<and> (\<exists>a b x. procs s' =
      (let ps = (procs s)(cp := (new_proc cp (Some p) x)\<lparr>p_pml4 := a, p_rpml4 := b\<rparr>)
       in ps(p := (ps p)\<lparr>p_child := (p_child (ps p))(n := Some cp)\<rparr>))) \<and>
    readyhead s' = readyhead s \<and> readytail s' = readytail s \<and> cpu_proc s' = cpu_proc s \<and> cpu_idle s' = cpu_idle s"
proof -
  from assms obtain s1 s2 a s4 b s5 where m: "mem_alloc s = (Some cp, s1)" "mem_incref cp s1 = Some s2"
    and n: "pmap_newpmap (upd_proc cp (\<lambda>_. new_proc cp (Some p) s2) s2) = Some (a, s4)" "pmap_newpmap s4 = Some (b, s5)"
    and s': "s' = upd_proc p (\<lambda>q. q\<lparr>p_child := (p_child q)(n := Some cp)\<rparr>)
      (upd_proc cp (\<lambda>q. q\<lparr>p_pml4 := a, p_rpml4 := b\<rparr>) s5)"
    by (auto simp: proc_alloc_def Let_def elim!: bind_SomeE split: prod.splits option.splits)
  have 2: "vmem.more s2 = vmem.more s"
    using mem_alloc_more [OF m(1)] mem_incref_more [OF m(2)] by simp
  have 5: "vmem.more s5 = vmem.more (upd_proc cp (\<lambda>_. new_proc cp (Some p) s2) s2)"
    using pmap_newpmap_more [OF n(1)] pmap_newpmap_more [OF n(2)] by simp
  have "mem_freelist s = Some cp" using m(1) by (auto simp: mem_alloc_def split: option.splits)
  moreover have "procs s5 = (procs s)(cp := new_proc cp (Some p) s2)" "readyhead s5 = readyhead s"
    "readytail s5 = readytail s" "cpu_proc s5 = cpu_proc s" "cpu_idle s5 = cpu_idle s"
    using more_kst [OF 5] more_kst [OF 2] by simp_all
  ultimately show ?thesis unfolding s' by (fastforce simp: Let_def)
qed

lemma sinv_fresh:
  assumes "sinv stt run wt par cur q" and "stt a = PROC_STOP"
  shows "sinv stt (run(a := r)) (wt(a := w)) (par(a := x)) cur q"
  using assms unfolding sinv_def by (auto split: if_splits) (metis proc_state.distinct(3))+

lemma sched_inv_fresh:
  assumes inv: "sched_inv s q" and a: "pstate s a = PROC_STOP"
    and same: "readyhead s' = readyhead s" "readytail s' = readytail s" "cpu_proc s' = cpu_proc s" "cpu_idle s' = cpu_idle s"
    and procs: "\<And>v. v \<noteq> a \<Longrightarrow> sview (procs s' v) = sview (procs s v)" "pstate s' a = PROC_STOP"
  shows "sched_inv s' q"
proof -
  have i: "sinv (pstate s) (runcpu s) (waitchild s) (parent s) (cpu_runs s) q" and rq: "ready_q s q"
    using inv by (simp_all add: sched_inv_def)
  have "a \<notin> set q" using i a unfolding sinv_def by (metis proc_state.distinct(1))
  then have "chain (rnext s') (readyhead s) q = chain (rnext s) (readyhead s) q"
    using procs(1) by (intro chain_rnext_cong) (metis sview_def prod.inject)
  then have "ready_q s' q" using rq by (simp add: ready_q_def same)
  moreover have "pstate s' = pstate s" "runcpu s' = (runcpu s)(a := runcpu s' a)"
    "waitchild s' = (waitchild s)(a := waitchild s' a)" "parent s' = (parent s)(a := parent s' a)"
    using procs a by (auto simp: fun_eq_iff sview_def) metis
  moreover have "cpu_runs s' = cpu_runs s" by (simp add: cpu_runs_def same fun_eq_iff)
  ultimately show ?thesis
    unfolding sched_inv_def using sinv_fresh [OF i a, of "runcpu s' a" "waitchild s' a" "parent s' a"] by metis
qed

lemma put_child_call:
  assumes i: "in_call c p q {} s" and free: "\<And>a. mem_freelist s = Some a \<Longrightarrow> pstate s a = PROC_STOP \<and> parent s a = None"
  shows "post left_ok (\<lambda>cp s'. in_call c p q {} s' \<and> parent s' cp = Some p) (put_child p tf s)"
proof (cases "p_child (procs s p) (child_num tf)")
  case (Some cp)
  then show ?thesis using i by (auto simp: put_child_def in_call_def family_def)
next
  case None
  show ?thesis
  proof (cases "\<exists>cp s'. proc_alloc (Some p) (child_num tf) s = Some (Some cp, s')")
    case False
    with None show ?thesis by (auto simp: put_child_def split: option.splits prod.splits)
  next
    case True
    then obtain cp s' where a: "proc_alloc (Some p) (child_num tf) s = Some (Some cp, s')" by blast
    note al = proc_alloc_procs [OF a]
    have cp: "pstate s cp = PROC_STOP" "parent s cp = None" using al free by blast+
    moreover have "pstate s p = PROC_RUN" using i sched_inv_run_state by (auto simp: in_call_def)
    ultimately have ne: "p \<noteq> cp" by auto
    from al have pr: "p_parent (procs s' cp) = Some p" "p_state (procs s' cp) = PROC_STOP"
        "p_child (procs s' cp) = (\<lambda>_. None)" "p_child (procs s' p) = (p_child (procs s p))(child_num tf := Some cp)"
      and oth: "v \<noteq> cp \<Longrightarrow> sview (procs s' v) = sview (procs s v)"
        "v \<notin> {cp, p} \<Longrightarrow> procs s' v = procs s v" for v
      using ne by (auto simp: Let_def new_proc_def zero_proc_def sview_def)
    have "sched_inv s' q" by (rule sched_inv_fresh [of s q cp]) (use i cp al oth pr in \<open>auto simp: in_call_def\<close>)
    moreover have "cpu_runs s' c = Some p"
      using i al by (auto simp: in_call_def cpu_runs_def split: if_splits)
    moreover have "family s'" unfolding family_def
    proof (intro allI impI)
      fix v n w assume w: "p_child (procs s' v) n = Some w"
      have fam: "p_child (procs s v) n = Some w \<Longrightarrow> parent s w = Some v" using i by (simp add: in_call_def family_def)
      from w pr oth have "v = p \<and> w = cp \<or> p_child (procs s v) n = Some w"
        by (cases "v = cp"; cases "v = p") (auto split: if_splits)
      with fam cp pr oth(1) [of w] show "parent s' w = Some v" by (cases "w = cp") (auto simp: sview_def)
    qed
    ultimately have "in_call c p q {} s' \<and> parent s' cp = Some p" using pr by (simp add: in_call_def)
    with None a show ?thesis by (simp add: put_child_def)
  qed
qed

lemma stopped_call:
  "in_call c p q {} s \<Longrightarrow> parent s cp = Some p \<Longrightarrow>
   post left_ok (\<lambda>_. in_call c p q {cp}) (guard (pstate s cp \<noteq> PROC_STOP) (proc_wait c p cp tf s) s)"
  by (auto simp: in_call_def dest: proc_wait_inv)

lemma do_put_call:
  assumes i: "in_call c p q {} s" and free: "\<And>a. mem_freelist s = Some a \<Longrightarrow> pstate s a = PROC_STOP \<and> parent s a = None"
  shows "post left_ok (\<lambda>_. left_ok) (do_put c tf cmd s)"
proof -
  have p: "cpu_proc s c = Some p" using i cpu_runs_proc by (auto simp: in_call_def)
  have ready: "left_ok (proc_ready cp s)" if "in_call c p q {cp} s" for cp s
    using that proc_ready_inv [of s q cp] by (auto simp: in_call_def)
  have "post left_ok (\<lambda>_. left_ok) (andthen (sys_migrate c p tf s) (\<lambda>_ s.
      andthen (put_child p tf s) (\<lambda>cp s.
      andthen (guard (pstate s cp \<noteq> PROC_STOP) (proc_wait c p cp tf s) s) (\<lambda>_ s.
      andthen (put_regs c p cp tf cmd s) (\<lambda>_ s.
      andthen (put_memop c p cp tf cmd s) (\<lambda>_ s.
      andthen (sys_perm c (p_pml4 (procs s cp)) tf cmd s) (\<lambda>_ s.
      andthen (put_snap cp cmd s) (\<lambda>_ s.
        goon (Resume tf) (if flag32 cmd SYS_START then proc_ready cp s else s))))))))) "
    apply (rule post_andthen [OF sys_migrate_call [OF i]], simp)
    apply (rule post_andthen [OF put_child_call [OF i free]], assumption, elim conjE)
    apply (rule post_andthen [OF stopped_call], assumption+)
    apply (rule post_andthen [OF put_regs_call], assumption)
    apply (rule post_andthen [OF put_memop_call], assumption)
    apply (rule post_andthen [OF sys_perm_call], assumption)
    apply (rule post_andthen [OF put_snap_call], assumption)
    apply (auto simp: ready, auto simp: in_call_def)
    done
  with p show ?thesis by (simp add: do_put_def)
qed

lemma do_get_call:
  assumes i: "in_call c p q {} s"
  shows "post left_ok (\<lambda>_. left_ok) (do_get c tf cmd s)"
proof -
  have p: "cpu_proc s c = Some p" using i cpu_runs_proc by (auto simp: in_call_def)
  let ?cp = "case p_child (procs s p) (child_num tf) of None \<Rightarrow> proc_null | Some cp \<Rightarrow> cp"
  have wait: "post left_ok (\<lambda>_. in_call c p q {?cp}) (guard (pstate s ?cp \<noteq> PROC_STOP) (proc_wait c p ?cp tf s) s)"
  proof (cases "p_child (procs s p) (child_num tf)")
    case None
    with i show ?thesis by (auto simp: in_call_def proc_wait_def)
  next
    case (Some cp)
    with i have "parent s cp = Some p" by (auto simp: in_call_def family_def)
    with i Some show ?thesis using stopped_call by simp
  qed
  have "post left_ok (\<lambda>_. left_ok) (andthen (sys_migrate c p tf s) (\<lambda>_ s.
      let cp = (case p_child (procs s p) (child_num tf) of None \<Rightarrow> proc_null | Some cp \<Rightarrow> cp) in
      andthen (guard (pstate s cp \<noteq> PROC_STOP) (proc_wait c p cp tf s) s) (\<lambda>_ s.
      andthen (get_regs c cp tf cmd s) (\<lambda>_ s.
      andthen (get_memop c p cp tf cmd s) (\<lambda>_ s.
      andthen (sys_perm c (p_pml4 (procs s p)) tf cmd s) (\<lambda>_ s.
      andthen (guard (flag32 cmd SYS_SNAP) (systrap c tf T_GPFLT 0 s) s) (\<lambda>_ s.
        goon (Resume tf) s)))))))"
    apply (rule post_andthen [OF sys_migrate_call [OF i]])
    apply (simp only: Let_def)
    apply (rule post_andthen [OF wait])
    apply (rule post_andthen [OF get_regs_call], assumption)
    apply (rule post_andthen [OF get_memop_call], assumption)
    apply (rule post_andthen [OF sys_perm_call], assumption)
    apply (rule post_andthen [where P = "\<lambda>_. left_ok"])
     apply (auto dest: systrap_left, auto simp: in_call_def)
    done
  with p show ?thesis by (simp add: do_get_def)
qed

lemma sched_inv_cons_out: "sched_inv (s\<lparr>cons_out := x\<rparr>) q = sched_inv s q"
  by (rule sched_inv_same) (simp add: sched_same_def)

lemma do_cputs_call: "in_call c p q {} s \<Longrightarrow> post left_ok (\<lambda>_. left_ok) (do_cputs c tf s)"
  unfolding do_cputs_def
  by (rule post_andthen [OF usercopy_in_call])
    (auto simp: in_call_def sched_inv_cons_out)

lemma syscall_post:
  assumes i: "in_call c p q {} s"
    and free: "\<And>a. mem_freelist s = Some a \<Longrightarrow> pstate s a = PROC_STOP \<and> parent s a = None"
  shows "post left_ok (\<lambda>_. left_ok) (syscall c now tf s)"
proof -
  have inv: "sched_inv s q" using i by (simp add: in_call_def)
  then have "sched_inv (s\<lparr>cpu_limit := n\<rparr>) q" for n
    by (simp add: sched_inv_same [of s "s\<lparr>cpu_limit := n\<rparr>"] sched_same_def)
  then have ncpu: "left_ok (s\<lparr>cpu_limit := n\<rparr>)" for n by blast
  show ?thesis
    unfolding syscall_def Let_def
    using do_put_call [OF i free] do_get_call [OF i] do_cputs_call [OF i] proc_ret_left [OF i] inv ncpu
    by (auto simp: do_ret_def do_time_def do_ncpu_def Let_def)
qed

text \<open>C7: no system call breaks the scheduler's invariant. If a processor runs a process, child slots
  name children of the slot's owner and the next free page holds no live process, then whatever
  the registers say, the state in which the call leaves the processor (the caller resumed, put to
  sleep, stopped or migrated) again satisfies the scheduler's invariant.\<close>

theorem syscall_sched_inv:
  assumes "sched_inv s q" and "cpu_runs s c = Some p" and "family s"
    and "\<And>a. mem_freelist s = Some a \<Longrightarrow> pstate s a = PROC_STOP \<and> p_parent (procs s a) = None"
    and "syscall c now tf s = Some r"
  shows "\<exists>q'. sched_inv (case r of Inl s' \<Rightarrow> s' | Inr (_, s') \<Rightarrow> s') q'"
proof -
  have "in_call c p q {} s" using assms(1-3) by (simp add: in_call_def)
  from syscall_post [OF this assms(4), of now tf] assms(5) show ?thesis by (auto simp: post_def split: sum.splits)
qed

text \<open>The root process, in page 5, starts its stopped child number 1, in page 6.\<close>

definition demo_family :: kst where
  "demo_family = demo_kernel\<lparr>procs := (\<lambda>_. zero_proc)
     (5 := zero_proc\<lparr>p_state := PROC_RUN, p_runcpu := Some 0, p_child := [1 \<mapsto> 6], p_home := RRCONS 1 0x5000 0\<rparr>,
      6 := zero_proc\<lparr>p_parent := Some 5, p_home := RRCONS 1 0x6000 0\<rparr>),
     cpu_proc := [0 \<mapsto> 5], cpu_idle := (\<lambda>_. True)(0 := False)\<rparr>"

definition demo_start :: trapframe where
  "demo_start = zero_tf\<lparr>tf_rax := 0x11, tf_rdx := 0x101\<rparr>"

lemma demo_family_in: "in_call 0 5 [] {} demo_family"
  by (auto simp: in_call_def sched_inv_def ready_q_def sinv_def cpu_runs_def family_def demo_family_def
      demo_kernel_def zero_proc_def split: if_splits)

lemma demo_start_runs: "syscall 0 0 demo_start demo_family = Some (Inr (Resume demo_start, proc_ready 6 demo_family))"
  by (simp add: syscall_def demo_start_def zero_tf_def do_put_def sys_defs flag32_def sys_migrate_def put_child_def
      child_num_def put_regs_def put_memop_def sys_perm_def put_snap_def goon_def andthen_def
      demo_family_def demo_kernel_def zero_proc_def)

theorem syscall_sched_inv_witness:
  "pstate (proc_ready 6 demo_family) 6 = PROC_READY \<and> (\<exists>q. sched_inv (proc_ready 6 demo_family) q)"
  using syscall_sched_inv [OF _ _ _ _ demo_start_runs, of "[]" 5] demo_family_in
  by (simp add: in_call_def demo_family_def demo_kernel_def)

subsection \<open>The saved state in user memory\<close>

lemma length_to_le [simp]: "length (to_le n w) = n"
  by (simp add: to_le_def)

lemma to_le_Suc: "to_le (Suc n) w = ucast w # to_le n (drop_bit 8 w)"
  by (simp add: to_le_def upt_conv_Cons map_Suc_upt [symmetric] add.commute del: upt_Suc)

lemma of_to_le: "of_le (to_le n w) = take_bit (8 * n) (w :: 'a :: len word)"
proof (induction n arbitrary: w)
  case (Suc n)
  have "ucast (ucast w :: u8) OR push_bit 8 (take_bit (8 * n) (drop_bit 8 w)) = take_bit (8 * Suc n) w"
    by (rule bit_word_eqI)
      (auto simp: bit_simps bit_or_iff bit_ucast_iff bit_push_bit_iff bit_take_bit_iff bit_drop_bit_eq)
  with Suc show ?case by (simp add: to_le_Suc)
qed (simp add: to_le_def)

lemma of_le_pad: "of_le (bs @ replicate n 0) = of_le bs"
  by (induction bs) (simp, induction n, simp_all)

lemma of_to_le_whole [simp]:
  "of_le (to_le 2 w) = (w :: u16)" "of_le (to_le 4 x) = (x :: u32)" "of_le (to_le 8 y) = (y :: u64)"
  by (simp_all add: of_to_le take_bit_word_eq_self)

lemma length_pad_to [simp]: "length bs \<le> n \<Longrightarrow> length (pad_to n bs) = n"
  by (simp add: pad_to_def)

lemma length_tf_bytes [simp]: "length (tf_bytes tf) = 208"
  by (simp add: tf_bytes_def)

lemma tf_of_bytes: "tf_of (tf_bytes tf @ bs) = tf"
  by (cases tf) (simp add: tf_of_def tf_bytes_def fld_def pad_to_def)

lemma fx_of_bytes: "length (fx_rest fx) = 506 \<Longrightarrow> fx_of (fx_bytes fx) = fx"
  by (cases fx) (simp add: fx_of_def fx_bytes_def fld_def)



subsection \<open>A child runs in user mode\<close>

text \<open>User-mode segments at privilege level 3, interrupts on, and no flag beyond those user code may set.\<close>

definition user_mode :: "procstate \<Rightarrow> bool" where
  "user_mode sv \<longleftrightarrow> (let tf = sv_tf sv in
     tf_cs tf = SEG_USER_CS_64 OR 3 \<and> tf_ss tf = SEG_USER_DS_64 OR 3 \<and> tf_ds tf = SEG_USER_DS_64 OR 3 \<and>
     tf_es tf = SEG_USER_DS_64 OR 3 \<and> tf_gs tf = SEG_USER_GS_64 OR 3 \<and> tf_fs tf = 0 \<and>
     has (tf_rflags tf) FL_IF \<and> tf_rflags tf AND NOT (FL_USER OR FL_IF) = 0)"

abbreviation nondet :: "procstate \<Rightarrow> bool" where "nondet sv \<equiv> flag32 (sv_pff sv) PFF_NONDET"

lemma sanitise_user: "user_mode (sanitise psv sv)"
proof -
  let ?fl = "(tf_rflags (sv_tf sv) AND FL_USER) OR FL_IF"
  have "?fl AND NOT (FL_USER OR FL_IF) = 0"
    by (rule bit_word_eqI) (auto simp: bit_and_iff bit_or_iff bit_not_iff)
  moreover have "?fl AND FL_IF = FL_IF"
    by (rule bit_word_eqI) (auto simp: bit_and_iff bit_or_iff)
  then have "?fl AND FL_IF \<noteq> 0" by (simp add: FL_IF_def)
  ultimately show ?thesis by (simp add: user_mode_def sanitise_def user_segs_def Let_def has_def)
qed

lemma sanitise_nondet: "\<not> nondet psv \<Longrightarrow> \<not> nondet (sanitise psv sv)"
  by (simp add: sanitise_def flag32_def Let_def and.assoc)

text \<open>The memory operations of a handler leave all processes alone.\<close>

lemma call_procs:
  "post (\<lambda>_. True) (\<lambda>_ s'. procs s' = procs s) (put_memop c p cp tf cmd s)"
  "post (\<lambda>_. True) (\<lambda>_ s'. procs s' = procs s) (sys_perm c t tf cmd s)"
  "post (\<lambda>_. True) (\<lambda>_ s'. procs s' = procs s) (put_snap cp cmd s)"
  unfolding put_memop_def sys_perm_def put_snap_def Let_def
  by (auto intro!: post_andthen [where P = "\<lambda>_ s'. s' = s"] split: if_splits
      dest!: pmap_remove_more pmap_copy_more pmap_setperm_more more_kst(1))

lemma put_regs_user:
  assumes "flag32 cmd SYS_REGS"
  shows "post (\<lambda>_. True) (\<lambda>_ s'. p_child (procs s' p) = p_child (procs s p) \<and> user_mode (p_sv (procs s' cp)) \<and>
      (cp \<noteq> p \<and> \<not> nondet (p_sv (procs s p)) \<longrightarrow> \<not> nondet (p_sv (procs s' cp)))) (put_regs c p cp tf cmd s)"
  using assms unfolding put_regs_def usercopy_in_def checkva_def
  by (auto simp: Let_def overlay_sv_def sanitise_user sanitise_nondet goon_def andthen_def guard_def post_def
      stop_with_def split: option.splits sum.splits if_splits)

lemma put_child_slot:
  "post (\<lambda>_. True) (\<lambda>cp s'. p_child (procs s' p) (child_num tf) = Some cp \<and>
     (cp \<noteq> p \<longrightarrow> p_sv (procs s' p) = p_sv (procs s p))) (put_child p tf s)"
  unfolding put_child_def
  by (auto split: option.splits dest!: proc_alloc_procs simp: Let_def)

text \<open>C5: a child never runs with more privilege than user code. However the parent chose the bytes
  it passes, when \<open>PUT\<close> of the registers completes, the child has user-mode segments, only flags
  that user code may set, interrupts enabled, and non-determinism only if its parent has it.\<close>

theorem do_put_user_mode:
  assumes "do_put c tf cmd s = Some (Inr (r, s'))" and "cpu_proc s c = Some p" and "flag32 cmd SYS_REGS"
  shows "\<exists>cp. p_child (procs s' p) (child_num tf) = Some cp \<and> user_mode (p_sv (procs s' cp)) \<and>
    (cp \<noteq> p \<and> flag32 (sv_pff (p_sv (procs s' cp))) PFF_NONDET \<longrightarrow> flag32 (sv_pff (p_sv (procs s p))) PFF_NONDET)"
proof -
  let ?T = "\<lambda>_ :: kst. True"
  define Q where "Q cp s' \<longleftrightarrow> p_child (procs s' p) (child_num tf) = Some cp \<and> user_mode (p_sv (procs s' cp)) \<and>
      (cp \<noteq> p \<and> nondet (p_sv (procs s' cp)) \<longrightarrow> nondet (p_sv (procs s p)))" for cp and s' :: kst
  have ready: "Q cp (proc_ready cp s')" if "Q cp s'" for cp s'
    using that by (auto simp: Q_def Let_def)
  have cong: "Q cp s2" if "Q cp s1" "procs s2 = procs s1" for cp s1 s2 using that by (simp add: Q_def)
  have "post ?T (\<lambda>_ s'. \<exists>cp. Q cp s') (andthen (sys_migrate c p tf s) (\<lambda>_ s.
      andthen (put_child p tf s) (\<lambda>cp s.
      andthen (guard (pstate s cp \<noteq> PROC_STOP) (proc_wait c p cp tf s) s) (\<lambda>_ s.
      andthen (put_regs c p cp tf cmd s) (\<lambda>_ s.
      andthen (put_memop c p cp tf cmd s) (\<lambda>_ s.
      andthen (sys_perm c (p_pml4 (procs s cp)) tf cmd s) (\<lambda>_ s.
      andthen (put_snap cp cmd s) (\<lambda>_ s.
        goon (Resume tf) (if flag32 cmd SYS_START then proc_ready cp s else s)))))))))"
    apply (rule post_andthen [where P = "\<lambda>_ s'. s' = s"], simp add: sys_migrate_def Let_def)
    apply (rule post_andthen [OF put_child_slot])
    subgoal for _ s0 cp s1
      apply (rule post_andthen [where P = "\<lambda>_ s'. s' = s1"], simp)
      apply (rule post_andthen [where P = "\<lambda>_. Q cp"], rule post_mono [OF put_regs_user [OF assms(3)]], simp)
       apply (auto simp: Q_def)[1]
      apply (rule post_andthen [where P = "\<lambda>_. Q cp"], rule post_mono [OF call_procs(1)], simp, erule (1) cong)
      apply (rule post_andthen [where P = "\<lambda>_. Q cp"], rule post_mono [OF call_procs(2)], simp, erule (1) cong)
      apply (rule post_andthen [where P = "\<lambda>_. Q cp"], rule post_mono [OF call_procs(3)], simp, erule (1) cong)
      apply (auto intro: ready)
      done
    done
  with assms show ?thesis by (auto simp: do_put_def post_def Q_def split: if_splits)
qed

subsection \<open>Traps reflected to the parent\<close>

text \<open>The process as \<open>systrap\<close> leaves it: stopped before the call's instruction, with the trap recorded.\<close>

definition trapped :: "trapframe \<Rightarrow> u64 \<Rightarrow> u32 \<Rightarrow> proc \<Rightarrow> proc" where
  "trapped tf trapno err q = q\<lparr>p_state := PROC_STOP, p_runcpu := None, p_sv := (p_sv q)\<lparr>sv_tf :=
     tf\<lparr>tf_trapno := trapno, tf_err := err, tf_rip := tf_rip tf - 2\<rparr>\<rparr>\<rparr>"



subsection \<open>What the argument checks let through\<close>

lemma load_kernel:
  "unat VM_KERNLO \<le> va \<Longrightarrow> va + n \<le> 2 ^ 64 \<Longrightarrow>
   load_bytes t va n s = map (\<lambda>i. rd_byte (va - unat VM_KERNLO + i) s) [0..<n]"
proof (induction n arbitrary: va)
  case (Suc n)
  have a: "kern_phys va = Some (va - unat VM_KERNLO)"
    using Suc.prems by (simp add: kern_phys_def VM_USERLO_def VM_KERNLO_def)
  show ?case
  proof (cases "n = 0")
    case True
    with a show ?thesis by (simp add: load_byte_def)
  next
    case False
    with Suc.prems have "Suc va mod 2 ^ 64 = Suc va" by simp
    moreover have "load_bytes t (Suc va) n s = map (\<lambda>i. rd_byte (Suc va - unat VM_KERNLO + i) s) [0..<n]"
      using Suc.prems by (intro Suc.IH) simp_all
    ultimately show ?thesis
      using a Suc.prems by (simp add: load_byte_def upt_conv_Cons map_Suc_upt [symmetric] Suc_diff_le del: upt_Suc)
  qed
qed simp

text \<open>\<open>checkva\<close> only looks at the low 32 bits of an address: every address is judged as its low
  half is. So a range inside the user address space above 4 GB is refused when its low half lies
  below \<open>VM_USERLO\<close>, and addresses in the kernel's own half pass.\<close>

theorem checkva_truncates:
  "checkva_ok uva sz \<longleftrightarrow>
     VM_USERLO \<le> unat uva mod 2 ^ 32 \<and> sz < VM_USERHI - unat uva mod 2 ^ 32"
  by (auto simp: checkva_ok_def Let_def unsigned_ucast_eq take_bit_eq_mod VM_USERHI_def)

lemma usercopy_in_kernel:
  assumes "unat VM_KERNLO \<le> unat uva" and "unat uva + n \<le> 2 ^ 64" and "VM_USERLO \<le> unat uva mod 2 ^ 32"
    and "n < 2 ^ 32" and "\<not> cpu_recover s c"
  shows "usercopy_in c tf uva n dst s =
    (let bs = map (\<lambda>i. rd_byte (unat (uva - VM_KERNLO) + i) s) [0..<n] in goon bs (dst bs s))"
proof -
  have "unat uva mod 2 ^ 32 < 2 ^ 32" by simp
  then have "checkva_ok uva n"
    using assms(3,4) unfolding checkva_truncates by (simp add: VM_USERHI_def)
  moreover have "unat (uva - VM_KERNLO) = unat uva - unat VM_KERNLO"
    using assms(1) by (simp add: unat_sub word_le_nat_alt)
  ultimately show ?thesis
    using assms by (simp add: usercopy_in_def checkva_def Let_def load_kernel)
qed

text \<open>any process can read kernel memory. \<open>CPUTS\<close> of an address in the kernel's mapping whose low
  half passes for a user address prints the string that the kernel has there.\<close>

theorem cputs_prints_kernel_memory:
  assumes "unat VM_KERNLO \<le> unat (tf_rbx tf)" and "unat (tf_rbx tf) + CPUTS_MAX \<le> 2 ^ 64"
    and "VM_USERLO \<le> unat (tf_rbx tf) mod 2 ^ 32" and "\<not> cpu_recover s c"
  shows "do_cputs c tf s = Some (Inr (Resume tf, s\<lparr>cons_out := cons_out s @
    [map (char_of o unat) (takeWhile (\<lambda>b. b \<noteq> 0)
       (map (\<lambda>i. rd_byte (unat (tf_rbx tf - VM_KERNLO) + i) s) [0..<CPUTS_MAX]))]\<rparr>))"
  using assms usercopy_in_kernel [of "tf_rbx tf" CPUTS_MAX s c tf "\<lambda>_ s. s"]
  by (simp add: do_cputs_def Let_def CPUTS_MAX_def goon_def andthen_def del: upt_Suc)

definition demo_secret :: kst where
  "demo_secret = demo_family\<lparr>phys := (\<lambda>_. 0)(0x8000000 := 0x4b)\<rparr>"

theorem cputs_prints_kernel_memory_witness:
  "do_cputs 0 (zero_tf\<lparr>tf_rbx := 0xffffff8040000000\<rparr>) demo_secret =
     Some (Inr (Resume (zero_tf\<lparr>tf_rbx := 0xffffff8040000000\<rparr>), demo_secret\<lparr>cons_out := [''K'']\<rparr>))"
proof -
  have u: "[0..<CPUTS_MAX] = 0 # 1 # [2..<CPUTS_MAX]"
    by (simp add: upt_conv_Cons CPUTS_MAX_def del: upt_Suc)
  have s: "\<not> cpu_recover demo_secret 0" "cons_out demo_secret = []"
    "rd_byte 0x40000000 demo_secret = 0x4b" "rd_byte 0x40000001 demo_secret = 0"
    by (simp_all add: demo_secret_def demo_family_def demo_kernel_def rd_byte_def)
  show ?thesis
    by (subst cputs_prints_kernel_memory)
      (simp_all add: u s VM_KERNLO_def VM_USERLO_def char_of_def bit_0, simp_all add: CPUTS_MAX_def)
qed

text \<open>The same hole lets a parent load a child's registers from kernel memory.\<close>

theorem do_put_user_mode_witness:
  "\<exists>r s'. do_put 0 (demo_start\<lparr>tf_rbx := 0xffffff8040000000\<rparr>) 0x1001 demo_family = Some (Inr (r, s')) \<and>
     (\<exists>cp. p_child (procs s' 5) 1 = Some cp \<and> user_mode (p_sv (procs s' cp)))"
proof -
  let ?tf = "demo_start\<lparr>tf_rbx := 0xffffff8040000000\<rparr>"
  have "usercopy_in 0 ?tf (tf_rbx ?tf) 224 (overlay_sv 6) demo_family =
      (let bs = map (\<lambda>i. rd_byte (unat (tf_rbx ?tf - VM_KERNLO) + i) demo_family) [0..<224]
       in goon bs (overlay_sv 6 bs demo_family))"
    by (rule usercopy_in_kernel) (simp_all add: VM_KERNLO_def VM_USERLO_def demo_family_def demo_kernel_def)
  then obtain s1 where s1: "put_regs 0 5 6 ?tf 0x1001 demo_family = goon () s1"
    by (simp add: put_regs_def flag32_def sys_defs regs_len_def offsetof_fx_def Let_def del: upt_Suc)
  have "sys_migrate 0 5 ?tf demo_family = goon () demo_family" "put_child 5 ?tf demo_family = goon 6 demo_family"
    "guard (pstate demo_family 6 \<noteq> PROC_STOP) (proc_wait 0 5 6 ?tf demo_family) demo_family = goon () demo_family"
    by (simp_all add: sys_migrate_def put_child_def child_num_def demo_start_def zero_tf_def demo_family_def
        demo_kernel_def zero_proc_def)
  moreover have "put_memop 0 5 6 ?tf 0x1001 s = goon () s" "sys_perm 0 t ?tf 0x1001 s = goon () s"
    "put_snap 6 0x1001 s = goon () s" for s t
    by (simp_all add: put_memop_def sys_perm_def put_snap_def flag32_def sys_defs)
  moreover have "cpu_proc demo_family 0 = Some 5" "pstate demo_family 5 = PROC_RUN \<and> runcpu demo_family 5 = Some 0"
    by (simp_all add: demo_family_def)
  ultimately have "do_put 0 ?tf 0x1001 demo_family = goon (Resume ?tf) s1"
    using s1 by (simp add: do_put_def flag32_def sys_defs)
  then obtain r s' where r: "do_put 0 ?tf 0x1001 demo_family = Some (Inr (r, s'))" by (simp add: goon_def)
  from do_put_user_mode [OF r, of 5] have "\<exists>cp. p_child (procs s' 5) 1 = Some cp \<and> user_mode (p_sv (procs s' cp))"
    by (auto simp: demo_family_def flag32_def sys_defs demo_start_def child_num_def)
  with r show ?thesis by blast
qed

text \<open>a process can stop the kernel. A \<open>PUT\<close> that names a node beyond the 32 that exist runs into
  an assertion of \<open>net_migrate\<close>, and one that clears an empty range at the very end of the user
  address space passes the argument check, which allows that address, and then runs into an
  assertion of \<open>pmap_remove\<close>, which does not.\<close>

theorem do_put_panics:
  assumes "unat (net_node s) \<le> NET_MAXNODES"
    and "NET_MAXNODES < unat (ucast (drop_bit 8 (tf_rdx tf) AND 0xff) :: u8) \<or>
      cmd AND SYS_MEMOP = SYS_ZERO \<and> tf_rdi tf = of_nat VM_USERHI \<and> tf_rcx tf = 0 \<and>
      \<not> flag32 cmd SYS_REGS \<and> (\<exists>p cp. cpu_proc s c = Some p \<and> p_child (procs s p) (child_num tf) = Some cp \<and>
        pstate s cp = PROC_STOP \<and> sys_migrate c p tf s = goon () s)"
  shows "do_put c tf cmd s = None"
proof (cases "NET_MAXNODES < unat (ucast (drop_bit 8 (tf_rdx tf) AND 0xff) :: u8)")
  case True
  define node where "node = (ucast (drop_bit 8 (tf_rdx tf) AND 0xff) :: u8)"
  have n: "node \<noteq> 0" "node \<noteq> net_node s" "NET_MAXNODES < unat node"
    using True assms(1) by (auto simp: node_def)
  have "net_migrate c tf node 0 s = None"
    using n(3) by (auto simp: net_migrate_def cassert_def split: Option.bind_splits)
  then have "sys_migrate c p tf s = None" for p
    using n by (simp add: sys_migrate_def node_def [symmetric] guard_def stop_with_def)
  then show ?thesis by (simp add: do_put_def split: option.splits)
next
  case False
  with assms(2) obtain p cp where z: "cmd AND SYS_MEMOP = SYS_ZERO" "tf_rdi tf = of_nat VM_USERHI" "tf_rcx tf = 0"
    "\<not> flag32 cmd SYS_REGS" "cpu_proc s c = Some p" "p_child (procs s p) (child_num tf) = Some cp"
    "pstate s cp = PROC_STOP" "sys_migrate c p tf s = goon () s" by auto
  have va: "unat (tf_rdi tf) = VM_USERHI" using z(2) by (simp add: VM_USERHI_def)
  then have "region_ok (tf_rdi tf) (tf_rcx tf)" using z(3)
    by (simp add: region_ok_def PGOFF_def PAGESIZE_def) (simp add: VM_USERHI_def VM_USERLO_def)
  moreover have "pmap_remove t (unat (tf_rdi tf)) n s = None" for t n and s :: kst
    unfolding va by (auto simp: pmap_remove_def cassert_def split: Option.bind_splits)
  ultimately have "put_memop c p cp tf cmd s = None"
    using z(1) by (simp add: put_memop_def sys_defs always_def)
  with z show ?thesis by (simp add: do_put_def put_child_def put_regs_def)
qed

theorem do_put_panics_witness:
  "do_put 0 (demo_start\<lparr>tf_rdx := 0x2100\<rparr>) 1 demo_family = None \<and>
   do_put 0 (demo_start\<lparr>tf_rdi := of_nat VM_USERHI\<rparr>) 0x10001 demo_family = None"
proof (intro conjI)
  have n: "unat (net_node demo_family) \<le> NET_MAXNODES"
    by (simp add: demo_family_def demo_kernel_def NET_MAXNODES_def)
  show "do_put 0 (demo_start\<lparr>tf_rdx := 0x2100\<rparr>) 1 demo_family = None"
    by (rule do_put_panics [OF n]) (simp add: NET_MAXNODES_def)
  have "sys_migrate 0 5 (demo_start\<lparr>tf_rdi := of_nat VM_USERHI\<rparr>) demo_family = goon () demo_family"
    by (simp add: sys_migrate_def demo_start_def zero_tf_def demo_family_def demo_kernel_def)
  then show "do_put 0 (demo_start\<lparr>tf_rdi := of_nat VM_USERHI\<rparr>) 0x10001 demo_family = None"
    by (intro do_put_panics [OF n] disjI2)
      (simp add: sys_defs flag32_def demo_start_def zero_tf_def child_num_def demo_family_def zero_proc_def)
qed

text \<open>a copy that faults loses the caller's registers. Nothing stores the user's trap frame where
  \<open>sysrecover\<close> looks for it, so when \<open>CPUTS\<close> is given an unmapped buffer, the process is stopped
  with registers read from the bottom of physical memory instead of its own.\<close>

theorem cputs_fault_registers:
  assumes "checkva_ok (tf_rbx tf) CPUTS_MAX" and "\<not> cpu_recover s c" and "cpu_recoverdata s c = None"
    and "length (load_bytes (cur_pml4 c s) (unat (tf_rbx tf)) CPUTS_MAX s) < CPUTS_MAX"
  shows "\<exists>s1. do_cputs c tf s =
      stop_with (proc_ret c (tf_of (map (\<lambda>a. rd_byte a s1) [0..<208])) 0 s1) \<and> procs s1 = procs s"
proof -
  let ?s0 = "s\<lparr>cpu_recover := (cpu_recover s)(c := False)\<rparr>"
  define s1 where "s1 = put_bytes 160 (to_le 4 (0 :: u32)) (put_bytes 152 (to_le 8 T_PGFLT) ?s0)"
  have "vmem.more s1 = vmem.more ?s0" by (simp add: s1_def put_bytes_more)
  then have "procs s1 = procs s" using more_kst(1) [of s1 ?s0] by simp
  moreover have "do_cputs c tf s = stop_with (proc_ret c (tf_of (map (\<lambda>a. rd_byte a s1) [0..<208])) 0 s1)"
    using assms by (simp add: do_cputs_def usercopy_in_def checkva_def sysrecover_def s1_def Let_def del: upt_Suc)
  ultimately show ?thesis by blast
qed

theorem cputs_fault_registers_witness:
  "\<exists>s1. do_cputs 0 (zero_tf\<lparr>tf_rbx := 0x40000000\<rparr>) demo_family =
      stop_with (proc_ret 0 (tf_of (map (\<lambda>a. rd_byte a s1) [0..<208])) 0 s1) \<and> procs s1 = procs demo_family"
proof -
  have "load_byte (cur_pml4 0 demo_family) 0x40000000 demo_family = None"
    by (simp add: load_byte_def kern_phys_def VM_USERLO_def VM_KERNLO_def user_phys_def VM_USERHI_def va2pa_def
        NPTLVLS_def demo_family_def demo_kernel_def has_def numeral_3_eq_3)
  then have "load_bytes (cur_pml4 0 demo_family) 0x40000000 CPUTS_MAX demo_family = []"
    using load_bytes.simps(2) [of "cur_pml4 0 demo_family" "0x40000000" 255 demo_family] by (simp add: CPUTS_MAX_def)
  then show ?thesis
    by (intro cputs_fault_registers)
      (simp_all add: checkva_truncates VM_USERLO_def VM_USERHI_def CPUTS_MAX_def demo_family_def demo_kernel_def)
qed

end
