(* ===== verification/Net.thy ===== *)
theory Net
  imports Syscall
begin

text \<open>
  The cluster protocol (\<open>kern/net.c\<close>): migrating a process to another node and pulling its memory
  over, page by page. Sending a process away is in theory Proc; this theory holds the receiving
  side, the transfer of pages and the retransmission timer.

  A message is received as a \<open>frame\<close> with the number of bytes the driver delivered. The page that a
  process pulls into is kept as its page number. The kernel handles page-table entries in this
  file through \<open>uint32_t\<close> pointers, whatever the size of an entry: such a pointer is the index of a
  32-bit slot of physical memory, two of which make up a word of \<open>phys\<close>. The header of a pull
  reply ends in padding that the compiler adds and nobody initialises: it is the argument \<open>pad\<close>.
\<close>

subsection \<open>32-bit slots of memory\<close>

definition rd32 :: "nat \<Rightarrow> 'a vmem_scheme \<Rightarrow> u32" where
  "rd32 k s = ucast (drop_bit (32 * (k mod 2)) (phys s (k div 2)))"

definition wr32 :: "nat \<Rightarrow> u32 \<Rightarrow> 'a vmem_scheme \<Rightarrow> 'a vmem_scheme" where
  "wr32 k v s = wr (k div 2) ((phys s (k div 2) AND NOT (push_bit (32 * (k mod 2)) 0xFFFFFFFF)) OR
     push_bit (32 * (k mod 2)) (ucast v)) s"

subsection \<open>Initialisation\<close>

definition net_init :: "bool \<Rightarrow> bool \<Rightarrow> kst \<Rightarrow> kst option" where
  "net_init onboot e100_present s =
     (if \<not> onboot then Some s
      else if \<not> e100_present then Some s
      else do {
        cassert (net_mac s ! 0 \<noteq> 0 \<and> net_mac s ! 5 \<noteq> 0);
        Some (s\<lparr>net_node := net_mac s ! 5\<rparr>)
      })"

subsection \<open>Requests and replies\<close>

definition net_txmigrp :: "u8 \<Rightarrow> u32 \<Rightarrow> kst \<Rightarrow> kst option" where
  "net_txmigrp dstnode prochome s = do {
     f \<leftarrow> net_ethsetup dstnode (NET_MIGRP prochome) s;
     Some (net_tx f s)
   }"

definition net_txpullrq :: "nat \<Rightarrow> kst \<Rightarrow> kst option" where
  "net_txpullrq p s = do {
     cassert (pstate s p = PROC_PULL);
     let q = procs s p;
     f \<leftarrow> net_ethsetup (RRNODE (p_pullrr q)) (NET_PULLRQ (p_pullrr q) (p_pglev q) (p_arrived q XOR 7)) s;
     Some (net_tx f s)
   }"

definition net_pull :: "nat \<Rightarrow> u32 \<Rightarrow> nat \<Rightarrow> u8 \<Rightarrow> kst \<Rightarrow> kst option" where
  "net_pull p rr pg pglevel s = do {
     let dstnode = RRNODE (ucast rr);
     cassert (0 < unat dstnode \<and> unat dstnode \<le> NET_MAXNODES);
     cassert (dstnode \<noteq> net_node s);
     cassert (unat pglevel \<le> 2);
     cassert (p_pullnext (procs s p) = None);
     let s1 = upd_proc p (\<lambda>q. q\<lparr>p_pullnext := net_pulllist s\<rparr>) s;
     let s2 = upd_proc p (\<lambda>q. q\<lparr>p_state := PROC_PULL, p_pullrr := ucast rr, p_pullpg := pg,
                p_pglev := pglevel, p_arrived := 0\<rparr>) (s1\<lparr>net_pulllist := Some p\<rparr>);
     net_txpullrq p s2
   }"

definition PGLEV_PAGE :: u8 where "PGLEV_PAGE = 0"
definition PGLEV_PTAB :: u8 where "PGLEV_PTAB = 1"
definition PGLEV_PDIR :: u8 where "PGLEV_PDIR = 2"

text \<open>The local process for a migrating one: ours coming home, one seen before, or a new one.\<close>

definition migrq_proc :: "u32 \<Rightarrow> kst \<Rightarrow> (nat \<times> kst) option" where
  "migrq_proc home s =
     (if RRNODE (ucast home) = net_node s then Some (unat (RRADDR (ucast home)) div PAGESIZE, s)
      else do {
        (r, s1) \<leftarrow> mem_rrlookup home s;
        (case r of
           Some p \<Rightarrow> Some (p, s1)
         | None \<Rightarrow> do {
             (r', s2) \<leftarrow> proc_alloc None 0 s1;
             p \<leftarrow> r';
             let s3 = upd_proc p (\<lambda>q. q\<lparr>p_state := PROC_AWAY, p_home := ucast home\<rparr>) s2;
             s4 \<leftarrow> mem_rrtrack home p s3;
             Some (p, s4)
           })
      })"

definition net_rxmigrq :: "frame \<Rightarrow> u32 \<Rightarrow> u64 \<Rightarrow> procstate \<Rightarrow> kst \<Rightarrow> kst option" where
  "net_rxmigrq f home pml4 save s = do {
     let srcnode = fr_src f ! 5;
     cassert (0 < unat srcnode \<and> unat srcnode \<le> NET_MAXNODES);
     (p, s1) \<leftarrow> migrq_proc home s;
     cassert (p_home (procs s1 p) = ucast home);
     (if pstate s1 p \<noteq> PROC_AWAY then net_txmigrp srcnode (ucast (p_home (procs s1 p))) s1
      else do {
        let s2 = upd_proc p (\<lambda>q. q\<lparr>p_sv := save, p_rrpml4 := pml4, p_pullva := VM_USERLO\<rparr>) s1;
        s3 \<leftarrow> net_txmigrp srcnode (ucast (p_home (procs s2 p))) s2;
        s4 \<leftarrow> mem_decref (p_pml4 (procs s3 p) div NPTENTRIES) pmap_freepmap s3;
        (t, s5) \<leftarrow> pmap_newpmap s4;
        let s6 = upd_proc p (\<lambda>q. q\<lparr>p_pml4 := t\<rparr>) s5;
        net_pull p (ucast (p_rrpml4 (procs s6 p))) (t div NPTENTRIES) PGLEV_PDIR s6
      })
   }"

text \<open>The search of the migration list: \<open>pp\<close> is the process whose link is being followed, \<open>None\<close> for
  the list head. The result is the process found and that link.\<close>

partial_function (option) migr_scan :: "u64 \<Rightarrow> nat option \<Rightarrow> nat option \<Rightarrow> kst \<Rightarrow> (nat option \<times> nat) option option" where
  "migr_scan home pp p s =
     (case p of
        None \<Rightarrow> Some None
      | Some a \<Rightarrow> if p_home (procs s a) = home then Some (Some (pp, a))
                  else migr_scan home (Some a) (p_migrnext (procs s a)) s)"

definition set_migrlink :: "nat option \<Rightarrow> nat option \<Rightarrow> kst \<Rightarrow> kst" where
  "set_migrlink pp v s = (case pp of None \<Rightarrow> s\<lparr>net_migrlist := v\<rparr>
     | Some a \<Rightarrow> upd_proc a (\<lambda>q. q\<lparr>p_migrnext := v\<rparr>) s)"

definition net_rxmigrp :: "frame \<Rightarrow> u32 \<Rightarrow> kst \<Rightarrow> kst option" where
  "net_rxmigrp f home s = do {
     let msgsrcnode = fr_src f ! 5;
     cassert (0 < unat msgsrcnode \<and> unat msgsrcnode \<le> NET_MAXNODES);
     r \<leftarrow> migr_scan (ucast home) None (net_migrlist s) s;
     (case r of
        None \<Rightarrow> Some s
      | Some (pp, p) \<Rightarrow> do {
          let s1 = set_migrlink pp (p_migrnext (procs s p)) s;
          cassert (p_migrdest (procs s1 p) \<noteq> 0);
          Some (upd_proc p (\<lambda>q. q\<lparr>p_migrdest := 0, p_migrnext := None, p_state := PROC_AWAY\<rparr>) s1)
        })
   }"

subsection \<open>Sending pages\<close>

definition NET_PULLPART :: nat where "NET_PULLPART = 1368"
definition partlen :: "nat \<Rightarrow> nat" where
  "partlen part = (if part = 0 \<or> part = 1 then NET_PULLPART else PAGESIZE - NET_PULLPART - NET_PULLPART)"

text \<open>A page-table entry as a remote reference.\<close>

definition pte_rr :: "u32 \<Rightarrow> kst \<Rightarrow> u32 option" where
  "pte_rr pte s =
     (if has (ucast pte) RR_REMOTE then Some pte
      else if has (ucast pte) PTE_G then Some 0
      else let addr = PGADDR (ucast pte) in
        if addr = PTE_ZERO s then Some (ucast (RR_REMOTE OR (ucast pte AND RR_RW)))
        else do {
          let pi = unat addr div PAGESIZE;
          cassert (0 < pi);
          cassert (pi < mem_npage s);
          cassert (0 < refcount s pi);
          (if pi_home (mem_pageinfo s pi) \<noteq> 0 then Some (ucast (pi_home (mem_pageinfo s pi)))
           else Some (ucast (RRCONS (net_node s) addr (ucast pte AND RR_RW))))
        })"

fun pte_rrs :: "nat \<Rightarrow> nat \<Rightarrow> kst \<Rightarrow> u32 list option" where
  "pte_rrs k 0 s = Some []"
| "pte_rrs k (Suc n) s = do { r \<leftarrow> pte_rr (rd32 k s) s; rs \<leftarrow> pte_rrs (Suc k) n s; Some (r # rs) }"

definition net_txpullrp :: "u8 list \<Rightarrow> u8 \<Rightarrow> u32 \<Rightarrow> u8 \<Rightarrow> nat \<Rightarrow> nat \<Rightarrow> kst \<Rightarrow> kst option" where
  "net_txpullrp pad rqnode rr pglev part pg s = do {
     let data = pg * PAGESIZE + NET_PULLPART * part;
     let len = partlen part;
     cassert (len \<le> NET_PULLPART);
     cassert (len mod 4 = 0);
     bs \<leftarrow> (if 0 < pglev then map_option (\<lambda>rrs. concat (map (to_le 4) rrs)) (pte_rrs (data div 4) (len div 4) s)
           else Some (map (\<lambda>i. rd_byte (data + i) s) [0..<len]));
     f \<leftarrow> net_ethsetup rqnode (NET_PULLRP (ucast rr) (int part) pad bs) s;
     Some (net_tx f s)
   }"

definition net_rxpullrq :: "u8 list \<Rightarrow> frame \<Rightarrow> u64 \<Rightarrow> u8 \<Rightarrow> u8 \<Rightarrow> kst \<Rightarrow> kst option" where
  "net_rxpullrq pad f rqrr pglev need s = do {
     let rqnode = fr_src f ! 5;
     cassert (0 < unat rqnode \<and> unat rqnode \<le> NET_MAXNODES \<and> rqnode \<noteq> net_node s);
     let rr = (ucast rqrr :: u32);
     let pi = unat (RRADDR (ucast rr)) div PAGESIZE;
     (if RRNODE (ucast rr) \<noteq> net_node s then Some s
      else if pi = 0 \<or> mem_npage s \<le> pi then Some s
      else if refcount s pi = 0 then Some s
      else if pi_home (mem_pageinfo s pi) \<noteq> 0 then Some s
      else do {
        s1 \<leftarrow> net_rrshare pi rqnode s;
        s2 \<leftarrow> (if bit need 0 then net_txpullrp pad rqnode rr pglev 0 pi s1 else Some s1);
        s3 \<leftarrow> (if bit need 1 then net_txpullrp pad rqnode rr pglev 1 pi s2 else Some s2);
        s4 \<leftarrow> (if bit need 2 then net_txpullrp pad rqnode rr pglev 2 pi s3 else Some s3);
        Some (upd_pi pi (\<lambda>i. i\<lparr>pi_shared := pi_shared i OR share_bit rqnode\<rparr>) s4)
      })
   }"

subsection \<open>Receiving pages\<close>

definition pte_user :: "u8 \<Rightarrow> u32 \<Rightarrow> u64 \<Rightarrow> u64" where
  "pte_user pglevel rr e = (if 0 < pglevel \<or> has (ucast rr) SYS_READ then e OR (PTE_P OR PTE_U) else e)"

text \<open>Resolve the remote reference in slot \<open>pte\<close>: \<open>False\<close> means that a pull was started.\<close>

definition net_pullpte :: "nat \<Rightarrow> nat \<Rightarrow> u8 \<Rightarrow> kst \<Rightarrow> (bool \<times> kst) option" where
  "net_pullpte p pte pglevel s = do {
     let rr = rd32 pte s;
     let rw = ucast rr AND RR_RW;
     cassert (has (ucast rr) RR_REMOTE);
     (if RRADDR (ucast rr) = 0
      then Some (True, wr32 pte (ucast (if has (ucast rr) SYS_READ then (PTE_ZERO s OR rw) OR (PTE_P OR PTE_U)
             else PTE_ZERO s OR rw)) s)
      else if RRNODE (ucast rr) = net_node s
      then do {
        let pi = unat (RRADDR (ucast rr)) div PAGESIZE;
        s1 \<leftarrow> mem_incref pi s;
        cassert (pi_home (mem_pageinfo s1 pi) = 0);
        cassert (pi_shared (mem_pageinfo s1 pi) \<noteq> 0);
        Some (True, wr32 pte (ucast (pte_user pglevel rr (mem_pi2phys pi OR rw))) s1)
      }
      else do {
        (r, s1) \<leftarrow> mem_rrlookup rr s;
        (case r of
           Some pi \<Rightarrow> do {
             cassert (pi_home (mem_pageinfo s1 pi) = ucast rr);
             cassert (pi_shared (mem_pageinfo s1 pi) \<noteq> 0);
             Some (True, wr32 pte (ucast (pte_user pglevel rr (mem_pi2phys pi OR rw))) s1)
           }
         | None \<Rightarrow>
             (case mem_alloc s1 of
                (None, _) \<Rightarrow> None
              | (Some pi, s2) \<Rightarrow> do {
                  s3 \<leftarrow> mem_incref pi s2;
                  let s4 = wr32 pte (ucast (pte_user pglevel rr (mem_pi2phys pi OR rw))) s3;
                  s5 \<leftarrow> mem_rrtrack rr pi s4;
                  let s6 = upd_pi pi (\<lambda>i. i\<lparr>pi_shared := share_bit (RRNODE (ucast rr))\<rparr>) s5;
                  cassert (pi_shared (mem_pageinfo s6 pi) \<noteq> 0);
                  cassert (pi_home (mem_pageinfo s6 pi) = ucast rr);
                  s7 \<leftarrow> net_pull p rr pi pglevel s6;
                  Some (False, s7)
                }))
      })
   }"

text \<open>The entries of a received page directory outside the user area, from entry \<open>i\<close> on.\<close>

function net_kernel_entries :: "nat \<Rightarrow> nat \<Rightarrow> kst \<Rightarrow> kst" where
  "net_kernel_entries pg i s =
     (if i < NPTENTRIES
      then let j = (if i = PDX 3 VM_USERLO then PDX 3 VM_USERHI else i)
           in net_kernel_entries pg (Suc j) (wr (tabptr pg + j) (phys s (tabptr (pmap_bootpmap s) + j)) s)
      else s)"
  by pat_completeness auto
termination
  by (relation "measure (\<lambda>(pg, i, s). NPTENTRIES - i)")
    (auto simp: PDX_def PDSIZE_def PDSHIFT_def VM_USERLO_def VM_USERHI_def NPTENTRIES_def)

declare net_kernel_entries.simps [simp del]

text \<open>The loop that looks for the next reference to pull, from the process's \<open>pullva\<close> on. It ends
  with a pull under way, or with the process ready.\<close>

partial_function (option) net_pull_loop :: "nat \<Rightarrow> kst \<Rightarrow> kst option" where
  "net_pull_loop p s =
     (let va = p_pullva (procs s p); pde = p_pml4 (procs s p) + PDX 3 va in
      if \<not> va < VM_USERHI then Some (proc_ready p s)
      else case (if has (phys s pde) RR_REMOTE then net_pullpte p (2 * pde) PGLEV_PTAB s else Some (True, s)) of
        None \<Rightarrow> None
      | Some (b, s1) \<Rightarrow>
          if \<not> b then Some s1
          else if has (phys s1 pde) RR_REMOTE then None
          else if PGADDR (phys s1 pde) = PTE_ZERO s1
          then net_pull_loop p (upd_proc p (\<lambda>q. q\<lparr>p_pullva := PDADDR 1 (va + PDSIZE 1)\<rparr>) s1)
          else if PGADDR (phys s1 pde) = 0 then None
          else let pte = unat (PGADDR (phys s1 pde)) div 4 + PDX 0 va in
            case (if has (ucast (rd32 pte s1)) RR_REMOTE then net_pullpte p pte PGLEV_PAGE s1 else Some (True, s1)) of
              None \<Rightarrow> None
            | Some (b', s2) \<Rightarrow>
                if \<not> b' then Some s2
                else if has (ucast (rd32 pte s2)) RR_REMOTE \<or> PGADDR (ucast (rd32 pte s2)) = 0 then None
                else net_pull_loop p (upd_proc p (\<lambda>q. q\<lparr>p_pullva := va + PAGESIZE\<rparr>) s2))"

partial_function (option) pull_scan :: "u64 \<Rightarrow> nat option \<Rightarrow> nat option \<Rightarrow> kst \<Rightarrow> (nat option \<times> nat) option option" where
  "pull_scan rr pp p s =
     (case p of
        None \<Rightarrow> Some None
      | Some a \<Rightarrow>
          if pstate s a \<noteq> PROC_PULL then None
          else if p_pullrr (procs s a) = rr then Some (Some (pp, a))
          else pull_scan rr (Some a) (p_pullnext (procs s a)) s)"

definition set_pulllink :: "nat option \<Rightarrow> nat option \<Rightarrow> kst \<Rightarrow> kst" where
  "set_pulllink pp v s = (case pp of None \<Rightarrow> s\<lparr>net_pulllist := v\<rparr>
     | Some a \<Rightarrow> upd_proc a (\<lambda>q. q\<lparr>p_pullnext := v\<rparr>) s)"

text \<open>The payload starts right after \<open>part\<close>, at the padding, and its length is what follows the whole
  header.\<close>

definition net_rxpullrp :: "u64 \<Rightarrow> int \<Rightarrow> u8 list \<Rightarrow> u8 list \<Rightarrow> kst \<Rightarrow> kst option" where
  "net_rxpullrp rr part pad payload s = do {
     r \<leftarrow> pull_scan rr None (net_pulllist s) s;
     (case r of
        None \<Rightarrow> Some s
      | Some (pp, p) \<Rightarrow>
          if part < 0 \<or> 2 < part then Some s
          else if bit (p_arrived (procs s p)) (nat part) then Some s
          else if length payload \<noteq> partlen (nat part) then Some s
          else do {
            let s1 = put_bytes (p_pullpg (procs s p) * PAGESIZE + NET_PULLPART * nat part)
                       (take (length payload) (pad @ payload)) s;
            let s2 = upd_proc p (\<lambda>q. q\<lparr>p_arrived := p_arrived q OR push_bit (nat part) 1\<rparr>) s1;
            let s3 = (if p_arrived (procs s2 p) = 7 then set_pulllink pp (p_pullnext (procs s2 p)) s2 else s2);
            (if p_arrived (procs s3 p) \<noteq> 7 then Some s3
             else net_pull_loop p (if p_pglev (procs s3 p) = PGLEV_PDIR
                    then net_kernel_entries (p_pullpg (procs s3 p)) 0 s3 else s3))
          })
   }"

subsection \<open>Dispatch and retransmission\<close>

definition sizeof_net_hdr :: int where "sizeof_net_hdr = 20"
definition sizeof_net_migrq :: int where "sizeof_net_migrq = 768"
definition sizeof_net_migrp :: int where "sizeof_net_migrp = 24"
definition sizeof_net_pullrq :: int where "sizeof_net_pullrq = 40"
definition sizeof_net_pullrphdr :: int where "sizeof_net_pullrphdr = 40"

definition net_rx :: "u8 list \<Rightarrow> frame \<Rightarrow> int \<Rightarrow> kst \<Rightarrow> kst option" where
  "net_rx pad f len s =
     (if len < sizeof_net_hdr then Some s
      else if fr_dst f \<noteq> net_mac s then Some s
      else if take 5 (fr_src f) \<noteq> take 5 (net_mac s) \<or> unat (fr_src f ! 5) < 1 \<or> NET_MAXNODES < unat (fr_src f ! 5)
      then Some s
      else if fr_type f \<noteq> NET_ETHERTYPE then Some s
      else case fr_msg f of
        NET_MIGRQ home pml4 save \<Rightarrow> if len < sizeof_net_migrq then Some s else net_rxmigrq f home pml4 save s
      | NET_MIGRP home \<Rightarrow> if len < sizeof_net_migrp then Some s else net_rxmigrp f home s
      | NET_PULLRQ rr pglev need \<Rightarrow> if len < sizeof_net_pullrq then Some s else net_rxpullrq pad f rr pglev need s
      | NET_PULLRP rr part rpad payload \<Rightarrow>
          if len < sizeof_net_pullrphdr then Some s else net_rxpullrp rr part rpad payload s)"

partial_function (option) retx_migr :: "nat option \<Rightarrow> kst \<Rightarrow> kst option" where
  "retx_migr p s =
     (case p of None \<Rightarrow> Some s
      | Some a \<Rightarrow> (case net_txmigrq a s of None \<Rightarrow> None | Some s1 \<Rightarrow> retx_migr (p_migrnext (procs s1 a)) s1))"

partial_function (option) retx_pull :: "nat option \<Rightarrow> kst \<Rightarrow> kst option" where
  "retx_pull p s =
     (case p of None \<Rightarrow> Some s
      | Some a \<Rightarrow> (case net_txpullrq a s of None \<Rightarrow> None | Some s1 \<Rightarrow> retx_pull (p_pullnext (procs s1 a)) s1))"

definition net_tick :: "bool \<Rightarrow> kst \<Rightarrow> kst option" where
  "net_tick onboot s =
     (if \<not> onboot then Some s
      else let t = wrap32 (net_ticks s + 1); s0 = s\<lparr>net_ticks := t\<rparr> in
        if t mod 64 \<noteq> 0 then Some s0
        else do {
          s1 \<leftarrow> retx_migr (net_migrlist s0) s0;
          retx_pull (net_pulllist s1) s1
        })"

end
