(* ===== verification/NetProps.thy ===== *)
theory NetProps
  imports Net Sched Frames Cow
begin

text \<open>
  Properties of the cluster protocol: the lists of migrating and pulling processes are kept
  well formed, acknowledgements and requests may be duplicated without harm, the timer resends
  exactly what is outstanding, and two ways in which pulling a page goes wrong.
\<close>

subsection \<open>Lists threaded through the processes\<close>

text \<open>A list of processes with a head and a link in each process, and the update of one link.\<close>

locale proc_list =
  fixes first :: "kst \<Rightarrow> nat option"
    and link :: "kst \<Rightarrow> nat \<Rightarrow> nat option"
    and set_link :: "nat option \<Rightarrow> nat option \<Rightarrow> kst \<Rightarrow> kst"
  assumes set_first: "first (set_link None v s) = v" "link (set_link None v s) = link s"
    and set_next: "first (set_link (Some a) v s) = first s" "link (set_link (Some a) v s) = (link s)(a := v)"
begin

definition on_list :: "kst \<Rightarrow> nat list \<Rightarrow> bool" where
  "on_list s ps \<longleftrightarrow> chain (link s) (first s) ps"

text \<open>The link that leads to the element after \<open>ps\<close>.\<close>

definition link_at :: "nat list \<Rightarrow> nat option" where
  "link_at ps = (if ps = [] then None else Some (last ps))"

lemma unlink:
  assumes "on_list s (ps @ p # qs)"
  shows "on_list (set_link (link_at ps) (link s p) s) (ps @ qs)"
proof (cases "ps = []")
  case True
  with assms show ?thesis by (simp add: on_list_def link_at_def set_first)
next
  case False
  with assms chain_remove [of "link s" "first s" ps p qs] show ?thesis
    by (simp add: on_list_def link_at_def set_next)
qed

lemma on_list_distinct: "on_list s ps \<Longrightarrow> distinct ps"
  unfolding on_list_def by (rule chain_distinct)

lemma on_list_unique: "on_list s ps \<Longrightarrow> on_list s qs \<Longrightarrow> ps = qs"
  unfolding on_list_def by (rule chain_unique)

end

text \<open>The lists of migrating and of pulling processes.\<close>

abbreviation migrnext :: "kst \<Rightarrow> nat \<Rightarrow> nat option" where "migrnext s p \<equiv> p_migrnext (procs s p)"
abbreviation pullnext :: "kst \<Rightarrow> nat \<Rightarrow> nat option" where "pullnext s p \<equiv> p_pullnext (procs s p)"

interpretation migr: proc_list net_migrlist migrnext set_migrlink
  by unfold_locales (auto simp: set_migrlink_def)

interpretation pull: proc_list net_pulllist pullnext set_pulllink
  by unfold_locales (auto simp: set_pulllink_def)

definition on_migrlist :: "kst \<Rightarrow> nat list \<Rightarrow> bool" where
  "on_migrlist s ps \<longleftrightarrow> chain (\<lambda>p. p_migrnext (procs s p)) (net_migrlist s) ps"

definition on_pulllist :: "kst \<Rightarrow> nat list \<Rightarrow> bool" where
  "on_pulllist s ps \<longleftrightarrow> chain (\<lambda>p. p_pullnext (procs s p)) (net_pulllist s) ps"

lemma on_list_eqs: "on_migrlist s ps = migr.on_list s ps" "on_pulllist s ps = pull.on_list s ps"
  by (simp_all add: on_migrlist_def on_pulllist_def migr.on_list_def pull.on_list_def)

subsection \<open>Acknowledged migrations\<close>

text \<open>The search finds the first process with the given home, and always ends.\<close>

lemma migr_scan_split:
  assumes "chain (migrnext s) h (ps @ p # qs)" and "p_home (procs s p) = home"
    and "\<forall>v \<in> set ps. p_home (procs s v) \<noteq> home"
  shows "migr_scan home pp h s = Some (Some (if ps = [] then pp else Some (last ps), p))"
  using assms
proof (induction ps arbitrary: h pp)
  case Nil
  then show ?case by (simp add: migr_scan.simps)
next
  case (Cons a ps)
  then have "migr_scan home (Some a) (migrnext s a) s = Some (Some (if ps = [] then Some a else Some (last ps), p))"
    by auto
  with Cons.prems show ?case by (subst migr_scan.simps) auto
qed

lemma migr_scan_none:
  assumes "chain (migrnext s) h ps" and "\<forall>v \<in> set ps. p_home (procs s v) \<noteq> home"
  shows "migr_scan home pp h s = Some None"
  using assms by (induction ps arbitrary: h pp) (auto simp: migr_scan.simps)

definition from_cluster :: "frame \<Rightarrow> bool" where
  "from_cluster f \<longleftrightarrow> 0 < unat (fr_src f ! 5) \<and> unat (fr_src f ! 5) \<le> NET_MAXNODES"

text \<open>C28: an acknowledgement takes exactly the acknowledged process off the list of migrating
  processes and marks it away; no other process's place on the list changes. A duplicate of the
  acknowledgement, or one for a process that is not migrating, changes nothing.\<close>

theorem net_rxmigrp_removes:
  assumes "from_cluster f" and "on_migrlist s (ps @ p # qs)" and "p_home (procs s p) = ucast home"
    and "\<forall>v \<in> set (ps @ qs). p_home (procs s v) \<noteq> ucast home" and "p_migrdest (procs s p) \<noteq> 0"
  shows "\<exists>s'. net_rxmigrp f home s = Some s' \<and> on_migrlist s' (ps @ qs) \<and>
    pstate s' p = PROC_AWAY \<and> p_migrdest (procs s' p) = 0 \<and> p_migrnext (procs s' p) = None \<and>
    (\<forall>v. v \<noteq> p \<longrightarrow> pstate s' v = pstate s v) \<and> net_rxmigrp f home s' = Some s'"
proof -
  have on: "migr.on_list s (ps @ p # qs)" using assms(2) by (simp add: on_list_eqs)
  define s1 where "s1 = set_migrlink (migr.link_at ps) (migrnext s p) s"
  define s' where "s' = upd_proc p (\<lambda>q. q\<lparr>p_migrdest := 0, p_migrnext := None, p_state := PROC_AWAY\<rparr>) s1"
  have "migr_scan (ucast home) None (net_migrlist s) s = Some (Some (migr.link_at ps, p))"
    using migr_scan_split [of s "net_migrlist s" ps p qs "ucast home" None] on assms(3,4)
    by (auto simp: migr.on_list_def migr.link_at_def)
  moreover have pr1: "p_home (procs s1 v) = p_home (procs s v)" "pstate s1 v = pstate s v"
    "p_migrdest (procs s1 v) = p_migrdest (procs s v)" for v
    by (auto simp: s1_def set_migrlink_def split: option.splits)
  ultimately have run: "net_rxmigrp f home s = Some s'"
    using assms(1,5) by (simp add: net_rxmigrp_def from_cluster_def s1_def [symmetric] s'_def)
  have on1: "migr.on_list s1 (ps @ qs)" unfolding s1_def by (rule migr.unlink [OF on])
  have "p \<notin> set (ps @ qs)" using migr.on_list_distinct [OF on] by auto
  then have "chain (migrnext s') (net_migrlist s1) (ps @ qs) = chain (migrnext s1) (net_migrlist s1) (ps @ qs)"
    by (intro chain_cong) (auto simp: s'_def)
  with on1 have on': "migr.on_list s' (ps @ qs)" by (simp add: migr.on_list_def s'_def)
  have home': "p_home (procs s' v) = p_home (procs s v)" for v by (simp add: s'_def pr1)
  have "migr_scan (ucast home) None (net_migrlist s') s' = Some None"
    by (rule migr_scan_none [of _ _ "ps @ qs"]) (use on' assms(4) in \<open>auto simp: migr.on_list_def home'\<close>)
  then have "net_rxmigrp f home s' = Some s'"
    using assms(1) by (simp add: net_rxmigrp_def from_cluster_def)
  moreover have "pstate s' v = pstate s v" if "v \<noteq> p" for v using that by (simp add: s'_def pr1)
  ultimately show ?thesis using run on' by (auto simp: s'_def on_list_eqs)
qed

definition demo_migrating :: kst where
  "demo_migrating = demo_kernel\<lparr>procs := (\<lambda>_. zero_proc)
     (5 := zero_proc\<lparr>p_state := PROC_MIGR, p_migrdest := 2, p_migrnext := Some 6, p_home := 0x5802\<rparr>,
      6 := zero_proc\<lparr>p_state := PROC_MIGR, p_migrdest := 3, p_home := 0x6802\<rparr>), net_migrlist := Some 5\<rparr>"

theorem net_rxmigrp_removes_witness:
  "\<exists>s'. net_rxmigrp \<lparr>fr_dst = [2, 0, 0, 0, 0, 1], fr_src = [2, 0, 0, 0, 0, 3], fr_type = NET_ETHERTYPE,
        fr_msg = NET_MIGRP 0x6802\<rparr> 0x6802 demo_migrating = Some s' \<and> on_migrlist s' [5] \<and> pstate s' 6 = PROC_AWAY"
proof -
  let ?f = "\<lparr>fr_dst = [2, 0, 0, 0, 0, 1], fr_src = [2, 0, 0, 0, 0, 3], fr_type = NET_ETHERTYPE, fr_msg = NET_MIGRP 0x6802\<rparr>"
  have "from_cluster ?f" "on_migrlist demo_migrating ([5] @ 6 # [])"
    "p_home (procs demo_migrating 6) = ucast (0x6802 :: u32)" "p_migrdest (procs demo_migrating 6) \<noteq> 0"
    "\<forall>v \<in> set ([5] @ []). p_home (procs demo_migrating v) \<noteq> ucast (0x6802 :: u32)"
    by (simp_all add: from_cluster_def NET_MAXNODES_def on_migrlist_def demo_migrating_def zero_proc_def demo_kernel_def)
  from net_rxmigrp_removes [OF this(1-3,5,4)] show ?thesis by auto
qed

subsection \<open>Retransmission\<close>

text \<open>The frames that ask again for what is outstanding.\<close>

definition migrq_frame :: "kst \<Rightarrow> nat \<Rightarrow> frame" where
  "migrq_frame s p = \<lparr>fr_dst = (net_mac s)[5 := p_migrdest (procs s p)], fr_src = net_mac s, fr_type = NET_ETHERTYPE,
     fr_msg = NET_MIGRQ (ucast (p_home (procs s p)))
       (RRCONS (net_node s) (of_nat (8 * p_pml4 (procs s p))) 0) (p_sv (procs s p))\<rparr>"

definition pullrq_frame :: "kst \<Rightarrow> nat \<Rightarrow> frame" where
  "pullrq_frame s p = \<lparr>fr_dst = (net_mac s)[5 := RRNODE (p_pullrr (procs s p))], fr_src = net_mac s,
     fr_type = NET_ETHERTYPE,
     fr_msg = NET_PULLRQ (p_pullrr (procs s p)) (p_pglev (procs s p)) (p_arrived (procs s p) XOR 7)\<rparr>"

definition other_node :: "kst \<Rightarrow> u8 \<Rightarrow> bool" where
  "other_node s n \<longleftrightarrow> 0 < unat n \<and> unat n \<le> NET_MAXNODES \<and> n \<noteq> net_node s"

definition migr_ok :: "kst \<Rightarrow> nat \<Rightarrow> bool" where
  "migr_ok s p \<longleftrightarrow> pstate s p = PROC_MIGR \<and> other_node s (p_migrdest (procs s p))"

definition pull_ok :: "kst \<Rightarrow> nat \<Rightarrow> bool" where
  "pull_ok s p \<longleftrightarrow> pstate s p = PROC_PULL \<and> other_node s (RRNODE (p_pullrr (procs s p)))"

lemma net_txmigrq_eq: "migr_ok s p \<Longrightarrow> net_txmigrq p s = Some (s\<lparr>net_out := net_out s @ [migrq_frame s p]\<rparr>)"
  by (simp add: net_txmigrq_def migr_ok_def other_node_def net_ethsetup_def net_tx_def migrq_frame_def Let_def)

lemma net_txpullrq_eq: "pull_ok s p \<Longrightarrow> net_txpullrq p s = Some (s\<lparr>net_out := net_out s @ [pullrq_frame s p]\<rparr>)"
  by (simp add: net_txpullrq_def pull_ok_def other_node_def net_ethsetup_def net_tx_def pullrq_frame_def Let_def)

lemma out_simps [simp]:
  "migr_ok (s\<lparr>net_out := fs\<rparr>) = migr_ok s" "pull_ok (s\<lparr>net_out := fs\<rparr>) = pull_ok s"
  "migrq_frame (s\<lparr>net_out := fs\<rparr>) = migrq_frame s" "pullrq_frame (s\<lparr>net_out := fs\<rparr>) = pullrq_frame s"
  by (simp_all add: migr_ok_def pull_ok_def other_node_def migrq_frame_def pullrq_frame_def fun_eq_iff)

lemma retx_migr_eq:
  "chain (migrnext s) h ps \<Longrightarrow> \<forall>p \<in> set ps. migr_ok s p \<Longrightarrow>
   retx_migr h s = Some (s\<lparr>net_out := net_out s @ map (migrq_frame s) ps\<rparr>)"
proof (induction ps arbitrary: h s)
  case (Cons p ps)
  let ?s1 = "s\<lparr>net_out := net_out s @ [migrq_frame s p]\<rparr>"
  have "retx_migr (migrnext s p) ?s1 = Some (?s1\<lparr>net_out := net_out ?s1 @ map (migrq_frame ?s1) ps\<rparr>)"
    using Cons.prems by (intro Cons.IH) auto
  with Cons.prems show ?case by (subst retx_migr.simps) (simp add: net_txmigrq_eq)
qed (simp add: retx_migr.simps)

lemma retx_pull_eq:
  "chain (pullnext s) h ps \<Longrightarrow> \<forall>p \<in> set ps. pull_ok s p \<Longrightarrow>
   retx_pull h s = Some (s\<lparr>net_out := net_out s @ map (pullrq_frame s) ps\<rparr>)"
proof (induction ps arbitrary: h s)
  case (Cons p ps)
  let ?s1 = "s\<lparr>net_out := net_out s @ [pullrq_frame s p]\<rparr>"
  have "retx_pull (pullnext s p) ?s1 = Some (?s1\<lparr>net_out := net_out ?s1 @ map (pullrq_frame ?s1) ps\<rparr>)"
    using Cons.prems by (intro Cons.IH) auto
  with Cons.prems show ?case by (subst retx_pull.simps) (simp add: net_txpullrq_eq)
qed (simp add: retx_pull.simps)

text \<open>C29: what is lost is sent again. On every 64th tick of the boot processor the timer terminates,
  having sent one migration request for each migrating process and one pull request, for exactly
  the parts still missing, for each pulling process, and changed nothing else; on the other ticks
  it sends nothing.\<close>

theorem net_tick_retransmits:
  assumes "on_migrlist s ps" and "on_pulllist s qs" and "\<forall>p \<in> set ps. migr_ok s p" and "\<forall>q \<in> set qs. pull_ok s q"
    and "0 \<le> net_ticks s" and "net_ticks s + 1 < 2 ^ 31"
  shows "net_tick True s = Some (s\<lparr>net_ticks := net_ticks s + 1,
    net_out := net_out s @ (if (net_ticks s + 1) mod 64 = 0 then map (migrq_frame s) ps @ map (pullrq_frame s) qs else [])\<rparr>)"
proof -
  let ?s0 = "s\<lparr>net_ticks := net_ticks s + 1\<rparr>"
  let ?s1 = "?s0\<lparr>net_out := net_out s @ map (migrq_frame s) ps\<rparr>"
  have t: "wrap32 (net_ticks s + 1) = net_ticks s + 1" using assms(5,6) by simp
  have ok: "migr_ok ?s0 = migr_ok s" "pull_ok ?s0 = pull_ok s" "migrq_frame ?s0 = migrq_frame s" "pullrq_frame ?s0 = pullrq_frame s"
    by (simp_all add: migr_ok_def pull_ok_def other_node_def migrq_frame_def pullrq_frame_def fun_eq_iff)
  have "retx_migr (net_migrlist s) ?s0 = Some ?s1"
    using retx_migr_eq [of ?s0 "net_migrlist s" ps] assms(1,3) by (simp add: on_migrlist_def ok)
  moreover have "retx_pull (net_pulllist s) ?s1 = Some (?s1\<lparr>net_out := net_out ?s1 @ map (pullrq_frame s) qs\<rparr>)"
    using retx_pull_eq [of ?s1 "net_pulllist s" qs] assms(2,4) by (simp add: on_pulllist_def ok)
  ultimately show ?thesis using t by (simp add: net_tick_def)
qed

theorem net_tick_retransmits_witness:
  "net_tick True (demo_migrating\<lparr>net_ticks := 63\<rparr>) = Some (demo_migrating\<lparr>net_ticks := 64,
     net_out := map (migrq_frame demo_migrating) [5, 6]\<rparr>)"
proof -
  let ?s = "demo_migrating\<lparr>net_ticks := 63\<rparr>"
  have "on_migrlist ?s [5, 6]" "on_pulllist ?s []" "\<forall>p \<in> set [5, 6]. migr_ok ?s p"
    by (simp_all add: on_migrlist_def on_pulllist_def migr_ok_def other_node_def NET_MAXNODES_def
        demo_migrating_def zero_proc_def demo_kernel_def)
  from net_tick_retransmits [OF this(1,2,3)] show ?thesis
    by (simp add: migrq_frame_def demo_migrating_def demo_kernel_def zero_proc_def)
qed

subsection \<open>Pulling a page\<close>

lemma pull_scan_split:
  assumes "chain (pullnext s) h (ps @ p # qs)" and "p_pullrr (procs s p) = rr"
    and "\<forall>v \<in> set ps. p_pullrr (procs s v) \<noteq> rr" and "\<forall>v \<in> set (ps @ [p]). pstate s v = PROC_PULL"
  shows "pull_scan rr pp h s = Some (Some (if ps = [] then pp else Some (last ps), p))"
  using assms
proof (induction ps arbitrary: h pp)
  case Nil
  then show ?case by (simp add: pull_scan.simps)
next
  case (Cons a ps)
  then have "pull_scan rr (Some a) (pullnext s a) s = Some (Some (if ps = [] then Some a else Some (last ps), p))"
    by auto
  with Cons.prems show ?case by (subst pull_scan.simps) auto
qed

lemma rd_put_bytes:
  "rd_byte a (put_bytes b bs s) = (if b \<le> a \<and> a < b + length bs then bs ! (a - b) else rd_byte a s)"
proof (induction b bs s rule: put_bytes.induct)
  case (2 b x bs s)
  then show ?case by (cases "a = b") (auto simp: rd_byte_wr_byte nth_Cons')
qed auto

lemma rd_byte_procs [simp]: "rd_byte a (upd_proc p f s) = rd_byte a s"
  by (simp add: rd_byte_def)

lemma put_bytes_keeps: "procs (put_bytes a bs s) = procs s" "net_pulllist (put_bytes a bs s) = net_pulllist s"
  by (induction a bs s rule: put_bytes.induct) (simp_all add: wr_byte_def wr_def)

text \<open>a page arrives shifted. The receiver of a part of a page takes the padding at the end of the
  header for the first four bytes of the data: in the part of the page it fills, every byte comes
  out four places too high, the first four are whatever the sender's stack held, and the last
  four bytes are lost.\<close>

theorem pulled_part_shifted:
  assumes tx: "net_txpullrp pad n rr 0 part pg a = Some a'" and part: "part \<le> 2" and pad: "length pad = 4"
    and on: "on_pulllist b (ps @ p # qs)" and rr: "p_pullrr (procs b p) = ucast rr"
    and "\<forall>v \<in> set ps. p_pullrr (procs b v) \<noteq> ucast rr" and "\<forall>v \<in> set (ps @ [p]). pstate b v = PROC_PULL"
    and arr: "p_arrived (procs b p) = 0"
  shows "\<exists>payload b'. fr_msg (last (net_out a')) = NET_PULLRP (ucast rr) (int part) pad payload \<and>
    net_rxpullrp (ucast rr) (int part) pad payload b = Some b' \<and>
    (\<forall>i < partlen part. pg_byte (p_pullpg (procs b p)) (NET_PULLPART * part + i) b' =
       (if i < 4 then pad ! i else pg_byte pg (NET_PULLPART * part + i - 4) a))"
proof -
  let ?bs = "map (\<lambda>i. rd_byte (pg * PAGESIZE + NET_PULLPART * part + i) a) [0..<partlen part]"
  have msg: "fr_msg (last (net_out a')) = NET_PULLRP (ucast rr) (int part) pad ?bs"
    using tx by (auto simp: net_txpullrp_def net_ethsetup_def net_tx_def Let_def elim!: bind_SomeE)
  let ?w = "put_bytes (p_pullpg (procs b p) * PAGESIZE + NET_PULLPART * part) (take (partlen part) (pad @ ?bs)) b"
  let ?b' = "upd_proc p (\<lambda>q. q\<lparr>p_arrived := p_arrived q OR push_bit part 1\<rparr>) ?w"
  have "pull_scan (ucast rr) None (net_pulllist b) b = Some (Some (if ps = [] then None else Some (last ps), p))"
    using on assms(6,7) rr by (intro pull_scan_split [of _ _ _ _ qs]) (auto simp: on_pulllist_def)
  moreover have "push_bit part (1 :: u8) \<noteq> 7" using part by (cases part; cases "part - 1"; cases "part - 2") auto
  ultimately have rx: "net_rxpullrp (ucast rr) (int part) pad ?bs b = Some ?b'"
    using part arr by (simp add: net_rxpullrp_def put_bytes_keeps del: upt_Suc)
  have "pg_byte (p_pullpg (procs b p)) (NET_PULLPART * part + i) ?b' =
       (if i < 4 then pad ! i else pg_byte pg (NET_PULLPART * part + i - 4) a)" if "i < partlen part" for i
    using that pad by (auto simp: rd_put_bytes nth_append add.assoc)
  with msg rx show ?thesis by blast
qed

definition demo_pulling :: kst where
  "demo_pulling = demo_kernel\<lparr>procs := (\<lambda>_. zero_proc)
     (5 := zero_proc\<lparr>p_state := PROC_PULL, p_pullrr := 0x7804, p_pullpg := 3\<rparr>), net_pulllist := Some 5\<rparr>"

theorem pulled_part_shifted_witness:
  "\<exists>b'. net_rxpullrp 0x7804 2 [1, 2, 3, 4]
      (map (\<lambda>i. rd_byte (7 * PAGESIZE + NET_PULLPART * 2 + i) demo_kernel) [0..<partlen 2]) demo_pulling = Some b' \<and>
    pg_byte 3 2736 b' = 1 \<and> pg_byte 3 2737 b' = 2"
proof -
  let ?a = "demo_kernel\<lparr>net_node := 2\<rparr>"
  have part: "partlen 2 = 1360" by (simp add: partlen_def PAGESIZE_def NET_PULLPART_def)
  let ?bs = "map (\<lambda>i. rd_byte (7 * PAGESIZE + NET_PULLPART * 2 + i) ?a) [0..<partlen 2]"
  obtain a' where tx: "net_txpullrp [1, 2, 3, 4] 1 0x7804 0 2 7 ?a = Some a'"
    and a': "fr_msg (last (net_out a')) = NET_PULLRP 0x7804 2 [1, 2, 3, 4] ?bs"
    by (auto simp: net_txpullrp_def part NET_PULLPART_def net_ethsetup_def NET_MAXNODES_def net_tx_def Let_def
        simp del: upt_Suc)
  have "on_pulllist demo_pulling ([] @ 5 # [])" "p_pullrr (procs demo_pulling 5) = ucast (0x7804 :: u32)"
    "\<forall>v \<in> set ([] @ [5]). pstate demo_pulling v = PROC_PULL" "p_arrived (procs demo_pulling 5) = 0" "p_pullpg (procs demo_pulling 5) = 3"
    by (simp_all add: on_pulllist_def demo_pulling_def demo_kernel_def zero_proc_def)
  from pulled_part_shifted [OF tx _ _ this(1,2) _ this(3,4)] this(5) obtain b' where
    rx: "net_rxpullrp 0x7804 2 [1, 2, 3, 4] ?bs demo_pulling = Some b'"
    and b: "\<forall>i < 1360. pg_byte 3 (NET_PULLPART * 2 + i) b' =
      (if i < 4 then [1, 2, 3, 4] ! i else pg_byte 7 (NET_PULLPART * 2 + i - 4) ?a)"
    by (auto simp: a' part simp del: upt_Suc)
  have "?bs = map (\<lambda>i. rd_byte (7 * PAGESIZE + NET_PULLPART * 2 + i) demo_kernel) [0..<partlen 2]"
    by (simp add: rd_byte_def)
  moreover have "pg_byte 3 2736 b' = 1" "pg_byte 3 2737 b' = 2"
    using b [rule_format, of 0] b [rule_format, of 1] by (simp_all add: NET_PULLPART_def)
  ultimately show ?thesis using rx by metis
qed

text \<open>two processes cannot pull at the same time. When all parts of a page have arrived, the
  process is taken off the list of pulling processes, but its own link is not cleared; unless it
  was the last on the list, its next pull runs into an assertion and the kernel panics.\<close>

theorem net_pull_again_panics:
  assumes "on_pulllist s (ps @ p # q # qs)"
  shows "on_pulllist (set_pulllink (if ps = [] then None else Some (last ps)) (p_pullnext (procs s p)) s) (ps @ q # qs) \<and>
    net_pull p rr pg lev (set_pulllink (if ps = [] then None else Some (last ps)) (p_pullnext (procs s p)) s) = None"
proof -
  have on: "pull.on_list s (ps @ p # (q # qs))" using assms by (simp add: on_list_eqs)
  have "pullnext s p = Some q"
    using chain_suffix [of "pullnext s" "net_pulllist s" ps p "q # qs"] assms by (simp add: on_pulllist_def)
  moreover have "ps \<noteq> [] \<Longrightarrow> last ps \<noteq> p" using pull.on_list_distinct [OF on] by auto
  ultimately have link: "pullnext (set_pulllink (if ps = [] then None else Some (last ps)) (pullnext s p) s) p = Some q"
    by (auto simp: set_pulllink_def)
  then have "net_pull p rr pg lev (set_pulllink (if ps = [] then None else Some (last ps)) (pullnext s p) s) = None"
    by (auto simp: net_pull_def cassert_def Let_def split: Option.bind_splits)
  with pull.unlink [OF on] show ?thesis by (simp add: on_list_eqs pull.link_at_def)
qed

theorem net_pull_again_panics_witness:
  "net_pull 5 0x9804 4 0 (set_pulllink None (Some 6) (demo_pulling\<lparr>procs := (procs demo_pulling)
     (5 := (procs demo_pulling 5)\<lparr>p_pullnext := Some 6\<rparr>)\<rparr>)) = None"
  using net_pull_again_panics [of "demo_pulling\<lparr>procs := (procs demo_pulling)
     (5 := (procs demo_pulling 5)\<lparr>p_pullnext := Some 6\<rparr>)\<rparr>" "[]" 5 6 "[]" "0x9804" 4 0]
  by (simp add: on_pulllist_def demo_pulling_def demo_kernel_def zero_proc_def)

text \<open>a migration request that arrives twice is only acknowledged twice. If the process is already
  here, the request changes nothing but for the acknowledgement it sends.\<close>

theorem net_rxmigrq_duplicate:
  assumes "RRNODE (ucast home) = net_node s" and "p = unat (RRADDR (ucast home)) div PAGESIZE"
    and "p_home (procs s p) = ucast home" and "pstate s p \<noteq> PROC_AWAY" and "other_node s (fr_src f ! 5)"
  shows "net_rxmigrq f home pml4 save s = Some (s\<lparr>net_out := net_out s @
    [\<lparr>fr_dst = (net_mac s)[5 := fr_src f ! 5], fr_src = net_mac s, fr_type = NET_ETHERTYPE, fr_msg = NET_MIGRP home\<rparr>]\<rparr>)"
proof -
  have "ucast (ucast home :: u64) = home" by (rule bit_word_eqI) (auto simp: bit_ucast_iff)
  with assms show ?thesis
    by (simp add: net_rxmigrq_def migrq_proc_def net_txmigrp_def net_ethsetup_def net_tx_def other_node_def)
qed

theorem net_rxmigrq_duplicate_witness:
  "net_rxmigrq \<lparr>fr_dst = [2, 0, 0, 0, 0, 1], fr_src = [2, 0, 0, 0, 0, 3], fr_type = NET_ETHERTYPE,
      fr_msg = NET_MIGRQ 0x5802 0 zero_sv\<rparr> 0x5802 0 zero_sv demo_migrating =
   Some (demo_migrating\<lparr>net_out := [\<lparr>fr_dst = [2, 0, 0, 0, 0, 3], fr_src = [2, 0, 0, 0, 0, 1],
      fr_type = NET_ETHERTYPE, fr_msg = NET_MIGRP 0x5802\<rparr>]\<rparr>)"
  by (subst net_rxmigrq_duplicate [of _ _ 5])
    (simp_all add: demo_migrating_def demo_kernel_def RRNODE_def RRADDR_def RR_ADDR_def PAGESIZE_def zero_proc_def
      other_node_def NET_MAXNODES_def)

end
