(* ===== verification/Trap.thy ===== *)
theory Trap
  imports Net
begin

text \<open>
  Traps (\<open>kern/trap.c\<close>): the dispatcher that every exception, interrupt and system call enters.

  Device drivers are arguments: what \<open>kbd_intr\<close>, \<open>serial_intr\<close>, \<open>lapic_errintr\<close> and \<open>e100_intr\<close> do to
  the kernel state, and the interrupt line of the Ethernet card. So are the faulting address the
  processor reports and the timer's reading. Acknowledging an interrupt has no effect on the
  kernel state, and neither have diagnostic messages.
\<close>

definition T_DEBUG :: u64 where "T_DEBUG = 1"
definition T_BRKPT :: u64 where "T_BRKPT = 3"
definition T_OFLOW :: u64 where "T_OFLOW = 4"
definition T_DEVICE :: u64 where "T_DEVICE = 7"
definition T_SIMD :: u64 where "T_SIMD = 19"
definition T_IRQ0 :: u64 where "T_IRQ0 = 32"
definition T_LTIMER :: u64 where "T_LTIMER = 49"
definition T_LERROR :: u64 where "T_LERROR = 50"
definition T_PERFCTR :: u64 where "T_PERFCTR = 51"
definition IRQ_KBD :: u64 where "IRQ_KBD = 1"
definition IRQ_SERIAL :: u64 where "IRQ_SERIAL = 4"
definition IRQ_SPURIOUS :: u64 where "IRQ_SPURIOUS = 7"

lemmas trap_nums = T_DEBUG_def T_BRKPT_def T_OFLOW_def T_DEVICE_def T_SIMD_def T_IRQ0_def T_LTIMER_def
  T_LERROR_def T_PERFCTR_def IRQ_KBD_def IRQ_SERIAL_def IRQ_SPURIOUS_def T_SYSCALL_def T_PGFLT_def T_GPFLT_def T_ICNT_def

record devices =
  kbd_intr :: "kst \<Rightarrow> kst option"
  serial_intr :: "kst \<Rightarrow> kst option"
  lapic_errintr :: "kst \<Rightarrow> kst option"
  e100_intr :: "kst \<Rightarrow> kst option"
  e100_irq :: u64

definition from_user :: "trapframe \<Rightarrow> bool" where "from_user tf \<longleftrightarrow> tf_cs tf AND 3 \<noteq> 0"

definition resume_after :: "trapframe \<Rightarrow> kst option \<Rightarrow> sysout sysres" where
  "resume_after tf r = map_option (\<lambda>s. Inr (Resume tf, s)) r"

text \<open>The end of \<open>trap\<close>: the network card, or a trap to reflect to the parent, or a panic.\<close>

definition trap_other :: "devices \<Rightarrow> nat \<Rightarrow> trapframe \<Rightarrow> kst \<Rightarrow> sysout sysres" where
  "trap_other dv c tf s =
     (if tf_trapno tf = T_IRQ0 + e100_irq dv then resume_after tf (e100_intr dv s)
      else if from_user tf then stop_with (proc_ret c tf (- 1) s)
      else None)"

text \<open>The lazily enabled FPU.\<close>

definition trap_fpu :: "nat \<Rightarrow> nat \<Rightarrow> trapframe \<Rightarrow> kst \<Rightarrow> sysout sysres" where
  "trap_fpu c p tf s =
     (let s1 = upd_proc p (\<lambda>q. q\<lparr>p_sv := (p_sv q)\<lparr>sv_pff := sv_pff (p_sv q) OR PFF_USEFPU\<rparr>\<rparr>) s
      in goon (Resume tf) (s1\<lparr>cpu_ts := (cpu_ts s1)(c := False), cpu_fx := (cpu_fx s1)(c := sv_fx (p_sv (procs s1 p)))\<rparr>))"

text \<open>Instruction counting, by single steps and by performance counters.\<close>

definition trap_debug :: "nat \<Rightarrow> nat \<Rightarrow> trapframe \<Rightarrow> kst \<Rightarrow> sysout sysres" where
  "trap_debug c p tf s =
     (let sv = p_sv (procs s p) in
      if \<not> (from_user tf \<and> has (tf_rflags tf) FL_TF \<and> flag32 (sv_pff sv) PFF_ICNT \<and>
            (\<not> pmc_on s \<or> sv_imax sv - sv_icnt sv \<le> of_int (pmc_safety s))) then None
      else let s1 = upd_proc p (\<lambda>q. q\<lparr>p_sv := (p_sv q)\<lparr>sv_icnt := sv_icnt (p_sv q) + 1\<rparr>\<rparr>) s in
        if sv_icnt sv + 1 < sv_imax sv then goon (Resume tf) s1
        else stop_with (proc_ret c (tf\<lparr>tf_trapno := T_ICNT\<rparr>) (- 1) s1))"

definition trap_perfctr :: "nat \<Rightarrow> nat \<Rightarrow> trapframe \<Rightarrow> kst \<Rightarrow> sysout sysres" where
  "trap_perfctr c p tf s =
     (let q = procs s p; sv = p_sv q in
      if \<not> from_user tf \<or> p_pmcmax q = 0 then goon (Resume tf) s
      else if \<not> (flag32 (sv_pff sv) PFF_ICNT \<and> pmc_on s) then None
      else let ninsn = wrap32 (cpu_pmc s c);
               overshoot = wrap32 (ninsn - p_pmcmax q);
               s1 = (if overshoot > pmc_overshoot s then s\<lparr>pmc_overshoot := overshoot\<rparr> else s);
               icnt = sv_icnt sv + of_int ninsn;
               s2 = upd_proc p (\<lambda>q. q\<lparr>p_sv := (p_sv q)\<lparr>sv_icnt := icnt\<rparr>, p_pmcmax := 0\<rparr>) s1
        in if icnt > sv_imax sv then None
           else if icnt < sv_imax sv then goon (Resume (tf\<lparr>tf_rflags := tf_rflags tf OR FL_TF\<rparr>)) s2
           else stop_with (proc_ret c (tf\<lparr>tf_trapno := T_ICNT\<rparr>) (- 1) s2))"

definition trap_switch :: "devices \<Rightarrow> nat \<Rightarrow> bool \<Rightarrow> u64 \<Rightarrow> trapframe \<Rightarrow> kst \<Rightarrow> sysout sysres" where
  "trap_switch dv c onboot now tf s =
     (let t = tf_trapno tf; p = (case cpu_proc s c of None \<Rightarrow> proc_null | Some p \<Rightarrow> p) in
      if t = T_SYSCALL
      then if \<not> from_user tf then None
           else andthen (syscall c now tf s) (\<lambda>r s.
             (case r of OrdinaryTrap \<Rightarrow> trap_other dv c tf s | _ \<Rightarrow> goon r s))
      else if t = T_BRKPT \<or> t = T_OFLOW then if \<not> from_user tf then None else stop_with (proc_ret c tf 1 s)
      else if t = T_DEVICE then trap_fpu c p tf s
      else if t = T_LTIMER then resume_after tf (net_tick onboot s)
      else if t = T_LERROR then resume_after tf (lapic_errintr dv s)
      else if t = T_IRQ0 + IRQ_KBD then resume_after tf (kbd_intr dv s)
      else if t = T_IRQ0 + IRQ_SERIAL then resume_after tf (serial_intr dv s)
      else if t = T_IRQ0 + IRQ_SPURIOUS then goon (Resume tf) s
      else if t = T_DEBUG then trap_debug c p tf s
      else if t = T_PERFCTR then trap_perfctr c p tf s
      else if t = T_SIMD then trap_other dv c (tf\<lparr>tf_err := fx_mxcsr (cpu_fx s c)\<rparr>) s
      else trap_other dv c tf s)"

definition trap :: "devices \<Rightarrow> nat \<Rightarrow> bool \<Rightarrow> u64 \<Rightarrow> nat \<Rightarrow> trapframe \<Rightarrow> kst \<Rightarrow> sysout sysres" where
  "trap dv c onboot now cr2 tf s =
     (case (if tf_trapno tf = T_PGFLT then pmap_pagefault (cur_pml4 c s) cr2 (ucast (tf_err tf)) s else Some (False, s)) of
        None \<Rightarrow> None
      | Some (handled, s1) \<Rightarrow>
          if handled then goon (Resume tf) s1
          else if cpu_recover s1 c then stop_with (sysrecover c (tf_trapno tf) (tf_err tf) s1)
          else trap_switch dv c onboot now tf s1)"

end
