(* ===== verification/FileSys.thy ===== *)
theory FileSys
  imports Mem
begin

text \<open>
  The user-space file system (\<open>inc/file.h\<close>, \<open>lib/file.c\<close>, \<open>lib/dir.c\<close>). Every process holds its own
  copy of all files, in its own memory: a table of inodes, a table of open files, and for each
  inode a 4 MB area of file data.

  The state of one process is a \<open>filestate\<close>. The data areas are one array of bytes \<open>fs_mem\<close>, indexed
  from the start of the file region, with the pages that the process may access in \<open>fs_rw\<close>. The
  system calls that the library makes on its own memory are modelled by their effect there:
  granting permission to a page that was never used makes zeros accessible, and removing
  permission hides a page but keeps its content.

  A function returns \<open>None\<close> where an assertion fails or memory is accessed without permission: the
  process then stops. Strings have no terminating null; \<open>path[len] == 0\<close> is the end of the list.
\<close>

subsection \<open>Constants\<close>

definition OPEN_MAX :: nat where "OPEN_MAX = 256"
definition NAME_MAX :: nat where "NAME_MAX = 63"
definition FILE_INODES :: nat where "FILE_INODES = OPEN_MAX"
definition FILE_MAXSIZE :: nat where "FILE_MAXSIZE = 0x400000"

definition O_RDONLY :: u32 where "O_RDONLY = 0x0001"
definition O_WRONLY :: u32 where "O_WRONLY = 0x0002"
definition O_APPEND :: u32 where "O_APPEND = 0x0010"
definition O_CREAT :: u32 where "O_CREAT = 0x0020"
definition O_TRUNC :: u32 where "O_TRUNC = 0x0040"

definition S_IFMT :: u32 where "S_IFMT = 0x7000"
definition S_IFREG :: u32 where "S_IFREG = 0x1000"
definition S_IFDIR :: u32 where "S_IFDIR = 0x2000"
definition S_IFPART :: u32 where "S_IFPART = 0x8000"
definition S_IFCONF :: u32 where "S_IFCONF = 0x10000"

definition FILEINO_NULL :: int where "FILEINO_NULL = 0"
definition FILEINO_CONSIN :: nat where "FILEINO_CONSIN = 1"
definition FILEINO_CONSOUT :: nat where "FILEINO_CONSOUT = 2"
definition FILEINO_ROOTDIR :: nat where "FILEINO_ROOTDIR = 3"
definition FILEINO_GENERAL :: nat where "FILEINO_GENERAL = 4"

definition EINVAL :: int where "EINVAL = 1"
definition ENOENT :: int where "ENOENT = 2"
definition EFBIG :: int where "EFBIG = 3"
definition EMFILE :: int where "EMFILE = 4"
definition ENOTDIR :: int where "ENOTDIR = 5"
definition ENAMETOOLONG :: int where "ENAMETOOLONG = 6"
definition ENOSPC :: int where "ENOSPC = 7"
definition EAGAIN :: int where "EAGAIN = 8"
definition ECHILD :: int where "ECHILD = 9"
definition ECONFLICT :: int where "ECONFLICT = 10"

definition S_ISREG :: "u32 \<Rightarrow> bool" where "S_ISREG m \<longleftrightarrow> m AND S_IFMT = S_IFREG"
definition S_ISDIR :: "u32 \<Rightarrow> bool" where "S_ISDIR m \<longleftrightarrow> m AND S_IFMT = S_IFDIR"
definition flagged :: "u32 \<Rightarrow> u32 \<Rightarrow> bool" where "flagged w f \<longleftrightarrow> w AND f \<noteq> 0"

subsection \<open>State\<close>

record filedesc =
  fd_ino :: int
  fd_flags :: u32
  fd_ofs :: int
  fd_err :: int

record fileinode =
  fi_dino :: int
  fi_name :: string
  fi_ver :: int
  fi_mode :: u32
  fi_size :: nat
  fi_rino :: int
  fi_rver :: int
  fi_rlen :: nat

record filestate =
  fs_err :: int
  fs_cwd :: int
  fs_exited :: bool
  fs_status :: int
  fs_fd :: "nat \<Rightarrow> filedesc"
  fs_fi :: "nat \<Rightarrow> fileinode"
  fs_child :: "nat \<Rightarrow> int"
  fs_thself :: int
  fs_mem :: "nat \<Rightarrow> u8"
  fs_rw :: "nat \<Rightarrow> bool"

definition inode :: "int \<Rightarrow> filestate \<Rightarrow> fileinode" where "inode ino fs = fs_fi fs (nat ino)"

definition upd_fi :: "int \<Rightarrow> (fileinode \<Rightarrow> fileinode) \<Rightarrow> filestate \<Rightarrow> filestate" where
  "upd_fi ino f fs = fs\<lparr>fs_fi := (fs_fi fs)(nat ino := f (fs_fi fs (nat ino)))\<rparr>"

definition upd_fd :: "nat \<Rightarrow> (filedesc \<Rightarrow> filedesc) \<Rightarrow> filestate \<Rightarrow> filestate" where
  "upd_fd d f fs = fs\<lparr>fs_fd := (fs_fd fs)(d := f (fs_fd fs d))\<rparr>"

definition set_errno :: "int \<Rightarrow> filestate \<Rightarrow> filestate" where "set_errno e fs = fs\<lparr>fs_err := e\<rparr>"

definition filedesc_isopen :: "nat \<Rightarrow> filestate \<Rightarrow> bool" where
  "filedesc_isopen d fs \<longleftrightarrow> d < OPEN_MAX \<and> fd_ino (fs_fd fs d) \<noteq> FILEINO_NULL"
definition filedesc_isreadable :: "nat \<Rightarrow> filestate \<Rightarrow> bool" where
  "filedesc_isreadable d fs \<longleftrightarrow> filedesc_isopen d fs \<and> flagged (fd_flags (fs_fd fs d)) O_RDONLY"
definition filedesc_iswritable :: "nat \<Rightarrow> filestate \<Rightarrow> bool" where
  "filedesc_iswritable d fs \<longleftrightarrow> filedesc_isopen d fs \<and> flagged (fd_flags (fs_fd fs d)) O_WRONLY"

definition fileino_isvalid :: "int \<Rightarrow> bool" where "fileino_isvalid ino \<longleftrightarrow> 0 < ino \<and> ino < int FILE_INODES"
definition fileino_alloced :: "int \<Rightarrow> filestate \<Rightarrow> bool" where
  "fileino_alloced ino fs \<longleftrightarrow> fileino_isvalid ino \<and> fi_name (inode ino fs) \<noteq> []"
definition fileino_exists :: "int \<Rightarrow> filestate \<Rightarrow> bool" where
  "fileino_exists ino fs \<longleftrightarrow> fileino_alloced ino fs \<and> fi_mode (inode ino fs) \<noteq> 0"
definition fileino_isreg :: "int \<Rightarrow> filestate \<Rightarrow> bool" where
  "fileino_isreg ino fs \<longleftrightarrow> fileino_alloced ino fs \<and> S_ISREG (fi_mode (inode ino fs))"
definition fileino_isdir :: "int \<Rightarrow> filestate \<Rightarrow> bool" where
  "fileino_isdir ino fs \<longleftrightarrow> fileino_alloced ino fs \<and> S_ISDIR (fi_mode (inode ino fs))"

lemmas fileino_defs = fileino_isvalid_def fileino_alloced_def fileino_exists_def fileino_isreg_def fileino_isdir_def

subsection \<open>File data in memory\<close>

definition FILEDATA :: "int \<Rightarrow> nat" where "FILEDATA ino = nat ino * 0x400000"

definition user_ok :: "nat \<Rightarrow> nat \<Rightarrow> filestate \<Rightarrow> bool" where
  "user_ok a n fs \<longleftrightarrow> list_all (\<lambda>i. fs_rw fs ((a + i) div PAGESIZE)) [0..<n]"

definition user_read :: "nat \<Rightarrow> nat \<Rightarrow> filestate \<Rightarrow> u8 list option" where
  "user_read a n fs = (if user_ok a n fs then Some (map (\<lambda>i. fs_mem fs (a + i)) [0..<n]) else None)"

definition user_write :: "nat \<Rightarrow> u8 list \<Rightarrow> filestate \<Rightarrow> filestate option" where
  "user_write a bs fs =
     (if user_ok a (length bs) fs
      then Some (fs\<lparr>fs_mem := (\<lambda>x. if a \<le> x \<and> x < a + length bs then bs ! (x - a) else fs_mem fs x)\<rparr>)
      else None)"

text \<open>\<open>sys_get\<close> with \<open>SYS_PERM\<close> on a page-aligned range, and with \<open>SYS_ZERO\<close>.\<close>

definition sys_perm_range :: "bool \<Rightarrow> nat \<Rightarrow> nat \<Rightarrow> filestate \<Rightarrow> filestate" where
  "sys_perm_range b a n fs =
     fs\<lparr>fs_rw := (\<lambda>pg. if a \<le> pg * PAGESIZE \<and> pg * PAGESIZE < a + n then b else fs_rw fs pg)\<rparr>"

definition sys_zero_range :: "nat \<Rightarrow> nat \<Rightarrow> filestate \<Rightarrow> filestate" where
  "sys_zero_range a n fs = (sys_perm_range False a n fs)
     \<lparr>fs_mem := (\<lambda>x. if a \<le> x \<and> x < a + n then 0 else fs_mem fs x)\<rparr>"

subsection \<open>Inodes\<close>

definition fileino_alloc :: "filestate \<Rightarrow> int \<times> filestate" where
  "fileino_alloc fs =
     (case List.find (\<lambda>i. fi_name (fs_fi fs i) = []) [FILEINO_GENERAL..<FILE_INODES] of
        Some i \<Rightarrow> (int i, fs)
      | None \<Rightarrow> (- 1, set_errno ENOSPC fs))"

text \<open>\<open>fileino_create\<close> works on either file state but always reports errors in its own process's
  \<open>errno\<close>: the third component says whether it did.\<close>

definition fileino_create :: "int \<Rightarrow> string \<Rightarrow> filestate \<Rightarrow> (int \<times> filestate \<times> bool) option" where
  "fileino_create dino name fs = do {
     cassert (dino \<noteq> 0);
     cassert (name \<noteq> []);
     cassert (length name \<le> NAME_MAX);
     (case List.find (\<lambda>i. fi_dino (fs_fi fs i) = dino \<and> fi_name (fs_fi fs i) = name) [FILEINO_GENERAL..<FILE_INODES] of
        Some i \<Rightarrow> Some (int i, fs, False)
      | None \<Rightarrow>
          (case List.find (\<lambda>i. fi_name (fs_fi fs i) = []) [FILEINO_GENERAL..<FILE_INODES] of
             Some i \<Rightarrow> Some (int i, upd_fi (int i) (\<lambda>n. n\<lparr>fi_dino := dino, fi_name := name\<rparr>) fs, False)
           | None \<Rightarrow> Some (- 1, fs, True)))
   }"

text \<open>Reading. Each element of \<open>wakes\<close> is what the parent did to our state before it resumed us from
  one \<open>sys_ret\<close>; when they are used up the process is still asleep (\<open>Inl\<close>).\<close>

fun read_loop :: "(filestate \<Rightarrow> filestate) list \<Rightarrow> int \<Rightarrow> nat \<Rightarrow> nat \<Rightarrow> nat \<Rightarrow> u8 list \<Rightarrow> nat \<Rightarrow> filestate \<Rightarrow>
    (filestate + u8 list \<times> nat \<times> filestate) option" where
  "read_loop wakes ino ofs eltsize count buf actual fs =
     (if count = 0 then Some (Inr (buf, actual, fs))
      else do {
        let fi = inode ino fs;
        let avail = (if fi_size fi \<le> ofs then 0 else min count ((fi_size fi - ofs) div eltsize));
        bs \<leftarrow> (if 0 < avail then user_read (FILEDATA ino + ofs) (avail * eltsize) fs else Some []);
        (if count - avail = 0 \<or> \<not> flagged (fi_mode fi) S_IFPART then Some (Inr (buf @ bs, actual + avail, fs))
         else case wakes of
             [] \<Rightarrow> Some (Inl fs)
           | w # ws \<Rightarrow> read_loop ws ino ofs eltsize (count - avail) (buf @ bs) (actual + avail) (w fs))
      })"

declare read_loop.simps [simp del]

definition fileino_read :: "(filestate \<Rightarrow> filestate) list \<Rightarrow> int \<Rightarrow> int \<Rightarrow> nat \<Rightarrow> nat \<Rightarrow> filestate \<Rightarrow>
    (filestate + u8 list \<times> nat \<times> filestate) option" where
  "fileino_read wakes ino ofs eltsize count fs = do {
     cassert (fileino_isreg ino fs);
     cassert (0 \<le> ofs);
     cassert (0 < eltsize);
     read_loop wakes ino (nat ofs) eltsize count [] 0 fs
   }"

text \<open>Growing a file that will end at \<open>lim\<close>.\<close>

definition file_grow :: "int \<Rightarrow> nat \<Rightarrow> filestate \<Rightarrow> filestate" where
  "file_grow ino lim fs =
     (let size = fi_size (inode ino fs) in
      if size < lim
      then upd_fi ino (\<lambda>n. n\<lparr>fi_size := lim\<rparr>)
             (if ROUNDUP size PAGESIZE < ROUNDUP lim PAGESIZE
              then sys_perm_range True (FILEDATA ino + ROUNDUP size PAGESIZE)
                     (ROUNDUP lim PAGESIZE - ROUNDUP size PAGESIZE) fs
              else fs)
      else fs)"

text \<open>Writing \<open>count\<close> elements from the buffer \<open>buf\<close>. Sizes are 64-bit and their product wraps.\<close>

definition fileino_write :: "int \<Rightarrow> int \<Rightarrow> u8 list \<Rightarrow> nat \<Rightarrow> nat \<Rightarrow> filestate \<Rightarrow> (int \<times> filestate) option" where
  "fileino_write ino ofs buf eltsize count fs = do {
     cassert (fileino_isreg ino fs);
     cassert (0 \<le> ofs);
     cassert (0 < eltsize);
     cassert (fi_size (inode ino fs) \<le> FILE_MAXSIZE);
     let len = eltsize * count mod 2 ^ 64;
     let lim = (nat ofs + len) mod 2 ^ 64;
     (if lim < nat ofs \<or> FILE_MAXSIZE < lim then Some (- 1, set_errno EFBIG fs)
      else do {
        cassert (len \<le> length buf);
        fs2 \<leftarrow> user_write (FILEDATA ino + nat ofs) (take len buf) (file_grow ino lim fs);
        Some (int count, fs2)
      })
   }"

record stat =
  st_ino :: int
  st_mode :: u32
  st_size :: nat

definition fileino_stat :: "int \<Rightarrow> filestate \<Rightarrow> stat option" where
  "fileino_stat ino fs = do {
     cassert (fileino_exists ino fs);
     cassert (fileino_isdir (fi_dino (inode ino fs)) fs);
     Some \<lparr>st_ino = ino, st_mode = fi_mode (inode ino fs), st_size = fi_size (inode ino fs)\<rparr>
   }"

definition fileino_truncate :: "int \<Rightarrow> int \<Rightarrow> filestate \<Rightarrow> (int \<times> filestate) option" where
  "fileino_truncate ino newsize fs = do {
     cassert (fileino_isvalid ino);
     cassert (0 \<le> newsize \<and> newsize \<le> int FILE_MAXSIZE);
     let new = nat newsize;
     let oldsize = fi_size (inode ino fs);
     let oldpagelim = ROUNDUP oldsize PAGESIZE;
     let newpagelim = ROUNDUP new PAGESIZE;
     fs1 \<leftarrow>
       (if oldsize < new
        then user_write (FILEDATA ino + oldsize) (replicate (new - oldsize) 0)
               (sys_perm_range True (FILEDATA ino + oldpagelim) (newpagelim - oldpagelim) fs)
        else if 0 < new
        then Some (sys_perm_range False (FILEDATA ino + newpagelim) (FILE_MAXSIZE - newpagelim) fs)
        else Some (sys_zero_range (FILEDATA ino) FILE_MAXSIZE fs));
     Some (0, upd_fi ino (\<lambda>n. n\<lparr>fi_size := new, fi_ver := wrap32 (fi_ver n + 1)\<rparr>) fs1)
   }"

text \<open>\<open>True\<close> when the call sleeps in \<open>sys_ret\<close>.\<close>

definition fileino_flush :: "int \<Rightarrow> filestate \<Rightarrow> bool option" where
  "fileino_flush ino fs = do {
     cassert (fileino_isvalid ino);
     Some (fi_rlen (inode ino fs) < fi_size (inode ino fs))
   }"

end
