(* ===== verification/Dir.thy ===== *)
theory Dir
  imports FileSys
begin

text \<open>
  Directories (\<open>lib/dir.c\<close>) and open files (the second half of \<open>lib/file.c\<close>). A directory's entries
  are the inodes whose \<open>dino\<close> names it. A result \<open>-1\<close> or \<open>None\<close> inside a successful return is the C
  function's error return, with the reason in \<open>fs_err\<close>.
\<close>

subsection \<open>Walking a path\<close>

definition slash :: char where "slash = CHR ''/''"
definition dot :: char where "dot = CHR ''.''"

text \<open>An inode whose name is the next component of the path.\<close>

definition dir_match :: "int \<Rightarrow> string \<Rightarrow> filestate \<Rightarrow> nat \<Rightarrow> bool" where
  "dir_match dino path fs i \<longleftrightarrow>
     fileino_alloced (int i) fs \<and> fi_dino (fs_fi fs i) = dino \<and>
     (let name = fi_name (fs_fi fs i); len = length name in
      take len path = name \<and> (drop len path = [] \<or> hd (drop len path) = slash))"

text \<open>What the search of directory \<open>dino\<close> finds, and the length of the component.\<close>

definition dir_search :: "int \<Rightarrow> string \<Rightarrow> filestate \<Rightarrow> (int \<times> nat) option" where
  "dir_search dino path fs =
     (case List.find (dir_match dino path fs) [1..<FILE_INODES] of
        Some i \<Rightarrow> Some (int i, length (fi_name (fs_fi fs i)))
      | None \<Rightarrow>
          if take 1 path = [dot] \<and> (drop 1 path = [] \<or> hd (drop 1 path) = slash) then Some (dino, 1)
          else if take 2 path = [dot, dot] \<and> (drop 2 path = [] \<or> hd (drop 2 path) = slash)
          then Some (fi_dino (inode dino fs), 2)
          else None)"

lemma dir_search_len:
  assumes "dir_search dino path fs = Some (ino, len)"
  shows "0 < len" and "drop len path = [] \<or> hd (drop len path) = slash"
proof -
  from assms have *: "0 < len \<and> (drop len path = [] \<or> hd (drop len path) = slash)"
  proof (cases "List.find (dir_match dino path fs) [1..<FILE_INODES]")
    case (Some i)
    then have "dir_match dino path fs i" by (auto simp: find_Some_iff)
    with assms Some show ?thesis
      by (auto simp: dir_search_def dir_match_def Let_def fileino_alloced_def inode_def)
  next
    case None
    with assms show ?thesis by (auto simp: dir_search_def split: if_splits)
  qed
  then show "0 < len" and "drop len path = [] \<or> hd (drop len path) = slash" by simp_all
qed

definition dir_create :: "int \<Rightarrow> string \<Rightarrow> u32 \<Rightarrow> filestate \<Rightarrow> (int \<times> filestate) option" where
  "dir_create dino path createmode fs =
     (if createmode = 0 \<or> slash \<in> set path then Some (- 1, set_errno ENOENT fs)
      else if NAME_MAX < length path then Some (- 1, set_errno ENAMETOOLONG fs)
      else let (ino, fs1) = fileino_alloc fs in
        if ino < 0 then Some (- 1, fs1)
        else if \<not> (fileino_isvalid ino \<and> \<not> fileino_alloced ino fs1) then None
        else Some (ino, upd_fi ino (\<lambda>n. n\<lparr>fi_name := path, fi_dino := dino, fi_ver := 0, fi_mode := createmode,
               fi_size := 0\<rparr>) fs1))"

text \<open>The entry at the end of the path, which may have been deleted.\<close>

definition dir_final :: "int \<Rightarrow> u32 \<Rightarrow> filestate \<Rightarrow> int \<times> filestate" where
  "dir_final ino createmode fs =
     (if fileino_exists ino fs then (ino, fs)
      else if createmode = 0 then (- 1, set_errno ENOENT fs)
      else (ino, upd_fi ino (\<lambda>n. n\<lparr>fi_ver := wrap32 (fi_ver n + 1), fi_mode := createmode, fi_size := 0\<rparr>) fs))"

function walk_from :: "int \<Rightarrow> string \<Rightarrow> u32 \<Rightarrow> filestate \<Rightarrow> (int \<times> filestate) option" where
  "walk_from dino path createmode fs =
     (if \<not> (fileino_isdir dino fs \<and> fileino_isdir (fi_dino (inode dino fs)) fs) then None
      else case dir_search dino path fs of
        None \<Rightarrow> dir_create dino path createmode fs
      | Some (ino, len) \<Rightarrow>
          if drop len path = [] then Some (dir_final ino createmode fs)
          else if \<not> fileino_isdir ino fs then Some (- 1, set_errno ENOTDIR fs)
          else let rest = dropWhile (\<lambda>ch. ch = slash) (drop len path) in
            if rest = [] then Some (ino, fs) else walk_from ino rest createmode fs)"
  by pat_completeness auto
termination
proof (relation "measure (\<lambda>(d, path, m, fs). length path)", goal_cases)
  case (2 dino path createmode fs pr ino len rest)
  then have "0 < len" "drop len path \<noteq> []" using dir_search_len(1) by auto
  moreover have "length rest \<le> length (drop len path)"
    unfolding 2(6) by (rule length_dropWhile_le)
  ultimately show ?case by (auto simp: not_le)
qed simp

declare walk_from.simps [simp del]

definition dir_walk :: "string \<Rightarrow> u32 \<Rightarrow> filestate \<Rightarrow> (int \<times> filestate) option" where
  "dir_walk path createmode fs =
     (if path = [] then None
      else if hd path = slash
      then let rest = dropWhile (\<lambda>ch. ch = slash) path in
        if rest = [] then Some (int FILEINO_ROOTDIR, fs)
        else walk_from (int FILEINO_ROOTDIR) rest createmode fs
      else walk_from (fs_cwd fs) path createmode fs)"

subsection \<open>Open files\<close>

definition filedesc_alloc :: "filestate \<Rightarrow> nat option \<times> filestate" where
  "filedesc_alloc fs =
     (case List.find (\<lambda>i. fd_ino (fs_fd fs i) = FILEINO_NULL) [0..<OPEN_MAX] of
        Some i \<Rightarrow> (Some i, fs) | None \<Rightarrow> (None, set_errno EMFILE fs))"

definition open_at :: "nat \<Rightarrow> string \<Rightarrow> u32 \<Rightarrow> u32 \<Rightarrow> filestate \<Rightarrow> (nat option \<times> filestate) option" where
  "open_at d path openflags mode fs = do {
     cassert (fd_ino (fs_fd fs d) = FILEINO_NULL);
     let createmode = (if flagged openflags O_CREAT then S_IFREG OR (mode AND 0x1FF) else 0);
     (ino, fs1) \<leftarrow> dir_walk path createmode fs;
     (if ino < 0 then Some (None, fs1)
      else do {
        cassert (fileino_exists ino fs1);
        (if flagged (fi_mode (inode ino fs1)) S_IFCONF then Some (None, set_errno ECONFLICT fs1)
         else if flagged openflags O_TRUNC \<and> \<not> flagged openflags O_WRONLY then Some (None, set_errno EINVAL fs1)
         else do {
           (r, fs2) \<leftarrow> (if flagged openflags O_TRUNC then fileino_truncate ino 0 fs1 else Some (0, fs1));
           (if r < 0 then Some (None, fs2)
            else do {
              let fs3 = upd_fd d (\<lambda>x. x\<lparr>fd_ino := ino, fd_flags := openflags,
                fd_ofs := (if flagged openflags O_APPEND then wrap32 (int (fi_size (inode ino fs2))) else 0),
                fd_err := 0\<rparr>) fs2;
              cassert (filedesc_isopen d fs3);
              Some (Some d, fs3)
            })
         })
      })
   }"

definition filedesc_open :: "nat option \<Rightarrow> string \<Rightarrow> u32 \<Rightarrow> u32 \<Rightarrow> filestate \<Rightarrow> (nat option \<times> filestate) option" where
  "filedesc_open fd path openflags mode fs =
     (case fd of
        Some d \<Rightarrow> open_at d path openflags mode fs
      | None \<Rightarrow> (case filedesc_alloc fs of
            (None, fs1) \<Rightarrow> Some (None, fs1)
          | (Some d, fs1) \<Rightarrow> open_at d path openflags mode fs1))"

definition filedesc_read :: "(filestate \<Rightarrow> filestate) list \<Rightarrow> nat \<Rightarrow> nat \<Rightarrow> nat \<Rightarrow> filestate \<Rightarrow>
    (filestate + u8 list \<times> nat \<times> filestate) option" where
  "filedesc_read wakes d eltsize count fs = do {
     cassert (filedesc_isreadable d fs);
     r \<leftarrow> fileino_read wakes (fd_ino (fs_fd fs d)) (fd_ofs (fs_fd fs d)) eltsize count fs;
     (case r of
        Inl fs1 \<Rightarrow> Some (Inl fs1)
      | Inr (bs, actual, fs1) \<Rightarrow> do {
          let fs2 = upd_fd d (\<lambda>x. x\<lparr>fd_ofs := wrap32 (fd_ofs x + int (eltsize * actual))\<rparr>) fs1;
          cassert (actual = 0 \<or> fd_ofs (fs_fd fs2 d) \<le> int (fi_size (inode (fd_ino (fs_fd fs2 d)) fs2)));
          Some (Inr (bs, actual, fs2))
        })
   }"

definition filedesc_write :: "nat \<Rightarrow> u8 list \<Rightarrow> nat \<Rightarrow> nat \<Rightarrow> filestate \<Rightarrow> (int \<times> filestate) option" where
  "filedesc_write d buf eltsize count fs = do {
     cassert (filedesc_iswritable d fs);
     let ino = fd_ino (fs_fd fs d);
     let append = flagged (fd_flags (fs_fd fs d)) O_APPEND;
     let fs1 = (if append then upd_fd d (\<lambda>x. x\<lparr>fd_ofs := wrap32 (int (fi_size (inode ino fs)))\<rparr>) fs else fs);
     (actual, fs2) \<leftarrow> fileino_write ino (fd_ofs (fs_fd fs1 d)) buf eltsize count fs1;
     (if actual < 0 then Some (- 1, upd_fd d (\<lambda>x. x\<lparr>fd_err := fs_err fs2\<rparr>) fs2)
      else do {
        let fs3 = (if append then fs2 else upd_fi ino (\<lambda>n. n\<lparr>fi_ver := wrap32 (fi_ver n + 1)\<rparr>) fs2);
        let fs4 = upd_fd d (\<lambda>x. x\<lparr>fd_ofs := wrap32 (fd_ofs x + int (eltsize * count))\<rparr>) fs3;
        cassert (fd_ofs (fs_fd fs4 d) \<le> int (fi_size (inode ino fs4)));
        Some (int count, fs4)
      })
   }"

definition SEEK_SET :: int where "SEEK_SET = 0"
definition SEEK_CUR :: int where "SEEK_CUR = 1"
definition SEEK_END :: int where "SEEK_END = 2"

definition filedesc_seek :: "nat \<Rightarrow> int \<Rightarrow> int \<Rightarrow> filestate \<Rightarrow> (int \<times> filestate) option" where
  "filedesc_seek d offset whence fs = do {
     cassert (filedesc_isopen d fs);
     cassert (whence = SEEK_SET \<or> whence = SEEK_CUR \<or> whence = SEEK_END);
     let newofs = (if whence = SEEK_CUR then wrap32 (offset + fd_ofs (fs_fd fs d))
       else if whence = SEEK_END then wrap32 (offset + int (fi_size (inode (fd_ino (fs_fd fs d)) fs)))
       else offset);
     cassert (0 \<le> newofs);
     Some (newofs, upd_fd d (\<lambda>x. x\<lparr>fd_ofs := newofs\<rparr>) fs)
   }"

definition filedesc_close :: "nat \<Rightarrow> filestate \<Rightarrow> filestate option" where
  "filedesc_close d fs = do {
     cassert (filedesc_isopen d fs);
     cassert (fileino_isvalid (fd_ino (fs_fd fs d)));
     Some (upd_fd d (\<lambda>x. x\<lparr>fd_ino := FILEINO_NULL\<rparr>) fs)
   }"

subsection \<open>Scanning directories\<close>

definition opendir :: "string \<Rightarrow> filestate \<Rightarrow> (nat option \<times> filestate) option" where
  "opendir path fs = do {
     (r, fs1) \<leftarrow> filedesc_open None path O_RDONLY 0 fs;
     (case r of
        None \<Rightarrow> Some (None, fs1)
      | Some d \<Rightarrow> do {
          let ino = fd_ino (fs_fd fs1 d);
          cassert (fileino_exists ino fs1);
          (if \<not> S_ISDIR (fi_mode (inode ino fs1))
           then do { fs2 \<leftarrow> filedesc_close d fs1; Some (None, set_errno ENOTDIR fs2) }
           else Some (Some d, fs1))
        })
   }"

definition closedir :: "nat \<Rightarrow> filestate \<Rightarrow> filestate option" where
  "closedir d fs = filedesc_close d fs"

text \<open>The scan from inode \<open>ofs\<close> on, with the position after it: the C code increments the offset
  also when the directory is exhausted.\<close>

function scan_dir :: "int \<Rightarrow> int \<Rightarrow> filestate \<Rightarrow> int option \<times> int" where
  "scan_dir dino ofs fs =
     (if int FILE_INODES \<le> ofs then (None, ofs + 1)
      else if \<not> fileino_exists ofs fs \<or> fi_dino (inode ofs fs) \<noteq> dino then scan_dir dino (ofs + 1) fs
      else (Some ofs, ofs + 1))"
  by pat_completeness auto
termination
  by (relation "measure (\<lambda>(d, ofs, fs). nat (int FILE_INODES - ofs))") auto

declare scan_dir.simps [simp del]

definition readdir :: "nat \<Rightarrow> filestate \<Rightarrow> (string option \<times> filestate) option" where
  "readdir d fs = do {
     cassert (filedesc_isopen d fs);
     let (r, ofs) = scan_dir (fd_ino (fs_fd fs d)) (fd_ofs (fs_fd fs d)) fs;
     Some (map_option (\<lambda>i. fi_name (inode i fs)) r, upd_fd d (\<lambda>x. x\<lparr>fd_ofs := wrap32 ofs\<rparr>) fs)
   }"

definition rewinddir :: "nat \<Rightarrow> filestate \<Rightarrow> filestate" where
  "rewinddir d fs = upd_fd d (\<lambda>x. x\<lparr>fd_ofs := 0\<rparr>) fs"

definition seekdir :: "nat \<Rightarrow> int \<Rightarrow> filestate \<Rightarrow> filestate" where
  "seekdir d ofs fs = upd_fd d (\<lambda>x. x\<lparr>fd_ofs := wrap32 ofs\<rparr>) fs"

definition telldir :: "nat \<Rightarrow> filestate \<Rightarrow> int" where
  "telldir d fs = fd_ofs (fs_fd fs d)"

end
