(* ===== verification/FileProps.thy ===== *)
theory FileProps
  imports Dir
begin

text \<open>
  Properties of files. A well-formed file refines a list of bytes: reading returns a part of the list
  and writing replaces one. The interface \<open>byte_store\<close> states this once; the file system is shown to
  provide it.
\<close>

subsection \<open>The contract of a byte store\<close>

text \<open>Replace the bytes at \<open>ofs\<close>, extending the list as needed.\<close>

definition splice :: "nat \<Rightarrow> 'a list \<Rightarrow> 'a list \<Rightarrow> 'a list" where
  "splice ofs bs old = take ofs old @ bs @ drop (ofs + length bs) old"

lemma length_splice: "ofs \<le> length old \<Longrightarrow> length (splice ofs bs old) = max (length old) (ofs + length bs)"
  by (auto simp: splice_def)

lemma nth_splice: "ofs \<le> length old \<Longrightarrow> i < max (length old) (ofs + length bs) \<Longrightarrow>
  splice ofs bs old ! i = (if ofs \<le> i \<and> i < ofs + length bs then bs ! (i - ofs) else old ! i)"
  by (auto simp: splice_def nth_append)

locale byte_store =
  fixes ok :: "'i \<Rightarrow> 's \<Rightarrow> bool"
    and content :: "'i \<Rightarrow> 's \<Rightarrow> u8 list"
    and rd :: "'i \<Rightarrow> nat \<Rightarrow> nat \<Rightarrow> 's \<Rightarrow> u8 list option"
    and wr :: "'i \<Rightarrow> nat \<Rightarrow> u8 list \<Rightarrow> 's \<Rightarrow> 's option"
    and maxlen :: nat
  assumes rd_law: "ok i s \<Longrightarrow> ofs \<le> length (content i s) \<Longrightarrow> rd i ofs n s = Some (take n (drop ofs (content i s)))"
    and wr_law: "ok i s \<Longrightarrow> ofs \<le> length (content i s) \<Longrightarrow> ofs + length bs \<le> maxlen \<Longrightarrow>
      \<exists>s'. wr i ofs bs s = Some s' \<and> ok i s' \<and> content i s' = splice ofs bs (content i s)"
begin

text \<open>What was written is read back.\<close>

lemma write_read:
  assumes "ok i s" and "ofs \<le> length (content i s)" and "ofs + length bs \<le> maxlen"
  shows "\<exists>s'. wr i ofs bs s = Some s' \<and> ok i s' \<and> rd i ofs (length bs) s' = Some bs"
proof -
  from wr_law [OF assms] obtain s' where s': "wr i ofs bs s = Some s'" "ok i s'"
    and c: "content i s' = splice ofs bs (content i s)" by blast
  have "ofs \<le> length (content i s')" using assms(2) by (simp add: c length_splice)
  from rd_law [OF s'(2) this, of "length bs"] assms(2) have "rd i ofs (length bs) s' = Some bs"
    by (simp add: c splice_def)
  with s' show ?thesis by blast
qed

end

text \<open>Run an operation on each of a list of inputs.\<close>

primrec run_all :: "('x \<Rightarrow> 's \<Rightarrow> 's option) \<Rightarrow> 'x list \<Rightarrow> 's \<Rightarrow> 's option" where
  "run_all f [] s = Some s"
| "run_all f (x # xs) s = Option.bind (f x s) (run_all f xs)"

text \<open>A store that only grows: any sequence of appends leaves the pieces one after the other.\<close>

locale append_store =
  fixes ok :: "'s \<Rightarrow> bool"
    and content :: "'s \<Rightarrow> 'a list"
    and app :: "'a list \<Rightarrow> 's \<Rightarrow> 's option"
    and maxlen :: nat
  assumes app_law: "ok s \<Longrightarrow> length (content s) + length bs \<le> maxlen \<Longrightarrow>
      \<exists>s'. app bs s = Some s' \<and> ok s' \<and> content s' = content s @ bs"
begin

lemma appends_concat:
  "ok s \<Longrightarrow> length (content s) + length (concat bss) \<le> maxlen \<Longrightarrow>
   \<exists>s'. run_all app bss s = Some s' \<and> ok s' \<and> content s' = content s @ concat bss"
proof (induction bss arbitrary: s)
  case (Cons bs bss)
  from app_law [OF Cons.prems(1), of bs] Cons.prems(2) obtain s1
    where s1: "app bs s = Some s1" "ok s1" "content s1 = content s @ bs" by auto
  with Cons.IH [OF s1(2)] Cons.prems(2) show ?case by auto
qed simp

end

text \<open>A byte store is one, with writes at the end.\<close>

sublocale byte_store \<subseteq> tail: append_store "ok i" "content i" "\<lambda>bs s. wr i (length (content i s)) bs s" maxlen for i
  by unfold_locales (use wr_law in \<open>fastforce simp: splice_def\<close>)

subsection \<open>Files provide it\<close>

text \<open>A regular file whose data is accessible up to its size. A whole file is not partial: reading to
  its end does not wait for more.\<close>

definition file_ok :: "int \<Rightarrow> filestate \<Rightarrow> bool" where
  "file_ok ino fs \<longleftrightarrow> fileino_isreg ino fs \<and> fi_size (inode ino fs) \<le> FILE_MAXSIZE \<and>
     (\<forall>i < ROUNDUP (fi_size (inode ino fs)) PAGESIZE. fs_rw fs ((FILEDATA ino + i) div PAGESIZE))"

definition whole :: "int \<Rightarrow> filestate \<Rightarrow> bool" where
  "whole ino fs \<longleftrightarrow> \<not> flagged (fi_mode (inode ino fs)) S_IFPART"

definition file_content :: "int \<Rightarrow> filestate \<Rightarrow> u8 list" where
  "file_content ino fs = map (\<lambda>i. fs_mem fs (FILEDATA ino + i)) [0..<fi_size (inode ino fs)]"

lemma length_file_content [simp]: "length (file_content ino fs) = fi_size (inode ino fs)"
  by (simp add: file_content_def)

lemma user_ok_iff: "user_ok a n fs \<longleftrightarrow> (\<forall>i < n. fs_rw fs ((a + i) div PAGESIZE))"
  by (auto simp: user_ok_def list_all_iff)

lemma PAGESIZE_gt0: "0 < PAGESIZE"
  by (simp add: PAGESIZE_def)

lemma file_ok_access: "file_ok ino fs \<Longrightarrow> i < fi_size (inode ino fs) \<Longrightarrow> fs_rw fs ((FILEDATA ino + i) div PAGESIZE)"
  using ROUNDUP_ge [OF PAGESIZE_gt0, of "fi_size (inode ino fs)"] by (auto simp: file_ok_def)

lemma FILEDATA_page: "PAGESIZE dvd FILEDATA ino"
  by (simp add: FILEDATA_def PAGESIZE_def)

text \<open>Reading: as many whole elements as there are, cut off at the end of the file.\<close>

lemma user_read_file:
  assumes ok: "file_ok ino fs" and le: "n \<le> fi_size (inode ino fs) - ofs"
  shows "user_read (FILEDATA ino + ofs) n fs = Some (take n (drop ofs (file_content ino fs)))"
proof -
  have "user_ok (FILEDATA ino + ofs) n fs"
    unfolding user_ok_iff using le file_ok_access [OF ok, of "ofs + _"] by (auto simp: add.assoc)
  then show ?thesis
    using le by (auto simp: user_read_def file_content_def add.assoc intro!: nth_equalityI)
qed

lemma min_div_mult_le: "min count (k div e) * e \<le> (k :: nat)"
  by (meson div_times_less_eq_dividend min.cobounded2 mult_le_mono1 order_trans)

lemma read_loop_step:
  assumes ok: "file_ok ino fs" and "0 < count"
    and n: "n = min count ((fi_size (inode ino fs) - ofs) div eltsize)"
  shows "read_loop wakes ino ofs eltsize count buf actual fs =
    (let buf' = buf @ take (n * eltsize) (drop ofs (file_content ino fs)) in
     if count = n \<or> whole ino fs then Some (Inr (buf', actual + n, fs))
     else case wakes of [] \<Rightarrow> Some (Inl fs)
       | w # ws \<Rightarrow> read_loop ws ino ofs eltsize (count - n) buf' (actual + n) (w fs))"
proof -
  have av: "(if fi_size (inode ino fs) \<le> ofs then 0 else min count ((fi_size (inode ino fs) - ofs) div eltsize)) = n"
    by (simp add: n)
  have "user_read (FILEDATA ino + ofs) (n * eltsize) fs = Some (take (n * eltsize) (drop ofs (file_content ino fs)))"
    unfolding n by (rule user_read_file [OF ok min_div_mult_le])
  then have rd: "(if 0 < n then user_read (FILEDATA ino + ofs) (n * eltsize) fs else Some []) =
      Some (take (n * eltsize) (drop ofs (file_content ino fs)))" by simp
  have "n \<le> count" by (simp add: n)
  then show ?thesis
    unfolding read_loop.simps [of wakes ino ofs eltsize count buf actual fs] Let_def av rd
    using \<open>0 < count\<close> by (auto simp: whole_def split: list.split)
qed

lemma fileino_read_eq:
  fixes count :: nat
  assumes ok: "file_ok ino fs" "whole ino fs" and "0 \<le> ofs" and "0 < eltsize"
    and n: "n = min count ((fi_size (inode ino fs) - nat ofs) div eltsize)"
  shows "fileino_read wakes ino ofs eltsize count fs =
    Some (Inr (take (n * eltsize) (drop (nat ofs) (file_content ino fs)), n, fs))"
proof (cases "count = 0")
  case True
  then show ?thesis using assms(3,4) ok n by (simp add: fileino_read_def file_ok_def read_loop.simps [of wakes])
next
  case False
  then show ?thesis
    using assms(3,4) ok read_loop_step [OF ok(1), of count n "nat ofs" eltsize wakes "[]" 0] n
    by (simp add: fileino_read_def file_ok_def)
qed

text \<open>Writing.\<close>

lemma perm_range_access:
  assumes "PAGESIZE dvd a" and "a \<le> x" and "x < a + n"
  shows "fs_rw (sys_perm_range True a n fs) (x div PAGESIZE)"
proof -
  obtain k where a: "a = k * PAGESIZE" using assms(1) by (auto simp: dvd_def mult.commute)
  have "k \<le> x div PAGESIZE"
    using assms(2) PAGESIZE_gt0 by (simp add: a less_eq_div_iff_mult_less_eq)
  then have "a \<le> x div PAGESIZE * PAGESIZE" unfolding a by (rule mult_le_mono1)
  moreover have "x div PAGESIZE * PAGESIZE < a + n"
    using assms(3) div_times_less_eq_dividend [of x PAGESIZE] by linarith
  ultimately show ?thesis by (simp add: sys_perm_range_def)
qed

lemma perm_range_keeps: "fs_rw fs pg \<Longrightarrow> fs_rw (sys_perm_range True a n fs) pg"
  by (simp add: sys_perm_range_def)

lemma sys_perm_range_sel [simp]:
  "fs_mem (sys_perm_range b a n fs) = fs_mem fs" "fs_fi (sys_perm_range b a n fs) = fs_fi fs"
  "fs_fd (sys_perm_range b a n fs) = fs_fd fs" "inode ino (sys_perm_range b a n fs) = inode ino fs"
  by (simp_all add: sys_perm_range_def inode_def)

lemma upd_fi_sel [simp]:
  "fs_mem (upd_fi ino f fs) = fs_mem fs" "fs_rw (upd_fi ino f fs) = fs_rw fs" "fs_fd (upd_fi ino f fs) = fs_fd fs"
  "fs_exited (upd_fi ino f fs) = fs_exited fs" "fs_status (upd_fi ino f fs) = fs_status fs"
  "inode ino (upd_fi ino f fs) = f (inode ino fs)"
  "nat j \<noteq> nat ino \<Longrightarrow> inode j (upd_fi ino f fs) = inode j fs"
  by (simp_all add: upd_fi_def inode_def)

lemma user_ok_upd_fi [simp]: "user_ok a n (upd_fi ino f fs) = user_ok a n fs"
  by (simp add: user_ok_iff)

text \<open>Data areas of different files do not overlap.\<close>

lemma FILEDATA_disjoint:
  assumes "nat i \<noteq> nat j" and "x < FILE_MAXSIZE" and "y < FILE_MAXSIZE"
  shows "FILEDATA i + x \<noteq> FILEDATA j + y"
proof
  assume "FILEDATA i + x = FILEDATA j + y"
  then have "(nat i * 0x400000 + x) div 0x400000 = (nat j * 0x400000 + y) div 0x400000" by (simp add: FILEDATA_def)
  with assms show False by (simp add: FILE_MAXSIZE_def)
qed

lemma FILEDATA_outside:
  assumes "nat j \<noteq> nat ino" and "i < FILE_MAXSIZE" and "a + n \<le> FILE_MAXSIZE"
  shows "\<not> (FILEDATA ino + a \<le> FILEDATA j + i \<and> FILEDATA j + i < FILEDATA ino + a + n)"
proof
  assume *: "FILEDATA ino + a \<le> FILEDATA j + i \<and> FILEDATA j + i < FILEDATA ino + a + n"
  then have "FILEDATA j + i - FILEDATA ino < FILE_MAXSIZE" using assms(3) by linarith
  from FILEDATA_disjoint [OF assms(1,2) this] * show False by simp
qed

lemma file_grow_sel [simp]:
  "fs_mem (file_grow ino lim fs) = fs_mem fs"
  "inode ino (file_grow ino lim fs) = (inode ino fs)\<lparr>fi_size := max (fi_size (inode ino fs)) lim\<rparr>"
  "nat j \<noteq> nat ino \<Longrightarrow> inode j (file_grow ino lim fs) = inode j fs"
  "fs_fd (file_grow ino lim fs) = fs_fd fs"
  "fs_rw fs pg \<Longrightarrow> fs_rw (file_grow ino lim fs) pg"
  by (auto simp: file_grow_def Let_def max_def perm_range_keeps)

lemma file_grow_access:
  assumes "\<forall>i < ROUNDUP (fi_size (inode ino fs)) PAGESIZE. fs_rw fs ((FILEDATA ino + i) div PAGESIZE)"
    and "i < ROUNDUP (max (fi_size (inode ino fs)) lim) PAGESIZE"
  shows "fs_rw (file_grow ino lim fs) ((FILEDATA ino + i) div PAGESIZE)"
proof (cases "i < ROUNDUP (fi_size (inode ino fs)) PAGESIZE")
  case False
  let ?r = "ROUNDUP (fi_size (inode ino fs)) PAGESIZE" and ?l = "ROUNDUP lim PAGESIZE"
  from False assms(2) have lt: "fi_size (inode ino fs) < lim" "i < ?l" "?r < ?l"
    by (auto simp: max_def not_less order_le_less split: if_splits)
  have "PAGESIZE dvd FILEDATA ino + ?r" by (simp add: FILEDATA_page ROUNDUP_dvd)
  then have "fs_rw (sys_perm_range True (FILEDATA ino + ?r) (?l - ?r) fs) ((FILEDATA ino + i) div PAGESIZE)"
    using False lt by (intro perm_range_access) auto
  then show ?thesis using lt by (simp add: file_grow_def Let_def)
qed (simp add: assms(1))

lemma file_grow_ok:
  assumes "file_ok ino fs" and "lim \<le> FILE_MAXSIZE"
  shows "file_ok ino (file_grow ino lim fs)"
  using assms file_grow_access [of ino fs _ lim] by (auto simp: file_ok_def fileino_defs)

lemma user_write_file:
  assumes ok: "file_ok ino fs" and le: "ofs + length bs \<le> fi_size (inode ino fs)"
  obtains fs' where "user_write (FILEDATA ino + ofs) bs fs = Some fs'" "file_ok ino fs'"
    "fs_fi fs' = fs_fi fs" "fs_rw fs' = fs_rw fs" "fs_fd fs' = fs_fd fs"
    "fs_mem fs' = (\<lambda>x. if FILEDATA ino + ofs \<le> x \<and> x < FILEDATA ino + ofs + length bs then bs ! (x - (FILEDATA ino + ofs)) else fs_mem fs x)"
proof -
  have "user_ok (FILEDATA ino + ofs) (length bs) fs"
    unfolding user_ok_iff using le file_ok_access [OF ok, of "ofs + _"] by (auto simp: add.assoc)
  then have "user_write (FILEDATA ino + ofs) bs fs = Some (fs\<lparr>fs_mem := (\<lambda>x. if FILEDATA ino + ofs \<le> x \<and>
      x < FILEDATA ino + ofs + length bs then bs ! (x - (FILEDATA ino + ofs)) else fs_mem fs x)\<rparr>)"
    by (simp add: user_write_def)
  then show ?thesis by (rule that) (use ok in \<open>simp_all add: file_ok_def fileino_defs inode_def\<close>)
qed

text \<open>What a write does to the file and to the other files.\<close>

definition other_files_same :: "int \<Rightarrow> filestate \<Rightarrow> filestate \<Rightarrow> bool" where
  "other_files_same ino fs fs' \<longleftrightarrow>
     (\<forall>j. nat j \<noteq> nat ino \<longrightarrow> inode j fs' = inode j fs) \<and>
     (\<forall>j. file_ok j fs \<longrightarrow> j \<noteq> ino \<longrightarrow> file_ok j fs' \<and> file_content j fs' = file_content j fs)"

lemma other_inodes: "other_files_same ino fs fs' \<Longrightarrow> nat j \<noteq> nat ino \<Longrightarrow> inode j fs' = inode j fs"
  by (simp add: other_files_same_def)

lemma valid_nat_neq: "file_ok j fs \<Longrightarrow> file_ok ino fs \<Longrightarrow> j \<noteq> ino \<Longrightarrow> nat j \<noteq> nat ino"
  by (auto simp: file_ok_def fileino_defs)

lemma ROUNDUP_mono: "a \<le> b \<Longrightarrow> ROUNDUP a n \<le> ROUNDUP b n"
proof -
  assume "a \<le> b"
  then have "(a + n - 1) div n * n \<le> (b + n - 1) div n * n" by (intro mult_le_mono1 div_le_mono) simp
  then show ?thesis by (simp add: ROUNDUP_def ROUNDDOWN_def minus_mod_eq_div_mult)
qed

lemma ROUNDUP_MAXSIZE:
  assumes "n \<le> FILE_MAXSIZE"
  shows "ROUNDUP n PAGESIZE \<le> FILE_MAXSIZE"
proof -
  have "PAGESIZE dvd FILE_MAXSIZE" by (simp add: PAGESIZE_def FILE_MAXSIZE_def)
  with ROUNDUP_dvd [of PAGESIZE n] obtain k m where k: "ROUNDUP n PAGESIZE = PAGESIZE * k" "FILE_MAXSIZE = PAGESIZE * m"
    by (auto simp: dvd_def)
  with ROUNDUP_less [OF PAGESIZE_gt0, of n] assms have "PAGESIZE * k < PAGESIZE * Suc m" by simp
  then have "k \<le> m" by (simp only: mult_less_cancel1 less_Suc_eq_le)
  then show ?thesis unfolding k by simp
qed

lemma perm_range_other:
  assumes "nat j \<noteq> nat ino" and "i < FILE_MAXSIZE" and "a + n \<le> FILE_MAXSIZE"
  shows "fs_rw (sys_perm_range b (FILEDATA ino + a) n fs) ((FILEDATA j + i) div PAGESIZE) =
    fs_rw fs ((FILEDATA j + i) div PAGESIZE)"
proof -
  have "FILEDATA j + (i div PAGESIZE * PAGESIZE) = (FILEDATA j + i) div PAGESIZE * PAGESIZE"
    using FILEDATA_page [of j] by (auto simp: dvd_def PAGESIZE_def algebra_simps)
  moreover have "i div PAGESIZE * PAGESIZE < FILE_MAXSIZE"
    using assms(2) div_times_less_eq_dividend [of i PAGESIZE] by linarith
  ultimately show ?thesis
    using FILEDATA_outside [OF assms(1) _ assms(3)] unfolding sys_perm_range_def by simp metis
qed

text \<open>A change of one file's inode, data and permissions leaves the other files alone.\<close>

lemma other_files_sameI:
  assumes "file_ok ino fs"
    and ino: "\<And>j. nat j \<noteq> nat ino \<Longrightarrow> inode j fs' = inode j fs"
    and mem: "\<And>j i. nat j \<noteq> nat ino \<Longrightarrow> i < FILE_MAXSIZE \<Longrightarrow> fs_mem fs' (FILEDATA j + i) = fs_mem fs (FILEDATA j + i)"
    and rw: "\<And>j i. nat j \<noteq> nat ino \<Longrightarrow> i < FILE_MAXSIZE \<Longrightarrow>
      fs_rw fs ((FILEDATA j + i) div PAGESIZE) \<Longrightarrow> fs_rw fs' ((FILEDATA j + i) div PAGESIZE)"
  shows "other_files_same ino fs fs'"
  unfolding other_files_same_def
proof (intro conjI allI impI ino)
  fix j assume j: "file_ok j fs" "j \<noteq> ino"
  note nj = valid_nat_neq [OF j(1) assms(1) j(2)]
  have sz: "fi_size (inode j fs) \<le> FILE_MAXSIZE" using j(1) by (simp add: file_ok_def)
  then have R: "ROUNDUP (fi_size (inode j fs)) PAGESIZE \<le> FILE_MAXSIZE" by (rule ROUNDUP_MAXSIZE)
  show "file_content j fs' = file_content j fs"
    using mem [OF nj] ino [OF nj] sz by (auto simp: file_content_def)
  show "file_ok j fs'"
    using j(1) rw [OF nj] ino [OF nj] R by (auto simp: file_ok_def fileino_defs)
qed

text \<open>A write at any offset: the bytes of a gap before it are what memory holds there.\<close>

lemma fileino_write_raw:
  assumes ok: "file_ok ino fs" and ofs: "0 \<le> ofs" and "0 < eltsize"
    and buf: "eltsize * count \<le> length buf" and lim: "nat ofs + eltsize * count \<le> FILE_MAXSIZE"
  obtains fs' where "fileino_write ino ofs buf eltsize count fs = Some (int count, fs')" "file_ok ino fs'"
    "inode ino fs' = (inode ino fs)\<lparr>fi_size := max (fi_size (inode ino fs)) (nat ofs + eltsize * count)\<rparr>"
    "fs_fd fs' = fs_fd fs" "other_files_same ino fs fs'"
    "\<And>i. fs_mem fs' (FILEDATA ino + i) = (if nat ofs \<le> i \<and> i < nat ofs + eltsize * count then buf ! (i - nat ofs)
       else fs_mem fs (FILEDATA ino + i))"
proof -
  let ?lim = "nat ofs + eltsize * count" and ?bs = "take (eltsize * count) buf"
  let ?g = "file_grow ino ?lim fs"
  have len: "length ?bs = eltsize * count" using buf by simp
  have small: "eltsize * count mod 18446744073709551616 = eltsize * count" "?lim mod 18446744073709551616 = ?lim"
    using lim by (simp_all add: FILE_MAXSIZE_def)
  have g: "file_ok ino ?g" using file_grow_ok [OF ok lim] .
  obtain fs' where w: "user_write (FILEDATA ino + nat ofs) ?bs ?g = Some fs'" "file_ok ino fs'"
      "fs_fi fs' = fs_fi ?g" "fs_rw fs' = fs_rw ?g" "fs_fd fs' = fs_fd ?g"
    and m: "fs_mem fs' = (\<lambda>x. if FILEDATA ino + nat ofs \<le> x \<and> x < FILEDATA ino + nat ofs + length ?bs
      then ?bs ! (x - (FILEDATA ino + nat ofs)) else fs_mem ?g x)"
    using user_write_file [OF g, of "nat ofs" ?bs] len by (auto simp del: length_take)
  have sz: "inode ino fs' = (inode ino fs)\<lparr>fi_size := max (fi_size (inode ino fs)) ?lim\<rparr>"
    using w(3) by (simp add: inode_def [of _ fs'] inode_def [symmetric])
  have same: "other_files_same ino fs fs'"
  proof (rule other_files_sameI [OF ok])
    fix j assume nj: "nat j \<noteq> nat ino"
    show "inode j fs' = inode j fs" using w(3) nj by (simp add: inode_def [of _ fs'] inode_def [symmetric])
    fix i assume i: "i < FILE_MAXSIZE"
    show "fs_rw fs' ((FILEDATA j + i) div PAGESIZE)" if "fs_rw fs ((FILEDATA j + i) div PAGESIZE)"
      using that by (simp add: w(4))
    show "fs_mem fs' (FILEDATA j + i) = fs_mem fs (FILEDATA j + i)"
      using FILEDATA_outside [OF nj i lim] unfolding m len by (metis file_grow_sel(1))
  qed
  have "fileino_write ino ofs buf eltsize count fs = Some (int count, fs')"
    using w(1) ok assms by (simp add: fileino_write_def small Let_def file_ok_def)
  then show ?thesis
    by (rule that) (use w sz same len in \<open>auto simp: m add.assoc simp del: length_take\<close>)
qed

lemma fileino_write_eq:
  assumes "file_ok ino fs" and "0 \<le> ofs" and ofs: "nat ofs \<le> fi_size (inode ino fs)" and "0 < eltsize"
    and buf: "eltsize * count \<le> length buf" and "nat ofs + eltsize * count \<le> FILE_MAXSIZE"
  shows "\<exists>fs'. fileino_write ino ofs buf eltsize count fs = Some (int count, fs') \<and> file_ok ino fs' \<and>
    file_content ino fs' = splice (nat ofs) (take (eltsize * count) buf) (file_content ino fs) \<and>
    inode ino fs' = (inode ino fs)\<lparr>fi_size := max (fi_size (inode ino fs)) (nat ofs + eltsize * count)\<rparr> \<and>
    fs_fd fs' = fs_fd fs \<and> other_files_same ino fs fs'"
proof -
  obtain fs' where w: "fileino_write ino ofs buf eltsize count fs = Some (int count, fs')" "file_ok ino fs'"
    "inode ino fs' = (inode ino fs)\<lparr>fi_size := max (fi_size (inode ino fs)) (nat ofs + eltsize * count)\<rparr>"
    "fs_fd fs' = fs_fd fs" "other_files_same ino fs fs'"
    and m: "\<And>i. fs_mem fs' (FILEDATA ino + i) = (if nat ofs \<le> i \<and> i < nat ofs + eltsize * count then buf ! (i - nat ofs)
       else fs_mem fs (FILEDATA ino + i))"
    using fileino_write_raw [OF assms(1,2,4,5,6)] by blast
  have "file_content ino fs' = splice (nat ofs) (take (eltsize * count) buf) (file_content ino fs)"
    by (rule nth_equalityI)
      (use buf ofs nth_splice [of "nat ofs" "file_content ino fs" _ "take (eltsize * count) buf"] in
        \<open>auto simp: file_content_def m w(3) length_splice min_absorb2\<close>)
  with w show ?thesis by blast
qed

text \<open>The interface: reading and writing single bytes.\<close>

definition file_rd :: "int \<Rightarrow> nat \<Rightarrow> nat \<Rightarrow> filestate \<Rightarrow> u8 list option" where
  "file_rd ino ofs n fs = (case fileino_read [] ino (int ofs) 1 n fs of Some (Inr (bs, _, _)) \<Rightarrow> Some bs | _ \<Rightarrow> None)"

definition file_wr :: "int \<Rightarrow> nat \<Rightarrow> u8 list \<Rightarrow> filestate \<Rightarrow> filestate option" where
  "file_wr ino ofs bs fs = (case fileino_write ino (int ofs) bs 1 (length bs) fs of
     Some (r, fs') \<Rightarrow> if r = int (length bs) then Some fs' else None | None \<Rightarrow> None)"

definition file_whole :: "int \<Rightarrow> filestate \<Rightarrow> bool" where
  "file_whole ino fs \<longleftrightarrow> file_ok ino fs \<and> whole ino fs"

interpretation files: byte_store file_whole file_content file_rd file_wr FILE_MAXSIZE
proof unfold_locales
  fix i s ofs n
  assume "file_whole i s" "ofs \<le> length (file_content i s)"
  then show "file_rd i ofs n s = Some (take n (drop ofs (file_content i s)))"
    using fileino_read_eq [of i s "int ofs" 1 _ n "[]"]
    by (auto simp: file_rd_def file_whole_def min_def intro: nth_equalityI)
next
  fix i s ofs and bs :: "u8 list"
  assume "file_whole i s" "ofs \<le> length (file_content i s)" "ofs + length bs \<le> FILE_MAXSIZE"
  then show "\<exists>s'. file_wr i ofs bs s = Some s' \<and> file_whole i s' \<and> file_content i s' = splice ofs bs (file_content i s)"
    using fileino_write_eq [of i s "int ofs" 1 "length bs" bs]
    by (auto simp: file_wr_def file_whole_def whole_def)
qed

subsection \<open>Truncation\<close>

lemma user_write_upd_fi: "user_write a bs (upd_fi ino f fs) = map_option (upd_fi ino f) (user_write a bs fs)"
  by (simp add: user_write_def user_ok_iff upd_fi_def cong: if_cong)

lemma perm_range_empty [simp]: "sys_perm_range b a 0 fs = fs"
  by (rule filestate.equality) (auto simp: sys_perm_range_def)

text \<open>Growing with zeros, from any amount of accessible data.\<close>

lemma truncate_grow:
  assumes ok: "file_ok ino fs" and new: "fi_size (inode ino fs) < new" "new \<le> FILE_MAXSIZE"
  defines "old \<equiv> fi_size (inode ino fs)"
  obtains fs1 where "user_write (FILEDATA ino + old) (replicate (new - old) 0)
      (sys_perm_range True (FILEDATA ino + ROUNDUP old PAGESIZE) (ROUNDUP new PAGESIZE - ROUNDUP old PAGESIZE) fs) = Some fs1"
    "file_ok ino (upd_fi ino (\<lambda>n. n\<lparr>fi_size := new\<rparr>) fs1)" "inode ino fs1 = inode ino fs"
    "file_content ino (upd_fi ino (\<lambda>n. n\<lparr>fi_size := new\<rparr>) fs1) = file_content ino fs @ replicate (new - old) 0"
    "fs_fd fs1 = fs_fd fs" "other_files_same ino fs fs1"
proof -
  let ?p = "sys_perm_range True (FILEDATA ino + ROUNDUP old PAGESIZE) (ROUNDUP new PAGESIZE - ROUNDUP old PAGESIZE) fs"
  let ?z = "replicate (new - old) (0 :: u8)"
  have g: "file_grow ino new fs = upd_fi ino (\<lambda>n. n\<lparr>fi_size := new\<rparr>) ?p"
    using new by (auto simp: file_grow_def old_def Let_def not_less)
  have okg: "file_ok ino (file_grow ino new fs)" using file_grow_ok [OF ok new(2)] .
  have szg: "fi_size (inode ino (file_grow ino new fs)) = new" using new by simp
  obtain fs' where w: "user_write (FILEDATA ino + old) ?z (file_grow ino new fs) = Some fs'" "file_ok ino fs'"
    "fs_fi fs' = fs_fi (file_grow ino new fs)" "fs_rw fs' = fs_rw (file_grow ino new fs)" "fs_fd fs' = fs_fd (file_grow ino new fs)"
    "fs_mem fs' = (\<lambda>x. if FILEDATA ino + old \<le> x \<and> x < FILEDATA ino + old + length ?z
        then ?z ! (x - (FILEDATA ino + old)) else fs_mem (file_grow ino new fs) x)"
    using user_write_file [OF okg, of old ?z] new by (auto simp: old_def)
  then obtain fs1 where f1: "user_write (FILEDATA ino + old) ?z ?p = Some fs1" "fs' = upd_fi ino (\<lambda>n. n\<lparr>fi_size := new\<rparr>) fs1"
    unfolding g user_write_upd_fi by auto
  have sel: "fs_fi fs1 = fs_fi fs" "fs_rw fs1 = fs_rw ?p" "fs_fd fs1 = fs_fd fs" "fs_mem fs1 = fs_mem fs'"
    using f1 by (auto simp: user_write_def split: if_splits)
  have in1: "inode j fs1 = inode j fs" for j by (simp add: inode_def sel)
  have c: "file_content ino fs' = file_content ino fs @ ?z"
    using new w(6) f1(2) by (auto intro!: nth_equalityI simp: file_content_def nth_append old_def in1)
  have R: "ROUNDUP new PAGESIZE \<le> FILE_MAXSIZE" using new(2) by (rule ROUNDUP_MAXSIZE)
  have "other_files_same ino fs fs1"
  proof (rule other_files_sameI [OF ok in1])
    fix j i assume nj: "nat j \<noteq> nat ino" and i: "i < FILE_MAXSIZE"
    show "fs_mem fs1 (FILEDATA j + i) = fs_mem fs (FILEDATA j + i)"
      using FILEDATA_outside [OF nj i, of old "new - old"] new by (auto simp: sel(4) w(6) g old_def)
  qed (simp add: sel(2) perm_range_keeps)
  then show ?thesis using f1 w(2) c in1 sel(3) by (intro that) auto
qed

lemma fileino_truncate_eq:
  assumes ok: "file_ok ino fs" and new: "0 \<le> newsize" "newsize \<le> int FILE_MAXSIZE"
  shows "\<exists>fs'. fileino_truncate ino newsize fs = Some (0, fs') \<and> file_ok ino fs' \<and>
    file_content ino fs' = take (nat newsize) (file_content ino fs) @ replicate (nat newsize - fi_size (inode ino fs)) 0 \<and>
    inode ino fs' = (inode ino fs)\<lparr>fi_size := nat newsize, fi_ver := wrap32 (fi_ver (inode ino fs) + 1)\<rparr> \<and>
    fs_fd fs' = fs_fd fs \<and> other_files_same ino fs fs'"
proof -
  let ?upd = "\<lambda>fs1. upd_fi ino (\<lambda>n. n\<lparr>fi_size := nat newsize, fi_ver := wrap32 (fi_ver n + 1)\<rparr>) fs1"
  let ?R = "ROUNDUP (nat newsize) PAGESIZE"
  have valid: "fileino_isvalid ino" using ok by (simp add: file_ok_def fileino_defs)
  have same: "other_files_same ino fs (?upd fs1)" if "other_files_same ino fs fs1" for fs1
    using that valid_nat_neq [OF _ ok]
    by (auto simp: other_files_same_def file_ok_def fileino_defs file_content_def)
  consider (grow) "fi_size (inode ino fs) < nat newsize" | (shrink) "nat newsize \<le> fi_size (inode ino fs)" "0 < nat newsize"
    | (empty) "nat newsize = 0" by linarith
  then show ?thesis
  proof cases
    case grow
    have le: "nat newsize \<le> FILE_MAXSIZE" using new by simp
    from truncate_grow [OF ok grow le] obtain fs1 where f1:
      "user_write (FILEDATA ino + fi_size (inode ino fs)) (replicate (nat newsize - fi_size (inode ino fs)) 0)
        (sys_perm_range True (FILEDATA ino + ROUNDUP (fi_size (inode ino fs)) PAGESIZE)
          (?R - ROUNDUP (fi_size (inode ino fs)) PAGESIZE) fs) = Some fs1"
      "file_ok ino (upd_fi ino (\<lambda>n. n\<lparr>fi_size := nat newsize\<rparr>) fs1)" "inode ino fs1 = inode ino fs"
      "file_content ino (upd_fi ino (\<lambda>n. n\<lparr>fi_size := nat newsize\<rparr>) fs1) =
        file_content ino fs @ replicate (nat newsize - fi_size (inode ino fs)) 0"
      "fs_fd fs1 = fs_fd fs" "other_files_same ino fs fs1" by blast
    have "fileino_truncate ino newsize fs = Some (0, ?upd fs1)"
      using grow new valid f1(1) by (simp add: fileino_truncate_def Let_def)
    moreover have "file_ok ino (?upd fs1)" using f1(2) by (simp add: file_ok_def fileino_defs)
    moreover have "file_content ino (?upd fs1) = file_content ino fs @ replicate (nat newsize - fi_size (inode ino fs)) 0"
      using f1(4) by (simp add: file_content_def)
    ultimately show ?thesis using grow f1(3,5) same [OF f1(6)] by simp
  next
    case shrink
    let ?fs1 = "sys_perm_range False (FILEDATA ino + ?R) (FILE_MAXSIZE - ?R) fs"
    have R: "?R \<le> FILE_MAXSIZE" using new by (intro ROUNDUP_MAXSIZE) simp
    have t: "fileino_truncate ino newsize fs = Some (0, ?upd ?fs1)"
      using shrink new valid by (simp add: fileino_truncate_def Let_def)
    have rw: "fs_rw ?fs1 ((FILEDATA ino + i) div PAGESIZE)" if "i < ?R" for i
    proof -
      have "?R \<le> ROUNDUP (fi_size (inode ino fs)) PAGESIZE" using shrink(1) by (rule ROUNDUP_mono)
      then have "fs_rw fs ((FILEDATA ino + i) div PAGESIZE)" using ok that by (auto simp: file_ok_def)
      moreover have "(FILEDATA ino + i) div PAGESIZE * PAGESIZE < FILEDATA ino + ?R"
        using that div_times_less_eq_dividend [of "FILEDATA ino + i" PAGESIZE] by linarith
      ultimately show ?thesis by (simp add: sys_perm_range_def)
    qed
    have "file_ok ino (?upd ?fs1)" using ok rw new by (auto simp: file_ok_def fileino_defs)
    moreover have "file_content ino (?upd ?fs1) = take (nat newsize) (file_content ino fs)"
      using shrink by (auto simp: file_content_def take_map)
    moreover have "other_files_same ino fs ?fs1"
      using R by (intro other_files_sameI [OF ok]) (simp_all add: perm_range_other)
    ultimately show ?thesis using t shrink same by simp
  next
    case empty
    let ?fs1 = "sys_zero_range (FILEDATA ino) FILE_MAXSIZE fs"
    have sel: "fs_fd ?fs1 = fs_fd fs" "inode j ?fs1 = inode j fs" "fs_rw ?fs1 = fs_rw (sys_perm_range False (FILEDATA ino) FILE_MAXSIZE fs)" for j
      by (simp_all add: sys_zero_range_def inode_def sys_perm_range_def)
    have t: "fileino_truncate ino newsize fs = Some (0, ?upd ?fs1)"
      using empty new valid by (simp add: fileino_truncate_def Let_def)
    have "file_ok ino (?upd ?fs1)" using ok empty
      by (simp add: file_ok_def fileino_defs sel ROUNDUP_def ROUNDDOWN_def PAGESIZE_def)
    moreover have "file_content ino (?upd ?fs1) = []" using empty by (simp add: file_content_def)
    moreover have "other_files_same ino fs ?fs1"
    proof (rule other_files_sameI [OF ok sel(2)])
      fix j i assume nj: "nat j \<noteq> nat ino" and i: "i < FILE_MAXSIZE"
      show "fs_mem ?fs1 (FILEDATA j + i) = fs_mem fs (FILEDATA j + i)"
        using FILEDATA_outside [OF nj i, of 0 FILE_MAXSIZE] by (auto simp: sys_zero_range_def)
    qed (use perm_range_other [of _ ino _ 0 FILE_MAXSIZE False fs] in \<open>simp add: sel(3)\<close>)
    ultimately show ?thesis using t empty same by (simp add: sel)
  qed
qed

subsection \<open>Appending through a descriptor\<close>

lemma upd_fd_sel [simp]:
  "fs_mem (upd_fd d f fs) = fs_mem fs" "fs_rw (upd_fd d f fs) = fs_rw fs" "inode ino (upd_fd d f fs) = inode ino fs"
  "fs_fd (upd_fd d f fs) d = f (fs_fd fs d)" "file_content ino (upd_fd d f fs) = file_content ino fs"
  "file_ok ino (upd_fd d f fs) = file_ok ino fs"
  by (simp_all add: upd_fd_def inode_def file_content_def file_ok_def fileino_defs)

text \<open>Descriptor \<open>d\<close> is open for appending to file \<open>ino\<close>, and since the state \<open>fs0\<close> no inode has changed
  except for the size of this file.\<close>

definition appending :: "nat \<Rightarrow> int \<Rightarrow> filestate \<Rightarrow> filestate \<Rightarrow> bool" where
  "appending d ino fs0 fs \<longleftrightarrow> filedesc_iswritable d fs \<and> flagged (fd_flags (fs_fd fs d)) O_APPEND \<and>
     fd_ino (fs_fd fs d) = ino \<and> file_ok ino fs \<and>
     inode ino fs = (inode ino fs0)\<lparr>fi_size := fi_size (inode ino fs)\<rparr> \<and>
     (\<forall>j. nat j \<noteq> nat ino \<longrightarrow> inode j fs = inode j fs0)"

definition fd_append :: "nat \<Rightarrow> u8 list \<Rightarrow> filestate \<Rightarrow> filestate option" where
  "fd_append d bs fs = (case filedesc_write d bs 1 (length bs) fs of
     Some (r, fs') \<Rightarrow> if r = int (length bs) then Some fs' else None | None \<Rightarrow> None)"

lemma resize_inode: "n = m\<lparr>fi_size := k\<rparr> \<Longrightarrow> n\<lparr>fi_size := l\<rparr> = m\<lparr>fi_size := l\<rparr>"
  by simp

lemma user_write_rw: "user_write a bs fs = Some fs' \<Longrightarrow> fs_rw fs' = fs_rw fs"
  unfolding user_write_def by (simp split: if_splits) force

lemma fileino_write_rw:
  assumes "fileino_write ino ofs buf e n fs = Some (r, fs')" and "fs_rw fs pg"
  shows "fs_rw fs' pg"
proof -
  let ?len = "e * n mod 2 ^ 64" and ?lim = "(nat ofs + e * n mod 2 ^ 64) mod 2 ^ 64"
  consider "fs' = set_errno EFBIG fs" | "user_write (FILEDATA ino + nat ofs) (take ?len buf) (file_grow ino ?lim fs) = Some fs'"
    using assms(1) unfolding fileino_write_def Let_def by (auto split: if_splits elim!: bind_SomeE)
  then show ?thesis
    by cases (use assms(2) in \<open>auto simp: set_errno_def dest: user_write_rw\<close>)
qed

lemma other_files_upd_fd [simp]:
  "other_files_same ino (upd_fd d f fs) fs' = other_files_same ino fs fs'"
  "other_files_same ino fs (upd_fd d f fs') = other_files_same ino fs fs'"
  by (simp_all add: other_files_same_def)

lemma fd_append_law:
  assumes app: "appending d ino fs0 fs" and len: "fi_size (inode ino fs) + length bs \<le> FILE_MAXSIZE"
  shows "\<exists>fs'. fd_append d bs fs = Some fs' \<and> appending d ino fs0 fs' \<and>
    file_content ino fs' = file_content ino fs @ bs \<and> other_files_same ino fs fs' \<and>
    (\<forall>pg. fs_rw fs pg \<longrightarrow> fs_rw fs' pg)"
proof -
  let ?fs1 = "upd_fd d (\<lambda>x. x\<lparr>fd_ofs := int (fi_size (inode ino fs))\<rparr>) fs"
  have ok: "file_ok ino ?fs1" and ino: "fd_ino (fs_fd fs d) = ino"
    and fl: "filedesc_iswritable d fs" "flagged (fd_flags (fs_fd fs d)) O_APPEND"
    and v: "inode ino fs = (inode ino fs0)\<lparr>fi_size := fi_size (inode ino fs)\<rparr>"
      "nat j \<noteq> nat ino \<Longrightarrow> inode j fs = inode j fs0" for j using app by (simp_all add: appending_def)
  have w: "wrap32 (int (fi_size (inode ino fs))) = int (fi_size (inode ino fs))"
    "wrap32 (int (fi_size (inode ino fs)) + int (length bs)) = int (fi_size (inode ino fs)) + int (length bs)"
    using len by (simp_all add: FILE_MAXSIZE_def)
  obtain fs2 where f2: "fileino_write ino (int (fi_size (inode ino fs))) bs 1 (length bs) ?fs1 = Some (int (length bs), fs2)"
    "file_ok ino fs2" "file_content ino fs2 = file_content ino fs @ bs" "fs_fd fs2 = fs_fd ?fs1"
    "inode ino fs2 = (inode ino fs)\<lparr>fi_size := fi_size (inode ino fs) + length bs\<rparr>" "other_files_same ino ?fs1 fs2"
    using fileino_write_eq [OF ok, of "int (fi_size (inode ino fs))" 1 "length bs" bs] len
    by (auto simp: splice_def max_def)
  let ?fs' = "upd_fd d (\<lambda>x. x\<lparr>fd_ofs := wrap32 (fd_ofs x + int (length bs))\<rparr>) fs2"
  have "filedesc_write d bs 1 (length bs) fs = Some (int (length bs), ?fs')"
    using f2 fl by (simp add: filedesc_write_def Let_def ino w)
  moreover have "inode ino ?fs' = (inode ino fs0)\<lparr>fi_size := fi_size (inode ino ?fs')\<rparr>"
    using resize_inode [OF v(1)] by (simp add: f2(5))
  then have "appending d ino fs0 ?fs'"
    using f2(2,4) fl v(2) other_inodes [OF f2(6)] by (simp add: appending_def filedesc_iswritable_def filedesc_isopen_def ino)
  ultimately show ?thesis using f2(3,6) fileino_write_rw [OF f2(1)] by (simp add: fd_append_def)
qed

interpretation fd_log: append_store "appending d ino fs0" "file_content ino" "fd_append d" FILE_MAXSIZE for d ino fs0
  by unfold_locales (use fd_append_law in fastforce)

end
