(* ===== verification/DirProps.thy ===== *)
theory DirProps
  imports FileProps
begin

text \<open>
  Properties of directories: a path that was walked, creating its last component if need be, leads to
  the same inode when it is walked again.
\<close>

subsection \<open>Searching a directory by the next component of the path\<close>

definition comp :: "string \<Rightarrow> string" where "comp path = takeWhile (\<lambda>ch. ch \<noteq> slash) path"

text \<open>No name has a slash in it, but for the root directory's own name.\<close>

definition names_ok :: "filestate \<Rightarrow> bool" where
  "names_ok fs \<longleftrightarrow> (\<forall>i < FILE_INODES. slash \<notin> set (fi_name (fs_fi fs i)) \<or> fi_name (fs_fi fs i) = [slash])"

definition entry :: "int \<Rightarrow> string \<Rightarrow> filestate \<Rightarrow> nat \<Rightarrow> bool" where
  "entry dino name fs i \<longleftrightarrow> fileino_alloced (int i) fs \<and> fi_dino (fs_fi fs i) = dino \<and> fi_name (fs_fi fs i) = name"

lemma prefix_comp:
  assumes "slash \<notin> set name"
  shows "take (length name) path = name \<and> (drop (length name) path = [] \<or> hd (drop (length name) path) = slash) \<longleftrightarrow>
    comp path = name"
proof
  assume *: "take (length name) path = name \<and> (drop (length name) path = [] \<or> hd (drop (length name) path) = slash)"
  then obtain r where "path = name @ r" "r = [] \<or> hd r = slash" by (metis append_take_drop_id)
  moreover from this have "takeWhile (\<lambda>ch. ch \<noteq> slash) r = []" by (cases r) auto
  moreover have "takeWhile (\<lambda>ch. ch \<noteq> slash) (name @ r) = name @ takeWhile (\<lambda>ch. ch \<noteq> slash) r"
    by (rule takeWhile_append2) (use assms in auto)
  ultimately show "comp path = name" by (simp add: comp_def)
next
  assume *: "comp path = name"
  let ?r = "dropWhile (\<lambda>ch. ch \<noteq> slash) path"
  have "path = name @ ?r" using * unfolding comp_def by (metis takeWhile_dropWhile_id)
  then have "take (length name) path = name" "drop (length name) path = ?r" by (metis append_eq_conv_conj)+
  moreover have "?r = [] \<or> hd ?r = slash" using hd_dropWhile [of "\<lambda>ch. ch \<noteq> slash" path] by auto
  ultimately show "take (length name) path = name \<and> (drop (length name) path = [] \<or> hd (drop (length name) path) = slash)"
    by simp
qed

lemma dir_match_entry:
  assumes "names_ok fs" and "i < FILE_INODES" and "path \<noteq> []" and "hd path \<noteq> slash"
  shows "dir_match dino path fs i = entry dino (comp path) fs i"
proof (cases "fi_name (fs_fi fs i) = [slash]")
  case True
  have "slash \<notin> set (comp path)" by (auto simp: comp_def dest: set_takeWhileD)
  then have "comp path \<noteq> [slash]" by auto
  then show ?thesis using True assms(3,4) by (cases path) (auto simp: dir_match_def entry_def)
next
  case False
  then show ?thesis
    using prefix_comp [of "fi_name (fs_fi fs i)" path] assms
    by (auto simp: dir_match_def entry_def names_ok_def Let_def)
qed

lemma find_SomeD: "List.find P xs = Some x \<Longrightarrow> x \<in> set xs \<and> P x"
  by (induction xs) (auto split: if_splits)

lemma find_self: "i \<in> set xs \<Longrightarrow> List.find (\<lambda>x. x = i) xs = Some i"
  by (induction xs) auto

lemma find_cong: "(\<And>x. x \<in> set xs \<Longrightarrow> P x = Q x) \<Longrightarrow> List.find P xs = List.find Q xs"
  by (induction xs) auto

text \<open>The search depends on the first component only.\<close>

definition search :: "int \<Rightarrow> string \<Rightarrow> filestate \<Rightarrow> int option" where
  "search dino name fs =
     (case List.find (entry dino name fs) [1..<FILE_INODES] of
        Some i \<Rightarrow> Some (int i)
      | None \<Rightarrow> if name = [dot] then Some dino else if name = [dot, dot] then Some (fi_dino (inode dino fs)) else None)"

lemma dir_search_comp:
  assumes "names_ok fs" and "path \<noteq> []" and "hd path \<noteq> slash"
  shows "dir_search dino path fs = map_option (\<lambda>i. (i, length (comp path))) (search dino (comp path) fs)"
proof -
  have f: "List.find (dir_match dino path fs) [1..<FILE_INODES] = List.find (entry dino (comp path) fs) [1..<FILE_INODES]"
    by (rule find_cong) (use dir_match_entry [OF assms(1) _ assms(2,3)] in auto)
  have dots: "slash \<notin> set [dot]" "slash \<notin> set [dot, dot]" by (simp_all add: slash_def dot_def)
  have d1: "take 1 path = [dot] \<and> (drop 1 path = [] \<or> hd (drop 1 path) = slash) \<longleftrightarrow> comp path = [dot]"
    using prefix_comp [OF dots(1), of path] by simp
  have d2: "take 2 path = [dot, dot] \<and> (drop 2 path = [] \<or> hd (drop 2 path) = slash) \<longleftrightarrow> comp path = [dot, dot]"
    using prefix_comp [OF dots(2), of path] by (simp add: numeral_2_eq_2)
  have n: "fi_name (fs_fi fs i) = comp path" if "List.find (entry dino (comp path) fs) [1..<FILE_INODES] = Some i" for i
    using that by (auto dest: find_SomeD simp: entry_def)
  show ?thesis
    unfolding dir_search_def f d1 d2 search_def by (auto simp: n split: option.split)
qed

lemma drop_comp: "drop (length (comp path)) path = [] \<longleftrightarrow> comp path = path"
  unfolding comp_def by (metis append_Nil2 append_eq_conv_conj drop_all length_takeWhile_le order_refl takeWhile_dropWhile_id)

subsection \<open>What a walk changes\<close>

text \<open>Nothing, or a deleted inode is used again, or a new inode becomes an entry that was not there.\<close>

definition recreated :: "u32 \<Rightarrow> filestate \<Rightarrow> filestate \<Rightarrow> bool" where
  "recreated m fs fs' \<longleftrightarrow> (\<exists>i n. fs' = upd_fi (int i) (\<lambda>_. n) fs \<and> \<not> fileino_exists (int i) fs \<and>
     fi_name n = fi_name (fs_fi fs i) \<and> fi_dino n = fi_dino (fs_fi fs i) \<and> fi_mode n = m)"

definition created :: "u32 \<Rightarrow> filestate \<Rightarrow> filestate \<Rightarrow> bool" where
  "created m fs fs' \<longleftrightarrow> (\<exists>i n. fs' = upd_fi (int i) (\<lambda>_. n) fs \<and> 1 \<le> i \<and> i < FILE_INODES \<and> fi_name (fs_fi fs i) = [] \<and>
     slash \<notin> set (fi_name n) \<and> fi_name n \<noteq> [] \<and> search (fi_dino n) (fi_name n) fs = None \<and> fi_mode n = m)"

definition walked :: "u32 \<Rightarrow> filestate \<Rightarrow> filestate \<Rightarrow> bool" where
  "walked m fs fs' \<longleftrightarrow> fs' = fs \<or> m \<noteq> 0 \<and> (recreated m fs fs' \<or> created m fs fs')"

lemma upd_fi_fs: "fs_fi (upd_fi j (\<lambda>_. n) fs) = (fs_fi fs)(nat j := n)"
  by (simp add: upd_fi_def)

text \<open>Directories stay directories in the same place.\<close>

lemma walked_dir:
  assumes "walked m fs fs'" and "fileino_isdir j fs"
  shows "inode j fs' = inode j fs" "fileino_isdir j fs'"
proof -
  have j: "fileino_exists j fs" "fi_name (fs_fi fs (nat j)) \<noteq> []" "0 < j"
    using assms(2) by (auto simp: fileino_defs S_ISDIR_def S_IFMT_def S_IFDIR_def inode_def)
  then have "int (nat j) = j" by simp
  show "inode j fs' = inode j fs"
    using assms(1) j \<open>int (nat j) = j\<close> by (auto simp: walked_def recreated_def created_def inode_def upd_fi_fs)
  then show "fileino_isdir j fs'" using assms(2) by (simp add: fileino_defs)
qed

text \<open>And a search that succeeded gives the same result.\<close>

lemma walked_search:
  assumes w: "walked m fs fs'" and s: "search dino name fs = Some i" and d: "fileino_isdir dino fs"
  shows "search dino name fs' = Some i"
proof -
  have "entry dino name fs' x = entry dino name fs x" if "x \<in> set [1..<FILE_INODES]" for x
    using w s that unfolding walked_def recreated_def created_def
    by (auto simp: entry_def upd_fi_fs fileino_defs inode_def split: if_splits)
  then have "List.find (entry dino name fs') [1..<FILE_INODES] = List.find (entry dino name fs) [1..<FILE_INODES]"
    by (rule find_cong)
  then have "search dino name fs' = search dino name fs" unfolding search_def walked_dir(1) [OF w d] by simp
  with s show ?thesis by simp
qed

lemma walked_names: "walked m fs fs' \<Longrightarrow> names_ok fs \<Longrightarrow> names_ok fs'"
  by (auto simp: walked_def recreated_def created_def names_ok_def upd_fi_fs split: if_splits)

lemma walked_cwd: "walked m fs fs' \<Longrightarrow> fs_cwd fs' = fs_cwd fs"
  by (auto simp: walked_def recreated_def created_def upd_fi_def)

subsection \<open>Walking again\<close>

lemma dir_final_again:
  assumes s: "search dino (comp path) fs = Some i" and d: "fileino_isdir dino fs" "fileino_isdir (fi_dino (inode dino fs)) fs"
    and f: "dir_final i m fs = (ino, fs')" "0 \<le> ino"
  shows "ino = i \<and> walked m fs fs' \<and> dir_final i 0 fs' = (i, fs')"
proof (cases "fileino_exists i fs")
  case True
  with f show ?thesis by (simp add: dir_final_def walked_def)
next
  case False
  let ?n = "(inode i fs)\<lparr>fi_ver := wrap32 (fi_ver (inode i fs) + 1), fi_mode := m, fi_size := 0\<rparr>"
  have ex: "fileino_exists j fs" if "fileino_isdir j fs" for j
    using that by (auto simp: fileino_defs S_ISDIR_def S_IFMT_def S_IFDIR_def)
  from False s d obtain k where k: "i = int k" "k \<in> set [1..<FILE_INODES]" "entry dino (comp path) fs k"
    using ex [OF d(1)] ex [OF d(2)] by (auto simp: search_def dest!: find_SomeD split: option.splits if_splits)
  have m: "m \<noteq> 0" and fs': "fs' = upd_fi i (\<lambda>_. ?n) fs" and "ino = i"
    using False f by (auto simp: dir_final_def upd_fi_def inode_def split: if_splits)
  have "recreated m fs fs'"
    unfolding recreated_def fs' using False k(1) by (intro exI [of _ k] exI [of _ ?n]) (simp add: inode_def)
  moreover have "fileino_exists i fs'" using m k by (auto simp: fs' fileino_defs entry_def inode_def upd_fi_fs)
  ultimately show ?thesis using m \<open>ino = i\<close> by (simp add: walked_def dir_final_def)
qed

lemma dir_create_again:
  assumes n: "names_ok fs" and s: "search dino (comp path) fs = None" and p: "path \<noteq> []"
    and c: "dir_create dino path m fs = Some (ino, fs')" "0 \<le> ino"
  shows "walked m fs fs' \<and> comp path = path \<and> search dino path fs' = Some ino \<and> dir_final ino 0 fs' = (ino, fs')"
proof -
  from c have m: "m \<noteq> 0" "slash \<notin> set path" by (auto simp: dir_create_def split: if_splits)
  then have comp: "comp path = path" by (simp add: comp_def takeWhile_eq_all_conv) auto
  from c obtain i where i: "fileino_alloc fs = (int i, fs)" "ino = int i" "4 \<le> i" "i < FILE_INODES" "fi_name (fs_fi fs i) = []"
    and fs': "fs' = upd_fi (int i) (\<lambda>x. x\<lparr>fi_name := path, fi_dino := dino, fi_ver := 0, fi_mode := m, fi_size := 0\<rparr>) fs"
    by (auto simp: dir_create_def fileino_alloc_def FILEINO_GENERAL_def dest!: find_SomeD split: if_splits option.splits)
  let ?n = "(fs_fi fs i)\<lparr>fi_name := path, fi_dino := dino, fi_ver := 0, fi_mode := m, fi_size := 0\<rparr>"
  have fs'': "fs' = upd_fi (int i) (\<lambda>_. ?n) fs" by (simp add: fs' upd_fi_def)
  have "created m fs fs'"
    unfolding created_def fs'' using i m p s comp by (intro exI [of _ i] exI [of _ ?n]) simp
  moreover have "entry dino path fs' x = (x = i)" if "x \<in> set [1..<FILE_INODES]" for x
  proof -
    have "\<not> entry dino path fs x" using s that comp by (auto simp: search_def find_None_iff split: option.splits)
    then show ?thesis using i p that by (auto simp: fs'' entry_def upd_fi_fs fileino_defs inode_def)
  qed
  then have "List.find (entry dino path fs') [1..<FILE_INODES] = List.find (\<lambda>x. x = i) [1..<FILE_INODES]" by (rule find_cong)
  moreover have "List.find (\<lambda>x. x = i) [1..<FILE_INODES] = Some i"
    using i by (intro find_self) auto
  moreover have "fileino_exists (int i) fs'" using i m p by (simp add: fs'' fileino_defs inode_def upd_fi_fs)
  ultimately show ?thesis using m i comp by (simp add: walked_def search_def dir_final_def)
qed

lemma walk_from_again:
  assumes "walk_from dino path m fs = Some (ino, fs')" and "0 \<le> ino" and "names_ok fs" and "path \<noteq> []" and "hd path \<noteq> slash"
  shows "walked m fs fs' \<and> walk_from dino path 0 fs' = Some (ino, fs')"
  using assms
proof (induction dino path m fs rule: walk_from.induct)
  case (1 dino path m fs)
  note w = 1(2) and ino = 1(3) and names = 1(4) and p = 1(5,6)
  have d: "fileino_isdir dino fs" "fileino_isdir (fi_dino (inode dino fs)) fs"
    using w by (simp_all add: walk_from.simps [of dino path] split: if_splits)
  have again: "fileino_isdir dino fs' \<and> fileino_isdir (fi_dino (inode dino fs')) fs'" if "walked m fs fs'"
    using walked_dir [OF that d(1)] walked_dir [OF that d(2)] by simp
  show ?case
  proof (cases "search dino (comp path) fs")
    case None
    then have "dir_create dino path m fs = Some (ino, fs')"
      using w d by (simp add: walk_from.simps [of dino path] dir_search_comp [OF names p])
    from dir_create_again [OF names None 1(5) this ino]
    have c: "walked m fs fs'" "comp path = path" "search dino path fs' = Some ino" "dir_final ino 0 fs' = (ino, fs')" by simp_all
    then show ?thesis
      using again by (simp add: walk_from.simps [of dino path] dir_search_comp [OF walked_names [OF c(1) names] p])
  next
    case (Some i)
    let ?len = "length (comp path)" and ?rest = "dropWhile (\<lambda>ch. ch = slash) (drop (length (comp path)) path)"
    have ds: "dir_search dino path fs = Some (i, ?len)" by (simp add: dir_search_comp [OF names p] Some)
    have ds': "dir_search dino path fs' = Some (i, ?len)" if "walked m fs fs'"
      using walked_search [OF that Some d(1)] by (simp add: dir_search_comp [OF walked_names [OF that names] p])
    show ?thesis
    proof (cases "drop ?len path = []")
      case True
      then have "dir_final i m fs = (ino, fs')" using w d ds by (simp add: walk_from.simps [of dino path])
      from dir_final_again [OF Some d this ino] have f: "ino = i" "walked m fs fs'" "dir_final i 0 fs' = (i, fs')" by simp_all
      then show ?thesis using True again ds' by (simp add: walk_from.simps [of dino path])
    next
      case False
      then have dir: "fileino_isdir i fs" using w d ds ino by (auto simp: walk_from.simps [of dino path] split: if_splits)
      have "walked m fs fs' \<and> (if ?rest = [] then fs' = fs \<and> ino = i else walk_from i ?rest 0 fs' = Some (ino, fs'))"
      proof (cases "?rest = []")
        case True
        then show ?thesis using w d ds False dir by (simp add: walk_from.simps [of dino path] walked_def)
      next
        case rest: False
        then have "walk_from i ?rest m fs = Some (ino, fs')"
          using w d ds False dir by (simp add: walk_from.simps [of dino path] del: dropWhile_eq_Nil_conv)
        moreover have "hd ?rest \<noteq> slash" using hd_dropWhile [OF rest] .
        ultimately show ?thesis using 1(1) [OF _ ds refl False _ refl rest] d dir ino names rest
          by (simp del: dropWhile_eq_Nil_conv)
      qed
      then show ?thesis
        using False again ds' walked_dir(2) [OF _ dir, of m fs'] by (auto simp: walk_from.simps [of dino path] split: if_splits)
    qed
  qed
qed

end
