(* ===== verification/FileThms.thy ===== *)
theory FileThms
  imports DirProps
begin

text \<open>
  What the file operations guarantee, and where they do not do what they mean to.
\<close>

text \<open>A process with the console files, the root directory and one file \<open>log\<close> of five bytes, opened for appending as descriptor 0.\<close>

definition demo_files :: filestate where
  "demo_files = \<lparr>fs_err = 0, fs_cwd = 3, fs_exited = False, fs_status = 0,
     fs_fd = (\<lambda>d. if d = 0 then \<lparr>fd_ino = 4, fd_flags = O_WRONLY OR O_APPEND, fd_ofs = 0, fd_err = 0\<rparr>
       else \<lparr>fd_ino = 0, fd_flags = 0, fd_ofs = 0, fd_err = 0\<rparr>),
     fs_fi = (\<lambda>i. if i = 1 \<or> i = 2 then \<lparr>fi_dino = 3, fi_name = (if i = 1 then ''consin'' else ''consout''), fi_ver = 0,
         fi_mode = S_IFREG, fi_size = 0, fi_rino = 0, fi_rver = 0, fi_rlen = 0\<rparr>
       else if i = 3 then \<lparr>fi_dino = 3, fi_name = ''/'', fi_ver = 0, fi_mode = S_IFDIR, fi_size = 0,
         fi_rino = 3, fi_rver = 0, fi_rlen = 0\<rparr>
       else if i = 4 then \<lparr>fi_dino = 3, fi_name = ''log'', fi_ver = 0, fi_mode = S_IFREG OR 0x1A4, fi_size = 5,
         fi_rino = 4, fi_rver = 0, fi_rlen = 5\<rparr>
       else \<lparr>fi_dino = 0, fi_name = [], fi_ver = 0, fi_mode = 0, fi_size = 0, fi_rino = 0, fi_rver = 0, fi_rlen = 0\<rparr>),
     fs_child = (\<lambda>_. 0), fs_thself = 0,
     fs_mem = (\<lambda>x. of_nat (x + 65)), fs_rw = (\<lambda>pg. pg = 4096)\<rparr>"

lemma demo_inode: "inode 4 demo_files = \<lparr>fi_dino = 3, fi_name = ''log'', fi_ver = 0, fi_mode = S_IFREG OR 0x1A4,
    fi_size = 5, fi_rino = 4, fi_rver = 0, fi_rlen = 5\<rparr>"
  by (simp add: inode_def demo_files_def)

lemma demo_page: "i < 4096 \<Longrightarrow> (FILEDATA 4 + i) div PAGESIZE = 4096"
  by (simp add: FILEDATA_def PAGESIZE_def)

lemma demo_ok: "file_ok 4 demo_files"
  by (simp add: file_ok_def fileino_defs demo_inode ROUNDUP_def ROUNDDOWN_def FILE_INODES_def OPEN_MAX_def
      FILE_MAXSIZE_def S_ISREG_def S_IFMT_def S_IFREG_def)
    (simp add: PAGESIZE_def demo_page [unfolded PAGESIZE_def] demo_files_def)

lemma demo_whole: "whole 4 demo_files"
  by (simp add: whole_def demo_inode flagged_def S_IFPART_def S_IFREG_def)

lemma demo_content: "file_content 4 demo_files = [65, 66, 67, 68, 69]"
  by (simp add: file_content_def demo_inode upt_rec numeral_eq_Suc) (simp add: demo_files_def FILEDATA_def)

lemma demo_appending: "appending 0 4 demo_files demo_files"
  using demo_ok by (simp add: appending_def demo_inode filedesc_iswritable_def filedesc_isopen_def)
    (simp add: demo_files_def flagged_def O_WRONLY_def O_APPEND_def FILEINO_NULL_def OPEN_MAX_def)

subsection \<open>Writing, reading, appending, truncating\<close>

text \<open>C12: Writing a whole file at an offset inside it succeeds, replaces exactly the bytes written, extends
  the file if needed, leaves every other file alone, and reading at that offset gives back the data.\<close>

theorem fileino_write_read:
  assumes "file_ok ino fs" and "whole ino fs" and "0 \<le> ofs" and "nat ofs \<le> fi_size (inode ino fs)" and "0 < eltsize"
    and "eltsize * count \<le> length buf" and "nat ofs + eltsize * count \<le> FILE_MAXSIZE"
  shows "\<exists>fs'. fileino_write ino ofs buf eltsize count fs = Some (int count, fs') \<and> file_ok ino fs' \<and>
    file_content ino fs' = splice (nat ofs) (take (eltsize * count) buf) (file_content ino fs) \<and>
    other_files_same ino fs fs' \<and>
    fileino_read wakes ino ofs eltsize count fs' = Some (Inr (take (eltsize * count) buf, count, fs'))"
proof -
  obtain fs' where w: "fileino_write ino ofs buf eltsize count fs = Some (int count, fs')" "file_ok ino fs'"
    "file_content ino fs' = splice (nat ofs) (take (eltsize * count) buf) (file_content ino fs)"
    "inode ino fs' = (inode ino fs)\<lparr>fi_size := max (fi_size (inode ino fs)) (nat ofs + eltsize * count)\<rparr>"
    "other_files_same ino fs fs'"
    using fileino_write_eq [OF assms(1,3-7)] by blast
  have wh: "whole ino fs'" using assms(2) by (simp add: whole_def w(4))
  have "count * eltsize \<le> fi_size (inode ino fs') - nat ofs" by (simp add: w(4) mult.commute)
  then have n: "count = min count ((fi_size (inode ino fs') - nat ofs) div eltsize)"
    using \<open>0 < eltsize\<close> by (simp add: less_eq_div_iff_mult_less_eq)
  have "take (count * eltsize) (drop (nat ofs) (file_content ino fs')) = take (eltsize * count) buf"
    using assms(4,6) by (simp add: w(3) splice_def mult.commute)
  with fileino_read_eq [OF w(2) wh assms(3,5) n] w show ?thesis by auto
qed

theorem fileino_write_read_witness:
  "\<exists>fs'. fileino_write 4 3 [1, 2, 3, 4] 2 2 demo_files = Some (2, fs') \<and>
    file_content 4 fs' = [65, 66, 67, 1, 2, 3, 4] \<and>
    fileino_read [] 4 3 2 2 fs' = Some (Inr ([1, 2, 3, 4], 2, fs'))"
  using fileino_write_read [OF demo_ok demo_whole, of 3 2 2 "[1, 2, 3, 4]" "[]"]
  by (auto simp: demo_inode FILE_MAXSIZE_def demo_content splice_def)

text \<open>C18: Any sequence of appends through a descriptor leaves the file with its old content followed by
  all the pieces in order, and its version unchanged, so that the appends can be merged with others.\<close>

theorem filedesc_appends:
  assumes "appending d ino fs fs" and "fi_size (inode ino fs) + length (concat bss) \<le> FILE_MAXSIZE"
  shows "\<exists>fs'. run_all (fd_append d) bss fs = Some fs' \<and>
    file_content ino fs' = file_content ino fs @ concat bss \<and> fi_ver (inode ino fs') = fi_ver (inode ino fs)"
proof -
  obtain fs' where r: "run_all (fd_append d) bss fs = Some fs'" "appending d ino fs fs'"
    "file_content ino fs' = file_content ino fs @ concat bss"
    using fd_log.appends_concat [OF assms(1), of bss] assms(2) by auto
  then have "fi_ver (inode ino fs') = fi_ver (inode ino fs)"
    unfolding appending_def by (metis fileinode.select_convs(3) fileinode.surjective fileinode.update_convs(5))
  with r show ?thesis by blast
qed

theorem filedesc_appends_witness:
  "\<exists>fs'. run_all (fd_append 0) [[1], [2, 3]] demo_files = Some fs' \<and>
    file_content 4 fs' = [65, 66, 67, 68, 69, 1, 2, 3] \<and> fi_ver (inode 4 fs') = 0"
  using filedesc_appends [OF demo_appending, of "[[1], [2, 3]]"] by (simp add: demo_inode FILE_MAXSIZE_def demo_content)

text \<open>C34: Truncation sets the size exactly, keeps the bytes below it, fills new space with zeros, counts
  as an exclusive change, and leaves every other file alone.\<close>

theorem fileino_truncate_exact:
  assumes "file_ok ino fs" and "0 \<le> newsize" and "newsize \<le> int FILE_MAXSIZE"
  shows "\<exists>fs'. fileino_truncate ino newsize fs = Some (0, fs') \<and> file_ok ino fs' \<and>
    file_content ino fs' = take (nat newsize) (file_content ino fs) @ replicate (nat newsize - fi_size (inode ino fs)) 0 \<and>
    fi_ver (inode ino fs') = wrap32 (fi_ver (inode ino fs) + 1) \<and> other_files_same ino fs fs'"
  using fileino_truncate_eq [OF assms] by auto

theorem fileino_truncate_exact_witness:
  "\<exists>fs'. fileino_truncate 4 7 demo_files = Some (0, fs') \<and> file_content 4 fs' = [65, 66, 67, 68, 69, 0, 0] \<and>
    fi_ver (inode 4 fs') = 1"
  using fileino_truncate_exact [OF demo_ok, of 7] by (auto simp: demo_inode FILE_MAXSIZE_def demo_content numeral_2_eq_2)

subsection \<open>Limits\<close>

text \<open>A write that would end beyond the maximum file size fails with \<open>EFBIG\<close> and changes nothing else.\<close>

theorem fileino_write_EFBIG:
  assumes "file_ok ino fs" and "0 \<le> ofs" and "ofs < 2 ^ 31" and "0 < eltsize"
    and "eltsize * count < 2 ^ 63" and "FILE_MAXSIZE < nat ofs + eltsize * count"
  shows "fileino_write ino ofs buf eltsize count fs = Some (- 1, set_errno EFBIG fs)"
  using assms by (auto simp: fileino_write_def Let_def file_ok_def)

theorem fileino_write_EFBIG_witness:
  "fileino_write 4 4194303 [1, 2] 2 1 demo_files = Some (- 1, set_errno EFBIG demo_files)"
  by (rule fileino_write_EFBIG [OF demo_ok]) (simp_all add: FILE_MAXSIZE_def)

text \<open>But the number of bytes is a 64-bit product that wraps: a request for a multiple of \<open>2 ^ 64\<close> bytes
  is reported as written in full although no byte is.\<close>

theorem fileino_write_overflow:
  assumes "file_ok ino fs" and "0 \<le> ofs" and "0 < eltsize"
    and "2 ^ 64 dvd eltsize * count" and "nat ofs \<le> fi_size (inode ino fs)"
  shows "fileino_write ino ofs buf eltsize count fs = Some (int count, fs)"
proof -
  have a: "fileino_isreg ino fs" "fi_size (inode ino fs) \<le> FILE_MAXSIZE" using assms(1) by (simp_all add: file_ok_def)
  then have "eltsize * count mod 18446744073709551616 = 0" "nat ofs mod 18446744073709551616 = nat ofs"
    using assms(4,5) by (auto simp: mod_eq_0_iff_dvd FILE_MAXSIZE_def)
  moreover have "user_write b [] fs = Some fs" for b
    by (simp add: user_write_def user_ok_iff) (rule filestate.equality, auto intro!: ext)
  ultimately show ?thesis
    using a assms(2,3,5) by (simp add: fileino_write_def file_grow_def Let_def)
qed

theorem fileino_write_overflow_witness:
  "fileino_write 4 0 [] (2 ^ 32) (2 ^ 32) demo_files = Some (2 ^ 32, demo_files)"
  using fileino_write_overflow [OF demo_ok, of 0 "2 ^ 32" "2 ^ 32" "[]"] by (simp add: demo_inode)

text \<open>Shrinking a file only hides its data: a later write past the new end makes the bytes between
  visible again, instead of zeros.\<close>

theorem shrink_then_write_past_end:
  assumes ok: "file_ok ino fs" and k: "0 < k" "k \<le> m" and m: "m < fi_size (inode ino fs)"
  shows "\<exists>fs1 fs2. fileino_truncate ino (int k) fs = Some (0, fs1) \<and>
    file_content ino fs1 = take k (file_content ino fs) \<and>
    fileino_write ino (int m) [b] 1 1 fs1 = Some (1, fs2) \<and>
    file_content ino fs2 = take m (file_content ino fs) @ [b]"
proof -
  have sz: "fi_size (inode ino fs) \<le> FILE_MAXSIZE" using ok by (simp add: file_ok_def)
  have rng: "0 \<le> int k" "int k \<le> int FILE_MAXSIZE" using k m sz by simp_all
  obtain fs1 where t: "fileino_truncate ino (int k) fs = Some (0, fs1)" "file_ok ino fs1"
    "file_content ino fs1 = take k (file_content ino fs)" "fi_size (inode ino fs1) = k"
    using fileino_truncate_eq [OF ok rng] k m by auto
  have mem: "fs_mem fs1 = fs_mem fs" using t(1) k m by (auto simp: fileino_truncate_def Let_def)
  obtain fs2 where w: "fileino_write ino (int m) [b] 1 1 fs1 = Some (1, fs2)"
    "inode ino fs2 = (inode ino fs1)\<lparr>fi_size := max (fi_size (inode ino fs1)) (m + 1)\<rparr>"
    "\<And>i. fs_mem fs2 (FILEDATA ino + i) = (if m \<le> i \<and> i < m + 1 then [b] ! (i - m) else fs_mem fs1 (FILEDATA ino + i))"
    by (rule fileino_write_raw [OF t(2), of "int m" 1 1 "[b]"]) (use m sz in auto)
  have "file_content ino fs2 = take m (file_content ino fs) @ [b]"
    using k m by (auto intro!: nth_equalityI simp: file_content_def w(2,3) t(4) mem nth_append)
  with t w show ?thesis by blast
qed

theorem shrink_then_write_past_end_witness:
  "\<exists>fs1 fs2. fileino_truncate 4 1 demo_files = Some (0, fs1) \<and> file_content 4 fs1 = [65] \<and>
    fileino_write 4 4 [1] 1 1 fs1 = Some (1, fs2) \<and> file_content 4 fs2 = [65, 66, 67, 68, 1]"
  using shrink_then_write_past_end [OF demo_ok, of 1 4 1] by (simp add: demo_inode demo_content)

text \<open>A read that has to wait for more input starts over: after the parent has extended the partial file
  and resumed the reader, the bytes that were already read are delivered a second time.\<close>

theorem partial_read_repeats:
  assumes ok: "file_ok ino fs" and part: "\<not> whole ino fs"
    and wake: "file_ok ino (w fs)" "file_content ino (w fs) = file_content ino fs @ new"
    and len: "length (file_content ino fs) = nat ofs + a" "a < count" "count \<le> a + (a + length new)" and "0 \<le> ofs"
  shows "fileino_read [w] ino ofs 1 count fs =
    Some (Inr (drop (nat ofs) (file_content ino fs) @
      take (count - a) (drop (nat ofs) (file_content ino fs) @ new), count, w fs))"
proof -
  have s2: "fi_size (inode ino (w fs)) = nat ofs + a + length new"
    using wake(2) len(1) by (metis length_append length_file_content)
  have 1: "a = min count ((fi_size (inode ino fs) - nat ofs) div 1)" using len by simp
  have 2: "count - a = min (count - a) ((fi_size (inode ino (w fs)) - nat ofs) div 1)" using len s2 by simp
  have "fileino_isreg ino fs" using ok by (simp add: file_ok_def)
  then have "fileino_read [w] ino ofs 1 count fs = read_loop [w] ino (nat ofs) 1 count [] 0 fs"
    using \<open>0 \<le> ofs\<close> by (simp add: fileino_read_def)
  also have "\<dots> = read_loop [] ino (nat ofs) 1 (count - a) (drop (nat ofs) (file_content ino fs)) a (w fs)"
    using read_loop_step [OF ok _ 1, of "[w]" "[]" 0] len part by simp
  also have "\<dots> = Some (Inr (drop (nat ofs) (file_content ino fs) @
      take (count - a) (drop (nat ofs) (file_content ino fs) @ new), count, w fs))"
    using read_loop_step [OF wake(1) _ 2, of "[]" _ a] len wake(2) by simp
  finally show ?thesis .
qed

text \<open>The demonstration file as a partial file, and a parent that appends a byte to it.\<close>

definition demo_partial :: filestate where
  "demo_partial = upd_fi 4 (\<lambda>n. n\<lparr>fi_mode := S_IFREG OR S_IFPART\<rparr>) demo_files"

definition demo_extend :: "filestate \<Rightarrow> filestate" where
  "demo_extend = upd_fi 4 (\<lambda>n. n\<lparr>fi_size := fi_size n + 1\<rparr>)"

lemma demo_partial_ok: "file_ok 4 demo_partial" "file_ok 4 (demo_extend demo_partial)" "\<not> whole 4 demo_partial"
  using demo_ok
  by (simp_all add: file_ok_def whole_def demo_partial_def demo_extend_def fileino_defs demo_inode S_ISREG_def
      S_IFMT_def S_IFREG_def S_IFPART_def flagged_def FILE_MAXSIZE_def ROUNDUP_def ROUNDDOWN_def PAGESIZE_def)

lemma demo_partial_content: "file_content 4 demo_partial = [65, 66, 67, 68, 69]"
  "file_content 4 (demo_extend demo_partial) = [65, 66, 67, 68, 69, 70]"
  by (simp_all add: demo_partial_def demo_extend_def file_content_def demo_inode upt_rec numeral_eq_Suc)
    (simp_all add: demo_files_def FILEDATA_def)

theorem partial_read_repeats_witness:
  "fileino_read [demo_extend] 4 3 1 3 demo_partial = Some (Inr ([68, 69, 68], 3, demo_extend demo_partial))"
  using partial_read_repeats [of 4 demo_partial demo_extend "[70]" 3 2 3] demo_partial_ok by (simp add: demo_partial_content)

subsection \<open>Directories\<close>

text \<open>C33: A path that was walked successfully, possibly creating its last component, leads to the same inode when
  it is looked up afterwards, without changing anything.\<close>

theorem dir_walk_again:
  assumes names: "names_ok fs" and w: "dir_walk path createmode fs = Some (ino, fs')" and ino: "0 \<le> ino"
  shows "dir_walk path 0 fs' = Some (ino, fs')"
proof (cases "hd path = slash")
  case True
  let ?r = "dropWhile (\<lambda>ch. ch = slash) path"
  have p: "path \<noteq> []" using w by (auto simp: dir_walk_def split: if_splits)
  show ?thesis
  proof (cases "?r = []")
    case False
    with w True p have "walk_from (int FILEINO_ROOTDIR) ?r createmode fs = Some (ino, fs')"
      by (simp add: dir_walk_def del: dropWhile_eq_Nil_conv)
    from walk_from_again [OF this ino names False hd_dropWhile [OF False]] True p False show ?thesis
      by (simp add: dir_walk_def del: dropWhile_eq_Nil_conv)
  qed (use w True p in \<open>simp add: dir_walk_def\<close>)
next
  case False
  then have "walk_from (fs_cwd fs) path createmode fs = Some (ino, fs')" "path \<noteq> []"
    using w by (auto simp: dir_walk_def split: if_splits)
  from walk_from_again [OF this(1) ino names this(2) False] False \<open>path \<noteq> []\<close> show ?thesis
    by (auto simp: dir_walk_def dest: walked_cwd)
qed

lemma demo_names: "names_ok demo_files"
  by (auto simp: names_ok_def demo_files_def slash_def)

lemma demo_create: "\<exists>fs'. dir_walk ''/new'' S_IFREG demo_files = Some (5, fs')"
proof -
  have free: "List.find (\<lambda>i. fi_name (fs_fi demo_files i) = []) [FILEINO_GENERAL..<FILE_INODES] = Some 5"
    by (simp add: upt_conv_Cons FILEINO_GENERAL_def FILE_INODES_def OPEN_MAX_def demo_files_def del: upt_rec_numeral)
  have no: "List.find (entry 3 ''new'' demo_files) [1..<FILE_INODES] = None"
    by (auto simp: find_None_iff entry_def demo_files_def)
  have c: "comp ''new'' = ''new''" by (simp add: comp_def slash_def)
  have "search 3 ''new'' demo_files = None" using no by (simp add: search_def dot_def)
  then have s: "dir_search 3 ''new'' demo_files = None" by (simp add: dir_search_comp [OF demo_names] c slash_def)
  have d: "fileino_isdir 3 demo_files" "fi_dino (inode 3 demo_files) = 3"
    by (simp_all add: fileino_defs inode_def demo_files_def FILE_INODES_def OPEN_MAX_def S_ISDIR_def S_IFMT_def S_IFDIR_def)
  have "walk_from 3 ''new'' S_IFREG demo_files = dir_create 3 ''new'' S_IFREG demo_files"
    by (simp add: walk_from.simps [of 3] d s)
  moreover have "fi_name (fs_fi demo_files 5) = []" by (simp add: demo_files_def)
  then have "\<exists>fs'. dir_create 3 ''new'' S_IFREG demo_files = Some (5, fs')"
    using free by (simp add: dir_create_def fileino_alloc_def S_IFREG_def slash_def NAME_MAX_def)
      (simp add: fileino_defs inode_def FILE_INODES_def OPEN_MAX_def)
  ultimately show ?thesis by (simp add: dir_walk_def slash_def FILEINO_ROOTDIR_def)
qed

theorem dir_walk_again_witness:
  "\<exists>fs'. dir_walk ''/new'' S_IFREG demo_files = Some (5, fs') \<and> dir_walk ''/new'' 0 fs' = Some (5, fs')"
  using demo_create dir_walk_again [OF demo_names, of "''/new''" S_IFREG 5] by auto

end
