(* ===== verification/Reconcile.thy ===== *)
theory Reconcile
  imports FileSys
begin

text \<open>
  Unix-like processes and the reconciliation of file systems (\<open>lib/fork.c\<close>). A forked child works on
  a copy of its parent's files. When they synchronise, \<open>reconcile\<close> pairs up their inodes and brings
  each pair up to date: appended data is merged, an exclusive change on one side is copied to the
  other, and changes on both sides are marked as a conflict.

  The child's tables are visible to the parent as a copy in its scratch area; the state \<open>recst\<close> has
  the two file states and the second part of the scratch area, where the child's file data is
  mapped. \<open>sys_get\<close> and \<open>sys_put\<close> with \<open>SYS_COPY\<close> copy a range with its permissions.
\<close>

definition PTSIZE :: nat where "PTSIZE = 0x200000"

record recst =
  r_p :: filestate
  r_c :: filestate
  r_scr :: "nat \<Rightarrow> u8"
  r_scrw :: "nat \<Rightarrow> bool"

definition copy_mem :: "nat \<Rightarrow> nat \<Rightarrow> nat \<Rightarrow> (nat \<Rightarrow> u8) \<Rightarrow> (nat \<Rightarrow> u8) \<Rightarrow> nat \<Rightarrow> u8" where
  "copy_mem a b n src dst = (\<lambda>x. if b \<le> x \<and> x < b + n then src (a + (x - b)) else dst x)"

definition copy_rw :: "nat \<Rightarrow> nat \<Rightarrow> nat \<Rightarrow> (nat \<Rightarrow> bool) \<Rightarrow> (nat \<Rightarrow> bool) \<Rightarrow> nat \<Rightarrow> bool" where
  "copy_rw a b n src dst = (\<lambda>pg. if b \<le> pg * PAGESIZE \<and> pg * PAGESIZE < b + n
     then src (a div PAGESIZE + (pg - b div PAGESIZE)) else dst pg)"

definition copy_file :: "int \<Rightarrow> int \<Rightarrow> filestate \<Rightarrow> filestate \<Rightarrow> filestate" where
  "copy_file from to src dst = dst\<lparr>
     fs_mem := copy_mem (FILEDATA from) (FILEDATA to) PTSIZE (fs_mem src) (fs_mem dst),
     fs_rw := copy_rw (FILEDATA from) (FILEDATA to) PTSIZE (fs_rw src) (fs_rw dst)\<rparr>"

definition upd_p :: "(filestate \<Rightarrow> filestate) \<Rightarrow> recst \<Rightarrow> recst" where "upd_p f st = st\<lparr>r_p := f (r_p st)\<rparr>"
definition upd_c :: "(filestate \<Rightarrow> filestate) \<Rightarrow> recst \<Rightarrow> recst" where "upd_c f st = st\<lparr>r_c := f (r_c st)\<rparr>"

text \<open>An \<open>int\<close> compared with a \<open>size_t\<close>.\<close>

definition as_size :: "int \<Rightarrow> nat" where "as_size x = nat (x mod 2 ^ 64)"

subsection \<open>Merging appended data\<close>

definition scr_read :: "nat \<Rightarrow> nat \<Rightarrow> recst \<Rightarrow> u8 list option" where
  "scr_read a n st = (if list_all (\<lambda>i. r_scrw st ((a + i) div PAGESIZE)) [0..<n]
     then Some (map (\<lambda>i. r_scr st (a + i)) [0..<n]) else None)"

definition scr_write :: "nat \<Rightarrow> u8 list \<Rightarrow> recst \<Rightarrow> recst option" where
  "scr_write a bs st = (if list_all (\<lambda>i. r_scrw st ((a + i) div PAGESIZE)) [0..<length bs]
     then Some (st\<lparr>r_scr := (\<lambda>x. if a \<le> x \<and> x < a + length bs then bs ! (x - a) else r_scr st x)\<rparr>) else None)"

text \<open>The data transfer of a merge: map the child's data, make both copies writable up to the new
  length, append to each what the other added, and put the child's data back.\<close>

definition merge_map :: "int \<Rightarrow> recst \<Rightarrow> recst" where
  "merge_map cino st = st\<lparr>
     r_scr := copy_mem (FILEDATA cino) 0 PTSIZE (fs_mem (r_c st)) (r_scr st),
     r_scrw := copy_rw (FILEDATA cino) 0 PTSIZE (fs_rw (r_c st)) (r_scrw st)\<rparr>"

definition merge_data :: "int \<Rightarrow> int \<Rightarrow> nat \<Rightarrow> nat \<Rightarrow> nat \<Rightarrow> recst \<Rightarrow> recst option" where
  "merge_data pino cino rlen pgrow cgrow st = do {
     let pagelen = ROUNDUP (rlen + pgrow + cgrow) PAGESIZE;
     let st1 = upd_p (sys_perm_range True (FILEDATA pino) pagelen) st;
     let st2 = st1\<lparr>r_scrw := (\<lambda>pg. if pg * PAGESIZE < pagelen then True else r_scrw st1 pg)\<rparr>;
     cs \<leftarrow> scr_read rlen cgrow st2;
     p3 \<leftarrow> user_write (FILEDATA pino + rlen + pgrow) cs (r_p st2);
     ps \<leftarrow> user_read (FILEDATA pino + rlen) pgrow p3;
     st4 \<leftarrow> scr_write (rlen + cgrow) ps (st2\<lparr>r_p := p3\<rparr>);
     Some st4
   }"

definition merge_unmap :: "int \<Rightarrow> recst \<Rightarrow> recst" where
  "merge_unmap cino st = upd_c (\<lambda>c. c\<lparr>
     fs_mem := copy_mem 0 (FILEDATA cino) PTSIZE (r_scr st) (fs_mem c),
     fs_rw := copy_rw 0 (FILEDATA cino) PTSIZE (r_scrw st) (fs_rw c)\<rparr>) st"

definition mark_conflict :: "int \<Rightarrow> int \<Rightarrow> recst \<Rightarrow> recst" where
  "mark_conflict pino cino st =
     upd_c (upd_fi cino (\<lambda>n. n\<lparr>fi_mode := fi_mode n OR S_IFCONF\<rparr>))
       (upd_p (upd_fi pino (\<lambda>n. n\<lparr>fi_mode := fi_mode n OR S_IFCONF\<rparr>)) st)"

definition reconcile_merge :: "int \<Rightarrow> int \<Rightarrow> recst \<Rightarrow> (bool \<times> recst) option" where
  "reconcile_merge pino cino st = do {
     let pfi = inode pino (r_p st);
     let cfi = inode cino (r_c st);
     cassert (0 < pino \<and> pino < int FILE_INODES);
     cassert (0 < cino \<and> cino < int FILE_INODES);
     cassert (fi_ver pfi = fi_ver cfi);
     cassert (fi_mode pfi = fi_mode cfi);
     (if \<not> S_ISREG (fi_mode pfi) then Some (False, st)
      else do {
        let rlen = wrap32 (int (fi_rlen cfi));
        let plen = wrap32 (int (fi_size pfi));
        let clen = wrap32 (int (fi_size cfi));
        let pgrow = wrap32 (plen - rlen);
        let cgrow = wrap32 (clen - rlen);
        cassert (0 \<le> pgrow \<and> pgrow \<le> int FILE_MAXSIZE);
        cassert (0 \<le> cgrow \<and> cgrow \<le> int FILE_MAXSIZE);
        (if pgrow = 0 \<and> cgrow = 0 then Some (False, st)
         else do {
           cassert (fi_size pfi \<le> FILE_MAXSIZE);
           cassert (fi_size cfi \<le> FILE_MAXSIZE);
           let st1 = merge_map cino st;
           let newlen = wrap32 (rlen + pgrow + cgrow);
           cassert (newlen = plen + cgrow \<and> newlen = clen + pgrow);
           (if int FILE_MAXSIZE < newlen then Some (True, mark_conflict pino cino st1)
            else do {
              st2 \<leftarrow> merge_data pino cino (nat rlen) (nat pgrow) (nat cgrow) st1;
              let st3 = upd_c (upd_fi cino (\<lambda>n. n\<lparr>fi_size := nat newlen, fi_rlen := nat newlen\<rparr>))
                          (upd_p (upd_fi pino (\<lambda>n. n\<lparr>fi_size := nat newlen\<rparr>)) st2);
              Some (True, merge_unmap cino st3)
            })
         })
      })
   }"

subsection \<open>Reconciling one pair of inodes\<close>

definition reconcile_inode :: "int \<Rightarrow> int \<Rightarrow> recst \<Rightarrow> (bool \<times> recst) option" where
  "reconcile_inode pino cino st = do {
     cassert (0 < pino \<and> pino < int FILE_INODES);
     cassert (0 < cino \<and> cino < int FILE_INODES);
     let pfi = inode pino (r_p st);
     let cfi = inode cino (r_c st);
     let rver = fi_rver cfi;
     let rlen = as_size (wrap32 (int (fi_rlen cfi)));
     cassert (rver \<le> fi_ver cfi);
     cassert (rver \<le> fi_ver pfi);
     cassert (fi_ver cfi = rver \<longrightarrow> rlen \<le> fi_size cfi);
     cassert (fi_ver pfi = rver \<longrightarrow> rlen \<le> fi_size pfi);
     (if fi_ver pfi = rver \<and> fi_ver cfi = rver then reconcile_merge pino cino st
      else do {
        cassert (fi_size pfi \<le> FILE_MAXSIZE);
        cassert (fi_size cfi \<le> FILE_MAXSIZE);
        let pnew = (rver < fi_ver pfi \<or> rlen < fi_size pfi);
        let cnew = (rver < fi_ver cfi \<or> rlen < fi_size cfi);
        (if pnew \<and> cnew
         then let v = max (fi_ver pfi) (fi_ver cfi) in
           Some (True, upd_c (upd_fi cino (\<lambda>n. n\<lparr>fi_ver := v, fi_rver := v\<rparr>))
                   (upd_p (upd_fi pino (\<lambda>n. n\<lparr>fi_ver := v\<rparr>)) (mark_conflict pino cino st)))
         else let st1 = (if pnew
             then upd_c (\<lambda>c. copy_file pino cino (r_p st)
                    (upd_fi cino (\<lambda>n. n\<lparr>fi_ver := fi_ver pfi, fi_mode := fi_mode pfi, fi_size := fi_size pfi\<rparr>) c)) st
             else upd_p (\<lambda>p. copy_file cino pino (r_c st)
                    (upd_fi pino (\<lambda>n. n\<lparr>fi_ver := fi_ver cfi, fi_mode := fi_mode cfi, fi_size := fi_size cfi\<rparr>) p)) st)
           in Some (True, upd_c (upd_fi cino (\<lambda>n. n\<lparr>fi_rver := fi_ver (inode pino (r_p st1)),
                fi_rlen := fi_size (inode pino (r_p st1))\<rparr>)) st1))
      })
   }"

subsection \<open>Reconciling two file systems\<close>

type_synonym imap = "nat \<Rightarrow> int"

text \<open>Recording a pair of inodes in the two tables.\<close>

definition pair_up :: "int \<Rightarrow> int \<Rightarrow> imap \<times> imap \<Rightarrow> imap \<times> imap" where
  "pair_up pino cino m = ((fst m)(nat pino := cino), (snd m)(nat cino := pino))"

definition create_in_parent :: "int \<Rightarrow> string \<Rightarrow> recst \<Rightarrow> (int \<times> recst) option" where
  "create_in_parent dino name st = do {
     (r, p, full) \<leftarrow> fileino_create dino name (r_p st);
     Some (r, st\<lparr>r_p := (if full then set_errno ENOSPC p else p)\<rparr>)
   }"

definition create_in_child :: "int \<Rightarrow> string \<Rightarrow> recst \<Rightarrow> (int \<times> recst) option" where
  "create_in_child dino name st = do {
     (r, c, full) \<leftarrow> fileino_create dino name (r_c st);
     Some (r, st\<lparr>r_c := c, r_p := (if full then set_errno ENOSPC (r_p st) else r_p st)\<rparr>)
   }"

text \<open>The validity of a child's mapping.\<close>

definition mapping_ok :: "int \<Rightarrow> nat \<Rightarrow> imap \<times> imap \<Rightarrow> recst \<Rightarrow> bool" where
  "mapping_ok pino cino m st \<longleftrightarrow>
     (let pfi = inode pino (r_p st); cfi = fs_fi (r_c st) cino in
      0 < pino \<and> pino < int FILE_INODES \<and> fst m (nat (fi_dino pfi)) = fi_dino cfi \<and>
      fi_name pfi = fi_name cfi \<and> fi_rver cfi \<le> fi_ver pfi \<and> fi_rver cfi \<le> fi_ver cfi)"

definition map_child :: "nat \<Rightarrow> imap \<times> imap \<Rightarrow> recst \<Rightarrow> ((imap \<times> imap) \<times> recst) option" where
  "map_child cino m st =
     (let cfi = fs_fi (r_c st) cino in
      if fi_name cfi = [] \<or> fi_mode cfi = 0 \<and> fi_rino cfi = 0 then Some (m, st)
      else if fi_rino cfi = 0 \<and>
        (fi_dino cfi \<le> 0 \<or> int FILE_INODES \<le> fi_dino cfi \<or> snd m (nat (fi_dino cfi)) = 0) then Some (m, st)
      else do {
        st1 \<leftarrow> (if fi_rino cfi = 0 then do {
                  (r, st1) \<leftarrow> create_in_parent (snd m (nat (fi_dino cfi))) (fi_name cfi) st;
                  Some (upd_c (upd_fi (int cino) (\<lambda>n. n\<lparr>fi_rino := r\<rparr>)) st1)
                } else Some st);
        let pino = fi_rino (fs_fi (r_c st1) cino);
        (if fi_rino cfi = 0 \<and> pino \<le> 0 then Some (m, st1)
         else if mapping_ok pino cino m st1 then Some (pair_up pino (int cino) m, st1)
         else Some (m, st1))
      })"

definition map_parent :: "nat \<Rightarrow> imap \<times> imap \<Rightarrow> recst \<Rightarrow> ((imap \<times> imap) \<times> recst) option" where
  "map_parent pino m st =
     (let pfi = fs_fi (r_p st) pino in
      if fi_name pfi = [] \<or> fi_mode pfi = 0 \<or> fst m pino \<noteq> 0 then Some (m, st)
      else do {
        (cino, st1) \<leftarrow> create_in_child (fst m (nat (fi_dino pfi))) (fi_name pfi) st;
        (if cino \<le> 0 then Some (m, st1)
         else Some (pair_up (int pino) cino m, upd_c (upd_fi cino (\<lambda>n. n\<lparr>fi_rino := int pino\<rparr>)) st1))
      })"

fun map_all :: "(nat \<Rightarrow> imap \<times> imap \<Rightarrow> recst \<Rightarrow> ((imap \<times> imap) \<times> recst) option) \<Rightarrow> nat list \<Rightarrow>
    imap \<times> imap \<Rightarrow> recst \<Rightarrow> ((imap \<times> imap) \<times> recst) option" where
  "map_all f [] m st = Some (m, st)"
| "map_all f (i # is) m st = do { (m1, st1) \<leftarrow> f i m st; map_all f is m1 st1 }"

fun reconcile_all :: "nat list \<Rightarrow> imap \<times> imap \<Rightarrow> recst \<Rightarrow> (bool \<times> recst) option" where
  "reconcile_all [] m st = Some (False, st)"
| "reconcile_all (pino # is) m st =
     (if fst m pino = 0 then reconcile_all is m st
      else do {
        let cino = fst m pino;
        cassert (snd m (nat cino) = int pino);
        (b, st1) \<leftarrow> reconcile_inode (int pino) cino st;
        (b', st2) \<leftarrow> reconcile_all is m st1;
        Some (b \<or> b', st2)
      })"

definition initial_map :: imap where
  "initial_map = (\<lambda>_. 0)(FILEINO_CONSIN := int FILEINO_CONSIN, FILEINO_CONSOUT := int FILEINO_CONSOUT,
     FILEINO_ROOTDIR := int FILEINO_ROOTDIR)"

definition reconcile :: "recst \<Rightarrow> (bool \<times> recst) option" where
  "reconcile st = do {
     (m1, st1) \<leftarrow> map_all map_child [1..<FILE_INODES] (initial_map, initial_map) st;
     (m2, st2) \<leftarrow> map_all map_parent [1..<FILE_INODES] m1 st1;
     reconcile_all [1..<FILE_INODES] m2 st2
   }"

subsection \<open>Forking and waiting\<close>

definition UPROC_FREE :: int where "UPROC_FREE = 0"
definition UPROC_RESERVED :: int where "UPROC_RESERVED = - 1"
definition UPROC_FORKED :: int where "UPROC_FORKED = 1"

text \<open>What the child does to its copy of the files: it has no children, and its files are as its
  parent's, whatever its parent's own reference information was.\<close>

definition fork_child :: "int \<Rightarrow> filestate \<Rightarrow> filestate" where
  "fork_child pid fs = fs\<lparr>fs_thself := pid, fs_child := (\<lambda>_. 0)(0 := UPROC_RESERVED),
     fs_fi := (\<lambda>i. if i < FILE_INODES \<and> fileino_alloced (int i) fs
       then (fs_fi fs i)\<lparr>fi_rino := int i, fi_rver := fi_ver (fs_fi fs i), fi_rlen := fi_size (fs_fi fs i)\<rparr>
       else fs_fi fs i)\<rparr>"

text \<open>The result is the process identifier, the parent's state and, if there is one, the child's.\<close>

definition fork :: "filestate \<Rightarrow> int \<times> filestate \<times> filestate option" where
  "fork fs =
     (case List.find (\<lambda>pid. fs_child fs pid = UPROC_FREE) [1..<256] of
        None \<Rightarrow> (- 1, set_errno EAGAIN fs, None)
      | Some pid \<Rightarrow> (int pid, fs\<lparr>fs_child := (fs_child fs)(pid := UPROC_FORKED)\<rparr>, Some (fork_child (int pid) fs)))"

definition waitpid_pick :: "int \<Rightarrow> filestate \<Rightarrow> nat option" where
  "waitpid_pick pid fs =
     (let p = (if pid \<le> 0
        then (case List.find (\<lambda>i. fs_child fs i = UPROC_FORKED) [1..<256] of None \<Rightarrow> 256 | Some i \<Rightarrow> i)
        else nat pid)
      in if p = 256 \<or> fs_child fs p \<noteq> UPROC_FORKED then None else Some p)"

definition WEXITED :: int where "WEXITED = 0x100"
definition WSIGNALED :: int where "WSIGNALED = 0x200"

text \<open>What \<open>exit\<close> leaves in the files before it returns to the parent for good.\<close>

definition exit_files :: "int \<Rightarrow> filestate \<Rightarrow> filestate" where
  "exit_files status fs = fs\<lparr>fs_status := status, fs_exited := True\<rparr>"

text \<open>One round of \<open>waitpid\<close> after the child stopped with trap \<open>trapno\<close>: either the child is done, with
  its status, or it has been resumed with reconciled files. \<open>sleep\<close> is what our own parent does to our
  files when there is nothing new and we wait for it in \<open>sys_ret\<close>.\<close>

datatype waitres = WaitDone int | WaitAgain

text \<open>When the child is done its whole address space is cleared and its slot is free again.\<close>

definition no_files :: filestate where
  "no_files = \<lparr>fs_err = 0, fs_cwd = 0, fs_exited = False, fs_status = 0,
     fs_fd = (\<lambda>_. \<lparr>fd_ino = 0, fd_flags = 0, fd_ofs = 0, fd_err = 0\<rparr>),
     fs_fi = (\<lambda>_. \<lparr>fi_dino = 0, fi_name = [], fi_ver = 0, fi_mode = 0, fi_size = 0, fi_rino = 0, fi_rver = 0, fi_rlen = 0\<rparr>),
     fs_child = (\<lambda>_. 0), fs_thself = 0, fs_mem = (\<lambda>_. 0), fs_rw = (\<lambda>_. False)\<rparr>"

definition wait_done :: "nat \<Rightarrow> recst \<Rightarrow> recst" where
  "wait_done pid st = upd_p (\<lambda>p. p\<lparr>fs_child := (fs_child p)(pid := UPROC_FREE)\<rparr>) (st\<lparr>r_c := no_files\<rparr>)"

definition waitpid_round :: "(filestate \<Rightarrow> filestate) \<Rightarrow> nat \<Rightarrow> int \<Rightarrow> recst \<Rightarrow> (waitres \<times> recst) option" where
  "waitpid_round sleep pid trapno st =
     (if trapno \<noteq> 48 then Some (WaitDone (WSIGNALED OR trapno), wait_done pid st)
      else do {
        (didio, st1) \<leftarrow> reconcile st;
        (if fs_exited (r_c st1)
         then Some (WaitDone (WEXITED OR (fs_status (r_c st1) AND 0xff)), wait_done pid st1)
         else do {
           let st2 = (if \<not> didio then upd_p sleep st1 else st1);
           (_, st3) \<leftarrow> reconcile st2;
           Some (WaitAgain, st3)
         })
      })"

text \<open>The whole of \<open>waitpid\<close>. An element of \<open>runs\<close> is one run of the child: what it did to its files until it
  stopped, with which trap, and what our parent would do to ours meanwhile. The result is the process
  identifier and status (\<open>Inr\<close>), or \<open>Inl\<close> when the child is still running after the given runs.\<close>

record child_run =
  run_files :: "filestate \<Rightarrow> filestate"
  run_trap :: int
  run_sleep :: "filestate \<Rightarrow> filestate"

fun wait_loop :: "child_run list \<Rightarrow> nat \<Rightarrow> recst \<Rightarrow> (recst + (int \<times> int) \<times> recst) option" where
  "wait_loop [] pid st = Some (Inl st)"
| "wait_loop (r # rs) pid st = do {
     (res, st1) \<leftarrow> waitpid_round (run_sleep r) pid (run_trap r) (upd_c (run_files r) st);
     (case res of WaitDone status \<Rightarrow> Some (Inr ((int pid, status), st1)) | WaitAgain \<Rightarrow> wait_loop rs pid st1)
   }"

definition waitpid :: "child_run list \<Rightarrow> int \<Rightarrow> recst \<Rightarrow> (recst + (int \<times> int) \<times> recst) option" where
  "waitpid runs pid st = do {
     cassert (- 1 \<le> pid \<and> pid < 256);
     (case waitpid_pick pid (r_p st) of
        None \<Rightarrow> Some (Inr ((- 1, 0), upd_p (set_errno ECHILD) st))
      | Some p \<Rightarrow> wait_loop runs p st)
   }"

end
