(* ===== verification/RecProps.thy ===== *)
theory RecProps
  imports FileProps Reconcile
begin

text \<open>
  Properties of the reconciliation of a parent's and a child's files.
\<close>

subsection \<open>The data transfer of a merge\<close>

lemma scr_read_eq:
  assumes "\<And>i. i < n \<Longrightarrow> r_scrw st ((a + i) div PAGESIZE)"
  shows "scr_read a n st = Some (map (\<lambda>i. r_scr st (a + i)) [0..<n])"
  using assms by (simp add: scr_read_def list_all_iff)

lemma scr_write_eq:
  assumes "\<And>i. i < length bs \<Longrightarrow> r_scrw st ((a + i) div PAGESIZE)"
  shows "scr_write a bs st =
    Some (st\<lparr>r_scr := (\<lambda>x. if a \<le> x \<and> x < a + length bs then bs ! (x - a) else r_scr st x)\<rparr>)"
  using assms by (simp add: scr_write_def list_all_iff)

lemma page_below: "x < lim \<Longrightarrow> x div PAGESIZE * PAGESIZE < lim"
  using div_times_less_eq_dividend [of x PAGESIZE] by linarith

text \<open>Parent and child copies are made accessible to the new length, and each gets what the other has
  beyond the reference length appended.\<close>

lemma merge_data_eq:
  assumes lim: "rlen + pgrow + cgrow \<le> FILE_MAXSIZE"
  defines "R \<equiv> ROUNDUP (rlen + pgrow + cgrow) PAGESIZE"
  obtains st' where "merge_data pino cino rlen pgrow cgrow st = Some st'" "r_c st' = r_c st"
    "fs_fi (r_p st') = fs_fi (r_p st)" "fs_fd (r_p st') = fs_fd (r_p st)"
    "fs_rw (r_p st') = fs_rw (sys_perm_range True (FILEDATA pino) R (r_p st))"
    "r_scrw st' = (\<lambda>pg. pg * PAGESIZE < R \<or> r_scrw st pg)"
    "\<And>x. fs_mem (r_p st') x = (if FILEDATA pino + (rlen + pgrow) \<le> x \<and> x < FILEDATA pino + (rlen + pgrow) + cgrow
       then r_scr st (rlen + (x - (FILEDATA pino + (rlen + pgrow)))) else fs_mem (r_p st) x)"
    "\<And>x. r_scr st' x = (if rlen + cgrow \<le> x \<and> x < rlen + pgrow + cgrow
       then fs_mem (r_p st) (FILEDATA pino + (rlen + (x - (rlen + cgrow)))) else r_scr st x)"
proof -
  let ?new = "rlen + pgrow + cgrow"
  let ?p2 = "sys_perm_range True (FILEDATA pino) R (r_p st)"
  let ?st2 = "st\<lparr>r_p := ?p2, r_scrw := (\<lambda>pg. if pg * PAGESIZE < R then True else r_scrw st pg)\<rparr>"
  let ?cs = "map (\<lambda>i. r_scr st (rlen + i)) [0..<cgrow]"
  let ?p3 = "?p2\<lparr>fs_mem := (\<lambda>x. if FILEDATA pino + rlen + pgrow \<le> x \<and> x < FILEDATA pino + rlen + pgrow + length ?cs
      then ?cs ! (x - (FILEDATA pino + rlen + pgrow)) else fs_mem (r_p st) x)\<rparr>"
  let ?ps = "map (\<lambda>i. fs_mem (r_p st) (FILEDATA pino + rlen + i)) [0..<pgrow]"
  have new: "?new \<le> R" unfolding R_def by (rule ROUNDUP_ge [OF PAGESIZE_gt0])
  have acc: "fs_rw ?p2 ((FILEDATA pino + x) div PAGESIZE)" if "x < ?new" for x
    using that new by (intro perm_range_access FILEDATA_page) auto
  have sacc: "x div PAGESIZE * PAGESIZE < R" if "x < ?new" for x
    using that new page_below [of x R] by simp
  have s2: "(upd_p (sys_perm_range True (FILEDATA pino) R) st)
      \<lparr>r_scrw := (\<lambda>pg. if pg * PAGESIZE < R then True else r_scrw (upd_p (sys_perm_range True (FILEDATA pino) R) st) pg)\<rparr> = ?st2"
    by (simp add: upd_p_def)
  have 1: "scr_read rlen cgrow ?st2 = Some ?cs"
    using sacc by (subst scr_read_eq) auto
  have 2: "user_write (FILEDATA pino + rlen + pgrow) ?cs ?p2 = Some ?p3"
    using acc [of "rlen + pgrow + _"] by (simp add: user_write_def user_ok_iff add.assoc cong: if_cong)
  have 3: "user_read (FILEDATA pino + rlen) pgrow ?p3 = Some ?ps"
    using acc [of "rlen + _"] by (simp add: user_read_def user_ok_iff add.assoc)
  have 4: "scr_write (rlen + cgrow) ?ps (?st2\<lparr>r_p := ?p3\<rparr>) =
      Some (?st2\<lparr>r_p := ?p3, r_scr := (\<lambda>x. if rlen + cgrow \<le> x \<and> x < rlen + cgrow + length ?ps
        then ?ps ! (x - (rlen + cgrow)) else r_scr st x)\<rparr>)"
    using sacc by (subst scr_write_eq) (auto simp: add.commute add.left_commute cong: if_cong)
  have "merge_data pino cino rlen pgrow cgrow st = Some (?st2\<lparr>r_p := ?p3, r_scr := (\<lambda>x. if rlen + cgrow \<le> x \<and>
      x < rlen + cgrow + length ?ps then ?ps ! (x - (rlen + cgrow)) else r_scr st x)\<rparr>)"
    unfolding merge_data_def Let_def R_def [symmetric] s2 using 1 2 3 4 by simp
  then show ?thesis by (rule that) (auto simp: add_ac)
qed

lemma PTSIZE_le: "PTSIZE \<le> FILE_MAXSIZE"
  by (simp add: PTSIZE_def FILE_MAXSIZE_def)

lemma ROUNDUP_PTSIZE: "n \<le> PTSIZE \<Longrightarrow> ROUNDUP n PAGESIZE \<le> PTSIZE"
  using ROUNDUP_mono [of n PTSIZE PAGESIZE] by (simp add: PTSIZE_def PAGESIZE_def ROUNDUP_def ROUNDDOWN_def)

text \<open>A page of file data and the page at the same place in the scratch area.\<close>

lemma FILEDATA_div: "(FILEDATA ino + i) div PAGESIZE = FILEDATA ino div PAGESIZE + i div PAGESIZE"
  using FILEDATA_page [of ino] by (rule div_plus_div_distrib_dvd_left)

lemma FILEDATA_div_times: "FILEDATA ino div PAGESIZE * PAGESIZE = FILEDATA ino"
  using FILEDATA_page [of ino] by simp

text \<open>Putting the scratch copy back into the child.\<close>

lemma merge_unmap_sel:
  "r_p (merge_unmap cino st) = r_p st" "fs_fi (r_c (merge_unmap cino st)) = fs_fi (r_c st)"
  "fs_fd (r_c (merge_unmap cino st)) = fs_fd (r_c st)" "fs_exited (r_c (merge_unmap cino st)) = fs_exited (r_c st)"
  "fs_status (r_c (merge_unmap cino st)) = fs_status (r_c st)"
  "i < PTSIZE \<Longrightarrow> fs_mem (r_c (merge_unmap cino st)) (FILEDATA cino + i) = r_scr st i"
  "i < PTSIZE \<Longrightarrow> fs_rw (r_c (merge_unmap cino st)) ((FILEDATA cino + i) div PAGESIZE) = r_scrw st (i div PAGESIZE)"
proof -
  assume i: "i < PTSIZE"
  have "(FILEDATA cino div PAGESIZE + i div PAGESIZE) * PAGESIZE < FILEDATA cino + PTSIZE"
    using page_below [OF i] by (simp add: add_mult_distrib FILEDATA_div_times)
  then show "fs_rw (r_c (merge_unmap cino st)) ((FILEDATA cino + i) div PAGESIZE) = r_scrw st (i div PAGESIZE)"
    by (simp add: merge_unmap_def upd_c_def copy_rw_def FILEDATA_div add_mult_distrib FILEDATA_div_times)
qed (simp_all add: merge_unmap_def upd_c_def copy_mem_def)

lemma copy_rw_other:
  assumes "nat j \<noteq> nat ino" and "i < FILE_MAXSIZE" and "n \<le> FILE_MAXSIZE"
  shows "copy_rw a (FILEDATA ino) n src dst ((FILEDATA j + i) div PAGESIZE) = dst ((FILEDATA j + i) div PAGESIZE)"
proof -
  have "(FILEDATA j + i) div PAGESIZE * PAGESIZE = FILEDATA j + (i div PAGESIZE * PAGESIZE)"
    by (simp add: FILEDATA_div add_mult_distrib FILEDATA_div_times)
  then show ?thesis
    using FILEDATA_outside [OF assms(1) page_below [OF assms(2)], of 0 n] assms(3) by (auto simp: copy_rw_def)
qed

lemma copy_mem_other:
  assumes "nat j \<noteq> nat ino" and "i < FILE_MAXSIZE" and "n \<le> FILE_MAXSIZE"
  shows "copy_mem a (FILEDATA ino) n src dst (FILEDATA j + i) = dst (FILEDATA j + i)"
  using FILEDATA_outside [OF assms(1,2), of 0 n] assms(3) by (auto simp: copy_mem_def)

lemma merge_unmap_other:
  assumes "nat j \<noteq> nat cino" and "i < FILE_MAXSIZE"
  shows "fs_mem (r_c (merge_unmap cino st)) (FILEDATA j + i) = fs_mem (r_c st) (FILEDATA j + i)"
    "fs_rw (r_c (merge_unmap cino st)) ((FILEDATA j + i) div PAGESIZE) = fs_rw (r_c st) ((FILEDATA j + i) div PAGESIZE)"
  using copy_rw_other [OF assms PTSIZE_le] copy_mem_other [OF assms PTSIZE_le]
  by (simp_all add: merge_unmap_def upd_c_def)

lemma merge_map_sel:
  "r_p (merge_map cino st) = r_p st" "r_c (merge_map cino st) = r_c st"
  "i < PTSIZE \<Longrightarrow> r_scr (merge_map cino st) i = fs_mem (r_c st) (FILEDATA cino + i)"
  by (simp_all add: merge_map_def copy_mem_def)

lemma file_okI:
  assumes "fileino_isreg ino fs" and "fi_size (inode ino fs) \<le> FILE_MAXSIZE"
    and "\<And>i. i < ROUNDUP (fi_size (inode ino fs)) PAGESIZE \<Longrightarrow> fs_rw fs ((FILEDATA ino + i) div PAGESIZE)"
  shows "file_ok ino fs"
  using assms by (simp add: file_ok_def)

text \<open>A merge that takes place: both files get the other's appended part.\<close>

definition grown_to :: "nat \<Rightarrow> int \<Rightarrow> int \<Rightarrow> recst \<Rightarrow> recst" where
  "grown_to n pino cino st = upd_c (upd_fi cino (\<lambda>x. x\<lparr>fi_size := n, fi_rlen := n\<rparr>))
     (upd_p (upd_fi pino (\<lambda>x. x\<lparr>fi_size := n\<rparr>)) st)"

lemma merge_transfer:
  assumes okp: "file_ok pino (r_p st)" and okc: "file_ok cino (r_c st)"
    and len: "rlen + pgrow = fi_size (inode pino (r_p st))" "rlen + cgrow = fi_size (inode cino (r_c st))"
    and lim: "rlen + pgrow + cgrow \<le> PTSIZE"
  obtains st2 st' where "merge_data pino cino rlen pgrow cgrow (merge_map cino st) = Some st2"
    "st' = merge_unmap cino (grown_to (rlen + pgrow + cgrow) pino cino st2)"
    "file_ok pino (r_p st')" "file_ok cino (r_c st')"
    "file_content pino (r_p st') = file_content pino (r_p st) @ drop rlen (file_content cino (r_c st))"
    "file_content cino (r_c st') = file_content cino (r_c st) @ drop rlen (file_content pino (r_p st))"
    "inode pino (r_p st') = (inode pino (r_p st))\<lparr>fi_size := rlen + pgrow + cgrow\<rparr>"
    "inode cino (r_c st') = (inode cino (r_c st))\<lparr>fi_size := rlen + pgrow + cgrow, fi_rlen := rlen + pgrow + cgrow\<rparr>"
    "other_files_same pino (r_p st) (r_p st')" "other_files_same cino (r_c st) (r_c st')"
    "fs_exited (r_c st') = fs_exited (r_c st)" "fs_status (r_c st') = fs_status (r_c st)"
proof -
  let ?n = "rlen + pgrow + cgrow" and ?R = "ROUNDUP (rlen + pgrow + cgrow) PAGESIZE"
  have lim': "?n \<le> FILE_MAXSIZE" using lim PTSIZE_le by linarith
  have R: "?R \<le> PTSIZE" "?R \<le> FILE_MAXSIZE" using ROUNDUP_PTSIZE [OF lim] PTSIZE_le by simp_all
  obtain st2 where m: "merge_data pino cino rlen pgrow cgrow (merge_map cino st) = Some st2" "r_c st2 = r_c st"
    "fs_fi (r_p st2) = fs_fi (r_p st)"
    "fs_rw (r_p st2) = fs_rw (sys_perm_range True (FILEDATA pino) ?R (r_p st))"
    "r_scrw st2 = (\<lambda>pg. pg * PAGESIZE < ?R \<or> r_scrw (merge_map cino st) pg)"
    and pm: "\<And>x. fs_mem (r_p st2) x = (if FILEDATA pino + (rlen + pgrow) \<le> x \<and> x < FILEDATA pino + (rlen + pgrow) + cgrow
       then r_scr (merge_map cino st) (rlen + (x - (FILEDATA pino + (rlen + pgrow)))) else fs_mem (r_p st) x)"
    and sm: "\<And>x. r_scr st2 x = (if rlen + cgrow \<le> x \<and> x < ?n
       then fs_mem (r_p st) (FILEDATA pino + (rlen + (x - (rlen + cgrow)))) else r_scr (merge_map cino st) x)"
    by (rule merge_data_eq [OF lim', of pino cino "merge_map cino st"]) (auto simp: merge_map_sel)
  define st' where "st' = merge_unmap cino (grown_to ?n pino cino st2)"
  have p': "r_p st' = upd_fi pino (\<lambda>x. x\<lparr>fi_size := ?n\<rparr>) (r_p st2)"
    by (simp add: st'_def merge_unmap_sel grown_to_def upd_p_def upd_c_def)
  have c': "inode j (r_c st') = inode j (upd_fi cino (\<lambda>x. x\<lparr>fi_size := ?n, fi_rlen := ?n\<rparr>) (r_c st))" for j
    by (simp add: st'_def merge_unmap_sel grown_to_def upd_p_def upd_c_def inode_def m(2))
  have scr: "r_scr (grown_to ?n pino cino st2) = r_scr st2" "r_scrw (grown_to ?n pino cino st2) = r_scrw st2"
    "fs_mem (r_c (grown_to ?n pino cino st2)) = fs_mem (r_c st)" "fs_rw (r_c (grown_to ?n pino cino st2)) = fs_rw (r_c st)"
    by (simp_all add: grown_to_def upd_p_def upd_c_def m(2))
  have cm: "fs_mem (r_c st') (FILEDATA cino + i) = r_scr st2 i"
    "fs_rw (r_c st') ((FILEDATA cino + i) div PAGESIZE) = r_scrw st2 (i div PAGESIZE)" if "i < PTSIZE" for i
    using that by (simp_all add: st'_def merge_unmap_sel scr)
  have ip: "inode pino (r_p st') = (inode pino (r_p st))\<lparr>fi_size := ?n\<rparr>"
    unfolding p' by (simp add: inode_def m(3) upd_fi_def)
  have ic: "inode cino (r_c st') = (inode cino (r_c st))\<lparr>fi_size := ?n, fi_rlen := ?n\<rparr>" by (simp add: c')
  have "file_ok pino (r_p st')"
  proof (rule file_okI)
    fix i assume "i < ROUNDUP (fi_size (inode pino (r_p st'))) PAGESIZE"
    then show "fs_rw (r_p st') ((FILEDATA pino + i) div PAGESIZE)"
      using perm_range_access [OF FILEDATA_page, of pino "FILEDATA pino + i" ?R "r_p st"] by (simp add: ip p' m(4))
  qed (use okp lim' in \<open>simp_all add: ip file_ok_def fileino_defs\<close>)
  moreover have "file_ok cino (r_c st')"
  proof (rule file_okI)
    fix i assume "i < ROUNDUP (fi_size (inode cino (r_c st'))) PAGESIZE"
    then have "i < ?R" by (simp add: ic)
    then show "fs_rw (r_c st') ((FILEDATA cino + i) div PAGESIZE)"
      using R page_below [of i ?R] by (simp add: cm m(5))
  qed (use okc lim' in \<open>simp_all add: ic file_ok_def fileino_defs\<close>)
  moreover have "file_content pino (r_p st') = file_content pino (r_p st) @ drop rlen (file_content cino (r_c st))"
  proof (rule nth_equalityI)
    fix i assume "i < length (file_content pino (r_p st'))"
    then show "file_content pino (r_p st') ! i = (file_content pino (r_p st) @ drop rlen (file_content cino (r_c st))) ! i"
      using lim len by (auto simp: file_content_def ip nth_append p' pm merge_map_sel)
  qed (use len in \<open>simp add: ip\<close>)
  moreover have "file_content cino (r_c st') = file_content cino (r_c st) @ drop rlen (file_content pino (r_p st))"
  proof (rule nth_equalityI)
    fix i assume "i < length (file_content cino (r_c st'))"
    then show "file_content cino (r_c st') ! i = (file_content cino (r_c st) @ drop rlen (file_content pino (r_p st))) ! i"
      using lim len by (auto simp: file_content_def ic nth_append cm sm merge_map_sel)
  qed (use len in \<open>simp add: ic\<close>)
  moreover have "other_files_same pino (r_p st) (r_p st')"
  proof (rule other_files_sameI [OF okp])
    fix j assume nj: "nat j \<noteq> nat pino"
    show "inode j (r_p st') = inode j (r_p st)" using nj by (simp add: p') (simp add: inode_def m(3))
    fix i assume i: "i < FILE_MAXSIZE"
    show "fs_mem (r_p st') (FILEDATA j + i) = fs_mem (r_p st) (FILEDATA j + i)"
      using FILEDATA_outside [OF nj i, of "rlen + pgrow" cgrow] lim' by (auto simp: p' pm)
  qed (simp add: p' m(4) perm_range_keeps)
  moreover have "other_files_same cino (r_c st) (r_c st')"
    by (rule other_files_sameI [OF okc]) (simp_all add: c', simp_all add: st'_def merge_unmap_other scr)
  moreover have "fs_exited (r_c st') = fs_exited (r_c st)" "fs_status (r_c st') = fs_status (r_c st)"
    by (simp_all add: st'_def merge_unmap_sel grown_to_def upd_p_def upd_c_def m(2))
  ultimately show ?thesis using that [OF m(1) st'_def] ip ic by blast
qed

lemma wrap32_size [simp]: "n \<le> FILE_MAXSIZE \<Longrightarrow> wrap32 (int n) = int n"
  by (simp add: FILE_MAXSIZE_def)

lemma as_size_nat [simp]: "n \<le> FILE_MAXSIZE \<Longrightarrow> as_size (int n) = n"
  by (simp add: as_size_def FILE_MAXSIZE_def)

lemma wrap32_diff [simp]: "m \<le> n \<Longrightarrow> n \<le> FILE_MAXSIZE \<Longrightarrow> wrap32 (int n - int m) = int (n - m)"
  by (simp add: FILE_MAXSIZE_def)

subsection \<open>Reconciling one pair of inodes\<close>

text \<open>The files of parent and child have a common reference: the version and the length at which they
  were last reconciled.\<close>

definition paired :: "int \<Rightarrow> int \<Rightarrow> recst \<Rightarrow> bool" where
  "paired pino cino st \<longleftrightarrow> file_ok pino (r_p st) \<and> file_ok cino (r_c st) \<and>
     fi_rlen (inode cino (r_c st)) \<le> FILE_MAXSIZE"

lemma paired_range: "paired pino cino st \<Longrightarrow> 0 < pino \<and> pino < int FILE_INODES \<and> 0 < cino \<and> cino < int FILE_INODES"
  by (simp add: paired_def file_ok_def fileino_defs)

text \<open>Nothing changed: nothing is done.\<close>

definition in_sync :: "int \<Rightarrow> int \<Rightarrow> recst \<Rightarrow> bool" where
  "in_sync pino cino st \<longleftrightarrow>
     (let p = inode pino (r_p st); c = inode cino (r_c st) in
      fi_ver p = fi_rver c \<and> fi_ver c = fi_rver c \<and> fi_mode p = fi_mode c \<and>
      fi_size p = fi_rlen c \<and> fi_size c = fi_rlen c)"

lemma reconcile_inode_in_sync:
  assumes "0 < pino" "pino < int FILE_INODES" "0 < cino" "cino < int FILE_INODES"
    and "fi_size (inode pino (r_p st)) \<le> FILE_MAXSIZE" and "in_sync pino cino st"
  shows "reconcile_inode pino cino st = Some (False, st)"
  using assms by (auto simp: in_sync_def Let_def reconcile_inode_def reconcile_merge_def)

text \<open>Appends on either side, or both.\<close>

lemma reconcile_inode_merge:
  assumes ok: "paired pino cino st"
    and ver: "fi_ver (inode pino (r_p st)) = fi_rver (inode cino (r_c st))"
      "fi_ver (inode cino (r_c st)) = fi_rver (inode cino (r_c st))"
      "fi_mode (inode pino (r_p st)) = fi_mode (inode cino (r_c st))"
    and len: "rlen = fi_rlen (inode cino (r_c st))" "rlen + pgrow = fi_size (inode pino (r_p st))"
      "rlen + cgrow = fi_size (inode cino (r_c st))" "0 < pgrow + cgrow" "rlen + pgrow + cgrow \<le> PTSIZE"
  shows "\<exists>st'. reconcile_inode pino cino st = Some (True, st') \<and> paired pino cino st' \<and> in_sync pino cino st' \<and>
    file_content pino (r_p st') = file_content pino (r_p st) @ drop rlen (file_content cino (r_c st)) \<and>
    file_content cino (r_c st') = file_content cino (r_c st) @ drop rlen (file_content pino (r_p st)) \<and>
    other_files_same pino (r_p st) (r_p st') \<and> other_files_same cino (r_c st) (r_c st') \<and>
    fs_exited (r_c st') = fs_exited (r_c st) \<and> fs_status (r_c st') = fs_status (r_c st)"
proof -
  let ?n = "rlen + pgrow + cgrow"
  have okp: "file_ok pino (r_p st)" and okc: "file_ok cino (r_c st)" using ok by (simp_all add: paired_def)
  have b: "?n \<le> FILE_MAXSIZE" "rlen \<le> FILE_MAXSIZE" using len PTSIZE_le by linarith+
  then have small: "int ?n < 2 ^ 31" by (simp add: FILE_MAXSIZE_def)
  have sz: "fi_size (inode pino (r_p st)) \<le> FILE_MAXSIZE" "fi_size (inode cino (r_c st)) \<le> FILE_MAXSIZE"
    "S_ISREG (fi_mode (inode cino (r_c st)))"
    using okp okc by (simp_all add: file_ok_def fileino_defs)
  obtain st2 st' where t: "merge_data pino cino rlen pgrow cgrow (merge_map cino st) = Some st2"
    "st' = merge_unmap cino (grown_to ?n pino cino st2)" "file_ok pino (r_p st')" "file_ok cino (r_c st')"
    "file_content pino (r_p st') = file_content pino (r_p st) @ drop rlen (file_content cino (r_c st))"
    "file_content cino (r_c st') = file_content cino (r_c st) @ drop rlen (file_content pino (r_p st))"
    "inode pino (r_p st') = (inode pino (r_p st))\<lparr>fi_size := ?n\<rparr>"
    "inode cino (r_c st') = (inode cino (r_c st))\<lparr>fi_size := ?n, fi_rlen := ?n\<rparr>"
    "other_files_same pino (r_p st) (r_p st')" "other_files_same cino (r_c st) (r_c st')"
    "fs_exited (r_c st') = fs_exited (r_c st)" "fs_status (r_c st') = fs_status (r_c st)"
    using merge_transfer [OF okp okc len(2,3,5)] by blast
  have l: "fi_rlen (inode cino (r_c st)) = rlen" "fi_size (inode pino (r_p st)) = rlen + pgrow"
    "fi_size (inode cino (r_c st)) = rlen + cgrow" using len(1-3) by simp_all
  have "reconcile_inode pino cino st = Some (True, st')"
    using paired_range [OF ok] ver sz b small len(4) t(1)
    by (simp add: reconcile_inode_def reconcile_merge_def Let_def l t(2) grown_to_def nat_add_distrib)
  moreover have "paired pino cino st'" using t b by (simp add: paired_def)
  moreover have "in_sync pino cino st'" using t(7,8) ver by (simp add: in_sync_def)
  ultimately show ?thesis using t by blast
qed

text \<open>Copying a file from one process to the other: all of it if it fits into \<open>PTSIZE\<close>; above that the
  receiver's memory is as before.\<close>

lemma copy_file_sel:
  "fs_fi (copy_file i j src dst) = fs_fi dst" "fs_fd (copy_file i j src dst) = fs_fd dst"
  "x < PTSIZE \<Longrightarrow> fs_mem (copy_file i j src dst) (FILEDATA j + x) = fs_mem src (FILEDATA i + x)"
  "PTSIZE \<le> x \<Longrightarrow> fs_mem (copy_file i j src dst) (FILEDATA j + x) = fs_mem dst (FILEDATA j + x)"
  "x < PTSIZE \<Longrightarrow> fs_rw (copy_file i j src dst) ((FILEDATA j + x) div PAGESIZE) = fs_rw src ((FILEDATA i + x) div PAGESIZE)"
proof -
  assume x: "x < PTSIZE"
  have "(FILEDATA j div PAGESIZE + x div PAGESIZE) * PAGESIZE < FILEDATA j + PTSIZE"
    using page_below [OF x] by (simp add: add_mult_distrib FILEDATA_div_times)
  then show "fs_rw (copy_file i j src dst) ((FILEDATA j + x) div PAGESIZE) = fs_rw src ((FILEDATA i + x) div PAGESIZE)"
    by (simp add: copy_file_def copy_rw_def FILEDATA_div add_mult_distrib FILEDATA_div_times)
qed (simp_all add: copy_file_def copy_mem_def)

text \<open>The receiving file after its inode was updated from the sender's.\<close>

definition received :: "int \<Rightarrow> int \<Rightarrow> filestate \<Rightarrow> filestate \<Rightarrow> filestate" where
  "received i j src dst = copy_file i j src
     (upd_fi j (\<lambda>n. n\<lparr>fi_ver := fi_ver (inode i src), fi_mode := fi_mode (inode i src), fi_size := fi_size (inode i src)\<rparr>) dst)"

lemma received_inode: "inode j (received i j src dst) = (inode j dst)\<lparr>fi_ver := fi_ver (inode i src),
    fi_mode := fi_mode (inode i src), fi_size := fi_size (inode i src)\<rparr>"
  by (simp add: received_def inode_def copy_file_sel upd_fi_def)

lemma received_content:
  "file_content j (received i j src dst) = take PTSIZE (file_content i src) @
     map (\<lambda>x. fs_mem dst (FILEDATA j + x)) [PTSIZE..<fi_size (inode i src)]"
proof (rule nth_equalityI)
  fix x assume "x < length (file_content j (received i j src dst))"
  then show "file_content j (received i j src dst) ! x = (take PTSIZE (file_content i src) @
     map (\<lambda>x. fs_mem dst (FILEDATA j + x)) [PTSIZE..<fi_size (inode i src)]) ! x"
    by (auto simp: file_content_def received_inode nth_append min_def)
      (auto simp: received_def copy_file_sel)
qed (simp add: received_inode min_def)

lemma received_ok:
  assumes "file_ok i src" and "fileino_isvalid j" and "fi_name (inode j dst) \<noteq> []"
    and "fi_size (inode i src) \<le> PTSIZE"
  shows "file_ok j (received i j src dst)"
proof (rule file_okI)
  fix x assume "x < ROUNDUP (fi_size (inode j (received i j src dst))) PAGESIZE"
  then have x: "x < ROUNDUP (fi_size (inode i src)) PAGESIZE" by (simp add: received_inode)
  then have "x < PTSIZE" using ROUNDUP_PTSIZE [OF assms(4)] by simp
  with x assms(1) show "fs_rw (received i j src dst) ((FILEDATA j + x) div PAGESIZE)"
    by (simp add: received_def copy_file_sel file_ok_def)
qed (use assms in \<open>simp_all add: received_inode file_ok_def fileino_defs\<close>)

lemma received_other:
  assumes "file_ok j dst"
  shows "other_files_same j dst (received i j src dst)"
proof (rule other_files_sameI [OF assms])
  fix k assume k: "nat k \<noteq> nat j"
  show "inode k (received i j src dst) = inode k dst"
    using k by (simp add: received_def inode_def copy_file_sel upd_fi_def)
  fix x assume "x < FILE_MAXSIZE"
  note o = k this PTSIZE_le
  show "fs_mem (received i j src dst) (FILEDATA k + x) = fs_mem dst (FILEDATA k + x)"
    using copy_mem_other [OF o] by (simp add: received_def copy_file_def)
  show "fs_rw (received i j src dst) ((FILEDATA k + x) div PAGESIZE)" if "fs_rw dst ((FILEDATA k + x) div PAGESIZE)"
    using copy_rw_other [OF o] that by (simp add: received_def copy_file_def)
qed

text \<open>Which side has changed since the last reconciliation.\<close>

definition changed :: "int \<Rightarrow> nat \<Rightarrow> fileinode \<Rightarrow> bool" where
  "changed rver rlen n \<longleftrightarrow> rver < fi_ver n \<or> rlen < fi_size n"

text \<open>The invariant that the code checks: versions only increase, and within a version the length.\<close>

definition advances :: "int \<Rightarrow> nat \<Rightarrow> fileinode \<Rightarrow> bool" where
  "advances rver rlen n \<longleftrightarrow> rver \<le> fi_ver n \<and> (fi_ver n = rver \<longrightarrow> rlen \<le> fi_size n)"

definition versions_ok :: "int \<Rightarrow> int \<Rightarrow> recst \<Rightarrow> bool" where
  "versions_ok pino cino st \<longleftrightarrow>
     (let c = inode cino (r_c st) in advances (fi_rver c) (fi_rlen c) (inode pino (r_p st)) \<and> advances (fi_rver c) (fi_rlen c) c)"

definition p_changed :: "int \<Rightarrow> int \<Rightarrow> recst \<Rightarrow> bool" where
  "p_changed pino cino st = (let c = inode cino (r_c st) in changed (fi_rver c) (fi_rlen c) (inode pino (r_p st)))"

definition c_changed :: "int \<Rightarrow> recst \<Rightarrow> bool" where
  "c_changed cino st = (let c = inode cino (r_c st) in changed (fi_rver c) (fi_rlen c) c)"

lemmas version_defs = versions_ok_def p_changed_def c_changed_def changed_def advances_def

lemma reconcile_inode_to_child:
  assumes ok: "paired pino cino st" "versions_ok pino cino st"
    and ch: "p_changed pino cino st" "\<not> c_changed cino st"
    and ex: "fi_rver (inode cino (r_c st)) < fi_ver (inode pino (r_p st))"
  shows "reconcile_inode pino cino st = Some (True, upd_c (\<lambda>c. upd_fi cino (\<lambda>n. n\<lparr>fi_rver := fi_ver (inode pino (r_p st)),
     fi_rlen := fi_size (inode pino (r_p st))\<rparr>) (received pino cino (r_p st) c)) st)"
  using assms paired_range [OF ok(1)]
  by (auto simp: paired_def file_ok_def version_defs reconcile_inode_def Let_def received_def upd_c_def)

lemma reconcile_inode_to_parent:
  assumes ok: "paired pino cino st" "versions_ok pino cino st"
    and ch: "\<not> p_changed pino cino st" "c_changed cino st"
    and ex: "fi_rver (inode cino (r_c st)) < fi_ver (inode cino (r_c st))"
  shows "reconcile_inode pino cino st = Some (True, upd_c (upd_fi cino (\<lambda>n. n\<lparr>fi_rver := fi_ver (inode cino (r_c st)),
     fi_rlen := fi_size (inode cino (r_c st))\<rparr>)) (upd_p (received cino pino (r_c st)) st))"
  using assms paired_range [OF ok(1)] received_inode [of pino cino "r_c st" "r_p st"]
  by (auto simp: paired_def file_ok_def version_defs reconcile_inode_def Let_def received_def upd_c_def upd_p_def)

lemma reconcile_inode_conflict:
  assumes ok: "paired pino cino st" "versions_ok pino cino st"
    and ch: "p_changed pino cino st" "c_changed cino st"
    and v: "v = max (fi_ver (inode pino (r_p st))) (fi_ver (inode cino (r_c st)))"
    and ex: "fi_rver (inode cino (r_c st)) < v"
  shows "reconcile_inode pino cino st = Some (True,
     upd_c (upd_fi cino (\<lambda>n. n\<lparr>fi_mode := fi_mode n OR S_IFCONF, fi_ver := v, fi_rver := v\<rparr>))
       (upd_p (upd_fi pino (\<lambda>n. n\<lparr>fi_mode := fi_mode n OR S_IFCONF, fi_ver := v\<rparr>)) st))"
  using assms paired_range [OF ok(1)]
  by (auto simp: paired_def file_ok_def version_defs reconcile_inode_def Let_def mark_conflict_def upd_c_def upd_p_def upd_fi_def)

subsection \<open>Pairing the inodes of a forked child\<close>

text \<open>A parent and its child agree on which inodes are in use and in which directories they are, every
  inode in use is paired with itself, and a directory comes before its entries.\<close>

definition same_tree :: "recst \<Rightarrow> bool" where
  "same_tree st \<longleftrightarrow>
     (\<forall>i \<in> {1..<FILE_INODES}. let p = fs_fi (r_p st) i; c = fs_fi (r_c st) i in
        fi_name c = fi_name p \<and> fi_dino c = fi_dino p \<and> (i \<le> 3 \<longrightarrow> fi_name p \<noteq> []) \<and>
        (fi_name p \<noteq> [] \<longrightarrow>
           fi_rino c = int i \<and> fi_rver c \<le> fi_ver p \<and> fi_rver c \<le> fi_ver c \<and>
           1 \<le> fi_dino p \<and> (fi_dino p \<le> 3 \<or> fi_dino p < int i \<and> fi_name (inode (fi_dino p) (r_p st)) \<noteq> [])))"

definition used :: "nat \<Rightarrow> recst \<Rightarrow> bool" where
  "used i st \<longleftrightarrow> 1 \<le> i \<and> i < FILE_INODES \<and> fi_name (fs_fi (r_p st) i) \<noteq> []"

definition self_map :: "nat \<Rightarrow> recst \<Rightarrow> imap" where
  "self_map n st = (\<lambda>i. if used i st \<and> (i \<le> 3 \<or> i < n) then int i else 0)"

lemma map_all_append:
  "map_all f (xs @ ys) m st = Option.bind (map_all f xs m st) (\<lambda>(m1, st1). map_all f ys m1 st1)"
  by (induction xs arbitrary: m st) (auto split: option.splits Option.bind_split)

lemma map_child_self:
  assumes "same_tree st" and n: "1 \<le> n" "n < FILE_INODES"
  shows "map_child n (self_map n st, self_map n st) st = Some ((self_map (Suc n) st, self_map (Suc n) st), st)"
proof (cases "used n st")
  case True
  then have i: "n \<in> {1..<FILE_INODES}" "fi_name (fs_fi (r_p st) n) \<noteq> []" by (auto simp: used_def)
  let ?p = "fs_fi (r_p st) n" and ?c = "fs_fi (r_c st) n"
  have c: "fi_name ?c = fi_name ?p" "fi_dino ?c = fi_dino ?p" "fi_rino ?c = int n" "fi_rver ?c \<le> fi_ver ?p"
    "fi_rver ?c \<le> fi_ver ?c" "1 \<le> fi_dino ?p" "fi_dino ?p \<le> 3 \<or> fi_dino ?p < int n \<and> fi_name (inode (fi_dino ?p) (r_p st)) \<noteq> []"
    using assms(1) i unfolding same_tree_def Let_def by blast+
  have "used (nat (fi_dino ?p)) st"
  proof (cases "fi_dino ?p \<le> 3")
    case True
    then have "nat (fi_dino ?p) \<in> {1..<FILE_INODES}" "nat (fi_dino ?p) \<le> 3"
      using c(6) by (auto simp: FILE_INODES_def OPEN_MAX_def)
    then show ?thesis using assms(1) unfolding same_tree_def Let_def used_def by auto
  next
    case False
    then show ?thesis using c(6,7) n by (auto simp: used_def inode_def)
  qed
  then have "self_map n st (nat (fi_dino ?p)) = fi_dino ?p" using c(6,7) by (auto simp: self_map_def)
  then have "mapping_ok (int n) n (self_map n st, self_map n st) st"
    using c n by (simp add: mapping_ok_def inode_def)
  moreover have "pair_up (int n) (int n) (self_map n st, self_map n st) = (self_map (Suc n) st, self_map (Suc n) st)"
    using True by (auto simp: pair_up_def self_map_def fun_eq_iff)
  ultimately show ?thesis using i(2) c n by (simp add: map_child_def Let_def)
next
  case False
  then have "fi_name (fs_fi (r_c st) n) = []" using assms n by (auto simp: used_def same_tree_def Let_def)
  moreover have "self_map (Suc n) st = self_map n st" using False by (auto simp: self_map_def less_Suc_eq fun_eq_iff)
  ultimately show ?thesis by (simp add: map_child_def Let_def)
qed

lemma map_children_self:
  assumes "same_tree st" and "1 \<le> n" "n \<le> FILE_INODES"
  shows "map_all map_child [1..<n] (self_map 1 st, self_map 1 st) st = Some ((self_map n st, self_map n st), st)"
  using assms(2,3)
proof (induction n rule: dec_induct)
  case (step n)
  then show ?case using map_child_self [OF assms(1), of n] by (simp add: map_all_append)
qed simp

lemma map_parents_self:
  "map_all map_parent xs (self_map FILE_INODES st, m) st = Some ((self_map FILE_INODES st, m), st)"
  if "set xs \<subseteq> {1..<FILE_INODES}"
  using that by (induction xs) (auto simp: map_parent_def Let_def self_map_def used_def)

lemma reconcile_same_tree:
  assumes "same_tree st"
  shows "reconcile st = reconcile_all [1..<FILE_INODES] (self_map FILE_INODES st, self_map FILE_INODES st) st"
proof -
  have "initial_map = self_map 1 st"
    using assms by (auto simp: initial_map_def self_map_def used_def same_tree_def Let_def fun_eq_iff FILE_INODES_def
        OPEN_MAX_def FILEINO_CONSIN_def FILEINO_CONSOUT_def FILEINO_ROOTDIR_def)
  moreover have "1 \<le> FILE_INODES" by (simp add: FILE_INODES_def OPEN_MAX_def)
  ultimately show ?thesis
    using map_children_self [OF assms, of FILE_INODES] map_parents_self [of "[1..<FILE_INODES]"]
    by (simp add: reconcile_def)
qed

subsection \<open>Reconciling when one file has changed\<close>

lemma reconcile_all_append:
  "reconcile_all (xs @ ys) m st = do { (b, st1) \<leftarrow> reconcile_all xs m st; (b', st2) \<leftarrow> reconcile_all ys m st1; Some (b \<or> b', st2) }"
  by (induction xs arbitrary: st) (auto simp: Let_def split: Option.bind_split)

text \<open>A pair that needs no work.\<close>

definition settled :: "nat \<Rightarrow> recst \<Rightarrow> bool" where
  "settled i st \<longleftrightarrow> fi_size (inode (int i) (r_p st)) \<le> FILE_MAXSIZE \<and> in_sync (int i) (int i) st"

lemma reconcile_all_settled:
  assumes "\<And>i. i \<in> set xs \<Longrightarrow> used i st0 \<Longrightarrow> settled i st"
  shows "reconcile_all xs (self_map FILE_INODES st0, self_map FILE_INODES st0) st = Some (False, st)"
  using assms
proof (induction xs)
  case (Cons i xs)
  show ?case
  proof (cases "used i st0")
    case True
    then have "reconcile_inode (int i) (int i) st = Some (False, st)"
      using Cons.prems [of i] by (intro reconcile_inode_in_sync) (auto simp: settled_def used_def)
    with True Cons show ?thesis by (simp add: self_map_def used_def)
  qed (use Cons in \<open>simp add: self_map_def\<close>)
qed simp

lemma settled_frame:
  assumes "settled i st" and "inode (int i) (r_p st') = inode (int i) (r_p st)" "inode (int i) (r_c st') = inode (int i) (r_c st)"
  shows "settled i st'"
  using assms by (simp add: settled_def in_sync_def)

lemma reconcile_one:
  assumes tree: "same_tree st" and k: "used k st"
    and rest: "\<And>i. used i st \<Longrightarrow> i \<noteq> k \<Longrightarrow> settled i st"
    and step: "reconcile_inode (int k) (int k) st = Some (b, st')"
    and frame: "\<And>i. i \<noteq> k \<Longrightarrow> inode (int i) (r_p st') = inode (int i) (r_p st)"
      "\<And>i. i \<noteq> k \<Longrightarrow> inode (int i) (r_c st') = inode (int i) (r_c st)"
  shows "reconcile st = Some (b, st')"
proof -
  let ?m = "self_map FILE_INODES st"
  have "[1..<FILE_INODES] = [1..<k] @ k # [Suc k..<FILE_INODES]"
    using k upt_add_eq_append [of 1 k "FILE_INODES - k"] upt_conv_Cons [of k FILE_INODES] by (simp add: used_def)
  moreover have "reconcile_all [1..<k] (?m, ?m) st = Some (False, st)"
    using rest by (intro reconcile_all_settled) auto
  moreover have "reconcile_all [Suc k..<FILE_INODES] (?m, ?m) st' = Some (False, st')"
    using settled_frame [OF rest frame] by (intro reconcile_all_settled) auto
  moreover have "?m k = int k" "int k \<noteq> 0" using k by (auto simp: self_map_def used_def)
  ultimately show ?thesis
    using step by (simp add: reconcile_same_tree [OF tree] reconcile_all_append)
qed

subsection \<open>Forking\<close>

text \<open>The files of a process that can fork: the special inodes exist, directories come before their
  entries, and no file is too big.\<close>

definition wf_files :: "filestate \<Rightarrow> bool" where
  "wf_files fs \<longleftrightarrow>
     (\<forall>i \<in> {1..<FILE_INODES}. let n = fs_fi fs i in
        (i \<le> 3 \<longrightarrow> fi_name n \<noteq> []) \<and>
        (fi_name n \<noteq> [] \<longrightarrow> fi_size n \<le> FILE_MAXSIZE \<and> 1 \<le> fi_dino n \<and>
           (fi_dino n \<le> 3 \<or> fi_dino n < int i \<and> fi_name (inode (fi_dino n) fs) \<noteq> [])))"

lemma fork_child_inode:
  assumes "fi_name (fs_fi fs i) \<noteq> []" "1 \<le> i" "i < FILE_INODES"
  shows "fs_fi (fork_child pid fs) i =
    (fs_fi fs i)\<lparr>fi_rino := int i, fi_rver := fi_ver (fs_fi fs i), fi_rlen := fi_size (fs_fi fs i)\<rparr>"
  using assms by (simp add: fork_child_def fileino_defs inode_def)

lemma fork_child_unused:
  "fi_name (fs_fi fs i) = [] \<Longrightarrow> fs_fi (fork_child pid fs) i = fs_fi fs i"
  by (simp add: fork_child_def fileino_defs inode_def)

lemma fork_same_tree:
  assumes "wf_files fs" and p: "fs_fi (r_p st) = fs_fi fs"
    and c: "\<And>i. fs_fi (r_c st) i = (fs_fi (fork_child pid fs) i)\<lparr>fi_size := sz i\<rparr>"
  shows "same_tree st"
  unfolding same_tree_def Let_def
proof (intro ballI)
  fix i assume i: "i \<in> {1..<FILE_INODES}"
  have w: "(i \<le> 3 \<longrightarrow> fi_name (fs_fi fs i) \<noteq> []) \<and> (fi_name (fs_fi fs i) \<noteq> [] \<longrightarrow> 1 \<le> fi_dino (fs_fi fs i) \<and>
      (fi_dino (fs_fi fs i) \<le> 3 \<or> fi_dino (fs_fi fs i) < int i \<and> fi_name (inode (fi_dino (fs_fi fs i)) fs) \<noteq> []))"
    using assms(1) i unfolding wf_files_def Let_def by blast
  have in_p: "inode j (r_p st) = inode j fs" for j by (simp add: inode_def p)
  show "fi_name (fs_fi (r_c st) i) = fi_name (fs_fi (r_p st) i) \<and> fi_dino (fs_fi (r_c st) i) = fi_dino (fs_fi (r_p st) i) \<and>
      (i \<le> 3 \<longrightarrow> fi_name (fs_fi (r_p st) i) \<noteq> []) \<and>
      (fi_name (fs_fi (r_p st) i) \<noteq> [] \<longrightarrow> fi_rino (fs_fi (r_c st) i) = int i \<and>
         fi_rver (fs_fi (r_c st) i) \<le> fi_ver (fs_fi (r_p st) i) \<and> fi_rver (fs_fi (r_c st) i) \<le> fi_ver (fs_fi (r_c st) i) \<and>
         1 \<le> fi_dino (fs_fi (r_p st) i) \<and> (fi_dino (fs_fi (r_p st) i) \<le> 3 \<or>
           fi_dino (fs_fi (r_p st) i) < int i \<and> fi_name (inode (fi_dino (fs_fi (r_p st) i)) (r_p st)) \<noteq> []))"
    using w i by (cases "fi_name (fs_fi fs i) = []") (simp_all add: p c in_p fork_child_inode fork_child_unused)
qed

end
