(* ===== verification/RecThms.thy ===== *)
theory RecThms
  imports FileThms RecProps "HOL-Library.Multiset"
begin

text \<open>
  What reconciliation guarantees to a parent and its child, from one pair of files to a whole round of
  \<open>fork\<close>, work in the child and \<open>waitpid\<close>; and where it does not do what it means to.
\<close>

text \<open>For demonstrations: the parent and the child have each a version of the file \<open>log\<close>, last reconciled
  at version 0 and length 5.\<close>

definition demo_side :: "int \<Rightarrow> nat \<Rightarrow> u8 \<Rightarrow> filestate" where
  "demo_side ver sz b = upd_fi 4 (\<lambda>n. n\<lparr>fi_ver := ver, fi_size := sz\<rparr>) (demo_files\<lparr>fs_mem := (\<lambda>x. if x < FILEDATA 4 + 5 then 1 else b)\<rparr>)"

definition demo_pair :: "filestate \<Rightarrow> filestate \<Rightarrow> recst" where
  "demo_pair p c = \<lparr>r_p = p, r_c = c, r_scr = (\<lambda>_. 0), r_scrw = (\<lambda>_. False)\<rparr>"

lemma demo_side_inode: "inode 4 (demo_side ver sz b) = \<lparr>fi_dino = 3, fi_name = ''log'', fi_ver = ver,
    fi_mode = S_IFREG OR 0x1A4, fi_size = sz, fi_rino = 4, fi_rver = 0, fi_rlen = 5\<rparr>"
  by (simp add: demo_side_def) (simp add: inode_def demo_files_def)

lemma demo_side_ok:
  assumes "sz \<le> 4096"
  shows "file_ok 4 (demo_side ver sz b)"
proof (rule file_okI)
  fix i assume "i < ROUNDUP (fi_size (inode 4 (demo_side ver sz b))) PAGESIZE"
  then have "i < 4096" using ROUNDUP_mono [OF assms, of PAGESIZE]
    by (simp add: demo_side_inode ROUNDUP_def ROUNDDOWN_def PAGESIZE_def)
  then show "fs_rw (demo_side ver sz b) ((FILEDATA 4 + i) div PAGESIZE)"
    by (simp add: demo_page demo_side_def) (simp add: demo_files_def)
qed (use assms in \<open>simp_all add: fileino_defs demo_side_inode FILE_INODES_def OPEN_MAX_def FILE_MAXSIZE_def
      S_ISREG_def S_IFMT_def S_IFREG_def\<close>)

lemma demo_side_content: "file_content 4 (demo_side ver sz b) = map (\<lambda>i. if i < 5 then 1 else b) [0..<sz]"
  by (simp add: file_content_def demo_side_inode) (simp add: demo_side_def)

lemma demo_side_bytes: "file_content 4 (demo_side v 4 b) = [1, 1, 1, 1]" "file_content 4 (demo_side v 5 b) = [1, 1, 1, 1, 1]"
    "file_content 4 (demo_side v 6 b) = [1, 1, 1, 1, 1, b]" "file_content 4 (demo_side v 7 b) = [1, 1, 1, 1, 1, b, b]"
  by (simp_all add: demo_side_content eval_nat_numeral)

lemma demo_paired: "m \<le> 4096 \<Longrightarrow> n \<le> 4096 \<Longrightarrow> paired 4 4 (demo_pair (demo_side v m a) (demo_side w n b))"
  by (simp add: paired_def demo_pair_def demo_side_ok demo_side_inode FILE_MAXSIZE_def)

subsection \<open>One pair of files\<close>

text \<open>C23: When parent and child have only appended to a file since they last reconciled, reconciling gives
  each of them the other's new data after its own, leaves them with the same bytes up to the order of
  the appended parts, touches no other file, and has nothing left to do the next time.\<close>

theorem reconcile_inode_appends:
  assumes "paired pino cino st"
    and "fi_ver (inode pino (r_p st)) = fi_rver (inode cino (r_c st))"
    and "fi_ver (inode cino (r_c st)) = fi_rver (inode cino (r_c st))"
    and "fi_mode (inode pino (r_p st)) = fi_mode (inode cino (r_c st))"
    and "rlen = fi_rlen (inode cino (r_c st))"
    and com: "take rlen (file_content pino (r_p st)) = take rlen (file_content cino (r_c st))"
    and len: "rlen \<le> fi_size (inode pino (r_p st))" "rlen \<le> fi_size (inode cino (r_c st))"
      "2 * rlen < fi_size (inode pino (r_p st)) + fi_size (inode cino (r_c st))"
      "fi_size (inode pino (r_p st)) + fi_size (inode cino (r_c st)) \<le> PTSIZE + rlen"
  shows "\<exists>st'. reconcile_inode pino cino st = Some (True, st') \<and>
    file_content pino (r_p st') = file_content pino (r_p st) @ drop rlen (file_content cino (r_c st)) \<and>
    file_content cino (r_c st') = file_content cino (r_c st) @ drop rlen (file_content pino (r_p st)) \<and>
    mset (file_content pino (r_p st')) = mset (file_content cino (r_c st')) \<and>
    other_files_same pino (r_p st) (r_p st') \<and> other_files_same cino (r_c st) (r_c st') \<and>
    reconcile_inode pino cino st' = Some (False, st')"
proof -
  let ?P = "file_content pino (r_p st)" and ?C = "file_content cino (r_c st)"
  have sum: "fi_size (inode pino (r_p st)) + fi_size (inode cino (r_c st)) - rlen \<le> PTSIZE" using len(4) by simp
  obtain st' where r: "reconcile_inode pino cino st = Some (True, st')" "paired pino cino st'" "in_sync pino cino st'"
    "file_content pino (r_p st') = ?P @ drop rlen ?C" "file_content cino (r_c st') = ?C @ drop rlen ?P"
    "other_files_same pino (r_p st) (r_p st')" "other_files_same cino (r_c st) (r_c st')"
    using reconcile_inode_merge [OF assms(1-5), of "fi_size (inode pino (r_p st)) - rlen" "fi_size (inode cino (r_c st)) - rlen"] len sum
    by auto
  have "mset ?P = mset (take rlen ?P) + mset (drop rlen ?P)" "mset ?C = mset (take rlen ?C) + mset (drop rlen ?C)"
    by (metis append_take_drop_id mset_append)+
  then have "mset (?P @ drop rlen ?C) = mset (?C @ drop rlen ?P)" using com by simp
  moreover have "reconcile_inode pino cino st' = Some (False, st')"
    using r(2,3) paired_range [OF r(2)] by (intro reconcile_inode_in_sync) (auto simp: paired_def file_ok_def)
  ultimately show ?thesis using r by auto
qed

theorem reconcile_inode_appends_witness:
  "\<exists>st'. reconcile_inode 4 4 (demo_pair (demo_side 0 6 7) (demo_side 0 7 9)) = Some (True, st') \<and>
    file_content 4 (r_p st') = [1, 1, 1, 1, 1, 7, 9, 9] \<and> file_content 4 (r_c st') = [1, 1, 1, 1, 1, 9, 9, 7]"
proof -
  have P: "r_p (demo_pair p c) = p" "r_c (demo_pair p c) = c" for p c by (simp_all add: demo_pair_def)
  have "paired 4 4 (demo_pair (demo_side 0 6 7) (demo_side 0 7 9))" by (rule demo_paired) simp_all
  from reconcile_inode_appends [OF this, of 5] obtain st' where
    "reconcile_inode 4 4 (demo_pair (demo_side 0 6 7) (demo_side 0 7 9)) = Some (True, st')"
    "file_content 4 (r_p st') = file_content 4 (demo_side 0 6 7) @ drop 5 (file_content 4 (demo_side 0 7 9))"
    "file_content 4 (r_c st') = file_content 4 (demo_side 0 7 9) @ drop 5 (file_content 4 (demo_side 0 6 7))"
    unfolding P demo_side_inode PTSIZE_def demo_side_bytes by auto
  then show ?thesis by (auto simp: demo_side_bytes)
qed

text \<open>C24: When only one of the two has changed a file, and changed it exclusively, reconciling gives the other
  the same content, keeps the content of the one that changed, touches no other file, and has nothing
  left to do the next time (for files up to \<open>PTSIZE\<close>).\<close>

theorem reconcile_inode_exclusive:
  assumes ok: "paired pino cino st" "versions_ok pino cino st"
    and ex: "p_changed pino cino st \<noteq> c_changed cino st"
    and "x = (if p_changed pino cino st then inode pino (r_p st) else inode cino (r_c st))"
    and "bs = (if p_changed pino cino st then file_content pino (r_p st) else file_content cino (r_c st))"
    and "fi_rver (inode cino (r_c st)) < fi_ver x" and "fi_size x \<le> PTSIZE"
  shows "\<exists>st'. reconcile_inode pino cino st = Some (True, st') \<and>
    file_content pino (r_p st') = bs \<and> file_content cino (r_c st') = bs \<and>
    other_files_same pino (r_p st) (r_p st') \<and> other_files_same cino (r_c st) (r_c st') \<and>
    reconcile_inode pino cino st' = Some (False, st')"
proof -
  have okp: "file_ok pino (r_p st)" and okc: "file_ok cino (r_c st)" using ok(1) by (simp_all add: paired_def)
  have sync: "reconcile_inode pino cino st' = Some (False, st')"
    if "fi_size (inode pino (r_p st')) \<le> PTSIZE" "in_sync pino cino st'" for st'
    using that paired_range [OF ok(1)] PTSIZE_le by (intro reconcile_inode_in_sync) auto
  have v: "fileino_isvalid i" "fi_name (inode i fs) \<noteq> []" if "file_ok i fs" for i fs
    using that by (simp_all add: file_ok_def fileino_defs)
  have id: "other_files_same i fs (upd_fi i f fs')" if "other_files_same i fs fs'" "file_ok i fs" for i fs fs' f
    using that valid_nat_neq [OF _ that(2)]
    by (auto simp: other_files_same_def file_ok_def fileino_defs file_content_def)
  show ?thesis
  proof (cases "p_changed pino cino st")
    case True
    let ?x = "inode pino (r_p st)"
    let ?st' = "upd_c (\<lambda>c. upd_fi cino (\<lambda>n. n\<lparr>fi_rver := fi_ver ?x, fi_rlen := fi_size ?x\<rparr>) (received pino cino (r_p st) c)) st"
    have r: "reconcile_inode pino cino st = Some (True, ?st')"
      using True assms by (intro reconcile_inode_to_child [OF ok]) auto
    have "file_content cino (r_c ?st') = bs"
      using received_content [of cino pino "r_p st" "r_c st"] assms(5,7) True
      by (simp add: upd_c_def file_content_def received_inode assms(4))
    moreover have "in_sync pino cino ?st'" by (simp add: in_sync_def upd_c_def received_inode)
    moreover have "other_files_same cino (r_c st) (r_c ?st')"
      using id [OF received_other [OF okc] okc] by (simp add: upd_c_def)
    moreover have "other_files_same pino (r_p st) (r_p ?st')" by (simp add: other_files_same_def upd_c_def)
    ultimately show ?thesis using r sync [of ?st'] assms(4,5,7) True by (auto simp: upd_c_def)
  next
    case False
    let ?x = "inode cino (r_c st)"
    let ?st' = "upd_c (upd_fi cino (\<lambda>n. n\<lparr>fi_rver := fi_ver ?x, fi_rlen := fi_size ?x\<rparr>)) (upd_p (received cino pino (r_c st)) st)"
    have r: "reconcile_inode pino cino st = Some (True, ?st')"
      using False assms by (intro reconcile_inode_to_parent [OF ok]) auto
    have "file_content pino (r_p ?st') = bs"
      using received_content [of pino cino "r_c st" "r_p st"] assms(4,5,7) False by (simp add: upd_c_def upd_p_def)
    moreover have "file_content cino (r_c ?st') = bs" using assms(5) False by (simp add: upd_c_def upd_p_def file_content_def)
    moreover have "in_sync pino cino ?st'" by (simp add: in_sync_def upd_c_def upd_p_def received_inode)
    moreover have "other_files_same cino (r_c st) (r_c ?st')"
      using id [OF _ okc, of "r_c st"] by (simp add: upd_c_def upd_p_def other_files_same_def [of cino "r_c st" "r_c st"])
    moreover have "other_files_same pino (r_p st) (r_p ?st')" using received_other [OF okp] by (simp add: upd_c_def upd_p_def)
    ultimately show ?thesis using r sync [of ?st'] assms(4,7) False by (auto simp: upd_c_def upd_p_def received_inode)
  qed
qed

theorem reconcile_inode_exclusive_witness:
  "\<exists>st'. reconcile_inode 4 4 (demo_pair (demo_side 0 5 7) (demo_side 1 6 9)) = Some (True, st') \<and>
    file_content 4 (r_p st') = [1, 1, 1, 1, 1, 9] \<and> file_content 4 (r_c st') = [1, 1, 1, 1, 1, 9]"
  using reconcile_inode_exclusive [OF demo_paired, of 5 6 0 7 1 9]
  by (auto simp: demo_pair_def demo_side_inode demo_side_bytes PTSIZE_def version_defs)

lemma conflict_mode: "flagged (m OR S_IFCONF) S_IFCONF" "m OR S_IFCONF \<noteq> 0"
proof -
  have e: "(m OR S_IFCONF) AND S_IFCONF = S_IFCONF" by (simp add: bit.conj_disj_distrib2 bit_eq_iff bit_simps)
  have "S_IFCONF \<noteq> 0" by (simp add: S_IFCONF_def)
  with e show "flagged (m OR S_IFCONF) S_IFCONF" "m OR S_IFCONF \<noteq> 0"
    by (metis flagged_def, metis and.left_neutral and_zero_eq bit.conj_zero_left)
qed

lemma open_conflict:
  assumes "fd_ino (fs_fd fs d) = FILEINO_NULL" and "\<not> flagged flags O_CREAT" and "dir_walk path 0 fs = Some (ino, fs1)"
    and "0 \<le> ino" and "fileino_exists ino fs1" and "flagged (fi_mode (inode ino fs1)) S_IFCONF"
  shows "open_at d path flags mode fs = Some (None, set_errno ECONFLICT fs1)"
  using assms by (simp add: open_at_def)



subsection \<open>Where it goes wrong\<close>

text \<open>A conflict leaves the reference length as it was. If one side had shrunk the file below it, the next
  reconciliation of the pair, which \<open>waitpid\<close> makes in the same round, fails its own assertion and the
  parent stops.\<close>

theorem conflict_then_panic:
  assumes ok: "paired pino cino st" "versions_ok pino cino st"
    and "p_changed pino cino st" and "c_changed cino st"
    and v: "v = max (fi_ver (inode pino (r_p st))) (fi_ver (inode cino (r_c st)))" and "fi_rver (inode cino (r_c st)) < v"
    and short: "fi_size (inode pino (r_p st)) < fi_rlen (inode cino (r_c st)) \<or>
      fi_size (inode cino (r_c st)) < fi_rlen (inode cino (r_c st))"
  shows "\<exists>st'. reconcile_inode pino cino st = Some (True, st') \<and> reconcile_inode pino cino st' = None"
proof -
  let ?st' = "upd_c (upd_fi cino (\<lambda>n. n\<lparr>fi_mode := fi_mode n OR S_IFCONF, fi_ver := v, fi_rver := v\<rparr>))
     (upd_p (upd_fi pino (\<lambda>n. n\<lparr>fi_mode := fi_mode n OR S_IFCONF, fi_ver := v\<rparr>)) st)"
  have "reconcile_inode pino cino st = Some (True, ?st')" by (rule reconcile_inode_conflict [OF assms(1-6)])
  moreover have "reconcile_inode pino cino ?st' = None"
    using short ok(1) by (auto simp: reconcile_inode_def upd_c_def upd_p_def Let_def cassert_def paired_def)
  ultimately show ?thesis by blast
qed

theorem conflict_then_panic_witness:
  "\<exists>st'. reconcile_inode 4 4 (demo_pair (demo_side 0 6 7) (demo_side 1 4 9)) = Some (True, st') \<and>
    reconcile_inode 4 4 st' = None"
  using conflict_then_panic [OF demo_paired, of 6 4 0 7 1 9 1]
  by (auto simp: demo_pair_def demo_side_inode version_defs)

text \<open>Copying a changed file moves only \<open>PTSIZE\<close> bytes, which is 2 MB with 64-bit page tables, although files
  may have 4 MB: the rest of the parent's copy is whatever its memory held there before.\<close>

theorem reconcile_drops_tail:
  assumes ok: "paired pino cino st" "versions_ok pino cino st"
    and "\<not> p_changed pino cino st" and "c_changed cino st"
    and "fi_rver (inode cino (r_c st)) < fi_ver (inode cino (r_c st))"
  shows "\<exists>st'. reconcile_inode pino cino st = Some (True, st') \<and>
    fi_size (inode pino (r_p st')) = fi_size (inode cino (r_c st)) \<and>
    file_content pino (r_p st') = take 0x200000 (file_content cino (r_c st)) @
      map (\<lambda>x. fs_mem (r_p st) (FILEDATA pino + x)) [0x200000..<fi_size (inode cino (r_c st))]"
  using reconcile_inode_to_parent [OF assms] received_content [of pino cino "r_c st" "r_p st"]
  by (auto simp: upd_c_def upd_p_def received_inode PTSIZE_def)

text \<open>A child's file of 2 MB and one byte.\<close>

definition demo_big :: filestate where
  "demo_big = (demo_side 1 0x200001 9)\<lparr>fs_rw := (\<lambda>_. True)\<rparr>"

lemma demo_big: "inode 4 demo_big = inode 4 (demo_side 1 0x200001 9)" "file_ok 4 demo_big"
proof -
  show i: "inode 4 demo_big = inode 4 (demo_side 1 0x200001 9)" by (simp add: demo_big_def inode_def)
  show "file_ok 4 demo_big"
    by (rule file_okI) (simp_all add: i fileino_defs demo_side_inode FILE_INODES_def OPEN_MAX_def FILE_MAXSIZE_def
      S_ISREG_def S_IFMT_def S_IFREG_def, simp add: demo_big_def)
qed

theorem reconcile_drops_tail_witness:
  "\<exists>st'. reconcile_inode 4 4 (demo_pair (demo_side 0 5 7) demo_big) = Some (True, st') \<and>
    last (file_content 4 demo_big) = 9 \<and> last (file_content 4 (r_p st')) = 7"
proof -
  let ?st = "demo_pair (demo_side 0 5 7) demo_big"
  have P: "r_p ?st = demo_side 0 5 7" "r_c ?st = demo_big" by (simp_all add: demo_pair_def)
  have ok: "paired 4 4 ?st" "versions_ok 4 4 ?st" "\<not> p_changed 4 4 ?st" "c_changed 4 ?st"
    by (simp_all add: paired_def P demo_side_ok demo_big demo_side_inode FILE_MAXSIZE_def version_defs)
  from reconcile_drops_tail [OF ok] obtain st' where st': "reconcile_inode 4 4 ?st = Some (True, st')"
    "file_content 4 (r_p st') = take 0x200000 (file_content 4 demo_big) @
      map (\<lambda>x. fs_mem (demo_side 0 5 7) (FILEDATA 4 + x)) [0x200000..<0x200001]"
    by (auto simp: P demo_big demo_side_inode)
  have "last (file_content 4 (r_p st')) = 7" by (simp add: st'(2) upt_rec [of "0x200000"] demo_side_def)
  moreover have "last (file_content 4 demo_big) = 9"
    by (simp add: last_conv_nth file_content_def demo_big demo_side_inode) (simp add: demo_big_def demo_side_def)
  ultimately show ?thesis using st'(1) by blast
qed

subsection \<open>Fork, work, exit, wait\<close>

text \<open>The run of a child that writes pieces of data through an open file in append mode and exits.\<close>

definition append_and_exit :: "nat \<Rightarrow> u8 list list \<Rightarrow> int \<Rightarrow> filestate \<Rightarrow> filestate" where
  "append_and_exit d bss status fs =
     (case run_all (fd_append d) bss fs of Some fs' \<Rightarrow> exit_files status fs' | None \<Rightarrow> fs)"

lemma exit_files_sel [simp]:
  "fs_fi (exit_files n fs) = fs_fi fs" "fs_exited (exit_files n fs)" "fs_status (exit_files n fs) = n"
  "inode i (exit_files n fs) = inode i fs" "file_ok i (exit_files n fs) = file_ok i fs"
  "file_content i (exit_files n fs) = file_content i fs" "fs_rw (exit_files n fs) = fs_rw fs"
  by (simp_all add: exit_files_def inode_def file_ok_def fileino_defs file_content_def)

lemma fork_child_file:
  assumes "file_ok k fs"
  shows "file_ok k (fork_child pid fs)" "file_content k (fork_child pid fs) = file_content k fs"
    "inode k (fork_child pid fs) = (inode k fs)\<lparr>fi_rino := k, fi_rver := fi_ver (inode k fs), fi_rlen := fi_size (inode k fs)\<rparr>"
proof -
  have k: "0 < k" "k < int FILE_INODES" "fi_name (fs_fi fs (nat k)) \<noteq> []"
    using assms by (simp_all add: file_ok_def fileino_defs inode_def)
  then show i: "inode k (fork_child pid fs) = (inode k fs)\<lparr>fi_rino := k, fi_rver := fi_ver (inode k fs), fi_rlen := fi_size (inode k fs)\<rparr>"
    using fork_child_inode [of fs "nat k" pid] by (simp add: inode_def)
  have sel: "fs_mem (fork_child pid fs) = fs_mem fs" "fs_rw (fork_child pid fs) = fs_rw fs" by (simp_all add: fork_child_def)
  show "file_ok k (fork_child pid fs)" using assms by (simp add: file_ok_def fileino_defs i sel)
  show "file_content k (fork_child pid fs) = file_content k fs" by (simp add: file_content_def i sel)
qed

text \<open>What the parent sees when it synchronises with the child: its own files and, on the child's side, one
  file that has grown.\<close>

lemma reconcile_grown_child:
  assumes wf: "wf_files fs" and ok: "file_ok k fs" and p: "r_p st = fs\<lparr>fs_child := ch\<rparr>"
    and c: "appending d k (fork_child pid fs) c1" "r_c st = exit_files n c1"
    and content: "file_content k c1 = file_content k fs @ bs" and bs: "bs \<noteq> []" "fi_size (inode k fs) + length bs \<le> PTSIZE"
  shows "\<exists>st'. reconcile st = Some (True, st') \<and> file_content k (r_p st') = file_content k fs @ bs \<and>
    other_files_same k (r_p st) (r_p st') \<and> fs_exited (r_c st') \<and> fs_status (r_c st') = n"
proof -
  have k: "0 < k" "k < int FILE_INODES" "fi_name (inode k fs) \<noteq> []" using ok by (simp_all add: file_ok_def fileino_defs)
  have pin: "inode j (r_p st) = inode j fs" for j by (simp add: p inode_def)
  have ic: "inode k c1 = (inode k (fork_child pid fs))\<lparr>fi_size := fi_size (inode k c1)\<rparr>" "file_ok k c1"
    and oth: "nat j \<noteq> nat k \<Longrightarrow> inode j c1 = inode j (fork_child pid fs)" for j
    using c(1) by (simp_all add: appending_def)
  have len: "fi_size (inode k c1) = fi_size (inode k fs) + length bs"
    using arg_cong [OF content, of length] by simp
  have cin: "inode k c1 = (inode k fs)\<lparr>fi_rino := k, fi_rver := fi_ver (inode k fs), fi_rlen := fi_size (inode k fs),
      fi_size := fi_size (inode k fs) + length bs\<rparr>"
    using resize_inode [OF ic(1)] ic(1) by (simp add: len fork_child_file(3) [OF ok])
  have fic: "fs_fi (r_c st) i = (fs_fi (fork_child pid fs) i)\<lparr>fi_size := fi_size (fs_fi c1 i)\<rparr>" for i
    using ic(1) oth [of "int i"] k by (cases "i = nat k") (auto simp: c(2) inode_def)
  have tree: "same_tree st" by (rule fork_same_tree [OF wf _ fic]) (simp add: p)
  have usd: "used i st \<longleftrightarrow> 1 \<le> i \<and> i < FILE_INODES \<and> fi_name (fs_fi fs i) \<noteq> []" for i by (simp add: used_def p)
  have paired: "paired k k st"
    using ok ic(2) by (simp add: paired_def c(2) p file_ok_def fileino_defs inode_def)
      (simp add: inode_def [symmetric] cin)
  have settled: "settled i st" if "used i st" "i \<noteq> nat k" for i
  proof -
    have i: "1 \<le> i" "i < FILE_INODES" "fi_name (fs_fi fs i) \<noteq> []" using that usd by auto
    have "fi_size (fs_fi fs i) \<le> FILE_MAXSIZE" using wf i unfolding wf_files_def Let_def by simp
    moreover have "inode (int i) (r_c st) = (fs_fi fs i)\<lparr>fi_rino := int i, fi_rver := fi_ver (fs_fi fs i), fi_rlen := fi_size (fs_fi fs i)\<rparr>"
      using oth [of "int i"] that(2) fork_child_inode [OF i(3,1,2), of pid] by (simp add: c(2) inode_def)
    ultimately show ?thesis by (simp add: settled_def in_sync_def pin) (simp add: inode_def)
  qed
  have pc: "file_content k (r_p st) = file_content k fs" by (simp add: p file_content_def inode_def)
  have prem: "fi_ver (inode k (r_p st)) = fi_rver (inode k (r_c st))" "fi_ver (inode k (r_c st)) = fi_rver (inode k (r_c st))"
    "fi_mode (inode k (r_p st)) = fi_mode (inode k (r_c st))" "fi_size (inode k fs) = fi_rlen (inode k (r_c st))"
    "fi_size (inode k fs) + 0 = fi_size (inode k (r_p st))" "fi_size (inode k fs) + length bs = fi_size (inode k (r_c st))"
    "0 < 0 + length bs" "fi_size (inode k fs) + 0 + length bs \<le> PTSIZE"
    using bs by (simp_all add: pin c(2) cin)
  obtain st' where r: "reconcile_inode k k st = Some (True, st')"
    "file_content k (r_p st') = file_content k (r_p st) @ drop (fi_size (inode k fs)) (file_content k (r_c st))"
    "other_files_same k (r_p st) (r_p st')" "other_files_same k (r_c st) (r_c st')"
    "fs_exited (r_c st') = fs_exited (r_c st)" "fs_status (r_c st') = fs_status (r_c st)"
    using reconcile_inode_merge [OF paired prem] by blast
  have fr: "inode (int i) (r_p st') = inode (int i) (r_p st)" "inode (int i) (r_c st') = inode (int i) (r_c st)"
    if "i \<noteq> nat k" for i
    using that other_inodes [OF r(3), of "int i"] other_inodes [OF r(4), of "int i"] by simp_all
  have "used (nat k) st" using k by (auto simp: usd inode_def)
  from reconcile_one [OF tree this settled _ fr] r(1) k have "reconcile st = Some (True, st')" by simp
  with r show ?thesis by (auto simp: c(2) content pc)
qed

lemma find_upt: "List.find P [a..<b] = Some n \<Longrightarrow> a \<le> n \<and> n < b \<and> P n"
  by (auto simp: find_Some_iff)

text \<open>C3: A process forks; the child appends any number of pieces to a file through an open descriptor and
  exits; \<open>waitpid\<close> in the parent returns the child's status, and the parent's file has got exactly the
  child's data at its end, with every other file unchanged and the child's slot free again.\<close>

theorem fork_append_wait:
  assumes wf: "wf_files fs" and frk: "fork fs = (pid, p, Some c)" and app: "appending d k fs fs"
    and len: "concat bss \<noteq> []" "fi_size (inode k fs) + length (concat bss) \<le> PTSIZE"
    and st: "r_p st = p" "r_c st = c"
  shows "\<exists>st'. waitpid [\<lparr>run_files = append_and_exit d bss status, run_trap = 48, run_sleep = sl\<rparr>] pid st =
      Some (Inr ((pid, WEXITED OR (status AND 0xff)), st')) \<and>
    file_content k (r_p st') = file_content k fs @ concat bss \<and>
    other_files_same k p (r_p st') \<and> fs_child (r_p st') (nat pid) = UPROC_FREE"
proof -
  have ok: "file_ok k fs" using app by (simp add: appending_def)
  obtain n where f: "pid = int n" "1 \<le> n" "n < 256" "p = fs\<lparr>fs_child := (fs_child fs)(n := UPROC_FORKED)\<rparr>"
    "c = fork_child pid fs"
    using frk find_upt [of _ 1 256] by (fastforce simp: fork_def simp del: upt_rec_numeral split: option.splits)
  have "appending d k c c"
    using app fork_child_file [OF ok] by (simp add: appending_def f(5) filedesc_iswritable_def filedesc_isopen_def)
      (simp add: fork_child_def)
  then obtain c1 where c1: "run_all (fd_append d) bss c = Some c1" "appending d k c c1"
    "file_content k c1 = file_content k c @ concat bss"
    using fd_log.appends_concat [of d k c c bss] len PTSIZE_le fork_child_file [OF ok] f(5) by auto
  let ?st = "upd_c (append_and_exit d bss status) st"
  have run: "r_p ?st = p" "r_c ?st = exit_files status c1" using c1(1) st by (simp_all add: upd_c_def append_and_exit_def)
  obtain st' where r: "reconcile ?st = Some (True, st')" "file_content k (r_p st') = file_content k fs @ concat bss"
    "other_files_same k p (r_p st')" "fs_exited (r_c st')" "fs_status (r_c st') = status"
    using reconcile_grown_child [OF wf ok, of ?st _ d pid c1 status "concat bss"] run c1 len f fork_child_file(2) [OF ok] by auto
  let ?w = "wait_done n st'"
  have w: "file_content k (r_p ?w) = file_content k (r_p st')" "fs_child (r_p ?w) n = UPROC_FREE"
    "other_files_same k p (r_p ?w)"
    using r(3) by (simp_all add: wait_done_def upd_p_def file_content_def inode_def other_files_same_def file_ok_def fileino_defs)
  have "waitpid_pick pid (r_p st) = Some n"
    using f by (simp add: waitpid_pick_def st Let_def del: upt_rec_numeral)
  then have "waitpid [\<lparr>run_files = append_and_exit d bss status, run_trap = 48, run_sleep = sl\<rparr>] pid st =
      Some (Inr ((pid, WEXITED OR (status AND 0xff)), ?w))"
    using r f by (simp add: waitpid_def waitpid_round_def)
  with w r(2) f(1) show ?thesis by auto
qed

lemma demo_wf: "wf_files demo_files"
  by (auto simp: wf_files_def demo_files_def FILE_MAXSIZE_def Let_def)

theorem fork_append_wait_witness:
  "\<exists>pid p c st'. fork demo_files = (pid, p, Some c) \<and>
    waitpid [\<lparr>run_files = append_and_exit 0 [[1], [2, 3]] 7, run_trap = 48, run_sleep = id\<rparr>] pid (demo_pair p c) =
      Some (Inr ((pid, 0x107), st')) \<and>
    file_content 4 (r_p st') = [65, 66, 67, 68, 69, 1, 2, 3]"
proof -
  have "List.find (\<lambda>pid. fs_child demo_files pid = UPROC_FREE) [1..<256] = Some 1"
    by (simp add: upt_conv_Cons demo_files_def UPROC_FREE_def del: upt_rec_numeral)
  then obtain p c where f: "fork demo_files = (1, p, Some c)" by (simp add: fork_def del: upt_rec_numeral)
  have "\<exists>st'. waitpid [\<lparr>run_files = append_and_exit 0 [[1], [2, 3]] 7, run_trap = 48, run_sleep = id\<rparr>] 1 (demo_pair p c) =
      Some (Inr ((1, WEXITED OR (7 AND 0xff)), st')) \<and>
    file_content 4 (r_p st') = file_content 4 demo_files @ concat [[1], [2, 3]] \<and>
    other_files_same 4 p (r_p st') \<and> fs_child (r_p st') (nat 1) = UPROC_FREE"
    by (rule fork_append_wait [OF demo_wf f demo_appending]) (simp_all add: demo_pair_def demo_inode PTSIZE_def)
  with f show ?thesis by (auto simp: WEXITED_def demo_content)
qed

end
