(* ===== verification/Format.thy ===== *)
theory Format
  imports Prelude
begin

text \<open>
  Formatted output and input: \<open>lib/printfmt.c\<close> in the form built into the kernel (without floating point),
  \<open>lib/sprintf.c\<close>, the integer and string conversions of \<open>lib/scanfmt.c\<close>, and \<open>strtol\<close> of \<open>lib/string.c\<close>.

  A C string is the list of its bytes, as numbers from 1 to 255, without the terminating null. The
  output of a format is the list of the arguments of the calls of \<open>putch\<close>. A variable argument is a
  64-bit word or a string pointer; taking one of the wrong kind, or one too many, is \<open>None\<close>.
\<close>

subsection \<open>Characters\<close>

definition ch :: "char \<Rightarrow> int" where "ch c = of_char c"

definition schar :: "int \<Rightarrow> int" where "schar b = (if b < 128 then b else b - 256)"

definition isspace :: "int \<Rightarrow> bool" where "isspace c \<longleftrightarrow> c = 32 \<or> 9 \<le> c \<and> c \<le> 13"
definition isprint :: "int \<Rightarrow> bool" where "isprint c \<longleftrightarrow> 32 \<le> c \<and> c \<le> 126"
definition isdig :: "int \<Rightarrow> bool" where "isdig c \<longleftrightarrow> ch (CHR ''0'') \<le> c \<and> c \<le> ch (CHR ''9'')"

text \<open>The character at the front of a string, or the terminating null.\<close>

definition peek :: "int list \<Rightarrow> int" where "peek s = (case s of [] \<Rightarrow> 0 | c # _ \<Rightarrow> c)"

subsection \<open>Printing\<close>

definition F_L :: u32 where "F_L = 0x01"
definition F_LL :: u32 where "F_LL = 0x02"
definition F_ALT :: u32 where "F_ALT = 0x04"
definition F_DOT :: u32 where "F_DOT = 0x08"
definition F_RPAD :: u32 where "F_RPAD = 0x10"

definition fset :: "u32 \<Rightarrow> u32 \<Rightarrow> bool" where "fset w f \<longleftrightarrow> w AND f \<noteq> 0"

record printstate =
  padc :: int
  width :: int
  prec :: int
  signc :: int
  flags :: u32
  base :: nat

definition print_start :: printstate where
  "print_start = \<lparr>padc = 32, width = - 1, prec = - 1, signc = - 1, flags = 0, base = 10\<rparr>"

datatype varg = VWord u64 | VStr "int list option"

definition va_word :: "varg list \<Rightarrow> (u64 \<times> varg list) option" where
  "va_word ap = (case ap of VWord w # rest \<Rightarrow> Some (w, rest) | _ \<Rightarrow> None)"

definition getuint :: "printstate \<Rightarrow> u64 \<Rightarrow> u64" where
  "getuint st w = (if fset (flags st) F_LL then w else if fset (flags st) F_L then w else w AND 0xFFFFFFFF)"

definition getint :: "printstate \<Rightarrow> u64 \<Rightarrow> u64" where
  "getint st w = (if fset (flags st) F_LL then w else if fset (flags st) F_L then w
     else word_of_int (wrap32 (uint w)))"

text \<open>\<open>while (--st->width >= 0)\<close>: the padding and the width that is left.\<close>

function putpad :: "int \<Rightarrow> int \<Rightarrow> int list \<times> int" where
  "putpad c w = (if 0 \<le> w - 1 then let (out, w') = putpad c (w - 1) in (c # out, w') else ([], w - 1))"
  by pat_completeness auto
termination by (relation "measure (\<lambda>(c, w). nat w)") auto

declare putpad.simps [simp del]

definition alt_char :: "u32 \<Rightarrow> int \<Rightarrow> int" where
  "alt_char fl c = (if fset fl F_ALT \<and> \<not> isprint (schar c) then ch (CHR ''?'') else schar c)"

definition putstr :: "printstate \<Rightarrow> int list \<Rightarrow> int \<Rightarrow> int list" where
  "putstr st str maxlen =
     (let s = (if maxlen < 0 then str else take (nat maxlen) str);
          w = width st - int (length s);
          (left, w1) = (if fset (flags st) F_RPAD then ([], w) else putpad (padc st) w);
          (right, w2) = putpad (padc st) w1
      in left @ map (alt_char (flags st)) s @ right)"

definition digit_char :: "nat \<Rightarrow> int" where "digit_char d = map ch ''0123456789abcdef'' ! d"

text \<open>The digits of a number, most significant first, with the sign before them.\<close>

function genint :: "nat \<Rightarrow> int \<Rightarrow> nat \<Rightarrow> int list" where
  "genint b sc num =
     (if b \<le> num \<and> 1 < b then genint b sc (num div b) else if 0 \<le> sc then [sc] else []) @ [digit_char (num mod b)]"
  by pat_completeness auto
termination by (relation "measure (\<lambda>(b, sc, num). num)") auto

declare genint.simps [simp del]

definition putint :: "printstate \<Rightarrow> u64 \<Rightarrow> nat \<Rightarrow> int list" where
  "putint st num b =
     (let buf = genint b (signc st) (unat num) in putstr (st\<lparr>base := b\<rparr>) buf (int (length buf)))"

text \<open>A run of digits in the format.\<close>

fun fmt_digits :: "int \<Rightarrow> int list \<Rightarrow> int \<times> int list" where
  "fmt_digits p [] = (p, [])"
| "fmt_digits p (c # f) = (if isdig c then fmt_digits (wrap32 (p * 10 + c - ch (CHR ''0''))) f else (p, c # f))"

lemma fmt_digits_length: "fmt_digits p f = (q, g) \<Longrightarrow> length g \<le> length f"
  by (induction p f arbitrary: q g rule: fmt_digits.induct) (auto split: if_splits)

definition gotprec :: "int \<Rightarrow> printstate \<Rightarrow> printstate" where
  "gotprec p st = (if fset (flags st) F_DOT then st\<lparr>prec := p\<rparr> else st\<lparr>width := p, prec := - 1\<rparr>)"

text \<open>The conversions that end an escape: what they print and the arguments that are left.\<close>

definition convert :: "int \<Rightarrow> printstate \<Rightarrow> varg list \<Rightarrow> (int list \<times> varg list) option option" where
  "convert c st ap =
     (if c = ch (CHR ''c'') then Some (do { (w, ap') \<leftarrow> va_word ap; Some ([wrap32 (uint w)], ap') })
      else if c = ch (CHR ''s'') then Some
        (case ap of VStr s # ap' \<Rightarrow> Some (putstr st (case s of None \<Rightarrow> map ch ''(null)'' | Some s \<Rightarrow> s) (prec st), ap')
         | _ \<Rightarrow> None)
      else if c = ch (CHR ''d'') then Some (do {
        (w, ap') \<leftarrow> va_word ap;
        let num = getint st w;
        Some (if sint num < 0 then putint (st\<lparr>signc := ch (CHR ''-'')\<rparr>) (- num) 10 else putint st num 10, ap')
      })
      else if c = ch (CHR ''u'') then Some (do { (w, ap') \<leftarrow> va_word ap; Some (putint st (getuint st w) 10, ap') })
      else if c = ch (CHR ''o'') then Some (do { (w, ap') \<leftarrow> va_word ap; Some (putint st (getuint st w) 8, ap') })
      else if c = ch (CHR ''x'') then Some (do { (w, ap') \<leftarrow> va_word ap; Some (putint st (getuint st w) 16, ap') })
      else if c = ch (CHR ''p'') then Some (do { (w, ap') \<leftarrow> va_word ap; Some (map ch ''0x'' @ putint st w 16, ap') })
      else if c = ch (CHR ''%'') then Some (Some ([c], ap))
      else None)"

text \<open>One character of an escape: a modifier changes the state and the scan goes on, a conversion prints, and
  anything else is not recognised.\<close>

datatype escape_res = Modify "int list" printstate "varg list" | Print "int list" "int list" "varg list" | Unknown | Bad

definition escape_char :: "int \<Rightarrow> int list \<Rightarrow> printstate \<Rightarrow> varg list \<Rightarrow> escape_res" where
  "escape_char c f st ap =
     (if c = ch (CHR ''-'') then Modify f (st\<lparr>flags := flags st OR F_RPAD\<rparr>) ap
      else if c = ch (CHR ''+'') then Modify f (st\<lparr>signc := ch (CHR ''+'')\<rparr>) ap
      else if c = ch (CHR '' '') then Modify f (if signc st < 0 then st\<lparr>signc := ch (CHR '' '')\<rparr> else st) ap
      else if isdig c then
        let st' = (if c = ch (CHR ''0'') \<and> \<not> fset (flags st) F_DOT then st\<lparr>padc := ch (CHR ''0'')\<rparr> else st);
            (p, f') = fmt_digits (c - ch (CHR ''0'')) f
        in Modify f' (gotprec p st') ap
      else if c = ch (CHR ''*'') then
        (case va_word ap of None \<Rightarrow> Bad | Some (w, ap') \<Rightarrow> Modify f (gotprec (wrap32 (uint w)) st) ap')
      else if c = ch (CHR ''.'') then Modify f (st\<lparr>flags := flags st OR F_DOT\<rparr>) ap
      else if c = ch (CHR ''#'') then Modify f (st\<lparr>flags := flags st OR F_ALT\<rparr>) ap
      else if c = ch (CHR ''l'')
      then Modify f (st\<lparr>flags := flags st OR (if fset (flags st) F_L then F_LL else F_L)\<rparr>) ap
      else (case convert c st ap of
          None \<Rightarrow> Unknown | Some None \<Rightarrow> Bad | Some (Some (out, ap')) \<Rightarrow> Print out f ap'))"

lemma escape_char_length:
  "escape_char c f st ap = Modify f' st' ap' \<Longrightarrow> length f' \<le> length f"
  "escape_char c f st ap = Print out f' ap' \<Longrightarrow> f' = f"
  by (auto simp: escape_char_def Let_def dest: fmt_digits_length split: if_splits option.splits prod.splits)

text \<open>One escape. \<open>start\<close> is the format right after the percent sign: an escape that is not recognised is
  printed literally, starting over from there.\<close>

function escape :: "int list \<Rightarrow> int list \<Rightarrow> printstate \<Rightarrow> varg list \<Rightarrow> (int list \<times> int list \<times> varg list) option" where
  "escape start [] st ap = Some ([ch (CHR ''%'')], start, ap)"
| "escape start (c # f) st ap =
     (case escape_char c f st ap of
        Modify f' st' ap' \<Rightarrow> escape start f' st' ap'
      | Print out f' ap' \<Rightarrow> Some (out, f', ap')
      | Unknown \<Rightarrow> Some ([ch (CHR ''%'')], start, ap)
      | Bad \<Rightarrow> None)"
  by pat_completeness auto
termination
  by (relation "measure (\<lambda>(start, f, st, ap). length f)") (auto simp: less_Suc_eq_le dest: escape_char_length)

lemma escape_length:
  "escape start f st ap = Some (out, f', ap') \<Longrightarrow> length f \<le> length start \<Longrightarrow> length f' \<le> length start"
proof (induction start f st ap rule: escape.induct)
  case (2 start c f st ap)
  then show ?case
    by (cases "escape_char c f st ap") (auto dest: escape_char_length split: escape_res.splits)
qed simp

function vprintfmt :: "int list \<Rightarrow> varg list \<Rightarrow> int list option" where
  "vprintfmt [] ap = Some []"
| "vprintfmt (c # f) ap =
     (if c \<noteq> ch (CHR ''%'') then map_option ((#) c) (vprintfmt f ap)
      else case escape f f print_start ap of
          None \<Rightarrow> None
        | Some (out, f', ap') \<Rightarrow> map_option ((@) out) (vprintfmt f' ap'))"
  by pat_completeness auto
termination
  by (relation "measure (\<lambda>(f, ap). length f)") (auto dest: escape_length)

text \<open>Printing into a buffer of \<open>n\<close> bytes: the number of characters that the format has, and the bytes stored,
  with the terminating null.\<close>

definition vsnprintf :: "nat \<Rightarrow> int list \<Rightarrow> varg list \<Rightarrow> (int \<times> int list) option" where
  "vsnprintf n fmt ap = do {
     cassert (0 < n);
     out \<leftarrow> vprintfmt fmt ap;
     Some (wrap32 (int (length out)), map (\<lambda>c. c mod 256) (take (n - 1) out) @ [0])
   }"

text \<open>Printing into a buffer whose end is the end of the address space.\<close>

definition vsprintf :: "int list \<Rightarrow> varg list \<Rightarrow> (int \<times> int list) option" where
  "vsprintf fmt ap = do {
     out \<leftarrow> vprintfmt fmt ap;
     Some (wrap32 (int (length out)), map (\<lambda>c. c mod 256) out @ [0])
   }"

subsection \<open>Reading numbers: strtol\<close>

definition strtol_digit :: "int \<Rightarrow> nat option" where
  "strtol_digit c =
     (if ch (CHR ''0'') \<le> c \<and> c \<le> ch (CHR ''9'') then Some (nat (c - ch (CHR ''0'')))
      else if ch (CHR ''a'') \<le> c \<and> c \<le> ch (CHR ''z'') then Some (nat (c - ch (CHR ''a'') + 10))
      else if ch (CHR ''A'') \<le> c \<and> c \<le> ch (CHR ''Z'') then Some (nat (c - ch (CHR ''A'') + 10))
      else None)"

fun strtol_digits :: "nat \<Rightarrow> u64 \<Rightarrow> int list \<Rightarrow> u64 \<times> int list" where
  "strtol_digits b val [] = (val, [])"
| "strtol_digits b val (c # s) =
     (case strtol_digit c of
        Some d \<Rightarrow> if b \<le> d then (val, c # s) else strtol_digits b (val * of_nat b + of_nat d) s
      | None \<Rightarrow> (val, c # s))"

text \<open>The base prefix: the base that is used, and the rest.\<close>

definition strtol_prefix :: "nat \<Rightarrow> int list \<Rightarrow> nat \<times> int list" where
  "strtol_prefix b s =
     (if (b = 0 \<or> b = 16) \<and> peek s = ch (CHR ''0'') \<and> peek (drop 1 s) = ch (CHR ''x'') then (16, drop 2 s)
      else if b = 0 \<and> peek s = ch (CHR ''0'') then (8, drop 1 s)
      else if b = 0 then (10, s) else (b, s))"

definition strtol :: "int list \<Rightarrow> nat \<Rightarrow> int \<times> int list" where
  "strtol s b =
     (let s1 = dropWhile (\<lambda>c. c = ch (CHR '' '') \<or> c = 9) s;
          neg = (peek s1 = ch (CHR ''-''));
          s2 = (if peek s1 = ch (CHR ''+'') \<or> neg then drop 1 s1 else s1);
          (b', s3) = strtol_prefix b s2;
          (val, rest) = strtol_digits b' 0 s3
      in (sint (if neg then - val else val), rest))"

definition atoi :: "int list \<Rightarrow> int" where "atoi s = wrap32 (fst (strtol s 10))"

definition atol :: "int list \<Rightarrow> int" where "atol s = fst (strtol s 10)"

subsection \<open>Reading formats: sscanf\<close>

datatype stored = StoreInt u32 | StoreLong u64 | StoreStr "int list" | StoreChars "int list"

datatype 'a scan = Scanned 'a | Failed "stored list" | Stops

text \<open>\<open>SCANDIGITS\<close>: the value, the number of digits and the rest of the input.\<close>

definition scan_digit :: "nat \<Rightarrow> int \<Rightarrow> int option" where
  "scan_digit b sc =
     (if ch (CHR ''0'') \<le> sc \<and> sc \<le> ch (CHR ''9'') then Some (sc - ch (CHR ''0''))
      else if ch (CHR ''A'') \<le> sc \<and> sc \<le> ch (CHR ''A'') + int b - 10 then Some (10 + sc - ch (CHR ''A''))
      else if ch (CHR ''a'') \<le> sc \<and> sc \<le> ch (CHR ''a'') + int b - 10 then Some (10 + sc - ch (CHR ''a''))
      else None)"

fun scandigits :: "nat \<Rightarrow> u64 \<Rightarrow> nat \<Rightarrow> int list \<Rightarrow> u64 \<times> nat \<times> int list" where
  "scandigits b val n [] = (val, n, [])"
| "scandigits b val n (c # s) =
     (case scan_digit b (schar c) of
        Some d \<Rightarrow> scandigits b (val * of_nat b + of_int d) (n + 1) s
      | None \<Rightarrow> (val, n, c # s))"

text \<open>The look-ahead character is a plain \<open>char\<close>: at the end of the string it is 0, and a byte above 127 is
  negative. Moving past the end fails an assertion.\<close>

definition look :: "int list \<Rightarrow> int" where "look s = schar (peek s)"

definition skip_space :: "int list \<Rightarrow> int list" where "skip_space s = dropWhile (\<lambda>c. isspace (schar c)) s"

fun scan_chars :: "nat \<Rightarrow> int list \<Rightarrow> int list \<Rightarrow> (int list \<times> int list) scan" where
  "scan_chars 0 acc s = Scanned (acc, s)"
| "scan_chars (Suc n) acc s =
     (if look s < 0 then Failed [StoreChars acc]
      else case s of [] \<Rightarrow> Stops | c # s' \<Rightarrow> scan_chars n (acc @ [c]) s')"

fun scan_str :: "nat \<Rightarrow> int list \<Rightarrow> int list \<Rightarrow> (int list \<times> int list) scan" where
  "scan_str n acc [] = (if n = 0 then Scanned (acc, []) else Stops)"
| "scan_str n acc (c # s) =
     (if n = 0 then Scanned (acc, c # s)
      else if schar c < 0 then Failed [StoreChars acc]
      else if isspace (schar c) then Scanned (acc, c # s)
      else scan_str (n - 1) (acc @ [c]) s)"

definition scan_int :: "nat \<Rightarrow> nat \<Rightarrow> bool \<Rightarrow> int list \<Rightarrow> (stored list \<times> int list) scan" where
  "scan_int b lflag skip s =
     (let s1 = skip_space s;
          neg = (look s1 = ch (CHR ''-''));
          s2 = (if neg \<or> look s1 = ch (CHR ''+'') then drop 1 s1 else s1);
          (b', s3) = (if b = 0
            then if look s2 = ch (CHR ''0'')
              then if look (drop 1 s2) = ch (CHR ''x'') \<or> look (drop 1 s2) = ch (CHR ''X'') then (16, drop 2 s2)
                else (8, drop 1 s2)
              else (10, s2)
            else (b, s2));
          (val, ndig, s4) = scandigits b' 0 0 s3;
          v = (if neg then - val else val)
      in if ndig = 0 then Failed []
         else Scanned (if skip then [] else if lflag = 0 then [StoreInt (ucast v)] else [StoreLong v], s4))"

text \<open>The modifiers of a conversion: field width, number of \<open>l\<close>s, whether to skip; then the conversion character
  (0 at the end of the format) and the rest of the format.\<close>

fun scan_spec :: "int \<Rightarrow> nat \<Rightarrow> bool \<Rightarrow> int list \<Rightarrow> int \<times> int \<times> nat \<times> bool \<times> int list" where
  "scan_spec w l skip [] = (0, w, l, skip, [])"
| "scan_spec w l skip (c # f) =
     (if isdig c then scan_spec (wrap32 ((if w < 0 then 0 else w) * 10 + c - ch (CHR ''0''))) l skip f
      else if c = ch (CHR ''l'') then scan_spec w (l + 1) skip f
      else if c = ch (CHR ''*'') then scan_spec w l True f
      else (c, w, l, skip, f))"

lemma scan_spec_length: "scan_spec w l skip f = (c, w', l', skip', f') \<Longrightarrow> length f' \<le> length f"
  by (induction w l skip f rule: scan_spec.induct) (auto split: if_splits)

text \<open>A conversion: what it stores, how many elements that counts, and the rest of the input. Floating-point
  conversions are not part of the model; they and unknown characters stop it.\<close>

definition scan_conv :: "int \<Rightarrow> int \<Rightarrow> nat \<Rightarrow> bool \<Rightarrow> int list \<Rightarrow> (stored list \<times> nat \<times> int list) scan" where
  "scan_conv c w l skip s =
     (let num = (\<lambda>b. case scan_int b l skip s of
            Scanned (st, s') \<Rightarrow> Scanned (st, if skip then 0 else 1, s') | Failed st \<Rightarrow> Failed st | Stops \<Rightarrow> Stops)
      in if c = ch (CHR ''c'') then
           (case scan_chars (nat (if w < 0 then 1 else w)) [] s of
              Scanned (acc, s') \<Rightarrow> Scanned ([StoreChars acc], 1, s') | Failed st \<Rightarrow> Failed st | Stops \<Rightarrow> Stops)
         else if c = ch (CHR ''s'') then
           (case scan_str (nat (if w < 0 then 2147483647 else w)) [] (skip_space s) of
              Scanned (acc, s') \<Rightarrow> Scanned ([StoreStr acc], 1, s') | Failed st \<Rightarrow> Failed st | Stops \<Rightarrow> Stops)
         else if c = ch (CHR ''i'') then num 0
         else if c = ch (CHR ''d'') \<or> c = ch (CHR ''u'') then num 10
         else if c = ch (CHR ''x'') \<or> c = ch (CHR ''X'') then num 16
         else if c = ch (CHR ''o'') then num 8
         else Stops)"

definition scan_result :: "nat \<Rightarrow> int" where "scan_result nelt = (if 0 < nelt then int nelt else - 1)"

function vscanfmt :: "int list \<Rightarrow> nat \<Rightarrow> stored list \<Rightarrow> int list \<Rightarrow> (int \<times> stored list) option" where
  "vscanfmt [] nelt out s = Some (int nelt, out)"
| "vscanfmt (fc # f) nelt out s =
     (if look s < 0 then Some (scan_result nelt, out)
      else if isspace fc then vscanfmt (dropWhile isspace f) nelt out (skip_space s)
      else if fc \<noteq> ch (CHR ''%'') then
        (if look s \<noteq> fc then Some (scan_result nelt, out) else vscanfmt f nelt out (drop 1 s))
      else case scan_spec (- 1) 0 False f of (c, w, l, skip, f') \<Rightarrow>
        (case scan_conv c w l skip s of
           Scanned (st, n, s') \<Rightarrow> vscanfmt f' (nelt + n) (out @ st) s'
         | Failed st \<Rightarrow> Some (scan_result nelt, out @ st)
         | Stops \<Rightarrow> None))"
  by pat_completeness auto
termination
  by (relation "measure (\<lambda>(f, n, out, s). length f)")
    (auto simp: less_Suc_eq_le length_dropWhile_le dest: scan_spec_length [OF sym])

declare vscanfmt.simps [simp del]

definition sscanf :: "int list \<Rightarrow> int list \<Rightarrow> (int \<times> stored list) option" where
  "sscanf str fmt = vscanfmt fmt 0 [] str"

end
