(* ===== verification/FormatProps.thy ===== *)
theory FormatProps
  imports Format
begin

text \<open>
  Properties of formatted output and input: what is printed is read back as the same number, the digit
  buffer is large enough, and where the scanner goes wrong.
\<close>

subsection \<open>Digits\<close>

lemma digit_char_cases: "d < 16 \<Longrightarrow> digit_char d = (if d < 10 then 48 + int d else 87 + int d)"
proof -
  assume "d < 16"
  then have "d = 0 \<or> d = 1 \<or> d = 2 \<or> d = 3 \<or> d = 4 \<or> d = 5 \<or> d = 6 \<or> d = 7 \<or> d = 8 \<or> d = 9 \<or> d = 10 \<or>
      d = 11 \<or> d = 12 \<or> d = 13 \<or> d = 14 \<or> d = 15" by presburger
  then show ?thesis by (auto simp: digit_char_def ch_def)
qed

lemma strtol_digit_char [simp]: "d < 16 \<Longrightarrow> strtol_digit (digit_char d) = Some d"
  by (simp add: digit_char_cases strtol_digit_def ch_def)

lemma scan_digit_char [simp]: "d < b \<Longrightarrow> b \<le> 16 \<Longrightarrow> scan_digit b (digit_char d) = Some (int d)"
  by (simp add: digit_char_cases scan_digit_def ch_def)

lemma digit_char_range: "d < 16 \<Longrightarrow> 48 \<le> digit_char d \<and> digit_char d \<le> 102"
  by (simp add: digit_char_cases)

lemma mod_base: "1 < b \<Longrightarrow> b \<le> 16 \<Longrightarrow> n mod b < (16 :: nat)"
  using mod_less_divisor [of b n] by linarith

lemma genint_sign: "genint b sc num = (if 0 \<le> sc then [sc] else []) @ genint b (- 1) num"
  by (induction b sc num rule: genint.induct) (subst genint.simps, subst (2) genint.simps, simp)

lemma genint_digits: "1 < b \<Longrightarrow> b \<le> 16 \<Longrightarrow> c \<in> set (genint b (- 1) num) \<Longrightarrow> 48 \<le> c \<and> c \<le> 102"
proof (induction b "- 1 :: int" num rule: genint.induct)
  case (1 b num)
  have "c = digit_char (num mod b) \<or> b \<le> num \<and> c \<in> set (genint b (- 1) (num div b))"
    using 1(4) unfolding genint.simps [of b "- 1" num] by (auto split: if_splits)
  with 1(1-3) mod_base [OF 1(2,3), of num] show ?case using digit_char_range by blast
qed

lemma genint_nonempty: "genint b sc num \<noteq> []"
  by (subst genint.simps) simp

lemma genint_length: "1 < b \<Longrightarrow> num < b ^ k \<Longrightarrow> 0 < k \<Longrightarrow> length (genint b (- 1) num) \<le> k"
proof (induction k arbitrary: num)
  case (Suc k)
  show ?case
  proof (cases "b \<le> num")
    case True
    then have "0 < k" using Suc.prems(2) by (cases k) auto
    moreover have "num div b < b ^ k" using Suc.prems(1,2) by (simp add: less_mult_imp_div_less mult.commute)
    ultimately show ?thesis using Suc.IH [of "num div b"] Suc.prems(1) True by (subst genint.simps) simp
  next
    case False
    then show ?thesis by (subst genint.simps) simp
  qed
qed simp

subsection \<open>Parsing what was printed\<close>

lemma strtol_genint:
  "1 < b \<Longrightarrow> b \<le> 16 \<Longrightarrow> strtol_digits b 0 (genint b (- 1) num @ rest) = strtol_digits b (of_nat num) rest"
proof (induction b "- 1 :: int" num arbitrary: rest rule: genint.induct)
  case (1 b num)
  have m: "num mod b < b" "num mod b < 16" using 1(2,3) by (simp_all add: mod_base)
  have v: "(of_nat (num div b) * of_nat b + of_nat (num mod b) :: u64) = of_nat num"
    by (metis div_mult_mod_eq of_nat_add of_nat_mult)
  show ?case
  proof (cases "b \<le> num")
    case True
    then show ?thesis using 1 m v by (subst genint.simps) (simp add: not_le [THEN iffD2, OF m(1)])
  next
    case False
    then show ?thesis using 1(2,3) m by (subst genint.simps) simp
  qed
qed

lemma scan_genint:
  "1 < b \<Longrightarrow> b \<le> 16 \<Longrightarrow> scandigits b 0 k (genint b (- 1) num @ rest) =
     scandigits b (of_nat num) (k + length (genint b (- 1) num)) rest"
proof (induction b "- 1 :: int" num arbitrary: rest k rule: genint.induct)
  case (1 b num)
  have m: "num mod b < b" "num mod b < 16" using 1(2,3) by (simp_all add: mod_base)
  have s: "schar (digit_char (num mod b)) = digit_char (num mod b)"
    using digit_char_range [OF m(2)] by (simp add: schar_def)
  have v: "(of_nat (num div b) * of_nat b + of_nat (num mod b) :: u64) = of_nat num"
    by (metis div_mult_mod_eq of_nat_add of_nat_mult)
  show ?case
  proof (cases "b \<le> num")
    case True
    have "(word_of_int (int num mod int b) :: u64) = of_nat (num mod b)" by (simp flip: zmod_int)
    then show ?thesis using 1 m s v True by (subst (1 2) genint.simps) simp
  next
    case False
    then show ?thesis using 1(2,3) m s by (subst (1 2) genint.simps) simp
  qed
qed

text \<open>Printing without a field width adds nothing to the digits.\<close>

lemma putpad_neg [simp]: "w \<le> 0 \<Longrightarrow> putpad c w = ([], w - 1)"
  by (simp add: putpad.simps)

lemma putint_plain:
  assumes "width st < 0" and "\<not> fset (flags st) F_ALT" and "signc st < 128" and "1 < b" "b \<le> 16"
  shows "putint st num b = genint b (signc st) (unat num)"
proof -
  have "alt_char (flags st) c = c" if "c \<in> set (genint b (signc st) (unat num))" for c
    using that assms genint_digits [of b c "unat num"]
    by (auto simp: genint_sign [of b "signc st"] alt_char_def schar_def split: if_splits)
  then have "map (alt_char (flags st)) (genint b (signc st) (unat num)) = genint b (signc st) (unat num)"
    by (simp add: map_idI)
  then show ?thesis using assms(1,2) by (simp add: putint_def putstr_def Let_def)
qed

lemma fmt_ld: "vprintfmt (map ch ''%ld'') [VWord w] =
    Some (genint 10 (if sint w < 0 then ch (CHR ''-'') else - 1) (unat (if sint w < 0 then - w else w)))"
proof -
  let ?st = "print_start\<lparr>flags := flags print_start OR F_L\<rparr>"
  have fl: "fset (flags ?st) F_L" "\<not> fset (flags ?st) F_LL" "\<not> fset (flags ?st) F_ALT" "\<not> fset (flags print_start) F_L"
    by (simp_all add: fset_def print_start_def F_L_def F_LL_def F_ALT_def)
  have c: "convert (ch (CHR ''d'')) ?st [VWord w] =
      Some (Some (if sint w < 0 then putint (?st\<lparr>signc := ch (CHR ''-'')\<rparr>) (- w) 10 else putint ?st w 10, []))"
    using fl by (simp add: convert_def va_word_def getint_def ch_def)
  have p: "putint (?st\<lparr>signc := ch (CHR ''-'')\<rparr>) (- w) 10 = genint 10 (ch (CHR ''-'')) (unat (- w))"
    "putint ?st w 10 = genint 10 (- 1) (unat w)"
    using fl(3) by (subst putint_plain; simp add: print_start_def ch_def)+
  have e1: "escape_char (ch (CHR ''l'')) (map ch ''d'') print_start [VWord w] = Modify (map ch ''d'') ?st [VWord w]"
    using fl(4) by (simp add: escape_char_def isdig_def ch_def)
  have e2: "escape_char (ch (CHR ''d'')) [] ?st [VWord w] =
      Print (genint 10 (if sint w < 0 then ch (CHR ''-'') else - 1) (unat (if sint w < 0 then - w else w))) [] []"
    using c p by (simp add: escape_char_def isdig_def) (simp add: ch_def)
  show ?thesis using e1 e2 by (simp add: ch_def)
qed

subsection \<open>Reading back what was printed\<close>

lemma genint_hd: "1 < b \<Longrightarrow> b \<le> 16 \<Longrightarrow> 48 \<le> hd (genint b (- 1) num) \<and> hd (genint b (- 1) num) \<le> 102"
  using genint_digits genint_nonempty hd_in_set by blast

lemma dropWhile_hd: "xs \<noteq> [] \<Longrightarrow> \<not> Q (hd xs) \<Longrightarrow> dropWhile Q xs = xs"
  by (cases xs) simp_all

lemma genint_minus: "genint b (ch (CHR ''-'')) num = ch (CHR ''-'') # genint b (- 1) num"
  using genint_sign [of b "ch (CHR ''-'')" num] by (simp add: ch_def)

lemma strtol_printed:
  "strtol (genint 10 (- 1) num) 10 = (sint (of_nat num :: u64), [])"
  "strtol (genint 10 (ch (CHR ''-'')) num) 10 = (sint (- of_nat num :: u64), [])"
proof -
  let ?g = "genint 10 (- 1) num"
  have hd: "48 \<le> hd ?g" "peek ?g = hd ?g" and ne: "?g \<noteq> []"
    using genint_hd [of 10 num] genint_nonempty [of 10 "- 1" num] by (auto simp: peek_def split: list.splits)
  have w: "dropWhile (\<lambda>c. c = ch (CHR '' '') \<or> c = 9) ?g = ?g"
    using hd ne by (intro dropWhile_hd) (auto simp: ch_def)
  have d: "strtol_digits 10 0 ?g = (of_nat num, [])" using strtol_genint [of 10 num "[]"] by simp
  have p: "strtol_prefix 10 s = (10, s)" for s by (simp add: strtol_prefix_def)
  have "peek ?g \<noteq> ch (CHR ''-'')" "peek ?g \<noteq> ch (CHR ''+'')" using hd by (auto simp: ch_def)
  then show "strtol ?g 10 = (sint (of_nat num :: u64), [])" using w d by (simp add: strtol_def p)
  show "strtol (genint 10 (ch (CHR ''-'')) num) 10 = (sint (- of_nat num :: u64), [])"
    unfolding genint_minus using d by (simp add: strtol_def p peek_def ch_def)
qed

lemma scan_int_printed:
  "scan_int 10 1 False (genint 10 (- 1) num) = Scanned ([StoreLong (of_nat num)], [])"
  "scan_int 10 1 False (genint 10 (ch (CHR ''-'')) num) = Scanned ([StoreLong (- of_nat num)], [])"
proof -
  let ?g = "genint 10 (- 1) num"
  have hd: "48 \<le> hd ?g" "hd ?g \<le> 102" and ne: "?g \<noteq> []"
    using genint_hd [of 10 num] genint_nonempty [of 10 "- 1" num] by auto
  have l: "look ?g = hd ?g" using hd ne by (auto simp: look_def peek_def schar_def split: list.splits)
  have k: "skip_space ?g = ?g"
    unfolding skip_space_def using hd ne by (intro dropWhile_hd) (auto simp: isspace_def schar_def)
  obtain m where m: "scandigits 10 0 0 ?g = (of_nat num, Suc m, [])"
    using scan_genint [of 10 0 num "[]"] ne by (cases "length ?g") auto
  show "scan_int 10 1 False ?g = Scanned ([StoreLong (of_nat num)], [])"
    using hd l k m by (simp add: scan_int_def ch_def)
  show "scan_int 10 1 False (genint 10 (ch (CHR ''-'')) num) = Scanned ([StoreLong (- of_nat num)], [])"
    unfolding genint_minus using m
    by (simp add: scan_int_def skip_space_def isspace_def schar_def ch_def look_def peek_def)
qed

lemma sscanf_ld:
  assumes "scan_int 10 1 False s = Scanned ([StoreLong v], [])" and "0 \<le> look s"
  shows "sscanf s (map ch ''%ld'') = Some (1, [StoreLong v])"
proof -
  have c: "ch (CHR ''%'') = 37" "ch (CHR ''l'') = 108" "ch (CHR ''d'') = 100" by (simp_all add: ch_def)
  have spec: "scan_spec (- 1) 0 False [108, 100] = (100, - 1, 1, False, [])"
    by (simp add: isdig_def ch_def)
  have conv: "scan_conv 100 (- 1) 1 False s = Scanned ([StoreLong v], 1, [])"
    using assms(1) by (simp add: scan_conv_def ch_def)
  show ?thesis using assms(2) spec conv
    by (simp add: sscanf_def c) (simp add: vscanfmt.simps isspace_def c)
qed

lemma look_printed: "0 \<le> look (genint 10 (- 1) num)" "0 \<le> look (genint 10 (ch (CHR ''-'')) num)"
  unfolding genint_minus using genint_hd [of 10 num] genint_nonempty [of 10 "- 1" num]
  by (auto simp: look_def peek_def schar_def ch_def split: list.splits)

lemmas scan_printed = sscanf_ld [OF scan_int_printed(1) look_printed(1)] sscanf_ld [OF scan_int_printed(2) look_printed(2)]

text \<open>C35: A number printed with \<open>%ld\<close> is read back as the same number, by \<open>strtol\<close> and by \<open>sscanf\<close>, for every
  64-bit value: also for the most negative one, whose absolute value only exists as an unsigned number.\<close>

theorem printed_number_reads_back:
  "\<exists>out. vprintfmt (map ch ''%ld'') [VWord w] = Some out \<and>
     strtol out 10 = (sint w, []) \<and> sscanf out (map ch ''%ld'') = Some (1, [StoreLong w])"
proof (cases "sint w < 0")
  case True
  then show ?thesis using fmt_ld [of w] strtol_printed(2) [of "unat (- w)"] scan_printed(2) [of "unat (- w)"] by simp
next
  case False
  then show ?thesis using fmt_ld [of w] strtol_printed(1) [of "unat w"] scan_printed(1) [of "unat w"] by simp
qed

subsection \<open>Bounds\<close>

text \<open>The 30 bytes reserved for the digits of a number are enough in every base the formats use.\<close>

lemma genint_fits:
  fixes num :: u64
  assumes "8 \<le> b"
  shows "length (genint b sc (unat num)) \<le> 23"
proof -
  have "unat num < 2 ^ 64" using unsigned_less [of num] by simp
  also have "(2 :: nat) ^ 64 \<le> 8 ^ 22" by simp
  also have "(8 :: nat) ^ 22 \<le> b ^ 22" using assms by (rule power_mono) simp
  finally have "length (genint b (- 1) (unat num)) \<le> 22" using assms by (intro genint_length) auto
  then show ?thesis by (simp add: genint_sign [of b sc])
qed

text \<open>\<open>vsnprintf\<close> never stores more bytes than the buffer has, always ends what it stores with a null byte,
  and returns the length the complete output has; the output is stored complete exactly when that length is less
  than the size of the buffer.\<close>

theorem vsnprintf_bounds:
  assumes "0 < n" and "vprintfmt fmt ap = Some out" and "length out < 2 ^ 31"
  shows "\<exists>buf. vsnprintf n fmt ap = Some (int (length out), buf) \<and> length buf \<le> n \<and> last buf = 0 \<and>
    butlast buf = map (\<lambda>c. c mod 256) (take (n - 1) out) \<and>
    (length (butlast buf) = length out \<longleftrightarrow> length out < n)"
  using assms by (auto simp: vsnprintf_def cassert_def wrap32_def)

subsection \<open>Where the scanner goes wrong\<close>

lemma scan_str_end:
  assumes "\<forall>c\<in>set s. 0 < c \<and> c < 128 \<and> \<not> isspace c" and "length s < n"
  shows "scan_str n acc s = Stops"
  using assms by (induction s arbitrary: n acc) (auto simp: schar_def)

text \<open>\<open>sscanf\<close> with \<open>%s\<close> fails an assertion whenever the word it reads ends where the string ends: the end
  of the string is looked up as character 0, which is neither negative nor white space, so that the scanner
  stores it and tries to move past it.\<close>

theorem sscanf_word_panics:
  assumes "\<forall>c\<in>set s. 0 < c \<and> c < 128 \<and> \<not> isspace c" and "length s < 2147483647"
  shows "sscanf s (map ch ''%s'') = None"
proof -
  have c: "ch (CHR ''%'') = 37" "ch (CHR ''s'') = 115" by (simp_all add: ch_def)
  have k: "skip_space s = s" using assms(1) by (cases s) (auto simp: skip_space_def schar_def)
  have l: "0 \<le> look s" using assms(1) by (cases s) (auto simp: look_def peek_def schar_def)
  have spec: "scan_spec (- 1) 0 False [115] = (115, - 1, 0, False, [])" by (simp add: isdig_def ch_def)
  have conv: "scan_conv 115 (- 1) 0 False s = Stops"
    using scan_str_end [OF assms(1), of 2147483647 "[]"] assms(2) k by (simp add: scan_conv_def ch_def)
  show ?thesis using l spec conv by (simp add: sscanf_def c) (simp add: vscanfmt.simps isspace_def c)
qed

theorem sscanf_word_panics_witness: "sscanf (map ch ''word'') (map ch ''%s'') = None"
  using sscanf_word_panics [of "map ch ''word''"] by (simp add: isspace_def ch_def)

lemma printed_hello: "vprintfmt (map ch ''hello'') [] = Some (map ch ''hello'')"
  by (simp add: ch_def)

theorem vsnprintf_bounds_witness:
  "\<exists>buf. vsnprintf 4 (map ch ''hello'') [] = Some (5, buf) \<and> length buf \<le> 4 \<and> last buf = 0 \<and>
    butlast buf = map (\<lambda>c. c mod 256) (take 3 (map ch ''hello''))"
  using vsnprintf_bounds [OF _ printed_hello, of 4] by auto

text \<open>Zero padding is put before the sign.\<close>

lemma zero_padding_before_sign: "vprintfmt (map ch ''%05ld'') [VWord (- 5)] = Some (map ch ''000-5'')"
  by code_simp

text \<open>The digits of \<open>SCANDIGITS\<close> reach one too far: \<open>A\<close> is a decimal digit and \<open>g\<close> a hexadecimal one.\<close>

lemma digit_one_too_many:
  "sscanf (map ch ''1A'') (map ch ''%ld'') = Some (1, [StoreLong 20])"
  "sscanf (map ch ''g'') (map ch ''%lx'') = Some (1, [StoreLong 16])"
  by code_simp+

text \<open>A plain zero is no number for \<open>%i\<close>: its digit is taken as the octal prefix.\<close>

lemma zero_is_no_number: "sscanf (map ch ''0'') (map ch ''%i'') = Some (- 1, [])"
  by code_simp

end
