(* ===== verification/Threads.thy ===== *)
theory Threads
  imports Cow Kernel Reconcile
begin

text \<open>
  Deterministic threads: \<open>lib/pthread.c\<close> and the fork and join of \<open>lib/thread.c\<close>. A thread is a child
  process whose address space starts as a copy of its parent's. While it runs it is alone; its
  changes to the shared region come back when the parent joins it, by the kernel's three-way merge
  against the snapshot taken when it was started.

  The system calls appear here through their effect on the contents of address spaces. \<open>SYS_COPY\<close> copies
  contents, \<open>SYS_SNAP\<close> remembers the child's contents, \<open>SYS_MERGE\<close> merges page by page: a page with no
  conflicting byte becomes the byte-wise merge, a page with a conflict is unmapped, as
  \<open>pmap_mergepage\<close> does. An unmapped page reads as the zero page when something is merged into it. A page counts as
  changed by the child when one of its bytes is.

  What a thread does between two stops is a function of its own memory and files; the number of the trap
  and the register \<open>rdx\<close> say why it stopped.
\<close>

subsection \<open>Address spaces\<close>

definition VM_SHARELO :: nat where "VM_SHARELO = VM_USERLO"
definition VM_SHAREHI :: nat where "VM_SHAREHI = VM_USERLO + 0x40000000"

record uspace =
  us_bytes :: "nat \<Rightarrow> u8"
  us_gone :: "nat \<Rightarrow> bool"

definition shared :: "nat \<Rightarrow> bool" where "shared a \<longleftrightarrow> VM_SHARELO \<le> a \<and> a < VM_SHAREHI"

text \<open>The contents after \<open>SYS_ZERO\<close> of the whole address space.\<close>

definition zero_space :: uspace where "zero_space = \<lparr>us_bytes = (\<lambda>_. 0), us_gone = (\<lambda>_. True)\<rparr>"

definition page_changed :: "uspace \<Rightarrow> uspace \<Rightarrow> nat \<Rightarrow> bool" where
  "page_changed r s pg \<longleftrightarrow>
     list_ex (\<lambda>i. us_bytes s (pg * PAGESIZE + i) \<noteq> us_bytes r (pg * PAGESIZE + i)) [0..<PAGESIZE]"

definition page_conflict :: "uspace \<Rightarrow> uspace \<Rightarrow> uspace \<Rightarrow> nat \<Rightarrow> bool" where
  "page_conflict r s d pg \<longleftrightarrow>
     list_ex (\<lambda>i. conflict3 (us_bytes r (pg * PAGESIZE + i)) (us_bytes s (pg * PAGESIZE + i))
       (us_bytes d (pg * PAGESIZE + i))) [0..<PAGESIZE]"

text \<open>\<open>SYS_GET | SYS_MERGE\<close> of the shared region: snapshot \<open>r\<close>, child \<open>s\<close>, parent \<open>d\<close>.\<close>

definition merge_shared :: "uspace \<Rightarrow> uspace \<Rightarrow> uspace \<Rightarrow> uspace" where
  "merge_shared r s d =
     \<lparr>us_bytes = (\<lambda>a. if shared a
        then if page_conflict r s d (a div PAGESIZE) then 0 else merge3 (us_bytes r a) (us_bytes s a) (us_bytes d a)
        else us_bytes d a),
      us_gone = (\<lambda>pg. if shared (pg * PAGESIZE)
        then page_conflict r s d pg \<or> us_gone d pg \<and> \<not> page_changed r s pg
        else us_gone d pg)\<rparr>"

text \<open>\<open>SYS_PUT | SYS_COPY\<close> of the shared region.\<close>

definition copy_shared :: "uspace \<Rightarrow> uspace \<Rightarrow> uspace" where
  "copy_shared src dst =
     \<lparr>us_bytes = (\<lambda>a. if shared a then us_bytes src a else us_bytes dst a),
      us_gone = (\<lambda>pg. if shared (pg * PAGESIZE) then us_gone src pg else us_gone dst pg)\<rparr>"

subsection \<open>Threads and their parent\<close>

text \<open>The thread fields of the file and process state.\<close>

record thfiles = filestate +
  th_stat :: u64
  th_barriers :: "nat \<Rightarrow> int"

type_synonym segment = "uspace \<Rightarrow> thfiles \<Rightarrow> uspace \<times> thfiles \<times> u64 \<times> u64"

text \<open>A child process: its memory, the snapshot, its files, why it stopped (\<open>None\<close>: it is still running, for
  ever), and what it will do when it is started again.\<close>

record kid =
  k_mem :: uspace
  k_snap :: uspace
  k_files :: thfiles
  k_stop :: "(u64 \<times> u64) option"
  k_prog :: "segment list"

record tproc =
  tp_mem :: uspace
  tp_files :: thfiles
  tp_kids :: "nat \<Rightarrow> kid"

definition kid_start :: "kid \<Rightarrow> kid" where
  "kid_start k = (case k_prog k of
       [] \<Rightarrow> k\<lparr>k_stop := None\<rparr>
     | f # fs \<Rightarrow> (case f (k_mem k) (k_files k) of
         (m, fl, trap, rdx) \<Rightarrow> k\<lparr>k_mem := m, k_files := fl, k_stop := Some (trap, rdx), k_prog := fs\<rparr>))"

definition set_kid :: "nat \<Rightarrow> kid \<Rightarrow> tproc \<Rightarrow> tproc" where
  "set_kid th k st = st\<lparr>tp_kids := (tp_kids st)(th := k)\<rparr>"

definition upd_files :: "(thfiles \<Rightarrow> thfiles) \<Rightarrow> tproc \<Rightarrow> tproc" where
  "upd_files f st = st\<lparr>tp_files := f (tp_files st)\<rparr>"

definition tp_errno :: "int \<Rightarrow> tproc \<Rightarrow> tproc" where
  "tp_errno e = upd_files (\<lambda>fs. fs\<lparr>fs_err := e\<rparr>)"

definition child_state :: "nat \<Rightarrow> int \<Rightarrow> tproc \<Rightarrow> tproc" where
  "child_state th v = upd_files (\<lambda>fs. fs\<lparr>fs_child := (fs_child fs)(th := v)\<rparr>)"

text \<open>\<open>sys_get(SYS_MERGE | SYS_REGS, th, ...)\<close>: wait for the child, merge the shared region; the trap
  number and \<open>rdx\<close> of the child. \<open>None\<close> when the child never stops.\<close>

definition get_merge :: "nat \<Rightarrow> tproc \<Rightarrow> ((u64 \<times> u64) \<times> tproc) option" where
  "get_merge th st =
     (let k = tp_kids st th
      in map_option (\<lambda>stop. (stop, st\<lparr>tp_mem := merge_shared (k_snap k) (k_mem k) (tp_mem st)\<rparr>)) (k_stop k))"

text \<open>\<open>sys_put(SYS_COPY | SYS_SNAP | SYS_START, th, ...)\<close> of the shared region: also \<open>tresume\<close>.\<close>

definition tresume :: "nat \<Rightarrow> tproc \<Rightarrow> tproc" where
  "tresume th st =
     (let k = tp_kids st th; m = copy_shared (tp_mem st) (k_mem k)
      in set_kid th (kid_start (k\<lparr>k_mem := m, k_snap := m\<rparr>)) st)"

subsection \<open>Creating a thread\<close>

text \<open>What the child does first, to its own copy of the files.\<close>

definition thread_init :: "nat \<Rightarrow> thfiles \<Rightarrow> thfiles" where
  "thread_init th fs = fs\<lparr>fs_child := (\<lambda>_. 0)(0 := UPROC_RESERVED),
     fs_fi := (\<lambda>i. if 1 \<le> i \<and> i < FILE_INODES \<and> fileino_alloced (int i) (filestate.truncate fs)
       then (fs_fi fs i)\<lparr>fi_rino := int i, fi_rver := fi_ver (fs_fi fs i), fi_rlen := fi_size (fs_fi fs i)\<rparr>
       else fs_fi fs i),
     th_stat := of_nat th\<rparr>"

text \<open>The last run of a thread: the rest of \<open>start_routine\<close>, and the return of its value to the parent.\<close>

definition thread_main :: "(uspace \<Rightarrow> thfiles \<Rightarrow> uspace \<times> thfiles \<times> u64) \<Rightarrow> segment" where
  "thread_main body m fs =
     (case body m fs of (m', fs', v) \<Rightarrow> (m', fs'\<lparr>th_stat := v\<rparr>, T_SYSCALL, v AND 0xFFFFFFFF))"

definition pthread_self :: "thfiles \<Rightarrow> int" where
  "pthread_self fs = wrap32 (wrap32 (uint (th_stat fs)) - 1)"

text \<open>The result is the return value, the new thread's number and the new state. \<open>prog\<close> is what the new thread
  does.\<close>

definition pthread_create :: "segment list \<Rightarrow> tproc \<Rightarrow> int \<times> nat option \<times> tproc" where
  "pthread_create prog st =
     (case List.find (\<lambda>th. fs_child (tp_files st) th = UPROC_FREE) [1..<256] of
        None \<Rightarrow> (- 1, None, tp_errno EAGAIN st)
      | Some th \<Rightarrow>
          let k = kid_start \<lparr>k_mem = tp_mem st, k_snap = tp_mem st, k_files = thread_init th (tp_files st),
                k_stop = None, k_prog = prog\<rparr>
          in (0, Some th, child_state th UPROC_FORKED (set_kid th k st)))"

subsection \<open>Barriers\<close>

definition EXIT_BARRIER :: u32 where "EXIT_BARRIER = 0x80000000"
definition BARRIER_MASK :: u32 where "BARRIER_MASK = 0xff"
definition BARRIER_READ :: "u32 \<Rightarrow> nat" where "BARRIER_READ b = unat (b AND BARRIER_MASK)"
definition BARRIER_WRITE :: "nat \<Rightarrow> u32" where "BARRIER_WRITE b = EXIT_BARRIER OR of_nat b"
definition BARRIER_MAX :: nat where "BARRIER_MAX = 256"

definition pthread_barrier_init :: "u32 \<Rightarrow> tproc \<Rightarrow> int \<times> nat option \<times> tproc" where
  "pthread_barrier_init count st =
     (if count = 0 \<or> 256 \<le> unat count then (- 1, None, tp_errno EINVAL st)
      else case List.find (\<lambda>b. th_barriers (tp_files st) b = 0) [0..<BARRIER_MAX] of
          None \<Rightarrow> (- 1, None, tp_errno EAGAIN st)
        | Some b \<Rightarrow> (0, Some b, upd_files (\<lambda>fs. fs\<lparr>th_barriers := (th_barriers fs)(b := sint count)\<rparr>) st))"

definition pthread_barrier_destroy :: "int \<Rightarrow> tproc \<Rightarrow> int \<times> tproc" where
  "pthread_barrier_destroy b st =
     (if b < 0 \<or> int BARRIER_MAX \<le> b then (- 1, tp_errno EINVAL st)
      else (0, upd_files (\<lambda>fs. fs\<lparr>th_barriers := (th_barriers fs)(nat b := 0)\<rparr>) st))"

text \<open>In a thread: either an error, or the thread stops with the barrier's number.\<close>

definition pthread_barrier_wait :: "nat option \<Rightarrow> uspace \<Rightarrow> thfiles \<Rightarrow> (int \<times> thfiles) + (uspace \<times> thfiles \<times> u64 \<times> u64)" where
  "pthread_barrier_wait barrier m fs =
     (case barrier of
        None \<Rightarrow> Inl (- 1, fs\<lparr>fs_err := EINVAL\<rparr>)
      | Some b \<Rightarrow> if th_barriers fs b \<le> 0 then Inl (- 1, fs\<lparr>fs_err := EINVAL\<rparr>)
          else Inr (m, fs, T_SYSCALL, ucast (BARRIER_WRITE b)))"

text \<open>How a library call ends: with a result, in a failed assertion, waiting for a thread that never stops, or not yet
  within the rounds it was given.\<close>

datatype 'a outcome = Done 'a | Panic | Waits | More

text \<open>The loop that collects the other threads at the barrier. \<open>Inl\<close>: a thread stopped with an unexpected trap.\<close>

fun barrier_collect :: "nat list \<Rightarrow> nat \<Rightarrow> nat \<Rightarrow> int \<Rightarrow> nat list \<Rightarrow> tproc \<Rightarrow> (tproc + nat list \<times> tproc) outcome" where
  "barrier_collect [] first barrier count threads st = Done (Inr (threads, st))"
| "barrier_collect (th # ths) first barrier count threads st =
     (if \<not> int (length threads) < count then Done (Inr (threads, st))
      else if th = first \<or> fs_child (tp_files st) th \<noteq> UPROC_FORKED then barrier_collect ths first barrier count threads st
      else case get_merge th st of
          None \<Rightarrow> Waits
        | Some ((trapno, rdx), st') \<Rightarrow>
            if trapno \<noteq> T_SYSCALL then Done (Inl (tp_errno EINVAL st'))
            else if barrier \<noteq> BARRIER_READ (ucast rdx) then Panic
            else barrier_collect ths first barrier count (threads @ [th]) st')"

definition wait_at_barrier :: "nat \<Rightarrow> nat \<Rightarrow> tproc \<Rightarrow> (int \<times> tproc) outcome" where
  "wait_at_barrier first barrier st =
     (let count = th_barriers (tp_files st) barrier
      in case barrier_collect [1..<256] first barrier count [first] st of
          Done (Inl st') \<Rightarrow> Done (- 1, st')
        | Done (Inr (threads, st')) \<Rightarrow>
            if int (length threads) < count then Done (int (length threads), tp_errno EINVAL st')
            else Done (0, fold tresume (take (nat count) threads) st')
        | Panic \<Rightarrow> Panic | Waits \<Rightarrow> Waits | More \<Rightarrow> More)"

subsection \<open>Joining a thread\<close>

definition join_done :: "nat \<Rightarrow> tproc \<Rightarrow> tproc" where
  "join_done th st = child_state th UPROC_FREE
     (set_kid th ((tp_kids st th)\<lparr>k_mem := zero_space\<rparr>) (upd_files (\<lambda>fs. fs\<lparr>th_stat := 0\<rparr>) st))"

text \<open>The loop of \<open>pthread_join\<close>, for at most \<open>n\<close> rounds; the result is the return value and the exit value.\<close>

fun join_loop :: "nat \<Rightarrow> nat \<Rightarrow> tproc \<Rightarrow> ((int \<times> int) \<times> tproc) outcome" where
  "join_loop 0 th st = More"
| "join_loop (Suc n) th st =
     (case get_merge th st of
        None \<Rightarrow> Waits
      | Some ((trapno, rdx), st1) \<Rightarrow>
          if trapno \<noteq> T_SYSCALL then Done ((- 1, - 1), join_done th (tp_errno EINVAL st1))
          else let status = ucast rdx :: u32 in
            if status AND EXIT_BARRIER = 0 then Done ((0, sint status), join_done th st1)
            else case wait_at_barrier th (BARRIER_READ status) st1 of
                Done (ret, st2) \<Rightarrow>
                  if ret = - 1 then Done ((- 1, sint status), join_done th (tp_errno EINVAL st2))
                  else if 0 < ret then Done ((- 1, sint status), join_done th (tp_errno EAGAIN st2))
                  else join_loop n th st2
              | Panic \<Rightarrow> Panic | Waits \<Rightarrow> Waits | More \<Rightarrow> More)"

definition pthread_join :: "nat \<Rightarrow> nat \<Rightarrow> tproc \<Rightarrow> ((int \<times> int) \<times> tproc) outcome" where
  "pthread_join rounds th st = join_loop rounds th st"

subsection \<open>Running a parallel section\<close>

text \<open>The loops of \<open>tparallel_internal\<close>: create the threads, all with the same start routine, then join them in the
  order of their creation. \<open>Inl\<close> is \<open>EXIT_FAILURE\<close>.\<close>

fun create_loop :: "nat \<Rightarrow> segment list \<Rightarrow> tproc \<Rightarrow> tproc + nat list \<times> tproc" where
  "create_loop 0 prog st = Inr ([], st)"
| "create_loop (Suc n) prog st =
     (case pthread_create prog st of
        (ret, Some th, st1) \<Rightarrow>
          if ret \<noteq> 0 then Inl st1
          else (case create_loop n prog st1 of Inl st2 \<Rightarrow> Inl st2 | Inr (ths, st2) \<Rightarrow> Inr (th # ths, st2))
      | (ret, None, st1) \<Rightarrow> Inl st1)"

fun join_all :: "nat \<Rightarrow> nat list \<Rightarrow> tproc \<Rightarrow> (tproc + int list \<times> tproc) outcome" where
  "join_all rounds [] st = Done (Inr ([], st))"
| "join_all rounds (th # ths) st =
     (case pthread_join rounds th st of
        Done ((ret, status), st1) \<Rightarrow>
          if ret \<noteq> 0 then Done (Inl st1)
          else (case join_all rounds ths st1 of
              Done (Inr (statuses, st2)) \<Rightarrow> Done (Inr (status # statuses, st2))
            | Done (Inl st2) \<Rightarrow> Done (Inl st2)
            | Panic \<Rightarrow> Panic | Waits \<Rightarrow> Waits | More \<Rightarrow> More)
      | Panic \<Rightarrow> Panic | Waits \<Rightarrow> Waits | More \<Rightarrow> More)"

text \<open>The exit values of the threads, or \<open>EXIT_FAILURE\<close>.\<close>

definition tparallel_internal :: "nat \<Rightarrow> int \<Rightarrow> segment list \<Rightarrow> tproc \<Rightarrow> (tproc + int list \<times> tproc) outcome" where
  "tparallel_internal rounds num_children prog st =
     (if \<not> (0 < num_children \<and> num_children < 256) \<or>
         list_ex (\<lambda>cn. fs_child (tp_files st) cn \<noteq> UPROC_FREE) [1..<256] then Panic
      else case create_loop (nat num_children) prog st of
          Inl st1 \<Rightarrow> Done (Inl st1)
        | Inr (ths, st1) \<Rightarrow> join_all rounds ths st1)"

text \<open>Starting a parallel section in a master thread of its own, and waiting for it: \<open>prog\<close> is the run of the master.
  \<open>Inl\<close>: the process exits with \<open>EXIT_FAILURE\<close>.\<close>

definition tparallel_begin :: "segment list \<Rightarrow> tproc \<Rightarrow> tproc + nat \<times> tproc" where
  "tparallel_begin prog st =
     (case pthread_create prog st of (ret, Some th, st1) \<Rightarrow> (if ret \<noteq> 0 then Inl st1 else Inr (th, st1)) | (_, None, st1) \<Rightarrow> Inl st1)"

definition tparallel_end :: "nat \<Rightarrow> nat \<Rightarrow> tproc \<Rightarrow> (tproc + tproc) outcome" where
  "tparallel_end rounds master st =
     (case pthread_join rounds master st of
        Done ((ret, status), st1) \<Rightarrow> Done (if ret \<noteq> 0 \<or> status \<noteq> 0 then Inl st1 else Inr st1)
      | Panic \<Rightarrow> Panic | Waits \<Rightarrow> Waits | More \<Rightarrow> More)"

subsection \<open>The plain fork and join of lib/thread.c\<close>

definition tfork :: "nat \<Rightarrow> segment list \<Rightarrow> tproc \<Rightarrow> int \<times> tproc" where
  "tfork child prog st =
     (let k = kid_start \<lparr>k_mem = tp_mem st, k_snap = tp_mem st,
            k_files = (tp_files st)\<lparr>fs_thself := int child\<rparr>, k_stop = None, k_prog = prog\<rparr>
      in (1, set_kid child k st))"

definition tjoin :: "nat \<Rightarrow> tproc \<Rightarrow> tproc outcome" where
  "tjoin child st = (case get_merge child st of
       None \<Rightarrow> Waits
     | Some ((trapno, _), st') \<Rightarrow> if trapno \<noteq> T_SYSCALL then Panic else Done st')"

end
