(* ===== verification/ThreadProps.thy ===== *)
theory ThreadProps
  imports Threads
begin

text \<open>
  What deterministic threads promise: changes to different bytes all arrive, whatever the order of the joins;
  a byte changed by two threads makes its page disappear; a barrier gives every thread the changes of
  all others.
\<close>

subsection \<open>Merging\<close>

lemma shared_page: "shared (a div PAGESIZE * PAGESIZE) \<longleftrightarrow> shared a"
  by (auto simp: shared_def VM_SHARELO_def VM_SHAREHI_def VM_USERLO_def PAGESIZE_def)

lemma shared_offset: "i < PAGESIZE \<Longrightarrow> shared (pg * PAGESIZE + i) \<longleftrightarrow> shared (pg * PAGESIZE)"
  using shared_page [of "pg * PAGESIZE + i"] by (simp add: PAGESIZE_def)

lemma page_conflict_iff:
  "page_conflict r s d pg \<longleftrightarrow>
    (\<exists>a. a div PAGESIZE = pg \<and> conflict3 (us_bytes r a) (us_bytes s a) (us_bytes d a))"
proof
  assume "page_conflict r s d pg"
  then obtain i where "i < PAGESIZE" "conflict3 (us_bytes r (pg * PAGESIZE + i)) (us_bytes s (pg * PAGESIZE + i))
       (us_bytes d (pg * PAGESIZE + i))" by (auto simp: page_conflict_def list_ex_iff)
  then show "\<exists>a. a div PAGESIZE = pg \<and> conflict3 (us_bytes r a) (us_bytes s a) (us_bytes d a)"
    by (intro exI [of _ "pg * PAGESIZE + i"]) simp
next
  assume "\<exists>a. a div PAGESIZE = pg \<and> conflict3 (us_bytes r a) (us_bytes s a) (us_bytes d a)"
  then obtain a where a: "a div PAGESIZE = pg" "conflict3 (us_bytes r a) (us_bytes s a) (us_bytes d a)" by blast
  then have "pg * PAGESIZE + a mod PAGESIZE = a" by auto
  with a(2) show "page_conflict r s d pg"
    unfolding page_conflict_def list_ex_iff by (intro bexI [of _ "a mod PAGESIZE"]) (simp_all add: PAGESIZE_def)
qed

lemma page_changed_iff: "page_changed r s pg \<longleftrightarrow> (\<exists>a. a div PAGESIZE = pg \<and> us_bytes s a \<noteq> us_bytes r a)"
proof
  assume "page_changed r s pg"
  then obtain i where "i < PAGESIZE" "us_bytes s (pg * PAGESIZE + i) \<noteq> us_bytes r (pg * PAGESIZE + i)"
    by (auto simp: page_changed_def list_ex_iff)
  then show "\<exists>a. a div PAGESIZE = pg \<and> us_bytes s a \<noteq> us_bytes r a"
    by (intro exI [of _ "pg * PAGESIZE + i"]) simp
next
  assume "\<exists>a. a div PAGESIZE = pg \<and> us_bytes s a \<noteq> us_bytes r a"
  then obtain a where a: "a div PAGESIZE = pg" "us_bytes s a \<noteq> us_bytes r a" by blast
  then have "pg * PAGESIZE + a mod PAGESIZE = a" by auto
  with a(2) show "page_changed r s pg"
    unfolding page_changed_def list_ex_iff by (intro bexI [of _ "a mod PAGESIZE"]) (simp_all add: PAGESIZE_def)
qed

text \<open>The bytes a thread has changed in the shared region.\<close>

definition wrote :: "uspace \<Rightarrow> uspace \<Rightarrow> nat \<Rightarrow> bool" where
  "wrote m0 m a \<longleftrightarrow> shared a \<and> us_bytes m a \<noteq> us_bytes m0 a"

text \<open>The memory \<open>d\<close> of the parent holds the changes of the threads \<open>J\<close> and no others.\<close>

definition joined :: "uspace \<Rightarrow> (nat \<Rightarrow> uspace) \<Rightarrow> nat set \<Rightarrow> uspace \<Rightarrow> bool" where
  "joined m0 ms J d \<longleftrightarrow>
     (\<forall>i\<in>J. \<forall>a. wrote m0 (ms i) a \<longrightarrow> us_bytes d a = us_bytes (ms i) a) \<and>
     (\<forall>a. (\<forall>i\<in>J. \<not> wrote m0 (ms i) a) \<longrightarrow> us_bytes d a = us_bytes m0 a) \<and>
     us_gone d = us_gone m0"

definition races :: "uspace \<Rightarrow> (nat \<Rightarrow> uspace) \<Rightarrow> nat set \<Rightarrow> bool" where
  "races m0 ms J \<longleftrightarrow> (\<exists>i\<in>J. \<exists>j\<in>J. \<exists>a. i \<noteq> j \<and> wrote m0 (ms i) a \<and> wrote m0 (ms j) a)"

lemma joined_none: "joined m0 ms {} m0"
  by (simp add: joined_def)

lemma joined_no_conflict:
  assumes "joined m0 ms J d" and "i \<notin> J" and "\<not> races m0 ms (insert i J)" and "shared (pg * PAGESIZE)"
  shows "\<not> page_conflict m0 (ms i) d pg"
proof
  assume "page_conflict m0 (ms i) d pg"
  then obtain a where a: "a div PAGESIZE = pg" "us_bytes (ms i) a \<noteq> us_bytes m0 a" "us_bytes d a \<noteq> us_bytes m0 a"
    by (auto simp: page_conflict_iff conflict3_def)
  with assms(4) have "shared a" using shared_page [of a] by simp
  with a have "wrote m0 (ms i) a" by (simp add: wrote_def)
  moreover obtain j where "j \<in> J" "wrote m0 (ms j) a" using assms(1) a(3) unfolding joined_def by blast
  ultimately show False using assms(2,3) by (auto simp: races_def)
qed

lemma joined_step:
  assumes d: "joined m0 ms J d" and i: "i \<notin> J" and nr: "\<not> races m0 ms (insert i J)" and g: "\<And>pg. \<not> us_gone m0 pg"
  shows "joined m0 ms (insert i J) (merge_shared m0 (ms i) d)"
proof -
  note nc = joined_no_conflict [OF d i nr]
  have b: "us_bytes (merge_shared m0 (ms i) d) a = (if wrote m0 (ms i) a then us_bytes (ms i) a else us_bytes d a)" for a
    using nc [of "a div PAGESIZE"] by (auto simp: merge_shared_def wrote_def merge3_def shared_page)
  have gone: "us_gone (merge_shared m0 (ms i) d) = us_gone m0"
    using nc d g by (auto simp: merge_shared_def joined_def)
  have "us_bytes (merge_shared m0 (ms i) d) a = us_bytes (ms j) a" if "j \<in> insert i J" "wrote m0 (ms j) a" for j a
    using that nr i d by (auto simp: b races_def joined_def)
  moreover have "us_bytes (merge_shared m0 (ms i) d) a = us_bytes m0 a" if "\<forall>j\<in>insert i J. \<not> wrote m0 (ms j) a" for a
    using that d by (auto simp: b joined_def)
  ultimately show ?thesis using gone by (simp add: joined_def)
qed

lemma joined_unique:
  assumes "joined m0 ms J d" and "joined m0 ms J d'"
  shows "d = d'"
proof -
  have "us_bytes d a = us_bytes d' a" for a
  proof (cases "\<exists>i\<in>J. wrote m0 (ms i) a")
    case True
    then show ?thesis using assms unfolding joined_def by metis
  next
    case False
    then show ?thesis using assms unfolding joined_def by metis
  qed
  then show ?thesis using assms by (auto simp: joined_def intro!: uspace.equality)
qed

subsection \<open>Joining one thread\<close>

lemma tproc_frame [simp]:
  "tp_mem (set_kid th k st) = tp_mem st" "tp_files (set_kid th k st) = tp_files st"
  "tp_mem (upd_files f st) = tp_mem st" "tp_kids (upd_files f st) = tp_kids st"
  "tp_files (upd_files f st) = f (tp_files st)" "tp_kids (set_kid th k st) = (tp_kids st)(th := k)"
  "tp_mem (tp_errno e st) = tp_mem st" "tp_kids (tp_errno e st) = tp_kids st"
  "tp_mem (child_state th v st) = tp_mem st" "tp_kids (child_state th v st) = tp_kids st"
  by (simp_all add: set_kid_def upd_files_def tp_errno_def child_state_def)

lemma join_done_frame [simp]:
  "tp_mem (join_done th st) = tp_mem st"
  "tp_kids (join_done th st) = (tp_kids st)(th := (tp_kids st th)\<lparr>k_mem := zero_space\<rparr>)"
  by (simp_all add: join_done_def)

definition exits :: "u64 \<Rightarrow> bool" where
  "exits rdx \<longleftrightarrow> (ucast rdx :: u32) AND EXIT_BARRIER = 0"

lemma join_exited:
  assumes "k_stop (tp_kids st th) = Some (T_SYSCALL, rdx)" and "exits rdx" and "0 < rounds"
  shows "pthread_join rounds th st = Done ((0, sint (ucast rdx :: u32)),
    join_done th (st\<lparr>tp_mem := merge_shared (k_snap (tp_kids st th)) (k_mem (tp_kids st th)) (tp_mem st)\<rparr>))"
  using assms by (cases rounds) (simp_all add: pthread_join_def get_merge_def exits_def Let_def)

text \<open>The threads \<open>S\<close> have stopped for good, with memories \<open>ms\<close> and values \<open>vs\<close>; they started from \<open>m0\<close>.\<close>

definition stopped :: "uspace \<Rightarrow> (nat \<Rightarrow> uspace) \<Rightarrow> (nat \<Rightarrow> u64) \<Rightarrow> nat set \<Rightarrow> tproc \<Rightarrow> bool" where
  "stopped m0 ms vs S st \<longleftrightarrow> (\<forall>i\<in>S. k_stop (tp_kids st i) = Some (T_SYSCALL, vs i) \<and>
     k_mem (tp_kids st i) = ms i \<and> k_snap (tp_kids st i) = m0)"

lemma join_all_joined:
  assumes "distinct ths" and "stopped m0 ms vs (set ths) st" and "\<forall>i\<in>set ths. exits (vs i)"
    and "joined m0 ms J (tp_mem st)" and "J \<inter> set ths = {}" and "\<not> races m0 ms (J \<union> set ths)"
    and "\<And>pg. \<not> us_gone m0 pg" and "0 < rounds"
  shows "\<exists>st'. join_all rounds ths st = Done (Inr (map (\<lambda>i. sint (ucast (vs i) :: u32)) ths, st')) \<and>
    joined m0 ms (J \<union> set ths) (tp_mem st')"
  using assms
proof (induction ths arbitrary: J st)
  case (Cons th ths)
  let ?st = "join_done th (st\<lparr>tp_mem := merge_shared m0 (ms th) (tp_mem st)\<rparr>)"
  have j: "pthread_join rounds th st = Done ((0, sint (ucast (vs th) :: u32)), ?st)"
    using join_exited [of st th "vs th" rounds] Cons.prems(2,3,8) by (simp add: stopped_def)
  have nr: "\<not> races m0 ms (insert th J)" using Cons.prems(6) by (auto simp: races_def)
  have "joined m0 ms (insert th J) (tp_mem ?st)"
    using joined_step [OF Cons.prems(4) _ nr Cons.prems(7)] Cons.prems(5) by auto
  moreover have "stopped m0 ms vs (set ths) ?st" using Cons.prems(1,2) by (auto simp: stopped_def)
  ultimately obtain st' where "join_all rounds ths ?st = Done (Inr (map (\<lambda>i. sint (ucast (vs i) :: u32)) ths, st'))"
    "joined m0 ms (insert th J \<union> set ths) (tp_mem st')"
    using Cons.IH [of ?st "insert th J"] Cons.prems by auto
  with j show ?case by simp
qed simp

subsection \<open>Creating threads\<close>

lemma find_first:
  assumes "1 \<le> k" and "k < 256" and "P k" and "\<forall>j. 1 \<le> j \<and> j < k \<longrightarrow> \<not> P j"
  shows "List.find P [1..<256] = Some k"
  unfolding find_Some_iff using assms by (intro exI [of _ "k - 1"]) (auto simp del: upt_Suc)

lemma thread_init_child [simp]:
  "thread_init th (fs\<lparr>fs_child := c\<rparr>) = thread_init th fs"
  by (simp add: thread_init_def fileino_alloced_def inode_def filestate.truncate_def cong: if_cong)

text \<open>What a thread with the given body does, from its parent's memory and files.\<close>

definition body_mem :: "(uspace \<Rightarrow> thfiles \<Rightarrow> uspace \<times> thfiles \<times> u64) \<Rightarrow> tproc \<Rightarrow> nat \<Rightarrow> uspace" where
  "body_mem body st i = fst (body (tp_mem st) (thread_init i (tp_files st)))"

definition body_rdx :: "(uspace \<Rightarrow> thfiles \<Rightarrow> uspace \<times> thfiles \<times> u64) \<Rightarrow> tproc \<Rightarrow> nat \<Rightarrow> u64" where
  "body_rdx body st i = snd (snd (body (tp_mem st) (thread_init i (tp_files st)))) AND 0xFFFFFFFF"

lemma body_child [simp]:
  "body_mem body (child_state th v (set_kid t k st)) = body_mem body st"
  "body_rdx body (child_state th v (set_kid t k st)) = body_rdx body st"
  by (simp_all add: body_mem_def body_rdx_def fun_eq_iff child_state_def upd_files_def set_kid_def)

definition free_from :: "nat \<Rightarrow> tproc \<Rightarrow> bool" where
  "free_from k st \<longleftrightarrow> (\<forall>j. 1 \<le> j \<and> j < 256 \<longrightarrow> (fs_child (tp_files st) j = UPROC_FREE \<longleftrightarrow> k \<le> j))"

lemma pthread_create_free:
  assumes "free_from k st" and "1 \<le> k" and "k < 256"
  shows "\<exists>st'. pthread_create [thread_main body] st = (0, Some k, st') \<and> free_from (Suc k) st' \<and>
    tp_mem st' = tp_mem st \<and> body_mem body st' = body_mem body st \<and> body_rdx body st' = body_rdx body st \<and>
    (\<forall>j. j \<noteq> k \<longrightarrow> tp_kids st' j = tp_kids st j) \<and>
    stopped (tp_mem st) (body_mem body st) (body_rdx body st) {k} st'"
proof -
  have f: "List.find (\<lambda>th. fs_child (tp_files st) th = UPROC_FREE) [1..<256] = Some k"
    using assms by (intro find_first) (auto simp: free_from_def)
  define k0 where "k0 = kid_start \<lparr>k_mem = tp_mem st, k_snap = tp_mem st, k_files = thread_init k (tp_files st),
                k_stop = None, k_prog = [thread_main body]\<rparr>"
  have k0: "k_mem k0 = body_mem body st k" "k_snap k0 = tp_mem st" "k_stop k0 = Some (T_SYSCALL, body_rdx body st k)"
    by (auto simp: k0_def kid_start_def thread_main_def body_mem_def body_rdx_def split: prod.splits)
  have "pthread_create [thread_main body] st = (0, Some k, child_state k UPROC_FORKED (set_kid k k0 st))"
    using f by (simp add: pthread_create_def k0_def Let_def)
  moreover have "free_from (Suc k) (child_state k UPROC_FORKED (set_kid k k0 st))"
    using assms by (auto simp: free_from_def child_state_def UPROC_FREE_def UPROC_FORKED_def)
  ultimately show ?thesis using k0 by (simp add: stopped_def)
qed

lemma create_loop_free:
  assumes "free_from k st" and "1 \<le> k" and "k + n \<le> 256"
  shows "\<exists>st'. create_loop n [thread_main body] st = Inr ([k..<k + n], st') \<and> tp_mem st' = tp_mem st \<and>
    (\<forall>j. j < k \<longrightarrow> tp_kids st' j = tp_kids st j) \<and>
    stopped (tp_mem st) (body_mem body st) (body_rdx body st) {k..<k + n} st'"
  using assms
proof (induction n arbitrary: k st)
  case (Suc n)
  obtain st1 where c: "pthread_create [thread_main body] st = (0, Some k, st1)" "free_from (Suc k) st1"
      "tp_mem st1 = tp_mem st" "body_mem body st1 = body_mem body st" "body_rdx body st1 = body_rdx body st"
      "\<forall>j. j \<noteq> k \<longrightarrow> tp_kids st1 j = tp_kids st j"
      "stopped (tp_mem st) (body_mem body st) (body_rdx body st) {k} st1"
    using pthread_create_free [of k st body] Suc.prems by auto
  obtain st2 where r: "create_loop n [thread_main body] st1 = Inr ([Suc k..<Suc k + n], st2)" "tp_mem st2 = tp_mem st1"
      "\<forall>j. j < Suc k \<longrightarrow> tp_kids st2 j = tp_kids st1 j"
      "stopped (tp_mem st) (body_mem body st) (body_rdx body st) {Suc k..<Suc k + n} st2"
    using Suc.IH [OF c(2)] Suc.prems(3) c(3-5) by auto
  have "stopped (tp_mem st) (body_mem body st) (body_rdx body st) {k..<k + Suc n} st2"
    unfolding stopped_def
  proof
    fix i
    assume "i \<in> {k..<k + Suc n}"
    then consider "i = k" | "i \<in> {Suc k..<Suc k + n}" by fastforce
    then show "k_stop (tp_kids st2 i) = Some (T_SYSCALL, body_rdx body st i) \<and>
        k_mem (tp_kids st2 i) = body_mem body st i \<and> k_snap (tp_kids st2 i) = tp_mem st"
      using c(7) r(3,4) by cases (simp_all add: stopped_def)
  qed
  moreover have "[k..<k + Suc n] = k # [Suc k..<Suc k + n]" by (simp add: upt_rec [of k])
  ultimately show ?case using c(1,3,6) r(1-3) by simp
qed (simp add: stopped_def)

subsection \<open>Threads that do not race\<close>

lemma threads_no_race:
  assumes "free_from 1 st" and "n < 256" and "\<And>pg. \<not> us_gone (tp_mem st) pg"
    and "\<not> races (tp_mem st) (body_mem body st) {1..n}" and "\<forall>i\<in>{1..n}. exits (body_rdx body st i)"
    and "distinct ths" and "set ths = {1..n}"
  shows "\<exists>st1 st2. create_loop n [thread_main body] st = Inr ([1..<Suc n], st1) \<and>
    join_all 1 ths st1 = Done (Inr (map (\<lambda>i. sint (ucast (body_rdx body st i) :: u32)) ths, st2)) \<and>
    joined (tp_mem st) (body_mem body st) {1..n} (tp_mem st2)"
proof -
  obtain st1 where c: "create_loop n [thread_main body] st = Inr ([1..<1 + n], st1)" "tp_mem st1 = tp_mem st"
      "stopped (tp_mem st) (body_mem body st) (body_rdx body st) {1..<1 + n} st1"
    using create_loop_free [of 1 st n body] assms(1,2) by auto
  have "{1..<1 + n} = {1..n}" by auto
  then have "\<exists>st'. join_all 1 ths st1 = Done (Inr (map (\<lambda>i. sint (ucast (body_rdx body st i) :: u32)) ths, st')) \<and>
      joined (tp_mem st) (body_mem body st) ({} \<union> set ths) (tp_mem st')"
    using c assms(3-7) by (intro join_all_joined) (auto simp: joined_none)
  with c(1) assms(7) show ?thesis by auto
qed


text \<open>The parallel section of \<open>lib/thread.c\<close> under the same conditions returns the values of its threads, in
  order, and leaves the memory that any other order of the joins would leave.\<close>

theorem tparallel_internal_merges:
  assumes "free_from 1 st" and "0 < n" and "n < 256" and "\<And>pg. \<not> us_gone (tp_mem st) pg"
    and "\<not> races (tp_mem st) (body_mem body st) {1..n}" and "\<forall>i\<in>{1..n}. exits (body_rdx body st i)"
  shows "\<exists>st'. tparallel_internal 1 (int n) [thread_main body] st =
      Done (Inr (map (\<lambda>i. sint (ucast (body_rdx body st i) :: u32)) [1..<Suc n], st')) \<and>
    joined (tp_mem st) (body_mem body st) {1..n} (tp_mem st')"
proof -
  have "\<not> list_ex (\<lambda>cn. fs_child (tp_files st) cn \<noteq> UPROC_FREE) [1..<256]"
    using assms(1) by (auto simp: list_ex_iff free_from_def)
  moreover have "set [1..<Suc n] = {1..n}" by auto
  ultimately show ?thesis
    using threads_no_race [OF assms(1,3,4,5,6), of "[1..<Suc n]"] assms(2,3)
    by (auto simp: tparallel_internal_def simp del: upt_Suc)
qed

subsection \<open>Threads that race\<close>

lemma join_two:
  assumes "stopped (tp_mem st) ms vs {i, j} st" and "i \<noteq> j" and "exits (vs i)" "exits (vs j)"
    and "\<And>pg. \<not> us_gone (tp_mem st) pg" and "wrote (tp_mem st) (ms i) a" "wrote (tp_mem st) (ms j) a"
  shows "\<exists>st'. join_all 1 [i, j] st = Done (Inr ([sint (ucast (vs i) :: u32), sint (ucast (vs j) :: u32)], st')) \<and>
    us_gone (tp_mem st') (a div PAGESIZE) \<and> (\<forall>c. c div PAGESIZE = a div PAGESIZE \<longrightarrow> us_bytes (tp_mem st') c = 0) \<and>
    (\<forall>k. k \<noteq> i \<and> k \<noteq> j \<longrightarrow> tp_kids st' k = tp_kids st k)"
proof -
  let ?m = "tp_mem st"
  let ?st1 = "join_done i (st\<lparr>tp_mem := merge_shared ?m (ms i) ?m\<rparr>)"
  let ?st2 = "join_done j (?st1\<lparr>tp_mem := merge_shared ?m (ms j) (tp_mem ?st1)\<rparr>)"
  have j1: "pthread_join 1 i st = Done ((0, sint (ucast (vs i) :: u32)), ?st1)"
    using join_exited [of st i "vs i" 1] assms(1,3) by (simp add: stopped_def)
  have j2: "pthread_join 1 j ?st1 = Done ((0, sint (ucast (vs j) :: u32)), ?st2)"
    using join_exited [of ?st1 j "vs j" 1] assms(1,2,4) by (simp add: stopped_def)
  have j: "joined ?m ms {i} (tp_mem ?st1)"
    using joined_step [OF joined_none, of i ?m ms] assms(5) by (simp add: races_def)
  have sh: "shared a" using assms(6) by (simp add: wrote_def)
  have c: "page_conflict ?m (ms j) (tp_mem ?st1) (a div PAGESIZE)"
    unfolding page_conflict_iff using j assms(6,7) by (intro exI [of _ a]) (auto simp: conflict3_def wrote_def joined_def)
  have "shared b" if "b div PAGESIZE = a div PAGESIZE" for b using sh that shared_page by metis
  then show ?thesis using c j1 j2 sh by (auto simp: merge_shared_def shared_page)
qed


lemma join_all_append:
  "join_all r (xs @ ys) st =
     (case join_all r xs st of
        Done (Inr (vs, st')) \<Rightarrow>
          (case join_all r ys st' of Done (Inr (ws, st'')) \<Rightarrow> Done (Inr (vs @ ws, st'')) | res \<Rightarrow> res)
      | res \<Rightarrow> res)"
proof (induction xs arbitrary: st)
  case Nil
  show ?case by (auto split: outcome.splits sum.splits prod.splits)
next
  case (Cons x xs)
  then show ?case by (auto split: outcome.splits sum.splits prod.splits)
qed

text \<open>A detected race can be forgotten. When a third thread has changed other bytes of the page, all of
  which were zero before, joining it maps the page again: with zeros instead of what the racing threads wrote, and
  without any sign of the race.\<close>

theorem race_forgotten:
  assumes "stopped (tp_mem st) ms vs {i, j, k} st" and "distinct [i, j, k]"
    and "exits (vs i)" and "exits (vs j)" and "exits (vs k)" and "\<And>pg. \<not> us_gone (tp_mem st) pg"
    and "wrote (tp_mem st) (ms i) a" and "wrote (tp_mem st) (ms j) a" and "\<not> wrote (tp_mem st) (ms k) a"
    and "wrote (tp_mem st) (ms k) b" and "b div PAGESIZE = a div PAGESIZE"
    and "\<And>c. c div PAGESIZE = a div PAGESIZE \<Longrightarrow> wrote (tp_mem st) (ms k) c \<Longrightarrow> us_bytes (tp_mem st) c = 0"
  shows "\<exists>st'. join_all 1 [i, j, k] st = Done (Inr (map (\<lambda>t. sint (ucast (vs t) :: u32)) [i, j, k], st')) \<and>
    \<not> us_gone (tp_mem st') (a div PAGESIZE) \<and> us_bytes (tp_mem st') a = 0"
proof -
  let ?m = "tp_mem st"
  have s2: "stopped ?m ms vs {i, j} st" using assms(1) by (simp add: stopped_def)
  obtain st2 where j2: "join_all 1 [i, j] st = Done (Inr ([sint (ucast (vs i) :: u32), sint (ucast (vs j) :: u32)], st2))"
      "us_gone (tp_mem st2) (a div PAGESIZE)" "tp_kids st2 k = tp_kids st k"
    and z: "\<And>c. c div PAGESIZE = a div PAGESIZE \<Longrightarrow> us_bytes (tp_mem st2) c = 0"
    using join_two [OF s2 _ assms(3,4,6,7,8)] assms(2) by auto
  let ?st3 = "join_done k (st2\<lparr>tp_mem := merge_shared ?m (ms k) (tp_mem st2)\<rparr>)"
  have j3: "join_all 1 [k] st2 = Done (Inr ([sint (ucast (vs k) :: u32)], ?st3))"
    using join_exited [of st2 k "vs k" 1] assms(1,5) j2(3) by (simp add: stopped_def)
  have sh: "shared a" "shared (a div PAGESIZE * PAGESIZE)" using assms(7) by (simp_all add: wrote_def shared_page)
  then have in_page: "shared c" if "c div PAGESIZE = a div PAGESIZE" for c using that shared_page by metis
  have nc: "\<not> page_conflict ?m (ms k) (tp_mem st2) (a div PAGESIZE)"
    using assms(12) z in_page by (auto simp: page_conflict_iff conflict3_def wrote_def)
  have ch: "page_changed ?m (ms k) (a div PAGESIZE)"
    unfolding page_changed_iff using assms(10,11) by (auto simp: wrote_def)
  have "us_bytes (tp_mem ?st3) a = 0" using nc sh z [OF refl] assms(9) by (simp add: merge_shared_def merge3_def wrote_def)
  moreover have "\<not> us_gone (tp_mem ?st3) (a div PAGESIZE)" using nc ch sh by (simp add: merge_shared_def)
  moreover have "join_all 1 [i, j, k] st = Done (Inr (map (\<lambda>t. sint (ucast (vs t) :: u32)) [i, j, k], ?st3))"
    using join_all_append [of 1 "[i, j]" "[k]" st] j2(1) j3 by simp
  ultimately show ?thesis by blast
qed

subsection \<open>Exit values that look like barriers\<close>

lemma barrier_collect_full: "\<not> int (length threads) < count \<Longrightarrow> barrier_collect ths first b count threads st = Done (Inr (threads, st))"
  by (cases ths) simp_all

text \<open>Joining a thread that returned a value with bit 31 set, for example \<open>-1\<close>, never returns when the barrier
  numbered by the low byte of the value is not in use: the value is taken for a barrier at which no one waits, and the
  join starts over with the same stopped thread, for any number of rounds.\<close>

theorem negative_exit_hangs:
  assumes "k_stop (tp_kids st th) = Some (T_SYSCALL, rdx)" and "\<not> exits rdx"
    and "th_barriers (tp_files st) (BARRIER_READ (ucast rdx)) = 0"
  shows "pthread_join rounds th st = More"
  using assms unfolding pthread_join_def
proof (induction rounds arbitrary: st)
  case (Suc n)
  let ?st = "st\<lparr>tp_mem := merge_shared (k_snap (tp_kids st th)) (k_mem (tp_kids st th)) (tp_mem st)\<rparr>"
  have "wait_at_barrier th (BARRIER_READ (ucast rdx)) ?st = Done (0, ?st)"
    using Suc.prems(3) by (simp add: wait_at_barrier_def barrier_collect_full)
  moreover have "join_loop n th ?st = More" using Suc.prems by (intro Suc.IH) simp_all
  ultimately show ?case using Suc.prems by (simp add: get_merge_def exits_def Let_def)
qed simp

subsection \<open>Barriers\<close>

lemma barrier_read_write: "b < 256 \<Longrightarrow> BARRIER_READ (ucast (ucast (BARRIER_WRITE b) :: u64)) = b"
proof -
  assume b: "b < 256"
  have u: "(ucast (ucast (x :: u32) :: u64) :: u32) = x" for x by (rule bit_word_eqI) (simp add: bit_simps)
  have "(EXIT_BARRIER OR w) AND BARRIER_MASK = w AND mask 8" for w
    by (simp add: EXIT_BARRIER_def BARRIER_MASK_def bit.conj_disj_distrib2 mask_eq_exp_minus_1)
  then have "(EXIT_BARRIER OR of_nat b) AND BARRIER_MASK = take_bit 8 (of_nat b)" by (simp add: take_bit_eq_mask)
  then have "BARRIER_READ (BARRIER_WRITE b) = take_bit 8 b"
    by (simp only: BARRIER_READ_def BARRIER_WRITE_def unsigned_take_bit_eq unsigned_of_nat) simp
  then show ?thesis using b by (simp add: u take_bit_eq_mod)
qed

lemma barrier_write_stops: "\<not> exits (ucast (BARRIER_WRITE b))"
proof -
  have "bit ((ucast (ucast (BARRIER_WRITE b) :: u64) :: u32) AND EXIT_BARRIER) 31"
    by (simp add: BARRIER_WRITE_def EXIT_BARRIER_def bit_simps)
  then show ?thesis unfolding exits_def by force
qed

lemma collect_joined:
  assumes "distinct ths" and "\<forall>i\<in>set ths. fs_child (tp_files st) i = UPROC_FORKED"
    and "stopped m0 ms (\<lambda>_. ucast (BARRIER_WRITE b)) (set ths) st" and "b < 256"
    and "joined m0 ms J (tp_mem st)" and "J \<inter> set (filter ((\<noteq>) first) ths) = {}"
    and "\<not> races m0 ms (J \<union> set ths)" and "\<And>pg. \<not> us_gone m0 pg"
    and "int (length threads + length (filter ((\<noteq>) first) ths)) = count"
  shows "\<exists>M. barrier_collect (ths @ rest) first b count threads st =
      Done (Inr (threads @ filter ((\<noteq>) first) ths, st\<lparr>tp_mem := M\<rparr>)) \<and>
    joined m0 ms (J \<union> set (filter ((\<noteq>) first) ths)) M"
  using assms
proof (induction ths arbitrary: J threads st)
  case Nil
  then show ?case by (intro exI [of _ "tp_mem st"]) (simp add: barrier_collect_full)
next
  case (Cons th ths)
  show ?case
  proof (cases "th = first \<or> count \<le> int (length threads)")
    case True
    then have n: "filter ((\<noteq>) first) (th # ths) = filter ((\<noteq>) first) ths" "first = th \<or> filter ((\<noteq>) first) ths = []"
      using Cons.prems(9) by (auto split: if_splits)
    have "\<not> races m0 ms (J \<union> set ths)" "stopped m0 ms (\<lambda>_. ucast (BARRIER_WRITE b)) (set ths) st"
      using Cons.prems(3,7) by (auto simp: races_def stopped_def)
    then have ih: "\<exists>M. barrier_collect (ths @ rest) first b count threads st =
        Done (Inr (threads @ filter ((\<noteq>) first) ths, st\<lparr>tp_mem := M\<rparr>)) \<and>
        joined m0 ms (J \<union> set (filter ((\<noteq>) first) ths)) M"
      using Cons.prems n(1) by (intro Cons.IH) auto
    show ?thesis
    proof (cases "count \<le> int (length threads)")
      case full: True
      then have "length (filter ((\<noteq>) first) ths) = 0" using Cons.prems(9) unfolding n(1) by linarith
      then have "filter ((\<noteq>) first) ths = []" by simp
      with full n(1) Cons.prems(5) show ?thesis
        by (intro exI [of _ "tp_mem st"]) (simp add: barrier_collect_full)
    next
      case False
      with True ih n(1) show ?thesis by simp
    qed
  next
    case False
    let ?M = "merge_shared m0 (ms th) (tp_mem st)" and ?st = "st\<lparr>tp_mem := merge_shared m0 (ms th) (tp_mem st)\<rparr>"
    have th: "th \<notin> J" using False Cons.prems(6) by auto
    have nr: "\<not> races m0 ms (insert th J)" using Cons.prems(7) by (auto simp: races_def)
    have j: "joined m0 ms (insert th J) (tp_mem ?st)" using joined_step [OF Cons.prems(5) th nr Cons.prems(8)] by simp
    have "stopped m0 ms (\<lambda>_. ucast (BARRIER_WRITE b)) (set ths) ?st" using Cons.prems(3) by (simp add: stopped_def)
    then have "\<exists>M. barrier_collect (ths @ rest) first b count (threads @ [th]) ?st =
        Done (Inr ((threads @ [th]) @ filter ((\<noteq>) first) ths, ?st\<lparr>tp_mem := M\<rparr>)) \<and>
        joined m0 ms (insert th J \<union> set (filter ((\<noteq>) first) ths)) M"
      using j Cons.prems False by (intro Cons.IH) auto
    moreover have "get_merge th st = Some ((T_SYSCALL, ucast (BARRIER_WRITE b)), ?st)"
      using Cons.prems(3) by (simp add: get_merge_def stopped_def)
    ultimately show ?thesis using False Cons.prems(2) barrier_read_write [OF Cons.prems(4)] by auto
  qed
qed

lemma filter_not_one: "distinct xs \<Longrightarrow> x \<in> set xs \<Longrightarrow> Suc (length (filter ((\<noteq>) x) xs)) = length xs"
proof (induction xs)
  case (Cons y ys)
  then have "x \<notin> set ys \<Longrightarrow> filter ((\<noteq>) x) ys = ys" by (metis (mono_tags, lifting) filter_True)
  with Cons show ?case by auto
qed simp

lemma fold_tresume:
  assumes "distinct ths"
  shows "tp_mem (fold tresume ths st) = tp_mem st \<and> tp_files (fold tresume ths st) = tp_files st \<and>
    tp_kids (fold tresume ths st) i = (if i \<in> set ths
      then kid_start ((tp_kids st i)\<lparr>k_mem := copy_shared (tp_mem st) (k_mem (tp_kids st i)),
        k_snap := copy_shared (tp_mem st) (k_mem (tp_kids st i))\<rparr>)
      else tp_kids st i)"
  using assms by (induction ths arbitrary: st) (auto simp: tresume_def Let_def)


subsection \<open>Examples\<close>

text \<open>A process with zero-filled memory, one barrier for two threads, and threads that each change one byte.\<close>

definition poke :: "nat \<Rightarrow> u8 \<Rightarrow> uspace \<Rightarrow> uspace" where
  "poke a v m = m\<lparr>us_bytes := (us_bytes m)(a := v)\<rparr>"

definition zeros :: uspace where "zeros = \<lparr>us_bytes = (\<lambda>_. 0), us_gone = (\<lambda>_. False)\<rparr>"

definition demo_thfiles :: "(nat \<Rightarrow> int) \<Rightarrow> thfiles" where
  "demo_thfiles c = (filestate.extend no_files (thfiles.fields 0 ((\<lambda>_. 0)(0 := 2))))\<lparr>fs_child := c\<rparr>"

definition demo_tproc :: "(nat \<Rightarrow> int) \<Rightarrow> (nat \<Rightarrow> uspace) \<Rightarrow> u64 \<Rightarrow> tproc" where
  "demo_tproc c ms v = \<lparr>tp_mem = zeros, tp_files = demo_thfiles c,
     tp_kids = (\<lambda>i. \<lparr>k_mem = ms i, k_snap = zeros, k_files = demo_thfiles c, k_stop = Some (T_SYSCALL, v), k_prog = []\<rparr>)\<rparr>"

text \<open>A thread that writes 7 at the place given by its own number and returns 5.\<close>

definition demo_body :: "uspace \<Rightarrow> thfiles \<Rightarrow> uspace \<times> thfiles \<times> u64" where
  "demo_body m fs = (poke (VM_SHARELO + unat (th_stat fs)) 7 m, fs, 5)"

lemma demo_simps [simp]:
  "tp_mem (demo_tproc c ms v) = zeros" "tp_files (demo_tproc c ms v) = demo_thfiles c"
  "k_mem (tp_kids (demo_tproc c ms v) i) = ms i" "k_snap (tp_kids (demo_tproc c ms v) i) = zeros"
  "k_stop (tp_kids (demo_tproc c ms v) i) = Some (T_SYSCALL, v)"
  "fs_child (demo_thfiles c) = c" "th_barriers (demo_thfiles c) = (\<lambda>_. 0)(0 := 2)"
  "\<not> us_gone zeros pg"
  by (simp_all add: demo_tproc_def demo_thfiles_def filestate.extend_def thfiles.fields_def zeros_def)

lemma wrote_poke [simp]: "wrote zeros (poke a v zeros) b \<longleftrightarrow> b = a \<and> shared a \<and> v \<noteq> 0"
  by (auto simp: wrote_def poke_def zeros_def)

lemma shared_low [simp]: "shared (VM_SHARELO + i) \<longleftrightarrow> i < 0x40000000" "shared VM_SHARELO"
  "shared (Suc VM_SHARELO)" "shared (Suc (Suc VM_SHARELO))"
  by (auto simp: shared_def VM_USERLO_def VM_SHAREHI_def VM_SHARELO_def)

lemma demo_stopped: "stopped zeros ms (\<lambda>_. v) S (demo_tproc c ms v)"
  by (simp add: stopped_def)

lemma exits_5 [simp]: "exits 5" by (simp add: exits_def EXIT_BARRIER_def)

lemma demo_body_simps [simp]:
  "i < 256 \<Longrightarrow> body_mem demo_body (demo_tproc c ms v) i = poke (VM_SHARELO + i) 7 zeros"
  "body_rdx demo_body (demo_tproc c ms v) i = 5"
  by (simp_all add: body_mem_def body_rdx_def demo_body_def thread_init_def unat_of_nat)

lemma poke_races: "inj_on f S \<Longrightarrow> (\<And>i. i \<in> S \<Longrightarrow> ms i = poke (f i) 7 zeros) \<Longrightarrow> \<not> races zeros ms S"
  by (auto simp: races_def inj_on_def)

lemma joined_poke:
  "joined zeros ms S d \<Longrightarrow> i \<in> S \<Longrightarrow> ms i = poke a v zeros \<Longrightarrow> shared a \<Longrightarrow> v \<noteq> 0 \<Longrightarrow> us_bytes d a = v"
  by (auto simp: joined_def) (simp add: poke_def)

abbreviation demo_start :: tproc where "demo_start \<equiv> demo_tproc (\<lambda>_. UPROC_FREE) (\<lambda>_. zeros) 0"

lemma demo_start_ok:
  "free_from 1 demo_start" "\<not> races (tp_mem demo_start) (body_mem demo_body demo_start) {1..2}"
proof -
  show "free_from 1 demo_start" by (auto simp: free_from_def)
  show "\<not> races (tp_mem demo_start) (body_mem demo_body demo_start) {1..2}"
    unfolding demo_simps by (rule poke_races [of "\<lambda>i. VM_SHARELO + i"]) (auto intro: inj_onI)
qed


theorem tparallel_internal_merges_witness:
  "\<exists>st'. tparallel_internal 1 2 [thread_main demo_body] demo_start = Done (Inr ([5, 5], st')) \<and>
     us_bytes (tp_mem st') (VM_SHARELO + 2) = 7"
proof -
  have "[1..<Suc 2] = [1, 2]" by (simp add: upt_rec)
  then obtain st' where c: "tparallel_internal 1 (int 2) [thread_main demo_body] demo_start = Done (Inr ([5, 5], st'))"
    "joined (tp_mem demo_start) (body_mem demo_body demo_start) {1..2} (tp_mem st')"
    using tparallel_internal_merges [OF demo_start_ok(1) _ _ _ demo_start_ok(2)] by auto
  then show ?thesis
    using joined_poke [of "body_mem demo_body demo_start" "{1..2}" "tp_mem st'" 2 "VM_SHARELO + 2" 7] by auto
qed

abbreviation demo_race :: tproc where
  "demo_race \<equiv> demo_tproc (\<lambda>_. UPROC_FORKED) (\<lambda>i. if i = 3 then poke (VM_SHARELO + 1) 7 zeros else poke VM_SHARELO 7 zeros) 5"


theorem race_forgotten_witness:
  "\<exists>st'. join_all 1 [1, 2, 3] demo_race = Done (Inr ([5, 5, 5], st')) \<and>
     \<not> us_gone (tp_mem st') (VM_SHARELO div PAGESIZE) \<and> us_bytes (tp_mem st') VM_SHARELO = 0"
proof -
  have "(VM_SHARELO + 1) div PAGESIZE = VM_SHARELO div PAGESIZE"
    by (simp add: VM_SHARELO_def VM_USERLO_def PAGESIZE_def)
  moreover have "us_bytes zeros c = 0" for c by (simp add: zeros_def)
  ultimately show ?thesis
    using race_forgotten [of demo_race "\<lambda>i. if i = 3 then poke (VM_SHARELO + 1) 7 zeros else poke VM_SHARELO 7 zeros"
      "\<lambda>_. 5" 1 2 3 VM_SHARELO "VM_SHARELO + 1"] demo_stopped by simp
qed

theorem negative_exit_hangs_witness:
  "pthread_join 1000 1 (demo_tproc (\<lambda>_. UPROC_FORKED) (\<lambda>_. zeros) 0xFFFFFFFF) = More"
  by (rule negative_exit_hangs [of _ _ "0xFFFFFFFF"])
    (simp_all add: exits_def EXIT_BARRIER_def BARRIER_READ_def BARRIER_MASK_def)


end
