(* ===== verification/Console.thy ===== *)
theory Console
  imports Proc Dir Format
begin

text \<open>
  The console (\<open>kern/cons.c\<close>) and the root process's external input and output (\<open>kern/file.c\<close>). The console
  collects characters in a circular buffer at interrupt time; when the root process returns to the kernel, what it
  has appended to its console output file is printed, and what was typed is appended to its console input file.

  The devices appear as the list of the values that the interrupt routine got from the device before \<open>-1\<close>, and as the
  list of the bytes sent to the serial port and the screen. The root process's files are a \<open>filestate\<close>; an access of the kernel to a
  page of them that is not mapped stops the kernel (\<open>None\<close>).
\<close>

subsection \<open>The input buffer\<close>

definition CONSBUFSIZE :: nat where "CONSBUFSIZE = 512"

record console =
  con_buf :: "nat \<Rightarrow> u8"
  con_rpos :: nat
  con_wpos :: nat
  con_outsize :: nat
  con_log :: "u8 list"

record iosys =
  io_con :: console
  io_files :: filestate
  io_k :: kst
  io_root :: "nat option"

definition cons_char :: "int \<Rightarrow> console \<Rightarrow> console" where
  "cons_char c con =
     (if c = 0 then con
      else con\<lparr>con_buf := (con_buf con)(con_wpos con := of_int c),
             con_wpos := (if con_wpos con + 1 = CONSBUFSIZE then 0 else con_wpos con + 1)\<rparr>)"

text \<open>Wake the root process if it sleeps.\<close>

definition file_wakeroot :: "iosys \<Rightarrow> iosys" where
  "file_wakeroot io = (case io_root io of
       Some r \<Rightarrow> if pstate (io_k io) r = PROC_STOP then io\<lparr>io_k := proc_ready r (io_k io)\<rparr> else io
     | None \<Rightarrow> io)"

definition cons_intr :: "int list \<Rightarrow> iosys \<Rightarrow> iosys" where
  "cons_intr cs io = file_wakeroot (io\<lparr>io_con := fold cons_char cs (io_con io)\<rparr>)"

text \<open>The kernel monitor's way to read a character, polling the serial port and the keyboard first.\<close>

definition cons_getc :: "int list \<Rightarrow> int list \<Rightarrow> iosys \<Rightarrow> int \<times> iosys" where
  "cons_getc serial kbd io =
     (let io1 = cons_intr kbd (cons_intr serial io); con = io_con io1
      in if con_rpos con \<noteq> con_wpos con
         then (uint (con_buf con (con_rpos con)),
               io1\<lparr>io_con := con\<lparr>con_rpos := (if con_rpos con + 1 = CONSBUFSIZE then 0 else con_rpos con + 1)\<rparr>\<rparr>)
         else (0, io1))"

definition cons_putc :: "u8 \<Rightarrow> console \<Rightarrow> console" where
  "cons_putc c con = con\<lparr>con_log := con_log con @ [c]\<rparr>"

text \<open>\<open>cputs\<close> called in the kernel.\<close>

definition cputs :: "u8 list \<Rightarrow> console \<Rightarrow> console" where
  "cputs str con = fold cons_putc (takeWhile ((\<noteq>) 0) str) con"

subsection \<open>Exchange with the root process's files\<close>

definition cons_output :: "console \<Rightarrow> filestate \<Rightarrow> (bool \<times> console) option" where
  "cons_output con fs = do {
     let size = fi_size (fs_fi fs FILEINO_CONSOUT);
     cassert (con_outsize con \<le> size);
     out \<leftarrow> user_read (FILEDATA (int FILEINO_CONSOUT) + con_outsize con) (size - con_outsize con) fs;
     Some (out \<noteq> [], (fold cons_putc out con)\<lparr>con_outsize := size\<rparr>)
   }"

definition cons_input :: "console \<Rightarrow> filestate \<Rightarrow> (bool \<times> console \<times> filestate) option" where
  "cons_input con fs = do {
     let size = fi_size (fs_fi fs FILEINO_CONSIN);
     let amount = wrap32 (int (con_wpos con) - int (con_rpos con));
     cassert ((int size + amount) mod 2 ^ 64 \<le> int FILE_MAXSIZE);
     cassert (0 \<le> amount \<and> amount \<le> int CONSBUFSIZE);
     (if 0 < amount
      then do {
        fs1 \<leftarrow> user_write (FILEDATA (int FILEINO_CONSIN) + size) (map (con_buf con) [con_rpos con..<con_rpos con + nat amount]) fs;
        Some (True, con\<lparr>con_rpos := 0, con_wpos := 0\<rparr>,
          upd_fi (int FILEINO_CONSIN) (\<lambda>n. n\<lparr>fi_size := size + nat amount\<rparr>) fs1)
      }
      else Some (False, con, fs))
   }"

definition cons_io :: "console \<Rightarrow> filestate \<Rightarrow> (bool \<times> console \<times> filestate) option" where
  "cons_io con fs = do {
     (did1, con1) \<leftarrow> cons_output con fs;
     (did2, con2, fs2) \<leftarrow> cons_input con1 fs;
     Some (did1 \<or> did2, con2, fs2)
   }"

text \<open>\<open>file_io\<close>: the root process has exited, goes on, or goes to sleep. The exchange and the decision to sleep are two
  steps, because the console's lock is released in between.\<close>

datatype io_next = IOExit int | IOReturn | IOSleep

definition file_io_sync :: "nat \<Rightarrow> iosys \<Rightarrow> (io_next \<times> iosys) option" where
  "file_io_sync c io = do {
     cp \<leftarrow> cpu_proc (io_k io) c;
     cassert (io_root io = Some cp);
     (iodone, con, fs) \<leftarrow> cons_io (io_con io) (io_files io);
     let io1 = io\<lparr>io_con := con, io_files := fs\<rparr>;
     Some (if fs_exited fs then IOExit (fs_status fs) else if iodone then IOReturn else IOSleep, io1)
   }"

definition file_io_sleep :: "nat \<Rightarrow> trapframe \<Rightarrow> iosys \<Rightarrow> iosys option" where
  "file_io_sleep c tf io = do {
     cp \<leftarrow> cpu_proc (io_k io) c;
     let k1 = upd_proc cp (\<lambda>q. q\<lparr>p_state := PROC_STOP, p_runcpu := None\<rparr>) (io_k io);
     k2 \<leftarrow> proc_save c cp tf 1 k1;
     Some (io\<lparr>io_k := proc_sched c k2\<rparr>)
   }"

definition file_io :: "nat \<Rightarrow> trapframe \<Rightarrow> iosys \<Rightarrow> (io_next \<times> iosys) option" where
  "file_io c tf io = do {
     (nxt, io1) \<leftarrow> file_io_sync c io;
     (case nxt of IOSleep \<Rightarrow> map_option (Pair IOSleep) (file_io_sleep c tf io1) | _ \<Rightarrow> Some (nxt, io1))
   }"

subsection \<open>The initial file system\<close>

definition zero_inode :: fileinode where
  "zero_inode = \<lparr>fi_dino = 0, fi_name = [], fi_ver = 0, fi_mode = 0, fi_size = 0, fi_rino = 0, fi_rver = 0, fi_rlen = 0\<rparr>"

definition zero_filedesc :: filedesc where
  "zero_filedesc = \<lparr>fd_ino = 0, fd_flags = 0, fd_ofs = 0, fd_err = 0\<rparr>"

text \<open>The files before any initial file is added: console and root directory, in otherwise unmapped memory.\<close>

definition initial_files :: filestate where
  "initial_files = \<lparr>fs_err = 0, fs_cwd = 0, fs_exited = False, fs_status = 0,
     fs_fd = (\<lambda>_. zero_filedesc)
       (0 := zero_filedesc\<lparr>fd_ino := int FILEINO_CONSIN, fd_flags := O_RDONLY\<rparr>,
        1 := zero_filedesc\<lparr>fd_ino := int FILEINO_CONSOUT, fd_flags := O_WRONLY OR O_APPEND\<rparr>,
        2 := zero_filedesc\<lparr>fd_ino := int FILEINO_CONSOUT, fd_flags := O_WRONLY OR O_APPEND\<rparr>),
     fs_fi = (\<lambda>_. zero_inode)
       (FILEINO_CONSIN := zero_inode\<lparr>fi_name := ''consin'', fi_dino := int FILEINO_ROOTDIR, fi_mode := S_IFREG OR S_IFPART\<rparr>,
        FILEINO_CONSOUT := zero_inode\<lparr>fi_name := ''consout'', fi_dino := int FILEINO_ROOTDIR, fi_mode := S_IFREG\<rparr>,
        FILEINO_ROOTDIR := zero_inode\<lparr>fi_name := ''/'', fi_dino := int FILEINO_ROOTDIR, fi_mode := S_IFDIR\<rparr>),
     fs_child = (\<lambda>_. 0), fs_thself = 0, fs_mem = (\<lambda>_. 0),
     fs_rw = (\<lambda>pg. FILEDATA (int FILEINO_CONSIN) \<le> pg * PAGESIZE \<and>
       pg * PAGESIZE < FILEDATA (int FILEINO_CONSIN) + PDSIZE 1)\<rparr>"

text \<open>The inodes reserved for the rest of a big file.\<close>

definition reserve_name :: "string \<Rightarrow> nat \<Rightarrow> string option" where
  "reserve_name name ino =
     map_option (map (\<lambda>c. char_of (nat c)))
       (vprintfmt (map ch ''.%s_%d'') [VStr (Some (map ch name)), VWord (of_nat ino)])"

fun reserve_inodes :: "nat \<Rightarrow> string \<Rightarrow> nat \<Rightarrow> filestate \<Rightarrow> (nat \<times> filestate) option" where
  "reserve_inodes 0 name ino fs = Some (ino, fs)"
| "reserve_inodes (Suc n) name ino fs = do {
     dname \<leftarrow> reserve_name name ino;
     cassert (ino < FILE_INODES \<and> length dname \<le> NAME_MAX);
     reserve_inodes n name (ino + 1)
       (upd_fi (int ino) (\<lambda>x. x\<lparr>fi_dino := int FILEINO_ROOTDIR, fi_name := dname, fi_mode := 0\<rparr>) fs)
   }"

text \<open>One initial file; the result is the next free inode. A name that does not fit, or an inode beyond the table, would
  overwrite other memory and is outside the model.\<close>

definition init_file :: "string \<times> u8 list \<Rightarrow> nat \<times> filestate \<Rightarrow> (nat \<times> filestate) option" where
  "init_file f st = (case (f, st) of ((name, content), ino, fs) \<Rightarrow> do {
     cassert (ino < FILE_INODES \<and> length name \<le> NAME_MAX);
     let filesize = length content;
     let fs1 = sys_perm_range True (FILEDATA (int ino)) (ROUNDUP filesize PAGESIZE)
       (upd_fi (int ino) (\<lambda>n. n\<lparr>fi_name := name, fi_dino := int FILEINO_ROOTDIR, fi_mode := S_IFREG, fi_size := filesize\<rparr>) fs);
     fs2 \<leftarrow> user_write (FILEDATA (int ino)) content fs1;
     (ino2, fs3) \<leftarrow> reserve_inodes (ROUNDUP filesize (PDSIZE 1) div PDSIZE 1 - 1) name (ino + 1) fs2;
     cassert (ino2 \<le> FILE_INODES);
     Some (ino2, fs3)
   })"

fun init_files :: "(string \<times> u8 list) list \<Rightarrow> nat \<times> filestate \<Rightarrow> (nat \<times> filestate) option" where
  "init_files [] st = Some st"
| "init_files (f # fs) st = Option.bind (init_file f st) (init_files fs)"

definition file_initroot :: "(string \<times> u8 list) list \<Rightarrow> filestate option" where
  "file_initroot files = do {
     (_, fs) \<leftarrow> init_files files (FILEINO_GENERAL, initial_files);
     Some (fs\<lparr>fs_cwd := int FILEINO_ROOTDIR, fs_child := (fs_child fs)(0 := - 1)\<rparr>)
   }"

end
