(* ===== verification/ConsProps.thy ===== *)
theory ConsProps
  imports Console FileProps Sched
begin

text \<open>
  What the console promises: as long as its buffer does not fill up between two exchanges, typed characters arrive in the root
  process's input file and written ones on the console, complete and in order. And what happens when the buffer does fill up.
\<close>

subsection \<open>Simulations\<close>

text \<open>A concrete system follows an abstract one step by step, as long as the abstract system's guard allows the step.\<close>

locale simulation =
  fixes rel :: "'c \<Rightarrow> 'a \<Rightarrow> bool"
    and step :: "'e \<Rightarrow> 'c \<Rightarrow> 'c option"
    and astep :: "'e \<Rightarrow> 'a \<Rightarrow> 'a"
    and guard :: "'e \<Rightarrow> 'a \<Rightarrow> bool"
  assumes step_sim: "rel c a \<Longrightarrow> guard e a \<Longrightarrow> \<exists>c'. step e c = Some c' \<and> rel c' (astep e a)"
begin

fun guarded :: "'e list \<Rightarrow> 'a \<Rightarrow> bool" where
  "guarded [] a = True"
| "guarded (e # es) a \<longleftrightarrow> guard e a \<and> guarded es (astep e a)"

lemma run_sim: "rel c a \<Longrightarrow> guarded es a \<Longrightarrow> \<exists>c'. run_all step es c = Some c' \<and> rel c' (fold astep es a)"
proof (induction es arbitrary: c a)
  case (Cons e es)
  then obtain c1 where "step e c = Some c1" "rel c1 (astep e a)" using step_sim [of c a e] by auto
  with Cons.IH [of c1 "astep e a"] Cons.prems(2) show ?case by auto
qed simp

end

subsection \<open>The console as a pair of streams\<close>

datatype con_event = Typed "int list" | Writes "u8 list" | Sync

text \<open>The console together with the root process's files. The root process writes through its descriptor 1.\<close>

definition con_step :: "con_event \<Rightarrow> console \<times> filestate \<Rightarrow> (console \<times> filestate) option" where
  "con_step e cs = (case cs of (con, fs) \<Rightarrow>
     (case e of
        Typed cs \<Rightarrow> Some (fold cons_char cs con, fs)
      | Writes bs \<Rightarrow> map_option (Pair con) (fd_append 1 bs fs)
      | Sync \<Rightarrow> map_option snd (cons_io con fs)))"

record streams =
  pending :: "u8 list"
  delivered :: "u8 list"
  written :: "u8 list"
  printed :: "u8 list"

definition typed_bytes :: "int list \<Rightarrow> u8 list" where
  "typed_bytes cs = map of_int (filter ((\<noteq>) 0) cs)"

definition stream_step :: "con_event \<Rightarrow> streams \<Rightarrow> streams" where
  "stream_step e a = (case e of
       Typed cs \<Rightarrow> a\<lparr>pending := pending a @ typed_bytes cs\<rparr>
     | Writes bs \<Rightarrow> a\<lparr>written := written a @ bs\<rparr>
     | Sync \<Rightarrow> a\<lparr>pending := [], delivered := delivered a @ pending a, printed := written a\<rparr>)"

text \<open>Fewer than 512 characters may be pending, and the files must have room: 4 MB for output, but only the 2 MB that are
  mapped for input.\<close>

definition stream_guard :: "con_event \<Rightarrow> streams \<Rightarrow> bool" where
  "stream_guard e a = (case e of
       Typed cs \<Rightarrow> length (pending a @ typed_bytes cs) < CONSBUFSIZE
     | Writes bs \<Rightarrow> length (written a @ bs) \<le> FILE_MAXSIZE
     | Sync \<Rightarrow> length (delivered a @ pending a) \<le> PDSIZE 1)"

definition con_rel :: "console \<times> filestate \<Rightarrow> streams \<Rightarrow> bool" where
  "con_rel cs a \<longleftrightarrow> (case cs of (con, fs) \<Rightarrow>
     con_rpos con = 0 \<and> con_wpos con = length (pending a) \<and> length (pending a) < CONSBUFSIZE \<and>
     map (con_buf con) [0..<length (pending a)] = pending a \<and>
     con_outsize con = length (printed a) \<and> con_log con = printed a \<and> length (printed a) \<le> length (written a) \<and> take (length (printed a)) (written a) = printed a \<and>
     appending 1 (int FILEINO_CONSOUT) fs fs \<and> file_content (int FILEINO_CONSOUT) fs = written a \<and>
     fileino_isreg (int FILEINO_CONSIN) fs \<and> file_content (int FILEINO_CONSIN) fs = delivered a \<and>
     length (delivered a) \<le> PDSIZE 1 \<and>
     (\<forall>i < PDSIZE 1. fs_rw fs ((FILEDATA (int FILEINO_CONSIN) + i) div PAGESIZE)))"

lemma typed_step:
  assumes "con_rpos con = 0" and "con_wpos con = length p" and "length (p @ typed_bytes cs) < CONSBUFSIZE"
    and "map (con_buf con) [0..<length p] = p"
  shows "let con' = fold cons_char cs con in
    con_rpos con' = 0 \<and> con_wpos con' = length (p @ typed_bytes cs) \<and>
    map (con_buf con') [0..<length (p @ typed_bytes cs)] = p @ typed_bytes cs \<and>
    con_outsize con' = con_outsize con \<and> con_log con' = con_log con"
  using assms
proof (induction cs arbitrary: con p)
  case (Cons c cs)
  show ?case
  proof (cases "c = 0")
    case True
    with Cons.IH [of con p] Cons.prems show ?thesis by (simp add: cons_char_def typed_bytes_def)
  next
    case False
    let ?con = "cons_char c con" and ?p = "p @ [of_int c]"
    have t: "typed_bytes (c # cs) = of_int c # typed_bytes cs" using False by (simp add: typed_bytes_def)
    have "map (con_buf ?con) [0..<length ?p] = ?p"
      using False Cons.prems(2,4) by (auto simp: cons_char_def intro!: map_cong)
    moreover have "con_wpos ?con = length ?p" "con_rpos ?con = 0" "con_outsize ?con = con_outsize con" "con_log ?con = con_log con"
      using False Cons.prems by (simp_all add: cons_char_def t)
    ultimately show ?thesis using Cons.IH [of ?con ?p] Cons.prems(3) by (simp add: t)
  qed
qed (simp add: typed_bytes_def)

lemma fold_cons_putc: "fold cons_putc out con = con\<lparr>con_log := con_log con @ out\<rparr>"
  by (induction out arbitrary: con) (simp_all add: cons_putc_def)

abbreviation consin :: int where "consin \<equiv> int FILEINO_CONSIN"
abbreviation consout :: int where "consout \<equiv> int FILEINO_CONSOUT"

lemma cons_inode [simp]: "fs_fi fs FILEINO_CONSIN = inode consin fs" "fs_fi fs FILEINO_CONSOUT = inode consout fs"
  by (simp_all add: inode_def)

lemma cons_files_differ: "nat consin \<noteq> nat consout" "consin \<noteq> consout"
  by (simp_all add: FILEINO_CONSIN_def FILEINO_CONSOUT_def)

lemma PDSIZE_1: "PDSIZE (Suc 0) = 2097152"
  by (simp add: PDSIZE_def PDSHIFT_def)

lemma PDSIZE_1_le: "PDSIZE 1 \<le> FILE_MAXSIZE"
  by (simp add: PDSIZE_1 FILE_MAXSIZE_def)

lemma consin_file_ok:
  assumes "fileino_isreg consin fs" and "length (file_content consin fs) \<le> PDSIZE 1"
    and "\<forall>i < PDSIZE 1. fs_rw fs ((FILEDATA consin + i) div PAGESIZE)"
  shows "file_ok consin fs"
proof -
  have "ROUNDUP (fi_size (inode consin fs)) PAGESIZE \<le> ROUNDUP (PDSIZE 1) PAGESIZE"
    using assms(2) by (intro ROUNDUP_mono) simp
  moreover have "ROUNDUP (PDSIZE 1) PAGESIZE = PDSIZE 1"
    by (simp add: PDSIZE_1 ROUNDUP_def ROUNDDOWN_def PAGESIZE_def)
  ultimately show ?thesis using assms PDSIZE_1_le by (auto simp: file_ok_def)
qed

text \<open>What the exchange of input does.\<close>

lemma input_write:
  assumes reg: "fileino_isreg consin fs" and len: "length (file_content consin fs) + length bs \<le> PDSIZE 1"
    and rw: "\<forall>i < PDSIZE 1. fs_rw fs ((FILEDATA consin + i) div PAGESIZE)"
  obtains fs' where "user_write (FILEDATA consin + fi_size (inode consin fs)) bs fs = Some fs'"
    "file_content consin (upd_fi consin (\<lambda>n. n\<lparr>fi_size := fi_size (inode consin fs) + length bs\<rparr>) fs') = file_content consin fs @ bs"
    "fs_rw fs' = fs_rw fs" "fs_fd fs' = fs_fd fs" "fs_fi fs' = fs_fi fs"
    "\<And>j i. nat j \<noteq> nat consin \<Longrightarrow> i < FILE_MAXSIZE \<Longrightarrow> fs_mem fs' (FILEDATA j + i) = fs_mem fs (FILEDATA j + i)"
proof -
  let ?a = "FILEDATA consin + fi_size (inode consin fs)"
  let ?fs' = "fs\<lparr>fs_mem := (\<lambda>x. if ?a \<le> x \<and> x < ?a + length bs then bs ! (x - ?a) else fs_mem fs x)\<rparr>"
  have "user_ok ?a (length bs) fs" unfolding user_ok_iff using len rw by (auto simp: add.assoc)
  then have "user_write ?a bs fs = Some ?fs'" by (simp add: user_write_def)
  moreover have "fs_mem ?fs' (FILEDATA j + i) = fs_mem fs (FILEDATA j + i)" if "nat j \<noteq> nat consin" "i < FILE_MAXSIZE" for j i
    using FILEDATA_outside [OF that, of "fi_size (inode consin fs)" "length bs"] len PDSIZE_1_le by auto
  moreover have "inode consin ?fs' = inode consin fs" by (simp add: inode_def del: cons_inode)
  then have "file_content consin (upd_fi consin (\<lambda>n. n\<lparr>fi_size := fi_size (inode consin fs) + length bs\<rparr>) ?fs') =
      map (\<lambda>i. if fi_size (inode consin fs) \<le> i then bs ! (i - fi_size (inode consin fs)) else fs_mem fs (FILEDATA consin + i))
        [0..<fi_size (inode consin fs) + length bs]"
    by (simp add: file_content_def upd_fi_def inode_def del: cons_inode)
  then have "file_content consin (upd_fi consin (\<lambda>n. n\<lparr>fi_size := fi_size (inode consin fs) + length bs\<rparr>) ?fs') = file_content consin fs @ bs"
    by (auto intro!: nth_equalityI simp: file_content_def nth_append)
  ultimately show ?thesis by (intro that [of ?fs']) simp_all
qed

lemma writes_step:
  assumes rel: "con_rel (con, fs) a" and g: "stream_guard (Writes bs) a"
  shows "\<exists>c'. con_step (Writes bs) (con, fs) = Some c' \<and> con_rel c' (stream_step (Writes bs) a)"
proof -
  have app: "appending 1 consout fs fs" "file_content consout fs = written a" and inp: "fileino_isreg consin fs"
    "length (file_content consin fs) \<le> PDSIZE 1" "\<forall>i < PDSIZE 1. fs_rw fs ((FILEDATA consin + i) div PAGESIZE)"
    using rel by (auto simp: con_rel_def)
  have "fi_size (inode consout fs) + length bs \<le> FILE_MAXSIZE"
    using g length_file_content [of consout fs] unfolding app(2) by (simp add: stream_guard_def)
  from fd_append_law [OF app(1) this] obtain fs' where f: "fd_append 1 bs fs = Some fs'" "appending 1 consout fs fs'"
    "file_content consout fs' = written a @ bs" "other_files_same consout fs fs'" "\<forall>pg. fs_rw fs pg \<longrightarrow> fs_rw fs' pg"
    using app(2) by auto
  have "appending 1 consout fs' fs'" using f(2) by (simp add: appending_def)
  moreover have "file_content consin fs' = file_content consin fs" "fileino_isreg consin fs'"
    using f(4) consin_file_ok [OF inp] cons_files_differ by (auto simp: other_files_same_def file_ok_def)
  ultimately show ?thesis using f rel by (auto simp: con_step_def con_rel_def stream_step_def)
qed

lemma sync_output:
  assumes "appending 1 consout fs fs" and "file_content consout fs = w" and "take (con_outsize con) w = con_log con"
    and "con_outsize con \<le> length w"
  shows "\<exists>d. cons_output con fs = Some (d, con\<lparr>con_log := w, con_outsize := length w\<rparr>)"
proof -
  have ok: "file_ok consout fs" "fi_size (inode consout fs) = length w" using assms(1,2) by (auto simp: appending_def)
  have "user_read (FILEDATA consout + con_outsize con) (length w - con_outsize con) fs = Some (drop (con_outsize con) w)"
    using user_read_file [OF ok(1), of "length w - con_outsize con" "con_outsize con"] ok(2) assms(2) by simp
  then show ?thesis using ok(2) assms(3,4)
    by (auto simp: cons_output_def fold_cons_putc Let_def) (metis append_take_drop_id)
qed

lemma user_write_nil: "user_write a [] fs = Some fs"
proof -
  have "fs\<lparr>fs_mem := (\<lambda>x. if a \<le> x \<and> x < a then [] ! (x - a) else fs_mem fs x)\<rparr> = fs"
    by (rule filestate.equality) (auto simp: fun_eq_iff)
  then show ?thesis by (simp add: user_write_def user_ok_def)
qed

lemma upd_fi_same: "upd_fi ino (\<lambda>n. n\<lparr>fi_size := fi_size (inode ino fs)\<rparr>) fs = fs"
  by (rule filestate.equality) (simp_all add: upd_fi_def inode_def)

lemma sync_step:
  assumes rel: "con_rel (con, fs) a" and g: "stream_guard Sync a"
  shows "\<exists>c'. con_step Sync (con, fs) = Some c' \<and> con_rel c' (stream_step Sync a)"
proof -
  have r: "con_rpos con = 0" "con_wpos con = length (pending a)" "length (pending a) < CONSBUFSIZE"
    "map (con_buf con) [0..<length (pending a)] = pending a" "con_outsize con = length (printed a)" "con_log con = printed a"
    "length (printed a) \<le> length (written a)" "take (length (printed a)) (written a) = printed a"
    "appending 1 consout fs fs" "file_content consout fs = written a"
    and inp: "fileino_isreg consin fs" "file_content consin fs = delivered a"
    "\<forall>i < PDSIZE 1. fs_rw fs ((FILEDATA consin + i) div PAGESIZE)" using rel by (simp_all add: con_rel_def)
  have sz: "fi_size (inode consin fs) = length (delivered a)" using length_file_content [of consin fs] inp(2) by simp
  have len: "length (file_content consin fs) + length (pending a) \<le> PDSIZE 1"
    using g inp(2) by (simp add: stream_guard_def)
  let ?con = "con\<lparr>con_log := written a, con_outsize := length (written a)\<rparr>"
  obtain d where o1: "cons_output con fs = Some (d, ?con)" using sync_output [OF r(9,10), of con] r(5-8) by auto
  obtain fs' where w: "user_write (FILEDATA consin + fi_size (inode consin fs)) (pending a) fs = Some fs'"
    "file_content consin (upd_fi consin (\<lambda>n. n\<lparr>fi_size := fi_size (inode consin fs) + length (pending a)\<rparr>) fs') = delivered a @ pending a"
    "fs_rw fs' = fs_rw fs" "fs_fd fs' = fs_fd fs" "fs_fi fs' = fs_fi fs"
    "\<And>j i. nat j \<noteq> nat consin \<Longrightarrow> i < FILE_MAXSIZE \<Longrightarrow> fs_mem fs' (FILEDATA j + i) = fs_mem fs (FILEDATA j + i)"
    using input_write [OF inp(1) len inp(3)] inp(2) by metis
  let ?fs2 = "upd_fi consin (\<lambda>n. n\<lparr>fi_size := fi_size (inode consin fs) + length (pending a)\<rparr>) fs'"
  have ino: "inode j fs' = inode j fs" for j using w(5) by (simp add: inode_def del: cons_inode)
  have am: "wrap32 (int (length (pending a))) = int (length (pending a))" using r(3) by (simp add: CONSBUFSIZE_def)
  have room: "length (delivered a) + length (pending a) \<le> FILE_MAXSIZE" using len PDSIZE_1_le unfolding inp(2) by linarith
  have i1: "\<exists>e. cons_input ?con fs = Some (e, ?con\<lparr>con_rpos := 0, con_wpos := 0\<rparr>, ?fs2)"
  proof (cases "pending a = []")
    case True
    then have "?fs2 = fs" using w(1) by (simp add: user_write_nil upd_fi_same)
    with True r(1,2) room sz show ?thesis by (intro exI [of _ False]) (simp add: cons_input_def FILE_MAXSIZE_def)
  next
    case False
    then show ?thesis using r(1-4) am room w(1) sz
      by (intro exI [of _ True]) (simp add: cons_input_def CONSBUFSIZE_def FILE_MAXSIZE_def)
  qed
  have ok: "file_ok consout fs" using r(9) by (simp add: appending_def)
  have same: "other_files_same consin fs ?fs2"
    using cons_files_differ w(3,6) ino consin_file_ok [OF inp(1) _ inp(3)] len
    by (intro other_files_sameI) auto
  then have out: "file_ok consout ?fs2" "file_content consout ?fs2 = written a"
    using ok r(10) cons_files_differ by (auto simp: other_files_same_def)
  have "appending 1 consout ?fs2 ?fs2"
    using r(9) out w(4) by (simp add: appending_def filedesc_iswritable_def filedesc_isopen_def upd_fi_def)
  moreover have "fileino_isreg consin ?fs2" using inp(1) ino by (simp add: fileino_defs)
  ultimately show ?thesis using o1 i1 w(2,3) out r inp len
    by (auto simp: con_step_def cons_io_def con_rel_def stream_step_def CONSBUFSIZE_def upd_fi_def)
qed

interpretation console: simulation con_rel con_step stream_step stream_guard
proof
  fix c a e
  assume "con_rel c a" and "stream_guard e a"
  obtain con fs where c: "c = (con, fs)" by (cases c)
  show "\<exists>c'. con_step e c = Some c' \<and> con_rel c' (stream_step e a)"
  proof (cases e)
    case (Typed cs)
    with \<open>con_rel c a\<close> \<open>stream_guard e a\<close> c show ?thesis
      using typed_step [of con "pending a" cs]
      by (auto simp: con_rel_def con_step_def stream_step_def stream_guard_def Let_def)
  next
    case (Writes bs)
    with writes_step [of con fs a bs] \<open>con_rel c a\<close> \<open>stream_guard e a\<close> c show ?thesis by simp
  next
    case Sync
    with sync_step [of con fs a] \<open>con_rel c a\<close> \<open>stream_guard e a\<close> c show ?thesis by simp
  qed
qed

subsection \<open>Input and output arrive complete and in order\<close>

definition con_init :: console where
  "con_init = \<lparr>con_buf = (\<lambda>_. 0), con_rpos = 0, con_wpos = 0, con_outsize = 0, con_log = []\<rparr>"

definition no_streams :: streams where "no_streams = \<lparr>pending = [], delivered = [], written = [], printed = []\<rparr>"

fun fits :: "con_event list \<Rightarrow> streams \<Rightarrow> bool" where
  "fits [] a = True"
| "fits (e # es) a \<longleftrightarrow> stream_guard e a \<and> fits es (stream_step e a)"

lemma fits_guarded: "fits es a = console.guarded es a"
  by (induction es arbitrary: a) simp_all

lemma con_init_rel: "con_rel (con_init, initial_files) no_streams"
proof -
  have e: "FILEDATA consin + i < FILEDATA consin + PDSIZE 1 \<Longrightarrow>
      fs_rw initial_files ((FILEDATA consin + i) div PAGESIZE)" for i
  proof -
    assume i: "FILEDATA consin + i < FILEDATA consin + PDSIZE 1"
    have "(FILEDATA consin + i) div PAGESIZE * PAGESIZE \<le> FILEDATA consin + i" by simp
    moreover have "FILEDATA consin \<le> (FILEDATA consin + i) div PAGESIZE * PAGESIZE"
      using FILEDATA_page [of consin] by (metis dvd_div_mult_self div_le_mono le_add1 mult_le_mono1)
    moreover have "(FILEDATA consin + i) div PAGESIZE * PAGESIZE < FILEDATA consin + PDSIZE 1"
      using calculation(1) i by linarith
    ultimately show ?thesis by (simp add: initial_files_def)
  qed
  have "appending 1 consout initial_files initial_files"
    by (simp add: appending_def filedesc_iswritable_def filedesc_isopen_def file_ok_def fileino_defs inode_def initial_files_def
        flagged_def O_WRONLY_def O_APPEND_def FILEINO_CONSOUT_def FILEINO_CONSIN_def FILEINO_ROOTDIR_def FILEINO_NULL_def
        zero_inode_def zero_filedesc_def FILE_INODES_def OPEN_MAX_def S_ISREG_def S_IFMT_def S_IFREG_def ROUNDUP_def
        ROUNDDOWN_def PAGESIZE_def del: cons_inode)
  moreover have "fileino_isreg consin initial_files"
    by (simp add: fileino_defs inode_def initial_files_def FILEINO_CONSIN_def FILEINO_CONSOUT_def FILEINO_ROOTDIR_def
        zero_inode_def FILE_INODES_def OPEN_MAX_def S_ISREG_def S_IFMT_def S_IFREG_def S_IFPART_def del: cons_inode)
  moreover have "fi_size (inode consin initial_files) = 0" "fi_size (inode consout initial_files) = 0"
    by (simp_all add: inode_def initial_files_def FILEINO_CONSIN_def FILEINO_CONSOUT_def FILEINO_ROOTDIR_def zero_inode_def del: cons_inode)
  ultimately show ?thesis using e
    by (simp add: con_rel_def con_init_def no_streams_def file_content_def CONSBUFSIZE_def)
qed

text \<open>C11: Starting from the initial file system, after any sequence of typing, writing and exchanges in which never 512 characters are
  pending and the files do not overflow, the root process's input file holds exactly the non-zero characters typed before the last exchange, and the console has shown
  exactly the bytes written before it, both complete and in order.\<close>

theorem console_streams:
  assumes "fits es no_streams"
  shows "\<exists>con fs. run_all con_step es (con_init, initial_files) = Some (con, fs) \<and>
    file_content consin fs = delivered (fold stream_step es no_streams) \<and>
    file_content consout fs = written (fold stream_step es no_streams) \<and>
    con_log con = printed (fold stream_step es no_streams)"
  using console.run_sim [OF con_init_rel assms [unfolded fits_guarded]] by (auto simp: con_rel_def)

theorem console_streams_witness:
  "\<exists>con fs. run_all con_step [Typed [104, 0, 105], Writes [33], Sync, Typed [63]] (con_init, initial_files) = Some (con, fs) \<and>
    file_content consin fs = [104, 105] \<and> con_log con = [33]"
  using console_streams [of "[Typed [104, 0, 105], Writes [33], Sync, Typed [63]]"]
  by (auto simp: stream_guard_def stream_step_def no_streams_def typed_bytes_def CONSBUFSIZE_def FILE_MAXSIZE_def PDSIZE_1)

subsection \<open>When the buffer fills up\<close>

lemma cons_positions:
  "con_wpos con < CONSBUFSIZE \<Longrightarrow>
   con_wpos (fold cons_char cs con) = (con_wpos con + length (typed_bytes cs)) mod CONSBUFSIZE \<and>
   con_rpos (fold cons_char cs con) = con_rpos con"
proof (induction cs arbitrary: con)
  case (Cons c cs)
  show ?case
  proof (cases "c = 0")
    case False
    have w: "con_wpos (cons_char c con) = (con_wpos con + 1) mod CONSBUFSIZE" "con_rpos (cons_char c con) = con_rpos con"
      using False Cons.prems by (auto simp: cons_char_def)
    then have "con_wpos (cons_char c con) < CONSBUFSIZE" by (simp add: CONSBUFSIZE_def)
    with Cons.IH [of "cons_char c con"] w False show ?thesis by (simp add: typed_bytes_def mod_simps)
  qed (use Cons in \<open>simp add: cons_char_def typed_bytes_def\<close>)
qed (simp add: typed_bytes_def)

text \<open>When 512 characters arrive between two exchanges, all of them are lost: the write position has come round to the read
  position, which is how an empty buffer looks, and the exchange delivers nothing.\<close>

theorem full_buffer_is_empty:
  assumes "con_rpos con = 0" and "con_wpos con = 0" and "length (typed_bytes cs) = CONSBUFSIZE"
    and "fi_size (inode consin fs) \<le> FILE_MAXSIZE"
  shows "cons_input (fold cons_char cs con) fs = Some (False, fold cons_char cs con, fs)"
  using cons_positions [of con cs] assms by (simp add: cons_input_def CONSBUFSIZE_def FILE_MAXSIZE_def)

theorem full_buffer_is_empty_witness:
  "cons_input (fold cons_char (replicate 512 97) con_init) initial_files =
     Some (False, fold cons_char (replicate 512 97) con_init, initial_files)"
proof (rule full_buffer_is_empty)
  show "length (typed_bytes (replicate 512 97)) = CONSBUFSIZE" by (simp add: typed_bytes_def CONSBUFSIZE_def)
  have "length (file_content consin initial_files) = 0" using con_init_rel by (simp add: con_rel_def no_streams_def)
  then show "fi_size (inode consin initial_files) \<le> FILE_MAXSIZE" by simp
qed (simp_all add: con_init_def)

text \<open>Once the buffer has wrapped around behind a character read by the kernel monitor, the next exchange with the root
  process stops the kernel: the amount of input is computed as a negative number.\<close>

theorem wrapped_buffer_panics:
  assumes "con_wpos con < con_rpos con" and "con_rpos con < CONSBUFSIZE"
  shows "cons_io con fs = None"
proof -
  have "wrap32 (int (con_wpos con) - int (con_rpos con)) = int (con_wpos con) - int (con_rpos con)"
    using assms by (intro wrap32_id) (auto simp: CONSBUFSIZE_def)
  then have i: "cons_input con' fs = None" if "con_wpos con' = con_wpos con" "con_rpos con' = con_rpos con" for con'
    using assms(1) that by (auto simp: cons_input_def cassert_def bind_eq_None_conv)
  have "con_wpos con' = con_wpos con \<and> con_rpos con' = con_rpos con" if "cons_output con fs = Some (d, con')" for d con'
    using that by (auto simp: cons_output_def fold_cons_putc Let_def elim!: bind_SomeE)
  with i show ?thesis by (cases "cons_output con fs") (auto simp: cons_io_def)
qed

theorem wrapped_buffer_panics_witness:
  "cons_io (fold cons_char (replicate 511 97) (con_init\<lparr>con_rpos := 1, con_wpos := 1\<rparr>)) initial_files = None"
  using cons_positions [of "con_init\<lparr>con_rpos := 1, con_wpos := 1\<rparr>" "replicate 511 97"]
  by (intro wrapped_buffer_panics) (auto simp: typed_bytes_def CONSBUFSIZE_def)

subsection \<open>Sleeping and waking\<close>

lemma file_wakeroot_inv: "sched_inv (io_k io) q \<Longrightarrow> \<exists>q'. sched_inv (io_k (file_wakeroot io)) q'"
proof (cases "io_root io")
  case (Some r)
  then show "sched_inv (io_k io) q \<Longrightarrow> ?thesis"
    using proc_ready_inv [of "io_k io" q r] by (auto simp: file_wakeroot_def)
qed (auto simp: file_wakeroot_def)

lemma file_io_sleep_inv:
  assumes inv: "sched_inv (io_k io) q" and c: "cpu_runs (io_k io) c = Some r" and root: "parent (io_k io) r = None"
    and s: "file_io_sleep c tf io = Some io'"
  shows "sched_inv (io_k io') q"
proof -
  let ?k = "upd_proc r (\<lambda>q. q\<lparr>p_state := PROC_STOP, p_runcpu := None\<rparr>) (io_k io)"
  have "waitchild (io_k io) v \<noteq> Some r" if "pstate (io_k io) v = PROC_WAIT" for v
    using inv that root unfolding sched_inv_def sinv_def by force
  then have "sched_inv (proc_sched c ?k) q"
    by (intro sched_inv_leave [OF inv c, of PROC_STOP]) auto
  moreover obtain k2 where "proc_save c r tf 1 ?k = Some k2" "io' = io\<lparr>io_k := proc_sched c k2\<rparr>"
    using s cpu_runs_proc [OF c] by (auto simp: file_io_sleep_def elim!: bind_SomeE)
  ultimately show ?thesis using proc_save_sched_inv by fastforce
qed

text \<open>C36: The root process's input and output keep the scheduler's invariant: an exchange that ends with the root process asleep
  leaves it stopped and on no processor, and an interrupt that wakes it puts it on the ready queue exactly once.\<close>

theorem file_io_sched_inv:
  assumes "sched_inv (io_k io) q" and "cpu_runs (io_k io) c = Some r" and "parent (io_k io) r = None"
    and "file_io c tf io = Some (nxt, io')"
  shows "(\<exists>q'. sched_inv (io_k io') q') \<and> (\<exists>q'. sched_inv (io_k (cons_intr cs io')) q')"
proof -
  obtain n1 io1 where s: "file_io_sync c io = Some (n1, io1)"
    and n: "(case n1 of IOSleep \<Rightarrow> map_option (Pair IOSleep) (file_io_sleep c tf io1) | _ \<Rightarrow> Some (n1, io1)) = Some (nxt, io')"
    using assms(4) by (auto simp: file_io_def elim!: bind_SomeE)
  have k: "io_k io1 = io_k io" using s by (auto simp: file_io_sync_def Let_def elim!: bind_SomeE)
  have "sched_inv (io_k io') q"
    using n assms(1-3) k file_io_sleep_inv [of io1 q c r tf io'] by (cases n1) auto
  then show ?thesis using file_wakeroot_inv [of "io'\<lparr>io_con := fold cons_char cs (io_con io')\<rparr>" q]
    by (auto simp: cons_intr_def)
qed

text \<open>A wake-up can be lost. When a character arrives on another processor after the exchange found nothing to do
  and before the root process is marked as stopped, the root process goes to sleep with the character pending in the buffer, and it is not
  made ready.\<close>

theorem wakeup_lost:
  assumes "file_io_sync c io = Some (IOSleep, io1)" and "pstate (io_k io) r = PROC_RUN" and "io_root io = Some r"
    and "ch0 \<noteq> 0" and "con_wpos (io_con io1) < CONSBUFSIZE" and "con_rpos (io_con io1) = con_wpos (io_con io1)"
    and "file_io_sleep c tf (cons_intr [ch0] io1) = Some io3"
  shows "pstate (io_k io3) r = PROC_STOP \<and> con_rpos (io_con io3) \<noteq> con_wpos (io_con io3) \<and>
    readyhead (io_k io3) = readyhead (io_k io)"
proof -
  have io1: "io_k io1 = io_k io" "io_root io1 = Some r" "cpu_proc (io_k io) c = Some r"
    using assms(1,3) by (auto simp: file_io_sync_def Let_def elim!: bind_SomeE)
  let ?io2 = "cons_intr [ch0] io1"
  have io2: "io_k ?io2 = io_k io" "io_con ?io2 = cons_char ch0 (io_con io1)"
    using io1 assms(2) by (simp_all add: cons_intr_def file_wakeroot_def)
  obtain k2 where k2: "proc_save c r tf 1 (upd_proc r (\<lambda>q. q\<lparr>p_state := PROC_STOP, p_runcpu := None\<rparr>) (io_k io)) = Some k2"
    "io3 = ?io2\<lparr>io_k := proc_sched c k2\<rparr>"
    using assms(7) io1(3) io2(1) by (auto simp: file_io_sleep_def elim!: bind_SomeE)
  have same: "sched_same (upd_proc r (\<lambda>q. q\<lparr>p_state := PROC_STOP, p_runcpu := None\<rparr>) (io_k io)) k2"
    using proc_save_same [OF k2(1)] by blast
  have "pstate k2 r = PROC_STOP" using fun_cong [OF sched_sameD(1) [OF same], of r] by simp
  moreover have "readyhead k2 = readyhead (io_k io)" using sched_sameD(7) [OF same] by simp
  ultimately show ?thesis using k2(2) io2(2) assms(4-6) by (auto simp: cons_char_def CONSBUFSIZE_def)
qed

text \<open>The root process, in page 5, runs on processor 0; nothing has been typed or written.\<close>

definition demo_root :: kst where
  "demo_root = demo_kernel\<lparr>procs := (\<lambda>_. zero_proc)(5 := zero_proc\<lparr>p_state := PROC_RUN, p_runcpu := Some 0\<rparr>),
     cpu_proc := (\<lambda>_. None)(0 := Some 5), cpu_idle := (\<lambda>_. True)(0 := False)\<rparr>"

definition demo_io :: iosys where
  "demo_io = \<lparr>io_con = con_init, io_files = initial_files, io_k = demo_root, io_root = Some 5\<rparr>"

lemma demo_root_inv: "sched_inv demo_root []" "cpu_runs demo_root 0 = Some 5" "parent demo_root 5 = None"
  by (auto simp: sched_inv_def ready_q_def sinv_def cpu_runs_def demo_root_def demo_kernel_def zero_proc_def split: if_splits)

lemma demo_cons_io: "cons_io con_init initial_files = Some (False, con_init, initial_files)"
proof -
  have "fi_size (inode consin initial_files) = 0" "fi_size (inode consout initial_files) = 0"
    using con_init_rel length_file_content [of consin initial_files] length_file_content [of consout initial_files]
    by (auto simp: con_rel_def no_streams_def)
  then show ?thesis
    by (simp add: cons_io_def cons_output_def cons_input_def con_init_def user_read_def user_ok_def FILE_MAXSIZE_def)
qed

lemma demo_sync: "file_io_sync 0 demo_io = Some (IOSleep, demo_io)"
proof -
  have "\<not> fs_exited initial_files" by (simp add: initial_files_def)
  then show ?thesis by (simp add: file_io_sync_def demo_io_def demo_cons_io demo_root_def)
qed

lemma demo_sleep: "io_k io = demo_root \<Longrightarrow> \<exists>io'. file_io_sleep 0 zero_tf io = Some io'"
  by (simp add: file_io_sleep_def demo_root_def proc_save_def Let_def upd_proc_def zero_proc_def zero_sv_def flag32_def
      has_def zero_tf_def)

theorem file_io_sched_inv_witness:
  "\<exists>io'. file_io 0 zero_tf demo_io = Some (IOSleep, io') \<and> (\<exists>q'. sched_inv (io_k (cons_intr [97] io')) q')"
proof -
  obtain io' where io': "file_io_sleep 0 zero_tf demo_io = Some io'"
    using demo_sleep [of demo_io] by (auto simp: demo_io_def)
  then have f: "file_io 0 zero_tf demo_io = Some (IOSleep, io')" by (simp add: file_io_def demo_sync)
  then show ?thesis
    using file_io_sched_inv [of demo_io "[]" 0 5 zero_tf IOSleep io' "[97]"] demo_root_inv by (simp add: demo_io_def)
qed

theorem wakeup_lost_witness:
  "\<exists>io3. file_io_sync 0 demo_io = Some (IOSleep, demo_io) \<and> file_io_sleep 0 zero_tf (cons_intr [97] demo_io) = Some io3 \<and>
     pstate (io_k io3) 5 = PROC_STOP \<and> con_rpos (io_con io3) \<noteq> con_wpos (io_con io3)"
proof -
  have p: "pstate demo_root 5 = PROC_RUN" by (simp add: demo_root_def)
  then have "io_k (cons_intr [97] demo_io) = demo_root" by (simp add: cons_intr_def file_wakeroot_def demo_io_def)
  from demo_sleep [OF this] obtain io3 where io3: "file_io_sleep 0 zero_tf (cons_intr [97] demo_io) = Some io3" by blast
  with wakeup_lost [OF demo_sync _ _ _ _ _ io3, of 5] p demo_sync show ?thesis
    by (auto simp: demo_io_def con_init_def CONSBUFSIZE_def)
qed

subsection \<open>The initial file system\<close>

lemma small_file_reserves_none: "n \<le> PDSIZE 1 \<Longrightarrow> ROUNDUP n (PDSIZE 1) div PDSIZE 1 - 1 = 0"
  by (simp add: PDSIZE_1 ROUNDUP_def ROUNDDOWN_def)

lemma perm_range_page:
  assumes "PAGESIZE dvd a" and "i < n"
  shows "fs_rw (sys_perm_range True a n fs) ((a + i) div PAGESIZE)"
proof -
  have "(a + i) div PAGESIZE * PAGESIZE \<le> a + i" by simp
  moreover have "a \<le> (a + i) div PAGESIZE * PAGESIZE"
    using assms(1) by (metis dvd_div_mult_self div_le_mono le_add1 mult_le_mono1)
  moreover have "(a + i) div PAGESIZE * PAGESIZE < a + n" using calculation(1) assms(2) by linarith
  ultimately show ?thesis by (simp add: sys_perm_range_def)
qed

lemma init_file_small:
  assumes ino: "0 < ino" "ino < FILE_INODES" and name: "name \<noteq> []" "length name \<le> NAME_MAX"
    and len: "length content \<le> PDSIZE 1"
  obtains fs' where "init_file (name, content) (ino, fs) = Some (Suc ino, fs')"
    "file_ok (int ino) fs'" "file_content (int ino) fs' = content"
    "fi_name (inode (int ino) fs') = name" "fi_dino (inode (int ino) fs') = int FILEINO_ROOTDIR"
    "\<And>j. nat j \<noteq> ino \<Longrightarrow> inode j fs' = inode j fs"
    "\<And>j. nat j \<noteq> ino \<Longrightarrow> file_ok j fs \<Longrightarrow> file_ok j fs' \<and> file_content j fs' = file_content j fs"
proof -
  let ?a = "FILEDATA (int ino)" and ?R = "ROUNDUP (length content) PAGESIZE"
  let ?fs1 = "sys_perm_range True ?a ?R (upd_fi (int ino)
      (\<lambda>n. n\<lparr>fi_name := name, fi_dino := int FILEINO_ROOTDIR, fi_mode := S_IFREG, fi_size := length content\<rparr>) fs)"
  let ?fs2 = "?fs1\<lparr>fs_mem := (\<lambda>x. if ?a \<le> x \<and> x < ?a + length content then content ! (x - ?a) else fs_mem fs x)\<rparr>"
  have le: "length content \<le> FILE_MAXSIZE" using len PDSIZE_1_le by linarith
  have rw: "fs_rw ?fs1 ((?a + i) div PAGESIZE)" if "i < ?R" for i
    using that FILEDATA_page by (rule perm_range_page [rotated])
  have "length content \<le> ?R" by (rule ROUNDUP_ge [OF PAGESIZE_gt0])
  then have "user_ok ?a (length content) ?fs1" using rw by (simp add: user_ok_iff)
  moreover have "fs_mem ?fs1 = fs_mem fs" by (simp add: upd_fi_def)
  ultimately have "user_write ?a content ?fs1 = Some ?fs2" by (simp add: user_write_def cong: if_cong)
  then have i: "init_file (name, content) (ino, fs) = Some (Suc ino, ?fs2)"
    using ino name(2) small_file_reserves_none [OF len] by (simp add: init_file_def Let_def)
  have in2: "inode (int ino) ?fs2 = (inode (int ino) fs)\<lparr>fi_name := name, fi_dino := int FILEINO_ROOTDIR, fi_mode := S_IFREG, fi_size := length content\<rparr>"
    "nat j \<noteq> ino \<Longrightarrow> inode j ?fs2 = inode j fs" for j
    by (simp_all add: inode_def upd_fi_def sys_perm_range_def)
  have ok: "file_ok (int ino) ?fs2" using ino name(1) le rw in2(1)
    by (simp add: file_ok_def fileino_defs S_ISREG_def S_IFMT_def S_IFREG_def)
  have c: "file_content (int ino) ?fs2 = content"
    by (rule nth_equalityI) (simp_all add: in2(1) file_content_def)
  have other: "file_ok j ?fs2 \<and> file_content j ?fs2 = file_content j fs" if j: "nat j \<noteq> ino" "file_ok j fs" for j
  proof
    have sz: "fi_size (inode j fs) \<le> FILE_MAXSIZE" using j(2) by (simp add: file_ok_def)
    have "fs_rw ?fs2 pg" if "fs_rw fs pg" for pg using that by (simp add: sys_perm_range_def upd_fi_def)
    then show "file_ok j ?fs2" using j in2(2) [OF j(1)] by (simp add: file_ok_def fileino_defs)
    have "fs_mem ?fs2 (FILEDATA j + i) = fs_mem fs (FILEDATA j + i)" if "i < fi_size (inode j fs)" for i
      using FILEDATA_outside [of j "int ino" i 0 "length content"] j(1) that sz le by auto
    then show "file_content j ?fs2 = file_content j fs" using in2(2) [OF j(1)] by (simp add: file_content_def)
  qed
  show ?thesis by (rule that [OF i ok c]) (simp_all add: in2 other)
qed

definition small_file :: "string \<times> u8 list \<Rightarrow> bool" where
  "small_file f \<longleftrightarrow> fst f \<noteq> [] \<and> length (fst f) \<le> NAME_MAX \<and> length (snd f) \<le> PDSIZE 1"

definition holds_file :: "nat \<Rightarrow> string \<times> u8 list \<Rightarrow> filestate \<Rightarrow> bool" where
  "holds_file ino f fs \<longleftrightarrow> file_ok (int ino) fs \<and> file_content (int ino) fs = snd f \<and>
     fi_name (inode (int ino) fs) = fst f \<and> fi_dino (inode (int ino) fs) = int FILEINO_ROOTDIR"

lemma init_files_small:
  assumes "list_all small_file files" and "0 < k" and "k + length files \<le> FILE_INODES"
  shows "\<exists>fs'. init_files files (k, fs) = Some (k + length files, fs') \<and>
    (\<forall>i < length files. holds_file (k + i) (files ! i) fs') \<and>
    (\<forall>j f. j < k \<longrightarrow> holds_file j f fs \<longrightarrow> holds_file j f fs')"
  using assms
proof (induction files arbitrary: k fs)
  case (Cons f files)
  obtain name content where f: "f = (name, content)" by (cases f)
  then have sm: "name \<noteq> []" "length name \<le> NAME_MAX" "length content \<le> PDSIZE 1" "k < FILE_INODES"
    using Cons.prems by (simp_all add: small_file_def)
  obtain fs1 where one: "init_file f (k, fs) = Some (Suc k, fs1)" "holds_file k f fs1"
    "\<And>j g. j < k \<Longrightarrow> holds_file j g fs \<Longrightarrow> holds_file j g fs1"
    by (rule init_file_small [OF Cons.prems(2) sm(4,1,2,3), of fs]) (force simp: f holds_file_def)
  obtain fs2 where rest: "init_files files (Suc k, fs1) = Some (Suc k + length files, fs2)"
    "\<forall>i < length files. holds_file (Suc k + i) (files ! i) fs2"
    "\<forall>j g. j < Suc k \<longrightarrow> holds_file j g fs1 \<longrightarrow> holds_file j g fs2"
    using Cons.IH [of "Suc k" fs1] Cons.prems by auto
  have "holds_file (k + i) ((f # files) ! i) fs2" if "i < length (f # files)" for i
    using that one(2) rest(2,3) by (cases i) (auto simp: f)
  then show ?case using one(1,3) rest(1,3) by auto
qed simp

text \<open>C37: The root process starts with all initial files in place: when there are at most 252 of them, with proper names and of at most
  2 MB each, each is a regular file in the root directory, under its name, accessible, with exactly its contents.\<close>

theorem file_initroot_files:
  assumes "list_all small_file files" and "length files \<le> 252"
  shows "\<exists>fs. file_initroot files = Some fs \<and>
    (\<forall>i < length files. holds_file (FILEINO_GENERAL + i) (files ! i) fs)"
proof -
  have "FILEINO_GENERAL + length files \<le> FILE_INODES" "0 < FILEINO_GENERAL"
    using assms(2) by (simp_all add: FILEINO_GENERAL_def FILE_INODES_def OPEN_MAX_def)
  from init_files_small [OF assms(1) this(2,1), of initial_files] obtain fs
    where "init_files files (FILEINO_GENERAL, initial_files) = Some (FILEINO_GENERAL + length files, fs)"
      "\<forall>i < length files. holds_file (FILEINO_GENERAL + i) (files ! i) fs" by blast
  then show ?thesis
    by (auto simp: file_initroot_def holds_file_def file_ok_def fileino_defs file_content_def inode_def)
qed

theorem file_initroot_files_witness:
  "\<exists>fs. file_initroot [(''sh'', [1, 2, 3]), (''ls'', [4])] = Some fs \<and> holds_file (FILEINO_GENERAL + 1) (''ls'', [4]) fs"
proof -
  let ?files = "[(''sh'', [1, 2, 3]), (''ls'', [4])] :: (string \<times> u8 list) list"
  have "list_all small_file ?files" by (simp add: small_file_def NAME_MAX_def PDSIZE_1)
  from file_initroot_files [OF this] obtain fs where fs: "file_initroot ?files = Some fs"
    "\<forall>i < length ?files. holds_file (FILEINO_GENERAL + i) (?files ! i) fs" by auto
  from fs(2) [rule_format, of 1] fs(1) show ?thesis by simp
qed

end
