(* ===== verification/Strings.thy ===== *)
theory Strings
  imports Prelude
begin

text \<open>
  The byte and string routines of \<open>lib/string.c\<close>, in the form that is built: \<open>memset\<close> and \<open>memmove\<close> with the string
  instructions of the processor, four bytes at a time when everything is aligned.

  Memory is a function from addresses to bytes; nothing wraps around the end of the address space. A loop over a string need not end when there is no null byte, so the
  routines that look for one are partial: \<open>None\<close> means that they never return.
\<close>

type_synonym bytes = "nat \<Rightarrow> u8"

subsection \<open>Moving and filling memory\<close>

text \<open>One step of \<open>rep movs\<close>: \<open>u\<close> bytes are read, then written.\<close>

definition movs :: "nat \<Rightarrow> nat \<Rightarrow> nat \<Rightarrow> bytes \<Rightarrow> bytes" where
  "movs u d s m = (\<lambda>a. if d \<le> a \<and> a < d + u then m (s + (a - d)) else m a)"

text \<open>\<open>cld; rep movs\<close> and \<open>std; rep movs\<close>, \<open>k\<close> times.\<close>

fun rep_movs_up :: "nat \<Rightarrow> nat \<Rightarrow> nat \<Rightarrow> nat \<Rightarrow> bytes \<Rightarrow> bytes" where
  "rep_movs_up u 0 d s m = m"
| "rep_movs_up u (Suc k) d s m = rep_movs_up u k (d + u) (s + u) (movs u d s m)"

fun rep_movs_down :: "nat \<Rightarrow> nat \<Rightarrow> int \<Rightarrow> int \<Rightarrow> bytes \<Rightarrow> bytes" where
  "rep_movs_down u 0 d s m = m"
| "rep_movs_down u (Suc k) d s m = rep_movs_down u k (d - int u) (s - int u) (movs u (nat d) (nat s) m)"

definition memmove :: "nat \<Rightarrow> nat \<Rightarrow> nat \<Rightarrow> bytes \<Rightarrow> bytes" where
  "memmove dst src n m =
     (if src < dst \<and> src + n > dst
      then let s = src + n; d = dst + n in
        if s mod 4 = 0 \<and> d mod 4 = 0 \<and> n mod 4 = 0
        then rep_movs_down 4 (n div 4) (int d - 4) (int s - 4) m
        else rep_movs_down 1 n (int d - 1) (int s - 1) m
      else if src mod 4 = 0 \<and> dst mod 4 = 0 \<and> n mod 4 = 0 then rep_movs_up 4 (n div 4) dst src m
      else rep_movs_up 1 n dst src m)"

definition memcpy :: "nat \<Rightarrow> nat \<Rightarrow> nat \<Rightarrow> bytes \<Rightarrow> bytes" where
  "memcpy dst src n m = memmove dst src n m"

text \<open>\<open>rep stos\<close> of a value of \<open>u\<close> bytes, least significant first.\<close>

fun rep_stos :: "nat \<Rightarrow> nat \<Rightarrow> nat \<Rightarrow> u32 \<Rightarrow> bytes \<Rightarrow> bytes" where
  "rep_stos u 0 d c m = m"
| "rep_stos u (Suc k) d c m =
     rep_stos u k (d + u) c (\<lambda>a. if d \<le> a \<and> a < d + u then ucast (drop_bit (8 * (a - d)) c) else m a)"

definition memset :: "nat \<Rightarrow> u32 \<Rightarrow> nat \<Rightarrow> bytes \<Rightarrow> bytes" where
  "memset v c n m =
     (if n = 0 then m
      else if v mod 4 = 0 \<and> n mod 4 = 0
      then let c1 = c AND 0xFF; c2 = push_bit 24 c1 OR push_bit 16 c1 OR push_bit 8 c1 OR c1
        in rep_stos 4 (n div 4) v c2 m
      else rep_stos 1 n v c m)"

fun memcmp :: "nat \<Rightarrow> nat \<Rightarrow> nat \<Rightarrow> bytes \<Rightarrow> int" where
  "memcmp v1 v2 0 m = 0"
| "memcmp v1 v2 (Suc n) m = (if m v1 \<noteq> m v2 then uint (m v1) - uint (m v2) else memcmp (v1 + 1) (v2 + 1) n m)"

fun memchr :: "nat \<Rightarrow> u8 \<Rightarrow> nat \<Rightarrow> bytes \<Rightarrow> nat option" where
  "memchr s c 0 m = None"
| "memchr s c (Suc n) m = (if m s = c then Some s else memchr (s + 1) c n m)"

subsection \<open>Strings\<close>

partial_function (option) strlen_loop :: "nat \<Rightarrow> int \<Rightarrow> bytes \<Rightarrow> int option" where
  "strlen_loop s n m = (if m s \<noteq> 0 then strlen_loop (s + 1) (wrap32 (n + 1)) m else Some n)"

definition strlen :: "nat \<Rightarrow> bytes \<Rightarrow> int option" where "strlen s m = strlen_loop s 0 m"

partial_function (option) strcpy :: "nat \<Rightarrow> nat \<Rightarrow> bytes \<Rightarrow> bytes option" where
  "strcpy dst src m = (let c = m src; m' = m(dst := c) in if c \<noteq> 0 then strcpy (dst + 1) (src + 1) m' else Some m')"

fun strncpy :: "nat \<Rightarrow> nat \<Rightarrow> nat \<Rightarrow> bytes \<Rightarrow> bytes" where
  "strncpy dst src 0 m = m"
| "strncpy dst src (Suc n) m =
     (let m' = m(dst := m src) in strncpy (dst + 1) (if m' src \<noteq> 0 then src + 1 else src) n m')"

text \<open>The number of characters copied, and the memory.\<close>

fun strlcpy_loop :: "nat \<Rightarrow> nat \<Rightarrow> nat \<Rightarrow> nat \<Rightarrow> bytes \<Rightarrow> nat \<times> bytes" where
  "strlcpy_loop dst src 0 k m = (k, m(dst := 0))"
| "strlcpy_loop dst src (Suc n) k m =
     (if m src \<noteq> 0 then strlcpy_loop (dst + 1) (src + 1) n (k + 1) (m(dst := m src)) else (k, m(dst := 0)))"

definition strlcpy :: "nat \<Rightarrow> nat \<Rightarrow> nat \<Rightarrow> bytes \<Rightarrow> nat \<times> bytes" where
  "strlcpy dst src sz m = (if 0 < sz then strlcpy_loop dst src (sz - 1) 0 m else (0, m))"

partial_function (option) strcmp :: "nat \<Rightarrow> nat \<Rightarrow> bytes \<Rightarrow> int option" where
  "strcmp p q m = (if m p \<noteq> 0 \<and> m p = m q then strcmp (p + 1) (q + 1) m else Some (uint (m p) - uint (m q)))"

fun strncmp :: "nat \<Rightarrow> nat \<Rightarrow> nat \<Rightarrow> bytes \<Rightarrow> int" where
  "strncmp p q 0 m = 0"
| "strncmp p q (Suc n) m = (if m p \<noteq> 0 \<and> m p = m q then strncmp (p + 1) (q + 1) n m else uint (m p) - uint (m q))"

text \<open>\<open>Some None\<close>: the character is not in the string.\<close>

partial_function (option) strchr :: "nat \<Rightarrow> u8 \<Rightarrow> bytes \<Rightarrow> nat option option" where
  "strchr s c m = (if m s \<noteq> c then if m s = 0 then Some None else strchr (s + 1) c m else Some (Some s))"

subsection \<open>memmove is a simultaneous copy\<close>

lemma rep_movs_up_copy:
  assumes "d \<le> s \<or> s + u * k \<le> d"
  shows "rep_movs_up u k d s m = (\<lambda>a. if d \<le> a \<and> a < d + u * k then m (s + (a - d)) else m a)"
  using assms
proof (induction k arbitrary: d s m)
  case (Suc k)
  have "rep_movs_up u k (d + u) (s + u) (movs u d s m) =
      (\<lambda>a. if d + u \<le> a \<and> a < d + u + u * k then movs u d s m (s + u + (a - (d + u))) else movs u d s m a)"
    using Suc.prems by (intro Suc.IH) auto
  then show ?case using Suc.prems by (auto simp: movs_def fun_eq_iff)
qed (auto simp: fun_eq_iff)

lemma rep_movs_down_copy:
  assumes "s \<le> d"
  shows "rep_movs_down u k (int (d + u * k) - int u) (int (s + u * k) - int u) m =
    (\<lambda>a. if d \<le> a \<and> a < d + u * k then m (s + (a - d)) else m a)"
proof (induction k arbitrary: m)
  case (Suc k)
  let ?m = "movs u (d + u * k) (s + u * k) m"
  have e: "int (d + u * Suc k) - int u = int (d + u * k)" "int (s + u * Suc k) - int u = int (s + u * k)" by simp_all
  have "rep_movs_down u (Suc k) (int (d + u * Suc k) - int u) (int (s + u * Suc k) - int u) m =
      (\<lambda>a. if d \<le> a \<and> a < d + u * k then ?m (s + (a - d)) else ?m a)"
    unfolding e rep_movs_down.simps nat_int by (rule Suc.IH)
  then show ?case using assms by (auto simp: movs_def fun_eq_iff)
qed (auto simp: fun_eq_iff)

text \<open>\<open>memmove\<close>, for any overlap of the two regions, any alignment and any size, is the simultaneous copy: every byte of the
  destination gets the byte that was at the corresponding place of the source before the call, and nothing else changes.\<close>

theorem memmove_copies:
  "memmove dst src n m = (\<lambda>a. if dst \<le> a \<and> a < dst + n then m (src + (a - dst)) else m a)"
proof (cases "src < dst \<and> src + n > dst")
  case True
  show ?thesis
  proof (cases "(src + n) mod 4 = 0 \<and> (dst + n) mod 4 = 0 \<and> n mod 4 = 0")
    case al: True
    then have "4 * (n div 4) = n" by presburger
    then show ?thesis using True al rep_movs_down_copy [of src dst 4 "n div 4" m] by (simp add: memmove_def Let_def)
  next
    case False
    then show ?thesis using True rep_movs_down_copy [of src dst 1 n m] by (auto simp: memmove_def Let_def)
  qed
next
  case False
  then have f: "dst \<le> src \<or> src + n \<le> dst" by linarith
  show ?thesis
  proof (cases "src mod 4 = 0 \<and> dst mod 4 = 0 \<and> n mod 4 = 0")
    case al: True
    then have "4 * (n div 4) = n" by presburger
    then show ?thesis using False f al rep_movs_up_copy [of dst src 4 "n div 4" m]
      by (simp only: memmove_def if_False simp_thms) (simp add: al)
  next
    case nal: False
    then show ?thesis using False f rep_movs_up_copy [of dst src 1 n m] by (auto simp: memmove_def)
  qed
qed

subsection \<open>memset fills\<close>

lemma rep_stos_fill:
  assumes "\<And>i. i < u \<Longrightarrow> ucast (drop_bit (8 * i) c) = (b :: u8)"
  shows "rep_stos u k d c m = (\<lambda>a. if d \<le> a \<and> a < d + u * k then b else m a)"
  using assms by (induction k arbitrary: d m) (auto simp: fun_eq_iff)

lemma memset_fills: "memset v c n m = (\<lambda>a. if v \<le> a \<and> a < v + n then ucast c else m a)"
proof (cases "n = 0 \<or> \<not> (v mod 4 = 0 \<and> n mod 4 = 0)")
  case True
  then show ?thesis using rep_stos_fill [of 1 c "ucast c" n v m] by (auto simp: memset_def)
next
  case False
  define c1 where "c1 = c AND 0xFF"
  define c2 where "c2 = push_bit 24 c1 OR push_bit 16 c1 OR push_bit 8 c1 OR c1"
  have c1: "bit c1 j \<longleftrightarrow> j < 8 \<and> bit c j" for j
  proof -
    have "c1 = take_bit 8 c" by (simp add: c1_def take_bit_eq_mask mask_eq_exp_minus_1)
    then show ?thesis by (auto simp: bit_take_bit_iff)
  qed
  have "ucast (drop_bit (8 * i) c2) = (ucast c :: u8)" if "i < 4" for i
  proof (rule bit_word_eqI)
    fix j assume "j < LENGTH(8)"
    moreover have "i = 0 \<or> i = 1 \<or> i = 2 \<or> i = 3" using that by presburger
    ultimately show "bit (ucast (drop_bit (8 * i) c2) :: u8) j = bit (ucast c :: u8) j"
      by (auto simp: c2_def c1 bit_simps)
  qed
  note fill = rep_stos_fill [of 4, OF this]
  from fill [of "n div 4" v m] False have "4 * (n div 4) = n \<Longrightarrow> ?thesis"
    by (simp add: memset_def Let_def c1_def c2_def)
  moreover have "4 * (n div 4) = n" using False by presburger
  ultimately show ?thesis by blast
qed

subsection \<open>Null-terminated strings\<close>

fun cstr :: "bytes \<Rightarrow> nat \<Rightarrow> u8 list \<Rightarrow> bool" where
  "cstr m p [] \<longleftrightarrow> m p = 0"
| "cstr m p (c # cs) \<longleftrightarrow> m p = c \<and> c \<noteq> 0 \<and> cstr m (p + 1) cs"

lemma strlen_loop_cstr:
  "cstr m p s \<Longrightarrow> 0 \<le> n \<Longrightarrow> n + int (length s) < 2 ^ 31 \<Longrightarrow> strlen_loop p n m = Some (n + int (length s))"
proof (induction s arbitrary: p n)
  case (Cons c s)
  then show ?case by (subst strlen_loop.simps) simp
qed (subst strlen_loop.simps, simp)

lemma strlen_cstr: "cstr m p s \<Longrightarrow> int (length s) < 2 ^ 31 \<Longrightarrow> strlen p m = Some (int (length s))"
  using strlen_loop_cstr [of m p s 0] by (simp add: strlen_def)

lemma uint_pos: "(w :: u8) \<noteq> 0 \<Longrightarrow> 0 < uint w"
  using unsigned_eq_0_iff [of w] by (metis order_le_less unsigned_0 unsigned_greater_eq)

text \<open>\<open>strcmp\<close> of two strings always returns, and its sign is the order of the strings as lists of unsigned bytes: zero exactly
  when they are equal, negative exactly when the first comes first.\<close>

theorem strcmp_orders:
  assumes "cstr m p s" and "cstr m q t"
  shows "\<exists>r. strcmp p q m = Some r \<and> (r = 0 \<longleftrightarrow> s = t) \<and> (r < 0 \<longleftrightarrow> ord_class.lexordp s t)"
  using assms
proof (induction s arbitrary: p q t)
  case Nil
  then show ?case by (cases t; subst strcmp.simps) (auto dest: uint_pos)
next
  case (Cons c s)
  show ?case
  proof (cases t)
    case Nil
    then show ?thesis using Cons.prems by (subst strcmp.simps) (auto dest: uint_pos)
  next
    case (Cons d u)
    have e: "strcmp p q m = (if c = d then strcmp (p + 1) (q + 1) m else Some (uint c - uint d))"
      using Cons.prems Cons by (subst strcmp.simps) auto
    show ?thesis
    proof (cases "c = d")
      case True
      with Cons.IH [of "p + 1" "q + 1" u] Cons.prems Cons e show ?thesis by auto
    next
      case False
      then have "uint c \<noteq> uint d" by (simp add: unsigned_word_eqI [of c d] word_uint_eq_iff)
      with False e Cons show ?thesis by (auto simp: word_less_def)
    qed
  qed
qed

text \<open>Copying a string to a place that does not overlap it.\<close>

lemma strcpy_cstr:
  assumes "cstr m src s" and "dst + length s < src \<or> src + length s < dst"
  shows "\<exists>m'. strcpy dst src m = Some m' \<and> cstr m' dst s \<and> (\<forall>a. a < dst \<or> dst + length s < a \<longrightarrow> m' a = m a)"
  using assms
proof (induction s arbitrary: src dst m)
  case Nil
  then show ?case by (subst strcpy.simps) auto
next
  case (Cons c s)
  let ?m = "m(dst := c)"
  have fr: "cstr (m(a := b)) p s = cstr m p s" if "a < p \<or> p + length s < a" for a b p s m
    using that by (induction s arbitrary: p) auto
  have "cstr ?m (src + 1) s" using Cons.prems by (subst fr) auto
  moreover have "dst + 1 + length s < src + 1 \<or> src + 1 + length s < dst + 1" using Cons.prems(2) by auto
  ultimately obtain m' where m': "strcpy (dst + 1) (src + 1) ?m = Some m'"
    "cstr m' (dst + 1) s" "\<forall>a. a < dst + 1 \<or> dst + 1 + length s < a \<longrightarrow> m' a = ?m a" using Cons.IH by blast
  have c: "m src = c" "c \<noteq> 0" using Cons.prems(1) by simp_all
  have "strcpy dst src m = Some m'" using m'(1) c by (subst strcpy.simps) (simp add: Let_def)
  moreover have "cstr m' dst (c # s)" using m'(2,3) c(2) by simp
  ultimately show ?case using m'(3) by auto
qed

lemma strlcpy_loop_bounds:
  "strlcpy_loop dst src n k m = (r, m') \<Longrightarrow> r \<le> k + n \<and> k \<le> r \<and> m' (dst + (r - k)) = 0 \<and> (\<forall>a. a < dst \<or> dst + n < a \<longrightarrow> m' a = m a)"
proof (induction n arbitrary: dst src k m)
  case (Suc n)
  show ?case
  proof (cases "m src = 0")
    case False
    with Suc.prems have "strlcpy_loop (dst + 1) (src + 1) n (k + 1) (m(dst := m src)) = (r, m')" by simp
    from Suc.IH [OF this] have "r \<le> k + 1 + n" "k + 1 \<le> r" "m' (dst + 1 + (r - (k + 1))) = 0"
      "\<forall>a. a < dst + 1 \<or> dst + 1 + n < a \<longrightarrow> m' a = (m(dst := m src)) a" by auto
    moreover have "dst + 1 + (r - (k + 1)) = dst + (r - k)" using \<open>k + 1 \<le> r\<close> by simp
    ultimately show ?thesis by auto
  qed (use Suc.prems in auto)
qed auto

text \<open>\<open>strlcpy\<close> into a buffer of \<open>n\<close> bytes writes inside the buffer only, and what it leaves there is terminated right after the number of characters
  it returns, whatever the source is, even if the two overlap.\<close>

theorem strlcpy_bounds:
  assumes "0 < n" and "strlcpy dst src n m = (r, m')"
  shows "r < n \<and> m' (dst + r) = 0 \<and> (\<forall>a. a < dst \<or> dst + n \<le> a \<longrightarrow> m' a = m a)"
  using assms strlcpy_loop_bounds [of dst src "n - 1" 0 m r m'] by (auto simp: strlcpy_def)

lemma strlcpy_loop_one: "m src \<noteq> 0 \<Longrightarrow> strlcpy_loop dst src (Suc 0) k m = (k + 1, m(dst := m src, dst + 1 := 0))"
  by simp

definition demo_bytes :: bytes where "demo_bytes = (\<lambda>_. 0)(10 := 97, 11 := 98, 20 := 97, 21 := 99)"

theorem strcmp_orders_witness: "\<exists>r. strcmp 10 20 demo_bytes = Some r \<and> r < 0"
  using strcmp_orders [of demo_bytes 10 "[97, 98]" 20 "[97, 99]"] by (simp add: demo_bytes_def) blast

theorem strlcpy_bounds_witness:
  "strlcpy 30 10 2 demo_bytes = (1, demo_bytes(30 := 97, 31 := 0)) \<and> (demo_bytes(30 := 97, 31 := 0)) (30 + 1) = 0"
proof -
  have s: "strlcpy 30 10 2 demo_bytes = (1, demo_bytes(30 := 97, 31 := 0))"
    by (simp add: strlcpy_def demo_bytes_def strlcpy_loop_one)
  then show ?thesis using strlcpy_bounds [OF _ s] by simp
qed

end
