(* ===== verification/Rng.thy ===== *)
theory Rng
  imports Prelude
begin

text \<open>
  The pseudo-random number generators of the library: the 48-bit linear congruential generator of \<open>lib/lrand48.c\<close> and the
  multi-stream generator of \<open>lib/rngs.c\<close>, which computes its multiplications modulo \<open>2^31 - 1\<close> by Schrage's decomposition so that no intermediate
  result exceeds 31 bits. Its real-valued result, the seed divided by the modulus, is not modelled; the seeds are.
\<close>

subsection \<open>lrand48\<close>

record drand48_data =
  dr_x0 :: u16
  dr_x1 :: u16
  dr_x2 :: u16
  dr_c :: u16
  dr_init :: u16
  dr_a :: u64

definition drand48_iterate :: "drand48_data \<Rightarrow> drand48_data" where
  "drand48_iterate b =
     (let b1 = (if dr_init b = 0 then b\<lparr>dr_a := 0x5deece66d, dr_c := 0xb, dr_init := 1\<rparr> else b);
          X = push_bit 32 (ucast (dr_x2 b1)) OR ucast (push_bit 16 (ucast (dr_x1 b1) :: u32)) OR ucast (dr_x0 b1) :: u64;
          result = X * dr_a b1 + ucast (dr_c b1)
      in b1\<lparr>dr_x0 := ucast (result AND 0xffff), dr_x1 := ucast (drop_bit 16 result AND 0xffff),
            dr_x2 := ucast (drop_bit 32 result AND 0xffff)\<rparr>)"

definition nrand48_r :: "drand48_data \<Rightarrow> int \<times> drand48_data" where
  "nrand48_r b = (let b' = drand48_iterate b in (uint (dr_x2 b') * 2 ^ 15 OR uint (dr_x1 b') div 2, b'))"

definition lrand48 :: "drand48_data \<Rightarrow> int \<times> drand48_data" where "lrand48 = nrand48_r"

definition srand48_r :: "u64 \<Rightarrow> drand48_data \<Rightarrow> drand48_data" where
  "srand48_r seedval b =
     (let s = seedval AND 0xffffffff
      in b\<lparr>dr_x2 := ucast (drop_bit 16 s), dr_x1 := ucast (s AND 0xffff), dr_x0 := 0x330e,
           dr_a := 0x5deece66d, dr_c := 0xb, dr_init := 1\<rparr>)"

subsection \<open>rngs\<close>

definition MODULUS :: int where "MODULUS = 2147483647"
definition MULTIPLIER :: int where "MULTIPLIER = 48271"
definition STREAMS :: nat where "STREAMS = 256"
definition A256 :: int where "A256 = 22925"
definition DEFAULT :: int where "DEFAULT = 123456789"

record rngs =
  seed :: "nat \<Rightarrow> int"
  stream :: nat
  initialized :: bool

text \<open>C's division and remainder of non-negative numbers.\<close>

definition schrage :: "int \<Rightarrow> int \<Rightarrow> int" where
  "schrage a x =
     (let q = MODULUS div a; r = MODULUS mod a; t = a * (x mod q) - r * (x div q)
      in if t > 0 then t else t + MODULUS)"

definition Random :: "rngs \<Rightarrow> rngs" where
  "Random g = g\<lparr>seed := (seed g)(stream g := schrage MULTIPLIER (seed g (stream g)))\<rparr>"

text \<open>\<open>time\<close> is what \<open>bench_time\<close> returns.\<close>

definition PutSeed :: "int \<Rightarrow> int \<Rightarrow> rngs \<Rightarrow> rngs" where
  "PutSeed time x g =
     (let x1 = (if x > 0 then x mod MODULUS else x);
          x2 = (if x1 \<le> 0 then time mod MODULUS else x1)
      in g\<lparr>seed := (seed g)(stream g := x2)\<rparr>)"

definition GetSeed :: "rngs \<Rightarrow> int" where "GetSeed g = seed g (stream g)"

text \<open>\<open>PlantSeeds\<close> selects stream 0 first; with \<open>initialized\<close> already set that only changes the current stream.\<close>

definition plant :: "nat \<Rightarrow> rngs \<Rightarrow> rngs" where
  "plant j g = g\<lparr>seed := (seed g)(j := schrage A256 (seed g (j - 1)))\<rparr>"

definition PlantSeeds :: "int \<Rightarrow> int \<Rightarrow> rngs \<Rightarrow> rngs" where
  "PlantSeeds time x g =
     (let g1 = (PutSeed time x (g\<lparr>initialized := True, stream := 0\<rparr>))\<lparr>stream := stream g\<rparr>
      in fold plant [1..<STREAMS] g1)"

definition SelectStream :: "int \<Rightarrow> int \<Rightarrow> rngs \<Rightarrow> rngs" where
  "SelectStream time index g =
     (let g1 = g\<lparr>stream := nat (index mod 2 ^ 32) mod STREAMS\<rparr>
      in if \<not> initialized g1 \<and> stream g1 \<noteq> 0 then PlantSeeds time DEFAULT g1 else g1)"

subsection \<open>Schrage's decomposition\<close>

lemma schrage_mult:
  assumes a: "0 < a" "MODULUS mod a < MODULUS div a" "coprime MODULUS a" and x: "0 < x" "x < MODULUS"
  shows "schrage a x = a * x mod MODULUS \<and> 0 < schrage a x \<and> schrage a x < MODULUS"
proof -
  define q r where "q = MODULUS div a" and "r = MODULUS mod a"
  define h l where "h = x div q" and "l = x mod q"
  define t where "t = a * l - r * h"
  have m: "MODULUS = a * q + r" by (simp add: q_def r_def)
  have qr: "0 \<le> r" "r < q" using a by (simp_all add: q_def r_def)
  then have l: "0 \<le> l" "l < q" by (simp_all add: l_def)
  have xe: "x = q * h + l" by (simp add: h_def l_def)
  have h0: "0 \<le> h" using x(1) qr by (simp add: h_def pos_imp_zdiv_nonneg_iff)
  have ha: "h \<le> a"
  proof (rule ccontr)
    assume "\<not> h \<le> a"
    then have "q * (a + 1) \<le> q * h" using qr by (intro mult_left_mono) auto
    then show False using x(2) xe l(1) m qr by (simp add: algebra_simps)
  qed
  have t: "t = a * x - MODULUS * h" unfolding t_def m xe by (simp add: algebra_simps)
  have "a * l \<le> a * (q - 1)" using l a(1) by (intro mult_left_mono) auto
  moreover have "0 \<le> r * h" "a * (q - 1) = a * q - a" using qr h0 by (simp_all add: algebra_simps)
  ultimately have up: "t < MODULUS" unfolding t_def m using a(1) qr(1) by linarith
  have "r * h \<le> r * a" "r * a \<le> (q - 1) * a" using qr h0 ha a(1) by (auto intro: mult_left_mono mult_right_mono)
  moreover have "0 \<le> a * l" "(q - 1) * a = a * q - a" using a(1) l by (simp_all add: algebra_simps)
  ultimately have lo: "- MODULUS < t" unfolding t_def m using a(1) qr(1) by linarith
  have "t \<noteq> 0"
  proof
    assume "t = 0"
    then have "MODULUS dvd a * x" using t by simp
    then have "MODULUS dvd x" using a(3) by (simp add: coprime_dvd_mult_right_iff)
    then show False using x zdvd_not_zless by blast
  qed
  have s: "schrage a x = (if t > 0 then t else t + MODULUS)"
    by (simp add: schrage_def t_def h_def l_def q_def r_def Let_def)
  have "a * x mod MODULUS = (t + MODULUS * h) mod MODULUS" using t by simp
  then have am: "a * x mod MODULUS = t mod MODULUS" by simp
  show ?thesis
  proof (cases "t > 0")
    case True
    then show ?thesis using s am up by simp
  next
    case False
    have "t mod MODULUS = (t + MODULUS) mod MODULUS" by simp
    also have "\<dots> = t + MODULUS" using False \<open>t \<noteq> 0\<close> lo by (intro mod_pos_pos_trivial) auto
    finally show ?thesis using s am False \<open>t \<noteq> 0\<close> lo by simp
  qed
qed

lemma multipliers:
  "0 < MULTIPLIER" "MODULUS mod MULTIPLIER < MODULUS div MULTIPLIER" "coprime MODULUS MULTIPLIER"
  "0 < A256" "MODULUS mod A256 < MODULUS div A256" "coprime MODULUS A256"
  by (simp_all add: MULTIPLIER_def MODULUS_def A256_def coprime_iff_gcd_eq_1 gcd_non_0_int)

text \<open>\<open>Random\<close> multiplies the current stream's seed by 48271 modulo \<open>2^31 - 1\<close>, exactly, although it never computes the
  product: from a seed between 1 and \<open>2^31 - 2\<close> the new seed is the product's remainder, again in this range, and the other
  streams are not touched.\<close>

theorem Random_multiplies:
  assumes "0 < seed g (stream g)" and "seed g (stream g) < MODULUS"
  shows "seed (Random g) (stream g) = MULTIPLIER * seed g (stream g) mod MODULUS \<and>
    0 < seed (Random g) (stream g) \<and> seed (Random g) (stream g) < MODULUS \<and>
    (\<forall>j. j \<noteq> stream g \<longrightarrow> seed (Random g) j = seed g j)"
  using schrage_mult [OF multipliers(1,2,3) assms] by (simp add: Random_def)

lemma plant_all:
  assumes "0 < seed g 0" and "seed g 0 < MODULUS"
  shows "\<forall>j \<le> n. seed (fold plant [1..<Suc n] g) j = A256 ^ j * seed g 0 mod MODULUS \<and>
    0 < seed (fold plant [1..<Suc n] g) j \<and> seed (fold plant [1..<Suc n] g) j < MODULUS"
proof (induction n)
  case (Suc n)
  define g1 where "g1 = fold plant [1..<Suc n] g"
  have all: "seed g1 j = A256 ^ j * seed g 0 mod MODULUS" "0 < seed g1 j" "seed g1 j < MODULUS" if "j \<le> n" for j
    using Suc.IH that unfolding g1_def by blast+
  have e: "fold plant [1..<Suc (Suc n)] g = plant (Suc n) g1" by (simp add: g1_def)
  note s = schrage_mult [OF multipliers(4,5,6) all(2,3) [OF order_refl]]
  have "schrage A256 (seed g1 n) = A256 * (A256 ^ n * seed g 0 mod MODULUS) mod MODULUS" using s all(1) [OF order_refl] by simp
  also have "\<dots> = A256 ^ Suc n * seed g 0 mod MODULUS" by (simp add: mod_mult_right_eq mult.assoc)
  finally show ?case unfolding e using s all by (auto simp: plant_def le_Suc_eq)
qed (use assms in simp)

text \<open>The streams planted from one seed are powers of the jump multiplier apart.\<close>

lemma PlantSeeds_powers:
  assumes "0 < x" and "x < MODULUS" and "j < STREAMS"
  shows "seed (PlantSeeds time x g) j = A256 ^ j * x mod MODULUS"
proof -
  let ?g = "(PutSeed time x (g\<lparr>initialized := True, stream := 0\<rparr>))\<lparr>stream := stream g\<rparr>"
  have s: "seed ?g 0 = x" using assms(1,2) by (simp add: PutSeed_def Let_def)
  have S: "Suc (STREAMS - 1) = STREAMS" by (simp add: STREAMS_def)
  have p: "0 < seed ?g 0" "seed ?g 0 < MODULUS" "j \<le> STREAMS - 1" using s assms by auto
  note plant_all [OF p(1,2), of "STREAMS - 1", rule_format, OF p(3), THEN conjunct1, unfolded S s]
  then show ?thesis unfolding PlantSeeds_def Let_def .
qed

subsection \<open>The 48-bit generator\<close>

text \<open>The state as a number.\<close>

definition x48 :: "drand48_data \<Rightarrow> nat" where
  "x48 b = unat (dr_x2 b) * 2 ^ 32 + unat (dr_x1 b) * 2 ^ 16 + unat (dr_x0 b)"

lemma word_join:
  fixes a b c :: u16
  shows "unat (push_bit 32 (ucast a) OR ucast (push_bit 16 (ucast b :: u32)) OR ucast c :: u64) =
    unat a * 2 ^ 32 + unat b * 2 ^ 16 + unat c"
proof -
  have b: "ucast (push_bit 16 (ucast b :: u32)) = (push_bit 16 (ucast b) :: u64)"
    by (rule bit_word_eqI) (auto simp: bit_simps dest: bit_imp_le_length)
  have d1: "push_bit 16 (ucast b) OR ucast c = (push_bit 16 (ucast b) + ucast c :: u64)"
    by (intro disjunctive_add [symmetric]) (auto simp: bit_simps dest: bit_imp_le_length)
  have d2: "push_bit 32 (ucast a) OR (push_bit 16 (ucast b) OR ucast c) = (push_bit 32 (ucast a) + (push_bit 16 (ucast b) OR ucast c) :: u64)"
    by (intro disjunctive_add [symmetric]) (auto simp: bit_simps dest: bit_imp_le_length)
  have lt: "unat a < 2 ^ 16" "unat b < 2 ^ 16" "unat c < 2 ^ 16" using unsigned_less [of a] unsigned_less [of b] unsigned_less [of c] by simp_all
  have "(push_bit 32 (ucast a) OR push_bit 16 (ucast b) OR ucast c :: u64) = of_nat (unat a * 2 ^ 32 + unat b * 2 ^ 16 + unat c)"
    unfolding d2 unfolding d1 by (simp add: push_bit_eq_mult)
  then have "unat (push_bit 32 (ucast a) OR push_bit 16 (ucast b) OR ucast c :: u64) =
      unat (of_nat (unat a * 2 ^ 32 + unat b * 2 ^ 16 + unat c) :: u64)" by simp
  also have "\<dots> = unat a * 2 ^ 32 + unat b * 2 ^ 16 + unat c"
    using lt by (simp only: unat_of_nat) simp
  finally show ?thesis unfolding b .
qed

lemma word_split:
  fixes r :: u64
  shows "unat (ucast (drop_bit 32 r AND 0xffff) :: u16) * 2 ^ 32 + unat (ucast (drop_bit 16 r AND 0xffff) :: u16) * 2 ^ 16 +
    unat (ucast (r AND 0xffff) :: u16) = unat r mod 2 ^ 48"
proof -
  have m: "(w AND 0xffff) = take_bit 16 w" for w :: u64 by (simp add: take_bit_eq_mask mask_eq_exp_minus_1)
  have u: "unat (ucast (take_bit 16 w) :: u16) = unat w mod 2 ^ 16" for w :: u64
    unfolding unsigned_ucast_eq unsigned_take_bit_eq by (simp add: take_bit_eq_mod)
  have d: "unat (drop_bit k r) = unat r div 2 ^ k" for k unfolding unat_drop_bit_eq by (simp add: drop_bit_eq_div)
  show ?thesis unfolding m u d
    using mod_mult2_eq [of "unat r" "2 ^ 16" "2 ^ 32"] mod_mult2_eq [of "unat r div 2 ^ 16" "2 ^ 16" "2 ^ 16"]
      div_mult2_eq [of "unat r" "2 ^ 16" "2 ^ 16"] by simp
qed

text \<open>\<open>drand48_iterate\<close> on an initialised buffer is the 48-bit linear congruential generator: the state, read as a number, becomes
  \<open>0x5DEECE66D x + 0xB\<close> modulo \<open>2^48\<close>, although the code computes modulo \<open>2^64\<close> and reassembles the state from three 16-bit words.\<close>

theorem drand48_is_lcg:
  "x48 (drand48_iterate (srand48_r s b)) = (0x5DEECE66D * x48 (srand48_r s b) + 0xB) mod 2 ^ 48 \<and>
   x48 (drand48_iterate (drand48_iterate (srand48_r s b))) = (0x5DEECE66D * x48 (drand48_iterate (srand48_r s b)) + 0xB) mod 2 ^ 48"
proof -
  have step: "x48 (drand48_iterate b) = (0x5DEECE66D * x48 b + 0xB) mod 2 ^ 48" if "dr_init b \<noteq> 0" "dr_a b = 0x5deece66d" "dr_c b = 0xb" for b
  proof -
    let ?X = "push_bit 32 (ucast (dr_x2 b)) OR ucast (push_bit 16 (ucast (dr_x1 b) :: u32)) OR ucast (dr_x0 b) :: u64"
    have "unat (?X * 0x5deece66d + 0xb) mod 2 ^ 48 = (unat ?X * 0x5deece66d + 0xb) mod 2 ^ 48"
      by (simp add: unat_word_ariths mod_mod_cancel mod_simps)
    then show ?thesis using that word_join [of "dr_x2 b" "dr_x1 b" "dr_x0 b"] word_split [of "?X * 0x5deece66d + 0xb"]
      by (simp add: x48_def drand48_iterate_def Let_def mult.commute)
  qed
  have i: "dr_init (drand48_iterate b) \<noteq> 0" "dr_a (drand48_iterate b) = 0x5deece66d" "dr_c (drand48_iterate b) = 0xb"
    if "dr_init b \<noteq> 0" "dr_a b = 0x5deece66d" "dr_c b = 0xb" for b using that by (simp_all add: drand48_iterate_def Let_def)
  have s: "dr_init (srand48_r s b) \<noteq> 0" "dr_a (srand48_r s b) = 0x5deece66d" "dr_c (srand48_r s b) = 0xb"
    by (simp_all add: srand48_r_def Let_def)
  from step [OF s] step [OF i [OF s]] show ?thesis by blast
qed

theorem Random_multiplies_witness:
  "seed (Random \<lparr>seed = (\<lambda>_. 1), stream = 0, initialized = True\<rparr>) 0 = 48271"
  using Random_multiplies [of "\<lparr>seed = (\<lambda>_. 1), stream = 0, initialized = True\<rparr>"] by (simp add: MODULUS_def MULTIPLIER_def)

end
