(* ===== verification/Unistd.thy ===== *)
theory Unistd
  imports FileProps
begin

text \<open>
  The Unix and standard I/O interfaces to the user-space file system: \<open>lib/unistd.c\<close> and \<open>lib/stdio.c\<close>. A \<open>FILE *\<close> is the
  number of a file descriptor. \<open>None\<close> is a failed assertion, as in the file system itself; calls that may wait for input take the
  list of what the parent does to our files each time it wakes us.
\<close>

definition O_RDWR :: u32 where "O_RDWR = 0x0003"
definition EOF :: int where "EOF = - 1"

subsection \<open>lib/unistd.c\<close>

text \<open>\<open>open\<close>, with the mode that applies only when a file is created.\<close>

definition open_fn :: "string \<Rightarrow> u32 \<Rightarrow> u32 \<Rightarrow> filestate \<Rightarrow> (int \<times> filestate) option" where
  "open_fn path oflags mode fs = do {
     (r, fs1) \<leftarrow> filedesc_open None path oflags (if flagged oflags O_CREAT then mode else 0) fs;
     Some (case r of None \<Rightarrow> - 1 | Some d \<Rightarrow> int d, fs1)
   }"

definition creat :: "string \<Rightarrow> u32 \<Rightarrow> filestate \<Rightarrow> (int \<times> filestate) option" where
  "creat path mode fs = open_fn path (O_CREAT OR O_TRUNC OR O_WRONLY) mode fs"

definition close_fn :: "nat \<Rightarrow> filestate \<Rightarrow> (int \<times> filestate) option" where
  "close_fn fn fs = do { fs1 \<leftarrow> filedesc_close fn fs; Some (0, fs1) }"

definition read_fn :: "(filestate \<Rightarrow> filestate) list \<Rightarrow> nat \<Rightarrow> nat \<Rightarrow> filestate \<Rightarrow> (filestate + u8 list \<times> nat \<times> filestate) option" where
  "read_fn wakes fn nbytes fs = filedesc_read wakes fn 1 nbytes fs"

definition write_fn :: "nat \<Rightarrow> u8 list \<Rightarrow> nat \<Rightarrow> filestate \<Rightarrow> (int \<times> filestate) option" where
  "write_fn fn buf nbytes fs = filedesc_write fn buf 1 nbytes fs"

definition lseek :: "nat \<Rightarrow> int \<Rightarrow> int \<Rightarrow> filestate \<Rightarrow> (int \<times> filestate) option" where
  "lseek fn offset whence fs = filedesc_seek fn offset whence fs"

definition dup2 :: "nat \<Rightarrow> nat \<Rightarrow> filestate \<Rightarrow> (int \<times> filestate) option" where
  "dup2 oldfn newfn fs = do {
     cassert (filedesc_isopen oldfn fs);
     cassert (newfn < OPEN_MAX);
     (_, fs1) \<leftarrow> (if filedesc_isopen newfn fs then close_fn newfn fs else Some (0, fs));
     Some (int newfn, upd_fd newfn (\<lambda>_. fs_fd fs1 oldfn) fs1)
   }"

definition dup :: "nat \<Rightarrow> filestate \<Rightarrow> (int \<times> filestate) option" where
  "dup oldfn fs = (case filedesc_alloc fs of
       (None, fs1) \<Rightarrow> Some (- 1, fs1)
     | (Some newfn, fs1) \<Rightarrow> dup2 oldfn newfn fs1)"

definition truncate_path :: "string \<Rightarrow> int \<Rightarrow> filestate \<Rightarrow> (int \<times> filestate) option" where
  "truncate_path path newlength fs = do {
     (ino, fs1) \<leftarrow> dir_walk path 0 fs;
     (if ino < 0 then Some (- 1, fs1) else fileino_truncate ino newlength fs1)
   }"

definition ftruncate :: "nat \<Rightarrow> int \<Rightarrow> filestate \<Rightarrow> (int \<times> filestate) option" where
  "ftruncate fn newlength fs = do {
     cassert (filedesc_isopen fn fs);
     fileino_truncate (fd_ino (fs_fd fs fn)) newlength fs
   }"

definition isatty :: "nat \<Rightarrow> filestate \<Rightarrow> bool option" where
  "isatty fn fs = do {
     cassert (filedesc_isopen fn fs);
     Some (fd_ino (fs_fd fs fn) = int FILEINO_CONSIN \<or> fd_ino (fs_fd fs fn) = int FILEINO_CONSOUT)
   }"

definition stat_path :: "string \<Rightarrow> filestate \<Rightarrow> (stat option \<times> filestate) option" where
  "stat_path path fs = do {
     (ino, fs1) \<leftarrow> dir_walk path 0 fs;
     (if ino < 0 then Some (None, fs1) else do { st \<leftarrow> fileino_stat ino fs1; Some (Some st, fs1) })
   }"

definition fstat :: "nat \<Rightarrow> filestate \<Rightarrow> stat option" where
  "fstat fn fs = do { cassert (filedesc_isopen fn fs); fileino_stat (fd_ino (fs_fd fs fn)) fs }"

definition fsync :: "nat \<Rightarrow> filestate \<Rightarrow> bool option" where
  "fsync fn fs = do { cassert (filedesc_isopen fn fs); fileino_flush (fd_ino (fs_fd fs fn)) fs }"

subsection \<open>lib/stdio.c\<close>

definition fclose :: "nat \<Rightarrow> filestate \<Rightarrow> (int \<times> filestate) option" where
  "fclose d fs = do { fs1 \<leftarrow> filedesc_close d fs; Some (0, fs1) }"

definition mode_flags :: "string \<Rightarrow> u32 option" where
  "mode_flags mode = (case mode of
       [] \<Rightarrow> None
     | c # rest \<Rightarrow> do {
         flags \<leftarrow> (if c = CHR ''r'' then Some O_RDONLY
           else if c = CHR ''w'' then Some (O_WRONLY OR O_CREAT OR O_TRUNC)
           else if c = CHR ''a'' then Some (O_WRONLY OR O_CREAT OR O_APPEND) else None);
         let rest1 = (if take 1 rest = ''b'' then drop 1 rest else rest);
         Some (if take 1 rest1 = ''+'' then flags OR O_RDWR else flags)
       })"

definition freopen :: "string \<Rightarrow> string \<Rightarrow> nat \<Rightarrow> filestate \<Rightarrow> (nat option \<times> filestate) option" where
  "freopen path mode d fs = do {
     cassert (d < OPEN_MAX);
     (_, fs1) \<leftarrow> (if filedesc_isopen d fs then fclose d fs else Some (0, fs));
     flags \<leftarrow> mode_flags mode;
     (r, fs2) \<leftarrow> filedesc_open (Some d) path flags 0x1b6 fs1;
     Some (if r = Some d then Some d else None, fs2)
   }"

definition fopen :: "string \<Rightarrow> string \<Rightarrow> filestate \<Rightarrow> (nat option \<times> filestate) option" where
  "fopen path mode fs = (case filedesc_alloc fs of
       (None, fs1) \<Rightarrow> Some (None, fs1)
     | (Some d, fs1) \<Rightarrow> freopen path mode d fs1)"

text \<open>\<open>Inl\<close>: still asleep.\<close>

definition fgetc :: "(filestate \<Rightarrow> filestate) list \<Rightarrow> nat \<Rightarrow> filestate \<Rightarrow> (filestate + int \<times> filestate) option" where
  "fgetc wakes d fs = do {
     r \<leftarrow> filedesc_read wakes d 1 1 fs;
     Some (case r of Inl fs1 \<Rightarrow> Inl fs1 | Inr (bs, actual, fs1) \<Rightarrow> Inr (if actual < 1 then EOF else uint (hd bs), fs1))
   }"

definition fputc :: "int \<Rightarrow> nat \<Rightarrow> filestate \<Rightarrow> (int \<times> filestate) option" where
  "fputc c d fs = do {
     (r, fs1) \<leftarrow> filedesc_write d [of_int c] 1 1 fs;
     Some (if r < 1 then EOF else uint (of_int c :: u8), fs1)
   }"

definition ungetc :: "int \<Rightarrow> nat \<Rightarrow> filestate \<Rightarrow> (int \<times> filestate) option" where
  "ungetc c d fs = do {
     cassert (filedesc_isreadable d fs);
     let ino = fd_ino (fs_fd fs d);
     let ofs = fd_ofs (fs_fd fs d);
     (if c = EOF \<or> ofs \<le> 0 \<or> int (fi_size (inode ino fs)) < ofs then Some (EOF, set_errno EINVAL fs)
      else do {
        bs \<leftarrow> user_read (FILEDATA ino + nat (ofs - 1)) 1 fs;
        cassert (uint (hd bs) = c);
        Some (c, upd_fd d (\<lambda>x. x\<lparr>fd_ofs := ofs - 1\<rparr>) fs)
      })
   }"

definition fread :: "(filestate \<Rightarrow> filestate) list \<Rightarrow> nat \<Rightarrow> nat \<Rightarrow> nat \<Rightarrow> filestate \<Rightarrow> (filestate + u8 list \<times> nat \<times> filestate) option" where
  "fread wakes eltsize count d fs = filedesc_read wakes d eltsize count fs"

text \<open>Whether \<open>fflush\<close> sleeps until the parent has taken the data.\<close>

definition fflush :: "nat \<Rightarrow> filestate \<Rightarrow> bool option" where
  "fflush d fs = do { cassert (filedesc_isopen d fs); fileino_flush (fd_ino (fs_fd fs d)) fs }"

definition fflush_all :: "filestate \<Rightarrow> bool list option" where
  "fflush_all fs = those (map (\<lambda>d. fflush d fs) (filter (\<lambda>d. filedesc_isopen d fs) [0..<OPEN_MAX]))"

text \<open>The elements written, the new state, and whether the console was flushed.\<close>

definition fwrite :: "u8 list \<Rightarrow> nat \<Rightarrow> nat \<Rightarrow> nat \<Rightarrow> filestate \<Rightarrow> (int \<times> filestate \<times> bool) option" where
  "fwrite buf eltsize count d fs = do {
     (actual, fs1) \<leftarrow> filedesc_write d buf eltsize count fs;
     tty \<leftarrow> isatty d fs1;
     flushed \<leftarrow> (if tty \<and> 10 \<in> set (take (eltsize * count) buf) then fflush d fs1 else Some False);
     Some (if actual \<ge> 0 then actual else 0, fs1, flushed)
   }"

definition fseek :: "nat \<Rightarrow> int \<Rightarrow> int \<Rightarrow> filestate \<Rightarrow> (int \<times> filestate) option" where
  "fseek d offset whence fs = do {
     (r, fs1) \<leftarrow> filedesc_seek d offset whence fs;
     Some (if r < 0 then - 1 else 0, fs1)
   }"

definition ftell :: "nat \<Rightarrow> filestate \<Rightarrow> int option" where
  "ftell d fs = do { cassert (filedesc_isopen d fs); Some (fd_ofs (fs_fd fs d)) }"

definition feof :: "nat \<Rightarrow> filestate \<Rightarrow> bool option" where
  "feof d fs = do {
     cassert (filedesc_isopen d fs);
     let fi = inode (fd_ino (fs_fd fs d)) fs;
     Some (int (fi_size fi) \<le> fd_ofs (fs_fd fs d) \<and> \<not> flagged (fi_mode fi) S_IFPART)
   }"

definition ferror :: "nat \<Rightarrow> filestate \<Rightarrow> int option" where
  "ferror d fs = do { cassert (filedesc_isopen d fs); Some (fd_err (fs_fd fs d)) }"

definition clearerr :: "nat \<Rightarrow> filestate \<Rightarrow> filestate option" where
  "clearerr d fs = do { cassert (filedesc_isopen d fs); Some (upd_fd d (\<lambda>x. x\<lparr>fd_err := 0\<rparr>) fs) }"

end
