(* ===== verification/UniProps.thy ===== *)
theory UniProps
  imports Unistd FileThms
begin

text \<open>
  The properties of the Unix and standard I/O interfaces (theory Unistd): a character read can be pushed back, what is written through
  a descriptor is read back after seeking, and duplicating a descriptor onto itself closes it.
\<close>

subsection \<open>Reading and writing through a descriptor\<close>

definition readable_at :: "nat \<Rightarrow> int \<Rightarrow> int \<Rightarrow> filestate \<Rightarrow> bool" where
  "readable_at d ino ofs fs \<longleftrightarrow> filedesc_isreadable d fs \<and> fd_ino (fs_fd fs d) = ino \<and> fd_ofs (fs_fd fs d) = ofs \<and>
     file_ok ino fs \<and> 0 \<le> ofs"

lemma filedesc_upd_fd [simp]:
  "filedesc_isopen d (upd_fd d f fs) \<longleftrightarrow> d < OPEN_MAX \<and> fd_ino (f (fs_fd fs d)) \<noteq> FILEINO_NULL"
  "filedesc_isreadable d (upd_fd d f fs) \<longleftrightarrow>
    d < OPEN_MAX \<and> fd_ino (f (fs_fd fs d)) \<noteq> FILEINO_NULL \<and> flagged (fd_flags (f (fs_fd fs d))) O_RDONLY"
  by (auto simp: filedesc_isopen_def filedesc_isreadable_def)

lemma upd_fd_restore:
  "upd_fd d (\<lambda>x. x\<lparr>fd_ofs := fd_ofs (fs_fd fs d)\<rparr>) (upd_fd d (\<lambda>x. x\<lparr>fd_ofs := k\<rparr>) fs) = fs"
  by (rule filestate.equality) (auto simp: upd_fd_def)

text \<open>Enough data is there: a read of \<open>n\<close> bytes returns them at once, from a partial file too.\<close>

lemma read_available:
  assumes r: "readable_at d ino ofs fs" and n: "nat ofs + n \<le> fi_size (inode ino fs)"
  shows "filedesc_read wakes d 1 n fs =
    Some (Inr (take n (drop (nat ofs) (file_content ino fs)), n, upd_fd d (\<lambda>x. x\<lparr>fd_ofs := ofs + int n\<rparr>) fs))"
proof -
  have ok: "file_ok ino fs" and o: "0 \<le> ofs" using r by (auto simp: readable_at_def)
  have sz: "fi_size (inode ino fs) \<le> FILE_MAXSIZE" using ok by (simp add: file_ok_def)
  have "fileino_read wakes ino ofs 1 n fs = Some (Inr (take n (drop (nat ofs) (file_content ino fs)), n, fs))"
  proof (cases n)
    case 0
    then show ?thesis using ok o by (simp add: fileino_read_def file_ok_def read_loop.simps [of wakes])
  next
    case (Suc m)
    have "n = min n ((fi_size (inode ino fs) - nat ofs) div 1)" using n by simp
    from read_loop_step [OF ok _ this, of wakes "[]" 0] Suc ok o show ?thesis
      by (simp add: fileino_read_def file_ok_def)
  qed
  moreover have "wrap32 (ofs + int n) = ofs + int n" "ofs + int n \<le> int (fi_size (inode ino fs))"
    using n o sz by (auto simp: FILE_MAXSIZE_def)
  moreover have "upd_fd d (\<lambda>x. x\<lparr>fd_ofs := wrap32 (fd_ofs x + int n)\<rparr>) fs = upd_fd d (\<lambda>x. x\<lparr>fd_ofs := ofs + int n\<rparr>) fs"
    using r \<open>wrap32 (ofs + int n) = ofs + int n\<close> by (auto simp: upd_fd_def readable_at_def)
  ultimately show ?thesis using r by (simp add: filedesc_read_def readable_at_def)
qed

text \<open>Where a file has another character, \<open>fgetc\<close> returns it without waiting, and pushing it back with
  \<open>ungetc\<close> succeeds and restores the whole file state exactly.\<close>

theorem fgetc_ungetc:
  assumes "readable_at d ino ofs fs" and "nat ofs < fi_size (inode ino fs)"
  shows "\<exists>fs'. fgetc wakes d fs = Some (Inr (uint (file_content ino fs ! nat ofs), fs')) \<and>
    ungetc (uint (file_content ino fs ! nat ofs)) d fs' = Some (uint (file_content ino fs ! nat ofs), fs)"
proof -
  let ?c = "file_content ino fs ! nat ofs" and ?fs' = "upd_fd d (\<lambda>x. x\<lparr>fd_ofs := ofs + 1\<rparr>) fs"
  have r: "filedesc_isreadable d fs" "fd_ino (fs_fd fs d) = ino" "fd_ofs (fs_fd fs d) = ofs" "file_ok ino fs" "0 \<le> ofs"
    using assms(1) by (auto simp: readable_at_def)
  have one: "take 1 (drop (nat ofs) (file_content ino fs)) = [?c]"
    using assms(2) by (simp add: take_Suc_conv_app_nth hd_drop_conv_nth take_Suc)
  have g: "fgetc wakes d fs = Some (Inr (uint ?c, ?fs'))"
    using read_available [OF assms(1), of 1 wakes] assms(2) one by (simp add: fgetc_def)
  have "user_read (FILEDATA ino + nat ofs) 1 ?fs' = Some [?c]"
    using user_read_file [of ino ?fs' 1 "nat ofs"] assms(2) r one by simp
  moreover have "uint ?c \<noteq> EOF" using uint_nonnegative [of ?c] unfolding EOF_def by linarith
  moreover have "upd_fd d (\<lambda>x. x\<lparr>fd_ofs := ofs\<rparr>) ?fs' = fs" using upd_fd_restore [of d fs] r(3) by simp
  ultimately have "ungetc (uint ?c) d ?fs' = Some (uint ?c, fs)"
    using r assms(2) by (auto simp: ungetc_def Let_def filedesc_isreadable_def filedesc_isopen_def)
  with g show ?thesis by blast
qed

definition demo_rw :: filestate where
  "demo_rw = upd_fd 0 (\<lambda>x. x\<lparr>fd_flags := O_RDWR, fd_ofs := 2\<rparr>) demo_files"

lemma demo_rw_at: "readable_at 0 4 2 demo_rw"
  using demo_ok by (simp add: demo_rw_def readable_at_def)
    (simp add: demo_files_def flagged_def O_RDWR_def O_RDONLY_def FILEINO_NULL_def OPEN_MAX_def)

lemma demo_rw_file: "inode 4 demo_rw = inode 4 demo_files" "file_content 4 demo_rw = [65, 66, 67, 68, 69]"
  by (simp_all add: demo_rw_def demo_content)

theorem fgetc_ungetc_witness:
  "\<exists>fs'. fgetc [] 0 demo_rw = Some (Inr (67, fs')) \<and> ungetc 67 0 fs' = Some (67, demo_rw)"
  using fgetc_ungetc [OF demo_rw_at, of "[]"] by (simp add: demo_rw_file demo_inode)

text \<open>The descriptor is open for reading and writing, but not for appending.\<close>

definition rdwr_at :: "nat \<Rightarrow> int \<Rightarrow> int \<Rightarrow> filestate \<Rightarrow> bool" where
  "rdwr_at d ino ofs fs \<longleftrightarrow> readable_at d ino ofs fs \<and> filedesc_iswritable d fs \<and>
     \<not> flagged (fd_flags (fs_fd fs d)) O_APPEND"

lemma write_fn_at:
  assumes r: "rdwr_at d ino ofs fs" and o: "nat ofs \<le> fi_size (inode ino fs)" and m: "nat ofs + length buf \<le> FILE_MAXSIZE"
  shows "\<exists>fs'. write_fn d buf (length buf) fs = Some (int (length buf), fs') \<and> rdwr_at d ino (ofs + int (length buf)) fs' \<and>
    file_content ino fs' = splice (nat ofs) buf (file_content ino fs) \<and>
    fi_ver (inode ino fs') = wrap32 (fi_ver (inode ino fs) + 1)"
proof -
  have c: "filedesc_isreadable d fs" "filedesc_iswritable d fs" "fd_ino (fs_fd fs d) = ino" "fd_ofs (fs_fd fs d) = ofs"
    "file_ok ino fs" "0 \<le> ofs" "\<not> flagged (fd_flags (fs_fd fs d)) O_APPEND"
    using r by (auto simp: readable_at_def rdwr_at_def)
  obtain fs1 where w: "fileino_write ino ofs buf 1 (length buf) fs = Some (int (length buf), fs1)" "file_ok ino fs1"
    "file_content ino fs1 = splice (nat ofs) buf (file_content ino fs)"
    "inode ino fs1 = (inode ino fs)\<lparr>fi_size := max (fi_size (inode ino fs)) (nat ofs + length buf)\<rparr>" "fs_fd fs1 = fs_fd fs"
    using fileino_write_eq [OF c(5,6) o, of 1 "length buf" buf] m by auto
  let ?fs2 = "upd_fi ino (\<lambda>n. n\<lparr>fi_ver := wrap32 (fi_ver n + 1)\<rparr>) fs1"
  let ?fs3 = "upd_fd d (\<lambda>x. x\<lparr>fd_ofs := wrap32 (fd_ofs x + int (length buf))\<rparr>) ?fs2"
  have k: "wrap32 (ofs + int (length buf)) = ofs + int (length buf)" using m c(6) by (simp add: FILE_MAXSIZE_def)
  have ok: "file_ok ino ?fs2" using w(2) by (simp add: file_ok_def fileino_defs)
  have fd: "fs_fd ?fs2 = fs_fd fs" using w(5) by (simp add: upd_fi_def)
  have v: "inode ino ?fs3 = (inode ino fs1)\<lparr>fi_ver := wrap32 (fi_ver (inode ino fs) + 1)\<rparr>" using w(4) by simp
  have "rdwr_at d ino (ofs + int (length buf)) ?fs3"
    using c ok k fd by (simp add: rdwr_at_def readable_at_def filedesc_isreadable_def filedesc_iswritable_def filedesc_isopen_def)
  moreover have "write_fn d buf (length buf) fs = Some (int (length buf), ?fs3)"
    using c w k v by (simp add: write_fn_def filedesc_write_def Let_def fd)
  moreover have "file_content ino ?fs3 = file_content ino fs1" by (simp add: file_content_def)
  ultimately show ?thesis using w(3) v by auto
qed

lemma lseek_set: "rdwr_at d ino ofs fs \<Longrightarrow> 0 \<le> new \<Longrightarrow>
    lseek d new SEEK_SET fs = Some (new, upd_fd d (\<lambda>x. x\<lparr>fd_ofs := new\<rparr>) fs) \<and>
    rdwr_at d ino new (upd_fd d (\<lambda>x. x\<lparr>fd_ofs := new\<rparr>) fs)"
  by (auto simp: lseek_def filedesc_seek_def rdwr_at_def readable_at_def filedesc_isreadable_def filedesc_iswritable_def
      filedesc_isopen_def SEEK_SET_def SEEK_CUR_def SEEK_END_def)

text \<open>Through a descriptor open for reading and writing, \<open>write\<close>, then \<open>lseek\<close> back, then \<open>read\<close>
  gives back exactly the bytes written, whatever they replaced, without waiting; and the write counts as an exclusive change.\<close>

theorem write_lseek_read:
  assumes "rdwr_at d ino ofs fs" and "nat ofs \<le> fi_size (inode ino fs)" and "nat ofs + length buf \<le> FILE_MAXSIZE"
  shows "\<exists>fs1 fs2 fs3. write_fn d buf (length buf) fs = Some (int (length buf), fs1) \<and>
    lseek d ofs SEEK_SET fs1 = Some (ofs, fs2) \<and> read_fn wakes d (length buf) fs2 = Some (Inr (buf, length buf, fs3)) \<and>
    file_content ino fs3 = splice (nat ofs) buf (file_content ino fs) \<and>
    fi_ver (inode ino fs3) = wrap32 (fi_ver (inode ino fs) + 1)"
proof -
  obtain fs1 where w: "write_fn d buf (length buf) fs = Some (int (length buf), fs1)"
    "rdwr_at d ino (ofs + int (length buf)) fs1"
    "file_content ino fs1 = splice (nat ofs) buf (file_content ino fs)"
    "fi_ver (inode ino fs1) = wrap32 (fi_ver (inode ino fs) + 1)"
    using write_fn_at [OF assms] by blast
  have "0 \<le> ofs" using assms(1) by (simp add: rdwr_at_def readable_at_def)
  let ?fs2 = "upd_fd d (\<lambda>x. x\<lparr>fd_ofs := ofs\<rparr>) fs1"
  have l: "lseek d ofs SEEK_SET fs1 = Some (ofs, ?fs2)" "rdwr_at d ino ofs ?fs2"
    using lseek_set [OF w(2) \<open>0 \<le> ofs\<close>] by auto
  have le: "nat ofs \<le> length (file_content ino fs)" using assms(2) by simp
  have "nat ofs + length buf \<le> length (file_content ino fs1)" unfolding w(3) length_splice [OF le] by simp
  then have "nat ofs + length buf \<le> fi_size (inode ino ?fs2)" by simp
  moreover have "take (length buf) (drop (nat ofs) (file_content ino ?fs2)) = buf"
    using le by (simp add: w(3) splice_def)
  ultimately show ?thesis
    using l w read_available [of d ino ofs ?fs2 "length buf" wakes] by (simp add: read_fn_def rdwr_at_def)
qed

lemma demo_rdwr: "rdwr_at 0 4 2 demo_rw"
  using demo_rw_at by (simp add: rdwr_at_def filedesc_iswritable_def filedesc_isopen_def)
    (simp add: demo_rw_def upd_fd_def demo_files_def flagged_def O_RDWR_def O_WRONLY_def O_APPEND_def FILEINO_NULL_def OPEN_MAX_def)

theorem write_lseek_read_witness:
  "\<exists>fs1 fs2 fs3. write_fn 0 [1, 2] 2 demo_rw = Some (2, fs1) \<and> lseek 0 2 SEEK_SET fs1 = Some (2, fs2) \<and>
    read_fn [] 0 2 fs2 = Some (Inr ([1, 2], 2, fs3)) \<and> file_content 4 fs3 = [65, 66, 1, 2, 69]"
proof -
  have "2 \<le> fi_size (inode 4 demo_rw)" "2 + length [1, 2 :: u8] \<le> FILE_MAXSIZE"
    by (simp_all add: demo_rw_file demo_inode FILE_MAXSIZE_def)
  with write_lseek_read [OF demo_rdwr, of "[1, 2]" "[]"] show ?thesis
    by (simp add: demo_rw_file splice_def numeral_2_eq_2) blast
qed

subsection \<open>Duplicating descriptors\<close>

text \<open>\<open>dup2\<close> of two different descriptors makes the second another name for the first, whatever it was; of a descriptor and
  itself, it reports success and leaves the descriptor closed.\<close>

lemma dup2_copies:
  assumes "filedesc_isopen old fs" and "old \<noteq> new" and "new < OPEN_MAX"
    and "filedesc_isopen new fs \<longrightarrow> fileino_isvalid (fd_ino (fs_fd fs new))"
  shows "dup2 old new fs = Some (int new, upd_fd new (\<lambda>_. fs_fd fs old) fs)"
  using assms by (auto simp: dup2_def close_fn_def filedesc_close_def upd_fd_def intro!: filestate.equality)

theorem dup2_self_closes:
  assumes "filedesc_isopen d fs" and "fileino_isvalid (fd_ino (fs_fd fs d))"
  shows "\<exists>fs'. dup2 d d fs = Some (int d, fs') \<and> \<not> filedesc_isopen d fs'"
  using assms by (auto simp: dup2_def close_fn_def filedesc_close_def filedesc_isopen_def upd_fd_def)

end
