(* ===== verification/Exec.thy ===== *)
theory Exec
  imports SysProps Reconcile Dir FileProps Strings
begin

text \<open>
  Loading and starting programs (\<open>lib/exec.c\<close>, with the entry code of \<open>lib/crt0.S\<close>). The new program is built in child 0, which is
  never a forked process: the ELF image is loaded into a scratch area of the caller, copied to the child, then the stack with the
  arguments in the same way, then the files; finally the caller replaces its own memory by the child's.

  The state \<open>execst\<close> has the caller's files, the rest of its readable memory, its scratch area (from \<open>VM_SCRATCHLO\<close> on) with
  the permissions of its pages, and the memory of child 0. \<open>None\<close> is a failed assertion or an access without permission.
  Addresses and sizes in an ELF file are 64-bit and their sums wrap.
\<close>

datatype perm = PNone | PRead | PWrite

record execst =
  x_files :: filestate
  x_own :: "nat \<Rightarrow> u8 option"
  x_scr :: bytes
  x_scrperm :: "nat \<Rightarrow> perm"
  x_child :: bytes
  x_cperm :: "nat \<Rightarrow> perm"
  x_cfiles :: "filestate option"

definition VM_FILELO :: nat where "VM_FILELO = 0x200000000000"
definition VM_STACKHI :: nat where "VM_STACKHI = 0x7f0000000000"
definition EXEMAX :: nat where "EXEMAX = min 0x40000000 0x10000000000"

subsection \<open>Memory\<close>

definition in_pages :: "nat \<Rightarrow> nat \<Rightarrow> nat \<Rightarrow> bool" where
  "in_pages a n pg \<longleftrightarrow> a \<le> pg * PAGESIZE \<and> pg * PAGESIZE < a + n"

definition copy_perm :: "nat \<Rightarrow> nat \<Rightarrow> nat \<Rightarrow> (nat \<Rightarrow> perm) \<Rightarrow> (nat \<Rightarrow> perm) \<Rightarrow> nat \<Rightarrow> perm" where
  "copy_perm a b n src dst = (\<lambda>pg. if in_pages b n pg then src (a div PAGESIZE + (pg - b div PAGESIZE)) else dst pg)"

text \<open>\<open>sys_get\<close> with \<open>SYS_ZERO\<close> and with \<open>SYS_PERM\<close> on the scratch area; \<open>sys_put\<close> with \<open>SYS_COPY\<close> from it.\<close>

definition scr_zero :: "nat \<Rightarrow> execst \<Rightarrow> execst" where
  "scr_zero n st = st\<lparr>x_scr := (\<lambda>a. if a < n then 0 else x_scr st a),
     x_scrperm := (\<lambda>pg. if in_pages 0 n pg then PNone else x_scrperm st pg)\<rparr>"

definition scr_perm :: "perm \<Rightarrow> nat \<Rightarrow> nat \<Rightarrow> execst \<Rightarrow> execst" where
  "scr_perm p a n st = st\<lparr>x_scrperm := (\<lambda>pg. if in_pages a n pg then p else x_scrperm st pg)\<rparr>"

definition put_copy :: "nat \<Rightarrow> nat \<Rightarrow> execst \<Rightarrow> execst" where
  "put_copy dst n st = st\<lparr>x_child := copy_mem 0 dst n (x_scr st) (x_child st),
     x_cperm := copy_perm 0 dst n (x_scrperm st) (x_cperm st)\<rparr>"

text \<open>A store into the scratch area.\<close>

definition scr_store :: "nat \<Rightarrow> u8 list \<Rightarrow> execst \<Rightarrow> execst option" where
  "scr_store a bs st =
     (if \<forall>i \<in> {0..<length bs}. x_scrperm st ((a + i) div PAGESIZE) = PWrite
      then Some (st\<lparr>x_scr := (\<lambda>x. if a \<le> x \<and> x < a + length bs then bs ! (x - a) else x_scr st x)\<rparr>)
      else None)"

text \<open>A load from the caller's memory, at an absolute address: file data, or anything else.\<close>

definition peek_byte :: "execst \<Rightarrow> nat \<Rightarrow> u8 option" where
  "peek_byte st a =
     (if VM_FILELO + FILE_MAXSIZE \<le> a \<and> a < VM_FILELO + FILE_INODES * FILE_MAXSIZE
      then if fs_rw (x_files st) ((a - VM_FILELO) div PAGESIZE) then Some (fs_mem (x_files st) (a - VM_FILELO)) else None
      else x_own st a)"

definition peek_bytes :: "nat \<Rightarrow> nat \<Rightarrow> execst \<Rightarrow> u8 list option" where
  "peek_bytes a n st = those (map (\<lambda>i. peek_byte st (a + i)) [0..<n])"

subsection \<open>ELF images\<close>

definition ELF_MAGIC :: u32 where "ELF_MAGIC = 0x464C457F"
definition ELF_PROG_LOAD :: u32 where "ELF_PROG_LOAD = 1"
definition ELF_PROG_FLAG_WRITE :: u32 where "ELF_PROG_FLAG_WRITE = 2"

record elfhdr =
  e_magic :: u32
  e_entry :: u64
  e_phoff :: u64
  e_phnum :: u16

record proghdr =
  p_type :: u32
  p_flags :: u32
  p_offset :: u64
  p_va :: u64
  p_filesz :: u64
  p_memsz :: u64

definition sizeof_elfhdr :: nat where "sizeof_elfhdr = 64"
definition sizeof_proghdr :: nat where "sizeof_proghdr = 56"

definition elfhdr_of :: "u8 list \<Rightarrow> elfhdr" where
  "elfhdr_of bs = \<lparr>e_magic = fld 0 4 bs, e_entry = fld 24 8 bs, e_phoff = fld 32 8 bs, e_phnum = fld 56 2 bs\<rparr>"

definition proghdr_of :: "u8 list \<Rightarrow> proghdr" where
  "proghdr_of bs = \<lparr>p_type = fld 0 4 bs, p_flags = fld 4 4 bs, p_offset = fld 8 8 bs, p_va = fld 16 8 bs,
     p_filesz = fld 32 8 bs, p_memsz = fld 40 8 bs\<rparr>"

text \<open>One round of the loop over the program headers: whether the segment was acceptable.\<close>

definition load_segment :: "int \<Rightarrow> nat \<Rightarrow> proghdr \<Rightarrow> execst \<Rightarrow> (bool \<times> execst) option" where
  "load_segment ino imgsize ph st =
     (if p_type ph \<noteq> ELF_PROG_LOAD then Some (True, st)
      else let valo = sint (p_va ph); vahi = sint (p_va ph + p_memsz ph); lim = int VM_USERLO + int EXEMAX in
        if valo < int VM_USERLO \<or> lim < valo \<or> vahi < valo \<or> lim < vahi then Some (False, st)
        else let pagelo = ROUNDDOWN (nat valo) PAGESIZE; pagehi = ROUNDUP (nat vahi) PAGESIZE;
                 st1 = scr_perm PWrite (pagelo - VM_USERLO) (pagehi - pagelo) st;
                 filelo = sint (p_offset ph); filehi = sint (p_offset ph + p_filesz ph) in
          if filelo < 0 \<or> int imgsize < filelo \<or> filehi < filelo \<or> int imgsize < filehi then Some (False, st1)
          else do {
            bs \<leftarrow> user_read (FILEDATA ino + nat filelo) (nat (filehi - filelo)) (x_files st1);
            st2 \<leftarrow> scr_store (nat valo - VM_USERLO) bs st1;
            Some (True, if p_flags ph AND ELF_PROG_FLAG_WRITE = 0
              then scr_perm PRead (pagelo - VM_USERLO) (pagehi - pagelo) st2 else st2)
          })"

text \<open>The loop, with the address of the next header and the number of headers left.\<close>

fun load_segments :: "int \<Rightarrow> nat \<Rightarrow> nat \<Rightarrow> nat \<Rightarrow> execst \<Rightarrow> (bool \<times> execst) option" where
  "load_segments ino imgsize 0 ph st = Some (True, st)"
| "load_segments ino imgsize (Suc n) ph st = do {
     bs \<leftarrow> peek_bytes ph sizeof_proghdr st;
     (ok, st1) \<leftarrow> load_segment ino imgsize (proghdr_of bs) st;
     (if ok then load_segments ino imgsize n (ph + sizeof_proghdr) st1 else Some (False, st1))
   }"

text \<open>Loading the opened image; \<open>ph < eph\<close> holds \<open>e_phnum\<close> times unless the end of the table wraps around the address space.
  The new program must start where this one does, at \<open>start\<close>.\<close>

definition load_image :: "u64 \<Rightarrow> int \<Rightarrow> nat \<Rightarrow> execst \<Rightarrow> (bool \<times> execst) option" where
  "load_image start ino imgsize st =
     (if imgsize < sizeof_elfhdr then Some (False, st)
      else do {
        hb \<leftarrow> user_read (FILEDATA ino) sizeof_elfhdr (x_files st);
        let eh = elfhdr_of hb;
        (if e_magic eh \<noteq> ELF_MAGIC then Some (False, st)
         else let n = unat (e_phnum eh);
                  ph = (VM_FILELO + FILEDATA ino + unat (e_phoff eh)) mod 2 ^ 64;
                  eph = (ph + n * sizeof_proghdr) mod 2 ^ 64 in
           if int imgsize < (int eph - int (VM_FILELO + FILEDATA ino)) mod 2 ^ 64 then Some (False, st)
           else do {
             (ok, st1) \<leftarrow> load_segments ino imgsize (if ph < eph then n else 0) ph st;
             (if \<not> ok then Some (False, st1)
              else Some (e_entry eh = start, put_copy VM_USERLO EXEMAX st1))
           })
      })"

definition exec_readelf :: "u64 \<Rightarrow> string \<Rightarrow> execst \<Rightarrow> (int \<times> execst) option" where
  "exec_readelf start path st = do {
     let st0 = scr_zero EXEMAX st;
     (r, fs) \<leftarrow> filedesc_open None path O_RDONLY 0 (x_files st0);
     let st1 = st0\<lparr>x_files := fs\<rparr>;
     (case r of
        None \<Rightarrow> Some (- 1, st1)
      | Some d \<Rightarrow> do {
          let ino = fd_ino (fs_fd fs d);
          (ok, st2) \<leftarrow> load_image start ino (fi_size (inode ino fs)) st1;
          fs2 \<leftarrow> filedesc_close d (x_files st2);
          Some (if ok then 0 else - 1, st2\<lparr>x_files := fs2\<rparr>)
        })
   }"

subsection \<open>Arguments\<close>

text \<open>A store through the scratch mapping of the new stack; below the scratch area nothing is mapped.\<close>

definition stack_store :: "int \<Rightarrow> u8 list \<Rightarrow> execst \<Rightarrow> execst option" where
  "stack_store a bs st = do {
     cassert (int (VM_STACKHI - PTSIZE) \<le> a);
     scr_store (nat a - (VM_STACKHI - PTSIZE)) bs st
   }"

definition ptr_bytes :: "int \<Rightarrow> u8 list" where "ptr_bytes v = to_le 8 (of_int v :: u64)"

fun copy_args :: "int \<Rightarrow> nat \<Rightarrow> u8 list list \<Rightarrow> int \<Rightarrow> execst \<Rightarrow> (int \<times> execst) option" where
  "copy_args dargv i [] esp st = Some (esp, st)"
| "copy_args dargv i (arg # args) esp st = do {
     let esp1 = esp - int (length arg + 1);
     st1 \<leftarrow> stack_store esp1 (arg @ [0]) st;
     st2 \<leftarrow> stack_store (dargv + 8 * int i) (ptr_bytes esp1) st1;
     copy_args dargv (Suc i) args esp1 st2
   }"

definition exec_copyargs :: "u8 list list \<Rightarrow> execst \<Rightarrow> (int \<times> execst) option" where
  "exec_copyargs argv st = do {
     let st0 = scr_perm PWrite 0 PTSIZE (scr_zero PTSIZE st);
     let dargv = int VM_STACKHI - 8 * int (length argv + 1);
     (esp, st1) \<leftarrow> copy_args dargv 0 argv dargv st0;
     let esp1 = esp - esp mod 8;
     st2 \<leftarrow> stack_store (esp1 - 8) (ptr_bytes dargv) st1;
     st3 \<leftarrow> stack_store (esp1 - 16) (ptr_bytes (int (length argv))) st2;
     Some (esp1 - 16, put_copy (VM_STACKHI - PTSIZE) PTSIZE st3)
   }"

subsection \<open>execv\<close>

text \<open>The process after \<open>exec_start\<close>: its memory is that of child 0.\<close>

record program =
  pr_mem :: bytes
  pr_perm :: "nat \<Rightarrow> perm"
  pr_files :: "filestate option"
  pr_rsp :: int

definition exec_start :: "int \<Rightarrow> execst \<Rightarrow> program" where
  "exec_start esp st = \<lparr>pr_mem = x_child st, pr_perm = x_cperm st, pr_files = x_cfiles st, pr_rsp = esp\<rparr>"

definition execv :: "u64 \<Rightarrow> string \<Rightarrow> u8 list list \<Rightarrow> execst \<Rightarrow> (execst + program) option" where
  "execv start path argv st = do {
     let st0 = st\<lparr>x_child := (\<lambda>_. 0), x_cperm := (\<lambda>_. PNone), x_cfiles := None\<rparr>;
     (r, st1) \<leftarrow> exec_readelf start path st0;
     (if r < 0 then Some (Inl st1)
      else do {
        (esp, st2) \<leftarrow> exec_copyargs argv st1;
        Some (Inr (exec_start esp (st2\<lparr>x_cfiles := Some (x_files st2)\<rparr>)))
      })
   }"

text \<open>The arguments that the entry code passes to \<open>main\<close>: those on the stack, or none when the stack pointer is where the kernel
  puts it, on a 4 GB boundary.\<close>

definition word_at :: "bytes \<Rightarrow> nat \<Rightarrow> nat" where
  "word_at m a = unat (of_le (map (\<lambda>i. m (a + i)) [0..<8]) :: u64)"

definition main_args :: "program \<Rightarrow> nat \<times> nat" where
  "main_args p = (if pr_rsp p mod 2 ^ 32 = 0 then (0, 0)
     else (word_at (pr_mem p) (nat (pr_rsp p)), word_at (pr_mem p) (nat (pr_rsp p) + 8)))"

end
