(* ===== verification/ExecProps.thy ===== *)
theory ExecProps
  imports Exec
begin

text \<open>
  What \<open>execv\<close> does (theory Exec): the arguments arrive in the new program as null-terminated strings behind an \<open>argv\<close> array; every
  segment of an acceptable ELF image is loaded at its address with its permissions and zeros after its file data; and an unacceptable
  image leaves the caller as it was.
\<close>

subsection \<open>Strings and words in memory\<close>

lemma cstr_shift:
  assumes "\<And>k. k \<le> length s \<Longrightarrow> m' (q + k) = m (p + k)"
  shows "cstr m' q s = cstr m p s"
  using assms
proof (induction s arbitrary: p q)
  case (Cons c s)
  have "m' (q + 1 + k) = m (p + 1 + k)" if "k \<le> length s" for k using Cons.prems [of "Suc k"] that by simp
  from Cons.IH [OF this] Cons.prems [of 0] show ?case by simp
qed simp

lemma word_at_shift:
  assumes "\<And>k. k < 8 \<Longrightarrow> m' (q + k) = m (p + k)"
  shows "word_at m' q = word_at m p"
proof -
  have "map (\<lambda>i. m' (q + i)) [0..<8] = map (\<lambda>i. m (p + i)) [0..<8]" using assms by simp
  then show ?thesis unfolding word_at_def by (rule arg_cong)
qed

lemma ptr_bytes_length [simp]: "length (ptr_bytes v) = 8"
  by (simp add: ptr_bytes_def)

lemma word_at_ptr:
  assumes "\<And>k. k < 8 \<Longrightarrow> m (a + k) = ptr_bytes (int v) ! k" and "v < 2 ^ 64"
  shows "word_at m a = v"
proof -
  have "map (\<lambda>i. m (a + i)) [0..<8] = ptr_bytes (int v)"
    using assms(1) by (auto intro!: nth_equalityI)
  then show ?thesis using assms(2) by (simp add: word_at_def ptr_bytes_def unat_of_nat take_bit_nat_eq_self)
qed

lemma cstr_bytes: "0 \<notin> set s \<Longrightarrow> (\<And>k. k \<le> length s \<Longrightarrow> m (p + k) = (s @ [0]) ! k) \<Longrightarrow> cstr m p s"
proof (induction s arbitrary: p)
  case Nil
  then show ?case using Nil.prems(2) [of 0] by simp
next
  case (Cons c s)
  have "m (p + 1 + k) = (s @ [0]) ! k" if "k \<le> length s" for k using Cons.prems(2) [of "Suc k"] that by simp
  with Cons.IH [of "p + 1"] Cons.prems(1) Cons.prems(2) [of 0] show ?case by auto
qed

subsection \<open>The new stack\<close>

definition stack_base :: nat where "stack_base = VM_STACKHI - PTSIZE"

lemma stack_base [simp]: "VM_STACKHI - PTSIZE = stack_base"
  by (simp add: stack_base_def)

definition stack_writable :: "execst \<Rightarrow> bool" where
  "stack_writable st \<longleftrightarrow> (\<forall>pg. in_pages 0 PTSIZE pg \<longrightarrow> x_scrperm st pg = PWrite)"

definition set_scr :: "nat \<Rightarrow> u8 list \<Rightarrow> execst \<Rightarrow> execst" where
  "set_scr a bs st = st\<lparr>x_scr := (\<lambda>x. if a \<le> x \<and> x < a + length bs then bs ! (x - a) else x_scr st x)\<rparr>"

lemma set_scr_sel [simp]:
  "stack_writable (set_scr a bs st) = stack_writable st" "x_files (set_scr a bs st) = x_files st"
  "x_child (set_scr a bs st) = x_child st" "x_cperm (set_scr a bs st) = x_cperm st" "x_scrperm (set_scr a bs st) = x_scrperm st"
  "x_cfiles (set_scr a bs st) = x_cfiles st" "x_own (set_scr a bs st) = x_own st"
  by (simp_all add: set_scr_def stack_writable_def)

lemma set_scr_in: "k < length bs \<Longrightarrow> x_scr (set_scr a bs st) (a + k) = bs ! k"
  by (simp add: set_scr_def)

lemma set_scr_out: "x < a \<or> a + length bs \<le> x \<Longrightarrow> x_scr (set_scr a bs st) x = x_scr st x"
  by (auto simp: set_scr_def)

lemma stack_size: "VM_STACKHI = stack_base + PTSIZE" "stack_base + PTSIZE < 2 ^ 64" "stack_base mod 8 = 0"
    "PAGESIZE dvd stack_base"
  by (simp_all add: PTSIZE_def VM_STACKHI_def stack_base_def PAGESIZE_def)

lemma stack_store_eq:
  assumes "stack_writable st" and "a + length bs \<le> PTSIZE"
  shows "stack_store (int (stack_base + a)) bs st = Some (set_scr a bs st)"
proof -
  have "x_scrperm st ((a + i) div PAGESIZE) = PWrite" if "i < length bs" for i
  proof -
    have "(a + i) div PAGESIZE * PAGESIZE \<le> a + i" by simp
    also have "\<dots> < PTSIZE" using that assms(2) by simp
    finally have "in_pages 0 PTSIZE ((a + i) div PAGESIZE)" by (simp add: in_pages_def)
    with assms(1) show ?thesis by (simp add: stack_writable_def)
  qed
  then show ?thesis by (simp add: stack_store_def scr_store_def set_scr_def nat_add_distrib)
qed

text \<open>The pointers to the copied strings, relative to the bottom of the stack, and the bytes they take.\<close>

definition args_size :: "u8 list list \<Rightarrow> nat" where "args_size args = (\<Sum>a\<leftarrow>args. length a + 1)"

lemma args_size_simps [simp]: "args_size [] = 0" "args_size (a # as) = Suc (length a) + args_size as"
  by (simp_all add: args_size_def)

text \<open>Entry \<open>j\<close> of the \<open>argv\<close> array at \<open>d\<close> points to a copy of the string, between \<open>lo\<close> and the array.\<close>

definition arg_at :: "execst \<Rightarrow> nat \<Rightarrow> nat \<Rightarrow> nat \<Rightarrow> u8 list \<Rightarrow> bool" where
  "arg_at st lo d j s \<longleftrightarrow> (\<exists>p. word_at (x_scr st) (d + 8 * j) = stack_base + p \<and> lo \<le> p \<and> p + length s < d \<and> cstr (x_scr st) p s)"

lemma copy_args_ok:
  assumes "stack_writable st" and "args_size args \<le> e" and "e \<le> d" and "d + 8 * (i + length args) \<le> PTSIZE"
    and "\<forall>s\<in>set args. 0 \<notin> set s"
  shows "\<exists>st'. copy_args (int (stack_base + d)) i args (int (stack_base + e)) st =
      Some (int (stack_base + (e - args_size args)), st') \<and> st' = st\<lparr>x_scr := x_scr st'\<rparr> \<and>
    (\<forall>j < length args. arg_at st' (e - args_size args) d (i + j) (args ! j)) \<and>
    (\<forall>x. (x < e - args_size args \<or> e \<le> x) \<and> (x < d + 8 * i \<or> d + 8 * (i + length args) \<le> x) \<longrightarrow> x_scr st' x = x_scr st x)"
  using assms
proof (induction args arbitrary: i e st)
  case Nil
  show ?case by (intro exI [of _ st]) simp
next
  case (Cons a args)
  let ?p = "e - (length a + 1)"
  let ?s1 = "set_scr ?p (a @ [0]) st"
  let ?s2 = "set_scr (d + 8 * i) (ptr_bytes (int (stack_base + ?p))) ?s1"
  have le: "length a + 1 \<le> e" using Cons.prems(2) by simp
  then have e1: "int (stack_base + e) - int (length a + 1) = int (stack_base + ?p)" by linarith
  have b1: "?p + length (a @ [0]) \<le> PTSIZE" and b2: "d + 8 * i + 8 \<le> PTSIZE" using Cons.prems le by auto
  have st1: "stack_store (int (stack_base + ?p)) (a @ [0]) st = Some ?s1"
    by (rule stack_store_eq [OF Cons.prems(1) b1])
  have st2: "stack_store (int (stack_base + d) + 8 * int i) (ptr_bytes (int (stack_base + ?p))) ?s1 = Some ?s2"
    using stack_store_eq [of ?s1 "d + 8 * i" "ptr_bytes (int (stack_base + ?p))"] Cons.prems(1) b2 by (simp add: algebra_simps)
  obtain st' where r: "copy_args (int (stack_base + d)) (Suc i) args (int (stack_base + ?p)) ?s2 =
      Some (int (stack_base + (?p - args_size args)), st')" "st' = ?s2\<lparr>x_scr := x_scr st'\<rparr>"
    "\<forall>j < length args. arg_at st' (?p - args_size args) d (Suc i + j) (args ! j)"
    "\<forall>x. (x < ?p - args_size args \<or> ?p \<le> x) \<and> (x < d + 8 * Suc i \<or> d + 8 * (Suc i + length args) \<le> x) \<longrightarrow>
      x_scr st' x = x_scr ?s2 x"
  proof -
    have "stack_writable ?s2" "args_size args \<le> ?p" "?p \<le> d" "d + 8 * (Suc i + length args) \<le> PTSIZE"
      "\<forall>s\<in>set args. 0 \<notin> set s"
      using Cons.prems le by auto
    from Cons.IH [OF this] that show thesis by blast
  qed
  have here: "x_scr st' x = x_scr ?s2 x" if "?p \<le> x" "x < d + 8 * i + 8" for x using r(4) that by auto
  have "word_at (x_scr st') (d + 8 * i) = stack_base + ?p"
    using here set_scr_in [of _ "ptr_bytes (int (stack_base + ?p))"] Cons.prems(3) stack_size b1 by (intro word_at_ptr) auto
  moreover have "cstr (x_scr st') ?p a"
  proof (rule cstr_bytes)
    show "0 \<notin> set a" using Cons.prems(5) by simp
    fix k assume "k \<le> length a"
    then have "?p + k < d" using le Cons.prems(3) by simp
    then show "x_scr st' (?p + k) = (a @ [0]) ! k"
      using here [of "?p + k"] set_scr_in [of k "a @ [0]"] \<open>k \<le> length a\<close> by (simp add: set_scr_out)
  qed
  moreover have "?p + length a < d" using le Cons.prems(3) by simp
  moreover have "e - args_size (a # args) \<le> ?p" by simp
  ultimately have first: "arg_at st' (e - args_size (a # args)) d i a" unfolding arg_at_def by blast
  have "arg_at st' (e - args_size (a # args)) d (i + j) ((a # args) ! j)" if "j < length (a # args)" for j
    using that first r(3) by (cases j) auto
  moreover have "x_scr st' x = x_scr st x"
    if "(x < e - args_size (a # args) \<or> e \<le> x) \<and> (x < d + 8 * i \<or> d + 8 * (i + length (a # args)) \<le> x)" for x
  proof -
    have "(x < ?p - args_size args \<or> ?p \<le> x) \<and> (x < d + 8 * Suc i \<or> d + 8 * (Suc i + length args) \<le> x)"
      using that by auto
    with r(4) have "x_scr st' x = x_scr ?s2 x" by blast
    also have "\<dots> = x_scr ?s1 x" by (rule set_scr_out) (use that in auto)
    also have "\<dots> = x_scr st x" by (rule set_scr_out) (use that le in auto)
    finally show ?thesis .
  qed
  moreover have "st' = st\<lparr>x_scr := x_scr st'\<rparr>" by (subst r(2)) (simp add: set_scr_def)
  moreover have "copy_args (int (stack_base + d)) i (a # args) (int (stack_base + e)) st =
      Some (int (stack_base + (e - args_size (a # args))), st')"
    using r(1) st1 st2 e1 by (simp add: Let_def)
  ultimately show ?case by blast
qed

text \<open>The arguments as the new program finds them, through its stack pointer.\<close>

definition args_passed :: "bytes \<Rightarrow> nat \<Rightarrow> u8 list list \<Rightarrow> bool" where
  "args_passed m argv args \<longleftrightarrow>
     (\<forall>j < length args. cstr m (word_at m (argv + 8 * j)) (args ! j)) \<and> word_at m (argv + 8 * length args) = 0"

lemma zero_word: "(\<And>k. k < 8 \<Longrightarrow> m (a + k) = 0) \<Longrightarrow> word_at m a = 0"
  using word_at_ptr [of m a 0] by (simp add: ptr_bytes_def to_le_def)

lemma child_stack: "x < PTSIZE \<Longrightarrow> x_child (put_copy stack_base PTSIZE st) (stack_base + x) = x_scr st x"
  by (simp add: put_copy_def copy_mem_def)

text \<open>The state in which the arguments have been copied: \<open>argv\<close> at \<open>d\<close>, the strings from \<open>k\<close> up, and the final stack pointer
  sixteen bytes below \<open>e\<close>, all relative to the bottom of the stack.\<close>

definition frame_of :: "nat \<Rightarrow> nat \<Rightarrow> nat \<Rightarrow> execst \<Rightarrow> execst" where
  "frame_of n d e st = put_copy stack_base PTSIZE
     (set_scr (e - 16) (ptr_bytes (int n)) (set_scr (e - 8) (ptr_bytes (int (stack_base + d))) st))"

lemma align_down: "stack_base + k - (stack_base + k) mod 8 = stack_base + (k - k mod 8)"
proof -
  have "(stack_base + k) mod 8 = k mod 8" using stack_size(3) by presburger
  then show ?thesis using mod_less_eq_dividend [of k 8] by simp
qed

lemma exec_copyargs_run:
  assumes fit: "args_size argv + 8 * (length argv + 1) + 24 \<le> PTSIZE" and nz: "\<forall>s\<in>set argv. 0 \<notin> set s"
    and d: "d = PTSIZE - 8 * (length argv + 1)" and k: "k = d - args_size argv" and e: "e = k - k mod 8"
  shows "\<exists>st1. exec_copyargs argv st = Some (int (stack_base + (e - 16)), frame_of (length argv) d e st1) \<and>
    st1 = st\<lparr>x_scr := x_scr st1, x_scrperm := x_scrperm st1\<rparr> \<and> stack_writable st1 \<and>
    (\<forall>j < length argv. arg_at st1 k d j (argv ! j)) \<and> (\<forall>x. d + 8 * length argv \<le> x \<and> x < PTSIZE \<longrightarrow> x_scr st1 x = 0)"
proof -
  let ?n = "length argv"
  have dn: "d + 8 * (?n + 1) = PTSIZE" "args_size argv + 24 \<le> d" using fit by (auto simp: d)
  define st0 where "st0 = scr_perm PWrite 0 PTSIZE (scr_zero PTSIZE st)"
  have w0: "stack_writable st0" by (simp add: st0_def stack_writable_def scr_perm_def)
  obtain st1 where c: "copy_args (int (stack_base + d)) 0 argv (int (stack_base + d)) st0 = Some (int (stack_base + k), st1)"
    "st1 = st0\<lparr>x_scr := x_scr st1\<rparr>" "\<forall>j < ?n. arg_at st1 k d j (argv ! j)"
    "\<forall>x. (x < k \<or> d \<le> x) \<and> (x < d \<or> d + 8 * ?n \<le> x) \<longrightarrow> x_scr st1 x = x_scr st0 x"
  proof -
    have "args_size argv \<le> d" "d \<le> d" "d + 8 * (0 + ?n) \<le> PTSIZE" using dn by auto
    from copy_args_ok [OF w0 this nz] that show thesis by (auto simp: k)
  qed
  have ke: "24 \<le> k" "k \<le> d" "24 \<le> e" "e \<le> k" using dn(2) by (auto simp: k e minus_mod_eq_mult_div)
  let ?st2 = "set_scr (e - 8) (ptr_bytes (int (stack_base + d))) st1"
  have w1: "stack_writable st1" using w0 by (subst c(2)) (simp add: stack_writable_def)
  have esp: "int (stack_base + e) - 16 = int (stack_base + (e - 16))" "int (stack_base + e) - 8 = int (stack_base + (e - 8))"
    using ke(3) by linarith+
  have s2: "stack_store (int (stack_base + (e - 8))) (ptr_bytes (int (stack_base + d))) st1 = Some ?st2"
    using stack_store_eq [OF w1, of "e - 8" "ptr_bytes (int (stack_base + d))"] dn ke by simp
  have s3: "stack_store (int (stack_base + (e - 16))) (ptr_bytes (int ?n)) ?st2 =
      Some (set_scr (e - 16) (ptr_bytes (int ?n)) ?st2)"
    using stack_store_eq [of ?st2 "e - 16" "ptr_bytes (int ?n)"] w1 dn ke by simp
  have "int (stack_base + k) - int (stack_base + k) mod 8 = int (stack_base + k - (stack_base + k) mod 8)"
    by (simp add: of_nat_diff zmod_int)
  then have al: "int (stack_base + k) - int (stack_base + k) mod 8 = int (stack_base + e)" unfolding align_down e .
  have dargv: "int VM_STACKHI - 8 * int (length argv + 1) = int (stack_base + d)" using dn(1) stack_size(1) by linarith
  have "exec_copyargs argv st = Some (int (stack_base + (e - 16)), frame_of ?n d e st1)"
    unfolding exec_copyargs_def Let_def dargv st0_def [symmetric] c(1) Option.bind.bind_lunit prod.case al esp s2 s3
    by (simp add: frame_of_def)
  moreover have "st1 = st\<lparr>x_scr := x_scr st1, x_scrperm := x_scrperm st1\<rparr>"
    by (subst c(2)) (subst c(2), simp add: st0_def scr_perm_def scr_zero_def)
  moreover have "x_scr st1 x = 0" if "d + 8 * ?n \<le> x" "x < PTSIZE" for x
    using c(4) that by (simp add: st0_def scr_perm_def scr_zero_def)
  ultimately show ?thesis using c(3) w1 by blast
qed

text \<open>Reading that frame in the child.\<close>

lemma frame_words:
  assumes e: "16 \<le> e" "e \<le> d" and d: "d + 8 * (n + 1) = PTSIZE"
  shows "word_at (x_child (frame_of n d e st)) (stack_base + (e - 16)) = n"
    and "word_at (x_child (frame_of n d e st)) (stack_base + (e - 16) + 8) = stack_base + d"
proof -
  let ?st2 = "set_scr (e - 8) (ptr_bytes (int (stack_base + d))) st"
  let ?st3 = "set_scr (e - 16) (ptr_bytes (int n)) ?st2" and ?m = "x_child (frame_of n d e st)"
  have m: "?m (stack_base + x) = x_scr ?st3 x" if "x < PTSIZE" for x using child_stack [OF that] by (simp add: frame_of_def)
  show "word_at ?m (stack_base + (e - 16)) = n"
  proof (rule word_at_ptr)
    fix j :: nat assume "j < 8"
    then have "?m (stack_base + (e - 16 + j)) = x_scr ?st3 (e - 16 + j)" using d e by (intro m) simp
    also have "\<dots> = ptr_bytes (int n) ! j" using \<open>j < 8\<close> by (simp add: set_scr_in)
    finally show "?m (stack_base + (e - 16) + j) = ptr_bytes (int n) ! j" by (simp add: add.assoc)
  qed (use d stack_size(2) in simp)
  show "word_at ?m (stack_base + (e - 16) + 8) = stack_base + d"
  proof (rule word_at_ptr)
    fix j :: nat assume "j < 8"
    have "stack_base + (e - 16) + 8 + j = stack_base + (e - 8 + j)" using e(1) by simp
    moreover have "?m (stack_base + (e - 8 + j)) = x_scr ?st3 (e - 8 + j)" using d e \<open>j < 8\<close> by (intro m) simp
    moreover have "x_scr ?st3 (e - 8 + j) = x_scr ?st2 (e - 8 + j)" by (rule set_scr_out) (use e in \<open>simp, linarith\<close>)
    ultimately have "?m (stack_base + (e - 16) + 8 + j) = x_scr ?st2 (e - 8 + j)" by (simp only:)
    also have "\<dots> = ptr_bytes (int (stack_base + d)) ! j" by (rule set_scr_in) (use \<open>j < 8\<close> in simp)
    finally show "?m (stack_base + (e - 16) + 8 + j) = ptr_bytes (int (stack_base + d)) ! j" .
  qed (use d stack_size(2) in simp)
qed

lemma frame_upper:
  assumes "16 \<le> e" "e \<le> x" "x < PTSIZE"
  shows "x_child (frame_of n d e st) (stack_base + x) = x_scr st x"
proof -
  have "e - 16 + 8 \<le> x" "e - 8 + 8 \<le> x" using assms by linarith+
  then show ?thesis using assms(3) by (simp add: frame_of_def child_stack set_scr_out)
qed

lemma frame_args:
  assumes e: "16 \<le> e" "e \<le> k" and d: "k \<le> d" "d + 8 * (length argv + 1) = PTSIZE"
    and a: "\<forall>j < length argv. arg_at st k d j (argv ! j)" and z: "\<forall>x. d + 8 * length argv \<le> x \<and> x < PTSIZE \<longrightarrow> x_scr st x = 0"
  shows "args_passed (x_child (frame_of n d e st)) (stack_base + d) argv"
proof -
  let ?m = "x_child (frame_of n d e st)"
  have w: "word_at ?m (stack_base + d + 8 * j) = word_at (x_scr st) (d + 8 * j)" if "j \<le> length argv" for j
    using that d e by (intro word_at_shift) (simp add: frame_upper add.assoc)
  have "cstr ?m (word_at ?m (stack_base + d + 8 * j)) (argv ! j)" if j: "j < length argv" for j
  proof -
    obtain p where p: "word_at (x_scr st) (d + 8 * j) = stack_base + p" "k \<le> p" "p + length (argv ! j) < d"
      "cstr (x_scr st) p (argv ! j)" using a j by (auto simp: arg_at_def)
    have "cstr ?m (stack_base + p) (argv ! j)"
      using p d e by (subst cstr_shift [of _ _ _ "x_scr st" p]) (simp_all add: frame_upper add.assoc)
    with w [of j] j p(1) show ?thesis by simp
  qed
  moreover have "word_at (x_scr st) (d + 8 * length argv) = 0" using z d by (intro zero_word) simp
  ultimately show ?thesis using w [of "length argv"] by (simp add: args_passed_def)
qed

lemma exec_copyargs_ok:
  assumes fit: "args_size argv + 8 * (length argv + 1) + 24 \<le> PTSIZE" and nz: "\<forall>s\<in>set argv. 0 \<notin> set s"
  shows "\<exists>esp st'. exec_copyargs argv st = Some (int esp, st') \<and> esp mod 8 = 0 \<and> stack_base \<le> esp \<and> esp + 16 < VM_STACKHI \<and>
    word_at (x_child st') esp = length argv \<and> args_passed (x_child st') (word_at (x_child st') (esp + 8)) argv \<and>
    (\<forall>pg. in_pages stack_base PTSIZE pg \<longrightarrow> x_cperm st' pg = PWrite) \<and>
    (\<forall>a < stack_base. x_child st' a = x_child st a) \<and> (\<forall>pg. pg * PAGESIZE < stack_base \<longrightarrow> x_cperm st' pg = x_cperm st pg) \<and>
    x_files st' = x_files st \<and> x_cfiles st' = x_cfiles st"
proof -
  let ?n = "length argv"
  define d where "d = PTSIZE - 8 * (?n + 1)"
  define k where "k = d - args_size argv"
  define e where "e = k - k mod 8"
  have dn: "d + 8 * (?n + 1) = PTSIZE" "args_size argv + 24 \<le> d" using fit by (auto simp: d_def)
  have ke: "24 \<le> k" "k \<le> d" "24 \<le> e" "e \<le> k" "e mod 8 = 0" using dn(2) by (auto simp: k_def e_def minus_mod_eq_mult_div)
  obtain st1 where r: "exec_copyargs argv st = Some (int (stack_base + (e - 16)), frame_of ?n d e st1)"
    "st1 = st\<lparr>x_scr := x_scr st1, x_scrperm := x_scrperm st1\<rparr>" "stack_writable st1"
    "\<forall>j < ?n. arg_at st1 k d j (argv ! j)" "\<forall>x. d + 8 * ?n \<le> x \<and> x < PTSIZE \<longrightarrow> x_scr st1 x = 0"
    using exec_copyargs_run [OF fit nz d_def k_def e_def] by blast
  let ?st' = "frame_of ?n d e st1"
  have w: "word_at (x_child ?st') (stack_base + (e - 16)) = ?n"
    "word_at (x_child ?st') (stack_base + (e - 16) + 8) = stack_base + d"
    using ke by (intro frame_words [OF _ _ dn(1)]; simp)+
  have "args_passed (x_child ?st') (stack_base + d) argv" using ke r(4,5) by (intro frame_args [OF _ _ _ dn(1)]) auto
  moreover have "(stack_base + (e - 16)) mod 8 = 0" using stack_size(3) ke by presburger
  moreover have "x_cperm ?st' pg = PWrite" if "in_pages stack_base PTSIZE pg" for pg
  proof -
    have "stack_base div PAGESIZE * PAGESIZE = stack_base" using stack_size(4) by simp
    then have "in_pages 0 PTSIZE (pg - stack_base div PAGESIZE)" using that by (auto simp: in_pages_def diff_mult_distrib)
    then show ?thesis using r(3) that by (simp add: frame_of_def put_copy_def copy_perm_def stack_writable_def)
  qed
  moreover have "x_child st1 = x_child st" "x_cperm st1 = x_cperm st" "x_files st1 = x_files st" "x_cfiles st1 = x_cfiles st"
    by (subst r(2), simp)+
  ultimately show ?thesis using r(1) w ke dn stack_size(1)
    by (intro exI [of _ "stack_base + (e - 16)"] exI [of _ ?st'])
      (auto simp: frame_of_def put_copy_def copy_mem_def copy_perm_def in_pages_def)
qed

subsection \<open>Loading segments\<close>

text \<open>An acceptable program header, and the part of the scratch area its pages take, relative to \<open>VM_USERLO\<close>.\<close>

definition is_load :: "proghdr \<Rightarrow> bool" where "is_load ph \<longleftrightarrow> p_type ph = ELF_PROG_LOAD"

definition seg_good :: "nat \<Rightarrow> proghdr \<Rightarrow> bool" where
  "seg_good imgsize ph \<longleftrightarrow> (is_load ph \<longrightarrow> VM_USERLO \<le> unat (p_va ph) \<and>
     unat (p_va ph) + unat (p_memsz ph) \<le> VM_USERLO + EXEMAX \<and> unat (p_filesz ph) \<le> unat (p_memsz ph) \<and>
     unat (p_offset ph) + unat (p_filesz ph) \<le> imgsize)"

definition seg_lo :: "proghdr \<Rightarrow> nat" where "seg_lo ph = ROUNDDOWN (unat (p_va ph)) PAGESIZE - VM_USERLO"
definition seg_hi :: "proghdr \<Rightarrow> nat" where
  "seg_hi ph = ROUNDUP (unat (p_va ph) + unat (p_memsz ph)) PAGESIZE - VM_USERLO"

definition in_seg :: "proghdr \<Rightarrow> nat \<Rightarrow> bool" where "in_seg ph x \<longleftrightarrow> is_load ph \<and> seg_lo ph \<le> x \<and> x < seg_hi ph"

definition seg_perm :: "proghdr \<Rightarrow> perm" where
  "seg_perm ph = (if p_flags ph AND ELF_PROG_FLAG_WRITE = 0 then PRead else PWrite)"

text \<open>The byte the image gives to address \<open>x\<close> of a segment: file data, then zeros to the end of the last page.\<close>

definition seg_byte :: "u8 list \<Rightarrow> proghdr \<Rightarrow> nat \<Rightarrow> u8" where
  "seg_byte img ph x = (let i = x + VM_USERLO in
     if unat (p_va ph) \<le> i \<and> i < unat (p_va ph) + unat (p_filesz ph) then img ! (unat (p_offset ph) + (i - unat (p_va ph))) else 0)"

abbreviation perm_at :: "execst \<Rightarrow> nat \<Rightarrow> perm" where "perm_at st x \<equiv> x_scrperm st (x div PAGESIZE)"

lemma sint_small: "unat (w :: u64) < 2 ^ 63 \<Longrightarrow> sint w = int (unat w)"
proof -
  assume "unat w < 2 ^ 63"
  then have "int (unat w) < int (2 ^ 63)" by (simp only: of_nat_less_iff)
  then have "uint w < 2 ^ 63" by simp
  moreover have "- (2 ^ 63) \<le> uint w" by (rule order_trans [OF _ uint_nonnegative]) simp
  ultimately have "signed_take_bit 63 (uint w) = uint w" by (intro signed_take_bit_int_eq_self)
  then show "sint w = int (unat w)" by (simp add: sint_uint)
qed

lemma unat_sum: "unat (a :: u64) + unat b < 2 ^ 64 \<Longrightarrow> unat (a + b) = unat a + unat b"
  by (simp add: unat_word_ariths)

lemma perm_range:
  assumes "PAGESIZE dvd lo" and "PAGESIZE dvd hi" and "lo \<le> hi"
  shows "perm_at (scr_perm p lo (hi - lo) st) x = (if lo \<le> x \<and> x < hi then p else perm_at st x)"
proof -
  obtain a where a: "lo = a * PAGESIZE" using assms(1) by (metis dvd_def mult.commute)
  obtain b where b: "hi = b * PAGESIZE" using assms(2) by (metis dvd_def mult.commute)
  have "lo \<le> x div PAGESIZE * PAGESIZE \<longleftrightarrow> lo \<le> x" "x div PAGESIZE * PAGESIZE < hi \<longleftrightarrow> x < hi"
    unfolding a b using PAGESIZE_gt0 by (auto simp: less_eq_div_iff_mult_less_eq div_less_iff_less_mult)
  with assms(3) show ?thesis by (simp add: scr_perm_def in_pages_def)
qed

lemma user_pages: "PAGESIZE dvd VM_USERLO" "VM_USERLO + EXEMAX < 2 ^ 63"
  by (simp_all add: PAGESIZE_def VM_USERLO_def EXEMAX_def)

lemma seg_bounds:
  assumes "seg_good n ph" and "is_load ph"
  shows "PAGESIZE dvd seg_lo ph" "PAGESIZE dvd seg_hi ph" "seg_lo ph \<le> unat (p_va ph) - VM_USERLO"
    "unat (p_va ph) - VM_USERLO + unat (p_memsz ph) \<le> seg_hi ph" "VM_USERLO \<le> ROUNDDOWN (unat (p_va ph)) PAGESIZE"
    "seg_lo ph \<le> seg_hi ph"
proof -
  let ?va = "unat (p_va ph)"
  have g: "VM_USERLO \<le> ?va" using assms by (simp add: seg_good_def)
  have up: "?va + unat (p_memsz ph) \<le> ROUNDUP (?va + unat (p_memsz ph)) PAGESIZE" by (rule ROUNDUP_ge [OF PAGESIZE_gt0])
  have dn: "ROUNDDOWN ?va PAGESIZE \<le> ?va" by (simp add: ROUNDDOWN_def)
  obtain k where k: "VM_USERLO = k * PAGESIZE" using user_pages(1) by (metis dvd_def mult.commute)
  then have "k \<le> ?va div PAGESIZE" using g PAGESIZE_gt0 by (simp add: less_eq_div_iff_mult_less_eq)
  then show lo: "VM_USERLO \<le> ROUNDDOWN ?va PAGESIZE" by (simp add: ROUNDDOWN_def k minus_mod_eq_div_mult)
  show "PAGESIZE dvd seg_lo ph" "PAGESIZE dvd seg_hi ph" using ROUNDDOWN_dvd ROUNDUP_dvd user_pages(1) by (simp_all add: seg_lo_def seg_hi_def dvd_diff_nat)
  show "seg_lo ph \<le> ?va - VM_USERLO" using dn by (simp add: seg_lo_def)
  show "?va - VM_USERLO + unat (p_memsz ph) \<le> seg_hi ph" using up g by (simp add: seg_hi_def)
  then show "seg_lo ph \<le> seg_hi ph" using \<open>seg_lo ph \<le> ?va - VM_USERLO\<close> by simp
qed

lemma load_segment_skip: "\<not> is_load ph \<Longrightarrow> load_segment ino n ph st = Some (True, st)"
  by (simp add: load_segment_def is_load_def)

lemma seg_tests:
  fixes lo ex va ms off fz n :: nat
  assumes "lo \<le> va" and "va + ms \<le> lo + ex" and "off + fz \<le> n"
  shows "(int va < int lo \<or> int lo + int ex < int va \<or> int (va + ms) < int va \<or> int lo + int ex < int (va + ms)) = False"
    "(int off < 0 \<or> int n < int off \<or> int (off + fz) < int off \<or> int n < int (off + fz)) = False"
    "nat (int (off + fz) - int off) = fz"
  using assms by auto

lemma load_segment_ok:
  assumes ok: "file_ok ino (x_files st)" and sz: "n = fi_size (inode ino (x_files st))" and g: "seg_good n ph" and l: "is_load ph"
    and z: "\<forall>x. in_seg ph x \<longrightarrow> x_scr st x = 0"
  shows "\<exists>st'. load_segment ino n ph st = Some (True, st') \<and> st' = st\<lparr>x_scr := x_scr st', x_scrperm := x_scrperm st'\<rparr> \<and>
    (\<forall>x. x_scr st' x = (if in_seg ph x then seg_byte (file_content ino (x_files st)) ph x else x_scr st x)) \<and>
    (\<forall>x. perm_at st' x = (if in_seg ph x then seg_perm ph else perm_at st x))"
proof -
  let ?va = "unat (p_va ph)" and ?ms = "unat (p_memsz ph)" and ?fz = "unat (p_filesz ph)" and ?of = "unat (p_offset ph)"
  let ?img = "file_content ino (x_files st)" and ?lo = "seg_lo ph" and ?hi = "seg_hi ph"
  have gd: "VM_USERLO \<le> ?va" "?va + ?ms \<le> VM_USERLO + EXEMAX" "?fz \<le> ?ms" "?of + ?fz \<le> n"
    using g l by (auto simp: seg_good_def)
  have n: "n \<le> FILE_MAXSIZE" using ok by (simp add: sz file_ok_def)
  have mx: "FILE_MAXSIZE < 2 ^ 63" by (simp add: FILE_MAXSIZE_def)
  note b = seg_bounds [OF g l]
  have v: "sint (p_va ph) = int ?va" "sint (p_va ph + p_memsz ph) = int (?va + ?ms)"
    "sint (p_offset ph) = int ?of" "sint (p_offset ph + p_filesz ph) = int (?of + ?fz)"
    using gd user_pages(2) n mx by (simp_all add: sint_small unat_sum del: of_nat_add)
  have len: "ROUNDUP (?va + ?ms) PAGESIZE - ROUNDDOWN ?va PAGESIZE = ?hi - ?lo" using b by (simp add: seg_lo_def seg_hi_def)
  define st1 where "st1 = scr_perm PWrite ?lo (?hi - ?lo) st"
  define bs where "bs = take ?fz (drop ?of ?img)"
  have bl: "length bs = ?fz" using gd(4) by (simp add: bs_def sz)
  have rd: "user_read (FILEDATA ino + ?of) ?fz (x_files st1) = Some bs"
    using user_read_file [OF ok, of ?fz ?of] gd(4) by (simp add: bs_def st1_def scr_perm_def sz)
  define st2 where "st2 = st1\<lparr>x_scr := (\<lambda>x. if ?va - VM_USERLO \<le> x \<and> x < ?va - VM_USERLO + length bs
      then bs ! (x - (?va - VM_USERLO)) else x_scr st1 x)\<rparr>"
  have p1: "perm_at st1 x = (if ?lo \<le> x \<and> x < ?hi then PWrite else perm_at st x)" for x
    unfolding st1_def by (rule perm_range [OF b(1,2,6)])
  have wr: "scr_store (?va - VM_USERLO) bs st1 = Some st2"
    unfolding scr_store_def st2_def using p1 b gd bl by auto
  define st3 where "st3 = (if p_flags ph AND ELF_PROG_FLAG_WRITE = 0 then scr_perm PRead ?lo (?hi - ?lo) st2 else st2)"
  note c = seg_tests [OF gd(1,2,4)]
  have run: "load_segment ino n ph st = Some (True, st3)"
    using l rd wr
    unfolding load_segment_def is_load_def Let_def v nat_int c if_False len seg_lo_def [symmetric] st1_def [symmetric]
    by (simp add: st3_def)
  have byte: "x_scr st3 x = (if in_seg ph x then seg_byte ?img ph x else x_scr st x)" for x
  proof -
    have "x_scr st3 x = x_scr st2 x" by (simp add: st3_def scr_perm_def)
    also have "\<dots> = (if in_seg ph x then seg_byte ?img ph x else x_scr st x)"
      using z b gd bl l by (auto simp: st2_def st1_def scr_perm_def in_seg_def seg_byte_def bs_def Let_def sz)
    finally show ?thesis .
  qed
  have "perm_at st3 x = (if in_seg ph x then seg_perm ph else perm_at st x)" for x
    using p1 l perm_range [OF b(1,2,6), of PRead st2 x] by (auto simp: st3_def st2_def seg_perm_def in_seg_def)
  moreover have "st3 = st\<lparr>x_scr := x_scr st3, x_scrperm := x_scrperm st3\<rparr>"
    by (simp add: st3_def st2_def st1_def scr_perm_def)
  ultimately show ?thesis using run byte by blast
qed

end
