(* ===== verification/ExecThms.thy ===== *)
theory ExecThms
  imports ExecProps FileThms
begin

text \<open>
  Whole images and \<open>execv\<close>: the loop over the program headers, the checks of the ELF header, and the program that runs afterwards.
\<close>

subsection \<open>All segments\<close>

definition apart2 :: "proghdr \<Rightarrow> proghdr \<Rightarrow> bool" where
  "apart2 p q \<longleftrightarrow> \<not> is_load p \<or> \<not> is_load q \<or> seg_hi p \<le> seg_lo q \<or> seg_hi q \<le> seg_lo p"

fun apart :: "proghdr list \<Rightarrow> bool" where
  "apart [] \<longleftrightarrow> True"
| "apart (p # ps) \<longleftrightarrow> list_all (apart2 p) ps \<and> apart ps"

lemma apart2_in_seg: "apart2 p q \<Longrightarrow> in_seg p x \<Longrightarrow> \<not> in_seg q x"
  by (auto simp: apart2_def in_seg_def)

lemma peek_bytes_cong: "x_files st' = x_files st \<Longrightarrow> x_own st' = x_own st \<Longrightarrow> peek_bytes a n st' = peek_bytes a n st"
  by (simp add: peek_bytes_def peek_byte_def cong: if_cong)

text \<open>One segment, loadable or not.\<close>

lemma load_segment_any:
  assumes ok: "file_ok ino (x_files st)" and sz: "n = fi_size (inode ino (x_files st))" and g: "seg_good n ph"
    and z: "\<forall>x. in_seg ph x \<longrightarrow> x_scr st x = 0"
  shows "\<exists>st'. load_segment ino n ph st = Some (True, st') \<and> st' = st\<lparr>x_scr := x_scr st', x_scrperm := x_scrperm st'\<rparr> \<and>
    (\<forall>x. x_scr st' x = (if in_seg ph x then seg_byte (file_content ino (x_files st)) ph x else x_scr st x)) \<and>
    (\<forall>x. perm_at st' x = (if in_seg ph x then seg_perm ph else perm_at st x))"
proof (cases "is_load ph")
  case True
  show ?thesis by (rule load_segment_ok [OF ok sz g True z])
next
  case False
  then show ?thesis by (intro exI [of _ st]) (simp add: load_segment_skip in_seg_def)
qed

lemma load_segments_ok:
  assumes "file_ok ino (x_files st)" and "n = fi_size (inode ino (x_files st))"
    and "\<forall>j < length phs. map_option proghdr_of (peek_bytes (a + j * sizeof_proghdr) sizeof_proghdr st) = Some (phs ! j)"
    and "\<forall>ph\<in>set phs. seg_good n ph" and "apart phs" and "\<forall>ph\<in>set phs. \<forall>x. in_seg ph x \<longrightarrow> x_scr st x = 0"
  shows "\<exists>st'. load_segments ino n (length phs) a st = Some (True, st') \<and>
    st' = st\<lparr>x_scr := x_scr st', x_scrperm := x_scrperm st'\<rparr> \<and>
    (\<forall>ph\<in>set phs. \<forall>x. in_seg ph x \<longrightarrow> x_scr st' x = seg_byte (file_content ino (x_files st)) ph x \<and> perm_at st' x = seg_perm ph) \<and>
    (\<forall>x. (\<forall>ph\<in>set phs. \<not> in_seg ph x) \<longrightarrow> x_scr st' x = x_scr st x \<and> perm_at st' x = perm_at st x)"
  using assms
proof (induction phs arbitrary: a st)
  case Nil
  show ?case by (intro exI [of _ st]) simp
next
  case (Cons ph phs)
  obtain hb where hb: "peek_bytes a sizeof_proghdr st = Some hb" "proghdr_of hb = ph"
    using Cons.prems(3) [rule_format, of 0] by auto
  obtain st1 where s1: "load_segment ino n ph st = Some (True, st1)"
    "st1 = st\<lparr>x_scr := x_scr st1, x_scrperm := x_scrperm st1\<rparr>"
    "\<And>x. x_scr st1 x = (if in_seg ph x then seg_byte (file_content ino (x_files st)) ph x else x_scr st x)"
    "\<And>x. perm_at st1 x = (if in_seg ph x then seg_perm ph else perm_at st x)"
    using load_segment_any [OF Cons.prems(1,2), of ph] Cons.prems(4,6) by auto
  have f: "x_files st1 = x_files st" "x_own st1 = x_own st" by (subst s1(2), simp)+
  have ap: "\<And>q x. q \<in> set phs \<Longrightarrow> in_seg ph x \<Longrightarrow> \<not> in_seg q x"
    using Cons.prems(5) by (auto simp: list_all_iff dest: apart2_in_seg)
  obtain st2 where s2: "load_segments ino n (length phs) (a + sizeof_proghdr) st1 = Some (True, st2)"
    "st2 = st1\<lparr>x_scr := x_scr st2, x_scrperm := x_scrperm st2\<rparr>"
    "\<forall>ph\<in>set phs. \<forall>x. in_seg ph x \<longrightarrow> x_scr st2 x = seg_byte (file_content ino (x_files st)) ph x \<and> perm_at st2 x = seg_perm ph"
    "\<forall>x. (\<forall>ph\<in>set phs. \<not> in_seg ph x) \<longrightarrow> x_scr st2 x = x_scr st1 x \<and> perm_at st2 x = perm_at st1 x"
  proof -
    have "map_option proghdr_of (peek_bytes (a + sizeof_proghdr + j * sizeof_proghdr) sizeof_proghdr st1) = Some (phs ! j)"
      if "j < length phs" for j
      using Cons.prems(3) [rule_format, of "Suc j"] that peek_bytes_cong [OF f] by (simp add: ac_simps)
    moreover have "\<forall>q\<in>set phs. \<forall>x. in_seg q x \<longrightarrow> x_scr st1 x = 0" using Cons.prems(6) ap s1(3) by auto
    ultimately show thesis using Cons.IH [of st1 "a + sizeof_proghdr"] that Cons.prems by (auto simp: f)
  qed
  have "load_segments ino n (length (ph # phs)) a st = Some (True, st2)" using hb s1(1) s2(1) by simp
  moreover have "st2 = st\<lparr>x_scr := x_scr st2, x_scrperm := x_scrperm st2\<rparr>" by (subst s2(2)) (subst s1(2), simp)
  ultimately show ?case using s2(3,4) s1(3,4) ap by (intro exI [of _ st2]) auto
qed

subsection \<open>The image\<close>

definition phdrs :: "u8 list \<Rightarrow> proghdr list" where
  "phdrs img = map (\<lambda>j. proghdr_of (take sizeof_proghdr (drop (unat (e_phoff (elfhdr_of img)) + j * sizeof_proghdr) img)))
     [0..<unat (e_phnum (elfhdr_of img))]"

text \<open>A well-formed executable for a program that starts at \<open>start\<close>.\<close>

definition wf_elf :: "u64 \<Rightarrow> u8 list \<Rightarrow> bool" where
  "wf_elf start img \<longleftrightarrow> sizeof_elfhdr \<le> length img \<and> e_magic (elfhdr_of img) = ELF_MAGIC \<and> e_entry (elfhdr_of img) = start \<and>
     unat (e_phoff (elfhdr_of img)) + unat (e_phnum (elfhdr_of img)) * sizeof_proghdr \<le> length img \<and>
     list_all (seg_good (length img)) (phdrs img) \<and> apart (phdrs img)"

lemma elfhdr_take: "elfhdr_of (take sizeof_elfhdr img) = elfhdr_of img"
  by (simp add: elfhdr_of_def fld_def sizeof_elfhdr_def drop_take min_def)

lemma file_area:
  assumes "file_ok ino fs" and "i < fi_size (inode ino fs)"
  shows "VM_FILELO + FILE_MAXSIZE \<le> VM_FILELO + FILEDATA ino + i"
    and "VM_FILELO + FILEDATA ino + i < VM_FILELO + FILE_INODES * FILE_MAXSIZE"
proof -
  have "0 < ino" "ino < int FILE_INODES" "fi_size (inode ino fs) \<le> FILE_MAXSIZE" using assms(1) by (auto simp: file_ok_def fileino_defs)
  moreover from this have "1 \<le> nat ino" "nat ino + 1 \<le> FILE_INODES" by linarith+
  ultimately show "VM_FILELO + FILE_MAXSIZE \<le> VM_FILELO + FILEDATA ino + i"
    "VM_FILELO + FILEDATA ino + i < VM_FILELO + FILE_INODES * FILE_MAXSIZE"
    using assms(2) by (auto simp: FILEDATA_def FILE_MAXSIZE_def FILE_INODES_def OPEN_MAX_def)
qed

lemma those_map_Some: "those (map (\<lambda>i. Some (f i)) xs) = Some (map f xs)"
  by (induction xs) auto

lemma load_file_bytes:
  assumes ok: "file_ok ino (x_files st)" and "off + k \<le> fi_size (inode ino (x_files st))"
  shows "peek_bytes (VM_FILELO + FILEDATA ino + off) k st = Some (take k (drop off (file_content ino (x_files st))))"
proof -
  have "peek_byte st (VM_FILELO + FILEDATA ino + off + i) = Some (file_content ino (x_files st) ! (off + i))" if "i < k" for i
    using file_area [OF ok, of "off + i"] file_ok_access [OF ok, of "off + i"] that assms(2)
    by (simp add: peek_byte_def file_content_def add.assoc)
  then have "peek_bytes (VM_FILELO + FILEDATA ino + off) k st =
      those (map (\<lambda>i. Some (file_content ino (x_files st) ! (off + i))) [0..<k])"
    unfolding peek_bytes_def by (intro arg_cong [where f = those]) simp
  also have "\<dots> = Some (take k (drop off (file_content ino (x_files st))))"
    unfolding those_map_Some using assms(2) by (auto intro!: nth_equalityI)
  finally show ?thesis .
qed

lemma image_pointers:
  fixes off k :: nat
  assumes "file_ok ino fs" and le: "off + k \<le> FILE_MAXSIZE"
  defines "b \<equiv> VM_FILELO + FILEDATA ino"
  shows "(b + off) mod 2 ^ 64 = b + off" "(b + off + k) mod 2 ^ 64 = b + off + k"
    "(int (b + off + k) - int b) mod 2 ^ 64 = int (off + k)"
proof -
  have "nat ino < FILE_INODES" using assms(1) by (auto simp: file_ok_def fileino_defs)
  then have "b + off + k < 2 ^ 64"
    using le by (simp add: b_def FILEDATA_def VM_FILELO_def FILE_INODES_def OPEN_MAX_def FILE_MAXSIZE_def)
  moreover have "off + k < 2 ^ 64" using le by (simp add: FILE_MAXSIZE_def)
  ultimately show "(b + off) mod 2 ^ 64 = b + off" "(b + off + k) mod 2 ^ 64 = b + off + k"
    "(int (b + off + k) - int b) mod 2 ^ 64 = int (off + k)" by auto
qed

text \<open>The effect of loading on child 0.\<close>

definition image_in :: "u8 list \<Rightarrow> bytes \<Rightarrow> (nat \<Rightarrow> perm) \<Rightarrow> bool" where
  "image_in img m p \<longleftrightarrow>
     (\<forall>ph\<in>set (phdrs img). \<forall>x. in_seg ph x \<longrightarrow>
        m (VM_USERLO + x) = seg_byte img ph x \<and> p ((VM_USERLO + x) div PAGESIZE) = seg_perm ph) \<and>
     (\<forall>x < EXEMAX. (\<forall>ph\<in>set (phdrs img). \<not> in_seg ph x) \<longrightarrow>
        m (VM_USERLO + x) = 0 \<and> p ((VM_USERLO + x) div PAGESIZE) = PNone)"

lemma seg_hi_le:
  assumes "seg_good n ph" and "is_load ph"
  shows "seg_hi ph \<le> EXEMAX"
proof -
  have "unat (p_va ph) + unat (p_memsz ph) \<le> VM_USERLO + EXEMAX" using assms by (simp add: seg_good_def)
  from ROUNDUP_mono [OF this, of PAGESIZE] show ?thesis
    by (simp add: seg_hi_def) (simp add: ROUNDUP_def ROUNDDOWN_def VM_USERLO_def EXEMAX_def PAGESIZE_def)
qed

lemma child_image:
  assumes "x < EXEMAX"
  shows "x_child (put_copy VM_USERLO EXEMAX st) (VM_USERLO + x) = x_scr st x"
    "x_cperm (put_copy VM_USERLO EXEMAX st) ((VM_USERLO + x) div PAGESIZE) = perm_at st x"
proof -
  obtain k where k: "VM_USERLO = k * PAGESIZE" using user_pages(1) by (metis dvd_def mult.commute)
  have "x div PAGESIZE * PAGESIZE < EXEMAX" by (rule le_less_trans [OF _ assms]) simp
  then have "in_pages VM_USERLO EXEMAX ((VM_USERLO + x) div PAGESIZE)"
    using PAGESIZE_gt0 by (simp add: in_pages_def k algebra_simps)
  then show "x_cperm (put_copy VM_USERLO EXEMAX st) ((VM_USERLO + x) div PAGESIZE) = perm_at st x"
    using PAGESIZE_gt0 by (simp add: put_copy_def copy_perm_def k)
  show "x_child (put_copy VM_USERLO EXEMAX st) (VM_USERLO + x) = x_scr st x"
    using assms by (simp add: put_copy_def copy_mem_def)
qed

lemma load_image_ok:
  assumes ok: "file_ok ino (x_files st)" and wf: "wf_elf start (file_content ino (x_files st))"
    and z: "\<forall>x < EXEMAX. x_scr st x = 0 \<and> perm_at st x = PNone"
  shows "\<exists>st'. load_image start ino (fi_size (inode ino (x_files st))) st = Some (True, st') \<and> x_files st' = x_files st \<and>
    x_cfiles st' = x_cfiles st \<and> image_in (file_content ino (x_files st)) (x_child st') (x_cperm st')"
proof -
  let ?img = "file_content ino (x_files st)" and ?n = "fi_size (inode ino (x_files st))" and ?b = "VM_FILELO + FILEDATA ino"
  let ?eh = "elfhdr_of ?img"
  let ?off = "unat (e_phoff ?eh)" and ?k = "unat (e_phnum ?eh)" and ?phs = "phdrs ?img"
  have w: "sizeof_elfhdr \<le> ?n" "e_magic ?eh = ELF_MAGIC" "e_entry ?eh = start" "?off + ?k * sizeof_proghdr \<le> ?n"
    "\<forall>ph\<in>set ?phs. seg_good ?n ph" "apart ?phs"
    using wf by (auto simp: wf_elf_def list_all_iff)
  have mx: "?n \<le> FILE_MAXSIZE" using ok by (simp add: file_ok_def)
  have hd: "user_read (FILEDATA ino) sizeof_elfhdr (x_files st) = Some (take sizeof_elfhdr ?img)"
    using user_read_file [OF ok, of sizeof_elfhdr 0] w(1) by simp
  have le: "?off + ?k * sizeof_proghdr \<le> FILE_MAXSIZE" using w(4) mx by linarith
  note p = image_pointers [OF ok le]
  have c: "(int ?n < int (?off + ?k * sizeof_proghdr)) = False" using w(4) by (simp only: of_nat_less_iff not_less simp_thms)
  have runs: "(if ?b + ?off < ?b + ?off + ?k * sizeof_proghdr then ?k else 0) = ?k"
    by (cases "?k = 0") (simp_all add: sizeof_proghdr_def)
  have hdrs: "map_option proghdr_of (peek_bytes (?b + ?off + j * sizeof_proghdr) sizeof_proghdr st) = Some (?phs ! j)" if "j < ?k" for j
  proof -
    have "Suc j * sizeof_proghdr \<le> ?k * sizeof_proghdr" using that by (intro mult_le_mono1) simp
    then have "?off + j * sizeof_proghdr + sizeof_proghdr \<le> ?n" using w(4) by simp
    from load_file_bytes [OF ok this] that show ?thesis by (simp add: phdrs_def add.assoc)
  qed
  have len: "length ?phs = ?k" by (simp add: phdrs_def)
  have zs: "\<forall>ph\<in>set ?phs. \<forall>x. in_seg ph x \<longrightarrow> x_scr st x = 0"
    using w(5) seg_hi_le z by (auto simp: in_seg_def) (meson less_le_trans)
  obtain st1 where s: "load_segments ino ?n ?k (?b + ?off) st = Some (True, st1)"
    "st1 = st\<lparr>x_scr := x_scr st1, x_scrperm := x_scrperm st1\<rparr>"
    "\<forall>ph\<in>set ?phs. \<forall>x. in_seg ph x \<longrightarrow> x_scr st1 x = seg_byte ?img ph x \<and> perm_at st1 x = seg_perm ph"
    "\<forall>x. (\<forall>ph\<in>set ?phs. \<not> in_seg ph x) \<longrightarrow> x_scr st1 x = x_scr st x \<and> perm_at st1 x = perm_at st x"
    using load_segments_ok [OF ok refl _ w(5,6) zs, of "?b + ?off"] hdrs unfolding len by blast
  have "load_image start ino ?n st = Some (True, put_copy VM_USERLO EXEMAX st1)"
    using w(1-3) unfolding load_image_def Let_def hd Option.bind.bind_lunit elfhdr_take p c runs s(1) by simp
  moreover have "image_in ?img (x_child (put_copy VM_USERLO EXEMAX st1)) (x_cperm (put_copy VM_USERLO EXEMAX st1))"
  proof -
    have "x < EXEMAX" if "ph \<in> set ?phs" "in_seg ph x" for ph x using that w(5) seg_hi_le by (auto simp: in_seg_def) (meson less_le_trans)
    then show ?thesis using s(3,4) z by (auto simp: image_in_def child_image)
  qed
  moreover have "x_files st1 = x_files st" "x_cfiles st1 = x_cfiles st" by (subst s(2), simp)+
  ultimately show ?thesis by (intro exI [of _ "put_copy VM_USERLO EXEMAX st1"]) (auto simp: put_copy_def)
qed

subsection \<open>Running the new program\<close>

lemma exec_readelf_ok:
  assumes op: "filedesc_open None path O_RDONLY 0 (x_files st) = Some (Some d, fs)" and ino: "ino = fd_ino (fs_fd fs d)"
    and d: "d < OPEN_MAX" and ok: "file_ok ino fs" and wf: "wf_elf start (file_content ino fs)"
  shows "\<exists>st'. exec_readelf start path st = Some (0, st') \<and> x_files st' = upd_fd d (\<lambda>x. x\<lparr>fd_ino := FILEINO_NULL\<rparr>) fs \<and>
    x_cfiles st' = x_cfiles st \<and> image_in (file_content ino fs) (x_child st') (x_cperm st')"
proof -
  let ?st1 = "(scr_zero EXEMAX st)\<lparr>x_files := fs\<rparr>"
  have z: "x_scr ?st1 x = 0 \<and> perm_at ?st1 x = PNone" if "x < EXEMAX" for x
  proof -
    have "x div PAGESIZE * PAGESIZE < EXEMAX" by (rule le_less_trans [OF _ that]) simp
    then show ?thesis using that by (simp add: scr_zero_def in_pages_def)
  qed
  obtain st2 where s: "load_image start ino (fi_size (inode ino fs)) ?st1 = Some (True, st2)" "x_files st2 = fs"
    "x_cfiles st2 = x_cfiles st" "image_in (file_content ino fs) (x_child st2) (x_cperm st2)"
    using load_image_ok [of ino ?st1 start] ok wf z by (auto simp: scr_zero_def)
  have "fileino_isvalid ino" using ok by (simp add: file_ok_def fileino_defs)
  then have "filedesc_close d fs = Some (upd_fd d (\<lambda>x. x\<lparr>fd_ino := FILEINO_NULL\<rparr>) fs)"
    using d ino by (auto simp: filedesc_close_def filedesc_isopen_def fileino_isvalid_def FILEINO_NULL_def)
  then have "exec_readelf start path st = Some (0, st2\<lparr>x_files := upd_fd d (\<lambda>x. x\<lparr>fd_ino := FILEINO_NULL\<rparr>) fs\<rparr>)"
    using op s(1,2) ino by (simp add: exec_readelf_def Let_def scr_zero_def)
  then show ?thesis using s by auto
qed

lemma image_below_stack:
  assumes "image_in img m p" and "\<forall>ph\<in>set (phdrs img). seg_good n ph"
    and "\<forall>a < stack_base. m' a = m a" and "\<forall>pg. pg * PAGESIZE < stack_base \<longrightarrow> p' pg = p pg"
  shows "image_in img m' p'"
proof -
  have lo: "VM_USERLO + x < stack_base" if "x < EXEMAX" for x
    using that by (simp add: stack_base_def VM_USERLO_def EXEMAX_def VM_STACKHI_def PTSIZE_def)
  have "(VM_USERLO + x) div PAGESIZE * PAGESIZE < stack_base" if "x < EXEMAX" for x by (rule le_less_trans [OF _ lo [OF that]]) simp
  moreover have "x < EXEMAX" if "ph \<in> set (phdrs img)" "in_seg ph x" for ph x
    using that assms(2) seg_hi_le by (auto simp: in_seg_def) (meson less_le_trans)
  ultimately show ?thesis using assms lo by (simp add: image_in_def)
qed

lemma stack_not_round: "stack_base \<le> esp \<Longrightarrow> esp + 16 < VM_STACKHI \<Longrightarrow> int esp mod 2 ^ 32 \<noteq> 0"
proof
  assume b: "stack_base \<le> esp" "esp + 16 < VM_STACKHI" and "int esp mod 2 ^ 32 = 0"
  then have "2 ^ 32 dvd esp" using zmod_int [of esp "2 ^ 32"] by (simp add: dvd_eq_mod_eq_0)
  moreover have "2 ^ 32 dvd VM_STACKHI" by (simp add: VM_STACKHI_def)
  ultimately have "2 ^ 32 dvd VM_STACKHI - esp" by (rule dvd_diff_nat [rotated])
  from dvd_imp_le [OF this] b show False by (simp add: stack_base_def VM_STACKHI_def PTSIZE_def)
qed

text \<open>C14: \<open>execv\<close> of a well-formed executable, with arguments that fit on the 2 MB stack, never returns: it starts a program
  whose memory holds every loadable segment of the image at its address, with its file data followed by zeros and with its
  permissions, and nothing else below the stack; whose \<open>main\<close> gets the number of arguments and an array of exactly the
  argument strings, ended by a null pointer; and whose files are the caller's, with the image closed again.\<close>

theorem execv_starts_program:
  assumes "filedesc_open None path O_RDONLY 0 (x_files st) = Some (Some d, fs)" and "ino = fd_ino (fs_fd fs d)"
    and "d < OPEN_MAX" and "file_ok ino fs" and "wf_elf start (file_content ino fs)"
    and "args_size argv + 8 * (length argv + 1) + 24 \<le> PTSIZE" and "\<forall>s\<in>set argv. 0 \<notin> set s"
  shows "\<exists>p a. execv start path argv st = Some (Inr p) \<and> image_in (file_content ino fs) (pr_mem p) (pr_perm p) \<and>
    main_args p = (length argv, a) \<and> args_passed (pr_mem p) a argv \<and>
    pr_files p = Some (upd_fd d (\<lambda>x. x\<lparr>fd_ino := FILEINO_NULL\<rparr>) fs)"
proof -
  let ?st0 = "st\<lparr>x_child := (\<lambda>_. 0), x_cperm := (\<lambda>_. PNone), x_cfiles := None\<rparr>"
  have op: "filedesc_open None path O_RDONLY 0 (x_files ?st0) = Some (Some d, fs)" using assms(1) by simp
  obtain st1 where r: "exec_readelf start path ?st0 = Some (0, st1)"
    "x_files st1 = upd_fd d (\<lambda>x. x\<lparr>fd_ino := FILEINO_NULL\<rparr>) fs" "image_in (file_content ino fs) (x_child st1) (x_cperm st1)"
    using exec_readelf_ok [OF op assms(2-5)] by blast
  obtain esp st2 where c: "exec_copyargs argv st1 = Some (int esp, st2)" "stack_base \<le> esp" "esp + 16 < VM_STACKHI"
    "word_at (x_child st2) esp = length argv" "args_passed (x_child st2) (word_at (x_child st2) (esp + 8)) argv"
    "\<forall>a < stack_base. x_child st2 a = x_child st1 a" "\<forall>pg. pg * PAGESIZE < stack_base \<longrightarrow> x_cperm st2 pg = x_cperm st1 pg"
    "x_files st2 = x_files st1"
    using exec_copyargs_ok [OF assms(6,7), of st1] by blast
  let ?p = "exec_start (int esp) (st2\<lparr>x_cfiles := Some (x_files st2)\<rparr>)"
  have "execv start path argv st = Some (Inr ?p)" using r(1) c(1) by (simp add: execv_def Let_def)
  moreover have "\<forall>ph\<in>set (phdrs (file_content ino fs)). seg_good (length (file_content ino fs)) ph"
    using assms(5) by (simp add: wf_elf_def list_all_iff)
  then have "image_in (file_content ino fs) (x_child st2) (x_cperm st2)" by (rule image_below_stack [OF r(3) _ c(6,7)])
  moreover have "main_args ?p = (length argv, word_at (x_child st2) (esp + 8))"
    using stack_not_round [OF c(2,3)] c(4) by (simp add: main_args_def exec_start_def)
  ultimately show ?thesis using c(5,8) r(2) by (auto simp: exec_start_def)
qed

text \<open>A program with one read-only segment of four bytes of data.\<close>

definition demo_img :: "u8 list" where
  "demo_img = [0x7f, 0x45, 0x4c, 0x46] @ replicate 20 0 @ [0, 0, 0, 0x40] @ replicate 4 0 @ [64] @ replicate 23 0 @
     [1] @ replicate 7 0 @ [1, 0, 0, 0, 4, 0, 0, 0, 120] @ replicate 7 0 @ [0, 0, 0, 0x40] @ replicate 12 0 @
     [4] @ replicate 7 0 @ [16] @ replicate 15 0 @ [1, 2, 3, 4]"

definition demo_prog :: filestate where
  "demo_prog = upd_fi 4 (\<lambda>n. n\<lparr>fi_size := 124\<rparr>) (demo_files\<lparr>fs_mem := (\<lambda>a. demo_img ! (a - FILEDATA 4))\<rparr>)"

definition demo_exec :: execst where
  "demo_exec = \<lparr>x_files = demo_prog, x_own = (\<lambda>_. None), x_scr = (\<lambda>_. 0), x_scrperm = (\<lambda>_. PNone), x_child = (\<lambda>_. 0),
     x_cperm = (\<lambda>_. PNone), x_cfiles = None\<rparr>"

lemma demo_img_hdr: "elfhdr_of demo_img = \<lparr>e_magic = ELF_MAGIC, e_entry = 0x40000000, e_phoff = 64, e_phnum = 1\<rparr>"
  by code_simp

lemma demo_img_phdrs: "phdrs demo_img = [\<lparr>p_type = 1, p_flags = 4, p_offset = 120, p_va = 0x40000000, p_filesz = 4, p_memsz = 16\<rparr>]"
  by code_simp

lemma demo_img_length: "length demo_img = 124" by (simp add: demo_img_def)

lemma demo_img_wf: "wf_elf 0x40000000 demo_img"
  by (simp add: wf_elf_def demo_img_hdr demo_img_phdrs demo_img_length sizeof_elfhdr_def sizeof_proghdr_def seg_good_def VM_USERLO_def EXEMAX_def)

lemma demo_prog_inode: "inode 4 demo_prog = (inode 4 demo_files)\<lparr>fi_size := 124\<rparr>"
  by (simp add: demo_prog_def) (simp add: inode_def)

lemma demo_prog_content: "file_content 4 demo_prog = demo_img"
  by (rule nth_equalityI) (simp_all add: file_content_def demo_prog_inode demo_img_length demo_prog_def)

lemma demo_prog_ok: "file_ok 4 demo_prog"
  by (simp add: file_ok_def fileino_defs demo_prog_inode demo_inode ROUNDUP_def ROUNDDOWN_def FILE_INODES_def OPEN_MAX_def
      FILE_MAXSIZE_def S_ISREG_def S_IFMT_def S_IFREG_def)
    (simp add: PAGESIZE_def demo_page [unfolded PAGESIZE_def] demo_prog_def demo_files_def)

lemma demo_prog_open: "filedesc_open None ''log'' O_RDONLY 0 demo_prog =
    Some (Some 1, upd_fd 1 (\<lambda>_. \<lparr>fd_ino = 4, fd_flags = O_RDONLY, fd_ofs = 0, fd_err = 0\<rparr>) demo_prog)"
proof -
  have m: "dir_match 3 ''log'' demo_prog i \<longleftrightarrow> i = 4" for i
    by (auto simp: dir_match_def fileino_defs inode_def demo_prog_def upd_fi_def demo_files_def FILE_INODES_def OPEN_MAX_def Let_def
        slash_def)
  have "List.find (dir_match 3 ''log'' demo_prog) [1..<FILE_INODES] = Some 4"
    by (simp add: m upt_conv_Cons FILE_INODES_def OPEN_MAX_def del: upt_rec_numeral)
  then have "dir_search 3 ''log'' demo_prog = Some (4, 3)"
    by (simp add: dir_search_def) (simp add: demo_prog_def upd_fi_def demo_files_def)
  moreover have dir: "fileino_isdir 3 demo_prog" "fi_dino (inode 3 demo_prog) = 3"
    by (simp_all add: fileino_defs inode_def demo_prog_def upd_fi_def demo_files_def FILE_INODES_def OPEN_MAX_def S_ISDIR_def
        S_IFMT_def S_IFDIR_def)
  moreover have ex: "fileino_exists 4 demo_prog"
    by (simp add: fileino_defs demo_prog_inode demo_inode FILE_INODES_def OPEN_MAX_def S_IFREG_def)
  ultimately have "walk_from 3 ''log'' 0 demo_prog = Some (4, demo_prog)"
    by (simp add: walk_from.simps [of 3] dir_final_def)
  moreover have "fs_cwd demo_prog = 3" by (simp add: demo_prog_def upd_fi_def demo_files_def)
  ultimately have w: "dir_walk ''log'' 0 demo_prog = Some (4, demo_prog)" by (simp add: dir_walk_def slash_def)
  have fd: "fs_fd demo_prog = fs_fd demo_files" by (simp add: demo_prog_def upd_fi_def)
  have a: "filedesc_alloc demo_prog = (Some 1, demo_prog)"
    by (simp add: filedesc_alloc_def fd demo_files_def upt_conv_Cons OPEN_MAX_def FILEINO_NULL_def del: upt_rec_numeral)
  have "fs_fd demo_prog 1 = \<lparr>fd_ino = 0, fd_flags = 0, fd_ofs = 0, fd_err = 0\<rparr>" by (simp add: fd demo_files_def)
  then show ?thesis using ex
    by (simp add: filedesc_open_def a open_at_def Let_def w demo_prog_inode demo_inode flagged_def O_RDONLY_def O_CREAT_def O_TRUNC_def
        O_APPEND_def S_IFCONF_def S_IFREG_def filedesc_isopen_def OPEN_MAX_def FILEINO_NULL_def)
      (simp add: upd_fd_def)
qed

theorem execv_starts_program_witness:
  "\<exists>p a. execv 0x40000000 ''log'' [[104, 105]] demo_exec = Some (Inr p) \<and> main_args p = (1, a) \<and> args_passed (pr_mem p) a [[104, 105]]"
proof -
  let ?fs = "upd_fd 1 (\<lambda>_. \<lparr>fd_ino = 4, fd_flags = O_RDONLY, fd_ofs = 0, fd_err = 0\<rparr>) demo_prog"
  have "filedesc_open None ''log'' O_RDONLY 0 (x_files demo_exec) = Some (Some 1, ?fs)"
    using demo_prog_open by (simp add: demo_exec_def)
  moreover have "file_ok 4 ?fs" using demo_prog_ok by simp
  moreover have "wf_elf 0x40000000 (file_content 4 ?fs)" using demo_img_wf by (simp add: demo_prog_content)
  ultimately show ?thesis
    using execv_starts_program [of "''log''" demo_exec 1 ?fs 4 "0x40000000" "[[104, 105]]"]
    by (auto simp: OPEN_MAX_def PTSIZE_def args_size_def)
qed

subsection \<open>Images that are not rejected\<close>

text \<open>The size of the header table is checked as a 64-bit difference of pointers. A table that starts before the image, by exactly
  its own size, ends at the image and passes; the caller then reads the memory in front of the image and is stopped there if nothing
  is mapped, instead of getting an error.\<close>

lemma header_table_before_image:
  assumes ok: "file_ok ino (x_files st)" and hd: "user_read (FILEDATA ino) sizeof_elfhdr (x_files st) = Some hb"
    and eh: "e_magic (elfhdr_of hb) = ELF_MAGIC" "e_phoff (elfhdr_of hb) = - 56" "e_phnum (elfhdr_of hb) = 1"
    and sz: "sizeof_elfhdr \<le> n" and none: "peek_bytes (VM_FILELO + FILEDATA ino - 56) sizeof_proghdr st = None"
  shows "load_image start ino n st = None"
proof -
  have "nat ino < FILE_INODES" using ok by (auto simp: file_ok_def fileino_defs)
  then have b: "VM_FILELO + FILEDATA ino < 2 ^ 63" "56 \<le> VM_FILELO + FILEDATA ino"
    by (simp_all add: FILEDATA_def VM_FILELO_def FILE_INODES_def OPEN_MAX_def)
  have "unat (- 56 :: u64) = 2 ^ 64 - 56" by simp
  then have ph: "(VM_FILELO + FILEDATA ino + unat (- 56 :: u64)) mod 2 ^ 64 = VM_FILELO + FILEDATA ino - 56"
    using b by (simp add: mod_if)
  show ?thesis
    using b sz none unfolding load_image_def Let_def hd Option.bind.bind_lunit eh ph
    by (simp add: sizeof_proghdr_def)
qed

text \<open>A segment with more file data than memory is not rejected either: the copy runs past the pages that were made writable.\<close>

lemma segment_overruns:
  assumes ok: "file_ok ino (x_files st)" and n: "n = fi_size (inode ino (x_files st))" and l: "is_load ph"
    and va: "VM_USERLO \<le> unat (p_va ph)" "unat (p_va ph) + unat (p_memsz ph) \<le> VM_USERLO + EXEMAX"
    and off: "unat (p_offset ph) + unat (p_filesz ph) \<le> n"
    and over: "seg_hi ph < unat (p_va ph) - VM_USERLO + unat (p_filesz ph)" and unmapped: "perm_at st (seg_hi ph) \<noteq> PWrite"
  shows "load_segment ino n ph st = None"
proof -
  let ?va = "unat (p_va ph)" and ?ms = "unat (p_memsz ph)" and ?fz = "unat (p_filesz ph)" and ?of = "unat (p_offset ph)"
  have mx: "n \<le> FILE_MAXSIZE" "FILE_MAXSIZE < 2 ^ 63" using ok by (simp_all add: n file_ok_def FILE_MAXSIZE_def)
  define q where "q = ph\<lparr>p_filesz := 0\<rparr>"
  have "seg_good n q" "is_load q" using l va off by (auto simp: q_def seg_good_def is_load_def)
  from seg_bounds [OF this] have b: "PAGESIZE dvd seg_lo ph" "PAGESIZE dvd seg_hi ph" "seg_lo ph \<le> seg_hi ph"
    "?va - VM_USERLO + ?ms \<le> seg_hi ph" "VM_USERLO \<le> ROUNDDOWN ?va PAGESIZE"
    by (simp_all add: q_def seg_lo_def seg_hi_def)
  have v: "sint (p_va ph) = int ?va" "sint (p_va ph + p_memsz ph) = int (?va + ?ms)"
    "sint (p_offset ph) = int ?of" "sint (p_offset ph + p_filesz ph) = int (?of + ?fz)"
    using va off user_pages(2) mx by (simp_all add: sint_small unat_sum del: of_nat_add)
  note c = seg_tests [OF va off]
  have len: "ROUNDUP (?va + ?ms) PAGESIZE - ROUNDDOWN ?va PAGESIZE = seg_hi ph - seg_lo ph" using b by (simp add: seg_lo_def seg_hi_def)
  define st1 where "st1 = scr_perm PWrite (seg_lo ph) (seg_hi ph - seg_lo ph) st"
  have rd: "user_read (FILEDATA ino + ?of) ?fz (x_files st1) = Some (take ?fz (drop ?of (file_content ino (x_files st))))"
    using user_read_file [OF ok, of ?fz ?of] off by (simp add: st1_def scr_perm_def n)
  have "perm_at st1 (seg_hi ph) \<noteq> PWrite" unfolding st1_def perm_range [OF b(1-3)] using unmapped by simp
  moreover obtain i where "i < ?fz" "?va - VM_USERLO + i = seg_hi ph" using over b(4) by (metis add_leD1 le_add_diff_inverse nat_add_left_cancel_less)
  ultimately have "scr_store (?va - VM_USERLO) (take ?fz (drop ?of (file_content ino (x_files st)))) st1 = None"
    using off n by (auto simp: scr_store_def intro!: bexI [of _ i])
  then show ?thesis
    using l rd unfolding load_segment_def is_load_def Let_def v nat_int c if_False len seg_lo_def [symmetric] st1_def [symmetric] by simp
qed

end
