(* ===== verification/Video.thy ===== *)
theory Video
  imports Prelude
begin

text \<open>
  The text display with its scrollback (\<open>dev/video.c\<close>). The screen is the memory-mapped array \<open>crt_buf\<close> of 25 rows of 80 cells; rows
  that scroll off go to the circular buffer \<open>crtsave_buf\<close> of 1024 rows, from which earlier screens are shown on demand. The
  cursor position that the controller was last told is in \<open>crt_cursor\<close>.
\<close>

definition CRT_ROWS :: nat where "CRT_ROWS = 25"
definition CRT_COLS :: nat where "CRT_COLS = 80"
definition CRT_SIZE :: nat where "CRT_SIZE = CRT_ROWS * CRT_COLS"
definition CRT_SAVEROWS :: nat where "CRT_SAVEROWS = 1024"

record video =
  crt_buf :: "nat \<Rightarrow> u16"
  crt_pos :: nat
  crt_cursor :: nat
  crtsave_buf :: "nat \<Rightarrow> u16"
  crtsave_pos :: nat
  crtsave_backscroll :: nat
  crtsave_size :: nat

text \<open>The screen and cursor found at boot.\<close>

definition video_init :: "(nat \<Rightarrow> u16) \<Rightarrow> u8 \<Rightarrow> u8 \<Rightarrow> video" where
  "video_init screen hi lo = \<lparr>crt_buf = screen, crt_pos = unat hi * 256 + unat lo, crt_cursor = unat hi * 256 + unat lo,
     crtsave_buf = (\<lambda>_. 0), crtsave_pos = 0, crtsave_backscroll = 0, crtsave_size = 0\<rparr>"

text \<open>\<open>memmove\<close> of \<open>n\<close> cells.\<close>

definition move16 :: "nat \<Rightarrow> nat \<Rightarrow> nat \<Rightarrow> (nat \<Rightarrow> u16) \<Rightarrow> (nat \<Rightarrow> u16) \<Rightarrow> nat \<Rightarrow> u16" where
  "move16 to from n src dst = (\<lambda>x. if to \<le> x \<and> x < to + n then src (from + (x - to)) else dst x)"

definition video_savebuf_copy :: "nat \<Rightarrow> bool \<Rightarrow> video \<Rightarrow> video" where
  "video_savebuf_copy first_line to_screen v =
     (let pos = first_line mod CRT_SAVEROWS * CRT_COLS;
          end' = pos + CRT_ROWS * CRT_COLS;
          trueend = min end' (CRT_SAVEROWS * CRT_COLS);
          v1 = (if to_screen then v\<lparr>crt_buf := move16 0 pos (trueend - pos) (crtsave_buf v) (crt_buf v)\<rparr>
                else v\<lparr>crtsave_buf := move16 pos 0 (trueend - pos) (crt_buf v) (crtsave_buf v)\<rparr>)
      in if end' = trueend then v1
         else if to_screen
         then v1\<lparr>crt_buf := move16 (trueend - pos) 0 (end' - trueend) (crtsave_buf v1) (crt_buf v1)\<rparr>
         else v1\<lparr>crtsave_buf := move16 0 (trueend - pos) (end' - trueend) (crt_buf v1) (crtsave_buf v1)\<rparr>)"

subsection \<open>Printing\<close>

definition video_unscroll :: "video \<Rightarrow> video" where
  "video_unscroll v =
     (if 0 < crtsave_backscroll v
      then (video_savebuf_copy (crtsave_pos v + crtsave_size v) True v)\<lparr>crtsave_backscroll := 0\<rparr> else v)"

text \<open>The \<open>switch\<close> on a character other than a tab.\<close>

definition video_char :: "u32 \<Rightarrow> video \<Rightarrow> video" where
  "video_char c v =
     (if c AND 0xff = 8
      then if 0 < crt_pos v
        then v\<lparr>crt_pos := crt_pos v - 1, crt_buf := (crt_buf v)(crt_pos v - 1 := ucast ((c AND NOT 0xff) OR 32))\<rparr> else v
      else if c AND 0xff = 10
      then let p = (crt_pos v + CRT_COLS) mod 2 ^ 16 in v\<lparr>crt_pos := p - p mod CRT_COLS\<rparr>
      else if c AND 0xff = 13 then v\<lparr>crt_pos := crt_pos v - crt_pos v mod CRT_COLS\<rparr>
      else v\<lparr>crt_buf := (crt_buf v)(crt_pos v := ucast c), crt_pos := (crt_pos v + 1) mod 2 ^ 16\<rparr>)"

text \<open>Scrolling when the cursor leaves the screen.\<close>

definition save_row :: "video \<Rightarrow> video" where
  "save_row v =
     (let v1 = (if crtsave_size v = CRT_SAVEROWS - CRT_ROWS
                then v\<lparr>crtsave_pos := (crtsave_pos v + 1) mod CRT_SAVEROWS\<rparr>
                else v\<lparr>crtsave_size := crtsave_size v + 1\<rparr>)
      in v1\<lparr>crtsave_buf := move16 ((crtsave_pos v1 + crtsave_size v1 - 1) mod CRT_SAVEROWS * CRT_COLS) 0 CRT_COLS
             (crt_buf v1) (crtsave_buf v1)\<rparr>)"

definition video_feed :: "video \<Rightarrow> video" where
  "video_feed v =
     (if CRT_SIZE \<le> crt_pos v
      then let v1 = save_row v;
               up = move16 0 CRT_COLS (CRT_SIZE - CRT_COLS) (crt_buf v1) (crt_buf v1)
           in v1\<lparr>crt_buf := (\<lambda>i. if CRT_SIZE - CRT_COLS \<le> i \<and> i < CRT_SIZE then 0x0700 OR 32 else up i),
                 crt_pos := crt_pos v1 - CRT_COLS\<rparr>
      else v)"

definition video_blink :: "video \<Rightarrow> video" where "video_blink v = v\<lparr>crt_cursor := crt_pos v\<rparr>"

definition with_attr :: "u32 \<Rightarrow> u32" where "with_attr c = (if c AND NOT 0xff = 0 then c OR 0x0700 else c)"

definition video_put1 :: "u32 \<Rightarrow> video \<Rightarrow> video" where
  "video_put1 c v = video_blink (video_feed (video_char (with_attr c) (video_unscroll v)))"

text \<open>A tab is five spaces, printed by five calls of \<open>video_putc\<close> itself.\<close>

definition video_putc :: "u32 \<Rightarrow> video \<Rightarrow> video" where
  "video_putc c v =
     (if with_attr c AND 0xff = 9
      then video_blink (video_feed ((video_put1 32 ^^ 5) (video_unscroll v)))
      else video_put1 c v)"

subsection \<open>Scrolling back\<close>

definition video_scroll :: "int \<Rightarrow> video \<Rightarrow> video" where
  "video_scroll delta v =
     (let new = nat (max (min (int (crtsave_backscroll v) - delta) (int (crtsave_size v))) 0)
      in if new = crtsave_backscroll v then v
         else let v1 = (if crtsave_backscroll v = 0 then video_savebuf_copy (crtsave_pos v + crtsave_size v) False v else v);
                  v2 = v1\<lparr>crtsave_backscroll := new\<rparr>
           in video_savebuf_copy (crtsave_pos v2 + crtsave_size v2 - crtsave_backscroll v2) True v2)"

end
