(* ===== verification/VideoProps.thy ===== *)
theory VideoProps
  imports Video ConsProps
begin

text \<open>
  The display refines a terminal that never forgets: an endless text of rows, of which the screen shows 25. The proof is a
  simulation, step by step, between \<open>dev/video.c\<close> with its circular buffer and that terminal.
\<close>

lemmas crt_defs = CRT_ROWS_def CRT_COLS_def CRT_SIZE_def CRT_SAVEROWS_def

subsection \<open>The terminal\<close>

record terminal =
  t_hist :: "(nat \<Rightarrow> u16) list"
  t_scr :: "nat \<Rightarrow> u16"
  t_pos :: nat

text \<open>Row \<open>r\<close> of all that was ever printed, the rows on the screen last.\<close>

definition text_row :: "terminal \<Rightarrow> nat \<Rightarrow> nat \<Rightarrow> u16" where
  "text_row t r k = (if r < length (t_hist t) then (t_hist t ! r) k else t_scr t ((r - length (t_hist t)) * CRT_COLS + k))"

definition term_char :: "u32 \<Rightarrow> terminal \<Rightarrow> terminal" where
  "term_char c t =
     (if c AND 0xff = 8
      then if t_pos t = 0 then t else t\<lparr>t_pos := t_pos t - 1, t_scr := (t_scr t)(t_pos t - 1 := ucast ((c AND NOT 0xff) OR 32))\<rparr>
      else if c AND 0xff = 10 then t\<lparr>t_pos := (t_pos t div CRT_COLS + 1) * CRT_COLS\<rparr>
      else if c AND 0xff = 13 then t\<lparr>t_pos := t_pos t div CRT_COLS * CRT_COLS\<rparr>
      else t\<lparr>t_scr := (t_scr t)(t_pos t := ucast c), t_pos := t_pos t + 1\<rparr>)"

definition term_feed :: "terminal \<Rightarrow> terminal" where
  "term_feed t =
     (if CRT_SIZE \<le> t_pos t
      then t\<lparr>t_hist := t_hist t @ [t_scr t],
             t_scr := (\<lambda>i. if i < CRT_SIZE - CRT_COLS then t_scr t (i + CRT_COLS) else if i < CRT_SIZE then 0x0720 else t_scr t i),
             t_pos := t_pos t - CRT_COLS\<rparr>
      else t)"

definition term_put1 :: "u32 \<Rightarrow> terminal \<Rightarrow> terminal" where "term_put1 c t = term_feed (term_char (with_attr c) t)"

definition term_putc :: "u32 \<Rightarrow> terminal \<Rightarrow> terminal" where
  "term_putc c t = (if with_attr c AND 0xff = 9 then (term_put1 32 ^^ 5) t else term_put1 c t)"

subsection \<open>The circular buffer\<close>

definition cell :: "nat \<Rightarrow> nat \<Rightarrow> nat" where "cell r k = r mod CRT_SAVEROWS * CRT_COLS + k"

lemma cell_eq: "k < CRT_COLS \<Longrightarrow> l < CRT_COLS \<Longrightarrow> cell a k = cell b l \<longleftrightarrow> a mod CRT_SAVEROWS = b mod CRT_SAVEROWS \<and> k = l"
proof
  assume k: "k < CRT_COLS" "l < CRT_COLS" and e: "cell a k = cell b l"
  have "cell a k div CRT_COLS = a mod CRT_SAVEROWS" "cell a k mod CRT_COLS = k" "cell b l div CRT_COLS = b mod CRT_SAVEROWS"
    "cell b l mod CRT_COLS = l" using k by (simp_all add: cell_def CRT_COLS_def)
  with e show "a mod CRT_SAVEROWS = b mod CRT_SAVEROWS \<and> k = l" by simp
qed (simp add: cell_def)

lemma window_eq:
  assumes "a < CRT_SAVEROWS" and "b < CRT_SAVEROWS"
  shows "(p + a) mod CRT_SAVEROWS = (p + b) mod CRT_SAVEROWS \<longleftrightarrow> a = b"
  using assms
proof (induction a b rule: linorder_wlog)
  case (le a b)
  then show ?case using mod_eq_dvd_iff_nat [of "p + a" "p + b" CRT_SAVEROWS] by (auto dest: dvd_imp_le)
next
  case (sym a b)
  then show ?case by auto
qed

text \<open>Where a row of the window that starts at row \<open>f\<close> lies in the buffer.\<close>

lemma cell_index:
  fixes f j k :: nat
  assumes "j < CRT_SAVEROWS" and "k < CRT_COLS"
  defines "P \<equiv> f mod CRT_SAVEROWS * CRT_COLS" and "N \<equiv> CRT_SAVEROWS * CRT_COLS"
  shows "P \<le> N" "j * CRT_COLS + k < N"
    "cell (f + j) k = (if P + (j * CRT_COLS + k) < N then P + (j * CRT_COLS + k) else P + (j * CRT_COLS + k) - N)"
proof -
  let ?q = "f mod CRT_SAVEROWS"
  have q: "?q < CRT_SAVEROWS" by (simp add: CRT_SAVEROWS_def)
  then show "P \<le> N" by (simp add: P_def N_def)
  have lt: "r * CRT_COLS + k < s * CRT_COLS" if "r < s" for r s
    using mult_le_mono1 [of "Suc r" s CRT_COLS] that assms(2) by simp
  show "j * CRT_COLS + k < N" unfolding N_def by (rule lt [OF assms(1)])
  have m: "(f + j) mod CRT_SAVEROWS = (?q + j) mod CRT_SAVEROWS" by (simp add: mod_add_left_eq)
  show "cell (f + j) k = (if P + (j * CRT_COLS + k) < N then P + (j * CRT_COLS + k) else P + (j * CRT_COLS + k) - N)"
  proof (cases "?q + j < CRT_SAVEROWS")
    case True
    from lt [OF this] show ?thesis using True m by (simp add: cell_def P_def N_def algebra_simps)
  next
    case False
    then have "CRT_SAVEROWS \<le> ?q + j" "?q + j - CRT_SAVEROWS < CRT_SAVEROWS" using q assms(1) by linarith+
    then have "(?q + j) mod CRT_SAVEROWS = ?q + j - CRT_SAVEROWS" by (simp only: le_mod_geq mod_less)
    moreover have "N \<le> (?q + j) * CRT_COLS" unfolding N_def using False by (intro mult_le_mono1) simp
    ultimately show ?thesis using m by (simp add: cell_def P_def N_def algebra_simps diff_mult_distrib)
  qed
qed

lemma on_screen: "r < CRT_ROWS \<Longrightarrow> k < CRT_COLS \<Longrightarrow> r * CRT_COLS + k < CRT_ROWS * CRT_COLS"
  using mult_le_mono1 [of "Suc r" CRT_ROWS CRT_COLS] by simp

lemma rows_fit: "r < CRT_ROWS \<Longrightarrow> r < CRT_SAVEROWS"
  by (simp add: crt_defs)

lemma screen_fits: "CRT_ROWS * CRT_COLS \<le> CRT_SAVEROWS * CRT_COLS"
  by (simp add: crt_defs)

text \<open>The two block moves of \<open>video_savebuf_copy\<close> are one move modulo the size of the buffer.\<close>

lemma copy_to_screen:
  assumes "r < CRT_ROWS" and "k < CRT_COLS"
  shows "crt_buf (video_savebuf_copy f True v) (r * CRT_COLS + k) = crtsave_buf v (cell (f + r) k)"
  using cell_index(1,3) [OF rows_fit [OF assms(1)] assms(2), of f] cell_index(2) [OF rows_fit [OF assms(1)] assms(2)] on_screen [OF assms] screen_fits
  by (auto simp: video_savebuf_copy_def move16_def Let_def min_def ac_simps)

lemma copy_from_screen:
  assumes "r < CRT_ROWS" and "k < CRT_COLS"
  shows "crtsave_buf (video_savebuf_copy f False v) (cell (f + r) k) = crt_buf v (r * CRT_COLS + k)"
proof -
  define P where "P = f mod CRT_SAVEROWS * CRT_COLS"
  define N where "N = CRT_SAVEROWS * CRT_COLS"
  define R where "R = CRT_ROWS * CRT_COLS"
  define x where "x = r * CRT_COLS + k"
  have "P \<le> N" "x < R" "R \<le> N" "cell (f + r) k = (if P + x < N then P + x else P + x - N)"
    using cell_index(1,3) [OF rows_fit [OF assms(1)] assms(2), of f] on_screen [OF assms] screen_fits
    by (simp_all only: P_def N_def R_def x_def)
  then show ?thesis
    unfolding video_savebuf_copy_def Let_def P_def [symmetric] N_def [symmetric] R_def [symmetric] x_def [symmetric]
    by (auto simp: move16_def min_def)
qed

lemma copy_sel [simp]:
  "crtsave_buf (video_savebuf_copy f True v) = crtsave_buf v" "crt_buf (video_savebuf_copy f False v) = crt_buf v"
  "crt_pos (video_savebuf_copy f b v) = crt_pos v" "crtsave_pos (video_savebuf_copy f b v) = crtsave_pos v"
  "crtsave_size (video_savebuf_copy f b v) = crtsave_size v" "crtsave_backscroll (video_savebuf_copy f b v) = crtsave_backscroll v"
  by (simp_all add: video_savebuf_copy_def Let_def)

lemma copy_other_rows:
  assumes "CRT_ROWS \<le> j" and "j < CRT_SAVEROWS" and "k < CRT_COLS"
  shows "crtsave_buf (video_savebuf_copy f False v) (cell (f + j) k) = crtsave_buf v (cell (f + j) k)"
proof -
  have "CRT_ROWS * CRT_COLS \<le> j * CRT_COLS + k" by (rule trans_le_add1 [OF mult_le_mono1 [OF assms(1)]])
  then show ?thesis
    using cell_index(1,3) [OF assms(2,3), of f] cell_index(2) [OF assms(2,3)] by (auto simp: video_savebuf_copy_def move16_def Let_def min_def)
qed

subsection \<open>The simulation relation\<close>

text \<open>The saved rows are the last ones that scrolled off, and the screen shows the text from \<open>crtsave_backscroll\<close> rows above its end;
  while it is scrolled back, the true screen is in the buffer behind the saved rows. The cursor is within the first \<open>lim\<close> cells.\<close>

definition vid_rel_lim :: "nat \<Rightarrow> video \<Rightarrow> terminal \<Rightarrow> bool" where
  "vid_rel_lim lim v t \<longleftrightarrow>
     crt_pos v = t_pos t \<and> t_pos t < lim \<and> crtsave_size v = min (length (t_hist t)) (CRT_SAVEROWS - CRT_ROWS) \<and>
     crtsave_backscroll v \<le> crtsave_size v \<and>
     (\<forall>j < crtsave_size v. \<forall>k < CRT_COLS.
        crtsave_buf v (cell (crtsave_pos v + j) k) = text_row t (length (t_hist t) - crtsave_size v + j) k) \<and>
     (0 < crtsave_backscroll v \<longrightarrow> (\<forall>j < CRT_ROWS. \<forall>k < CRT_COLS.
        crtsave_buf v (cell (crtsave_pos v + crtsave_size v + j) k) = text_row t (length (t_hist t) + j) k)) \<and>
     (\<forall>r < CRT_ROWS. \<forall>k < CRT_COLS.
        crt_buf v (r * CRT_COLS + k) = text_row t (length (t_hist t) - crtsave_backscroll v + r) k)"

abbreviation vid_rel :: "video \<Rightarrow> terminal \<Rightarrow> bool" where "vid_rel \<equiv> vid_rel_lim CRT_SIZE"

lemma vid_relD:
  assumes "vid_rel_lim lim v t"
  shows "crt_pos v = t_pos t" "t_pos t < lim" "crtsave_size v = min (length (t_hist t)) (CRT_SAVEROWS - CRT_ROWS)"
    "crtsave_backscroll v \<le> crtsave_size v"
    "\<And>j k. j < crtsave_size v \<Longrightarrow> k < CRT_COLS \<Longrightarrow>
      crtsave_buf v (cell (crtsave_pos v + j) k) = text_row t (length (t_hist t) - crtsave_size v + j) k"
    "\<And>j k. 0 < crtsave_backscroll v \<Longrightarrow> j < CRT_ROWS \<Longrightarrow> k < CRT_COLS \<Longrightarrow>
      crtsave_buf v (cell (crtsave_pos v + crtsave_size v + j) k) = text_row t (length (t_hist t) + j) k"
    "\<And>r k. r < CRT_ROWS \<Longrightarrow> k < CRT_COLS \<Longrightarrow>
      crt_buf v (r * CRT_COLS + k) = text_row t (length (t_hist t) - crtsave_backscroll v + r) k"
    "crtsave_size v \<le> length (t_hist t)" "crtsave_size v + CRT_ROWS \<le> CRT_SAVEROWS"
  using assms by (auto simp: vid_rel_lim_def crt_defs)

lemma text_on_screen: "text_row t (length (t_hist t) + r) k = t_scr t (r * CRT_COLS + k)"
  by (simp add: text_row_def)

lemma unscroll_rel:
  assumes "vid_rel_lim lim v t"
  shows "vid_rel_lim lim (video_unscroll v) t \<and> crtsave_backscroll (video_unscroll v) = 0"
proof (cases "crtsave_backscroll v = 0")
  case True
  then show ?thesis using assms by (simp add: video_unscroll_def)
next
  case False
  note r = vid_relD [OF assms]
  let ?f = "crtsave_pos v + crtsave_size v"
  have "crt_buf (video_savebuf_copy ?f True v) (i * CRT_COLS + k) = text_row t (length (t_hist t) + i) k"
    if "i < CRT_ROWS" "k < CRT_COLS" for i k
    using r(6) [of i k] False that by (simp add: copy_to_screen)
  with assms False show ?thesis by (simp add: video_unscroll_def vid_rel_lim_def)
qed

text \<open>Saving the screen behind the saved rows does not disturb them.\<close>

lemma save_screen_rel:
  assumes rel: "vid_rel_lim lim v t" and "crtsave_backscroll v = 0"
  defines "w \<equiv> video_savebuf_copy (crtsave_pos v + crtsave_size v) False v"
  shows "j < crtsave_size v \<Longrightarrow> k < CRT_COLS \<Longrightarrow>
      crtsave_buf w (cell (crtsave_pos v + j) k) = text_row t (length (t_hist t) - crtsave_size v + j) k"
    and "j < CRT_ROWS \<Longrightarrow> k < CRT_COLS \<Longrightarrow>
      crtsave_buf w (cell (crtsave_pos v + crtsave_size v + j) k) = text_row t (length (t_hist t) + j) k"
proof -
  note r = vid_relD [OF rel]
  let ?f = "crtsave_pos v + crtsave_size v"
  {
    assume j: "j < crtsave_size v" and k: "k < CRT_COLS"
    let ?j = "CRT_SAVEROWS - crtsave_size v + j"
    have "?f + ?j = crtsave_pos v + j + CRT_SAVEROWS" using r(9) by simp
    then have "cell (crtsave_pos v + j) k = cell (?f + ?j) k" by (simp only: cell_def mod_add_self2)
    moreover have "CRT_ROWS \<le> ?j" "?j < CRT_SAVEROWS" using j r(9) by simp_all
    ultimately show "crtsave_buf w (cell (crtsave_pos v + j) k) = text_row t (length (t_hist t) - crtsave_size v + j) k"
      using r(5) [OF j k] k copy_other_rows [of ?j k ?f v] by (simp add: w_def)
  next
    assume "j < CRT_ROWS" and "k < CRT_COLS"
    then show "crtsave_buf w (cell (crtsave_pos v + crtsave_size v + j) k) = text_row t (length (t_hist t) + j) k"
      using r(7) [of j k] assms(2) by (simp add: w_def copy_from_screen)
  }
qed

lemma scroll_rel:
  assumes rel: "vid_rel_lim lim v t"
  shows "vid_rel_lim lim (video_scroll d v) t"
proof -
  note r = vid_relD [OF rel]
  define new where "new = nat (max (min (int (crtsave_backscroll v) - d) (int (crtsave_size v))) 0)"
  have new: "new \<le> crtsave_size v" by (simp add: new_def)
  show ?thesis
  proof (cases "new = crtsave_backscroll v")
    case True
    then show ?thesis using rel by (simp add: video_scroll_def new_def [symmetric])
  next
    case False
    define v1 where "v1 = (if crtsave_backscroll v = 0 then video_savebuf_copy (crtsave_pos v + crtsave_size v) False v else v)"
    let ?f = "crtsave_pos v + crtsave_size v - new"
    let ?w = "video_savebuf_copy ?f True (v1\<lparr>crtsave_backscroll := new\<rparr>)"
    have s: "crtsave_pos v1 = crtsave_pos v" "crtsave_size v1 = crtsave_size v" "crt_pos v1 = crt_pos v" by (simp_all add: v1_def)
    have w: "video_scroll d v = ?w" using False s by (simp add: video_scroll_def new_def [symmetric] v1_def [symmetric])
    have old: "crtsave_buf v1 (cell (crtsave_pos v + j) k) = text_row t (length (t_hist t) - crtsave_size v + j) k"
      if "j < crtsave_size v" "k < CRT_COLS" for j k
      using that save_screen_rel(1) [OF rel _ that] r(5) by (auto simp: v1_def)
    have scr: "crtsave_buf v1 (cell (crtsave_pos v + crtsave_size v + j) k) = text_row t (length (t_hist t) + j) k"
      if "j < CRT_ROWS" "k < CRT_COLS" for j k
      using that save_screen_rel(2) [OF rel _ that] r(6) by (auto simp: v1_def)
    have "crt_buf ?w (i * CRT_COLS + k) = text_row t (length (t_hist t) - new + i) k" if i: "i < CRT_ROWS" "k < CRT_COLS" for i k
      unfolding copy_to_screen [OF i]
    proof (cases "i < new")
      case True
      let ?j = "crtsave_size v - new + i"
      have "?f + i = crtsave_pos v + ?j" "?j < crtsave_size v" using new True by simp_all
      moreover have "length (t_hist t) - crtsave_size v + ?j = length (t_hist t) - new + i" using new r(8) by simp
      ultimately show "crtsave_buf (v1\<lparr>crtsave_backscroll := new\<rparr>) (cell (?f + i) k) = text_row t (length (t_hist t) - new + i) k"
        using old [of ?j k] i by (simp only: simp_thms) simp
    next
      case False
      then have "?f + i = crtsave_pos v + crtsave_size v + (i - new)" "length (t_hist t) - new + i = length (t_hist t) + (i - new)"
        using new r(8) by simp_all
      then show "crtsave_buf (v1\<lparr>crtsave_backscroll := new\<rparr>) (cell (?f + i) k) = text_row t (length (t_hist t) - new + i) k"
        using scr [of "i - new" k] i by simp
    qed
    then show ?thesis unfolding w using old scr r(1-3) new s by (simp add: vid_rel_lim_def)
  qed
qed

subsection \<open>Printing a character\<close>

lemma term_pos_div: "crt_pos v - crt_pos v mod CRT_COLS = crt_pos v div CRT_COLS * CRT_COLS"
  by (rule minus_mod_eq_div_mult)

lemma text_row_scr:
  assumes "t_hist t' = t_hist t" and "r < length (t_hist t)"
  shows "text_row t' r k = text_row t r k"
  using assms by (simp add: text_row_def)

text \<open>A change of the screen and the cursor only.\<close>

lemma screen_change_rel:
  assumes rel: "vid_rel_lim lim v t" and b: "crtsave_backscroll v = 0"
    and h: "t_hist t' = t_hist t" and p: "t_pos t' < lim'" "crt_pos v' = t_pos t'"
    and s: "crtsave_buf v' = crtsave_buf v" "crtsave_pos v' = crtsave_pos v" "crtsave_size v' = crtsave_size v"
      "crtsave_backscroll v' = 0"
    and scr: "\<And>i. i < CRT_SIZE \<Longrightarrow> crt_buf v i = t_scr t i \<Longrightarrow> crt_buf v' i = t_scr t' i"
  shows "vid_rel_lim lim' v' t'"
proof -
  note r = vid_relD [OF rel]
  have "crt_buf v' (i * CRT_COLS + k) = text_row t' (length (t_hist t') + i) k" if i: "i < CRT_ROWS" "k < CRT_COLS" for i k
    unfolding text_on_screen using r(7) [OF i] b on_screen [OF i] by (intro scr) (simp_all add: text_on_screen CRT_SIZE_def)
  moreover have "text_row t' (length (t_hist t) - crtsave_size v + j) k = text_row t (length (t_hist t) - crtsave_size v + j) k"
    if "j < crtsave_size v" for j k using that r(8) h by (intro text_row_scr) simp_all
  ultimately show ?thesis using r(3,5) h p s by (simp add: vid_rel_lim_def)
qed

lemma char_rel:
  assumes rel: "vid_rel v t" and b: "crtsave_backscroll v = 0"
  shows "vid_rel_lim (CRT_SIZE + CRT_COLS) (video_char c v) (term_char c t) \<and> crtsave_backscroll (video_char c v) = 0"
proof
  note r = vid_relD [OF rel]
  have small: "CRT_SIZE + CRT_COLS < 2 ^ 16" "0 < CRT_COLS" by (simp_all add: crt_defs)
  have nl: "(t_pos t + CRT_COLS) mod 2 ^ 16 = t_pos t + CRT_COLS" "(t_pos t + 1) mod 2 ^ 16 = t_pos t + 1"
    using r(2) small by simp_all
  have dv: "t_pos t div CRT_COLS * CRT_COLS < CRT_SIZE" by (rule le_less_trans [OF div_times_less_eq_dividend r(2)])
  have dv2: "(t_pos t + CRT_COLS) div CRT_COLS * CRT_COLS = CRT_COLS + t_pos t div CRT_COLS * CRT_COLS"
    by (subst div_add_self2) (simp_all add: CRT_COLS_def)
  show "crtsave_backscroll (video_char c v) = 0" using b by (simp add: video_char_def Let_def)
  show "vid_rel_lim (CRT_SIZE + CRT_COLS) (video_char c v) (term_char c t)"
    using r(1,2) small nl dv dv2 trans_less_add1 [OF dv, of CRT_COLS] b
    by (intro screen_change_rel [OF rel b])
      (auto simp: video_char_def term_char_def Let_def minus_mod_eq_div_mult)
qed

text \<open>A row scrolls off: it becomes the newest saved row, in place of the oldest when the buffer is full.\<close>

lemma save_row_sel [simp]:
  "crt_buf (save_row v) = crt_buf v" "crt_pos (save_row v) = crt_pos v" "crtsave_backscroll (save_row v) = crtsave_backscroll v"
  by (simp_all add: save_row_def Let_def)

lemma save_row_buf:
  "crtsave_buf (save_row v) =
    move16 (cell (crtsave_pos (save_row v) + crtsave_size (save_row v) - 1) 0) 0 CRT_COLS (crt_buf v) (crtsave_buf v)"
  by (simp add: save_row_def Let_def cell_def)

lemma save_row_rows:
  assumes rel: "vid_rel_lim lim v t" and b: "crtsave_backscroll v = 0"
    and j: "j < crtsave_size (save_row v)" and k: "k < CRT_COLS"
  shows "crtsave_buf (save_row v) (cell (crtsave_pos (save_row v) + j) k) =
    text_row t (length (t_hist t) + 1 - crtsave_size (save_row v) + j) k"
proof -
  note r = vid_relD [OF rel]
  define full where "full \<longleftrightarrow> crtsave_size v = CRT_SAVEROWS - CRT_ROWS"
  define n where "n = crtsave_size (save_row v)"
  define q where "q = (if full then crtsave_pos v + 1 else crtsave_pos v)"
  have n: "n = (if full then crtsave_size v else crtsave_size v + 1)" by (simp add: n_def save_row_def Let_def full_def)
  have q: "crtsave_pos (save_row v) = (if full then q mod CRT_SAVEROWS else q)" by (simp add: q_def save_row_def Let_def full_def)
  have nb: "0 < n" "n \<le> CRT_SAVEROWS - CRT_ROWS" "n \<le> length (t_hist t) + 1" using r(3) by (auto simp: n full_def crt_defs)
  have cq: "cell (crtsave_pos (save_row v) + i) l = cell (q + i) l" for i l by (simp add: q cell_def mod_add_left_eq)
  have buf: "crtsave_buf (save_row v) = move16 (cell (q + n - 1) 0) 0 CRT_COLS (crt_buf v) (crtsave_buf v)"
  proof -
    have "cell (crtsave_pos (save_row v) + n - 1) 0 = cell (crtsave_pos (save_row v) + (n - 1)) 0" using nb(1) by simp
    also have "\<dots> = cell (q + n - 1) 0" unfolding cq using nb(1) by simp
    finally show ?thesis using save_row_buf [of v] by (simp only: n_def)
  qed
  have cell0: "cell a k = cell a 0 + k" for a by (simp add: cell_def)
  show ?thesis
  proof (cases "j = n - 1")
    case True
    then have "crtsave_buf (save_row v) (cell (q + j) k) = crt_buf v k"
      using nb(1) k by (simp add: buf move16_def cell0)
    also have "\<dots> = text_row t (length (t_hist t)) k" using r(7) [of 0 k] b k by (simp add: CRT_ROWS_def)
    finally show ?thesis using True nb unfolding cq n_def [symmetric] by simp
  next
    case False
    then have jn: "j < n - 1" using j by (simp add: n_def)
    have "\<not> (cell (q + n - 1) 0 \<le> cell (q + j) k \<and> cell (q + j) k < cell (q + n - 1) 0 + CRT_COLS)"
    proof
      assume a: "cell (q + n - 1) 0 \<le> cell (q + j) k \<and> cell (q + j) k < cell (q + n - 1) 0 + CRT_COLS"
      let ?l = "cell (q + j) k - cell (q + n - 1) 0"
      have "cell (q + j) k = cell (q + n - 1) ?l" "?l < CRT_COLS" using a by (auto simp: cell_def)
      then have "(q + j) mod CRT_SAVEROWS = (q + (n - 1)) mod CRT_SAVEROWS" using cell_eq [OF k] nb(1) by simp
      moreover have "j < CRT_SAVEROWS" "n - 1 < CRT_SAVEROWS" using jn nb by (auto simp: crt_defs)
      ultimately show False using window_eq jn by blast
    qed
    then have "crtsave_buf (save_row v) (cell (q + j) k) = crtsave_buf v (cell (q + j) k)" by (auto simp: buf move16_def)
    also have "\<dots> = text_row t (length (t_hist t) + 1 - n + j) k"
      using r(5) [of "if full then Suc j else j" k] k jn n r(8) by (auto simp: q_def)
    finally show ?thesis by (simp add: cq n_def [symmetric])
  qed
qed

lemma feed_rel:
  assumes rel: "vid_rel_lim (CRT_SIZE + CRT_COLS) v t" and b: "crtsave_backscroll v = 0"
  shows "vid_rel (video_feed v) (term_feed t) \<and> crtsave_backscroll (video_feed v) = 0"
proof (cases "CRT_SIZE \<le> t_pos t")
  case False
  then show ?thesis using rel b by (simp add: video_feed_def term_feed_def vid_rel_lim_def)
next
  case True
  note r = vid_relD [OF rel]
  let ?v = "video_feed v" and ?t = "term_feed t" and ?H = "length (t_hist t)"
  have s: "crtsave_buf ?v = crtsave_buf (save_row v)" "crtsave_pos ?v = crtsave_pos (save_row v)"
    "crtsave_size ?v = crtsave_size (save_row v)" "crtsave_backscroll ?v = 0" "crt_pos ?v = t_pos t - CRT_COLS"
    using True b r(1) by (simp_all add: video_feed_def Let_def)
  have h: "length (t_hist ?t) = ?H + 1" "t_pos ?t = t_pos t - CRT_COLS" using True by (simp_all add: term_feed_def)
  have sz: "crtsave_size ?v = min (?H + 1) (CRT_SAVEROWS - CRT_ROWS)"
    using r(3) unfolding s(3) by (auto simp: save_row_def Let_def crt_defs)
  have row: "text_row ?t (?H + 1 - crtsave_size ?v + j) k = text_row t (?H + 1 - crtsave_size ?v + j) k"
    if "j < crtsave_size ?v" for j k
  proof -
    have "crtsave_size ?v \<le> ?H + 1" unfolding sz by simp
    with that have "?H + 1 - crtsave_size ?v + j \<le> ?H" by linarith
    then show ?thesis using True by (auto simp: text_row_def term_feed_def nth_append)
  qed
  have "crt_buf ?v (i * CRT_COLS + k) = t_scr ?t (i * CRT_COLS + k)" if i: "i < CRT_ROWS" "k < CRT_COLS" for i k
  proof (cases "i * CRT_COLS + k < CRT_SIZE - CRT_COLS")
    case below: True
    have "Suc i < CRT_ROWS"
    proof (rule ccontr)
      assume "\<not> Suc i < CRT_ROWS"
      then have "(CRT_ROWS - 1) * CRT_COLS \<le> i * CRT_COLS" by (intro mult_le_mono1) simp
      with below show False by (simp add: CRT_SIZE_def diff_mult_distrib)
    qed
    from r(7) [OF this i(2)] b have "crt_buf v (Suc i * CRT_COLS + k) = t_scr t (Suc i * CRT_COLS + k)" by (simp only: text_on_screen diff_zero)
    then show ?thesis using True below r(1) by (simp add: video_feed_def term_feed_def Let_def move16_def add.commute add.left_commute)
  next
    case False
    then show ?thesis using True r(1) on_screen [OF i] by (simp add: video_feed_def term_feed_def Let_def CRT_SIZE_def)
  qed
  then have scr: "crt_buf ?v (i * CRT_COLS + k) = text_row ?t (length (t_hist ?t) + i) k" if "i < CRT_ROWS" "k < CRT_COLS" for i k
    using that by (simp add: text_on_screen)
  have "t_pos t - CRT_COLS < CRT_SIZE" using r(2) True by (simp add: crt_defs)
  then show ?thesis
    using save_row_rows [OF rel b] row scr sz s h by (simp add: vid_rel_lim_def)
qed

lemma blink_rel [simp]:
  "vid_rel_lim lim (video_blink w) u = vid_rel_lim lim w u" "crtsave_backscroll (video_blink w) = crtsave_backscroll w"
  by (simp_all add: video_blink_def vid_rel_lim_def)

lemma put1_rel:
  assumes "vid_rel v t"
  shows "vid_rel (video_put1 c v) (term_put1 c t) \<and> crtsave_backscroll (video_put1 c v) = 0"
  using unscroll_rel [OF assms] char_rel [of "video_unscroll v" t "with_attr c"]
    feed_rel [of "video_char (with_attr c) (video_unscroll v)" "term_char (with_attr c) t"]
  by (simp add: video_put1_def term_put1_def)

lemma puts_rel: "vid_rel v t \<Longrightarrow> vid_rel ((video_put1 c ^^ n) v) ((term_put1 c ^^ n) t) \<and>
    (crtsave_backscroll v = 0 \<longrightarrow> crtsave_backscroll ((video_put1 c ^^ n) v) = 0)"
  by (induction n) (auto dest: put1_rel)

lemma feed_idle: "vid_rel v t \<Longrightarrow> video_feed v = v"
  by (simp add: video_feed_def vid_rel_lim_def)

lemma putc_rel: "vid_rel v t \<Longrightarrow> vid_rel (video_putc c v) (term_putc c t)"
proof -
  assume rel: "vid_rel v t"
  show ?thesis
  proof (cases "with_attr c AND 0xff = 9")
    case True
    have p: "vid_rel ((video_put1 32 ^^ 5) (video_unscroll v)) ((term_put1 32 ^^ 5) t)"
      using puts_rel unscroll_rel [OF rel] by blast
    show ?thesis using p True feed_idle [OF p] by (simp add: video_putc_def term_putc_def)
  qed (use put1_rel [OF rel] in \<open>simp add: video_putc_def term_putc_def\<close>)
qed

subsection \<open>Everything printed can be scrolled back to\<close>

datatype vid_event = Put u32 | Scroll int

definition vid_step :: "vid_event \<Rightarrow> video \<Rightarrow> video option" where
  "vid_step e v = Some (case e of Put c \<Rightarrow> video_putc c v | Scroll d \<Rightarrow> video_scroll d v)"

definition term_step :: "vid_event \<Rightarrow> terminal \<Rightarrow> terminal" where
  "term_step e t = (case e of Put c \<Rightarrow> term_putc c t | Scroll d \<Rightarrow> t)"

interpretation display: simulation vid_rel vid_step term_step "\<lambda>_ _. True"
  by unfold_locales (auto simp: vid_step_def term_step_def putc_rel scroll_rel split: vid_event.split)

lemma display_unguarded: "display.guarded es t"
  by (induction es arbitrary: t) auto

lemma init_rel:
  assumes "unat hi * 256 + unat lo < CRT_SIZE"
  shows "vid_rel (video_init scr hi lo) \<lparr>t_hist = [], t_scr = scr, t_pos = unat hi * 256 + unat lo\<rparr>"
  using assms by (simp add: vid_rel_lim_def video_init_def text_row_def)

text \<open>C17: The display never loses its place. After any sequence of characters and scroll requests, on a screen whose cursor was on
  the screen at boot, the cursor is on the screen, and the display shows 25 consecutive rows of the text printed so far: the
  last ones, or those as many rows higher as the user has scrolled back, which is at most 999 and never beyond the first row.\<close>

theorem display_shows_text:
  assumes "unat hi * 256 + unat lo < CRT_SIZE"
    and "t = fold term_step es \<lparr>t_hist = [], t_scr = scr, t_pos = unat hi * 256 + unat lo\<rparr>"
  shows "\<exists>v. run_all vid_step es (video_init scr hi lo) = Some v \<and> crt_pos v = t_pos t \<and> t_pos t < CRT_SIZE \<and>
    crtsave_backscroll v \<le> min (length (t_hist t)) (CRT_SAVEROWS - CRT_ROWS) \<and>
    (\<forall>r < CRT_ROWS. \<forall>k < CRT_COLS.
       crt_buf v (r * CRT_COLS + k) = text_row t (length (t_hist t) - crtsave_backscroll v + r) k)"
proof -
  obtain v where v: "run_all vid_step es (video_init scr hi lo) = Some v" "vid_rel v t"
    using display.run_sim [OF init_rel [OF assms(1)] display_unguarded, of es] assms(2) by blast
  from vid_relD [OF v(2)] v(1) show ?thesis by auto
qed

theorem display_shows_text_witness:
  "\<exists>v. run_all vid_step [Put 72, Put 10, Put 105, Scroll (- 1)] (video_init (\<lambda>_. 0x0720) 0 0) = Some v \<and>
    crt_pos v = 81 \<and> crtsave_backscroll v = 0 \<and> crt_buf v 0 = 0x0748 \<and> crt_buf v 80 = 0x0769"
proof -
  have t: "fold term_step [Put 72, Put 10, Put 105, Scroll (- 1)]
      \<lparr>t_hist = [], t_scr = (\<lambda>_. 0x0720), t_pos = unat (0 :: u8) * 256 + unat (0 :: u8)\<rparr> =
    \<lparr>t_hist = [], t_scr = (\<lambda>_. 0x0720)(0 := 0x0748, 80 := 0x0769), t_pos = 81\<rparr>"
    by (simp add: term_step_def term_putc_def term_put1_def term_char_def term_feed_def with_attr_def crt_defs)
  have in0: "unat (0 :: u8) * 256 + unat (0 :: u8) < CRT_SIZE" by (simp add: crt_defs)
  obtain v where v: "run_all vid_step [Put 72, Put 10, Put 105, Scroll (- 1)] (video_init (\<lambda>_. 0x0720) 0 0) = Some v"
    "crt_pos v = 81" "crtsave_backscroll v = 0"
    "\<forall>r < CRT_ROWS. \<forall>k < CRT_COLS. crt_buf v (r * CRT_COLS + k) = text_row
      \<lparr>t_hist = [], t_scr = (\<lambda>_. 0x0720)(0 := 0x0748, 80 := 0x0769), t_pos = 81\<rparr> r k"
    using display_shows_text [OF in0 t [symmetric]] by auto
  from v(4) [rule_format, of 0 0] v(4) [rule_format, of 1 0] v(1-3) show ?thesis
    by (auto simp: text_row_def crt_defs)
qed

end
