(* ===== verification/Kbd.thy ===== *)
theory Kbd
  imports VideoProps
begin

text \<open>
  The keyboard driver (\<open>dev/kbd.c\<close>): scan codes become characters, with a state of modifier keys, locks and a pending escape.
  A byte with its high bit set announces the release of a key; the byte \<open>0xE0\<close> announces that the next one belongs to a second set
  of keys. The driver also scrolls the display back (theory Video) and restarts the machine.
\<close>

subsection \<open>Constants and tables\<close>

definition SHIFT :: u32 where "SHIFT = 1"
definition CTL :: u32 where "CTL = 2"
definition ALT :: u32 where "ALT = 4"
definition CAPSLOCK :: u32 where "CAPSLOCK = 8"
definition E0ESC :: u32 where "E0ESC = 64"

definition KEY_UP :: int where "KEY_UP = 0xE2"
definition KEY_DN :: int where "KEY_DN = 0xE3"
definition KEY_PGUP :: int where "KEY_PGUP = 0xE6"
definition KEY_PGDN :: int where "KEY_PGDN = 0xE7"
definition KEY_DEL :: int where "KEY_DEL = 0xE9"

text \<open>An array of 256 bytes given by its first elements and by designated ones.\<close>

definition table :: "u8 list \<Rightarrow> (u8 \<times> u8) list \<Rightarrow> u8 \<Rightarrow> u8" where
  "table xs ys i = (case map_of ys i of Some c \<Rightarrow> c | None \<Rightarrow> if unat i < length xs then xs ! unat i else 0)"

definition shiftcode :: "u8 \<Rightarrow> u8" where
  "shiftcode = table []
     [(0x1d, 0x02), (0x2a, 0x01), (0x36, 0x01), (0x38, 0x04), (0x9d, 0x02), (0xb8, 0x04)]"

definition togglecode :: "u8 \<Rightarrow> u8" where
  "togglecode = table []
     [(0x3a, 0x08), (0x45, 0x10), (0x46, 0x20)]"

definition normalmap :: "u8 \<Rightarrow> u8" where
  "normalmap = table [0, 27, 49, 50, 51, 52, 53, 54, 55, 56, 57, 48, 45, 61, 8, 9,
     113, 119, 101, 114, 116, 121, 117, 105, 111, 112, 91, 93, 10, 0, 97, 115,
     100, 102, 103, 104, 106, 107, 108, 59, 39, 96, 0, 92, 122, 120, 99, 118,
     98, 110, 109, 44, 46, 47, 0, 42, 0, 32, 0, 0, 0, 0, 0, 0,
     0, 0, 0, 0, 0, 0, 0, 55, 56, 57, 45, 52, 53, 54, 43, 49,
     50, 51, 48, 46, 0, 0, 0, 0]
     [(0xc7, 0xe0), (0x9c, 0x0a), (0xb5, 0x2f), (0xc8, 0xe2), (0xc9, 0xe6), (0xcb, 0xe4), (0xcd, 0xe5), (0xcf, 0xe1), (0xd0, 0xe3), (0xd1, 0xe7), (0xd2, 0xe8), (0xd3, 0xe9)]"

definition shiftmap :: "u8 \<Rightarrow> u8" where
  "shiftmap = table [0, 27, 33, 64, 35, 36, 37, 94, 38, 42, 40, 41, 95, 43, 8, 9,
     81, 87, 69, 82, 84, 89, 85, 73, 79, 80, 123, 125, 10, 0, 65, 83,
     68, 70, 71, 72, 74, 75, 76, 58, 34, 126, 0, 124, 90, 88, 67, 86,
     66, 78, 77, 60, 62, 63, 0, 42, 0, 32, 0, 0, 0, 0, 0, 0,
     0, 0, 0, 0, 0, 0, 0, 55, 56, 57, 45, 52, 53, 54, 43, 49,
     50, 51, 48, 46, 0, 0, 0, 0]
     [(0xc7, 0xe0), (0x9c, 0x0a), (0xb5, 0x2f), (0xc8, 0xe2), (0xc9, 0xe6), (0xcb, 0xe4), (0xcd, 0xe5), (0xcf, 0xe1), (0xd0, 0xe3), (0xd1, 0xe7), (0xd2, 0xe8), (0xd3, 0xe9)]"

definition ctlmap :: "u8 \<Rightarrow> u8" where
  "ctlmap = table [0, 0, 0, 0, 0, 0, 0, 0, 0, 0, 0, 0, 0, 0, 0, 0,
     17, 23, 5, 18, 20, 25, 21, 9, 15, 16, 0, 0, 13, 0, 1, 19,
     4, 6, 7, 8, 10, 11, 12, 0, 0, 0, 0, 28, 26, 24, 3, 22,
     2, 14, 13, 0, 0, 239, 0, 0]
     [(0x97, 0xe0), (0xb5, 0xef), (0xc8, 0xe2), (0xc9, 0xe6), (0xcb, 0xe4), (0xcd, 0xe5), (0xcf, 0xe1), (0xd0, 0xe3), (0xd1, 0xe7), (0xd2, 0xe8), (0xd3, 0xe9)]"

definition charcode :: "u32 \<Rightarrow> u8 \<Rightarrow> u8" where
  "charcode i = (if i = 0 then normalmap else if i = 1 then shiftmap else ctlmap)"

subsection \<open>Processing a byte\<close>

record kbd =
  kb_shift :: u32
  kb_video :: video
  kb_reboot :: bool

text \<open>A key is pressed: the part of \<open>kbd_proc_data\<close> after the key's code in \<open>0 .. 255\<close> is known.\<close>

definition swap_case :: "int \<Rightarrow> int" where
  "swap_case c = (if 97 \<le> c \<and> c \<le> 122 then c - 32 else if 65 \<le> c \<and> c \<le> 90 then c + 32 else c)"

definition key_char :: "u32 \<Rightarrow> u8 \<Rightarrow> int" where
  "key_char shift data =
     (let c = uint (charcode (shift AND (CTL OR SHIFT)) data) in if shift AND CAPSLOCK \<noteq> 0 then swap_case c else c)"

definition kbd_special :: "u32 \<Rightarrow> int \<Rightarrow> kbd \<Rightarrow> int \<times> kbd" where
  "kbd_special shift c kb =
     (let scrolled = (\<lambda>d. (0, kb\<lparr>kb_video := video_scroll d (kb_video kb)\<rparr>)); up = shift AND SHIFT \<noteq> 0
      in if up \<and> c = KEY_UP then scrolled (- 1)
         else if up \<and> c = KEY_DN then scrolled 1
         else if up \<and> c = KEY_PGUP then scrolled (- (int CRT_ROWS - 1))
         else if up \<and> c = KEY_PGDN then scrolled (int CRT_ROWS)
         else if NOT shift AND (CTL OR ALT) = 0 \<and> c = KEY_DEL then (c, kb\<lparr>kb_reboot := True\<rparr>)
         else (c, kb))"

definition kbd_key :: "u8 \<Rightarrow> kbd \<Rightarrow> int \<times> kbd" where
  "kbd_key data kb =
     (let shift = (kb_shift kb OR ucast (shiftcode data)) XOR ucast (togglecode data)
      in kbd_special shift (key_char shift data) (kb\<lparr>kb_shift := shift\<rparr>))"

text \<open>\<open>kbd_proc_data\<close>, given what the controller has in its buffer.\<close>

definition kbd_proc_data :: "u8 option \<Rightarrow> kbd \<Rightarrow> int \<times> kbd" where
  "kbd_proc_data inp kb = (case inp of
       None \<Rightarrow> (- 1, kb)
     | Some data \<Rightarrow>
         if data = 0xE0 then (0, kb\<lparr>kb_shift := kb_shift kb OR E0ESC\<rparr>)
         else if data AND 0x80 \<noteq> 0
         then let d = (if kb_shift kb AND E0ESC \<noteq> 0 then data else data AND 0x7F)
              in (0, kb\<lparr>kb_shift := kb_shift kb AND NOT (ucast (shiftcode d) OR E0ESC)\<rparr>)
         else if kb_shift kb AND E0ESC \<noteq> 0 then kbd_key (data OR 0x80) (kb\<lparr>kb_shift := kb_shift kb AND NOT E0ESC\<rparr>)
         else kbd_key data kb)"

text \<open>All the bytes in the controller's buffer, as the loop of \<open>cons_intr\<close> reads them.\<close>

fun kbd_drain :: "u8 list \<Rightarrow> kbd \<Rightarrow> int list \<times> kbd" where
  "kbd_drain [] kb = ([], kb)"
| "kbd_drain (b # bs) kb =
     (let (c, kb1) = kbd_proc_data (Some b) kb; (cs, kb2) = kbd_drain bs kb1 in (c # cs, kb2))"

definition kbd_intr :: "u8 list \<Rightarrow> kbd \<times> iosys \<Rightarrow> kbd \<times> iosys" where
  "kbd_intr bs s = (let (cs, kb) = kbd_drain bs (fst s) in (kb, cons_intr cs (snd s)))"

subsection \<open>Decoding the byte stream\<close>

text \<open>What the keyboard reports: the press or the release of a key, by its code. Keys with codes from 128 on are those of the second
  set.\<close>

datatype key_event = Make u8 | Break u8

fun scan_bytes :: "key_event \<Rightarrow> u8 list" where
  "scan_bytes (Make c) = (if c AND 0x80 = 0 then [c] else [0xE0, c AND 0x7F])"
| "scan_bytes (Break c) = (if c AND 0x80 = 0 then [c OR 0x80] else [0xE0, c])"

fun sendable :: "key_event \<Rightarrow> bool" where
  "sendable (Make c) \<longleftrightarrow> True"
| "sendable (Break c) \<longleftrightarrow> c AND 0x7F \<noteq> 0x60"

fun key_step :: "key_event \<Rightarrow> kbd \<Rightarrow> int \<times> kbd" where
  "key_step (Make c) kb = kbd_key c kb"
| "key_step (Break c) kb = (0, kb\<lparr>kb_shift := kb_shift kb AND NOT (ucast (shiftcode c))\<rparr>)"

fun key_run :: "key_event list \<Rightarrow> kbd \<Rightarrow> int list \<times> kbd" where
  "key_run [] kb = ([], kb)"
| "key_run (e # es) kb = (let (c, kb1) = key_step e kb; (cs, kb2) = key_run es kb1 in (c # cs, kb2))"

text \<open>The pending escape is bit 6 of the state, which no modifier or lock uses.\<close>

lemma escape_bit: "(w :: u32) AND E0ESC = 0 \<longleftrightarrow> \<not> bit w 6"
proof -
  have e: "E0ESC = 2 ^ 6" by (simp add: E0ESC_def)
  show ?thesis unfolding e by (rule and_exp_eq_0_iff_not_bit)
qed

lemma no_escape_bits: "\<not> bit (shiftcode c) 6" "\<not> bit (togglecode c) 6"
  by (simp_all add: shiftcode_def togglecode_def table_def)

definition escape_clear :: "kbd \<Rightarrow> bool" where "escape_clear kb \<longleftrightarrow> \<not> bit (kb_shift kb) 6"

lemma special_shift: "kb_shift (snd (kbd_special shift c kb)) = kb_shift kb"
  by (simp add: kbd_special_def Let_def)

lemma key_shift: "kb_shift (snd (kbd_key c kb)) = (kb_shift kb OR ucast (shiftcode c)) XOR ucast (togglecode c)"
  by (simp add: kbd_key_def Let_def special_shift)

lemma key_clear: "escape_clear kb \<Longrightarrow> escape_clear (snd (kbd_key c kb))"
  using no_escape_bits [of c]
  by (simp add: key_shift escape_clear_def bit_or_iff bit_xor_iff bit_ucast_iff)

lemma step_clear: "escape_clear kb \<Longrightarrow> escape_clear (snd (key_step e kb))"
proof (cases e)
  case (Break c)
  then show "escape_clear kb \<Longrightarrow> ?thesis" by (simp add: escape_clear_def bit_and_iff)
qed (simp add: key_clear)

text \<open>One event, as the bytes it sends.\<close>

lemma code_masks: "(0x80 :: u8) = 2 ^ 7" "(0x7F :: u8) = mask 7"
  by (simp_all add: mask_eq_exp_minus_1)

lemma high_bit: "(c :: u8) AND 0x80 = 0 \<longleftrightarrow> \<not> bit c 7"
  unfolding code_masks by (rule and_exp_eq_0_iff_not_bit)

lemma code_bits:
  "bit (c :: u8) 7 \<Longrightarrow> (c AND 0x7F) OR 0x80 = c"
  "\<not> bit (c :: u8) 7 \<Longrightarrow> (c OR 0x80) AND 0x7F = c"
  "\<not> bit ((c :: u8) AND 0x7F) 7" "bit ((c :: u8) OR 0x80) 7"
  unfolding code_masks
  by (auto intro!: bit_word_eqI simp: bit_or_iff bit_and_iff bit_exp_iff bit_mask_iff less_Suc_eq numeral_eq_Suc)

lemma escape_algebra:
  fixes s x :: u32
  assumes "\<not> bit s 6"
  shows "(s OR E0ESC) AND NOT E0ESC = s" "s AND NOT x AND NOT E0ESC = s AND NOT x" "(s OR E0ESC) AND NOT x AND NOT E0ESC = s AND NOT x"
    "bit (s OR E0ESC) 6"
proof -
  have e: "E0ESC = 2 ^ 6" by (simp add: E0ESC_def)
  have b: "bit E0ESC n \<longleftrightarrow> n = 6" for n unfolding e bit_exp_iff by auto
  show "(s OR E0ESC) AND NOT E0ESC = s" "s AND NOT x AND NOT E0ESC = s AND NOT x" "(s OR E0ESC) AND NOT x AND NOT E0ESC = s AND NOT x"
    "bit (s OR E0ESC) 6"
    using assms by (auto intro!: bit_word_eqI simp: bit_or_iff bit_and_iff bit_not_iff b)
qed

lemma escape_code: "bit (0xE0 :: u8) 7" "(0xE0 :: u8) AND 0x7F = 0x60"
  by simp_all

lemma drain_event:
  assumes clear: "escape_clear kb" and "sendable e"
  shows "\<exists>zs. kbd_drain (scan_bytes e) kb = (zs @ [fst (key_step e kb)], snd (key_step e kb)) \<and> set zs \<subseteq> {0}"
proof -
  have s: "\<not> bit (kb_shift kb) 6" using clear by (simp add: escape_clear_def)
  note alg = escape_algebra [OF s]
  have neq: "c \<noteq> 0xE0" if "\<not> bit c 7 \<or> c AND 0x7F \<noteq> 0x60" for c :: u8 using that escape_code by auto
  show ?thesis
  proof (cases e)
    case (Make c)
    show ?thesis
    proof (cases "bit c 7")
      case True
      have "c AND 0x7F \<noteq> 0xE0" using neq code_bits(3) by blast
      then have "kbd_drain (scan_bytes e) kb = ([0] @ [fst (kbd_key c kb)], snd (kbd_key c kb))"
        using True s Make by (simp add: kbd_proc_data_def high_bit escape_bit code_bits alg case_prod_unfold Let_def)
      then show ?thesis using Make by (intro exI [of _ "[0]"]) simp
    next
      case False
      then have "kbd_drain (scan_bytes e) kb = ([fst (kbd_key c kb)], snd (kbd_key c kb))"
        using s Make neq [of c] by (simp add: kbd_proc_data_def high_bit escape_bit case_prod_unfold Let_def)
      then show ?thesis using Make by (intro exI [of _ "[]"]) simp
    qed
  next
    case (Break c)
    then have c: "c AND 0x7F \<noteq> 0x60" using assms(2) by simp
    show ?thesis
    proof (cases "bit c 7")
      case True
      then have "kbd_drain (scan_bytes e) kb = ([0] @ [0], snd (key_step e kb))"
        using s Break neq [of c] c by (simp add: kbd_proc_data_def high_bit escape_bit alg)
      then show ?thesis using Break by (intro exI [of _ "[0]"]) simp
    next
      case False
      have "(c OR 0x80) AND 0x7F \<noteq> 0x60" using c False code_bits(2) [OF False] by (metis and.assoc and.idem)
      then have "kbd_drain (scan_bytes e) kb = ([0], snd (key_step e kb))"
        using s False Break neq [of "c OR 0x80"] by (simp add: kbd_proc_data_def high_bit escape_bit code_bits alg)
      then show ?thesis using Break by (intro exI [of _ "[]"]) simp
    qed
  qed
qed

lemma drain_append: "kbd_drain (as @ bs) kb =
    (let (cs, kb1) = kbd_drain as kb; (ds, kb2) = kbd_drain bs kb1 in (cs @ ds, kb2))"
  by (induction as arbitrary: kb) (auto simp: Let_def split: prod.split)

text \<open>C38: The driver decodes the byte stream of the keyboard: for any sequence of presses and releases of keys, the bytes that the
  keyboard sends for them give the characters, the modifiers and the side effects of pressing and releasing those keys one
  by one, and leave no escape pending. (A release of key \<open>0x60\<close> cannot be told from an escape.)\<close>

theorem kbd_decodes:
  assumes "escape_clear kb" and "list_all sendable es"
  shows "filter (\<lambda>c. c \<noteq> 0) (fst (kbd_drain (concat (map scan_bytes es)) kb)) = filter (\<lambda>c. c \<noteq> 0) (fst (key_run es kb)) \<and>
    snd (kbd_drain (concat (map scan_bytes es)) kb) = snd (key_run es kb) \<and> escape_clear (snd (key_run es kb))"
  using assms
proof (induction es arbitrary: kb)
  case (Cons e es)
  then obtain zs where z: "kbd_drain (scan_bytes e) kb = (zs @ [fst (key_step e kb)], snd (key_step e kb))" "set zs \<subseteq> {0}"
    using drain_event [of kb e] by auto
  then have "filter (\<lambda>c. c \<noteq> 0) zs = []" by (auto simp: filter_empty_conv)
  with Cons.IH [OF step_clear [OF Cons.prems(1)]] Cons.prems z show ?case
    by (auto simp: drain_append case_prod_unfold Let_def)
qed simp

definition demo_kbd :: kbd where
  "demo_kbd = \<lparr>kb_shift = 0, kb_video = video_init (\<lambda>_. 0x0720) 0 0, kb_reboot = False\<rparr>"

theorem kbd_decodes_witness:
  "filter (\<lambda>c. c \<noteq> 0) (fst (kbd_drain [0x2A, 0x1E, 0x9E, 0xAA, 0x1E, 0xE0, 0x47] demo_kbd)) = [65, 97, 0xE0]"
proof -
  let ?es = "[Make 0x2A, Make 0x1E, Break 0x1E, Break 0x2A, Make 0x1E, Make 0xC7]"
  have "filter (\<lambda>c. c \<noteq> 0) (fst (kbd_drain (concat (map scan_bytes ?es)) demo_kbd)) =
      filter (\<lambda>c. c \<noteq> 0) (fst (key_run ?es demo_kbd))"
    using kbd_decodes [of demo_kbd ?es] by (simp add: escape_clear_def demo_kbd_def)
  moreover have "concat (map scan_bytes ?es) = [0x2A, 0x1E, 0x9E, 0xAA, 0x1E, 0xE0, 0x47]" by simp
  moreover have "filter (\<lambda>c. c \<noteq> 0) (fst (key_run ?es demo_kbd)) = [65, 97, 0xE0]" by code_simp
  ultimately show ?thesis by simp
qed

text \<open>The table for the control key has the home key in the wrong place: with control held, the key gives no character.\<close>

lemma control_home_lost: "fst (kbd_key 0xC7 (demo_kbd\<lparr>kb_shift := CTL\<rparr>)) = 0"
  by code_simp

subsection \<open>The keyboard and the display\<close>

text \<open>Whatever is typed, the display keeps showing the terminal's text (theory VideoProps): the keys only scroll it.\<close>

lemma special_display: "vid_rel (kb_video kb) t \<Longrightarrow> vid_rel (kb_video (snd (kbd_special shift c kb))) t"
  by (auto simp: kbd_special_def Let_def scroll_rel)

lemma kbd_keeps_display: "vid_rel (kb_video kb) t \<Longrightarrow> vid_rel (kb_video (snd (kbd_drain bs kb))) t"
proof (induction bs arbitrary: kb)
  case (Cons b bs)
  have "vid_rel (kb_video (snd (kbd_proc_data (Some b) kb))) t"
    using Cons.prems by (auto simp: kbd_proc_data_def kbd_key_def Let_def special_display)
  then show ?case using Cons.IH by (simp add: case_prod_unfold Let_def)
qed simp

end
