(* ===== verification/Lineio.thy ===== *)
theory Lineio
  imports Prelude "HOL-Library.Multiset"
begin

text \<open>
  Reading a line with editing (\<open>lib/readline.c\<close>) and parsing command-line options (\<open>lib/getopt.c\<close>).
\<close>

subsection \<open>readline\<close>

definition BUFLEN :: nat where "BUFLEN = 1024"

text \<open>The outcome: still waiting for input, a null pointer, or the line before the null byte. The loop takes what successive calls of
  \<open>getchar\<close> return, and gives back what it left unread and what it echoed.\<close>

datatype line = Waiting | NoLine | Line "u8 list"

fun readline_loop :: "bool \<Rightarrow> int list \<Rightarrow> nat \<Rightarrow> (nat \<Rightarrow> u8) \<Rightarrow> line \<times> int list \<times> int list" where
  "readline_loop echoing [] i buf = (Waiting, [], [])"
| "readline_loop echoing (c # cs) i buf =
     (let echo = (\<lambda>x r. (case r of (l, rest, out) \<Rightarrow> (l, rest, if echoing then x # out else out))) in
      if c < 0 then (NoLine, cs, [])
      else if (c = 8 \<or> c = 0x7f) \<and> 0 < i then echo 8 (readline_loop echoing cs (i - 1) buf)
      else if 32 \<le> c \<and> i < BUFLEN - 1 then echo c (readline_loop echoing cs (i + 1) (buf(i := of_int c)))
      else if c = 10 \<or> c = 13 then echo 10 (Line (map buf [0..<i]), cs, [])
      else readline_loop echoing cs i buf)"

definition readline :: "bool \<Rightarrow> int list \<Rightarrow> (nat \<Rightarrow> u8) \<Rightarrow> line \<times> int list \<times> int list" where
  "readline echoing inp buf = readline_loop echoing inp 0 buf"

subsection \<open>getopt\<close>

record optst =
  optarg :: "string option"
  optind :: nat
  optopt :: int
  next_index :: nat

datatype opt_status = Good | Invalid | Missing

definition dash :: "string \<Rightarrow> bool" where "dash s \<longleftrightarrow> take 1 s = ''-''"

text \<open>The first option at or after an index, or the number of arguments.\<close>

fun next_opt :: "nat \<Rightarrow> string list \<Rightarrow> nat" where
  "next_opt i [] = i"
| "next_opt i (a # as) = (if dash a then i else next_opt (Suc i) as)"

text \<open>The first \<open>char\<close> of a string as an \<open>int\<close>: the type is signed.\<close>

definition char_code :: "string \<Rightarrow> int" where
  "char_code s = (case s of [] \<Rightarrow> 0 | c # _ \<Rightarrow> if of_char c < (128 :: int) then of_char c else of_char c - 256)"

text \<open>Looking an option up: its status, its argument, and whether the argument is the next string.\<close>

definition match_opt :: "string \<Rightarrow> string \<Rightarrow> string option \<Rightarrow> opt_status \<times> string option \<times> bool" where
  "match_opt optstring opt next =
     (case drop 1 opt of
        [] \<Rightarrow> (Invalid, None, False)
      | c # rest \<Rightarrow>
          (case dropWhile (\<lambda>x. x \<noteq> c) optstring of
             [] \<Rightarrow> (Invalid, None, False)
           | _ # tail \<Rightarrow>
               if take 1 tail = '':''
               then if rest \<noteq> [] then (Good, Some rest, False)
                 else if take 1 (drop 1 tail) \<noteq> '':'' \<and> next \<noteq> None then (Good, next, True)
                 else (Missing, None, False)
               else (Good, None, False)))"

text \<open>The reordered argument vector.\<close>

definition move_opt :: "nat \<Rightarrow> nat \<Rightarrow> bool \<Rightarrow> string list \<Rightarrow> string list" where
  "move_opt nxt cur two argv =
     take nxt argv @ [argv ! cur] @ (if two then [argv ! (cur + 1)] else []) @
     take (cur - nxt) (drop nxt argv) @ drop (if two then cur + 2 else cur + 1) argv"

definition getopt :: "string \<Rightarrow> string list \<Rightarrow> optst \<Rightarrow> int \<times> string list \<times> optst" where
  "getopt optstring argv st =
     (let argc = length argv; cur = next_opt (optind st) (drop (optind st) argv) in
      if cur = argc then (- 1, argv, st\<lparr>optarg := None\<rparr>)
      else let opt = argv ! cur;
               (status, arg, two) = match_opt optstring opt (if cur + 1 < argc then Some (argv ! (cur + 1)) else None);
               argv' = move_opt (next_index st) cur two argv;
               nxt = next_index st + (if two \<and> next_index st < argc then 2 else 1);
               ind = next_opt nxt (drop nxt argv');
               c = char_code (drop 1 opt);
               st' = st\<lparr>optarg := arg, next_index := nxt, optind := (if ind = argc then nxt else ind),
                        optopt := (if status = Good then 0 else c)\<rparr>
        in (case status of Good \<Rightarrow> c | Invalid \<Rightarrow> of_char (CHR ''?'') | Missing \<Rightarrow> of_char (CHR '':''), argv', st'))"

text \<open>The usual loop of a program over its options, for at most \<open>n\<close> calls.\<close>

fun getopt_loop :: "nat \<Rightarrow> string \<Rightarrow> string list \<Rightarrow> optst \<Rightarrow> (int list \<times> string list \<times> optst) option" where
  "getopt_loop 0 optstring argv st = None"
| "getopt_loop (Suc n) optstring argv st =
     (let (c, argv', st') = getopt optstring argv st
      in if c = - 1 then Some ([], argv', st')
         else map_option (\<lambda>(cs, r). (c # cs, r)) (getopt_loop n optstring argv' st'))"

definition opt_start :: optst where "opt_start = \<lparr>optarg = None, optind = 1, optopt = 0, next_index = 1\<rparr>"

subsection \<open>What readline returns\<close>

text \<open>Editing a line that is a list.\<close>

definition edit_char :: "int \<Rightarrow> u8 list \<Rightarrow> u8 list" where
  "edit_char c l =
     (if (c = 8 \<or> c = 0x7f) \<and> l \<noteq> [] then butlast l
      else if 32 \<le> c \<and> length l < BUFLEN - 1 then l @ [of_int c] else l)"

definition in_line :: "int \<Rightarrow> bool" where "in_line c \<longleftrightarrow> 0 \<le> c \<and> c \<noteq> 10 \<and> c \<noteq> 13"

lemma edit_length: "length l < BUFLEN \<Longrightarrow> length (fold edit_char cs l) < BUFLEN"
  by (induction cs arbitrary: l) (auto simp: edit_char_def)

lemma map_upd_below: "map (buf(i := x)) [0..<i] = map buf [0..<i]"
  by simp

lemma readline_loop_edits:
  assumes "list_all in_line cs" and "c = 10 \<or> c = 13"
  shows "\<exists>out. readline_loop e (cs @ c # rest) i buf = (Line (fold edit_char cs (map buf [0..<i])), rest, out)"
  using assms(1)
proof (induction cs arbitrary: i buf)
  case Nil
  then show ?case using assms(2) by (auto simp: Let_def)
next
  case (Cons d cs)
  then have cs: "list_all in_line cs" and "in_line d" by simp_all
  then have d: "0 \<le> d" "d \<noteq> 10" "d \<noteq> 13" by (auto simp: in_line_def)
  let ?l = "map buf [0..<i]"
  consider (del) "(d = 8 \<or> d = 0x7f) \<and> 0 < i" | (ins) "\<not> ((d = 8 \<or> d = 0x7f) \<and> 0 < i)" "32 \<le> d" "i < BUFLEN - 1"
    | (skip) "\<not> ((d = 8 \<or> d = 0x7f) \<and> 0 < i)" "\<not> (32 \<le> d \<and> i < BUFLEN - 1)" by blast
  then show ?case
  proof cases
    case del
    then have "edit_char d ?l = map buf [0..<i - 1]" by (cases i) (auto simp: edit_char_def)
    with Cons.IH [OF cs, of "i - 1" buf] del d show ?thesis by (auto simp: Let_def)
  next
    case ins
    let ?buf = "buf(i := of_int d)"
    have "edit_char d ?l = map ?buf [0..<Suc i]" using ins by (auto simp: edit_char_def)
    then obtain out where "readline_loop e (cs @ c # rest) (Suc i) ?buf = (Line (fold edit_char cs (edit_char d ?l)), rest, out)"
      using Cons.IH [OF cs, of "Suc i" ?buf] by metis
    then show ?thesis using ins d by (cases "d = 0x7f") (simp_all add: Let_def)
  next
    case skip
    then have "edit_char d ?l = ?l" by (auto simp: edit_char_def)
    with Cons.IH [OF cs, of i buf] skip d show ?thesis by (auto simp: Let_def)
  qed
qed

text \<open>C39: A line ended by newline or carriage return is returned as the list editor makes it: printable characters appended up
  to 1023 of them, backspace and delete removing the last; what follows stays unread, and the line fits the buffer with its
  null byte.\<close>

theorem readline_edits:
  assumes "list_all in_line cs" and "c = 10 \<or> c = 13"
  shows "\<exists>out. readline e (cs @ c # rest) buf = (Line (fold edit_char cs []), rest, out) \<and> length (fold edit_char cs []) < BUFLEN"
  using readline_loop_edits [OF assms, of e rest 0 buf] edit_length [of "[]" cs] by (simp add: readline_def BUFLEN_def)

theorem readline_edits_witness:
  "\<exists>out. readline True [104, 111, 8, 105, 10, 120] (\<lambda>_. 0) = (Line [104, 105], [120], out)"
  using readline_edits [of "[104, 111, 8, 105]" 10 True "[120]" "\<lambda>_. 0"] by (simp add: in_line_def edit_char_def BUFLEN_def)

text \<open>A delete at the start of a line, where there is nothing to delete, becomes a character of the line.\<close>

lemma delete_at_start: "readline False [0x7f, 10] buf = (Line [0x7f], [], [])"
  by (simp add: readline_def BUFLEN_def)

subsection \<open>Going through the options\<close>

lemma next_opt_range: "i \<le> next_opt i as \<and> next_opt i as \<le> i + length as \<and>
    (\<forall>j. i \<le> j \<and> j < next_opt i as \<longrightarrow> \<not> dash (as ! (j - i))) \<and> (next_opt i as < i + length as \<longrightarrow> dash (as ! (next_opt i as - i)))"
proof (induction as arbitrary: i)
  case (Cons a as)
  have "\<not> dash ((a # as) ! (j - i))" if "\<not> dash a" "i \<le> j" "j < next_opt (Suc i) as" for j
    using Cons.IH [of "Suc i"] that by (cases "j = i") (auto simp: nth_Cons')
  with Cons.IH [of "Suc i"] show ?case by (auto simp: nth_Cons')
qed auto

lemma next_opt_drop:
  assumes "i \<le> length argv"
  shows "i \<le> next_opt i (drop i argv)" "next_opt i (drop i argv) \<le> length argv"
    "\<And>j. i \<le> j \<Longrightarrow> j < next_opt i (drop i argv) \<Longrightarrow> \<not> dash (argv ! j)"
    "next_opt i (drop i argv) < length argv \<Longrightarrow> dash (argv ! next_opt i (drop i argv))"
  using next_opt_range [of i "drop i argv"] assms by (auto simp: add.commute)

text \<open>The vector is cut in four and put together again.\<close>

lemma move_opt_mset:
  assumes "nxt \<le> cur" and "cur < length argv" and "two \<longrightarrow> cur + 1 < length argv"
  shows "mset (move_opt nxt cur two argv) = mset argv"
proof -
  have "argv = take nxt argv @ take (cur - nxt) (drop nxt argv) @ drop cur argv"
    using assms(1) by (metis append_take_drop_id drop_drop le_add_diff_inverse2)
  also have "drop cur argv = [argv ! cur] @ (if two then [argv ! (cur + 1)] else []) @ drop (if two then cur + 2 else cur + 1) argv"
    using assms(2,3) by (auto simp: Cons_nth_drop_Suc)
  finally have "mset argv = mset (take nxt argv) + (mset (take (cur - nxt) (drop nxt argv)) + (mset [argv ! cur] +
      (mset (if two then [argv ! (cur + 1)] else []) + mset (drop (if two then cur + 2 else cur + 1) argv))))"
    by (metis mset_append)
  then show ?thesis by (simp add: move_opt_def ac_simps)
qed

text \<open>Options are only looked for after those already seen, and nothing between is one.\<close>

definition opt_inv :: "string list \<Rightarrow> optst \<Rightarrow> bool" where
  "opt_inv argv st \<longleftrightarrow> next_index st \<le> optind st \<and> next_index st \<le> length argv \<and>
     (optind st = next_index st \<or> optind st < length argv) \<and>
     (\<forall>j. next_index st \<le> j \<and> j < optind st \<longrightarrow> \<not> dash (argv ! j))"

lemma match_two: "match_opt optstring opt next = (s, a, True) \<Longrightarrow> next \<noteq> None"
  by (auto simp: match_opt_def split: list.splits if_splits)

definition opt_done :: "string list \<Rightarrow> optst \<Rightarrow> bool" where
  "opt_done argv st \<longleftrightarrow> (\<forall>j. optind st \<le> j \<and> j < length argv \<longrightarrow> \<not> dash (argv ! j))"

lemma getopt_step:
  assumes inv: "opt_inv argv st" and g: "getopt optstring argv st = (c, argv', st')"
  shows "mset argv' = mset argv \<and> opt_inv argv' st' \<and>
    (c = - 1 \<and> argv' = argv \<and> opt_done argv st' \<or> next_index st < next_index st' \<and> (\<exists>s\<in>set argv. c = char_code (drop 1 s) \<or> 0 \<le> c))"
proof -
  let ?cur = "next_opt (optind st) (drop (optind st) argv)"
  have oi: "optind st \<le> length argv" using inv by (auto simp: opt_inv_def)
  note cur = next_opt_drop [OF oi]
  show ?thesis
  proof (cases "?cur = length argv")
    case True
    then have r: "c = - 1" "argv' = argv" "st' = st\<lparr>optarg := None\<rparr>" using g by (auto simp: getopt_def Let_def)
    then show ?thesis using inv cur True by (auto simp: opt_inv_def opt_done_def)
  next
    case False
    then have lt: "?cur < length argv" using cur(2) by simp
    obtain s a two where m: "match_opt optstring (argv ! ?cur) (if ?cur + 1 < length argv then Some (argv ! (?cur + 1)) else None) = (s, a, two)"
      by (metis prod_cases3)
    have two: "two \<longrightarrow> ?cur + 1 < length argv" using match_two m by (metis (full_types))
    have nc: "next_index st \<le> ?cur" using inv cur(1) by (auto simp: opt_inv_def)
    have ms: "mset (move_opt (next_index st) ?cur two argv) = mset argv" by (rule move_opt_mset [OF nc lt two])
    define nxt where "nxt = next_index st + (if two \<and> next_index st < length argv then 2 else 1)"
    have r: "argv' = move_opt (next_index st) ?cur two argv" "next_index st' = nxt"
      "optind st' = (let i = next_opt nxt (drop nxt argv') in if i = length argv then nxt else i)"
      "c = char_code (drop 1 (argv ! ?cur)) \<or> 0 \<le> c"
      using g False m by (auto simp: getopt_def Let_def nxt_def split: opt_status.splits)
    have len: "length argv' = length argv" using ms r(1) mset_eq_length by metis
    have nl: "nxt \<le> length argv'" "next_index st < nxt" using two nc lt len by (auto simp: nxt_def)
    note n = next_opt_drop [OF nl(1)]
    have "opt_inv argv' st'" using n r(2,3) len nl by (auto simp: opt_inv_def Let_def)
    then show ?thesis using ms r nl nth_mem [OF lt] by auto
  qed
qed

text \<open>The first character of an option in ASCII is not negative, so only the end of the options gives \<open>-1\<close>.\<close>

definition ascii :: "string \<Rightarrow> bool" where "ascii s \<longleftrightarrow> (\<forall>c\<in>set s. of_char c < (128 :: nat))"

lemma char_code_ascii: "ascii s \<Longrightarrow> 0 \<le> char_code (drop n s)"
proof (cases "drop n s")
  case (Cons c cs)
  assume "ascii s"
  moreover have "c \<in> set s" using Cons in_set_dropD [of c n s] by simp
  ultimately have "of_char c < (128 :: int)" by (auto simp: ascii_def of_char_def) 
  then show ?thesis by (simp add: Cons char_code_def of_char_def)
qed (simp add: char_code_def)

lemma getopt_loop_ends:
  assumes "opt_inv argv st" and "length argv - next_index st < n"
  shows "\<exists>cs argv' st'. getopt_loop n optstring argv st = Some (cs, argv', st') \<and> mset argv' = mset argv \<and> opt_inv argv' st' \<and>
    (list_all ascii argv \<longrightarrow> opt_done argv' st')"
  using assms
proof (induction n arbitrary: argv st)
  case (Suc n)
  obtain c argv1 st1 where g: "getopt optstring argv st = (c, argv1, st1)" by (metis prod_cases3)
  note s = getopt_step [OF Suc.prems(1) g]
  show ?case
  proof (cases "c = - 1")
    case True
    have "opt_done argv1 st1" if "list_all ascii argv"
    proof -
      have "0 \<le> char_code (drop 1 s)" if "s \<in> set argv" for s
        using \<open>list_all ascii argv\<close> that by (simp add: list_all_iff char_code_ascii)
      with s True show ?thesis by fastforce
    qed
    with g s True show ?thesis by auto
  next
    case False
    have "length argv1 = length argv" using s mset_eq_length by blast
    then have "length argv1 - next_index st1 < n" using s False Suc.prems by (auto simp: opt_inv_def)
    with Suc.IH [of argv1 st1] s obtain cs argv' st' where "getopt_loop n optstring argv1 st1 = Some (cs, argv', st')"
      "mset argv' = mset argv" "opt_inv argv' st'" "list_all ascii argv1 \<longrightarrow> opt_done argv' st'" by auto
    moreover have "list_all ascii argv1 = list_all ascii argv" using s by (metis list_all_iff mset_eq_setD)
    ultimately show ?thesis using g False by auto
  qed
qed simp

text \<open>C40: A program that calls \<open>getopt\<close> until it returns \<open>-1\<close> gets there after at most as many calls as it has arguments; the
  argument vector is only reordered, and if the arguments are ASCII, none from \<open>optind\<close> on starts with a dash: they are the
  operands.\<close>

theorem getopt_terminates:
  assumes "argv \<noteq> []"
  shows "\<exists>cs argv' st'. getopt_loop (length argv) optstring argv opt_start = Some (cs, argv', st') \<and> mset argv' = mset argv \<and>
    (list_all ascii argv \<longrightarrow> opt_done argv' st')"
proof -
  have "opt_inv argv opt_start" "length argv - next_index opt_start < length argv"
    using assms by (cases argv; simp add: opt_inv_def opt_start_def)+
  from getopt_loop_ends [OF this, of optstring] show ?thesis by blast
qed

theorem getopt_terminates_witness:
  "\<exists>cs argv' st'. getopt_loop 5 ''ab:'' [''prog'', ''x'', ''-b'', ''y'', ''-a''] opt_start = Some (cs, argv', st') \<and>
    mset argv' = mset [''prog'', ''x'', ''-b'', ''y'', ''-a''] \<and> opt_done argv' st'"
  using getopt_terminates [of "[''prog'', ''x'', ''-b'', ''y'', ''-a'']" "''ab:''"] by (simp add: ascii_def numeral_eq_Suc)

end
