(* ===== verification/Shell.thy ===== *)
theory Shell
  imports ExecThms Unistd
begin

text \<open>
  The command shell's parser and command runner (\<open>user/sh.c\<close>). The tokeniser works in place: it overwrites white space and
  symbols by null bytes, one token ahead of what it returns, so that a word is terminated by the time it is used.

  \<open>None\<close> is a loop that does not end, a failed assertion in a called function, or a store outside an array.
\<close>

definition MAXARGS :: nat where "MAXARGS = 256"
definition BUFSIZ :: nat where "BUFSIZ = 1024"

definition WHITESPACE :: "u8 \<Rightarrow> bool" where "WHITESPACE c \<longleftrightarrow> c \<in> {32, 9, 13, 10}"
definition SYMBOLS :: "u8 \<Rightarrow> bool" where "SYMBOLS c \<longleftrightarrow> c \<in> {60, 124, 62, 38, 59, 40, 41}"

subsection \<open>Tokens\<close>

partial_function (option) skip_white :: "nat \<Rightarrow> bytes \<Rightarrow> (nat \<times> bytes) option" where
  "skip_white s m = (if m s \<noteq> 0 \<and> WHITESPACE (m s) then skip_white (s + 1) (m(s := 0)) else Some (s, m))"

partial_function (option) word_end :: "nat \<Rightarrow> bytes \<Rightarrow> nat option" where
  "word_end s m = (if m s \<noteq> 0 \<and> \<not> (WHITESPACE (m s) \<or> SYMBOLS (m s)) then word_end (s + 1) m else Some s)"

text \<open>The static variables of \<open>gettoken\<close>, with the memory. A null pointer is 0.\<close>

record tokst =
  tk_nc :: u8
  tk_np1 :: nat
  tk_np2 :: nat
  tk_mem :: bytes

text \<open>\<open>_gettoken\<close>, with the two pointers it sets.\<close>

definition gettoken1 :: "nat \<Rightarrow> tokst \<Rightarrow> tokst option" where
  "gettoken1 s st =
     (if s = 0 then Some (st\<lparr>tk_nc := 0\<rparr>)
      else do {
        (q, m) \<leftarrow> skip_white s (tk_mem st);
        (if m q = 0 then Some \<lparr>tk_nc = 0, tk_np1 = 0, tk_np2 = 0, tk_mem = m\<rparr>
         else if SYMBOLS (m q) then Some \<lparr>tk_nc = m q, tk_np1 = q, tk_np2 = q + 1, tk_mem = m(q := 0)\<rparr>
         else do {
           e \<leftarrow> word_end q m;
           Some \<lparr>tk_nc = 119, tk_np1 = q, tk_np2 = e, tk_mem = m\<rparr>
         })
      })"

text \<open>\<open>gettoken(s, 0)\<close> and \<open>gettoken(0, token)\<close>.\<close>

definition gettoken_start :: "nat \<Rightarrow> tokst \<Rightarrow> tokst option" where
  "gettoken_start s st = do { cassert (s \<noteq> 0); gettoken1 s st }"

definition gettoken :: "tokst \<Rightarrow> (u8 \<times> nat \<times> tokst) option" where
  "gettoken st = do { st1 \<leftarrow> gettoken1 (tk_np2 st) st; Some (tk_nc st, tk_np1 st, st1) }"

subsection \<open>Commands\<close>

partial_function (option) read_cstr :: "bytes \<Rightarrow> nat \<Rightarrow> u8 list option" where
  "read_cstr m p = (if m p = 0 then Some [] else do { s \<leftarrow> read_cstr m (p + 1); Some (m p # s) })"

definition path_of :: "u8 list \<Rightarrow> string" where "path_of s = map (\<lambda>c. char_of (unat c)) s"

datatype sh_exit = TooManyArguments | SyntaxError | OpenFailed | BadToken | EmptyCommand

text \<open>Opening a file onto descriptor \<open>d\<close>: \<open>False\<close> if it cannot be opened.\<close>

definition redirect :: "nat \<Rightarrow> u32 \<Rightarrow> u32 \<Rightarrow> string \<Rightarrow> filestate \<Rightarrow> (bool \<times> filestate) option" where
  "redirect d flags mode path fs = do {
     (fd, fs1) \<leftarrow> open_fn path flags mode fs;
     (if fd < 0 then Some (False, fs1)
      else if fd \<noteq> int d then do {
        (_, fs2) \<leftarrow> dup2 (nat fd) d fs1;
        (_, fs3) \<leftarrow> close_fn (nat fd) fs2;
        Some (True, fs3)
      }
      else Some (True, fs1))
   }"

text \<open>The loop of \<open>runcmd\<close> over the tokens, collecting pointers to the arguments. The mode of a file created by \<open>>\<close> is not
  passed to \<open>open\<close>: \<open>mode\<close> is whatever the register for it holds.\<close>

partial_function (option) runcmd_loop ::
  "u32 \<Rightarrow> tokst \<Rightarrow> nat list \<Rightarrow> filestate \<Rightarrow> ((sh_exit + nat list) \<times> tokst \<times> filestate) option" where
  "runcmd_loop mode st argv fs = do {
     (c, t, st1) \<leftarrow> gettoken st;
     (if c = 119
      then if length argv = MAXARGS then Some (Inl TooManyArguments, st1, fs) else runcmd_loop mode st1 (argv @ [t]) fs
      else if c = 60 \<or> c = 62
      then do {
        (c2, t2, st2) \<leftarrow> gettoken st1;
        (if c2 \<noteq> 119 then Some (Inl SyntaxError, st2, fs)
         else do {
           name \<leftarrow> read_cstr (tk_mem st2) t2;
           (ok, fs1) \<leftarrow> (if c = 60 then redirect 0 O_RDONLY mode (path_of name) fs
             else redirect 1 (O_WRONLY OR O_CREAT OR O_TRUNC) mode (path_of name) fs);
           (if ok then runcmd_loop mode st2 argv fs1 else Some (Inl OpenFailed, st2, fs1))
         })
      }
      else if c = 0 then Some (Inr argv, st1, fs)
      else Some (Inl BadToken, st1, fs))
   }"

text \<open>The command's name gets a slash in front, in a buffer of its own; the vector gets a null pointer at its end.\<close>

definition command_args :: "u8 list list \<Rightarrow> u8 list list option" where
  "command_args args = do {
     cassert (length args < MAXARGS);
     (case args of
        [] \<Rightarrow> Some []
      | a # as \<Rightarrow>
          if take 1 a = [47] then Some args
          else do { cassert (length a + 2 \<le> BUFSIZ); Some ((47 # a) # as) })
   }"

definition runcmd :: "u64 \<Rightarrow> u32 \<Rightarrow> nat \<Rightarrow> bytes \<Rightarrow> execst \<Rightarrow> (sh_exit + execst + program) option" where
  "runcmd start mode s m est = do {
     st0 \<leftarrow> gettoken_start s \<lparr>tk_nc = 0, tk_np1 = 0, tk_np2 = 0, tk_mem = m\<rparr>;
     (r, st, fs) \<leftarrow> runcmd_loop mode st0 [] (x_files est);
     (case r of
        Inl e \<Rightarrow> Some (Inl e)
      | Inr ptrs \<Rightarrow>
          if ptrs = [] then Some (Inl EmptyCommand)
          else do {
            args \<leftarrow> those (map (read_cstr (tk_mem st)) ptrs);
            argv \<leftarrow> command_args args;
            x \<leftarrow> execv start (path_of (hd argv)) argv (est\<lparr>x_files := fs\<rparr>);
            Some (Inr x)
          })
   }"

text \<open>What \<open>main\<close> does with a line of input, or with the end of the input: \<open>Run\<close> forks a child that calls \<open>runcmd\<close> on the line,
  and waits for it.\<close>

datatype sh_action = Finish | Skip | PrintCwd | Run "u8 list"

definition main_line :: "u8 list option \<Rightarrow> sh_action" where
  "main_line buf = (case buf of
     None \<Rightarrow> Finish
   | Some s \<Rightarrow>
       if take 1 s = [35] then Skip
       else if s = [101, 120, 105, 116] then Finish
       else if s = [99, 119, 100] then PrintCwd
       else Run s)"

subsection \<open>The tokens of a line\<close>

text \<open>A lexer on the text of the line, with no memory: a word has code 119 and its text, a symbol its own code.\<close>

abbreviation wordchar :: "u8 \<Rightarrow> bool" where "wordchar c \<equiv> \<not> WHITESPACE c \<and> \<not> SYMBOLS c"

function lex :: "u8 list \<Rightarrow> (u8 \<times> u8 list) list" where
  "lex s = (case dropWhile WHITESPACE s of
     [] \<Rightarrow> []
   | c # r \<Rightarrow> if SYMBOLS c then (c, []) # lex r else (119, takeWhile wordchar (c # r)) # lex (dropWhile wordchar (c # r)))"
  by pat_completeness auto
termination
proof (relation "measure length")
  fix s c r
  assume d: "dropWhile WHITESPACE s = c # r"
  have l: "Suc (length r) \<le> length s" using length_dropWhile_le [of WHITESPACE s] by (simp add: d)
  show "(r, s) \<in> measure length" using l by simp
  assume "\<not> SYMBOLS c"
  moreover have "\<not> WHITESPACE c" using d by (simp add: dropWhile_eq_Cons_conv)
  ultimately have "length (dropWhile wordchar (c # r)) \<le> length r" using length_dropWhile_le [of wordchar r] by simp
  then show "(dropWhile wordchar (c # r), s) \<in> measure length" using l by simp
qed simp

declare lex.simps [simp del]

lemma skip_white_cstr:
  "cstr m p s \<Longrightarrow> \<exists>m'. skip_white p m = Some (p + length (takeWhile WHITESPACE s), m') \<and>
     cstr m' (p + length (takeWhile WHITESPACE s)) (dropWhile WHITESPACE s) \<and>
     (\<forall>a. a < p \<longrightarrow> m' a = m a) \<and> (takeWhile WHITESPACE s \<noteq> [] \<longrightarrow> m' p = 0)"
proof (induction s arbitrary: m p)
  case Nil
  then show ?case by (simp add: skip_white.simps)
next
  case (Cons c s)
  have f: "cstr (m(p := 0)) (p + 1) s" using Cons.prems by (subst cstr_shift [of _ _ _ m "p + 1"]) auto
  show ?case
  proof (cases "WHITESPACE c")
    case True
    obtain m' where "skip_white (p + 1) (m(p := 0)) = Some (p + 1 + length (takeWhile WHITESPACE s), m')"
      "cstr m' (p + 1 + length (takeWhile WHITESPACE s)) (dropWhile WHITESPACE s)"
      "\<forall>a. a < p + 1 \<longrightarrow> m' a = (m(p := 0)) a"
      using Cons.IH [OF f] by blast
    then show ?thesis using True Cons.prems by (subst skip_white.simps) auto
  next
    case False
    then show ?thesis using Cons.prems by (subst skip_white.simps) auto
  qed
qed

lemma word_end_cstr: "cstr m p s \<Longrightarrow> word_end p m = Some (p + length (takeWhile wordchar s))"
proof (induction s arbitrary: p)
  case Nil
  then show ?case by (simp add: word_end.simps)
next
  case (Cons c s)
  then show ?case by (subst word_end.simps) auto
qed

lemma read_cstr_cstr: "cstr m p s \<Longrightarrow> read_cstr m p = Some s"
proof (induction s arbitrary: p)
  case Nil
  then show ?case by (simp add: read_cstr.simps)
next
  case (Cons c s)
  then show ?case by (subst read_cstr.simps) auto
qed

lemma cstr_append_drop: "cstr m p (u @ v) \<Longrightarrow> cstr m (p + length u) v"
proof (induction u arbitrary: p)
  case (Cons c u)
  from Cons.prems have "cstr m (p + 1 + length u) v" by (intro Cons.IH) auto
  then show ?case by simp
qed simp

lemma cstr_prefix:
  "cstr m p (u @ v) \<Longrightarrow> (\<And>a. a < p + length u \<Longrightarrow> m' a = m a) \<Longrightarrow> m' (p + length u) = 0 \<Longrightarrow> cstr m' p u"
proof (induction u arbitrary: p)
  case (Cons c u)
  from Cons.prems have "cstr m' (p + 1) u" by (intro Cons.IH) auto
  then show ?case using Cons.prems by auto
qed simp

text \<open>The state of the tokeniser when the tokens still to be returned are \<open>ts\<close>: the first of them is already in the static
  variables, the others are still text.\<close>

definition tok_inv :: "tokst \<Rightarrow> (u8 \<times> u8 list) list \<Rightarrow> bool" where
  "tok_inv st ts \<longleftrightarrow> (case ts of
     [] \<Rightarrow> tk_nc st = 0 \<and> tk_np2 st = 0
   | (c, w) # r \<Rightarrow> tk_nc st = c \<and> c \<noteq> 0 \<and> 0 < tk_np2 st \<and> (\<exists>rest. cstr (tk_mem st) (tk_np2 st) rest \<and> lex rest = r \<and>
       (c = 119 \<longrightarrow> cstr (tk_mem st) (tk_np1 st) (w @ rest) \<and> tk_np2 st = tk_np1 st + length w \<and> takeWhile wordchar rest = [])))"

text \<open>An argument already returned: no later call of the tokeniser writes to it.\<close>

definition arg_ok :: "tokst \<Rightarrow> nat \<Rightarrow> u8 list \<Rightarrow> bool" where
  "arg_ok st p w \<longleftrightarrow> cstr (tk_mem st) p w \<and> (tk_np2 st \<noteq> 0 \<longrightarrow> p + length w < tk_np2 st)"

definition args_kept :: "tokst \<Rightarrow> tokst \<Rightarrow> bool" where
  "args_kept st st' \<longleftrightarrow> (\<forall>p w. arg_ok st p w \<longrightarrow> arg_ok st' p w)"

lemma symbol_codes: "\<not> SYMBOLS 119" "\<not> SYMBOLS 0" "WHITESPACE c \<Longrightarrow> \<not> SYMBOLS c"
  by (auto simp: SYMBOLS_def WHITESPACE_def)

lemma gettoken1_lex:
  assumes p: "0 < p" and s: "cstr (tk_mem st) p s"
  shows "\<exists>st'. gettoken1 p st = Some st' \<and> tok_inv st' (lex s) \<and> (\<forall>a < p. tk_mem st' a = tk_mem st a) \<and>
    (takeWhile wordchar s = [] \<longrightarrow> tk_mem st' p = 0 \<and> (tk_np2 st' \<noteq> 0 \<longrightarrow> p < tk_np2 st')) \<and> (tk_np2 st' \<noteq> 0 \<longrightarrow> p \<le> tk_np2 st')"
proof -
  define q where "q = p + length (takeWhile WHITESPACE s)"
  obtain m where m: "skip_white p (tk_mem st) = Some (q, m)" "cstr m q (dropWhile WHITESPACE s)"
    "\<forall>a. a < p \<longrightarrow> m a = tk_mem st a" "takeWhile WHITESPACE s \<noteq> [] \<longrightarrow> m p = 0"
    using skip_white_cstr [OF s] unfolding q_def by blast
  have q: "p \<le> q" "0 < q" "q = p \<longleftrightarrow> takeWhile WHITESPACE s = []" using p by (auto simp: q_def)
  show ?thesis
  proof (cases "dropWhile WHITESPACE s")
    case Nil
    then have "m q = 0" using m(2) by (simp only: Nil cstr.simps)
    moreover have "lex s = []" by (simp only: lex.simps [of s] Nil list.case)
    ultimately show ?thesis using p m(1,3,4) q by (cases "q = p") (auto simp: gettoken1_def tok_inv_def)
  next
    case (Cons c r)
    have mq: "m q = c" "c \<noteq> 0" "cstr m (q + 1) r" using m(2) Cons by auto
    have nw: "\<not> WHITESPACE c" using Cons by (simp add: dropWhile_eq_Cons_conv)
    have start: "takeWhile WHITESPACE s = [] \<Longrightarrow> s = c # r" using Cons takeWhile_dropWhile_id [of WHITESPACE s] by simp
    show ?thesis
    proof (cases "SYMBOLS c")
      case True
      have "cstr (m(q := 0)) (q + 1) r" using mq(3) by (subst cstr_shift [of _ _ _ m "q + 1"]) auto
      then show ?thesis using p m(1,3,4) q mq True Cons symbol_codes
        by (cases "q = p") (auto simp: gettoken1_def lex.simps [of s] tok_inv_def)
    next
      case False
      define w rest where "w = takeWhile wordchar (c # r)" and "rest = dropWhile wordchar (c # r)"
      have e: "word_end q m = Some (q + length w)" using word_end_cstr [of m q "c # r"] m(2) Cons by (simp add: w_def)
      have w: "cstr m q (w @ rest)" "0 < length w" using m(2) Cons False nw by (auto simp: w_def rest_def)
      have rest: "takeWhile wordchar rest = []"
        using hd_dropWhile [of wordchar "c # r"] by (cases rest) (auto simp: rest_def)
      have l: "lex s = (119, w) # lex rest" using False by (simp only: lex.simps [of s] Cons list.case if_False w_def rest_def)
      have n: "takeWhile wordchar s = [] \<Longrightarrow> q \<noteq> p" using start q(3) False nw by auto
      define st' where "st' = \<lparr>tk_nc = 119, tk_np1 = q, tk_np2 = q + length w, tk_mem = m\<rparr>"
      have "gettoken1 p st = Some st'" using p m(1) mq False e by (simp add: gettoken1_def st'_def)
      moreover have "tok_inv st' (lex s)"
        using cstr_append_drop [OF w(1)] w rest q by (auto simp: tok_inv_def l st'_def)
      moreover have "takeWhile wordchar s = [] \<Longrightarrow> m p = 0 \<and> p < q + length w" using n q m(4) by auto
      ultimately show ?thesis using m(3) q(1) by (auto simp: st'_def)
    qed
  qed
qed

lemma gettoken_end:
  assumes "tok_inv st []"
  shows "\<exists>t st'. gettoken st = Some (0, t, st') \<and> tok_inv st' [] \<and> args_kept st st'"
  using assms by (auto simp: tok_inv_def gettoken_def gettoken1_def args_kept_def arg_ok_def)

lemma gettoken_token:
  assumes i: "tok_inv st ((c, w) # ts)"
  shows "\<exists>t st'. gettoken st = Some (c, t, st') \<and> tok_inv st' ts \<and> args_kept st st' \<and> (c = 119 \<longrightarrow> arg_ok st' t w)"
proof -
  define p where "p = tk_np2 st"
  obtain rest where c: "tk_nc st = c" "0 < p" "cstr (tk_mem st) p rest" "lex rest = ts" and
    w: "c = 119 \<Longrightarrow> cstr (tk_mem st) (tk_np1 st) (w @ rest) \<and> p = tk_np1 st + length w \<and> takeWhile wordchar rest = []"
    using i by (auto simp: tok_inv_def p_def)
  obtain st' where g: "gettoken1 p st = Some st'" "tok_inv st' ts" "\<forall>a < p. tk_mem st' a = tk_mem st a"
    "takeWhile wordchar rest = [] \<longrightarrow> tk_mem st' p = 0 \<and> (tk_np2 st' \<noteq> 0 \<longrightarrow> p < tk_np2 st')" "tk_np2 st' \<noteq> 0 \<longrightarrow> p \<le> tk_np2 st'"
    using gettoken1_lex [OF c(2,3)] c(4) by blast
  have "arg_ok st' a v" if "arg_ok st a v" for a v
  proof -
    have a: "cstr (tk_mem st) a v" "a + length v < p" using that c(2) by (auto simp: arg_ok_def p_def)
    then have "cstr (tk_mem st') a v" using g(3) by (subst cstr_shift [of _ _ _ "tk_mem st" a]) auto
    then show ?thesis using a(2) g(5) by (auto simp: arg_ok_def)
  qed
  moreover have "arg_ok st' (tk_np1 st) w" if "c = 119"
    using w [OF that] g(3,4) cstr_prefix [of "tk_mem st" "tk_np1 st" w rest "tk_mem st'"] by (auto simp: arg_ok_def)
  ultimately show ?thesis using g(1,2) c(1) by (auto simp: gettoken_def p_def args_kept_def)
qed

subsection \<open>The command of a line\<close>

text \<open>A shell on the tokens of the line, with the words themselves for arguments.\<close>

fun run_tokens :: "u32 \<Rightarrow> (u8 \<times> u8 list) list \<Rightarrow> u8 list list \<Rightarrow> filestate \<Rightarrow> ((sh_exit + u8 list list) \<times> filestate) option" where
  "run_tokens mode [] args fs = Some (Inr args, fs)"
| "run_tokens mode ((c, w) # ts) args fs =
     (if c = 119
      then if length args = MAXARGS then Some (Inl TooManyArguments, fs) else run_tokens mode ts (args @ [w]) fs
      else if c = 60 \<or> c = 62
      then (case ts of
          [] \<Rightarrow> Some (Inl SyntaxError, fs)
        | (c2, name) # ts2 \<Rightarrow>
            if c2 \<noteq> 119 then Some (Inl SyntaxError, fs)
            else do {
              (ok, fs1) \<leftarrow> (if c = 60 then redirect 0 O_RDONLY mode (path_of name) fs
                else redirect 1 (O_WRONLY OR O_CREAT OR O_TRUNC) mode (path_of name) fs);
              (if ok then run_tokens mode ts2 args fs1 else Some (Inl OpenFailed, fs1))
            })
      else Some (Inl BadToken, fs))"

definition run_line :: "u64 \<Rightarrow> u32 \<Rightarrow> u8 list \<Rightarrow> execst \<Rightarrow> (sh_exit + execst + program) option" where
  "run_line start mode s est = do {
     (r, fs) \<leftarrow> run_tokens mode (lex s) [] (x_files est);
     (case r of
        Inl e \<Rightarrow> Some (Inl e)
      | Inr args \<Rightarrow>
          if args = [] then Some (Inl EmptyCommand)
          else do {
            argv \<leftarrow> command_args args;
            x \<leftarrow> execv start (path_of (hd argv)) argv (est\<lparr>x_files := fs\<rparr>);
            Some (Inr x)
          })
   }"

text \<open>How the loop over pointers corresponds to a result over words.\<close>

definition loop_result ::
  "((sh_exit + u8 list list) \<times> filestate) option \<Rightarrow> ((sh_exit + nat list) \<times> tokst \<times> filestate) option \<Rightarrow> bool" where
  "loop_result x y \<longleftrightarrow> (case x of
     None \<Rightarrow> y = None
   | Some (Inl e, fs) \<Rightarrow> (\<exists>st. y = Some (Inl e, st, fs))
   | Some (Inr args, fs) \<Rightarrow> (\<exists>st ptrs. y = Some (Inr ptrs, st, fs) \<and> list_all2 (arg_ok st) ptrs args))"

lemma args_keptD: "args_kept st st' \<Longrightarrow> list_all2 (arg_ok st) ps ws \<Longrightarrow> list_all2 (arg_ok st') ps ws"
  unfolding args_kept_def by (erule list_all2_mono) blast

definition redirection :: "u8 \<Rightarrow> u32 \<Rightarrow> u8 list \<Rightarrow> filestate \<Rightarrow> (bool \<times> filestate) option" where
  "redirection c mode name fs = (if c = 60 then redirect 0 O_RDONLY mode (path_of name) fs
     else redirect 1 (O_WRONLY OR O_CREAT OR O_TRUNC) mode (path_of name) fs)"

lemma runcmd_loop_redirect:
  assumes "c = 60 \<or> c = 62" and "gettoken st = Some (c, t, st1)" and "gettoken st1 = Some (c2, t2, st2)"
    and "c2 = 119 \<longrightarrow> read_cstr (tk_mem st2) t2 = Some name"
  shows "runcmd_loop mode st ptrs fs = (if c2 \<noteq> 119 then Some (Inl SyntaxError, st2, fs) else do {
      (ok, fs1) \<leftarrow> redirection c mode name fs;
      (if ok then runcmd_loop mode st2 ptrs fs1 else Some (Inl OpenFailed, st2, fs1)) })"
  using assms by (subst runcmd_loop.simps) (auto simp: redirection_def)

lemma runcmd_loop_words:
  "tok_inv st ts \<Longrightarrow> list_all2 (arg_ok st) ptrs args \<Longrightarrow> loop_result (run_tokens mode ts args fs) (runcmd_loop mode st ptrs fs)"
proof (induction mode ts args fs arbitrary: st ptrs rule: run_tokens.induct)
  case (1 mode args fs)
  then obtain t st' where g: "gettoken st = Some (0, t, st')" "args_kept st st'" using gettoken_end by blast
  show ?case using g(1) args_keptD [OF g(2) 1(2)] by (subst runcmd_loop.simps) (auto simp: loop_result_def)
next
  case (2 mode c w ts args fs)
  obtain t st1 where g: "gettoken st = Some (c, t, st1)" "tok_inv st1 ts" "args_kept st st1" "c = 119 \<longrightarrow> arg_ok st1 t w"
    using gettoken_token [OF "2.prems"(1)] by blast
  have k: "list_all2 (arg_ok st1) ptrs args" using g(3) "2.prems"(2) by (rule args_keptD)
  have n: "length ptrs = length args" using k by (rule list_all2_lengthD)
  have c: "c \<noteq> 0" using "2.prems"(1) by (simp add: tok_inv_def)
  consider (word) "c = 119" | (redir) "c = 60 \<or> c = 62" "c \<noteq> 119" | (other) "c \<noteq> 119" "c \<noteq> 60" "c \<noteq> 62" by blast
  then show ?case
  proof cases
    case word
    then show ?thesis
    proof (cases "length args = MAXARGS")
      case True
      then show ?thesis using word n g(1) by (subst runcmd_loop.simps) (simp add: loop_result_def)
    next
      case False
      have "list_all2 (arg_ok st1) (ptrs @ [t]) (args @ [w])" using k g(4) word by (simp add: list_all2_appendI)
      from "2.IH"(1) [OF word False g(2) this] show ?thesis using word False n g(1) by (subst runcmd_loop.simps) simp
    qed
  next
    case other
    then show ?thesis using g(1) c by (subst runcmd_loop.simps) (simp add: loop_result_def)
  next
    case redir
    show ?thesis
    proof (cases ts)
      case Nil
      then obtain t2 st2 where "gettoken st1 = Some (0, t2, st2)" using g(2) gettoken_end by blast
      then show ?thesis using redir Nil g(1) by (subst runcmd_loop.simps) (auto simp: loop_result_def)
    next
      case (Cons a ts2)
      obtain c2 name where a: "a = (c2, name)" by (cases a)
      obtain t2 st2 where g2: "gettoken st1 = Some (c2, t2, st2)" "tok_inv st2 ts2" "args_kept st1 st2" "c2 = 119 \<longrightarrow> arg_ok st2 t2 name"
        using g(2) gettoken_token [of st1 c2 name ts2] unfolding Cons a by blast
      have r: "c2 = 119 \<longrightarrow> read_cstr (tk_mem st2) t2 = Some name" using g2(4) read_cstr_cstr by (auto simp: arg_ok_def)
      have k2: "list_all2 (arg_ok st2) ptrs args" using g2(3) k by (rule args_keptD)
      note l = runcmd_loop_redirect [OF redir(1) g(1) g2(1) r]
      have t: "run_tokens mode ((c, w) # ts) args fs = (if c2 \<noteq> 119 then Some (Inl SyntaxError, fs) else do {
          (ok, fs1) \<leftarrow> redirection c mode name fs; (if ok then run_tokens mode ts2 args fs1 else Some (Inl OpenFailed, fs1)) })"
        using redir by (simp add: Cons a redirection_def)
      show ?thesis
      proof (cases "c2 = 119 \<and> (\<exists>fs1. redirection c mode name fs = Some (True, fs1))")
        case True
        then obtain fs1 where fs1: "c2 = 119" "redirection c mode name fs = Some (True, fs1)" by blast
        have "loop_result (run_tokens mode ts2 args fs1) (runcmd_loop mode st2 ptrs fs1)"
          using "2.IH"(2) [OF redir(2,1) Cons a [symmetric] _ _ _ _ g2(2) k2] fs1 unfolding redirection_def by simp
        then show ?thesis unfolding l t using fs1 by simp
      next
        case False
        then show ?thesis unfolding l t by (cases "redirection c mode name fs") (auto simp: loop_result_def)
      qed
    qed
  qed
qed

lemma those_read: "list_all2 (arg_ok st) ptrs args \<Longrightarrow> those (map (read_cstr (tk_mem st)) ptrs) = Some args"
  by (induction rule: list_all2_induct) (auto simp: arg_ok_def read_cstr_cstr)

text \<open>C16: For a command line \<open>s\<close>, \<open>runcmd\<close> does exactly what the shell on the tokens of \<open>s\<close> does: the in-place tokeniser
  ends, gives the words, redirections and symbols of the line in order, and every argument is a terminated string when \<open>execv\<close>
  gets it, though the tokeniser runs one token ahead of what it returns.
\<close>

theorem runcmd_line:
  assumes "0 < p" and "cstr m p s"
  shows "runcmd start mode p m est = run_line start mode s est"
proof -
  define i where "i = \<lparr>tk_nc = 0, tk_np1 = 0, tk_np2 = 0, tk_mem = m\<rparr>"
  obtain st0 where st0: "gettoken1 p i = Some st0" "tok_inv st0 (lex s)"
    using gettoken1_lex [of p i s] assms by (auto simp: i_def)
  have l: "loop_result (run_tokens mode (lex s) [] (x_files est)) (runcmd_loop mode st0 [] (x_files est))"
    using runcmd_loop_words [OF st0(2)] by simp
  have r: "runcmd start mode p m est = do {
      (r, st, fs) \<leftarrow> runcmd_loop mode st0 [] (x_files est);
      (case r of Inl e \<Rightarrow> Some (Inl e)
       | Inr ptrs \<Rightarrow> if ptrs = [] then Some (Inl EmptyCommand) else do {
           args \<leftarrow> those (map (read_cstr (tk_mem st)) ptrs); argv \<leftarrow> command_args args;
           x \<leftarrow> execv start (path_of (hd argv)) argv (est\<lparr>x_files := fs\<rparr>); Some (Inr x) }) }"
    using st0(1) assms(1) by (simp add: runcmd_def gettoken_start_def i_def)
  show ?thesis
  proof (cases "run_tokens mode (lex s) [] (x_files est)")
    case None
    then show ?thesis using l unfolding r by (simp add: loop_result_def run_line_def)
  next
    case (Some x)
    obtain res fs where x: "x = (res, fs)" by (cases x)
    show ?thesis
    proof (cases res)
      case (Inl e)
      then show ?thesis using l Some x unfolding r by (auto simp: loop_result_def run_line_def)
    next
      case (Inr args)
      then obtain st ptrs where "runcmd_loop mode st0 [] (x_files est) = Some (Inr ptrs, st, fs)" "list_all2 (arg_ok st) ptrs args"
        using l Some x by (auto simp: loop_result_def)
      then show ?thesis using Some x Inr those_read [of st ptrs args] unfolding r by (auto simp: run_line_def)
    qed
  qed
qed

theorem runcmd_line_witness:
  "\<forall>start mode est. runcmd start mode 1 ((!) [0, 32, 108, 115, 9, 97, 10, 0]) est =
     do { x \<leftarrow> execv start ''/ls'' [[47, 108, 115], [97]] est; Some (Inr x) }"
proof (intro allI)
  fix start mode est
  define m :: bytes where "m = (!) [0, 32, 108, 115, 9, 97, 10, 0]"
  have l: "lex [32, 108, 115, 9, 97, 10] = [(119, [108, 115]), (119, [97])]"
    by (simp add: lex.simps WHITESPACE_def SYMBOLS_def)
  have n: "path_of [47, 108, 115] = ''/ls''" by code_simp
  have "runcmd start mode 1 m est = run_line start mode [32, 108, 115, 9, 97, 10] est"
    by (rule runcmd_line) (simp_all add: m_def nth_Cons')
  also have "\<dots> = do { x \<leftarrow> execv start ''/ls'' [[47, 108, 115], [97]] est; Some (Inr x) }"
    by (simp add: run_line_def l command_args_def MAXARGS_def BUFSIZ_def n)
  finally show "runcmd start mode 1 ((!) [0, 32, 108, 115, 9, 97, 10, 0]) est =
     do { x \<leftarrow> execv start ''/ls'' [[47, 108, 115], [97]] est; Some (Inr x) }" unfolding m_def .
qed

text \<open>The text of a line of words is passed on as the program's arguments, if there are fewer than 256 of them. With exactly
  256 the null pointer at the end is stored past the end of the vector, since the check comes before the terminator is counted.\<close>

lemma run_tokens_words:
  "\<forall>t \<in> set ts. fst t = 119 \<Longrightarrow> length args + length ts \<le> MAXARGS \<Longrightarrow> run_tokens mode ts args fs = Some (Inr (args @ map snd ts), fs)"
  by (induction ts arbitrary: args) auto

lemma argument_vector_overflows:
  assumes "\<forall>t \<in> set (lex s). fst t = 119" and "length (lex s) = MAXARGS"
  shows "run_line start mode s est = None"
proof -
  have "lex s \<noteq> []" using assms(2) by (auto simp: MAXARGS_def)
  then show ?thesis using run_tokens_words [OF assms(1), of "[]"] assms(2) by (simp add: run_line_def command_args_def)
qed

lemma command_name_overflows:
  assumes "lex s = [(119, w)]" and "length w = BUFSIZ - 1" and "hd w \<noteq> 47"
  shows "run_line start mode s est = None"
  using assms run_tokens_words [of "[(119, w)]" "[]"]
  by (cases w) (auto simp: run_line_def command_args_def MAXARGS_def BUFSIZ_def)

end
