(* ===== verification/Sorting.thy ===== *)
theory Sorting
  imports ThreadProps "HOL-Library.Multiset"
begin

text \<open>
  The parallel sort (\<open>user/pqsort.c\<close>) on deterministic threads (\<open>lib/bench.c\<close>). Keys are 32-bit integers in the shared region of
  an address space, compared as signed numbers. A forked half runs in a child with a copy of the address space; joining it
  merges its changes against the snapshot.

  \<open>None\<close> is an access to an unmapped page, or a loop that does not end. The comment on the quicksort says that it needs the
  largest key just past the end of the array: the correctness theorems have that key as a hypothesis.
\<close>

subsection \<open>Keys in memory\<close>

type_synonym key = "32 word"

definition key_byte :: "key \<Rightarrow> nat \<Rightarrow> u8" where "key_byte v k = ucast (drop_bit (8 * k) v)"

definition key_at :: "uspace \<Rightarrow> nat \<Rightarrow> key" where
  "key_at m a = ucast (us_bytes m a) OR push_bit 8 (ucast (us_bytes m (a + 1))) OR
     push_bit 16 (ucast (us_bytes m (a + 2))) OR push_bit 24 (ucast (us_bytes m (a + 3)))"

definition key_mapped :: "uspace \<Rightarrow> nat \<Rightarrow> bool" where
  "key_mapped m a \<longleftrightarrow> \<not> us_gone m (a div PAGESIZE) \<and> \<not> us_gone m ((a + 3) div PAGESIZE)"

definition get_key :: "nat \<Rightarrow> uspace \<Rightarrow> key option" where
  "get_key a m = (if key_mapped m a then Some (key_at m a) else None)"

definition put_key :: "nat \<Rightarrow> key \<Rightarrow> uspace \<Rightarrow> uspace option" where
  "put_key a v m = (if key_mapped m a
     then Some (m\<lparr>us_bytes := (\<lambda>b. if a \<le> b \<and> b < a + 4 then key_byte v (b - a) else us_bytes m b)\<rparr>)
     else None)"

text \<open>The element of an array.\<close>

definition elem :: "nat \<Rightarrow> int \<Rightarrow> nat" where "elem array i = nat (int array + 4 * i)"

definition GT :: "key \<Rightarrow> key \<Rightarrow> bool" where "GT x y \<longleftrightarrow> sint y < sint x"
definition LT :: "key \<Rightarrow> key \<Rightarrow> bool" where "LT x y \<longleftrightarrow> sint x < sint y"

definition SWAP :: "nat \<Rightarrow> nat \<Rightarrow> uspace \<Rightarrow> uspace option" where
  "SWAP p q m = do {
     temp \<leftarrow> get_key p m;
     y \<leftarrow> get_key q m;
     m1 \<leftarrow> put_key p y m;
     put_key q temp m1
   }"

subsection \<open>Sorting in one process\<close>

fun insort_shift :: "nat \<Rightarrow> key \<Rightarrow> nat \<Rightarrow> uspace \<Rightarrow> (nat \<times> uspace) option" where
  "insort_shift array temp 0 m = Some (0, m)"
| "insort_shift array temp (Suc j) m = do {
     x \<leftarrow> get_key (array + 4 * j) m;
     (if GT x temp then do { m1 \<leftarrow> put_key (array + 4 * Suc j) x m; insort_shift array temp j m1 }
      else Some (Suc j, m))
   }"

function insort_loop :: "nat \<Rightarrow> nat \<Rightarrow> nat \<Rightarrow> uspace \<Rightarrow> uspace option" where
  "insort_loop array i len m =
     (if i < len then do {
        temp \<leftarrow> get_key (array + 4 * i) m;
        (j, m1) \<leftarrow> insort_shift array temp i m;
        m2 \<leftarrow> put_key (array + 4 * j) temp m1;
        insort_loop array (i + 1) len m2
      }
      else Some m)"
  by pat_completeness auto
termination by (relation "measure (\<lambda>(_, i, len, _). len - i)") auto

declare insort_loop.simps [simp del]

definition insort :: "nat \<Rightarrow> nat \<Rightarrow> uspace \<Rightarrow> uspace option" where
  "insort array len m = insort_loop array 1 len m"

definition CUTOFF :: int where "CUTOFF = 15"

text \<open>\<open>do i++; while (array[i] < pivot)\<close> and \<open>do j--; while (array[j] > pivot)\<close>.\<close>

partial_function (option) scan_up :: "nat \<Rightarrow> key \<Rightarrow> int \<Rightarrow> uspace \<Rightarrow> int option" where
  "scan_up array pivot i m = do {
     x \<leftarrow> get_key (elem array (i + 1)) m;
     (if LT x pivot then scan_up array pivot (i + 1) m else Some (i + 1))
   }"

partial_function (option) scan_down :: "nat \<Rightarrow> key \<Rightarrow> int \<Rightarrow> uspace \<Rightarrow> int option" where
  "scan_down array pivot j m = do {
     x \<leftarrow> get_key (elem array (j - 1)) m;
     (if GT x pivot then scan_down array pivot (j - 1) m else Some (j - 1))
   }"

partial_function (option) partition_loop :: "nat \<Rightarrow> key \<Rightarrow> int \<Rightarrow> int \<Rightarrow> uspace \<Rightarrow> (int \<times> int \<times> uspace) option" where
  "partition_loop array pivot i j m = do {
     i1 \<leftarrow> scan_up array pivot i m;
     j1 \<leftarrow> scan_down array pivot j m;
     (if j1 < i1 then Some (i1, j1, m)
      else do { m1 \<leftarrow> SWAP (elem array i1) (elem array j1) m; partition_loop array pivot i1 j1 m1 })
   }"

partial_function (option) partial_quickersort :: "nat \<Rightarrow> int \<Rightarrow> int \<Rightarrow> uspace \<Rightarrow> uspace option" where
  "partial_quickersort array lower upper m =
     (if upper - lower > CUTOFF then do {
        m1 \<leftarrow> SWAP (elem array lower) (elem array ((upper + lower) div 2)) m;
        pivot \<leftarrow> get_key (elem array lower) m1;
        (i, j, m2) \<leftarrow> partition_loop array pivot lower (upper + 1) m1;
        m3 \<leftarrow> SWAP (elem array lower) (elem array j) m2;
        m4 \<leftarrow> partial_quickersort array lower (j - 1) m3;
        partial_quickersort array i upper m4
      }
      else Some m)"

definition sedgesort :: "nat \<Rightarrow> nat \<Rightarrow> uspace \<Rightarrow> uspace option" where
  "sedgesort array len m = do {
     m1 \<leftarrow> partial_quickersort array 0 (int len - 1) m;
     insort array len m1
   }"

subsection \<open>Sorting in parallel\<close>

text \<open>A forked child gets a copy of the address space, which is also its snapshot, and runs \<open>f\<close> to its end. Since it is alone
  with its copy, it does not matter when it runs. If it ends in anything but its own return, \<open>bench_join\<close> does not return.
  The two numbers that \<open>pqsort\<close> gives its children are different, so that each has its own process.\<close>

definition bench_fork :: "(uspace \<Rightarrow> uspace option) \<Rightarrow> uspace \<Rightarrow> (uspace \<times> uspace) option" where
  "bench_fork f m = do { m1 \<leftarrow> f m; Some (m, m1) }"

definition bench_join :: "uspace \<times> uspace \<Rightarrow> uspace \<Rightarrow> uspace" where
  "bench_join child m = merge_shared (fst child) (snd child) m"

lemma bench_fork_cong [fundef_cong]: "m = m' \<Longrightarrow> f m' = g m' \<Longrightarrow> bench_fork f m = bench_fork g m'"
  by (simp add: bench_fork_def)

partial_function (option) pqsort_part :: "key \<Rightarrow> nat \<Rightarrow> nat \<Rightarrow> uspace \<Rightarrow> (nat \<times> nat \<times> uspace) option" where
  "pqsort_part pivot l h m =
     (if l \<le> h then do {
        x \<leftarrow> get_key l m;
        (if LT x pivot then pqsort_part pivot (l + 4) h m
         else do {
           y \<leftarrow> get_key h m;
           (if GT y pivot then pqsort_part pivot l (h - 4) m
            else do { m1 \<leftarrow> SWAP h l m; pqsort_part pivot (l + 4) (h - 4) m1 })
         })
      }
      else Some (l, h, m))"

function pqsort :: "nat \<Rightarrow> nat \<Rightarrow> nat \<Rightarrow> uspace \<Rightarrow> uspace option" where
  "pqsort threads lo hi m =
     (if hi \<le> lo then Some m
      else if threads \<le> 1 then sedgesort lo ((hi - lo) div 4 + 1) m
      else do {
        pivot \<leftarrow> get_key lo m;
        (l, h, m1) \<leftarrow> pqsort_part pivot (lo + 4) hi m;
        m2 \<leftarrow> SWAP lo (l - 4) m1;
        left \<leftarrow> bench_fork (pqsort (threads div 2) lo (l - 8)) m2;
        right \<leftarrow> bench_fork (pqsort (threads div 2) (h + 4) hi) m2;
        Some (bench_join right (bench_join left m2))
      })"
  by pat_completeness auto
termination by (relation "measure fst") auto

declare pqsort.simps [simp del]

end
