(* ===== verification/SortProps.thy ===== *)
theory SortProps
  imports Sorting
begin

text \<open>
  The parallel sort sorts, and gives the same memory with any number of threads. An array in memory is written as a list of
  keys over the rest of the memory; sequential steps become list updates, and joining a child becomes a merge of lists.
\<close>

subsection \<open>An array as a list of keys\<close>

definition with_keys :: "nat \<Rightarrow> key list \<Rightarrow> uspace \<Rightarrow> uspace" where
  "with_keys arr xs m = m\<lparr>us_bytes := (\<lambda>b. if arr \<le> b \<and> b < arr + 4 * length xs
     then key_byte (xs ! ((b - arr) div 4)) ((b - arr) mod 4) else us_bytes m b)\<rparr>"

definition keys_of :: "nat \<Rightarrow> nat \<Rightarrow> uspace \<Rightarrow> key list" where
  "keys_of arr n m = map (\<lambda>i. key_at m (arr + 4 * i)) [0..<n]"

definition mapped :: "nat \<Rightarrow> nat \<Rightarrow> uspace \<Rightarrow> bool" where
  "mapped arr n m \<longleftrightarrow> (\<forall>a. arr \<le> a \<and> a < arr + 4 * n \<longrightarrow> \<not> us_gone m (a div PAGESIZE))"

lemma with_keys_gone [simp]: "us_gone (with_keys arr xs m) = us_gone m"
  by (simp add: with_keys_def)

lemma key_mapped_with [simp]: "key_mapped (with_keys arr xs m) a = key_mapped m a"
  by (simp add: key_mapped_def)

lemma key_mappedI: "mapped arr n m \<Longrightarrow> i < n \<Longrightarrow> key_mapped m (arr + 4 * i)"
  by (auto simp: mapped_def key_mapped_def)

lemma key_join:
  "ucast (key_byte v 0) OR push_bit 8 (ucast (key_byte v 1)) OR push_bit 16 (ucast (key_byte v 2)) OR push_bit 24 (ucast (key_byte v 3)) = (v :: key)"
proof (rule bit_word_eqI)
  fix n
  assume "n < LENGTH(32)"
  then consider "n < 8" | "8 \<le> n" "n < 16" | "16 \<le> n" "n < 24" | "24 \<le> n" "n < 32" by force
  then show "bit (ucast (key_byte v 0) OR push_bit 8 (ucast (key_byte v 1)) OR push_bit 16 (ucast (key_byte v 2)) OR
      push_bit 24 (ucast (key_byte v 3)) :: key) n = bit v n"
    by cases (auto simp: key_byte_def bit_or_iff bit_push_bit_iff bit_ucast_iff bit_drop_bit_eq)
qed

lemma key_split: "k < 4 \<Longrightarrow> key_byte (key_at m a) k = us_bytes m (a + k)"
proof -
  assume "k < 4"
  then consider "k = 0" | "k = 1" | "k = 2" | "k = 3" by linarith
  then show ?thesis
    by cases (rule bit_word_eqI; auto simp: key_at_def key_byte_def bit_or_iff bit_push_bit_iff bit_ucast_iff bit_drop_bit_eq
      dest: bit_imp_le_length)+
qed

lemma div_mod_4: "k < 4 \<Longrightarrow> (4 * i + k) div 4 = i" "k < 4 \<Longrightarrow> (4 * i + k) mod 4 = (k::nat)"
  by auto

lemma with_keys_byte: "i < length xs \<Longrightarrow> k < 4 \<Longrightarrow> us_bytes (with_keys arr xs m) (arr + 4 * i + k) = key_byte (xs ! i) k"
  by (simp add: with_keys_def div_mod_4 add.assoc)

lemma key_at_with:
  assumes "i < length xs"
  shows "key_at (with_keys arr xs m) (arr + 4 * i) = xs ! i"
proof -
  have "us_bytes (with_keys arr xs m) (arr + 4 * i) = key_byte (xs ! i) 0"
    using with_keys_byte [OF assms, of 0 arr m] by simp
  moreover have "us_bytes (with_keys arr xs m) (arr + 4 * i + 1) = key_byte (xs ! i) 1"
    "us_bytes (with_keys arr xs m) (arr + 4 * i + 2) = key_byte (xs ! i) 2"
    "us_bytes (with_keys arr xs m) (arr + 4 * i + 3) = key_byte (xs ! i) 3"
    using assms by (simp_all only: with_keys_byte)
  ultimately show ?thesis by (simp only: key_at_def key_join)
qed

lemma get_key_with: "mapped arr n m \<Longrightarrow> length xs \<le> n \<Longrightarrow> i < length xs \<Longrightarrow> get_key (arr + 4 * i) (with_keys arr xs m) = Some (xs ! i)"
  by (simp add: get_key_def key_mappedI key_at_with)

lemma put_key_with:
  assumes "mapped arr n m" and "length xs \<le> n" and "i < length xs"
  shows "put_key (arr + 4 * i) v (with_keys arr xs m) = Some (with_keys arr (xs[i := v]) m)"
proof -
  have "(if arr + 4 * i \<le> b \<and> b < arr + 4 * i + 4 then key_byte v (b - (arr + 4 * i)) else us_bytes (with_keys arr xs m) b) =
    us_bytes (with_keys arr (xs[i := v]) m) b" for b
  proof (cases "arr \<le> b \<and> b < arr + 4 * length xs")
    case True
    define j k where "j = (b - arr) div 4" and "k = (b - arr) mod 4"
    have b: "b = arr + 4 * j + k" "k < 4" using True by (simp_all add: j_def k_def)
    have j: "j < length xs" using True b by linarith
    show ?thesis using b j assms(3) by (cases "j = i") (auto simp: with_keys_byte)
  next
    case False
    then show ?thesis using assms(3) by (auto simp: with_keys_def)
  qed
  then have "(with_keys arr xs m)\<lparr>us_bytes := (\<lambda>b. if arr + 4 * i \<le> b \<and> b < arr + 4 * i + 4
      then key_byte v (b - (arr + 4 * i)) else us_bytes (with_keys arr xs m) b)\<rparr> = with_keys arr (xs[i := v]) m"
    by (auto intro!: uspace.equality)
  then show ?thesis using assms by (simp add: put_key_def key_mappedI)
qed

lemma with_keys_of: "with_keys arr (keys_of arr n m) m = m"
proof -
  have "us_bytes (with_keys arr (keys_of arr n m) m) b = us_bytes m b" for b
  proof (cases "arr \<le> b \<and> b < arr + 4 * n")
    case True
    define j k where "j = (b - arr) div 4" and "k = (b - arr) mod 4"
    have b: "b = arr + 4 * j + k" "k < 4" using True by (simp_all add: j_def k_def)
    have "j < n" using True b by linarith
    then show ?thesis using b with_keys_byte [of j "keys_of arr n m" k arr m] by (simp add: keys_of_def key_split)
  next
    case False
    then show ?thesis by (auto simp: with_keys_def keys_of_def)
  qed
  then show ?thesis by (auto intro!: uspace.equality)
qed

lemma with_keys_append: "with_keys arr (xs @ ys) m = with_keys arr xs (with_keys (arr + 4 * length xs) ys m)"
proof -
  have "us_bytes (with_keys arr (xs @ ys) m) b = us_bytes (with_keys arr xs (with_keys (arr + 4 * length xs) ys m)) b" for b
  proof (cases "arr + 4 * length xs \<le> b")
    case True
    then obtain c where "b = arr + 4 * length xs + c" using le_Suc_ex by blast
    then show ?thesis by (simp add: with_keys_def nth_append)
  next
    case False
    then show ?thesis by (auto simp: with_keys_def nth_append)
  qed
  then show ?thesis by (auto intro!: uspace.equality)
qed

lemma with_keys_commute:
  "with_keys arr xs (with_keys (arr + 4 * length xs) ys m) = with_keys (arr + 4 * length xs) ys (with_keys arr xs m)"
  by (auto intro!: uspace.equality simp: with_keys_def)

subsection \<open>Insertion sort\<close>

abbreviation ordered :: "key list \<Rightarrow> bool" where "ordered xs \<equiv> sorted (map sint xs)"

text \<open>The hole at index \<open>j\<close> moves down to where \<open>temp\<close> belongs.\<close>

lemma insort_shift_list:
  assumes "mapped arr n m"
  shows "length (ps @ h # qs) \<le> n \<Longrightarrow> \<exists>a b h'. insort_shift arr temp (length ps) (with_keys arr (ps @ h # qs) m) =
      Some (length a, with_keys arr (a @ h' # b @ qs) m) \<and> ps = a @ b \<and> (\<forall>x \<in> set b. sint temp < sint x) \<and>
      (a \<noteq> [] \<longrightarrow> sint (last a) \<le> sint temp)"
proof (induction ps arbitrary: h qs rule: rev_induct)
  case Nil
  show ?case by (intro exI [of _ "[]"]) auto
next
  case (snoc x ps)
  have g: "get_key (arr + 4 * length ps) (with_keys arr ((ps @ [x]) @ h # qs) m) = Some x"
    using get_key_with [OF assms, of "(ps @ [x]) @ h # qs" "length ps"] snoc.prems by (simp add: nth_append)
  show ?case
  proof (cases "GT x temp")
    case True
    have p: "put_key (arr + 4 * Suc (length ps)) x (with_keys arr ((ps @ [x]) @ h # qs) m) = Some (with_keys arr (ps @ x # x # qs) m)"
      using put_key_with [OF assms, of "(ps @ [x]) @ h # qs" "Suc (length ps)" x] snoc.prems by (simp add: list_update_append)
    have l: "length (ps @ x # x # qs) \<le> n" using snoc.prems by simp
    obtain a b h' where ab: "insort_shift arr temp (length ps) (with_keys arr (ps @ x # x # qs) m) =
        Some (length a, with_keys arr (a @ h' # b @ x # qs) m)" "ps = a @ b" "\<forall>x \<in> set b. sint temp < sint x"
        "a \<noteq> [] \<longrightarrow> sint (last a) \<le> sint temp"
      using snoc.IH [OF l] by blast
    show ?thesis using g p ab True
      by (intro exI [of _ a] exI [of _ "b @ [x]"] exI [of _ h']) (auto simp: GT_def)
  next
    case False
    then show ?thesis using g by (intro exI [of _ "ps @ [x]"] exI [of _ "[]"] exI [of _ h]) (auto simp: GT_def)
  qed
qed

lemma ordered_insert:
  assumes "ordered (a @ b)" and "\<forall>x \<in> set b. sint t < sint x" and "a \<noteq> [] \<longrightarrow> sint (last a) \<le> sint t"
  shows "ordered (a @ t # b)"
proof -
  have "sint x \<le> sint t" if "x \<in> set a" for x
  proof -
    have a: "a = butlast a @ [last a]" using that by (cases a rule: rev_cases) auto
    have "ordered (butlast a @ [last a])" using assms(1) a by (metis map_append sorted_append)
    then have "sint x \<le> sint (last a)" using that by (subst (asm) a) (auto simp: sorted_append)
    then show ?thesis using assms(3) that by (auto dest: order_trans)
  qed
  then show ?thesis using assms(1,2) by (fastforce simp: sorted_append)
qed

lemma insort_loop_list:
  assumes "mapped arr n m"
  shows "length (ps @ zs @ rest) \<le> n \<Longrightarrow> ordered ps \<Longrightarrow> \<exists>ys. insort_loop arr (length ps) (length ps + length zs)
      (with_keys arr (ps @ zs @ rest) m) = Some (with_keys arr (ys @ rest) m) \<and> ordered ys \<and> mset ys = mset (ps @ zs)"
proof (induction zs arbitrary: ps)
  case Nil
  then show ?case by (intro exI [of _ ps]) (simp add: insort_loop.simps)
next
  case (Cons t zs)
  let ?qs = "zs @ rest"
  have g: "get_key (arr + 4 * length ps) (with_keys arr (ps @ t # ?qs) m) = Some t"
    using get_key_with [OF assms, of "ps @ t # ?qs" "length ps"] Cons.prems by simp
  have l: "length (ps @ t # ?qs) \<le> n" using Cons.prems by simp
  obtain a b h where ab: "insort_shift arr t (length ps) (with_keys arr (ps @ t # ?qs) m) =
      Some (length a, with_keys arr (a @ h # b @ ?qs) m)" "ps = a @ b" "\<forall>x \<in> set b. sint t < sint x"
      "a \<noteq> [] \<longrightarrow> sint (last a) \<le> sint t"
    using insort_shift_list [OF assms l] by blast
  have p: "put_key (arr + 4 * length a) t (with_keys arr (a @ h # b @ ?qs) m) = Some (with_keys arr ((a @ t # b) @ ?qs) m)"
    using put_key_with [OF assms, of "a @ h # b @ ?qs" "length a" t] Cons.prems ab(2) by simp
  have "ordered (a @ t # b)" using Cons.prems(2) ab(2-4) ordered_insert by blast
  then obtain ys where "insort_loop arr (length (a @ t # b)) (length (a @ t # b) + length zs)
      (with_keys arr ((a @ t # b) @ ?qs) m) = Some (with_keys arr (ys @ rest) m)" "ordered ys" "mset ys = mset ((a @ t # b) @ zs)"
    using Cons.IH [of "a @ t # b"] Cons.prems(1) ab(2) by auto
  then show ?case using g ab p by (subst insort_loop.simps) auto
qed

lemma insort_list:
  assumes "mapped arr n m" and "length (xs @ rest) \<le> n"
  shows "\<exists>ys. insort arr (length xs) (with_keys arr (xs @ rest) m) = Some (with_keys arr (ys @ rest) m) \<and> ordered ys \<and> mset ys = mset xs"
proof (cases xs)
  case Nil
  then show ?thesis by (simp add: insort_def insort_loop.simps)
next
  case (Cons x zs)
  then show ?thesis using insort_loop_list [OF assms(1), of "[x]" zs rest] assms(2) by (simp add: insort_def)
qed

subsection \<open>Quicksort\<close>

text \<open>What the quicksort does to the keys from index \<open>lo\<close> up to \<open>hi\<close>: it swaps them with one another.\<close>

abbreviation swap_at :: "nat \<Rightarrow> nat \<Rightarrow> key list \<Rightarrow> key list" where "swap_at a b xs \<equiv> xs[a := xs ! b, b := xs ! a]"

inductive swaps :: "nat \<Rightarrow> nat \<Rightarrow> key list \<Rightarrow> key list \<Rightarrow> bool" for lo hi where
  swaps_refl: "swaps lo hi xs xs"
| swaps_step: "swaps lo hi xs ys \<Longrightarrow> lo \<le> a \<Longrightarrow> a < hi \<Longrightarrow> lo \<le> b \<Longrightarrow> b < hi \<Longrightarrow> hi \<le> length xs \<Longrightarrow> swaps lo hi xs (swap_at a b ys)"

lemmas swap_step = swaps_step [OF swaps_refl]

lemma swaps_length: "swaps lo hi xs ys \<Longrightarrow> length ys = length xs"
  by (induction rule: swaps.induct) auto

lemma swaps_trans: "swaps lo hi ys zs \<Longrightarrow> swaps lo hi xs ys \<Longrightarrow> swaps lo hi xs zs"
proof (induction rule: swaps.induct)
  case (swaps_step ys zs a b)
  then show ?case using swaps_length [of lo hi xs ys] by (intro swaps.swaps_step) auto
qed

lemma swaps_mono: "swaps lo hi xs ys \<Longrightarrow> lo' \<le> lo \<Longrightarrow> hi \<le> hi' \<Longrightarrow> hi' \<le> length xs \<Longrightarrow> swaps lo' hi' xs ys"
  by (induction rule: swaps.induct) (auto intro!: swaps.intros)

lemma swaps_mset: "swaps lo hi xs ys \<Longrightarrow> mset ys = mset xs"
proof (induction rule: swaps.induct)
  case (swaps_step xs ys a b)
  have "length ys = length xs" using swaps_step.hyps(1) by (rule swaps_length)
  then show ?case using swaps_step mset_swap [of b ys a] by simp
qed simp

lemma swaps_outside: "swaps lo hi xs ys \<Longrightarrow> t < lo \<or> hi \<le> t \<Longrightarrow> ys ! t = xs ! t"
  by (induction rule: swaps.induct) auto

lemma swaps_all: "swaps lo hi xs ys \<Longrightarrow> \<forall>t. lo \<le> t \<and> t < hi \<longrightarrow> P (xs ! t) \<Longrightarrow> \<forall>t. lo \<le> t \<and> t < hi \<longrightarrow> P (ys ! t)"
proof (induction rule: swaps.induct)
  case (swaps_step xs ys a b)
  have l: "length ys = length xs" using swaps_step.hyps(1) by (rule swaps_length)
  then show ?case using swaps_step by (auto simp: nth_list_update)
qed simp

lemma elem_int [simp]: "elem arr (int i) = arr + 4 * i"
  by (simp add: elem_def)

lemma SWAP_with:
  assumes "mapped arr n m" and "length xs \<le> n" and "a < length xs" and "b < length xs"
  shows "SWAP (arr + 4 * a) (arr + 4 * b) (with_keys arr xs m) = Some (with_keys arr (swap_at a b xs) m)"
  using assms by (simp add: SWAP_def get_key_with put_key_with)

lemma scan_up_list:
  assumes m: "mapped arr n m" and l: "length xs \<le> n"
  shows "i < k \<Longrightarrow> k < length xs \<Longrightarrow> \<not> LT (xs ! k) pivot \<Longrightarrow> \<exists>i'. scan_up arr pivot (int i) (with_keys arr xs m) = Some (int i') \<and>
    i < i' \<and> i' \<le> k \<and> \<not> LT (xs ! i') pivot \<and> (\<forall>t. i < t \<and> t < i' \<longrightarrow> LT (xs ! t) pivot)"
proof (induction "k - i" arbitrary: i)
  case (Suc d)
  have e: "elem arr (int i + 1) = arr + 4 * Suc i" using elem_int [of arr "Suc i"] by (simp add: add.commute)
  have g: "get_key (elem arr (int i + 1)) (with_keys arr xs m) = Some (xs ! Suc i)"
    unfolding e using get_key_with [OF m l, of "Suc i"] Suc.prems by simp
  show ?case
  proof (cases "LT (xs ! Suc i) pivot")
    case True
    then have k: "Suc i < k" "d = k - Suc i" using Suc.prems Suc.hyps(2) by (metis Suc_lessI, linarith)
    obtain i' where "scan_up arr pivot (int (Suc i)) (with_keys arr xs m) = Some (int i')" "Suc i < i'" "i' \<le> k"
      "\<not> LT (xs ! i') pivot" "\<forall>t. Suc i < t \<and> t < i' \<longrightarrow> LT (xs ! t) pivot"
      using Suc.hyps(1) [OF k(2,1) Suc.prems(2,3)] by blast
    then show ?thesis using g True
      by (intro exI [of _ i'], subst scan_up.simps) (auto simp: add.commute, metis Suc_lessI)
  next
    case False
    then show ?thesis using g Suc.prems by (intro exI [of _ "Suc i"], subst scan_up.simps) auto
  qed
qed simp

lemma scan_down_list:
  assumes m: "mapped arr n m" and l: "length xs \<le> n"
  shows "k < j \<Longrightarrow> j \<le> length xs \<Longrightarrow> \<not> GT (xs ! k) pivot \<Longrightarrow> \<exists>j'. scan_down arr pivot (int j) (with_keys arr xs m) = Some (int j') \<and>
    k \<le> j' \<and> j' < j \<and> \<not> GT (xs ! j') pivot \<and> (\<forall>t. j' < t \<and> t < j \<longrightarrow> GT (xs ! t) pivot)"
proof (induction j)
  case (Suc j)
  have g: "get_key (elem arr (int (Suc j) - 1)) (with_keys arr xs m) = Some (xs ! j)"
    using get_key_with [OF m l, of j] Suc.prems by simp
  show ?case
  proof (cases "GT (xs ! j) pivot")
    case True
    then have "k < j" using Suc.prems by (metis less_SucE)
    then obtain j' where "scan_down arr pivot (int j) (with_keys arr xs m) = Some (int j')" "k \<le> j'" "j' < j"
      "\<not> GT (xs ! j') pivot" "\<forall>t. j' < t \<and> t < j \<longrightarrow> GT (xs ! t) pivot"
      using Suc.IH Suc.prems by auto
    then show ?thesis using g True
      by (intro exI [of _ j'], subst scan_down.simps) (auto simp: less_Suc_eq)
  next
    case False
    then show ?thesis using g Suc.prems by (intro exI [of _ j], subst scan_down.simps) auto
  qed
qed simp

text \<open>The loop of the partition: up to \<open>i\<close> the keys are at most the pivot, from \<open>j\<close> on they are at least the pivot.\<close>

definition split_at :: "nat \<Rightarrow> nat \<Rightarrow> key \<Rightarrow> nat \<Rightarrow> nat \<Rightarrow> key list \<Rightarrow> bool" where
  "split_at lo hi p i j xs \<longleftrightarrow> lo \<le> i \<and> i \<le> j \<and> lo < j \<and> j \<le> hi \<and> i < hi \<and> hi < length xs \<and>
     (\<forall>t. lo \<le> t \<and> t \<le> i \<longrightarrow> sint (xs ! t) \<le> sint p) \<and> (\<forall>t. j \<le> t \<and> t \<le> hi \<longrightarrow> sint p \<le> sint (xs ! t))"

lemma split_at_swap:
  assumes "split_at lo hi p i j xs" and "i < i1" and "i1 \<le> j1" and "j1 < j" and "\<not> LT (xs ! i1) p" and "\<not> GT (xs ! j1) p"
    and "\<forall>t. i < t \<and> t < i1 \<longrightarrow> LT (xs ! t) p" and "\<forall>t. j1 < t \<and> t < j \<longrightarrow> GT (xs ! t) p"
  shows "split_at lo hi p i1 j1 (swap_at i1 j1 xs)"
proof -
  have l: "i1 < length xs" "j1 < length xs" using assms(1-4) by (auto simp: split_at_def)
  have "sint (swap_at i1 j1 xs ! t) \<le> sint p" if "lo \<le> t" "t \<le> i1" for t
    using that assms l by (cases "t \<le> i"; cases "t = i1") (auto simp: split_at_def LT_def GT_def nth_list_update less_imp_le)
  moreover have "sint p \<le> sint (swap_at i1 j1 xs ! t)" if "j1 \<le> t" "t \<le> hi" for t
    using that assms l by (cases "j \<le> t"; cases "t = j1") (auto simp: split_at_def LT_def GT_def nth_list_update less_imp_le)
  ultimately show ?thesis using assms(1-4) by (auto simp: split_at_def)
qed

lemma partition_loop_list:
  assumes m: "mapped arr n m"
  shows "length xs \<le> n \<Longrightarrow> split_at lo hi p i j xs \<Longrightarrow> \<exists>i' j' ys.
    partition_loop arr p (int i) (int j) (with_keys arr xs m) = Some (int i', int j', with_keys arr ys m) \<and>
    swaps (Suc lo) hi xs ys \<and> j' < i' \<and> lo < i' \<and> lo \<le> j' \<and> j' < hi \<and> i' \<le> hi \<and> (\<forall>t. lo \<le> t \<and> t \<le> j' \<longrightarrow> sint (ys ! t) \<le> sint p)"
proof (induction "hi - i" arbitrary: i j xs rule: less_induct)
  case less
  note s = less.prems(2)[unfolded split_at_def]
  have u: "i < max j (Suc i)" "max j (Suc i) < length xs" "\<not> LT (xs ! max j (Suc i)) p" using s by (auto simp: LT_def max_def)
  obtain i1 where i1: "scan_up arr p (int i) (with_keys arr xs m) = Some (int i1)" "i < i1" "i1 \<le> max j (Suc i)"
    "\<not> LT (xs ! i1) p" "\<forall>t. i < t \<and> t < i1 \<longrightarrow> LT (xs ! t) p"
    using scan_up_list [OF m less.prems(1) u] by blast
  have "lo \<le> min i (j - 1)" "min i (j - 1) \<le> i" using s by auto
  then have d: "min i (j - 1) < j" "j \<le> length xs" "\<not> GT (xs ! min i (j - 1)) p" using s by (auto simp: GT_def not_less)
  obtain j1 where j1: "scan_down arr p (int j) (with_keys arr xs m) = Some (int j1)" "min i (j - 1) \<le> j1" "j1 < j"
    "\<not> GT (xs ! j1) p" "\<forall>t. j1 < t \<and> t < j \<longrightarrow> GT (xs ! t) p"
    using scan_down_list [OF m less.prems(1) d] by blast
  have b: "lo < i1" "lo \<le> j1" "j1 < hi" "i1 \<le> hi" using s i1(2,3) j1(2,3) by (auto simp: min_def max_def split: if_splits)
  show ?case
  proof (cases "j1 < i1")
    case True
    have "sint (xs ! t) \<le> sint p" if "lo \<le> t" "t \<le> j1" for t
      using that True s i1(5) by (cases "t \<le> i") (auto simp: LT_def less_imp_le)
    then show ?thesis using i1(1) j1(1) True b
      by (intro exI [of _ i1] exI [of _ j1] exI [of _ xs], subst partition_loop.simps) (auto intro: swaps_refl)
  next
    case False
    let ?ys = "swap_at i1 j1 xs"
    have l: "i1 < length xs" "j1 < length xs" "hi - i1 < hi - i" "length ?ys \<le> n" using False b s i1(2) less.prems(1) by auto
    have s1: "split_at lo hi p i1 j1 ?ys" using False i1 j1 by (intro split_at_swap [OF less.prems(2)]) auto
    obtain i' j' ys where r: "partition_loop arr p (int i1) (int j1) (with_keys arr ?ys m) = Some (int i', int j', with_keys arr ys m)"
      "swaps (Suc lo) hi ?ys ys" and t: "j' < i' \<and> lo < i' \<and> lo \<le> j' \<and> j' < hi \<and> i' \<le> hi \<and> (\<forall>t. lo \<le> t \<and> t \<le> j' \<longrightarrow> sint (ys ! t) \<le> sint p)"
      using less.hyps [OF l(3,4) s1] by blast
    have "swaps (Suc lo) hi xs ?ys" using False b s by (intro swap_step) auto
    then have sw: "swaps (Suc lo) hi xs ys" using r(2) swaps_trans by blast
    have "partition_loop arr p (int i) (int j) (with_keys arr xs m) = Some (int i', int j', with_keys arr ys m)"
      using i1(1) j1(1) False r(1) SWAP_with [OF m less.prems(1) l(1,2)] by (subst partition_loop.simps) simp
    with sw t show ?thesis by blast
  qed
qed

lemma partial_quickersort_list:
  assumes m: "mapped arr n m"
  shows "length xs \<le> n \<Longrightarrow> hi < length xs \<Longrightarrow> \<forall>t. lo \<le> t \<and> t < hi \<longrightarrow> sint (xs ! t) \<le> sint (xs ! hi) \<Longrightarrow>
    \<exists>ys. partial_quickersort arr (int lo) (int hi - 1) (with_keys arr xs m) = Some (with_keys arr ys m) \<and> swaps lo hi xs ys"
proof (induction "hi - lo" arbitrary: lo hi xs rule: less_induct)
  case less
  show ?case
  proof (cases "int hi - 1 - int lo > CUTOFF")
    case False
    then show ?thesis by (intro exI [of _ xs], subst partial_quickersort.simps) (auto intro: swaps_refl)
  next
    case True
    define mid where "mid = nat ((int hi - 1 + int lo) div 2)"
    have mid: "(int hi - 1 + int lo) div 2 = int mid" "lo \<le> mid" "mid < hi" "lo < hi" using True by (auto simp: mid_def CUTOFF_def)
    let ?x1 = "swap_at lo mid xs"
    define p where "p = ?x1 ! lo"
    have s1: "swaps lo hi xs ?x1" using mid less.prems by (intro swap_step) auto
    have len1: "length ?x1 \<le> n" "hi < length ?x1" using less.prems by auto
    have big: "\<forall>t. lo \<le> t \<and> t < hi \<longrightarrow> sint (?x1 ! t) \<le> sint (xs ! hi)" using swaps_all [OF s1 less.prems(3)] .
    have sp: "split_at lo hi p lo hi ?x1" using mid len1 big swaps_outside [OF s1, of hi] by (auto simp: split_at_def p_def le_antisym)
    obtain i j x2 where pt: "partition_loop arr p (int lo) (int hi) (with_keys arr ?x1 m) = Some (int i, int j, with_keys arr x2 m)"
      "swaps (Suc lo) hi ?x1 x2" "j < i" "lo < i" "lo \<le> j" "j < hi" "i \<le> hi" "\<forall>t. lo \<le> t \<and> t \<le> j \<longrightarrow> sint (x2 ! t) \<le> sint p"
      using partition_loop_list [OF m len1(1) sp] by blast
    let ?x3 = "swap_at lo j x2"
    have len2: "length x2 = length xs" using swaps_length [OF pt(2)] by simp
    have s2: "swaps lo hi xs x2" using swaps_trans [OF swaps_mono [OF pt(2)] s1] len1(2) by simp
    have s3: "swaps lo hi xs ?x3" using s2 pt(5,6) mid less.prems(2) by (intro swaps_step) auto
    have p2: "x2 ! lo = p" using swaps_outside [OF pt(2), of lo] by (simp add: p_def)
    have left: "\<forall>t. lo \<le> t \<and> t < j \<longrightarrow> sint (?x3 ! t) \<le> sint (?x3 ! j)"
      using pt(5,6,8) p2 len2 less.prems(2) by (auto simp: nth_list_update)
    have l3: "j - lo < hi - lo" "length ?x3 \<le> n" "j < length ?x3" using pt(5,6) len2 less.prems(1,2) by auto
    obtain x4 where x4: "partial_quickersort arr (int lo) (int j - 1) (with_keys arr ?x3 m) = Some (with_keys arr x4 m)" "swaps lo j ?x3 x4"
      using less.hyps [OF l3 left] by blast
    have s4: "swaps lo hi xs x4" using swaps_trans [OF swaps_mono [OF x4(2)] s3] pt(6) len2 less.prems(2) by simp
    have len4: "length x4 = length xs" using swaps_length [OF s4] .
    have right: "\<forall>t. i \<le> t \<and> t < hi \<longrightarrow> sint (x4 ! t) \<le> sint (x4 ! hi)"
      using swaps_all [OF s4 less.prems(3)] swaps_outside [OF s4, of hi] pt(4) by simp
    have l4: "hi - i < hi - lo" "length x4 \<le> n" "hi < length x4" using pt(4) mid(4) len4 less.prems(1,2) by auto
    obtain x5 where x5: "partial_quickersort arr (int i) (int hi - 1) (with_keys arr x4 m) = Some (with_keys arr x5 m)" "swaps i hi x4 x5"
      using less.hyps [OF l4 right] by blast
    have "swaps lo hi xs x5" using swaps_trans [OF swaps_mono [OF x5(2)] s4] pt(4) len4 less.prems(2) by simp
    moreover have "partial_quickersort arr (int lo) (int hi - 1) (with_keys arr xs m) = Some (with_keys arr x5 m)"
      using True mid pt(1,6) x4(1) x5(1) len1 len2 less.prems(1,2)
      by (subst partial_quickersort.simps) (simp add: SWAP_with [OF m] get_key_with [OF m] p_def [symmetric])
    ultimately show ?thesis by blast
  qed
qed

lemma sedgesort_list:
  assumes m: "mapped arr n m" and l: "length xs < n" and b: "\<forall>x \<in> set xs. sint x \<le> sint s"
  shows "\<exists>ys. sedgesort arr (length xs) (with_keys arr (xs @ [s]) m) = Some (with_keys arr (ys @ [s]) m) \<and> ordered ys \<and> mset ys = mset xs"
proof -
  obtain zs where z: "partial_quickersort arr 0 (int (length xs) - 1) (with_keys arr (xs @ [s]) m) = Some (with_keys arr zs m)"
    "swaps 0 (length xs) (xs @ [s]) zs"
    using partial_quickersort_list [OF m, of "xs @ [s]" "length xs" 0] l b by (auto simp: nth_append)
  have len: "length zs = Suc (length xs)" using swaps_length [OF z(2)] by simp
  have last: "zs ! length xs = s" using swaps_outside [OF z(2), of "length xs"] by simp
  define ws where "ws = take (length xs) zs"
  have zs: "zs = ws @ [s]" using len last take_Suc_conv_app_nth [of "length xs" zs] by (simp add: ws_def)
  have ws: "length ws = length xs" "mset ws = mset xs" using swaps_mset [OF z(2)] len by (simp_all add: zs)
  obtain ys where "insort arr (length ws) (with_keys arr (ws @ [s]) m) = Some (with_keys arr (ys @ [s]) m)" "ordered ys" "mset ys = mset ws"
    using insort_list [OF m, of ws "[s]"] l ws(1) by auto
  then show ?thesis using z(1) ws zs by (auto simp: sedgesort_def)
qed

end
