(* ===== verification/SortThms.thy ===== *)
theory SortThms
  imports SortProps
begin

text \<open>
  The parallel part of the sort: the two halves that a call forks are disjoint, so that both joins merge without a conflict,
  and the number of threads makes no difference to the result.
\<close>

subsection \<open>Joining\<close>

lemma with_keys_cell:
  assumes "(arr :: nat) \<le> b" and "b < arr + 4 * n"
  obtains i k where "b = arr + 4 * i + k" and "i < n" and "k < 4"
proof
  show "b = arr + 4 * ((b - arr) div 4) + (b - arr) mod 4" using assms(1) by simp
  show "(b - arr) div 4 < n" using assms by auto
  show "(b - arr) mod 4 < 4" by simp
qed

lemma with_keys_outside: "b < arr \<or> arr + 4 * length xs \<le> b \<Longrightarrow> us_bytes (with_keys arr xs m) b = us_bytes m b"
  by (auto simp: with_keys_def)

lemma with_keys_differ:
  assumes "us_bytes (with_keys arr ys m) b \<noteq> us_bytes (with_keys arr xs m) b" and "length ys = length xs"
  obtains i k where "b = arr + 4 * i + k" and "i < length xs" and "k < 4" and "ys ! i \<noteq> xs ! i"
proof -
  have "arr \<le> b \<and> b < arr + 4 * length xs" using assms with_keys_outside [of b arr] by (metis not_le)
  then obtain i k where b: "b = arr + 4 * i + k" "i < length xs" "k < 4" by (blast elim: with_keys_cell)
  then have "ys ! i \<noteq> xs ! i" using assms by (auto simp: with_keys_byte)
  with b that show thesis by blast
qed

lemma merge_keys:
  assumes m: "mapped arr (length xs) m" and sh: "\<And>a. arr \<le> a \<Longrightarrow> a < arr + 4 * length xs \<Longrightarrow> shared a"
    and len: "length ys = length xs" "length ds = length xs" "length zs = length xs"
    and one: "\<And>i. i < length xs \<Longrightarrow> ys ! i = xs ! i \<or> ds ! i = xs ! i"
    and res: "\<And>i. i < length xs \<Longrightarrow> zs ! i = (if ys ! i = xs ! i then ds ! i else ys ! i)"
  shows "merge_shared (with_keys arr xs m) (with_keys arr ys m) (with_keys arr ds m) = with_keys arr zs m"
proof -
  let ?r = "with_keys arr xs m" and ?s = "with_keys arr ys m" and ?d = "with_keys arr ds m"
  have nc: "\<not> page_conflict ?r ?s ?d pg" for pg
  proof
    assume "page_conflict ?r ?s ?d pg"
    then obtain b where b: "us_bytes ?s b \<noteq> us_bytes ?r b" "us_bytes ?d b \<noteq> us_bytes ?r b"
      by (auto simp: page_conflict_iff conflict3_def)
    obtain i k where i: "b = arr + 4 * i + k" "i < length xs" "k < 4" "ys ! i \<noteq> xs ! i"
      using b(1) len(1) by (rule with_keys_differ)
    then show False using b(2) one [OF i(2)] len by (auto simp: with_keys_byte)
  qed
  have "\<not> us_gone m pg" if ch: "page_changed ?r ?s pg" for pg
  proof -
    obtain b where b: "b div PAGESIZE = pg" "us_bytes ?s b \<noteq> us_bytes ?r b" using ch by (auto simp: page_changed_iff)
    obtain i k where "b = arr + 4 * i + k" "i < length xs" "k < 4" using b(2) len(1) by (rule with_keys_differ)
    then show ?thesis using m b(1) by (auto simp: mapped_def)
  qed
  then have "us_gone (merge_shared ?r ?s ?d) = us_gone (with_keys arr zs m)" using nc by (auto simp: merge_shared_def)
  moreover have "us_bytes (merge_shared ?r ?s ?d) b = us_bytes (with_keys arr zs m) b" for b
  proof (cases "arr \<le> b \<and> b < arr + 4 * length xs")
    case True
    then obtain i k where b: "b = arr + 4 * i + k" "i < length xs" "k < 4" by (blast elim: with_keys_cell)
    have "shared b" using sh True by blast
    then show ?thesis using nc b one [OF b(2)] res [OF b(2)] len by (auto simp: merge_shared_def merge3_def with_keys_byte)
  next
    case False
    then have "us_bytes (with_keys arr vs m) b = us_bytes m b" if "length vs = length xs" for vs
      using that with_keys_outside [of b arr vs m] by auto
    then show ?thesis using nc len by (auto simp: merge_shared_def merge3_def)
  qed
  ultimately show ?thesis by (auto intro!: uspace.equality)
qed

subsection \<open>Splitting at the pivot\<close>

definition part_inv :: "nat \<Rightarrow> key \<Rightarrow> nat \<Rightarrow> nat \<Rightarrow> key list \<Rightarrow> bool" where
  "part_inv n p i k xs \<longleftrightarrow> 1 \<le> i \<and> i \<le> n \<and> i \<le> k + 2 \<and> k < n \<and> n \<le> length xs \<and>
     (\<forall>t. 1 \<le> t \<and> t < i \<longrightarrow> sint (xs ! t) \<le> sint p) \<and> (\<forall>t. k < t \<and> t < n \<longrightarrow> sint p \<le> sint (xs ! t))"

lemma pqsort_part_list:
  assumes m: "mapped arr c m"
  shows "length xs \<le> c \<Longrightarrow> part_inv n p i k xs \<Longrightarrow> \<exists>i' k' ys.
    pqsort_part p (arr + 4 * i) (arr + 4 * k) (with_keys arr xs m) = Some (arr + 4 * i', arr + 4 * k', with_keys arr ys m) \<and>
    swaps 1 n xs ys \<and> part_inv n p i' k' ys \<and> k' < i'"
proof (induction "Suc k - i" arbitrary: i k xs rule: less_induct)
  case less
  note inv = less.prems(2)[unfolded part_inv_def]
  have g: "get_key (arr + 4 * t) (with_keys arr xs m) = Some (xs ! t)" if "t < n" for t
    using get_key_with [OF m less.prems(1), of t] that inv by simp
  show ?case
  proof (cases "i \<le> k")
    case False
    then show ?thesis using less.prems(2)
      by (intro exI [of _ i] exI [of _ k] exI [of _ xs], subst pqsort_part.simps) (auto intro: swaps_refl)
  next
    case True
    then have k: "arr + 4 * k - 4 = arr + 4 * (k - 1)" "i < n" "k < n" "1 \<le> k" using inv by auto
    let ?goal = "\<lambda>i1 k1 zs. \<exists>i' k' ys. pqsort_part p (arr + 4 * i1) (arr + 4 * k1) (with_keys arr zs m) =
        Some (arr + 4 * i', arr + 4 * k', with_keys arr ys m) \<and> swaps 1 n zs ys \<and> part_inv n p i' k' ys \<and> k' < i'"
    consider (up) "LT (xs ! i) p" | (down) "\<not> LT (xs ! i) p" "GT (xs ! k) p" | (swap) "\<not> LT (xs ! i) p" "\<not> GT (xs ! k) p" by blast
    then show ?thesis
    proof cases
      case up
      have l: "Suc k - Suc i < Suc k - i" using True by simp
      have pi: "part_inv n p (Suc i) k xs" using True up inv by (auto simp: part_inv_def LT_def less_Suc_eq)
      have "?goal (Suc i) k xs" by (rule less.hyps [OF l less.prems(1) pi])
      then show ?thesis using up True g k by (subst pqsort_part.simps) (simp add: ac_simps)
    next
      case down
      have "sint p \<le> sint (xs ! t)" if "k - 1 < t" "t < n" for t using that inv down(2) by (cases "t = k") (auto simp: GT_def)
      then have pi: "part_inv n p i (k - 1) xs" using True inv k(4) by (auto simp: part_inv_def)
      have l: "Suc (k - 1) - i < Suc k - i" using True k(4) by simp
      have "?goal i (k - 1) xs" by (rule less.hyps [OF l less.prems(1) pi])
      then show ?thesis using down True g k by (subst pqsort_part.simps) simp
    next
      case swap
      let ?zs = "swap_at k i xs"
      have l: "k < length xs" "i < length xs" using k inv by auto
      have "sint (?zs ! t) \<le> sint p" if "1 \<le> t" "t < Suc i" for t
        using that inv swap(2) l True by (cases "t = i") (auto simp: GT_def nth_list_update)
      moreover have "sint p \<le> sint (?zs ! t)" if "k - 1 < t" "t < n" for t
        using that inv swap(1) l True by (cases "t = k") (auto simp: LT_def nth_list_update)
      ultimately have pi: "part_inv n p (Suc i) (k - 1) ?zs" using inv True k(4) by (auto simp: part_inv_def)
      have s: "swaps 1 n xs ?zs" using inv True k by (intro swap_step) auto
      have d: "Suc (k - 1) - Suc i < Suc k - i" "length ?zs \<le> c" using True k(4) less.prems(1) by auto
      obtain i' k' ys where r: "pqsort_part p (arr + 4 * Suc i) (arr + 4 * (k - 1)) (with_keys arr ?zs m) =
          Some (arr + 4 * i', arr + 4 * k', with_keys arr ys m)" "swaps 1 n ?zs ys" "part_inv n p i' k' ys" "k' < i'" using less.hyps [OF d pi] by blast
      have "pqsort_part p (arr + 4 * i) (arr + 4 * k) (with_keys arr xs m) = Some (arr + 4 * i', arr + 4 * k', with_keys arr ys m)"
        using r(1) swap True g k SWAP_with [OF m less.prems(1) l] by (subst pqsort_part.simps) (simp add: ac_simps)
      then show ?thesis using r(2-4) s swaps_trans by blast
    qed
  qed
qed

text \<open>After the pivot is in its place, the array is a left part, the pivot unless it went to the right part, and a right part.\<close>

lemma split_list3: "a \<le> b \<Longrightarrow> b \<le> n \<Longrightarrow> n < length zs \<Longrightarrow>
  take (Suc n) zs = take a zs @ take (b - a) (drop a zs) @ take (n - b) (drop b zs) @ [zs ! n]"
  by (simp add: take_Suc_conv_app_nth) (metis append_assoc take_add le_add_diff_inverse add_diff_inverse_nat)

lemma pqsort_split:
  assumes m: "mapped lo (Suc (length xs)) m" and n: "2 \<le> length xs" and p: "p = hd xs"
  shows "\<exists>l h m1 L M R. pqsort_part p (lo + 4) (lo + 4 * length xs - 4) (with_keys lo (xs @ [s]) m) = Some (l, h, m1) \<and>
    SWAP lo (l - 4) m1 = Some (with_keys lo (L @ M @ R @ [s]) m) \<and> l = lo + 4 * Suc (length L) \<and>
    h + 4 = lo + 4 * length (L @ M) \<and> mset (L @ M @ R) = mset xs \<and>
    (\<forall>x \<in> set L. sint x \<le> sint p) \<and> (\<forall>x \<in> set M. x = p) \<and> (\<forall>x \<in> set R. sint p \<le> sint x)"
proof -
  define n where "n = length xs"
  have hd: "(xs @ [s]) ! 0 = p" using n p by (cases xs) auto
  have pi: "part_inv n p 1 (n - 1) (xs @ [s])" using n by (auto simp: part_inv_def n_def)
  have lxs: "length (xs @ [s]) \<le> Suc (length xs)" by simp
  obtain i k ys where r: "pqsort_part p (lo + 4 * 1) (lo + 4 * (n - 1)) (with_keys lo (xs @ [s]) m) =
      Some (lo + 4 * i, lo + 4 * k, with_keys lo ys m)" "swaps 1 n (xs @ [s]) ys" "part_inv n p i k ys" "k < i"
    using pqsort_part_list [OF m lxs pi] by blast
  note inv = r(3)[unfolded part_inv_def]
  have ly: "length ys = Suc n" using swaps_length [OF r(2)] by (simp add: n_def)
  have y: "ys ! 0 = p" "ys ! n = s" using swaps_outside [OF r(2), of 0] swaps_outside [OF r(2), of n] hd by (auto simp: n_def)
  have ik: "i - 1 \<le> n" "i - 1 \<le> Suc k" "Suc k \<le> n" "i - 1 < Suc n" using inv by auto
  define zs where "zs = swap_at 0 (i - 1) ys"
  have w: "SWAP lo (lo + 4 * (i - 1)) (with_keys lo ys m) = Some (with_keys lo zs m)"
    using SWAP_with [OF m, of ys 0 "i - 1"] ly ik by (simp add: n_def zs_def)
  have lz: "length zs = Suc n" using ly by (simp add: zs_def)
  define L M R where "L = take (i - 1) zs" and "M = take (Suc k - (i - 1)) (drop (i - 1) zs)" and "R = take (n - Suc k) (drop (Suc k) zs)"
  have lens: "length L = i - 1" "length (L @ M) = Suc k" using ik lz by (auto simp: L_def M_def)
  have zn: "zs ! n = s" using y(2) ik inv n ly by (auto simp: zs_def n_def nth_list_update)
  have zs: "zs = L @ M @ R @ [s]" using split_list3 [of "i - 1" "Suc k" n zs] ik lz zn by (simp add: L_def M_def R_def)
  have mid: "zs ! (i - 1) = p" using y(1) ik ly by (simp add: zs_def)
  have cL: "sint x \<le> sint p" if x: "x \<in> set L" for x
  proof -
    obtain t where t: "t < i - 1" "x = zs ! t" using x ik lz by (auto simp: L_def in_set_conv_nth)
    then show ?thesis using inv y(1) ly by (cases "t = 0"; cases "i - 1 = 0") (auto simp: zs_def nth_list_update)
  qed
  have cM: "x = p" if "x \<in> set M" for x
  proof -
    have "Suc k - (i - 1) \<le> 1" using r(4) by simp
    then have "M = [] \<or> M = [zs ! (i - 1)]" using ik lz
      by (cases "Suc k - (i - 1)") (auto simp: M_def take_Suc hd_drop_conv_nth)
    then show ?thesis using that mid by auto
  qed
  have cR: "sint p \<le> sint x" if x: "x \<in> set R" for x
  proof -
    obtain u where u: "u < n - Suc k" "x = zs ! (Suc k + u)" using x ik lz by (auto simp: R_def in_set_conv_nth)
    define t where "t = Suc k + u"
    have t: "Suc k \<le> t" "t < n" "x = zs ! t" using u by (auto simp: t_def)
    then show ?thesis using inv mid ly by (cases "t = i - 1") (auto simp: zs_def nth_list_update)
  qed
  have cms: "mset (L @ M @ R) = mset xs"
  proof -
    have "mset zs = mset ys" unfolding zs_def using mset_swap [of "i - 1" ys 0] ik ly by simp
    then show ?thesis using swaps_mset [OF r(2)] zs by simp
  qed
  have e: "lo + 4 * length xs - 4 = lo + 4 * (n - 1)" "lo + 4 * 1 = lo + 4" using n by (simp_all add: n_def)
  have il: "lo + 4 * i - 4 = lo + 4 * (i - 1)" "lo + 4 * i = lo + 4 * Suc (length L)" using inv lens(1) by auto
  have kl: "lo + 4 * k + 4 = lo + 4 * length (L @ M)" unfolding lens(2) by simp
  have w1: "SWAP lo (lo + 4 * i - 4) (with_keys lo ys m) = Some (with_keys lo (L @ M @ R @ [s]) m)" unfolding il(1) w zs [symmetric] ..
  show ?thesis using r(1)[unfolded e(2)] w1 il(2) kl cms cL cM cR unfolding e(1) by blast
qed

subsection \<open>The whole sort\<close>

text \<open>An array of keys in mapped pages of the shared region, with a key after it that is as large as any of them.\<close>

definition sortable :: "nat \<Rightarrow> key list \<Rightarrow> key \<Rightarrow> uspace \<Rightarrow> bool" where
  "sortable lo xs s m \<longleftrightarrow> 4 \<le> lo \<and> mapped lo (Suc (length xs)) m \<and> (\<forall>a. lo \<le> a \<and> a < lo + 4 * Suc (length xs) \<longrightarrow> shared a) \<and>
     (\<forall>x \<in> set xs. sint x \<le> sint s)"

lemma mapped_sub: "mapped lo n m \<Longrightarrow> lo \<le> a \<Longrightarrow> a + 4 * k \<le> lo + 4 * n \<Longrightarrow> us_gone m' = us_gone m \<Longrightarrow> mapped a k m'"
  by (auto simp: mapped_def)

lemma join_halves:
  assumes m: "mapped lo (length (L @ M @ R @ [s])) m"
    and sh: "\<And>a. lo \<le> a \<Longrightarrow> a < lo + 4 * length (L @ M @ R @ [s]) \<Longrightarrow> shared a"
    and len: "length L' = length L" "length R' = length R"
  defines "k \<equiv> (\<lambda>l r. with_keys lo (l @ M @ r @ [s]) m)"
  shows "bench_join (k L R, k L R') (bench_join (k L R, k L' R) (k L R)) = k L' R'"
proof -
  have "merge_shared (k L R) (k L' R) (k L R) = k L' R"
    unfolding k_def using m sh len by (intro merge_keys) (auto simp: nth_append)
  moreover have "merge_shared (k L R) (k L R') (k L' R) = k L' R'"
    unfolding k_def using m sh len by (intro merge_keys) (auto simp: nth_append)
  ultimately show ?thesis by (simp add: bench_join_def)
qed

lemma ordered_parts:
  "ordered L \<Longrightarrow> ordered R \<Longrightarrow> \<forall>x \<in> set L. sint x \<le> sint p \<Longrightarrow> \<forall>x \<in> set M. x = p \<Longrightarrow> \<forall>x \<in> set R. sint p \<le> sint x \<Longrightarrow>
    ordered (L @ M @ R)"
proof -
  assume a: "ordered L" "ordered R" "\<forall>x \<in> set L. sint x \<le> sint p" "\<forall>x \<in> set M. x = p" "\<forall>x \<in> set R. sint p \<le> sint x"
  have "ordered M" using a(4) by (induction M) auto
  then show ?thesis using a by (auto simp: sorted_append) (meson order_trans)
qed

definition sorts :: "nat \<Rightarrow> bool" where
  "sorts th \<longleftrightarrow> (\<forall>lo xs s m. sortable lo xs s m \<longrightarrow> (\<exists>ys. pqsort th lo (lo + 4 * length xs - 4) (with_keys lo (xs @ [s]) m) =
     Some (with_keys lo (ys @ [s]) m) \<and> ordered ys \<and> mset ys = mset xs))"

lemma sortable_with [simp]: "sortable lo xs s (with_keys arr ys m) = sortable lo xs s m"
  by (simp add: sortable_def mapped_def)

lemma sorts_left:
  assumes "sorts th" and "sortable lo L s m"
  shows "\<exists>L'. pqsort th lo (lo + 4 * length L - 4) (with_keys lo (L @ s # rs) m) = Some (with_keys lo (L' @ s # rs) m) \<and>
    ordered L' \<and> mset L' = mset L"
proof -
  let ?m = "with_keys (lo + 4 * Suc (length L)) rs m"
  have e: "with_keys lo (X @ s # rs) m = with_keys lo (X @ [s]) ?m" if "length X = length L" for X
    using that with_keys_append [of lo "X @ [s]" rs m] by simp
  have "sortable lo L s ?m" using assms(2) by simp
  then obtain ys where ys: "pqsort th lo (lo + 4 * length L - 4) (with_keys lo (L @ [s]) ?m) = Some (with_keys lo (ys @ [s]) ?m)"
    "ordered ys" "mset ys = mset L" using assms(1) unfolding sorts_def by blast
  have "length ys = length L" using ys(3) by (rule mset_eq_length)
  then have "with_keys lo (ys @ s # rs) m = with_keys lo (ys @ [s]) ?m" by (rule e)
  then show ?thesis using ys e [OF refl] by (intro exI [of _ ys]) (simp del: mult_Suc_right)
qed

lemma sorts_right:
  assumes "sorts th" and "sortable (lo + 4 * length P) R s m"
  shows "\<exists>R'. pqsort th (lo + 4 * length P) (lo + 4 * length P + 4 * length R - 4) (with_keys lo (P @ R @ [s]) m) =
    Some (with_keys lo (P @ R' @ [s]) m) \<and> ordered R' \<and> mset R' = mset R"
proof -
  let ?a = "lo + 4 * length P" and ?m = "with_keys lo P m"
  have e: "with_keys lo (P @ X) m = with_keys ?a X ?m" for X
    using with_keys_append [of lo P X m] with_keys_commute [of lo P X m] by simp
  have "sortable ?a R s ?m" using assms(2) by simp
  then obtain ys where "pqsort th ?a (?a + 4 * length R - 4) (with_keys ?a (R @ [s]) ?m) = Some (with_keys ?a (ys @ [s]) ?m)"
    "ordered ys" "mset ys = mset R" using assms(1) unfolding sorts_def by blast
  then show ?thesis by (auto simp: e)
qed

lemma pqsort_fork:
  assumes s: "sorts (th div 2)" and "1 < th" and "2 \<le> length xs" and so: "sortable lo xs s m"
  shows "\<exists>ys. pqsort th lo (lo + 4 * length xs - 4) (with_keys lo (xs @ [s]) m) = Some (with_keys lo (ys @ [s]) m) \<and>
    ordered ys \<and> mset ys = mset xs"
proof -
  have mp: "mapped lo (Suc (length xs)) m" and sh: "\<And>a. lo \<le> a \<Longrightarrow> a < lo + 4 * Suc (length xs) \<Longrightarrow> shared a"
    and big: "\<forall>x \<in> set xs. sint x \<le> sint s" and lo: "4 \<le> lo" using so by (auto simp: sortable_def)
  obtain l h m1 L M R where sp: "pqsort_part (hd xs) (lo + 4) (lo + 4 * length xs - 4) (with_keys lo (xs @ [s]) m) = Some (l, h, m1)"
    "SWAP lo (l - 4) m1 = Some (with_keys lo (L @ M @ R @ [s]) m)" "l = lo + 4 * Suc (length L)" "h + 4 = lo + 4 * length (L @ M)"
    "mset (L @ M @ R) = mset xs" "\<forall>x \<in> set L. sint x \<le> sint (hd xs)" "\<forall>x \<in> set M. x = hd xs" "\<forall>x \<in> set R. sint (hd xs) \<le> sint x"
    using pqsort_split [OF mp assms(3) refl] by blast
  let ?k = "\<lambda>l r. with_keys lo (l @ M @ r @ [s]) m"
  have len: "length xs = length L + length M + length R" using mset_eq_length [OF sp(5)] by simp
  have sets: "hd xs \<in> set xs" "set R \<subseteq> set xs" using assms(3) mset_eq_setD [OF sp(5)] by (cases xs; auto)+
  obtain r0 rs where r0: "M @ R @ [s] = r0 # rs" by (cases "M @ R @ [s]") auto
  have "r0 \<in> set (M @ R @ [s])" unfolding r0 by simp
  then have "sint (hd xs) \<le> sint r0" using sp(7,8) big sets by auto
  then have "sortable lo L r0 m" using lo mp sh sp(6) len by (auto simp: sortable_def intro: mapped_sub order_trans)
  then obtain L' where L': "pqsort (th div 2) lo (lo + 4 * length L - 4) (?k L R) = Some (?k L' R)" "ordered L'" "mset L' = mset L"
    using sorts_left [OF s, of lo L r0 m rs] unfolding r0 by blast
  have "sortable (lo + 4 * length (L @ M)) R s m" using lo mp sh len big sets by (auto simp: sortable_def intro: mapped_sub)
  then obtain R' where R': "pqsort (th div 2) (h + 4) (lo + 4 * length xs - 4) (?k L R) = Some (?k L R')" "ordered R'" "mset R' = mset R"
    using sorts_right [OF s, of lo "L @ M" R s m] len unfolding sp(4) by (auto simp: add_mult_distrib2 add.assoc)
  have j: "bench_join (?k L R, ?k L R') (bench_join (?k L R, ?k L' R) (?k L R)) = ?k L' R'"
    using mp sh len mset_eq_length [OF L'(3)] mset_eq_length [OF R'(3)] by (intro join_halves) (auto simp: add.assoc)
  have g: "get_key lo (with_keys lo (xs @ [s]) m) = Some (hd xs)"
    using get_key_with [OF mp, of "xs @ [s]" 0] assms(3) by (cases xs) auto
  have b: "\<not> lo + 4 * length xs - 4 \<le> lo" "\<not> th \<le> 1" "l - 8 = lo + 4 * length L - 4" using assms(2,3) sp(3) by auto
  have "pqsort th lo (lo + 4 * length xs - 4) (with_keys lo (xs @ [s]) m) = Some (?k L' R')"
    unfolding pqsort.simps [of th] b(3)
    by (simp only: b(1,2) g sp(1,2) b(3) L'(1) R'(1) j bench_fork_def if_False bind.bind_lunit prod.case)
  moreover have "ordered (L' @ M @ R')" using L'(2,3) R'(2,3) sp(6-8) mset_eq_setD [OF L'(3)] mset_eq_setD [OF R'(3)]
    by (intro ordered_parts) auto
  moreover have "mset (L' @ M @ R') = mset xs" using L'(3) R'(3) sp(5) by simp
  ultimately show ?thesis by (intro exI [of _ "L' @ M @ R'"]) simp
qed

lemma pqsort_sorts: "sorts th"
proof (induction th rule: less_induct)
  case (less th)
  show ?case unfolding sorts_def
  proof (intro allI impI)
    fix lo xs s m
    assume so: "sortable lo xs s m"
    then have mp: "mapped lo (Suc (length xs)) m" and big: "\<forall>x \<in> set xs. sint x \<le> sint s" and lo: "4 \<le> lo" by (auto simp: sortable_def)
    consider (small) "length xs \<le> 1" | (one) "2 \<le> length xs" "th \<le> 1" | (fork) "2 \<le> length xs" "1 < th" by linarith
    then show "\<exists>ys. pqsort th lo (lo + 4 * length xs - 4) (with_keys lo (xs @ [s]) m) = Some (with_keys lo (ys @ [s]) m) \<and>
      ordered ys \<and> mset ys = mset xs"
    proof cases
      case small
      then have "ordered xs" by (cases xs) auto
      then show ?thesis using small lo by (intro exI [of _ xs], subst pqsort.simps) auto
    next
      case one
      have b: "\<not> lo + 4 * length xs - 4 \<le> lo" "(lo + 4 * length xs - 4 - lo) div 4 + 1 = length xs" using one by auto
      show ?thesis unfolding pqsort.simps [of th] using sedgesort_list [OF mp _ big] one(2) by (simp only: b if_False if_True)
    next
      case fork
      then show ?thesis using pqsort_fork [OF _ _ _ so] less by simp
    qed
  qed
qed

lemma keys_of_with: "keys_of lo (length xs) (with_keys lo (xs @ ys) m) = xs"
  by (rule nth_equalityI) (auto simp: keys_of_def key_at_with nth_append)

lemma keys_of_Suc: "keys_of lo (Suc n) m = keys_of lo n m @ [key_at m (lo + 4 * n)]"
  by (simp add: keys_of_def)

lemma ordered_unique:
  assumes "ordered xs" and "ordered ys" and "mset xs = mset ys"
  shows "xs = ys"
proof -
  have "map sint xs = map sint ys" using assms by (metis mset_map properties_for_sort)
  moreover have "inj (sint :: key \<Rightarrow> int)" by (rule inj_onI) (rule signed_word_eqI)
  ultimately show ?thesis by (simp add: inj_map_eq_map)
qed

text \<open>C13: The parallel sort of an array in the shared region returns the same memory whatever the number of threads: the keys of the
  array in ascending order, and no byte outside the array changed. No join finds a conflict. The hypothesis is the one the
  source's comment asks for: after the array there is a key as large as any in it.
\<close>

theorem pqsort_deterministic:
  assumes "sortable lo (keys_of lo n m) (key_at m (lo + 4 * n)) m"
  shows "\<exists>m'. (\<forall>threads. pqsort threads lo (lo + 4 * n - 4) m = Some m') \<and>
    sorted (map sint (keys_of lo n m')) \<and> mset (keys_of lo n m') = mset (keys_of lo n m) \<and>
    (\<forall>a. a < lo \<or> lo + 4 * n \<le> a \<longrightarrow> us_bytes m' a = us_bytes m a) \<and> us_gone m' = us_gone m"
proof -
  define xs s where "xs = keys_of lo n m" and "s = key_at m (lo + 4 * n)"
  have n: "length xs = n" by (simp add: xs_def keys_of_def)
  have m: "with_keys lo (xs @ [s]) m = m" using with_keys_of [of lo "Suc n" m] by (simp add: keys_of_Suc xs_def s_def)
  have ex: "\<exists>ys. pqsort th lo (lo + 4 * n - 4) m = Some (with_keys lo (ys @ [s]) m) \<and> ordered ys \<and> mset ys = mset xs" for th
    using pqsort_sorts [of th] assms n m unfolding sorts_def xs_def [symmetric] s_def [symmetric] by metis
  obtain ys where ys: "ordered ys" "mset ys = mset xs" using ex [of 0] by blast
  have l: "length ys = n" using mset_eq_length [OF ys(2)] n by simp
  have all: "pqsort th lo (lo + 4 * n - 4) m = Some (with_keys lo (ys @ [s]) m)" for th
    using ex [of th] ys ordered_unique by metis
  have "us_bytes (with_keys lo (ys @ [s]) m) a = us_bytes m a" if "a < lo \<or> lo + 4 * n \<le> a" for a
  proof -
    have "us_bytes (with_keys lo (zs @ [s]) m) a = us_bytes (with_keys (lo + 4 * n) [s] m) a" if "length zs = n" for zs
      using that \<open>a < lo \<or> lo + 4 * n \<le> a\<close> by (simp add: with_keys_append with_keys_outside)
    then show ?thesis using l n m by metis
  qed
  then show ?thesis using all ys keys_of_with [of lo ys "[s]" m] l unfolding xs_def by (intro exI [of _ "with_keys lo (ys @ [s]) m"]) simp
qed

theorem pqsort_deterministic_witness:
  "\<exists>m'. (\<forall>threads. pqsort threads VM_SHARELO (VM_SHARELO + 4 * 3 - 4) (with_keys VM_SHARELO [3, - 1, 2, 7] zeros) = Some m') \<and>
     sorted (map sint (keys_of VM_SHARELO 3 m')) \<and> mset (keys_of VM_SHARELO 3 m') = mset [3, - 1, 2]"
proof -
  let ?m = "with_keys VM_SHARELO [3, - 1, 2, 7] zeros"
  have k: "keys_of VM_SHARELO 3 ?m = [3, - 1, 2]" using keys_of_with [of VM_SHARELO "[3, - 1, 2]" "[7]" zeros] by (simp add: numeral_3_eq_3)
  have s: "key_at ?m (VM_SHARELO + 4 * 3) = 7" using key_at_with [of 3 "[3, - 1, 2, 7]" VM_SHARELO zeros] by simp
  have so: "sortable VM_SHARELO (keys_of VM_SHARELO 3 ?m) (key_at ?m (VM_SHARELO + 4 * 3)) ?m" unfolding k s
    by (simp add: sortable_def mapped_def zeros_def shared_def VM_SHARELO_def VM_SHAREHI_def VM_USERLO_def)
  show ?thesis using pqsort_deterministic [OF so] unfolding k by blast
qed

end
