(* ===== verification/E100.thy ===== *)
theory E100
  imports Prelude
begin

unbundle bit_operations_syntax

text \<open>
  The network card driver (\<open>dev/e100.c\<close>): a ring of transmit commands and a ring of receive descriptors, shared with the card. The
  card fills descriptors in ring order until it has filled one with the suspend bit; it does not look at their status. The driver
  may run on several CPUs at once: it holds the lock except while the network stack handles a received packet.

  The heads and tails count up for ever, and a slot is their remainder; they are C \<open>int\<close>s, and counting past \<open>2 ^ 31 - 1\<close> is
  \<open>None\<close>, like a failed assertion. The serial read of the card's address and the ports are left out: of a command to the card the
  model keeps what it is and which slot it names.
\<close>

definition E100_TX_SLOTS :: nat where "E100_TX_SLOTS = 64"
definition E100_RX_SLOTS :: nat where "E100_RX_SLOTS = 64"
definition E100_SIZE_MASK :: u16 where "E100_SIZE_MASK = 0x3fff"
definition NET_MAXPKT :: nat where "NET_MAXPKT = 1514"

definition E100_CB_COMMAND_XMIT :: u16 where "E100_CB_COMMAND_XMIT = 0x4"
definition E100_CB_COMMAND_SF :: u16 where "E100_CB_COMMAND_SF = 0x0008"
definition E100_CB_COMMAND_I :: u16 where "E100_CB_COMMAND_I = 0x2000"
definition E100_CB_COMMAND_S :: u16 where "E100_CB_COMMAND_S = 0x4000"
definition E100_CB_STATUS_C :: u16 where "E100_CB_STATUS_C = 0x8000"
definition E100_RFA_STATUS_OK :: u16 where "E100_RFA_STATUS_OK = 0x2000"
definition E100_RFA_STATUS_C :: u16 where "E100_RFA_STATUS_C = 0x8000"
definition E100_RFA_CONTROL_S :: u16 where "E100_RFA_CONTROL_S = 0x4000"

subsection \<open>State\<close>

record tx_slot =
  cb_status :: u16
  cb_command :: u16
  tx_link :: nat
  tb_size :: nat
  tx_buf :: "nat \<Rightarrow> u8"

record rx_slot =
  rfd_status :: u16
  rfd_control :: u16
  rx_link :: nat
  rfd_actual :: u16
  rx_buf :: "nat \<Rightarrow> u8"

datatype scb_command = CU_START nat | CU_RESUME | RU_START nat | RU_RESUME

record e100 =
  tx :: "nat \<Rightarrow> tx_slot"
  tx_head :: nat
  tx_tail :: nat
  tx_idle :: bool
  rx :: "nat \<Rightarrow> rx_slot"
  rx_head :: nat
  rx_tail :: nat
  rx_idle :: bool
  scb :: "scb_command list"

definition INT_LIMIT :: nat where "INT_LIMIT = 2 ^ 31"

definition tx_done :: "tx_slot \<Rightarrow> bool" where "tx_done t \<longleftrightarrow> cb_status t AND E100_CB_STATUS_C \<noteq> 0"
definition rx_done :: "rx_slot \<Rightarrow> bool" where "rx_done r \<longleftrightarrow> rfd_status r AND E100_RFA_STATUS_C \<noteq> 0"
definition rx_ok :: "rx_slot \<Rightarrow> bool" where "rx_ok r \<longleftrightarrow> rfd_status r AND E100_RFA_STATUS_OK \<noteq> 0"

definition upd_rx :: "nat \<Rightarrow> (rx_slot \<Rightarrow> rx_slot) \<Rightarrow> e100 \<Rightarrow> e100" where
  "upd_rx i f e = e\<lparr>rx := (rx e)(i := f (rx e i))\<rparr>"

definition scb_cmd :: "scb_command \<Rightarrow> e100 \<Rightarrow> e100" where
  "scb_cmd c e = e\<lparr>scb := scb e @ [c]\<rparr>"

subsection \<open>Transmitting\<close>

definition e100_tx_start :: "e100 \<Rightarrow> e100 option" where
  "e100_tx_start e = do {
     cassert (tx_tail e \<noteq> tx_head e);
     Some (if tx_idle e then (scb_cmd (CU_START (tx_tail e mod E100_TX_SLOTS)) e)\<lparr>tx_idle := False\<rparr>
       else scb_cmd CU_RESUME e)
   }"

definition copy_in :: "nat \<Rightarrow> u8 list \<Rightarrow> (nat \<Rightarrow> u8) \<Rightarrow> nat \<Rightarrow> u8" where
  "copy_in at bs buf = (\<lambda>a. if at \<le> a \<and> a < at + length bs then bs ! (a - at) else buf a)"

definition e100_tx :: "u8 list \<Rightarrow> u8 list \<Rightarrow> e100 \<Rightarrow> (bool \<times> e100) option" where
  "e100_tx hdr body e = do {
     cassert (length hdr + length body \<le> NET_MAXPKT);
     (if tx_head e - tx_tail e = E100_TX_SLOTS then Some (False, e)
      else do {
        let i = tx_head e mod E100_TX_SLOTS;
        let len = max (length hdr + length body) 64;
        let t = (tx e i)\<lparr>tx_buf := copy_in (length hdr) body (copy_in 0 hdr (tx_buf (tx e i))), tb_size := len, cb_status := 0,
          cb_command := E100_CB_COMMAND_XMIT OR E100_CB_COMMAND_SF OR E100_CB_COMMAND_I OR E100_CB_COMMAND_S\<rparr>;
        cassert (tx_head e + 1 < INT_LIMIT);
        e1 \<leftarrow> e100_tx_start (e\<lparr>tx := (tx e)(i := t), tx_head := tx_head e + 1\<rparr>);
        Some (True, e1)
      })
   }"

function tx_complete :: "(nat \<Rightarrow> tx_slot) \<Rightarrow> nat \<Rightarrow> nat \<Rightarrow> nat" where
  "tx_complete t head tail =
     (if tail < head \<and> tx_done (t (tail mod E100_TX_SLOTS)) then tx_complete t head (tail + 1) else tail)"
  by pat_completeness auto
termination by (relation "measure (\<lambda>(_, head, tail). head - tail)") auto

declare tx_complete.simps [simp del]

definition e100_intr_tx :: "e100 \<Rightarrow> e100" where
  "e100_intr_tx e = e\<lparr>tx_tail := tx_complete (tx e) (tx_head e) (tx_tail e)\<rparr>"

text \<open>The transmit part of the interrupt handler: \<open>done\<close> says that the card reported finished commands.\<close>

definition intr_tx_part :: "bool \<Rightarrow> e100 \<Rightarrow> e100 option" where
  "intr_tx_part done e = do {
     let e1 = (if done then e100_intr_tx e else e);
     (if tx_head e1 > tx_tail e1 then e100_tx_start e1 else Some e1)
   }"

subsection \<open>Receiving\<close>

definition e100_rx_start :: "e100 \<Rightarrow> e100" where
  "e100_rx_start e =
     (let i = rx_head e mod E100_RX_SLOTS in
      if rx_done (rx e i) then e
      else if rx_idle e then (scb_cmd (RU_START i) e)\<lparr>rx_idle := False\<rparr>
      else scb_cmd RU_RESUME e)"

text \<open>The top of the loop in \<open>e100_intr_rx\<close>: the slot at the head, claimed if it holds a packet.\<close>

definition rx_claim :: "e100 \<Rightarrow> (nat option \<times> e100) option" where
  "rx_claim e =
     (let i = rx_head e mod E100_RX_SLOTS in
      if \<not> rx_done (rx e i) then Some (None, e)
      else do { cassert (rx_head e + 1 < INT_LIMIT); Some (Some i, e\<lparr>rx_head := rx_head e + 1\<rparr>) })"

text \<open>What \<open>net_rx\<close> gets.\<close>

definition rx_packet :: "nat \<Rightarrow> e100 \<Rightarrow> u8 list" where
  "rx_packet i e = map (rx_buf (rx e i)) [0..<unat (rfd_actual (rx e i) AND E100_SIZE_MASK)]"

text \<open>The rest of the loop body, after the packet was handled.\<close>

definition rx_unclaim :: "nat \<Rightarrow> e100 \<Rightarrow> e100 option" where
  "rx_unclaim i e = do {
     cassert (rx_done (rx e i));
     Some (upd_rx i (\<lambda>r. r\<lparr>rfd_control := E100_RFA_CONTROL_S, rfd_status := 0, rfd_actual := 0\<rparr>) e)
   }"

text \<open>The loop that moves the tail. When the tail is 0, the slot before it has index \<open>-1\<close>, which in the layout of the structure is
  the unused part of the last transmit slot: no receive slot changes.\<close>

function rx_advance :: "e100 \<Rightarrow> e100 option" where
  "rx_advance e =
     (if rx_tail e < rx_head e \<and> \<not> rx_done (rx e (rx_tail e mod E100_RX_SLOTS))
      then do {
        cassert (rfd_control (rx e (rx_tail e mod E100_RX_SLOTS)) = E100_RFA_CONTROL_S);
        let e1 = (if rx_tail e = 0 then e else upd_rx ((rx_tail e - 1) mod E100_RX_SLOTS) (\<lambda>r. r\<lparr>rfd_control := 0\<rparr>) e);
        rx_advance (e1\<lparr>rx_tail := rx_tail e + 1\<rparr>)
      }
      else Some e)"
  by pat_completeness auto
termination by (relation "measure (\<lambda>e. rx_head e - rx_tail e)") (auto simp: upd_rx_def)

declare rx_advance.simps [simp del]

subsection \<open>Initialisation\<close>

definition e100_attach :: e100 where
  "e100_attach = e100_rx_start
     \<lparr>tx = (\<lambda>i. \<lparr>cb_status = 0, cb_command = 0, tx_link = (i + 1) mod E100_TX_SLOTS, tb_size = 0, tx_buf = (\<lambda>_. 0)\<rparr>),
      tx_head = 0, tx_tail = 0, tx_idle = True,
      rx = (\<lambda>i. \<lparr>rfd_status = 0, rfd_control = (if i = E100_RX_SLOTS - 1 then E100_RFA_CONTROL_S else 0),
        rx_link = (i + 1) mod E100_RX_SLOTS, rfd_actual = 0, rx_buf = (\<lambda>_. 0)\<rparr>),
      rx_head = 0, rx_tail = 0, rx_idle = True, scb = []\<rparr>"

subsection \<open>The card and the CPUs\<close>

text \<open>A CPU is outside the driver, in the loop of \<open>e100_intr_rx\<close> with the lock, or handling the packet of a slot without the lock.
  The card has the slot it will fill next, and whether it is receiving; \<open>frames\<close> are those it has received so far, each with
  whether it arrived intact, and \<open>upcalls\<close> what \<open>net_rx\<close> was called with.\<close>

datatype rx_pc = Outside | Looping | Handling nat nat

record rx_system =
  drv :: e100
  cpus :: "nat \<Rightarrow> rx_pc"
  locked :: bool
  ru_slot :: nat
  ru_active :: bool
  frames :: "(bool \<times> u8 list) list"
  upcalls :: "u8 list list"

text \<open>The card stores a frame in its slot and goes to the next, unless the slot says to suspend.\<close>

definition card_fill :: "bool \<Rightarrow> u8 list \<Rightarrow> rx_system \<Rightarrow> rx_system" where
  "card_fill ok data s =
     s\<lparr>drv := upd_rx (ru_slot s) (\<lambda>r. r\<lparr>rfd_status := E100_RFA_STATUS_C OR (if ok then E100_RFA_STATUS_OK else 0),
         rfd_actual := 0xc000 OR of_nat (length data), rx_buf := copy_in 0 data (rx_buf r)\<rparr>) (drv s),
       ru_slot := rx_link (rx (drv s) (ru_slot s)),
       ru_active := rfd_control (rx (drv s) (ru_slot s)) AND E100_RFA_CONTROL_S = 0,
       frames := frames s @ [(ok, data)]\<rparr>"

text \<open>What the card does about the commands that the driver's new state has over the old one.\<close>

fun card_command :: "scb_command \<Rightarrow> rx_system \<Rightarrow> rx_system" where
  "card_command (RU_START i) s = s\<lparr>ru_slot := i, ru_active := True\<rparr>"
| "card_command RU_RESUME s = s\<lparr>ru_active := True\<rparr>"
| "card_command _ s = s"

definition start_receiving :: "rx_system \<Rightarrow> rx_system" where
  "start_receiving s = fold card_command (drop (length (scb (drv s))) (scb (e100_rx_start (drv s)))) (s\<lparr>drv := e100_rx_start (drv s)\<rparr>)"

text \<open>The steps. An interrupt has the lock free; \<open>rnr\<close> is the card's report that it has no slot left. Its handler looks at
  the ring only if the card also reports a received frame.\<close>

inductive rx_step :: "rx_system \<Rightarrow> rx_system \<Rightarrow> bool" where
  card: "ru_active s \<Longrightarrow> length data \<le> NET_MAXPKT \<Longrightarrow> rx_step s (card_fill ok data s)"
| intr: "\<not> locked s \<Longrightarrow> cpus s c = Outside \<Longrightarrow>
    rx_step s (s\<lparr>drv := (drv s)\<lparr>rx_idle := rnr \<or> rx_idle (drv s)\<rparr>, locked := True, cpus := (cpus s)(c := Looping)\<rparr>)"
| intr_quiet: "\<not> locked s \<Longrightarrow> cpus s c = Outside \<Longrightarrow>
    rx_step s (start_receiving (s\<lparr>drv := (drv s)\<lparr>rx_idle := rnr \<or> rx_idle (drv s)\<rparr>\<rparr>))"
| handle: "cpus s c = Looping \<Longrightarrow> rx_claim (drv s) = Some (Some i, e) \<Longrightarrow> rx_ok (rx e i) \<Longrightarrow>
    rx_step s (s\<lparr>drv := e, locked := False, cpus := (cpus s)(c := Handling i (rx_head (drv s))), upcalls := upcalls s @ [rx_packet i e]\<rparr>)"
| damaged: "cpus s c = Looping \<Longrightarrow> rx_claim (drv s) = Some (Some i, e) \<Longrightarrow> \<not> rx_ok (rx e i) \<Longrightarrow> rx_unclaim i e = Some e1 \<Longrightarrow>
    rx_step s (s\<lparr>drv := e1\<rparr>)"
| handled: "cpus s c = Handling i a \<Longrightarrow> \<not> locked s \<Longrightarrow> rx_unclaim i (drv s) = Some e \<Longrightarrow>
    rx_step s (s\<lparr>drv := e, locked := True, cpus := (cpus s)(c := Looping)\<rparr>)"
| leave: "cpus s c = Looping \<Longrightarrow> rx_claim (drv s) = Some (None, e) \<Longrightarrow> rx_advance e = Some e1 \<Longrightarrow>
    rx_step s (start_receiving (s\<lparr>drv := e1, locked := False, cpus := (cpus s)(c := Outside)\<rparr>))"

definition rx_init :: rx_system where
  "rx_init = \<lparr>drv = e100_attach, cpus = (\<lambda>_. Outside), locked = False, ru_slot = 0, ru_active = True, frames = [], upcalls = []\<rparr>"

text \<open>The reachable states: all of them, or those where the head has never been a whole ring ahead of the tail.\<close>

inductive rx_reachable :: "bool \<Rightarrow> rx_system \<Rightarrow> bool" for full where
  init: "rx_reachable full rx_init"
| step: "rx_reachable full s \<Longrightarrow> rx_step s t \<Longrightarrow> full \<or> rx_head (drv t) < rx_tail (drv t) + E100_RX_SLOTS \<Longrightarrow> rx_reachable full t"

end
