(* ===== verification/E100Props.thy ===== *)
theory E100Props
  imports E100
begin

text \<open>
  The network card driver: every intact frame that the card has stored goes to the network stack exactly once and in order, on any
  number of CPUs, the card never stores over one that is still needed, and no assertion fails, as long as the head is less than
  a whole ring ahead of the tail. When a whole ring of frames is claimed before the tail moves, a frame that is still being
  handled is claimed a second time, or the assertion in the loop over the tail fails.
\<close>

subsection \<open>Slots\<close>

abbreviation slot :: "nat \<Rightarrow> nat" where "slot a \<equiv> a mod E100_RX_SLOTS"

lemma slot_less [simp]: "slot a < E100_RX_SLOTS"
  by (simp add: E100_RX_SLOTS_def)

lemma slot_eq:
  assumes "slot a = slot b" and "a \<le> b" and "b < a + E100_RX_SLOTS"
  shows "a = b"
proof -
  have "E100_RX_SLOTS dvd b - a" using assms(1) mod_eq_dvd_iff_nat [OF assms(2)] by metis
  then show ?thesis using assms(2,3) by (auto dest: dvd_imp_le)
qed

lemma slot_near: "slot a = slot b \<Longrightarrow> t \<le> a \<Longrightarrow> a < t + E100_RX_SLOTS \<Longrightarrow> t \<le> b \<Longrightarrow> b < t + E100_RX_SLOTS \<Longrightarrow> a = b"
  using slot_eq [of a b] slot_eq [of b a] by (cases "a \<le> b") auto

lemma slot_Suc: "slot (Suc (slot a)) = slot (Suc a)"
  by (rule mod_Suc_eq)

lemma slot_before: "0 < t \<Longrightarrow> slot (t - 1) = slot (t + E100_RX_SLOTS - 1)"
  by (cases t) auto

text \<open>The slot holds a frame that the card has stored.\<close>

definition holds :: "rx_slot \<Rightarrow> bool \<times> u8 list \<Rightarrow> bool" where
  "holds r f \<longleftrightarrow> rfd_status r = E100_RFA_STATUS_C OR (if fst f then E100_RFA_STATUS_OK else 0) \<and>
     rfd_actual r = 0xc000 OR of_nat (length (snd f)) \<and> length (snd f) \<le> NET_MAXPKT \<and> map (rx_buf r) [0..<length (snd f)] = snd f"

lemma holds_done: "holds r f \<Longrightarrow> rx_done r"
  by (auto simp: holds_def rx_done_def E100_RFA_STATUS_C_def E100_RFA_STATUS_OK_def)

lemma holds_ok: "holds r f \<Longrightarrow> rx_ok r = fst f"
  by (auto simp: holds_def rx_ok_def E100_RFA_STATUS_C_def E100_RFA_STATUS_OK_def)

lemma size_masked: "n \<le> NET_MAXPKT \<Longrightarrow> unat ((0xc000 OR of_nat n :: u16) AND E100_SIZE_MASK) = n"
proof -
  assume n: "n \<le> NET_MAXPKT"
  have "(0xc000 OR of_nat n :: u16) AND E100_SIZE_MASK = of_nat n AND mask 14"
    by (simp add: E100_SIZE_MASK_def mask_eq_exp_minus_1 bit.conj_disj_distrib2)
  also have "\<dots> = take_bit 14 (of_nat n)" by (simp add: take_bit_eq_mask)
  finally show ?thesis using n by (simp add: unsigned_take_bit_eq NET_MAXPKT_def unat_of_nat take_bit_nat_eq_self)
qed

lemma holds_packet: "holds (rx e i) f \<Longrightarrow> rx_packet i e = snd f"
  by (simp add: holds_def rx_packet_def size_masked)

lemma holds_control [simp]: "holds (r\<lparr>rfd_control := v\<rparr>) f = holds r f" "rx_done (r\<lparr>rfd_control := v\<rparr>) = rx_done r"
  by (simp_all add: holds_def rx_done_def)

lemma fill_holds:
  "length data \<le> NET_MAXPKT \<Longrightarrow> holds (r\<lparr>rfd_status := E100_RFA_STATUS_C OR (if ok then E100_RFA_STATUS_OK else 0),
     rfd_actual := 0xc000 OR of_nat (length data), rx_buf := copy_in 0 data b\<rparr>) (ok, data)"
  by (auto simp: holds_def copy_in_def intro!: nth_equalityI)

subsection \<open>The invariant\<close>

text \<open>The slots: from the head to the number of frames so far they hold frames not yet claimed; between the tail and the head, those
  not being handled have been handled and have the suspend bit; the others are free. The slot before the tail, which is the last the card may fill, has the suspend bit.\<close>

definition ring_inv :: "e100 \<Rightarrow> (bool \<times> u8 list) list \<Rightarrow> (nat \<Rightarrow> bool) \<Rightarrow> bool" where
  "ring_inv e fs busy \<longleftrightarrow> rx_tail e \<le> rx_head e \<and> rx_head e \<le> length fs \<and> length fs \<le> rx_tail e + E100_RX_SLOTS \<and>
     rx_head e < rx_tail e + E100_RX_SLOTS \<and> (\<forall>i < E100_RX_SLOTS. rx_link (rx e i) = slot (i + 1)) \<and>
     (\<forall>a. rx_head e \<le> a \<and> a < length fs \<longrightarrow> holds (rx e (slot a)) (fs ! a)) \<and>
     (\<forall>a. busy a \<longrightarrow> rx_tail e \<le> a \<and> a < rx_head e \<and> holds (rx e (slot a)) (fs ! a)) \<and>
     (\<forall>a. rx_tail e \<le> a \<and> a < rx_head e \<and> \<not> busy a \<longrightarrow> \<not> rx_done (rx e (slot a)) \<and>
       rfd_control (rx e (slot a)) = E100_RFA_CONTROL_S) \<and>
     (\<forall>a. length fs \<le> a \<and> a < rx_tail e + E100_RX_SLOTS \<longrightarrow> \<not> rx_done (rx e (slot a))) \<and>
     rfd_control (rx e (slot (rx_tail e + E100_RX_SLOTS - 1))) = E100_RFA_CONTROL_S"

definition busy_of :: "(nat \<Rightarrow> rx_pc) \<Rightarrow> nat \<Rightarrow> bool" where
  "busy_of cs a \<longleftrightarrow> (\<exists>c i. cs c = Handling i a)"

definition rx_inv :: "rx_system \<Rightarrow> bool" where
  "rx_inv s \<longleftrightarrow> ring_inv (drv s) (frames s) (busy_of (cpus s)) \<and>
     ru_slot s = slot (length (frames s)) \<and> (ru_active s \<longrightarrow> length (frames s) < rx_tail (drv s) + E100_RX_SLOTS) \<and>
     (\<forall>c. cpus s c = Looping \<longrightarrow> locked s) \<and> (\<forall>c d. cpus s c = Looping \<longrightarrow> cpus s d = Looping \<longrightarrow> c = d) \<and>
     (\<forall>c i a. cpus s c = Handling i a \<longrightarrow> i = slot a) \<and>
     (\<forall>c d i j a. cpus s c = Handling i a \<longrightarrow> cpus s d = Handling j a \<longrightarrow> c = d) \<and>
     upcalls s = map snd (filter fst (take (rx_head (drv s)) (frames s)))"

lemma upd_rx_simps [simp]:
  "rx (upd_rx i f e) = (rx e)(i := f (rx e i))" "rx_head (upd_rx i f e) = rx_head e" "rx_tail (upd_rx i f e) = rx_tail e"
  "rx_idle (upd_rx i f e) = rx_idle e" "scb (upd_rx i f e) = scb e"
  by (simp_all add: upd_rx_def)

lemma ring_window:
  assumes "ring_inv e fs busy" and "slot a = slot b" and "rx_tail e \<le> a" and "a < rx_tail e + E100_RX_SLOTS" and "rx_tail e \<le> b" and "b < rx_tail e + E100_RX_SLOTS"
  shows "a = b"
  using slot_near assms by blast

text \<open>The slot at the head is done exactly if a frame is there to be claimed.\<close>

lemma head_done:
  assumes "ring_inv e fs busy"
  shows "rx_done (rx e (slot (rx_head e))) \<longleftrightarrow> rx_head e < length fs"
proof (cases "rx_head e < length fs")
  case True
  then show ?thesis using assms holds_done unfolding ring_inv_def by blast
next
  case False
  then have "rx_head e = length fs" using assms by (simp add: ring_inv_def)
  then show ?thesis using assms by (simp add: ring_inv_def)
qed

lemma ring_fill:
  fixes ok :: bool
  assumes inv: "ring_inv e fs busy" and room: "length fs < rx_tail e + E100_RX_SLOTS" and len: "length data \<le> NET_MAXPKT"
  defines "e' \<equiv> upd_rx (slot (length fs)) (\<lambda>r. r\<lparr>rfd_status := E100_RFA_STATUS_C OR (if ok then E100_RFA_STATUS_OK else 0),
      rfd_actual := 0xc000 OR of_nat (length data), rx_buf := copy_in 0 data (rx_buf r)\<rparr>) e"
  shows "ring_inv e' (fs @ [(ok, data)]) busy"
proof -
  note i = inv[unfolded ring_inv_def]
  have other: "rx e' (slot a) = rx e (slot a)" if "rx_tail e \<le> a" "a < rx_tail e + E100_RX_SLOTS" "a \<noteq> length fs" for a
    using ring_window [OF inv, of a "length fs"] that room i by (auto simp: e'_def)
  have new: "holds (rx e' (slot (length fs))) (ok, data)" using fill_holds [OF len] by (simp add: e'_def)
  have ctl: "rfd_control (rx e' k) = rfd_control (rx e k)" "rx_link (rx e' k) = rx_link (rx e k)" for k by (auto simp: e'_def)
  have t: "rx_tail e' = rx_tail e" "rx_head e' = rx_head e" by (auto simp: e'_def)
  show ?thesis unfolding ring_inv_def t ctl
  proof (intro conjI allI impI)
    fix a assume a: "rx_head e \<le> a \<and> a < length (fs @ [(ok, data)])"
    then show "holds (rx e' (slot a)) ((fs @ [(ok, data)]) ! a)"
      using i new other [of a] room by (cases "a = length fs") (auto simp: nth_append)
  next
    fix a assume a: "busy a"
    then show "rx_tail e \<le> a" "a < rx_head e" using i by blast+
    with a show "holds (rx e' (slot a)) ((fs @ [(ok, data)]) ! a)"
      using i other [of a] room by (auto simp: nth_append)
  next
    fix a assume "rx_tail e \<le> a \<and> a < rx_head e \<and> \<not> busy a"
    then show "\<not> rx_done (rx e' (slot a))" "rfd_control (rx e (slot a)) = E100_RFA_CONTROL_S" using i other [of a] room by auto
  next
    fix a assume "length (fs @ [(ok, data)]) \<le> a \<and> a < rx_tail e + E100_RX_SLOTS"
    then show "\<not> rx_done (rx e' (slot a))" using i other [of a] by auto
  qed (use i room in auto)
qed

lemma ring_claim:
  assumes "ring_inv e fs busy" and "rx_head e < length fs" and "rx_head e + 1 < rx_tail e + E100_RX_SLOTS"
  shows "ring_inv (e\<lparr>rx_head := rx_head e + 1\<rparr>) fs (busy(rx_head e := True))"
  using assms unfolding ring_inv_def by (auto simp: less_Suc_eq)

lemma ring_unclaim:
  assumes inv: "ring_inv e fs busy" and b: "busy a"
  shows "ring_inv (upd_rx (slot a) (\<lambda>r. r\<lparr>rfd_control := E100_RFA_CONTROL_S, rfd_status := 0, rfd_actual := 0\<rparr>) e) fs (busy(a := False))"
proof -
  note i = inv[unfolded ring_inv_def]
  let ?e = "upd_rx (slot a) (\<lambda>r. r\<lparr>rfd_control := E100_RFA_CONTROL_S, rfd_status := 0, rfd_actual := 0\<rparr>) e"
  have a: "rx_tail e \<le> a" "a < rx_head e" using i b by blast+
  have other: "rx ?e (slot b) = rx e (slot b)" if "rx_tail e \<le> b" "b < rx_tail e + E100_RX_SLOTS" "b \<noteq> a" for b
    using ring_window [OF inv, of b a] that a i by auto
  have new: "\<not> rx_done (rx ?e (slot a))" by (simp add: rx_done_def)
  show ?thesis unfolding ring_inv_def upd_rx_simps(2,3)
  proof (intro conjI allI impI)
    fix b assume "rx_head e \<le> b \<and> b < length fs"
    then show "holds (rx ?e (slot b)) (fs ! b)" using i a other [of b] by auto
  next
    fix b assume b': "(busy(a := False)) b"
    then show "rx_tail e \<le> b" "b < rx_head e" using i by (auto split: if_splits)
    then show "holds (rx ?e (slot b)) (fs ! b)" using i b' other [of b] by (auto split: if_splits)
  next
    fix b assume "rx_tail e \<le> b \<and> b < rx_head e \<and> \<not> (busy(a := False)) b"
    then show "\<not> rx_done (rx ?e (slot b))" "rfd_control (rx ?e (slot b)) = E100_RFA_CONTROL_S"
      using i new other [of b] by (cases "b = a"; auto)+
  next
    fix b assume "length fs \<le> b \<and> b < rx_tail e + E100_RX_SLOTS"
    then show "\<not> rx_done (rx ?e (slot b))" using i a other [of b] by auto
  qed (use i in auto)
qed

lemma ring_advance:
  assumes inv: "ring_inv e fs busy" and t: "rx_tail e < rx_head e" and nd: "\<not> rx_done (rx e (slot (rx_tail e)))"
    and e1: "e1 = (if rx_tail e = 0 then e else upd_rx (slot (rx_tail e - 1)) (\<lambda>r. r\<lparr>rfd_control := 0\<rparr>) e)"
  shows "rfd_control (rx e (slot (rx_tail e))) = E100_RFA_CONTROL_S \<and> ring_inv (e1\<lparr>rx_tail := rx_tail e + 1\<rparr>) fs busy"
proof -
  note i = inv[unfolded ring_inv_def]
  have same: "holds (rx e1 k) f = holds (rx e k) f" "rx_done (rx e1 k) = rx_done (rx e k)" "rx_link (rx e1 k) = rx_link (rx e k)"
    "rx_head e1 = rx_head e" for k f by (auto simp: e1)
  have nb: "\<not> busy (rx_tail e)" using i nd holds_done by blast
  have other: "rfd_control (rx e1 (slot a)) = rfd_control (rx e (slot a))" if "rx_tail e \<le> a" "a < rx_head e" for a
    using slot_near [of a "rx_tail e + E100_RX_SLOTS - 1" "rx_tail e"] slot_before [of "rx_tail e"] that i by (auto simp: e1 E100_RX_SLOTS_def)
  have ctl: "rfd_control (rx e (slot (rx_tail e))) = E100_RFA_CONTROL_S" using nb t i by blast
  have s: "slot (rx_tail e + 1 + E100_RX_SLOTS - 1) = slot (rx_tail e)" by simp
  have new: "\<not> rx_done (rx e (slot a))" if "length fs \<le> a" "a < rx_tail e + 1 + E100_RX_SLOTS" for a
    using that i nd by (cases "a = rx_tail e + E100_RX_SLOTS") auto
  have "ring_inv (e1\<lparr>rx_tail := rx_tail e + 1\<rparr>) fs busy"
    unfolding ring_inv_def using i nb t ctl s new other by (auto simp: same Suc_le_eq intro: le_neq_implies_less)
  with ctl show ?thesis by blast
qed

lemma rx_advance_inv:
  assumes "ring_inv e fs busy"
  shows "\<exists>e'. rx_advance e = Some e' \<and> ring_inv e' fs busy \<and> rx_head e' = rx_head e \<and> rx_tail e \<le> rx_tail e'"
  using assms
proof (induction e rule: rx_advance.induct)
  case (1 e)
  show ?case
  proof (cases "rx_tail e < rx_head e \<and> \<not> rx_done (rx e (slot (rx_tail e)))")
    case True
    define e1 where "e1 = (if rx_tail e = 0 then e else upd_rx (slot (rx_tail e - 1)) (\<lambda>r. r\<lparr>rfd_control := 0\<rparr>) e)"
    have a: "rfd_control (rx e (slot (rx_tail e))) = E100_RFA_CONTROL_S" "ring_inv (e1\<lparr>rx_tail := rx_tail e + 1\<rparr>) fs busy"
      using ring_advance [OF "1.prems" _ _ e1_def] True by blast+
    then obtain e' where "rx_advance (e1\<lparr>rx_tail := rx_tail e + 1\<rparr>) = Some e'" "ring_inv e' fs busy" "rx_head e' = rx_head e1"
        "rx_tail e + 1 \<le> rx_tail e'"
      using "1.IH" [OF True _ e1_def] by auto
    then show ?thesis using True a(1) by (auto simp: rx_advance.simps [of e] e1_def)
  next
    case False
    then show ?thesis using "1.prems" by (auto simp: rx_advance.simps [of e])
  qed
qed

lemma ring_idle: "ring_inv (e\<lparr>rx_idle := v\<rparr>) fs busy = ring_inv e fs busy" "ring_inv (e\<lparr>scb := w\<rparr>) fs busy = ring_inv e fs busy"
  by (simp_all add: ring_inv_def)

lemma start_receiving_done: "rx_done (rx (drv s) (slot (rx_head (drv s)))) \<Longrightarrow> start_receiving s = s"
  by (simp add: start_receiving_def e100_rx_start_def)

lemma start_receiving_free:
  assumes "\<not> rx_done (rx (drv s) (slot (rx_head (drv s))))"
  shows "start_receiving s = s\<lparr>drv := e100_rx_start (drv s),
    ru_slot := (if rx_idle (drv s) then slot (rx_head (drv s)) else ru_slot s), ru_active := True\<rparr>"
  using assms by (simp add: start_receiving_def e100_rx_start_def scb_cmd_def Let_def)

lemma rx_start_simps [simp]: "ring_inv (e100_rx_start e) fs busy = ring_inv e fs busy" "rx_head (e100_rx_start e) = rx_head e"
  "rx_tail (e100_rx_start e) = rx_tail e" "rx (e100_rx_start e) = rx e"
  by (simp_all add: e100_rx_start_def scb_cmd_def Let_def ring_idle)

text \<open>The card is started only when a slot is free, and then where it was.\<close>

lemma start_receiving_inv:
  assumes inv: "rx_inv s"
  shows "rx_inv (start_receiving s)"
proof (cases "rx_done (rx (drv s) (slot (rx_head (drv s))))")
  case True
  then show ?thesis using inv by (simp add: start_receiving_done)
next
  case False
  have i: "ring_inv (drv s) (frames s) (busy_of (cpus s))" using inv by (simp add: rx_inv_def)
  then have "rx_head (drv s) = length (frames s)" "length (frames s) < rx_tail (drv s) + E100_RX_SLOTS"
    using False head_done [OF i] by (auto simp: ring_inv_def)
  then show ?thesis using inv False by (simp add: start_receiving_free rx_inv_def)
qed

subsection \<open>The steps keep the invariant\<close>

lemma busy_of_handle: "\<forall>i a. cs c \<noteq> Handling i a \<Longrightarrow> busy_of (cs(c := Handling i a)) = (busy_of cs)(a := True)"
  unfolding busy_of_def fun_eq_iff by (auto; metis)

lemma busy_of_other: "\<forall>i a. cs c \<noteq> Handling i a \<Longrightarrow> pc = Looping \<or> pc = Outside \<Longrightarrow> busy_of (cs(c := pc)) = busy_of cs"
  unfolding busy_of_def fun_eq_iff by (auto; metis)

lemma rx_claim_cases:
  assumes "ring_inv e fs busy" and "rx_claim e = Some (Some i, e')"
  shows "i = slot (rx_head e) \<and> e' = e\<lparr>rx_head := rx_head e + 1\<rparr> \<and> rx_done (rx e i)"
  using assms by (auto simp: rx_claim_def Let_def split: if_splits)

lemma busy_of_handled:
  assumes "cs c = Handling i a" and "\<forall>d e i j a. cs d = Handling i a \<longrightarrow> cs e = Handling j a \<longrightarrow> d = e"
  shows "busy_of (cs(c := Looping)) = (busy_of cs)(a := False)"
  unfolding busy_of_def fun_eq_iff using assms by (auto; metis rx_pc.inject)

lemma card_inv:
  assumes "rx_inv s" and "ru_active s" and "length data \<le> NET_MAXPKT"
  shows "rx_inv (card_fill ok data s)"
proof -
  note i = assms(1)[unfolded rx_inv_def]
  have ri: "ring_inv (drv s) (frames s) (busy_of (cpus s))" and room: "length (frames s) < rx_tail (drv s) + E100_RX_SLOTS"
    and sl: "ru_slot s = slot (length (frames s))" using i assms(2) by auto
  have l: "rx_link (rx (drv s) (slot (length (frames s)))) = slot (Suc (length (frames s)))"
    using ri slot_Suc by (simp add: ring_inv_def)
  have "length (frames s) + 1 < rx_tail (drv s) + E100_RX_SLOTS" if "rfd_control (rx (drv s) (slot (length (frames s)))) AND E100_RFA_CONTROL_S = 0"
  proof (rule ccontr)
    assume "\<not> ?thesis"
    then have "length (frames s) = rx_tail (drv s) + E100_RX_SLOTS - 1" using room by (simp add: E100_RX_SLOTS_def)
    then have "rfd_control (rx (drv s) (slot (length (frames s)))) = E100_RFA_CONTROL_S" using ri by (simp add: ring_inv_def)
    with that show False by (simp add: E100_RFA_CONTROL_S_def)
  qed
  moreover have "take (rx_head (drv s)) (frames s @ [(ok, data)]) = take (rx_head (drv s)) (frames s)"
    using ri by (simp add: ring_inv_def)
  ultimately show ?thesis unfolding rx_inv_def using i ring_fill [OF ri room assms(3), of ok]
    by (simp add: card_fill_def sl l)
qed

lemma handle_inv:
  assumes "rx_inv s" and "cpus s c = Looping" and cl: "rx_claim (drv s) = Some (Some i, e)" and ok: "rx_ok (rx e i)"
    and full: "rx_head e < rx_tail e + E100_RX_SLOTS"
  shows "rx_inv (s\<lparr>drv := e, locked := False, cpus := (cpus s)(c := Handling i (rx_head (drv s))), upcalls := upcalls s @ [rx_packet i e]\<rparr>)"
proof -
  note inv = assms(1)[unfolded rx_inv_def]
  let ?h = "rx_head (drv s)"
  have ri: "ring_inv (drv s) (frames s) (busy_of (cpus s))" using inv by blast
  have e: "i = slot ?h" "e = (drv s)\<lparr>rx_head := ?h + 1\<rparr>" "rx_done (rx (drv s) i)" using rx_claim_cases [OF ri cl] by auto
  have h: "?h < length (frames s)" using head_done [OF ri] e by simp
  have f: "holds (rx e i) (frames s ! ?h)" using ri h e by (simp add: ring_inv_def)
  have up: "take (Suc ?h) (frames s) = take ?h (frames s) @ [frames s ! ?h]" using h by (rule take_Suc_conv_app_nth)
  have "busy_of ((cpus s)(c := Handling i ?h)) = (busy_of (cpus s))(?h := True)" using assms(2) by (intro busy_of_handle) simp
  then have "ring_inv e (frames s) (busy_of ((cpus s)(c := Handling i ?h)))" using ring_claim [OF ri h] full e(2) by simp
  moreover have "\<not> busy_of (cpus s) ?h" using ri by (auto simp: ring_inv_def)
  ultimately show ?thesis unfolding rx_inv_def using inv assms(2) up holds_packet [OF f] holds_ok [OF f] ok
    by (auto simp: e(1,2) busy_of_def split: if_splits)
qed

lemma damaged_inv:
  assumes "rx_inv s" and "cpus s c = Looping" and cl: "rx_claim (drv s) = Some (Some i, e)" and bad: "\<not> rx_ok (rx e i)"
    and un: "rx_unclaim i e = Some e1" and full: "rx_head e1 < rx_tail e1 + E100_RX_SLOTS"
  shows "rx_inv (s\<lparr>drv := e1\<rparr>)"
proof -
  note inv = assms(1)[unfolded rx_inv_def]
  let ?h = "rx_head (drv s)"
  have ri: "ring_inv (drv s) (frames s) (busy_of (cpus s))" using inv by blast
  have e: "i = slot ?h" "e = (drv s)\<lparr>rx_head := ?h + 1\<rparr>" "rx_done (rx (drv s) i)" using rx_claim_cases [OF ri cl] by auto
  have h: "?h < length (frames s)" using head_done [OF ri] e by simp
  have e1: "e1 = upd_rx i (\<lambda>r. r\<lparr>rfd_control := E100_RFA_CONTROL_S, rfd_status := 0, rfd_actual := 0\<rparr>) e" using un by (simp add: rx_unclaim_def)
  have f: "holds (rx e i) (frames s ! ?h)" using ri h e by (simp add: ring_inv_def)
  have nb: "\<not> busy_of (cpus s) ?h" using ri by (auto simp: ring_inv_def)
  have "ring_inv e (frames s) ((busy_of (cpus s))(?h := True))" using ring_claim [OF ri h] full e(2) e1 by simp
  from ring_unclaim [OF this, of ?h] have "ring_inv e1 (frames s) (busy_of (cpus s))" using nb e(1) e1 by (simp add: fun_upd_idem)
  then show ?thesis unfolding rx_inv_def using inv take_Suc_conv_app_nth [OF h] holds_ok [OF f] bad by (simp add: e1 e(2))
qed

lemma handled_inv:
  assumes "rx_inv s" and c: "cpus s c = Handling i a" and "\<not> locked s" and un: "rx_unclaim i (drv s) = Some e"
  shows "rx_inv (s\<lparr>drv := e, locked := True, cpus := (cpus s)(c := Looping)\<rparr>)"
proof -
  note inv = assms(1)[unfolded rx_inv_def]
  have ri: "ring_inv (drv s) (frames s) (busy_of (cpus s))" using inv by blast
  have ia: "i = slot a" "busy_of (cpus s) a" using inv c by (auto simp: busy_of_def)
  have e: "e = upd_rx i (\<lambda>r. r\<lparr>rfd_control := E100_RFA_CONTROL_S, rfd_status := 0, rfd_actual := 0\<rparr>) (drv s)" using un by (simp add: rx_unclaim_def)
  have "busy_of ((cpus s)(c := Looping)) = (busy_of (cpus s))(a := False)" using c inv by (intro busy_of_handled) blast+
  then have "ring_inv e (frames s) (busy_of ((cpus s)(c := Looping)))" using ring_unclaim [OF ri ia(2)] e ia(1) by simp
  then show ?thesis unfolding rx_inv_def using inv assms(3) by (auto simp: e split: if_splits)
qed

lemma leave_inv:
  assumes "rx_inv s" and c: "cpus s c = Looping" and "rx_claim (drv s) = Some (None, e)" and ad: "rx_advance e = Some e1"
  shows "rx_inv (start_receiving (s\<lparr>drv := e1, locked := False, cpus := (cpus s)(c := Outside)\<rparr>))"
proof (rule start_receiving_inv)
  note inv = assms(1)[unfolded rx_inv_def]
  have e: "e = drv s" using assms(3) by (auto simp: rx_claim_def Let_def split: if_splits)
  have ri: "ring_inv e1 (frames s) (busy_of (cpus s))" and h: "rx_head e1 = rx_head (drv s)" "rx_tail (drv s) \<le> rx_tail e1"
    using rx_advance_inv [of "drv s" "frames s" "busy_of (cpus s)"] inv ad e by auto
  have "busy_of ((cpus s)(c := Outside)) = busy_of (cpus s)" using c by (intro busy_of_other) auto
  then show "rx_inv (s\<lparr>drv := e1, locked := False, cpus := (cpus s)(c := Outside)\<rparr>)"
    unfolding rx_inv_def using inv ri h c by (auto split: if_splits)
qed

lemma rx_idle_inv: "rx_inv (s\<lparr>drv := (drv s)\<lparr>rx_idle := v\<rparr>\<rparr>) = rx_inv s"
  by (simp add: rx_inv_def ring_idle)

lemma intr_inv:
  assumes "rx_inv s" and "\<not> locked s" and c: "cpus s c = Outside"
  shows "rx_inv (s\<lparr>drv := (drv s)\<lparr>rx_idle := v\<rparr>, locked := True, cpus := (cpus s)(c := Looping)\<rparr>)"
proof -
  have "busy_of ((cpus s)(c := Looping)) = busy_of (cpus s)" using c by (intro busy_of_other) auto
  then show ?thesis using assms unfolding rx_inv_def by (auto simp: ring_idle split: if_splits)
qed

lemma rx_step_inv: "rx_step s t \<Longrightarrow> rx_inv s \<Longrightarrow> rx_head (drv t) < rx_tail (drv t) + E100_RX_SLOTS \<Longrightarrow> rx_inv t"
proof (induction rule: rx_step.induct)
  case (intr_quiet s c rnr)
  then show ?case by (intro start_receiving_inv) (simp add: rx_idle_inv)
next
  case (handle s c i e)
  then show ?case by (intro handle_inv) auto
next
  case (damaged s c i e e1)
  then show ?case by (intro damaged_inv) auto
qed (simp_all add: card_inv intr_inv handled_inv leave_inv)

lemma rx_reachable_inv: "rx_reachable False s \<Longrightarrow> rx_inv s"
proof (induction rule: rx_reachable.induct)
  case init
  show ?case by (simp add: rx_inv_def rx_init_def ring_inv_def e100_attach_def e100_rx_start_def scb_cmd_def busy_of_def rx_done_def E100_RX_SLOTS_def)
next
  case (step s t)
  then show ?case using rx_step_inv by blast
qed

subsection \<open>Receiving\<close>

text \<open>C15: On any number of CPUs and in any order of steps in which the head stays less than a whole ring ahead of the tail: the
  network stack has been called with exactly the intact frames among those claimed, each once and in the order of their arrival;
  the buffer of a packet that is being handled still holds that packet; the card, when it is receiving, is about to fill a slot
  that is free; and no assertion of the receive loop fails.
\<close>

theorem rx_exactly_once:
  assumes "rx_reachable False s"
  shows "upcalls s = map snd (filter fst (take (rx_head (drv s)) (frames s))) \<and>
    (\<forall>c i a. cpus s c = Handling i a \<longrightarrow> rx_packet i (drv s) = snd (frames s ! a) \<and> rx_unclaim i (drv s) \<noteq> None) \<and>
    (ru_active s \<longrightarrow> \<not> rx_done (rx (drv s) (ru_slot s))) \<and> rx_advance (drv s) \<noteq> None"
proof -
  note inv = rx_reachable_inv [OF assms, unfolded rx_inv_def]
  have ri: "ring_inv (drv s) (frames s) (busy_of (cpus s))" using inv by blast
  have h: "holds (rx (drv s) i) (frames s ! a)" if c: "cpus s c = Handling i a" for c i a
  proof -
    have "i = slot a" "busy_of (cpus s) a" using inv c unfolding busy_of_def by blast+
    then show ?thesis using ri unfolding ring_inv_def by blast
  qed
  have "rx_packet i (drv s) = snd (frames s ! a) \<and> rx_unclaim i (drv s) \<noteq> None" if "cpus s c = Handling i a" for c i a
    using holds_packet [OF h [OF that]] holds_done [OF h [OF that]] by (simp add: rx_unclaim_def)
  moreover have "\<not> rx_done (rx (drv s) (ru_slot s))" if "ru_active s" using that inv ri by (simp add: ring_inv_def)
  moreover have "rx_advance (drv s) \<noteq> None" using rx_advance_inv [OF ri] by auto
  ultimately show ?thesis using inv by blast
qed

text \<open>When the head is a whole ring ahead and every frame has been handled, moving the tail clears the suspend bit of the slot that
  it comes to last, and then asserts that it is there.\<close>

lemma advance_stops:
  assumes "rx_tail e \<le> a" and "a < rx_head e" and "rfd_control (rx e (slot a)) = 0" and "\<forall>i. \<not> rx_done (rx e i)"
  shows "rx_advance e = None"
  using assms
proof (induction e rule: rx_advance.induct)
  case (1 e)
  define e1 where "e1 = (if rx_tail e = 0 then e else upd_rx (slot (rx_tail e - 1)) (\<lambda>r. r\<lparr>rfd_control := 0\<rparr>) e)"
  show ?case
  proof (cases "rx_tail e = a \<or> rfd_control (rx e (slot (rx_tail e))) \<noteq> E100_RFA_CONTROL_S")
    case True
    then show ?thesis using "1.prems" by (auto simp: rx_advance.simps [of e] E100_RFA_CONTROL_S_def)
  next
    case False
    have "rx_advance (e1\<lparr>rx_tail := rx_tail e + 1\<rparr>) = None"
    proof (rule "1.IH" [OF _ _ e1_def])
      show "rx_tail e < rx_head e \<and> \<not> rx_done (rx e (slot (rx_tail e)))" using "1.prems" by auto
      show "cassert (rfd_control (rx e (slot (rx_tail e))) = E100_RFA_CONTROL_S) = Some ()" using False by simp
      show "rx_tail (e1\<lparr>rx_tail := rx_tail e + 1\<rparr>) \<le> a" using "1.prems"(1) False by (auto simp: e1_def)
    qed (use "1.prems" in \<open>auto simp: e1_def\<close>)
    moreover have "rx_advance e = rx_advance (e1\<lparr>rx_tail := rx_tail e + 1\<rparr>)"
      using False "1.prems" by (simp add: rx_advance.simps [of e] e1_def)
    ultimately show ?thesis by simp
  qed
qed

lemma full_ring_panics:
  assumes "rx_head e = rx_tail e + E100_RX_SLOTS" and "0 < rx_tail e" and "\<forall>i. \<not> rx_done (rx e i)"
  shows "rx_advance e = None"
proof (cases "rfd_control (rx e (slot (rx_tail e))) = E100_RFA_CONTROL_S")
  case True
  let ?e = "(upd_rx (slot (rx_tail e - 1)) (\<lambda>r. r\<lparr>rfd_control := 0\<rparr>) e)\<lparr>rx_tail := rx_tail e + 1\<rparr>"
  have "rx_advance ?e = None"
  proof (rule advance_stops)
    show "rx_tail ?e \<le> rx_tail e + E100_RX_SLOTS - 1" by (simp add: E100_RX_SLOTS_def)
    show "rx_tail e + E100_RX_SLOTS - 1 < rx_head ?e" using assms(1) by (simp add: E100_RX_SLOTS_def)
    show "rfd_control (rx ?e (slot (rx_tail e + E100_RX_SLOTS - 1))) = 0" unfolding slot_before [OF assms(2), symmetric] by simp
    show "\<forall>i. \<not> rx_done (rx ?e i)" using assms(3) by simp
  qed
  then show ?thesis using assms True by (subst rx_advance.simps) (simp add: E100_RX_SLOTS_def)
next
  case False
  then show ?thesis using assms by (subst rx_advance.simps) (simp add: E100_RX_SLOTS_def)
qed

subsection \<open>A frame handled twice\<close>

text \<open>A run of two CPUs. The card fills the ring; one CPU claims the first frame, and while it handles it the other goes through the rest
  of the ring and comes back to the first slot, which is still done.\<close>

definition filled :: "nat \<Rightarrow> rx_system \<Rightarrow> bool" where
  "filled k s \<longleftrightarrow> rx_reachable True s \<and> \<not> locked s \<and> cpus s = (\<lambda>_. Outside) \<and> rx_head (drv s) = 0 \<and> rx_tail (drv s) = 0 \<and>
     ru_slot s = slot k \<and> (k < E100_RX_SLOTS \<longrightarrow> ru_active s) \<and> (\<forall>i < E100_RX_SLOTS. rx_link (rx (drv s) i) = slot (i + 1)) \<and>
     (\<forall>i < k. rx_done (rx (drv s) i) \<and> rx_ok (rx (drv s) i)) \<and> (\<forall>i < E100_RX_SLOTS - 1. rfd_control (rx (drv s) i) = 0)"

lemma filled_reach: "k \<le> E100_RX_SLOTS \<Longrightarrow> \<exists>s. filled k s"
proof (induction k)
  case 0
  have "rx_reachable True rx_init" by (rule rx_reachable.init)
  moreover have "rx_head (drv rx_init) = 0" "rx_tail (drv rx_init) = 0" "\<not> locked rx_init" "cpus rx_init = (\<lambda>_. Outside)"
    "ru_slot rx_init = slot 0" "ru_active rx_init" "rx_link (rx (drv rx_init) i) = slot (i + 1)"
    "i < E100_RX_SLOTS - 1 \<Longrightarrow> rfd_control (rx (drv rx_init) i) = 0" for i
    by (simp_all add: rx_init_def e100_attach_def)
  ultimately have "filled 0 rx_init" unfolding filled_def by blast
  then show ?case by blast
next
  case (Suc k)
  then obtain s where s: "filled k s" by auto
  then have k: "slot k = k" "ru_active s" "rx_reachable True s" using Suc.prems by (auto simp: filled_def)
  define t where "t = card_fill True [] s"
  have "rx_step s t" unfolding t_def using k(2) by (intro rx_step.card) simp_all
  then have "rx_reachable True t" using k(3) rx_reachable.step by blast
  moreover have "rx_done (rx (drv t) k) \<and> rx_ok (rx (drv t) k)" using s k
    by (simp add: t_def card_fill_def filled_def rx_done_def rx_ok_def E100_RFA_STATUS_C_def E100_RFA_STATUS_OK_def)
  ultimately have "filled (Suc k) t" using s k Suc.prems
    by (auto simp: filled_def t_def card_fill_def less_Suc_eq)
  then show ?case by blast
qed

text \<open>The second CPU has handled the slots from 1 to \<open>k\<close>.\<close>

definition chasing :: "nat \<Rightarrow> rx_system \<Rightarrow> bool" where
  "chasing k s \<longleftrightarrow> rx_reachable True s \<and> cpus s 0 = Handling 0 0 \<and> cpus s 1 = Looping \<and> rx_head (drv s) = k + 1 \<and>
     (\<forall>i < E100_RX_SLOTS. i = 0 \<or> k < i \<longrightarrow> rx_done (rx (drv s) i) \<and> rx_ok (rx (drv s) i))"

lemma claim_step:
  assumes "rx_reachable True s" and "cpus s c = Looping" and "rx_done (rx (drv s) (slot (rx_head (drv s))))"
    and "rx_ok (rx (drv s) (slot (rx_head (drv s))))" and "rx_head (drv s) + 1 < INT_LIMIT"
  shows "\<exists>t. rx_reachable True t \<and> drv t = (drv s)\<lparr>rx_head := rx_head (drv s) + 1\<rparr> \<and> \<not> locked t \<and>
    cpus t = (cpus s)(c := Handling (slot (rx_head (drv s))) (rx_head (drv s)))"
proof -
  let ?i = "slot (rx_head (drv s))" and ?e = "(drv s)\<lparr>rx_head := rx_head (drv s) + 1\<rparr>"
  have "rx_claim (drv s) = Some (Some ?i, ?e)" using assms(3,5) by (simp add: rx_claim_def Let_def)
  note st = rx_step.handle [OF assms(2) this]
  define t where "t = s\<lparr>drv := ?e, locked := False, cpus := (cpus s)(c := Handling ?i (rx_head (drv s))), upcalls := upcalls s @ [rx_packet ?i ?e]\<rparr>"
  have "rx_step s t" unfolding t_def using st assms(4) by simp
  then have "rx_reachable True t" using assms(1) rx_reachable.step by blast
  moreover have "drv t = ?e" "\<not> locked t" "cpus t = (cpus s)(c := Handling ?i (rx_head (drv s)))" by (simp_all add: t_def)
  ultimately show ?thesis by blast
qed

lemma chasing_start: "\<exists>s. chasing 0 s"
proof -
  obtain s where s: "filled E100_RX_SLOTS s" using filled_reach by blast
  have e: "0 < E100_RX_SLOTS" "slot 0 = 0" by (simp_all add: E100_RX_SLOTS_def)
  have st: "rx_step s (s\<lparr>drv := (drv s)\<lparr>rx_idle := False \<or> rx_idle (drv s)\<rparr>, locked := True, cpus := (cpus s)(0 := Looping)\<rparr>)"
    using s by (intro rx_step.intr) (simp_all add: filled_def)
  define s1 where "s1 = s\<lparr>drv := (drv s)\<lparr>rx_idle := False \<or> rx_idle (drv s)\<rparr>, locked := True, cpus := (cpus s)(0 := Looping)\<rparr>"
  have r1: "rx_reachable True s1" unfolding s1_def using s st rx_reachable.step by (auto simp: filled_def)
  obtain s2 where s2: "rx_reachable True s2" "drv s2 = (drv s1)\<lparr>rx_head := 1\<rparr>" "\<not> locked s2" "cpus s2 = (cpus s1)(0 := Handling 0 0)"
    using claim_step [OF r1, of 0] s e by (auto simp: s1_def filled_def INT_LIMIT_def)
  define s3 where "s3 = s2\<lparr>drv := (drv s2)\<lparr>rx_idle := False \<or> rx_idle (drv s2)\<rparr>, locked := True, cpus := (cpus s2)(1 := Looping)\<rparr>"
  have "rx_step s2 s3" unfolding s3_def using s2 s by (intro rx_step.intr) (simp_all add: s1_def filled_def)
  then have "rx_reachable True s3" using s2(1) rx_reachable.step by blast
  then have "chasing 0 s3" using s s2 by (auto simp: chasing_def s3_def s1_def filled_def)
  then show ?thesis by blast
qed

lemma chasing_step:
  assumes "chasing k s" and "k + 1 < E100_RX_SLOTS"
  shows "\<exists>t. chasing (k + 1) t"
proof -
  note c = assms(1)[unfolded chasing_def]
  have sl: "slot (k + 1) = k + 1" using assms(2) by simp
  have lim: "k + 1 + 1 < INT_LIMIT" using assms(2) by (simp add: E100_RX_SLOTS_def INT_LIMIT_def)
  obtain t where t: "rx_reachable True t" "drv t = (drv s)\<lparr>rx_head := k + 2\<rparr>" "\<not> locked t" "cpus t = (cpus s)(1 := Handling (k + 1) (k + 1))"
    using claim_step [of s 1] c assms(2) sl lim by auto
  define e where "e = upd_rx (k + 1) (\<lambda>r. r\<lparr>rfd_control := E100_RFA_CONTROL_S, rfd_status := 0, rfd_actual := 0\<rparr>) (drv t)"
  have "rx_unclaim (k + 1) (drv t) = Some e" using c assms(2) t(2) by (simp add: rx_unclaim_def e_def)
  then have "rx_step t (t\<lparr>drv := e, locked := True, cpus := (cpus t)(1 := Looping)\<rparr>)" using t by (intro rx_step.handled) simp_all
  then have "rx_reachable True (t\<lparr>drv := e, locked := True, cpus := (cpus t)(1 := Looping)\<rparr>)" using t(1) rx_reachable.step by blast
  then have "chasing (k + 1) (t\<lparr>drv := e, locked := True, cpus := (cpus t)(1 := Looping)\<rparr>)"
    using c t by (auto simp: chasing_def e_def)
  then show ?thesis by blast
qed

lemma chasing_all: "k < E100_RX_SLOTS \<Longrightarrow> \<exists>s. chasing k s"
  by (induction k) (use chasing_start chasing_step in auto)

text \<open>There is a run of two CPUs in which both handle the frame of the same slot at the same time, because the second finds the
  slot still done when the head has gone once around the ring; and when the second has finished, the assertion
  that the first will come to fails.
\<close>

theorem frame_handled_twice:
  "\<exists>s t e. rx_reachable True s \<and> cpus s 0 = Handling 0 0 \<and> cpus s 1 = Handling 0 E100_RX_SLOTS \<and>
     rx_step s t \<and> cpus t 0 = Handling 0 0 \<and> drv t = e \<and> rx_unclaim 0 e = None"
proof -
  obtain s0 where s0: "chasing (E100_RX_SLOTS - 1) s0" using chasing_all [of "E100_RX_SLOTS - 1"] by (auto simp: E100_RX_SLOTS_def)
  note c = s0[unfolded chasing_def]
  have h: "rx_head (drv s0) = E100_RX_SLOTS" "slot E100_RX_SLOTS = 0" using c by (simp_all add: E100_RX_SLOTS_def)
  obtain s where s: "rx_reachable True s" "drv s = (drv s0)\<lparr>rx_head := E100_RX_SLOTS + 1\<rparr>" "\<not> locked s"
      "cpus s = (cpus s0)(1 := Handling 0 E100_RX_SLOTS)"
    using claim_step [of s0 1] c h by (auto simp: INT_LIMIT_def E100_RX_SLOTS_def)
  define e where "e = upd_rx 0 (\<lambda>r. r\<lparr>rfd_control := E100_RFA_CONTROL_S, rfd_status := 0, rfd_actual := 0\<rparr>) (drv s)"
  have "rx_unclaim 0 (drv s) = Some e" using c s(2) by (simp add: rx_unclaim_def e_def E100_RX_SLOTS_def)
  then have "rx_step s (s\<lparr>drv := e, locked := True, cpus := (cpus s)(1 := Looping)\<rparr>)" using s by (intro rx_step.handled) simp_all
  moreover have "rx_unclaim 0 e = None" by (simp add: rx_unclaim_def e_def rx_done_def)
  ultimately show ?thesis using s c
    by (intro exI [of _ s] exI [of _ "s\<lparr>drv := e, locked := True, cpus := (cpus s)(1 := Looping)\<rparr>"] exI [of _ e]) simp
qed

definition demo_filled :: rx_system where "demo_filled = card_fill True [1, 2, 3] rx_init"

definition demo_looping :: rx_system where
  "demo_looping = demo_filled\<lparr>drv := (drv demo_filled)\<lparr>rx_idle := False \<or> rx_idle (drv demo_filled)\<rparr>, locked := True,
     cpus := (cpus demo_filled)(0 := Looping)\<rparr>"

definition demo_handling :: rx_system where
  "demo_handling = demo_looping\<lparr>drv := (drv demo_looping)\<lparr>rx_head := 1\<rparr>, locked := False, cpus := (cpus demo_looping)(0 := Handling 0 0),
     upcalls := upcalls demo_looping @ [rx_packet 0 ((drv demo_looping)\<lparr>rx_head := 1\<rparr>)]\<rparr>"

lemma demo_drv:
  "rx_head (drv rx_init) = 0" "rx_tail (drv rx_init) = 0" "cpus rx_init = (\<lambda>_. Outside)" "\<not> locked rx_init" "ru_slot rx_init = 0"
  "ru_active rx_init" "frames rx_init = []"
  by (simp_all add: rx_init_def e100_attach_def)

lemma demo_reachable: "rx_reachable False demo_handling"
proof -
  have n: "0 < E100_RX_SLOTS" "Suc 0 < E100_RX_SLOTS" by (simp_all add: E100_RX_SLOTS_def)
  have "rx_step rx_init demo_filled" unfolding demo_filled_def by (rule rx_step.card) (simp_all add: demo_drv NET_MAXPKT_def)
  with rx_reachable.init have r1: "rx_reachable False demo_filled"
    by (rule rx_reachable.step) (simp add: demo_filled_def card_fill_def demo_drv n)
  have "rx_step demo_filled demo_looping" unfolding demo_looping_def
    by (rule rx_step.intr) (simp_all add: demo_filled_def card_fill_def demo_drv)
  with r1 have r2: "rx_reachable False demo_looping"
    by (rule rx_reachable.step) (simp add: demo_looping_def demo_filled_def card_fill_def demo_drv n)
  have d: "rx_head (drv demo_looping) = 0" "cpus demo_looping 0 = Looping" "rx_done (rx (drv demo_looping) 0)" "rx_ok (rx (drv demo_looping) 0)"
    by (simp_all add: demo_looping_def demo_filled_def card_fill_def demo_drv rx_done_def rx_ok_def E100_RFA_STATUS_C_def E100_RFA_STATUS_OK_def)
  have "rx_claim (drv demo_looping) = Some (Some 0, (drv demo_looping)\<lparr>rx_head := 1\<rparr>)" using d by (simp add: rx_claim_def INT_LIMIT_def)
  from rx_step.handle [OF d(2) this] have "rx_step demo_looping demo_handling" using d by (simp add: demo_handling_def)
  with r2 show ?thesis
    by (rule rx_reachable.step) (simp add: demo_handling_def demo_looping_def demo_filled_def card_fill_def demo_drv n)
qed

theorem rx_exactly_once_witness:
  "upcalls demo_handling = [[1, 2, 3]] \<and> cpus demo_handling 0 = Handling 0 0 \<and> rx_packet 0 (drv demo_handling) = [1, 2, 3] \<and>
     rx_advance (drv demo_handling) \<noteq> None"
proof -
  have d: "cpus demo_handling 0 = Handling 0 0" "rx_head (drv demo_handling) = 1" "frames demo_handling = [(True, [1, 2, 3])]"
    by (simp_all add: demo_handling_def demo_looping_def demo_filled_def card_fill_def demo_drv)
  show ?thesis using rx_exactly_once [OF demo_reachable] d by auto
qed

subsection \<open>Transmitting\<close>

definition tx_frame :: "tx_slot \<Rightarrow> u8 list" where "tx_frame t = map (tx_buf t) [0..<tb_size t]"

definition tx_pending :: "e100 \<Rightarrow> u8 list list" where
  "tx_pending e = map (\<lambda>a. tx_frame (tx e (a mod E100_TX_SLOTS))) [tx_tail e..<tx_head e]"

definition tx_wf :: "e100 \<Rightarrow> bool" where
  "tx_wf e \<longleftrightarrow> tx_tail e \<le> tx_head e \<and> tx_head e \<le> tx_tail e + E100_TX_SLOTS"

lemma tx_start_simps:
  "tx_tail e \<noteq> tx_head e \<Longrightarrow> \<exists>e'. e100_tx_start e = Some e' \<and> tx e' = tx e \<and> tx_head e' = tx_head e \<and> tx_tail e' = tx_tail e"
  by (simp add: e100_tx_start_def scb_cmd_def)

lemma copy_in_append:
  "map (copy_in (length hdr) body (copy_in 0 hdr b)) [0..<max (length hdr + length body) 64] =
     hdr @ body @ map b [length hdr + length body..<64]"
proof (rule nth_equalityI)
  fix i
  assume "i < length (map (copy_in (length hdr) body (copy_in 0 hdr b)) [0..<max (length hdr + length body) 64])"
  then have "i < max (length hdr + length body) 64" by simp
  then show "map (copy_in (length hdr) body (copy_in 0 hdr b)) [0..<max (length hdr + length body) 64] ! i =
      (hdr @ body @ map b [length hdr + length body..<64]) ! i"
    by (cases "i < length hdr"; cases "i < length hdr + length body") (auto simp: copy_in_def nth_append)
qed auto

text \<open>The transmit ring is a queue of at most 64 frames. A call of \<open>e100_tx\<close> returns 0 and changes nothing if the queue is full; otherwise
  it returns 1 and appends the header and the body. A frame of less than 64 bytes is filled up with what the slot's buffer held before.
\<close>

theorem e100_tx_appends:
  assumes "tx_wf e" and "length hdr + length body \<le> NET_MAXPKT" and "tx_head e + 1 < INT_LIMIT"
  shows "\<exists>ok e'. e100_tx hdr body e = Some (ok, e') \<and> tx_wf e' \<and> ok = (length (tx_pending e) < E100_TX_SLOTS) \<and>
    (if ok then tx_pending e' = tx_pending e @ [hdr @ body @ map (tx_buf (tx e (tx_head e mod E100_TX_SLOTS))) [length hdr + length body..<64]]
     else e' = e)"
proof (cases "tx_head e - tx_tail e = E100_TX_SLOTS")
  case True
  then show ?thesis using assms by (intro exI [of _ False] exI [of _ e]) (simp add: e100_tx_def tx_pending_def)
next
  case False
  let ?i = "tx_head e mod E100_TX_SLOTS"
  define t where "t = (tx e ?i)\<lparr>tx_buf := copy_in (length hdr) body (copy_in 0 hdr (tx_buf (tx e ?i))), tb_size := max (length hdr + length body) 64,
    cb_status := 0, cb_command := E100_CB_COMMAND_XMIT OR E100_CB_COMMAND_SF OR E100_CB_COMMAND_I OR E100_CB_COMMAND_S\<rparr>"
  have less: "tx_head e < tx_tail e + E100_TX_SLOTS" "tx_tail e \<le> tx_head e" using False assms(1) by (auto simp: tx_wf_def)
  obtain e' where e': "e100_tx_start (e\<lparr>tx := (tx e)(?i := t), tx_head := tx_head e + 1\<rparr>) = Some e'"
    "tx e' = (tx e)(?i := t)" "tx_head e' = tx_head e + 1" "tx_tail e' = tx_tail e"
    using tx_start_simps [of "e\<lparr>tx := (tx e)(?i := t), tx_head := tx_head e + 1\<rparr>"] less by auto
  have r: "e100_tx hdr body e = Some (True, e')" using False assms(2,3) e'(1) by (simp add: e100_tx_def Let_def t_def)
  have "a mod E100_TX_SLOTS \<noteq> ?i" if "tx_tail e \<le> a" "a < tx_head e" for a
    using that less slot_eq [of a "tx_head e"] by (auto simp: E100_TX_SLOTS_def E100_RX_SLOTS_def)
  moreover have "tx_frame t = hdr @ body @ map (tx_buf (tx e ?i)) [length hdr + length body..<64]"
    by (simp add: tx_frame_def t_def copy_in_append)
  ultimately have "tx_pending e' = tx_pending e @ [hdr @ body @ map (tx_buf (tx e ?i)) [length hdr + length body..<64]]"
    using less e' by (simp add: tx_pending_def)
  then show ?thesis using r less e' by (auto simp: tx_wf_def tx_pending_def)
qed

theorem e100_tx_appends_witness:
  "\<exists>e'. e100_tx [1, 2] [3] e100_attach = Some (True, e') \<and> tx_pending e' = [[1, 2, 3] @ replicate 61 0]"
proof -
  have w: "tx_wf e100_attach" "tx_head e100_attach = 0" "tx_pending e100_attach = []" "tx_buf (tx e100_attach 0) = (\<lambda>_. 0)"
    by (simp_all add: e100_attach_def e100_rx_start_def scb_cmd_def Let_def tx_wf_def tx_pending_def)
  show ?thesis using e100_tx_appends [OF w(1), of "[1, 2]" "[3]"] w
    by (auto simp: NET_MAXPKT_def INT_LIMIT_def E100_TX_SLOTS_def map_replicate_const)
qed

text \<open>An interrupt takes finished frames off the front of the queue, in order, and no others.\<close>

lemma tx_complete_props:
  assumes "tail \<le> head"
  shows "tail \<le> tx_complete t head tail \<and> tx_complete t head tail \<le> head \<and>
    (\<forall>a. tail \<le> a \<and> a < tx_complete t head tail \<longrightarrow> tx_done (t (a mod E100_TX_SLOTS))) \<and>
    (tx_complete t head tail < head \<longrightarrow> \<not> tx_done (t (tx_complete t head tail mod E100_TX_SLOTS)))"
  using assms
proof (induction t head tail rule: tx_complete.induct)
  case (1 t head tail)
  show ?case
  proof (cases "tail < head \<and> tx_done (t (tail mod E100_TX_SLOTS))")
    case True
    then have e: "tx_complete t head tail = tx_complete t head (tail + 1)" by (simp add: tx_complete.simps [of t head tail])
    have "tail + 1 \<le> head" using True by simp
    note i = "1.IH" [OF True this]
    have "tx_done (t (a mod E100_TX_SLOTS))" if "tail \<le> a" "a < tx_complete t head (tail + 1)" for a
      using that i True by (cases "a = tail") auto
    then show ?thesis unfolding e using i by auto
  next
    case False
    then show ?thesis using "1.prems" by (auto simp: tx_complete.simps [of t head tail])
  qed
qed

lemma intr_tx_drops:
  assumes "tx_wf e"
  shows "\<exists>n. tx_pending (e100_intr_tx e) = drop n (tx_pending e) \<and> tx_wf (e100_intr_tx e)"
proof -
  let ?t = "tx_complete (tx e) (tx_head e) (tx_tail e)"
  have t: "tx_tail e \<le> ?t" "?t \<le> tx_head e" using tx_complete_props [of "tx_tail e" "tx_head e" "tx e"] assms by (auto simp: tx_wf_def)
  have "tx_pending (e100_intr_tx e) = drop (?t - tx_tail e) (tx_pending e)"
    using t by (simp add: tx_pending_def e100_intr_tx_def drop_map)
  then show ?thesis using t assms by (auto simp: tx_wf_def e100_intr_tx_def)
qed

end
