(* ===== verification/Spec2Isabelle.thy ===== *)
theory Spec2Isabelle
  imports Prelude RemoteRef Mem Mmu Pmap Merge Cow Walk Fault Bootmap Spinlock Kernel Frames Proc Sched Syscall SysProps Net NetProps Trap TrapProps
    FileSys Dir FileProps DirProps FileThms Reconcile RecProps RecThms
    Format FormatProps Threads ThreadProps Console ConsProps
    Strings Rng Unistd UniProps Exec ExecProps ExecThms
    Video VideoProps Kbd Lineio Shell Sorting SortProps SortThms E100 E100Props
begin

text \<open>
  A verification development for PIOS/Determinator, an operating system in which parallel programs are deterministic: processes
  share nothing while they run, a parent gives a child a copy of its memory and later merges the child's changes back. The theories
  model the kernel and its C library from the source, as it is configured with all parts enabled (\<open>LAB >= 9\<close>, 64-bit); file and
  function names below are relative to \<open>src/\<close>.

  \<^bold>\<open>The parts and how they interact.\<close> A process enters the kernel by a trap (\<open>kern/trap.c\<close>). A system call
  (\<open>kern/syscall.c\<close>) lets it PUT memory and registers into a child, GET them back, or RETurn to its parent; the scheduler
  (\<open>kern/proc.c\<close>) makes parents wait for children. Memory moves by sharing pages copy-on-write (\<open>kern/pmap.c\<close>, over the page
  allocator of \<open>kern/mem.c\<close>), and GET with a merge combines a child's page with the parent's byte by byte against a snapshot. A child
  on another node is reached by migrating the caller there and pulling pages over the network (\<open>kern/net.c\<close>, through the card of
  \<open>dev/e100.c\<close>). Everything else is in user space: each process has its own copy of the file system (\<open>lib/file.c\<close>,
  \<open>lib/dir.c\<close>), which \<open>fork\<close> copies and \<open>waitpid\<close> reconciles (\<open>lib/fork.c\<close>); threads are children whose shared
  region is merged on join (\<open>lib/pthread.c\<close>, \<open>lib/thread.c\<close>, \<open>lib/bench.c\<close>). The root process's console files are
  connected to the devices by \<open>kern/file.c\<close> and \<open>kern/cons.c\<close>.

  \<^bold>\<open>Conventions.\<close> A C function is a HOL function of the same name that takes the state it changes as its last argument and returns the
  new one. \<open>None\<close> is a panic, a failed assertion, an access outside an array, undefined behaviour, or a loop that does not end;
  the errors that the code reports are values. Machine words are words of their width where they can wrap, and \<open>nat\<close> or \<open>int\<close> where the
  bounds are part of what is proved. Pages are identified by number and physical memory is an array of 64-bit words. Loops are
  structural or have a termination proof; those that need not end are \<open>partial_function (option)\<close>, and their theorems show that they
  return. Code that is not in the repository, and the devices, are arguments.

  \<^bold>\<open>Theories and sources.\<close>

  \<^item> \<open>Prelude\<close>: word types, assertions, option and list lemmas, lists in linked memory, and the collections of simplification rules.
  \<^item> \<open>Mem\<close> (\<open>kern/mem.c\<close>): free list, reference counts, remote-share tracking, boot. The locale \<open>page_pool\<close> is the contract of
    allocation; \<open>mem_init\<close> establishes it. \<open>RemoteRef\<close> (\<open>kern/net.h\<close>), \<open>Mmu\<close> (\<open>inc/mmu.h\<close>, \<open>inc/vm.h\<close>): the arithmetic of
    remote references, addresses and table entries.
  \<^item> \<open>Pmap\<close>, \<open>Merge\<close> (\<open>kern/pmap.c\<close>): every operation on page maps. \<open>Walk\<close>: a walk for writing makes the path private and keeps every
    mapping; an inserted page is then found. \<open>Cow\<close>, \<open>Fault\<close>: the merge of one page is the byte-wise three-way merge, and a
    write fault gives a private copy. \<open>Bootmap\<close>: the page map that the kernel builds at boot, and what addresses it translates.
  \<^item> \<open>Spinlock\<close> (\<open>kern/spinlock.c\<close>): every memory access a step of an interleaving relation; mutual exclusion by rule induction.
  \<^item> \<open>Kernel\<close>, \<open>Proc\<close> (\<open>kern/proc.h\<close>, \<open>kern/proc.c\<close>, \<open>kern/cpu.h\<close>): the kernel's state and the scheduler. \<open>Sched\<close>: the ready queue refines a
    list (locale \<open>fifo\<close>), and in every reachable state the processes are where their state says. \<open>Frames\<close>: memory operations keep that.
  \<^item> \<open>Syscall\<close>, \<open>SysProps\<close> (\<open>kern/syscall.c\<close>): all handlers with their argument checks and copies; privilege, invariants, errors.
  \<^item> \<open>Net\<close>, \<open>NetProps\<close> (\<open>kern/net.c\<close>): migration and page pulling, with the lists of waiting processes (locale \<open>proc_list\<close>).
  \<^item> \<open>Trap\<close>, \<open>TrapProps\<close> (\<open>kern/trap.c\<close>): the dispatcher and the counting of instructions.
  \<^item> \<open>Console\<close>, \<open>ConsProps\<close> (\<open>kern/cons.c\<close>, \<open>kern/file.c\<close>): root process I/O as a simulation (locale \<open>simulation\<close>) of two byte streams.
    \<open>Video\<close>, \<open>VideoProps\<close> (\<open>dev/video.c\<close>): the display as a simulation of an endless text. \<open>Kbd\<close> (\<open>dev/kbd.c\<close>): scan codes.
  \<^item> \<open>E100\<close>, \<open>E100Props\<close> (\<open>dev/e100.c\<close>): the rings shared with the network card, with the card and several processors as a step relation.
  \<^item> \<open>FileSys\<close>, \<open>Dir\<close> (\<open>inc/file.h\<close>, \<open>lib/file.c\<close>, \<open>lib/dir.c\<close>), \<open>FileProps\<close>, \<open>DirProps\<close>, \<open>FileThms\<close>: files refine lists of bytes (locales \<open>byte_store\<close>
    and \<open>append_store\<close>), paths lead back to their inode.
  \<^item> \<open>Reconcile\<close>, \<open>RecProps\<close>, \<open>RecThms\<close> (\<open>lib/fork.c\<close>, \<open>lib/stdlib.c\<close>): fork, exit and wait, and the reconciliation of one file and of all.
  \<^item> \<open>Threads\<close>, \<open>ThreadProps\<close> (\<open>lib/pthread.c\<close>, \<open>lib/thread.c\<close>): joins, barriers and races. \<open>Sorting\<close>, \<open>SortProps\<close>, \<open>SortThms\<close> (\<open>user/pqsort.c\<close>,
    \<open>lib/bench.c\<close>): a parallel program on them, which computes the same memory with any number of threads.
  \<^item> \<open>Exec\<close>, \<open>ExecProps\<close>, \<open>ExecThms\<close> (\<open>lib/exec.c\<close>, \<open>inc/elf.h\<close>, \<open>lib/crt0.S\<close>): program loading. \<open>Shell\<close> (\<open>user/sh.c\<close>): the shell's parser and
    command runner, which calls it.
  \<^item> \<open>Unistd\<close>, \<open>UniProps\<close> (\<open>lib/unistd.c\<close>, \<open>lib/stdio.c\<close>), \<open>Strings\<close> (\<open>lib/string.c\<close>), \<open>Format\<close>, \<open>FormatProps\<close> (\<open>lib/printfmt.c\<close>,
    \<open>lib/sprintf.c\<close>, \<open>lib/scanfmt.c\<close>), \<open>Lineio\<close> (\<open>lib/readline.c\<close>, \<open>lib/getopt.c\<close>), \<open>Rng\<close> (\<open>lib/lrand48.c\<close>, \<open>lib/rngs.c\<close>): the C library.

  \<^bold>\<open>What the theorems show.\<close> The theorems numbered C1, C2, ... stand in the theories of their components. They form these groups:
  the merge and what rests on it (page merge, threads in any order, races, barriers, the parallel sort); copy on write and page maps;
  the scheduler's invariant through system calls, traps and console I/O, its queue, and mutual exclusion of its locks; privilege and
  error reflection of system calls; the cluster protocol; files, directories, reconciliation, and a whole round of fork, append and
  wait; console, display, keyboard and network card; program loading and the shell; number formatting, line input and options.
  Most are about every state that satisfies a stated invariant. Some record where the code does not do what it means to: they show
  what happens, and the lemmas beside them the condition under which it does not.

  \<^bold>\<open>Bounds.\<close> Reading from a file that is still being written takes the list of what the parent does at each wait; when the list is exhausted
  the reader is still waiting. Joining threads takes a number of rounds; one round is enough for threads that exit, and each
  barrier takes one more. The loop over program options is shown to end within as many calls as there are arguments. The sizes of the source
  (256 inodes, 4 MB files, 64 ring slots, 25 rows, 1023 characters) are constants, not parameters.

  \<^bold>\<open>Abstractions.\<close> Above the system calls, user-space theories speak about the contents of address spaces: copying, snapshots and merging are
  the functions that the theorems about \<open>Cow\<close> and \<open>Merge\<close> justify, page by page. A process that waits is a value of its own, not a
  suspended computation. Other processors appear where the code meets them: in \<open>Spinlock\<close>, in \<open>Sched\<close> as a state with several
  processors whose handlers run under the locks, and in \<open>E100\<close>.

  \<^bold>\<open>Not modelled.\<close> The boot loader, start-up of processors and the drivers of interrupt controllers, timers, disk, serial line and bus, which only access
  device registers; the self tests; floating-point formatting and scanning, which rests on binary floating-point arithmetic; Doug
  Lea's allocator and the BSD functions in directories of their own, which are imported; \<open>lib/dsthread.c\<close>, whose initialisation always
  stops at an \<open>assert(0)\<close>; test programs, small commands and benchmark suites.
\<close>

end
